(* ===== verification/Prelude.thy ===== *)
theory Prelude
  imports Main "HOL-Library.Char_ord"
begin

text \<open>
  Shared vocabulary of the development: the result type of fallible operations, the
  SQL-style operations on tables held as row lists, and the Go string and number
  helpers (package strings, strconv, regexp over fixed character classes) that several
  components call. Go strings and byte slices are both modelled as \<open>string\<close>: a HOL
  character is one byte.
\<close>

named_theorems table_simps \<open>facts about rows selected, updated and inserted\<close>
named_theorems string_simps \<open>facts about prefixes, cuts and number syntax\<close>

type_synonym bytes = string

subsection \<open>Results\<close>

fun bind_res :: "'e + 'a \<Rightarrow> ('a \<Rightarrow> 'e + 'b) \<Rightarrow> 'e + 'b" where
  "bind_res (Inl e) f = Inl e"
| "bind_res (Inr x) f = f x"

lemma bind_res_Inr:
  "bind_res r f = Inr y \<longleftrightarrow> (\<exists>x. r = Inr x \<and> f x = Inr y)"
  by (cases r) auto

lemma bind_res_InrE:
  assumes "bind_res r f = Inr y"
  obtains x where "r = Inr x" "f x = Inr y"
  using assms by (auto simp: bind_res_Inr)

subsection \<open>Tables\<close>

text \<open>A table is the list of its rows in rowid order.\<close>

definition select_row :: "('r \<Rightarrow> bool) \<Rightarrow> 'r list \<Rightarrow> 'r option" where
  "select_row P rows = List.find P rows"

definition count_rows :: "('r \<Rightarrow> bool) \<Rightarrow> 'r list \<Rightarrow> nat" where
  "count_rows P rows = length (filter P rows)"

definition update_rows :: "('r \<Rightarrow> bool) \<Rightarrow> ('r \<Rightarrow> 'r) \<Rightarrow> 'r list \<Rightarrow> 'r list" where
  "update_rows P f rows = map (\<lambda>r. if P r then f r else r) rows"

lemma select_row_Nil [simp]: "select_row P [] = None"
  by (simp add: select_row_def)

lemma select_row_Cons [simp]:
  "select_row P (r # rs) = (if P r then Some r else select_row P rs)"
  by (simp add: select_row_def)

lemma select_row_Some:
  "select_row P rows = Some r \<Longrightarrow> r \<in> set rows \<and> P r"
  by (induction rows) (auto split: if_splits)

lemma select_row_None:
  "select_row P rows = None \<longleftrightarrow> (\<forall>r \<in> set rows. \<not> P r)"
  by (induction rows) auto

lemma select_row_append [table_simps]:
  "select_row P (xs @ ys) = (case select_row P xs of None \<Rightarrow> select_row P ys | Some r \<Rightarrow> Some r)"
  by (induction xs) auto

lemma count_rows_zero [table_simps]:
  "count_rows P rows = 0 \<longleftrightarrow> (\<forall>r \<in> set rows. \<not> P r)"
  by (simp add: count_rows_def filter_empty_conv)

lemma count_rows_append [table_simps]:
  "count_rows P (xs @ ys) = count_rows P xs + count_rows P ys"
  by (simp add: count_rows_def)

lemma length_update_rows [simp]: "length (update_rows P f rows) = length rows"
  by (simp add: update_rows_def)

lemma map_update_rows:
  assumes "\<And>r. k (f r) = k r"
  shows "map k (update_rows P f rows) = map k rows"
  by (simp add: update_rows_def assms)

lemma set_update_rows:
  "set (update_rows P f rows) = (\<lambda>r. if P r then f r else r) ` set rows"
  by (simp add: update_rows_def)

lemma select_update_rows:
  assumes "\<And>r. Q (f r) = Q r"
  shows "select_row Q (update_rows P f rows)
       = map_option (\<lambda>r. if P r then f r else r) (select_row Q rows)"
  by (induction rows) (auto simp: update_rows_def assms)

lemma select_row_distinct:
  assumes "distinct (map k rows)" and "r \<in> set rows"
  shows "select_row (\<lambda>x. k x = k r) rows = Some r"
  using assms by (induction rows) (auto simp: rev_image_eqI)

subsection \<open>Strings\<close>

definition has_prefix :: "string \<Rightarrow> string \<Rightarrow> bool" where
  "has_prefix p s = (take (length p) s = p)"

definition has_suffix :: "string \<Rightarrow> string \<Rightarrow> bool" where
  "has_suffix p s = (length p \<le> length s \<and> drop (length s - length p) s = p)"

definition trim_prefix :: "string \<Rightarrow> string \<Rightarrow> string" where
  "trim_prefix p s = (if has_prefix p s then drop (length p) s else s)"

definition trim_suffix :: "string \<Rightarrow> string \<Rightarrow> string" where
  "trim_suffix p s = (if has_suffix p s then take (length s - length p) s else s)"

text \<open>\<open>strings.Cut\<close> on a one-character separator.\<close>

fun cut :: "char \<Rightarrow> string \<Rightarrow> string \<times> string \<times> bool" where
  "cut c [] = ([], [], False)"
| "cut c (x # xs) = (if x = c then ([], xs, True)
     else (case cut c xs of (a, b, ok) \<Rightarrow> (x # a, b, ok)))"

text \<open>\<open>strings.Split\<close> on a one-character separator: always at least one part.\<close>

fun split_on :: "char \<Rightarrow> string \<Rightarrow> string list" where
  "split_on c [] = [[]]"
| "split_on c (x # xs) = (if x = c then [] # split_on c xs
     else (case split_on c xs of [] \<Rightarrow> [[x]] | p # ps \<Rightarrow> (x # p) # ps))"

lemma split_on_single: "c \<notin> set x \<Longrightarrow> split_on c x = [x]"
  by (induction x) auto

lemma split_on_append: "c \<notin> set x \<Longrightarrow> split_on c (x @ c # r) = x # split_on c r"
  by (induction x) auto

lemma split_on_not_Nil [simp]: "split_on c s \<noteq> []"
  by (induction s) (auto split: list.splits)

lemma has_prefix_append [string_simps]: "has_prefix p (p @ s)"
  by (simp add: has_prefix_def)

lemma has_prefix_iff: "has_prefix p s \<longleftrightarrow> (\<exists>t. s = p @ t)"
  by (metis append_take_drop_id has_prefix_append has_prefix_def)

lemma trim_prefix_append [string_simps]: "trim_prefix p (p @ s) = s"
  by (simp add: trim_prefix_def has_prefix_def)

lemma cut_sound:
  "cut c s = (a, b, ok) \<Longrightarrow> c \<notin> set a \<and> (if ok then s = a @ c # b else s = a \<and> b = [])"
  by (induction s arbitrary: a b ok) (auto split: if_splits prod.splits)

lemma cut_append [string_simps]: "c \<notin> set a \<Longrightarrow> cut c (a @ c # b) = (a, b, True)"
  by (induction a) auto

subsection \<open>Characters and numbers\<close>

definition is_digit :: "char \<Rightarrow> bool" where
  "is_digit c = (CHR ''0'' \<le> c \<and> c \<le> CHR ''9'')"

definition is_lower_hex :: "char \<Rightarrow> bool" where
  "is_lower_hex c = (is_digit c \<or> (CHR ''a'' \<le> c \<and> c \<le> CHR ''f''))"

definition digit_val :: "char \<Rightarrow> int" where
  "digit_val c = int (of_char c) - 48"

definition max_int64 :: int where "max_int64 = 9223372036854775807"

definition min_int64 :: int where "min_int64 = - 9223372036854775808"

definition dec_val :: "string \<Rightarrow> int" where
  "dec_val s = foldl (\<lambda>n c. 10 * n + digit_val c) 0 s"

text \<open>
  \<open>strconv.ParseInt (s, 10, 64)\<close>: an optional sign, at least one digit, only digits, and
  a value that fits; anything else is an error.
\<close>

definition parse_int :: "string \<Rightarrow> int option" where
  "parse_int s =
     (let neg = (s \<noteq> [] \<and> hd s = CHR ''-'');
          ds = (if s \<noteq> [] \<and> (hd s = CHR ''-'' \<or> hd s = CHR ''+'') then tl s else s);
          v = (if neg then - dec_val ds else dec_val ds)
      in if ds = [] \<or> \<not> list_all is_digit ds then None
         else if v < min_int64 \<or> max_int64 < v then None
         else Some v)"

lemma parse_int_bounds:
  "parse_int s = Some v \<Longrightarrow> min_int64 \<le> v \<and> v \<le> max_int64"
  by (auto simp: parse_int_def Let_def split: if_splits)

text \<open>A number in decimal, as \<open>%d\<close> prints it.\<close>

fun dec_text :: "nat \<Rightarrow> string" where
  "dec_text n = (if n < 10 then [char_of (48 + n)] else dec_text (n div 10) @ [char_of (48 + n mod 10)])"

declare dec_text.simps [simp del]

lemma dec_text_digits: "dec_text n \<noteq> [] \<and> list_all is_digit (dec_text n)"
proof (induction n rule: dec_text.induct)
  case (1 n)
  have d: "is_digit (char_of (48 + m))" if "m < 10" for m :: nat
  proof -
    have "list_all (\<lambda>m. is_digit (char_of (48 + m :: nat))) [0..<10]" by code_simp
    with that show ?thesis by (simp add: list_all_iff)
  qed
  show ?case
  proof (cases "n < 10")
    case True
    then show ?thesis by (subst (1 2) dec_text.simps) (simp add: d)
  next
    case False
    then have "dec_text (n div 10) \<noteq> [] \<and> list_all is_digit (dec_text (n div 10))" using 1 by blast
    with False show ?thesis by (subst (1 2) dec_text.simps) (simp add: d)
  qed
qed

definition int_text :: "int \<Rightarrow> string" where
  "int_text n = (if n < 0 then CHR ''-'' # dec_text (nat (- n)) else dec_text (nat n))"

text \<open>The digits of a number are read back as it.\<close>

lemma dec_val_append: "dec_val (s @ [c]) = 10 * dec_val s + digit_val c"
  by (simp add: dec_val_def)

lemma digit_val_of: "m < 10 \<Longrightarrow> digit_val (char_of (48 + m :: nat)) = int m"
  by (simp add: digit_val_def)

lemma dec_val_text: "dec_val (dec_text n) = int n"
proof (induction n rule: dec_text.induct)
  case (1 n)
  show ?case
  proof (cases "n < 10")
    case True
    then show ?thesis by (subst dec_text.simps) (use dec_val_append [of "[]"] in \<open>simp add: digit_val_of dec_val_def [of "[]"]\<close>)
  next
    case False
    then have "dec_val (dec_text (n div 10)) = int (n div 10)" by (rule "1.IH")
    with False show ?thesis
      by (subst dec_text.simps) (simp add: dec_val_append digit_val_of zdiv_int zmod_int)
  qed
qed

lemma dec_text_chars: "c \<in> set (dec_text n) \<Longrightarrow> is_digit c"
  using dec_text_digits [of n] by (simp add: list_all_iff)

lemma parse_int_text: "int n \<le> max_int64 \<Longrightarrow> parse_int (dec_text n) = Some (int n)"
proof -
  assume n: "int n \<le> max_int64"
  obtain c cs where t: "dec_text n = c # cs" using dec_text_digits [of n] by (cases "dec_text n") auto
  have "is_digit c" using dec_text_chars [of c n] t by simp
  then have "c \<noteq> CHR ''-''" "c \<noteq> CHR ''+''" by (auto simp: is_digit_def)
  with t have "parse_int (dec_text n) = (if \<not> list_all is_digit (dec_text n) then None
      else if dec_val (dec_text n) < min_int64 \<or> max_int64 < dec_val (dec_text n) then None
      else Some (dec_val (dec_text n)))"
    by (simp add: parse_int_def Let_def)
  then show ?thesis using n dec_text_digits [of n] by (simp add: dec_val_text min_int64_def)
qed

lemma dec_text_length: "0 < k \<Longrightarrow> n < 10 ^ k \<Longrightarrow> length (dec_text n) \<le> k"
proof (induction k arbitrary: n)
  case (Suc k)
  show ?case
  proof (cases "n < 10")
    case True
    then show ?thesis by (subst dec_text.simps) simp
  next
    case False
    have "n div 10 < 10 ^ k" using Suc.prems(2) by (simp add: less_mult_imp_div_less mult.commute)
    moreover have "0 < k" using False Suc.prems(2) by (cases k) auto
    ultimately have "length (dec_text (n div 10)) \<le> k" using Suc.IH by blast
    then show ?thesis using False by (subst dec_text.simps) simp
  qed
qed simp

text \<open>The first error of a sequence of checks.\<close>

fun first_error :: "'e option list \<Rightarrow> 'e option" where
  "first_error [] = None"
| "first_error (None # xs) = first_error xs"
| "first_error (Some e # xs) = Some e"

end
