(* ===== verification/Occupancy.thy ===== *)
theory Occupancy
  imports Prelude "HOL-Library.AList" "HOL-Library.List_Lexorder" "HOL-Library.Multiset"
begin

text \<open>
  verification/occupancy.go and the rate and column publication rules of
  verification/scanner.go: what may be published about a population. Counts per label are
  association lists with distinct keys; a published value is a number, a band or nothing.
  Go's int64 counts are held as \<open>int\<close>: they count files of one version, at most 100000.
\<close>

subsection \<open>Counts by label\<close>

type_synonym counts = "(string \<times> int) list"

definition get :: "'k \<Rightarrow> ('k \<times> int) list \<Rightarrow> int" where
  "get k m = (case map_of m k of None \<Rightarrow> 0 | Some n \<Rightarrow> n)"

definition bump :: "'k \<Rightarrow> int \<Rightarrow> ('k \<times> int) list \<Rightarrow> ('k \<times> int) list" where
  "bump k n m = AList.update k (get k m + n) m"

definition tally :: "('k \<times> int) list \<Rightarrow> int" where
  "tally m = sum_list (map snd m)"

lemma tally_simps [simp]: "tally [] = 0" "tally (p # m) = snd p + tally m" "tally (m @ m') = tally m + tally m'"
  by (simp_all add: tally_def)

lemma get_simps [simp]: "get k [] = 0" "get k ((j, n) # m) = (if j = k then n else get k m)"
  by (simp_all add: get_def)

lemma tally_update: "distinct (map fst m) \<Longrightarrow> tally (AList.update k n m) = tally m - get k m + n"
proof (induction m)
  case (Cons p m)
  then show ?case by (cases p) (auto simp: get_def map_of_eq_None_iff)
qed simp

lemma tally_bump: "distinct (map fst m) \<Longrightarrow> tally (bump k n m) = tally m + n"
  by (simp add: bump_def tally_update)

lemma distinct_bump: "distinct (map fst m) \<Longrightarrow> distinct (map fst (bump k n m))"
  by (simp add: bump_def distinct_update)

lemma get_absent: "k \<notin> fst ` set m \<Longrightarrow> get k m = 0"
  using map_of_eq_None_iff [of m k] by (simp add: get_def)

lemma tally_delete: "distinct (map fst m) \<Longrightarrow> tally (AList.delete k m) = tally m - get k m"
proof (induction m)
  case (Cons p m)
  then have "tally (AList.delete k m) = tally m - get k m" by simp
  moreover have "fst p = k \<Longrightarrow> get k m = 0" using Cons.prems by (auto intro: get_absent)
  ultimately show ?case by (cases p) auto
qed simp

lemma get_update: "get k (AList.update j n m) = (if j = k then n else get k m)"
  by (simp add: get_def update_conv')

lemma get_delete: "get k (AList.delete j m) = (if j = k then 0 else get k m)"
  by (simp add: get_def delete_conv')

lemma get_bump: "get k (bump j n m) = get k m + (if j = k then n else 0)"
  by (simp add: bump_def get_update)

lemma keys_delete: "fst ` set (AList.delete k m) = fst ` set m - {k}"
  by (force simp: AList.delete_eq)

lemma tally_move:
  assumes "distinct (map fst m)" and "j \<noteq> k"
  shows "tally (AList.delete k (AList.update j (get j m + get k m) m)) = tally m"
  using assms by (simp add: tally_delete tally_update distinct_update get_update)

lemma get_mem: "distinct (map fst m) \<Longrightarrow> (k, n) \<in> set m \<Longrightarrow> get k m = n"
  by (simp add: get_def)

lemma tally_filter: "tally (filter P m) + tally (filter (\<lambda>p. \<not> P p) m) = tally m"
  by (induction m) auto

subsection \<open>Bands\<close>

datatype fact = FNil | FNum int | FBand string

definition suppressed :: string where "suppressed = ''suppressed_low_occupancy''"

definition count_band :: "int \<Rightarrow> string" where
  "count_band n = (if n = 0 then ''0'' else if n < 10 then ''1-9'' else if n < 100 then ''10-99''
     else if n < 1000 then ''100-999'' else ''1000+'')"

definition size_bucket :: "int \<Rightarrow> string" where
  "size_bucket n = (if n = 0 then ''0'' else if n < 1024 then ''<1KB'' else if n < 10240 then ''<10KB''
     else if n < 102400 then ''<100KB'' else if n < 1048576 then ''<1MB'' else if n < 10485760 then ''<10MB''
     else if n < 104857600 then ''<100MB'' else ''>=100MB'')"

definition population :: "int \<Rightarrow> fact" where
  "population n = (if n < 10 then FBand (count_band n) else FNum n)"

definition finding_state :: "int \<Rightarrow> string" where
  "finding_state n = (if n = 0 then ''not_checked'' else if n < 10 then suppressed else ''checked'')"

definition part_count :: "int \<Rightarrow> int \<Rightarrow> fact" where
  "part_count part whole = (if part \<ge> 10 \<and> whole - part \<ge> 10 then FNum part else FBand (count_band part))"

definition byte_count :: "int \<Rightarrow> int \<Rightarrow> bool \<Rightarrow> fact" where
  "byte_count n pop exact = (if pop \<ge> 10 \<and> exact then FNum n else FBand (size_bucket n))"

subsection \<open>Partitions\<close>

record partition_fact =
  pt_state :: string
  pt_population :: fact
  pt_cells :: counts

definition low_map :: "counts \<Rightarrow> bool" where
  "low_map m = list_ex (\<lambda>(k, n). n > 0 \<and> n < 10) m"

text \<open>The read states: a small cell forces the fixed order of merging.\<close>

definition merge_read :: "counts \<Rightarrow> counts" where
  "merge_read cells =
     (if low_map cells then
        (let n = get ''fully_read'' cells + get ''partly_read'' cells;
             c = AList.update ''other'' n (AList.delete ''partly_read'' (AList.delete ''fully_read'' cells)) in
         if get ''unread'' c < 10 \<or> n < 10
         then AList.delete ''unread'' (AList.update ''other'' (get ''other'' c + get ''unread'' c) c) else c)
      else cells)"

text \<open>The smallest cell, the first name among equals; the empty name starts the search.\<close>

definition smaller_cell :: "counts \<Rightarrow> string \<times> int \<Rightarrow> string \<Rightarrow> string" where
  "smaller_cell cells p key = (case p of (k, n) \<Rightarrow>
     if key = '''' \<or> n < get key cells \<or> (n = get key cells \<and> k < key) then k else key)"

definition smallest :: "counts \<Rightarrow> string" where
  "smallest cells = fold (smaller_cell cells) cells ''''"

lemma fold_smaller_in: "ps \<noteq> [] \<or> key \<in> K \<Longrightarrow> fst ` set ps \<subseteq> K \<Longrightarrow> key = '''' \<or> key \<in> K
    \<Longrightarrow> fold (smaller_cell cells) ps key \<in> K"
  by (induction ps arbitrary: key) (auto simp: smaller_cell_def split: prod.splits)

lemma smallest_in: "cells \<noteq> [] \<Longrightarrow> smallest cells \<in> fst ` set cells"
  unfolding smallest_def by (rule fold_smaller_in) auto

lemma length_delete_key: "k \<in> fst ` set m \<Longrightarrow> length (AList.delete k m) < length m"
  by (induction m) (auto simp: le_imp_less_Suc length_delete_le)

function absorb :: "int \<Rightarrow> counts \<Rightarrow> int \<times> counts" where
  "absorb other cells =
     (if other < 10 \<and> cells \<noteq> [] then
        (let key = smallest cells in absorb (other + get key cells) (AList.delete key cells))
      else (other, cells))"
  by auto
termination
  by (relation "measure (\<lambda>(other, cells). length cells)") (auto simp: smallest_in length_delete_key)

declare absorb.simps [simp del]

definition merge_small :: "counts \<Rightarrow> counts" where
  "merge_small cells =
     (let other = tally (filter (\<lambda>(k, n). n < 10) cells); big = filter (\<lambda>(k, n). \<not> n < 10) cells in
      if other > 0 then (case absorb other big of (other', rest) \<Rightarrow> bump ''other'' other' rest) else big)"

definition census_partition :: "counts \<Rightarrow> int \<Rightarrow> bool \<Rightarrow> partition_fact" where
  "census_partition counts pop read_state =
     (let out = \<lparr>pt_state = finding_state pop, pt_population = population pop, pt_cells = []\<rparr> in
      if pop < 10 then out
      else (let cells = filter (\<lambda>(k, n). n > 0) counts;
                merged = (if read_state then merge_read cells else merge_small cells) in
            if length merged \<le> 1 then out\<lparr>pt_state := suppressed\<rparr>
            else out\<lparr>pt_cells := sort_key fst merged\<rparr>))"

subsection \<open>Nothing small is published\<close>

definition all_ten :: "counts \<Rightarrow> bool" where
  "all_ten m \<longleftrightarrow> (\<forall>(k, n) \<in> set m. 10 \<le> n)"

lemma absorb_keeps:
  "distinct (map fst cells) \<Longrightarrow> all_ten cells \<Longrightarrow>
    (case absorb other cells of (o', c) \<Rightarrow> distinct (map fst c) \<and> all_ten c \<and> o' + tally c = other + tally cells
      \<and> (10 \<le> o' \<or> c = []))"
proof (induction other cells rule: absorb.induct)
  case (1 other cells)
  show ?case
  proof (cases "other < 10 \<and> cells \<noteq> []")
    case True
    let ?k = "smallest cells"
    have "distinct (map fst (AList.delete ?k cells))" using "1.prems"(1) by (simp add: distinct_delete)
    moreover have "all_ten (AList.delete ?k cells)" using "1.prems"(2) by (auto simp: all_ten_def AList.delete_eq)
    ultimately show ?thesis
      using "1.IH" [OF True refl] "1.prems"(1) True
      by (subst absorb.simps) (auto simp: Let_def tally_delete split: prod.splits)
  qed (use "1.prems" in \<open>auto simp: absorb.simps\<close>)
qed

lemma all_ten_bump: "all_ten m \<Longrightarrow> distinct (map fst m) \<Longrightarrow> 10 \<le> n \<Longrightarrow> all_ten (bump k n m)"
proof -
  assume m: "all_ten m" "distinct (map fst m)" "10 \<le> n"
  have g: "0 \<le> get k m" using m(1,2) by (force simp: get_def all_ten_def dest: map_of_SomeD split: option.splits)
  have "set (AList.update k v m) \<subseteq> insert (k, v) (set m)" for v by (induction m) auto
  then show ?thesis using m g by (fastforce simp: all_ten_def bump_def)
qed

lemma merge_small_ok:
  assumes "distinct (map fst m)" and "\<forall>(k, n) \<in> set m. 0 < n"
  shows "distinct (map fst (merge_small m)) \<and> tally (merge_small m) = tally m
    \<and> (length (merge_small m) \<le> 1 \<or> all_ten (merge_small m))"
proof -
  let ?big = "filter (\<lambda>(k, n). \<not> n < 10) m" and ?o = "tally (filter (\<lambda>(k, n). n < 10) m)"
  have big: "distinct (map fst ?big)" "all_ten ?big"
    using assms(1) by (auto simp: distinct_map_filter all_ten_def)
  have split: "?o + tally ?big = tally m"
    using tally_filter [of "\<lambda>(k, n). n < 10" m] by (simp add: case_prod_unfold)
  show ?thesis
  proof (cases "?o > 0")
    case True
    obtain o' c where a: "absorb ?o ?big = (o', c)" by fastforce
    have c: "distinct (map fst c)" "all_ten c" "o' + tally c = ?o + tally ?big" "10 \<le> o' \<or> c = []"
      using absorb_keeps [OF big, of ?o] a by auto
    have m: "merge_small m = bump ''other'' o' c" using True a by (simp add: merge_small_def Let_def)
    have "length (bump ''other'' o' c) \<le> 1 \<or> all_ten (bump ''other'' o' c)"
      using c by (auto simp: bump_def all_ten_bump [unfolded bump_def])
    then show ?thesis using m c split by (auto simp: distinct_bump tally_bump)
  next
    case False
    have "0 \<le> tally xs" if "\<forall>(k, n) \<in> set xs. 0 < n" for xs using that by (induction xs) auto
    moreover have "\<forall>(k, n) \<in> set (filter (\<lambda>(k, n). n < 10) m). 0 < n" using assms(2) by auto
    ultimately have "0 \<le> ?o" by blast
    then have "?o = 0" using False by linarith
    then show ?thesis using big split False by (simp add: merge_small_def)
  qed
qed

definition read_labels :: "string list" where "read_labels = [''fully_read'', ''partly_read'', ''unread'']"

lemma other_unread: "''other'' \<noteq> ''unread''" by simp

lemma low_map_False: "\<not> low_map m \<Longrightarrow> \<forall>(k, n) \<in> set m. 0 < n \<Longrightarrow> all_ten m"
  by (fastforce simp: low_map_def list_ex_iff all_ten_def)

lemma keys_one: "distinct (map fst m) \<Longrightarrow> fst ` set m \<subseteq> {k} \<Longrightarrow> length m \<le> 1"
  using card_mono [of "{k}" "fst ` set m"] distinct_card [of "map fst m"] by simp

lemma merge_read_low:
  assumes "low_map m" and "distinct (map fst m)" and "fst ` set m \<subseteq> set read_labels" and "\<forall>(k, n) \<in> set m. 0 < n"
  shows "distinct (map fst (merge_read m)) \<and> tally (merge_read m) = tally m \<and> fst ` set (merge_read m) \<subseteq> {''other'', ''unread''}
    \<and> (length (merge_read m) \<le> 1 \<or> all_ten (merge_read m))"
proof -
  let ?n = "get ''fully_read'' m + get ''partly_read'' m"
  let ?d = "AList.delete ''partly_read'' (AList.delete ''fully_read'' m)"
  let ?c = "AList.update ''other'' ?n ?d"
  let ?e = "AList.delete ''unread'' (AList.update ''other'' (get ''other'' ?c + get ''unread'' ?c) ?c)"
  have d: "distinct (map fst ?d)" "fst ` set ?d \<subseteq> {''unread''}"
    using assms(2) by (simp add: distinct_delete) (use assms(3) in \<open>auto simp: read_labels_def AList.delete_eq\<close>)
  have go: "get ''other'' m = 0" using assms(3) by (intro get_absent) (auto simp: read_labels_def)
  have dc: "distinct (map fst ?c)" using d by (simp add: distinct_update)
  have kc: "fst ` set ?c \<subseteq> {''other'', ''unread''}" using d(2) by (auto simp: dom_update)
  have t: "tally ?d = tally m - ?n" using assms(2) by (simp add: tally_delete distinct_delete get_delete)
  have tc: "tally ?c = tally m" using d t go by (simp add: tally_update get_delete)
  show ?thesis
  proof (cases "get ''unread'' ?c < 10 \<or> ?n < 10")
    case True
    then have m: "merge_read m = ?e" using assms(1) by (simp add: merge_read_def Let_def)
    have "distinct (map fst ?e)" by (intro distinct_delete distinct_update dc)
    moreover have "fst ` set ?e \<subseteq> {''other''}" using kc by (simp only: keys_delete dom_update) blast
    moreover have "tally ?e = tally m"
      unfolding tally_move [OF dc other_unread] by (rule tc)
    ultimately show ?thesis using keys_one m by auto
  next
    case False
    then have m: "merge_read m = ?c" using assms(1) by (simp add: merge_read_def Let_def)
    have "all_ten ?c"
      unfolding all_ten_def
    proof (clarify)
      fix k n assume kn: "(k, n) \<in> set ?c"
      then have "k = ''other'' \<or> k = ''unread''" "get k ?c = n" using kc get_mem [OF dc] by force+
      then show "10 \<le> n" using False by (auto simp: get_update)
    qed
    then show ?thesis using m dc kc tc by simp
  qed
qed

lemma merge_read_ok:
  assumes "distinct (map fst m)" and "fst ` set m \<subseteq> set read_labels" and "\<forall>(k, n) \<in> set m. 0 < n"
  shows "distinct (map fst (merge_read m)) \<and> tally (merge_read m) = tally m
    \<and> (length (merge_read m) \<le> 1 \<or> all_ten (merge_read m))"
proof (cases "low_map m")
  case False
  then show ?thesis using assms low_map_False by (simp add: merge_read_def)
qed (use merge_read_low assms in blast)

subsection \<open>Rates\<close>

text \<open>Parts per million, rounded to the nearest and ties to even, for \<open>0 \<le> c\<close> and \<open>0 < n\<close>.\<close>

definition rate_units :: "int \<Rightarrow> int \<Rightarrow> int" where
  "rate_units c n =
     (let x = c * 1000000; q = x div n; r = 2 * (x mod n) in
      if r > n \<or> (r = n \<and> q mod 2 \<noteq> 0) then q + 1 else q)"

function first_rate :: "int \<Rightarrow> int \<Rightarrow> int \<Rightarrow> int \<Rightarrow> int" where
  "first_rate n target lo hi =
     (if lo < hi then
        (let m = lo + (hi - lo) div 2 in
         if rate_units m n < target then first_rate n target (m + 1) hi else first_rate n target lo m)
      else lo)"
  by auto
termination
  by (relation "measure (\<lambda>(n, t, lo, hi). nat (hi - lo))") auto

declare first_rate.simps [simp del]

definition ambiguous_rate :: "int \<Rightarrow> int \<Rightarrow> bool" where
  "ambiguous_rate c n =
     (let v = rate_units c n; left = first_rate n v 0 n;
          right = (if v = 1000000 then n else first_rate n (v + 1) 0 n - 1) in
      max left 1 \<le> min right 9 \<or> max left (n - 9) \<le> min right (n - 1))"

definition ambiguous_distinct :: "int \<Rightarrow> bool" where
  "ambiguous_distinct e \<longleftrightarrow> e > 0 \<and> e \<le> 9"

lemma rate_units_nearest:
  assumes "0 < n"
  shows "2 * \<bar>rate_units c n * n - c * 1000000\<bar> \<le> n
    \<and> (2 * \<bar>rate_units c n * n - c * 1000000\<bar> = n \<longrightarrow> even (rate_units c n))"
proof -
  let ?x = "c * 1000000"
  have d: "?x = ?x div n * n + ?x mod n" "0 \<le> ?x mod n" "?x mod n < n" using assms by simp_all
  show ?thesis
  proof (cases "2 * (?x mod n) > n \<or> (2 * (?x mod n) = n \<and> (?x div n) mod 2 \<noteq> 0)")
    case True
    then have v: "rate_units c n = ?x div n + 1" by (simp only: rate_units_def Let_def if_True)
    have e: "rate_units c n * n - ?x = n - ?x mod n" unfolding v distrib_right using d(1) by linarith
    have "odd (?x div n)" if "2 * (n - ?x mod n) = n"
    proof -
      have "2 * (?x mod n) = n" using that by (simp add: right_diff_distrib)
      then show ?thesis using True by (simp add: odd_iff_mod_2_eq_one)
    qed
    then show ?thesis unfolding e using v True d(2,3) by auto
  next
    case False
    then have v: "rate_units c n = ?x div n" by (simp only: rate_units_def Let_def if_False)
    have e: "rate_units c n * n - ?x = - (?x mod n)" unfolding v using d(1) by linarith
    have "even (?x div n)" if "2 * (?x mod n) = n" using that False by (simp add: even_iff_mod_2_eq_zero)
    then show ?thesis unfolding e using v False d(2,3) by auto
  qed
qed

lemma rate_units_mono:
  assumes "0 < n" and "c \<le> c'"
  shows "rate_units c n \<le> rate_units c' n"
proof -
  let ?x = "c * 1000000" and ?y = "c' * 1000000"
  have le: "?x div n \<le> ?y div n" using assms by (intro zdiv_mono1) auto
  have up: "rate_units c n \<le> ?x div n + 1" "?y div n \<le> rate_units c' n" by (simp_all add: rate_units_def Let_def)
  show ?thesis
  proof (cases "?x div n = ?y div n")
    case True
    have "?x mod n \<le> ?y mod n"
    proof -
      have "?x = ?x div n * n + ?x mod n" "?y = ?y div n * n + ?y mod n" "?x \<le> ?y" using assms by simp_all
      moreover have "?x div n * n = ?y div n * n" using True by simp
      ultimately show ?thesis by linarith
    qed
    then show ?thesis using True by (auto simp: rate_units_def Let_def)
  qed (use le up in linarith)
qed

lemma rate_units_full: "0 < n \<Longrightarrow> rate_units n n = 1000000"
  by (simp add: rate_units_def)

lemma first_rate_spec:
  "0 < n \<Longrightarrow> lo \<le> hi \<Longrightarrow> lo \<le> first_rate n t lo hi \<and> first_rate n t lo hi \<le> hi
    \<and> (\<forall>k. lo \<le> k \<and> k < first_rate n t lo hi \<longrightarrow> rate_units k n < t)
    \<and> (\<forall>k. first_rate n t lo hi \<le> k \<and> k < hi \<longrightarrow> t \<le> rate_units k n)"
proof (induction n t lo hi rule: first_rate.induct)
  case (1 n t lo hi)
  note pos = "1.prems"(1)
  show ?case
  proof (cases "lo < hi")
    case True
    let ?m = "lo + (hi - lo) div 2"
    have m: "lo \<le> ?m" "?m < hi" using True by auto
    show ?thesis
    proof (cases "rate_units ?m n < t")
      case below: True
      have r: "first_rate n t lo hi = first_rate n t (?m + 1) hi"
        using True below by (subst first_rate.simps) (simp add: Let_def)
      have IH: "?m + 1 \<le> first_rate n t (?m + 1) hi \<and> first_rate n t (?m + 1) hi \<le> hi
        \<and> (\<forall>k. ?m + 1 \<le> k \<and> k < first_rate n t (?m + 1) hi \<longrightarrow> rate_units k n < t)
        \<and> (\<forall>k. first_rate n t (?m + 1) hi \<le> k \<and> k < hi \<longrightarrow> t \<le> rate_units k n)"
        using "1.IH"(1) [OF True refl below pos] m by simp
      have "rate_units k n < t" if "k \<le> ?m" for k
        by (rule le_less_trans [OF rate_units_mono [OF pos that] below])
      then have "rate_units k n < t" if "lo \<le> k" "k < first_rate n t (?m + 1) hi" for k
        using IH that by (cases "k \<le> ?m") (blast, force)
      then show ?thesis unfolding r using IH m by auto
    next
      case above: False
      have r: "first_rate n t lo hi = first_rate n t lo ?m"
        using True above by (subst first_rate.simps) (simp add: Let_def)
      have IH: "lo \<le> first_rate n t lo ?m \<and> first_rate n t lo ?m \<le> ?m
        \<and> (\<forall>k. lo \<le> k \<and> k < first_rate n t lo ?m \<longrightarrow> rate_units k n < t)
        \<and> (\<forall>k. first_rate n t lo ?m \<le> k \<and> k < ?m \<longrightarrow> t \<le> rate_units k n)"
        using "1.IH"(2) [OF True refl above pos] m by simp
      have "t \<le> rate_units k n" if "?m \<le> k" for k
        using order.trans [OF _ rate_units_mono [OF pos that]] above by simp
      then have "t \<le> rate_units k n" if "first_rate n t lo ?m \<le> k" "k < hi" for k
        using IH that by (cases "?m \<le> k") (blast, force)
      then show ?thesis unfolding r using IH m by auto
    qed
  next
    case False
    then show ?thesis using "1.prems" by (subst (1 2 3 4) first_rate.simps) auto
  qed
qed

lemma same_rate_interval:
  assumes "0 < n" and "0 \<le> c" and "c \<le> n"
  defines "v \<equiv> rate_units c n"
  shows "0 \<le> k \<and> k \<le> n \<and> rate_units k n = v \<longleftrightarrow>
    first_rate n v 0 n \<le> k \<and> k \<le> (if v = 1000000 then n else first_rate n (v + 1) 0 n - 1)"
proof -
  have top: "rate_units n n = 1000000" "v \<le> 1000000"
    using rate_units_full [OF assms(1)] rate_units_mono [OF assms(1,3)] by (simp_all add: v_def)
  have le_top: "k \<le> n \<Longrightarrow> rate_units k n \<le> 1000000" for k
    using rate_units_mono [OF assms(1), of k n] top(1) by simp
  note lo = first_rate_spec [OF assms(1), of 0 n v]
  note hi = first_rate_spec [OF assms(1), of 0 n "v + 1"]
  have n0: "0 \<le> n" using assms(1) by simp
  have left: "0 \<le> k \<Longrightarrow> k \<le> n \<Longrightarrow> v \<le> rate_units k n \<longleftrightarrow> first_rate n v 0 n \<le> k" for k
  proof -
    assume k: "0 \<le> k" "k \<le> n"
    show ?thesis
    proof (cases "k = n")
      case True
      then show ?thesis using lo n0 top by simp
    next
      case False
      then show ?thesis using lo n0 k by (metis le_less linorder_not_less)
    qed
  qed
  show ?thesis
  proof (cases "v = 1000000")
    case True
    then show ?thesis using left lo n0 le_top by (auto intro: antisym)
  next
    case False
    have right: "0 \<le> k \<Longrightarrow> k \<le> n \<Longrightarrow> rate_units k n < v + 1 \<longleftrightarrow> k < first_rate n (v + 1) 0 n" for k
    proof -
      assume k: "0 \<le> k" "k \<le> n"
      show ?thesis
      proof (cases "k = n")
        case True
        then show ?thesis using hi n0 top False by auto
      next
        case ne: False
        then show ?thesis using hi n0 k by (metis le_less linorder_not_less)
      qed
    qed
    show ?thesis using left right lo hi n0 False by (auto intro: antisym)
  qed
qed

lemma ambiguous_rate_iff:
  assumes "0 < n" and "0 \<le> c" and "c \<le> n"
  shows "ambiguous_rate c n \<longleftrightarrow>
    (\<exists>k. 0 \<le> k \<and> k \<le> n \<and> ((1 \<le> k \<and> k \<le> 9) \<or> (n - 9 \<le> k \<and> k \<le> n - 1)) \<and> rate_units k n = rate_units c n)"
proof -
  let ?l = "first_rate n (rate_units c n) 0 n"
  let ?r = "if rate_units c n = 1000000 then n else first_rate n (rate_units c n + 1) 0 n - 1"
  note I = same_rate_interval [OF assms]
  have "max ?l a \<le> min ?r b \<longleftrightarrow> (\<exists>k. 0 \<le> k \<and> k \<le> n \<and> (a \<le> k \<and> k \<le> b) \<and> rate_units k n = rate_units c n)" if "a \<le> b" for a b
  proof
    assume "max ?l a \<le> min ?r b"
    then show "\<exists>k. 0 \<le> k \<and> k \<le> n \<and> (a \<le> k \<and> k \<le> b) \<and> rate_units k n = rate_units c n"
      using I [of "max ?l a"] by (intro exI [of _ "max ?l a"]) auto
  next
    assume "\<exists>k. 0 \<le> k \<and> k \<le> n \<and> (a \<le> k \<and> k \<le> b) \<and> rate_units k n = rate_units c n"
    then obtain k where "?l \<le> k" "k \<le> ?r" "a \<le> k" "k \<le> b" using I by blast
    then show "max ?l a \<le> min ?r b" by auto
  qed
  from this [of 1 9] this [of "n - 9" "n - 1"] show ?thesis
    unfolding ambiguous_rate_def Let_def by auto
qed

subsection \<open>Columns\<close>

text \<open>\<open>%d.%06d\<close>\<close>

definition rate_string :: "int \<Rightarrow> string" where
  "rate_string q = (let f = dec_text (nat (q mod 1000000)) in
     dec_text (nat (q div 1000000)) @ ''.'' @ replicate (6 - length f) CHR ''0'' @ f)"

text \<open>The aggregates of a column; the floating-point estimate of its sketch is a field.\<close>

record aggregate =
  ag_kind :: string
  ag_nulls :: int
  ag_exact :: "string list"
  ag_estimate :: int
  ag_lengths :: "int list"
  ag_numeric :: "int list"

datatype col_fact = CNil | CSuppressed | CRate string | CEstimate int | CHist "int list"

record column_fact =
  cf_type :: string
  cf_null_rate :: col_fact
  cf_distinct :: col_fact
  cf_length :: col_fact
  cf_numeric :: col_fact

definition low :: "int list \<Rightarrow> bool" where
  "low counts = list_ex (\<lambda>c. c > 0 \<and> c < 10) counts"

definition null_rate_fact :: "int \<Rightarrow> int \<Rightarrow> col_fact" where
  "null_rate_fact nulls rows = (if rows \<ge> 10 \<and> \<not> low [nulls, rows - nulls] \<and> \<not> ambiguous_rate nulls rows
     then CRate (rate_string (rate_units nulls rows)) else CSuppressed)"

definition histogram_fact :: "int list \<Rightarrow> int \<Rightarrow> col_fact" where
  "histogram_fact h rows = (if rows < 10 \<or> low h then CSuppressed else CHist h)"

definition column_of :: "int \<Rightarrow> aggregate \<Rightarrow> column_fact" where
  "column_of rows a =
     \<lparr>cf_type = ag_kind a,
      cf_null_rate = null_rate_fact (ag_nulls a) rows,
      cf_distinct = (if rows \<ge> 10 \<and> (ag_exact a = [] \<or> length (ag_exact a) = 10)
           \<and> (ag_estimate a < min_int64 \<or> ag_estimate a > max_int64 \<or> \<not> ambiguous_distinct (ag_estimate a))
         then CEstimate (ag_estimate a) else CSuppressed),
      cf_length = (if ag_kind a \<in> {''string'', ''binary''} then histogram_fact (ag_lengths a) rows else CNil),
      cf_numeric = (if ag_kind a \<in> {''integer'', ''float'', ''decimal''} then histogram_fact (ag_numeric a) rows else CNil)\<rparr>"

definition finish_columns :: "int \<Rightarrow> aggregate list \<Rightarrow> column_fact list" where
  "finish_columns rows acc = map (column_of rows) acc"

lemma dec_val_zeros: "dec_val (replicate k CHR ''0'' @ s) = dec_val s"
  by (induction k) (simp_all add: dec_val_def digit_val_def)

lemma rate_string_inj:
  assumes "0 \<le> p" and "0 \<le> q" and "rate_string p = rate_string q"
  shows "p = q"
proof -
  have nd: "CHR ''.'' \<notin> set (dec_text n)" for n
    using dec_text_digits [of n] by (auto simp: list_all_iff is_digit_def)
  let ?f = "\<lambda>q. dec_text (nat (q mod 1000000))"
  have c: "cut (CHR ''.'') (rate_string q) = (dec_text (nat (q div 1000000)), replicate (6 - length (?f q)) CHR ''0'' @ ?f q, True)" for q
    using cut_append [OF nd, of "nat (q div 1000000)"] by (simp add: rate_string_def Let_def)
  have "(dec_text (nat (p div 1000000)), replicate (6 - length (?f p)) CHR ''0'' @ ?f p, True)
      = (dec_text (nat (q div 1000000)), replicate (6 - length (?f q)) CHR ''0'' @ ?f q, True)"
    unfolding c [symmetric] assms(3) by (rule refl)
  then have e: "dec_text (nat (p div 1000000)) = dec_text (nat (q div 1000000))"
    "replicate (6 - length (?f p)) CHR ''0'' @ ?f p = replicate (6 - length (?f q)) CHR ''0'' @ ?f q"
    by (simp_all only: prod.inject)
  have "int (nat (p div 1000000)) = int (nat (q div 1000000))"
    using arg_cong [OF e(1), of dec_val] by (simp only: dec_val_text)
  moreover have "int (nat (p mod 1000000)) = int (nat (q mod 1000000))"
    using arg_cong [OF e(2), of dec_val] by (simp only: dec_val_zeros dec_val_text)
  moreover have "0 \<le> p div 1000000" "0 \<le> q div 1000000" using assms(1,2) by (simp_all add: pos_imp_zdiv_nonneg_iff)
  moreover have "0 \<le> p mod 1000000" "0 \<le> q mod 1000000" by simp_all
  ultimately have "p div 1000000 = q div 1000000" "p mod 1000000 = q mod 1000000" by (metis nat_0_le)+
  then show ?thesis by (metis div_mult_mod_eq)
qed

lemma rate_units_nonneg: "0 < n \<Longrightarrow> 0 \<le> c \<Longrightarrow> 0 \<le> rate_units c n"
  using rate_units_mono [of n 0 c] by (simp add: rate_units_def)

lemma merge_ok:
  assumes "distinct (map fst counts)" and "rs \<longrightarrow> fst ` set counts \<subseteq> set read_labels"
  defines "cells \<equiv> filter (\<lambda>(k, n). n > 0) counts"
  defines "m \<equiv> (if rs then merge_read cells else merge_small cells)"
  shows "distinct (map fst m) \<and> tally m = tally cells \<and> (length m \<le> 1 \<or> all_ten m)"
proof -
  have "distinct (map fst cells)" "\<forall>(k, n) \<in> set cells. 0 < n" "rs \<longrightarrow> fst ` set cells \<subseteq> set read_labels"
    using assms(1,2) by (auto simp: cells_def distinct_map_filter)
  then show ?thesis using merge_small_ok merge_read_ok by (simp add: m_def)
qed

lemma tally_sort [simp]: "tally (sort_key f m) = tally m"
  unfolding tally_def by (metis mset_map mset_sort sum_mset_sum_list)

lemma tally_ge: "all_ten m \<Longrightarrow> (k, n) \<in> set m \<Longrightarrow> 2 \<le> length m \<Longrightarrow> distinct (map fst m) \<Longrightarrow> n + 10 \<le> tally m"
proof -
  assume m: "all_ten m" "(k, n) \<in> set m" "2 \<le> length m" "distinct (map fst m)"
  have nn: "all_ten xs \<Longrightarrow> 10 * int (length xs) \<le> tally xs" for xs by (induction xs) (auto simp: all_ten_def)
  have "tally (AList.delete k m) = tally m - n" using m by (simp add: tally_delete get_mem)
  moreover have "all_ten (AList.delete k m)" using m(1) by (auto simp: all_ten_def AList.delete_eq)
  moreover have "AList.delete k m \<noteq> []"
  proof
    assume "AList.delete k m = []"
    then have "fst ` set m \<subseteq> {k}" by (metis Diff_eq_empty_iff empty_set image_empty keys_delete)
    then show False using keys_one [OF m(4)] m(3) by simp
  qed
  then have "1 \<le> length (AList.delete k m)" by (cases "AList.delete k m") auto
  ultimately show ?thesis using nn [of "AList.delete k m"] by linarith
qed

subsection \<open>Properties\<close>

text \<open>C30: a published partition has at least two cells, each of at least ten members and each
  with at least ten members outside it; the cells sum to the counted members, their names are
  in order, and the read states are merged under one name as soon as one of them is small.\<close>
theorem partition_k_anonymous:
  assumes "distinct (map fst counts)" and "rs \<longrightarrow> fst ` set counts \<subseteq> set read_labels"
    and "pt_cells (census_partition counts pop rs) \<noteq> []"
  shows "10 \<le> pop \<and> (\<forall>(k, n) \<in> set (pt_cells (census_partition counts pop rs)).
        10 \<le> n \<and> 10 \<le> tally (pt_cells (census_partition counts pop rs)) - n)
    \<and> tally (pt_cells (census_partition counts pop rs)) = tally (filter (\<lambda>(k, n). n > 0) counts)
    \<and> sorted_wrt (<) (map fst (pt_cells (census_partition counts pop rs)))
    \<and> (rs \<and> low_map counts \<longrightarrow> fst ` set (pt_cells (census_partition counts pop rs)) \<subseteq> {''other'', ''unread''})"
proof -
  let ?cells = "filter (\<lambda>(k, n). n > 0) counts"
  let ?m = "if rs then merge_read ?cells else merge_small ?cells"
  have m: "distinct (map fst ?m)" "tally ?m = tally ?cells" "length ?m \<le> 1 \<or> all_ten ?m"
    using merge_ok [OF assms(1,2)] by blast+
  have pub: "10 \<le> pop" "\<not> length ?m \<le> 1" "pt_cells (census_partition counts pop rs) = sort_key fst ?m"
    using assms(3) by (auto simp: census_partition_def Let_def split: if_splits)
  have ten: "all_ten ?m" using m(3) pub(2) by blast
  have A: "\<forall>(k, n) \<in> set (sort_key fst ?m). 10 \<le> n \<and> 10 \<le> tally (sort_key fst ?m) - n"
    using ten tally_ge [OF ten] m(1) pub(2) by (fastforce simp: all_ten_def)
  have B: "sorted_wrt (<) (map fst (sort_key fst ?m))"
    using m(1) by (simp add: strict_sorted_iff distinct_map)
  have C: "rs \<and> low_map counts \<longrightarrow> fst ` set (sort_key fst ?m) \<subseteq> {''other'', ''unread''}"
  proof (intro impI)
    assume rl: "rs \<and> low_map counts"
    then have "low_map ?cells" by (auto simp: low_map_def list_ex_iff)
    moreover have "distinct (map fst ?cells)" "fst ` set ?cells \<subseteq> set read_labels" "\<forall>(k, n) \<in> set ?cells. 0 < n"
      using assms(1,2) rl by (auto simp: distinct_map_filter)
    ultimately have "fst ` set (merge_read ?cells) \<subseteq> {''other'', ''unread''}"
      using merge_read_low [of ?cells] by blast
    then show "fst ` set (sort_key fst ?m) \<subseteq> {''other'', ''unread''}" using rl by simp
  qed
  have D: "tally (sort_key fst ?m) = tally ?cells" using m(2) by simp
  show ?thesis unfolding pub(3) using pub(1) A B C D by blast
qed

theorem partition_k_anonymous_witness:
  "pt_cells (census_partition [(''pdf'', 30), (''json'', 12), (''image'', 4)] 46 False) = [(''other'', 16), (''pdf'', 30)]"
proof -
  have "pt_cells (census_partition [(''pdf'', 30), (''json'', 12), (''image'', 4)] 46 False) \<noteq> []" by code_simp
  from partition_k_anonymous [OF _ _ this] show ?thesis by code_simp
qed

text \<open>C31: the binary search decides exactly whether some small count of one to nine members,
  or its complement, would round to the same published rate.\<close>
theorem ambiguous_rate_exact:
  assumes "0 < n" and "0 \<le> c" and "c \<le> n"
  shows "ambiguous_rate c n \<longleftrightarrow>
    (\<exists>k. 0 \<le> k \<and> k \<le> n \<and> ((1 \<le> k \<and> k \<le> 9) \<or> (n - 9 \<le> k \<and> k \<le> n - 1)) \<and> rate_units k n = rate_units c n)"
  by (rule ambiguous_rate_iff [OF assms])

theorem ambiguous_rate_exact_witness:
  "ambiguous_rate 10 100000000 \<longleftrightarrow> (\<exists>k. 0 \<le> k \<and> k \<le> (100000000 :: int)
     \<and> ((1 \<le> k \<and> k \<le> 9) \<or> (100000000 - 9 \<le> k \<and> k \<le> 100000000 - 1)) \<and> rate_units k 100000000 = rate_units 10 100000000)"
  by (rule ambiguous_rate_exact) simp_all

text \<open>A published null rate cannot come from one to nine nulls or from one to nine values,
  whatever the row count: no such count prints as the same text.\<close>
theorem null_rate_hides_small_counts:
  assumes "cf_null_rate (column_of rows a) = CRate s" and "0 \<le> ag_nulls a" and "ag_nulls a \<le> rows"
    and "(1 \<le> k \<and> k \<le> 9) \<or> (rows - 9 \<le> k \<and> k \<le> rows - 1)" and "0 \<le> k" and "k \<le> rows"
  shows "10 \<le> rows \<and> rate_string (rate_units k rows) \<noteq> s"
proof -
  have p: "10 \<le> rows" "\<not> ambiguous_rate (ag_nulls a) rows" "s = rate_string (rate_units (ag_nulls a) rows)"
    using assms(1) by (auto simp: column_of_def null_rate_fact_def split: if_splits)
  then have "rate_units k rows \<noteq> rate_units (ag_nulls a) rows"
    using ambiguous_rate_iff [of rows "ag_nulls a"] assms by auto
  then show ?thesis
    using rate_string_inj [of "rate_units k rows" "rate_units (ag_nulls a) rows"] rate_units_nonneg [of rows] p assms by auto
qed

definition demo_aggregate :: aggregate where
  "demo_aggregate = \<lparr>ag_kind = ''string'', ag_nulls = 0, ag_exact = [], ag_estimate = 900, ag_lengths = [0, 60], ag_numeric = []\<rparr>"

theorem null_rate_hides_small_counts_witness:
  "10 \<le> (100 :: int) \<and> rate_string (rate_units 9 100) \<noteq> ''0.000000''"
proof (rule null_rate_hides_small_counts [where a = demo_aggregate])
  show "cf_null_rate (column_of 100 demo_aggregate) = CRate ''0.000000''" by code_simp
qed (simp_all add: demo_aggregate_def)

end
