(* ===== verification/Text.thy ===== *)
theory Text
  imports Prelude
begin

text \<open>
  UTF-8 as package unicode/utf8 reads it, and JSON string literals as encoding/json writes
  them (with HTML escaping, as \<open>json.Marshal\<close> does).
\<close>

subsection \<open>Runes\<close>

definition byte_at :: "bytes \<Rightarrow> nat \<Rightarrow> nat" where
  "byte_at s i = (if i < length s then of_char (s ! i) else 0)"

definition cont_in :: "nat \<Rightarrow> nat \<Rightarrow> nat \<Rightarrow> bool" where
  "cont_in lo hi b \<longleftrightarrow> lo \<le> b \<and> b \<le> hi"

text \<open>The length of the rune that starts a byte string; None where \<open>DecodeRune\<close> reports
  \<open>RuneError\<close> with width one.\<close>

definition rune_len :: "bytes \<Rightarrow> nat option" where
  "rune_len s =
     (let b0 = byte_at s 0; b1 = byte_at s 1; b2 = byte_at s 2; b3 = byte_at s 3 in
      if s = [] then None
      else if b0 < 128 then Some 1
      else if 194 \<le> b0 \<and> b0 \<le> 223 then (if cont_in 128 191 b1 then Some 2 else None)
      else if 224 \<le> b0 \<and> b0 \<le> 239 then
        (if cont_in (if b0 = 224 then 160 else 128) (if b0 = 237 then 159 else 191) b1 \<and> cont_in 128 191 b2
         then Some 3 else None)
      else if 240 \<le> b0 \<and> b0 \<le> 244 then
        (if cont_in (if b0 = 240 then 144 else 128) (if b0 = 244 then 143 else 191) b1
            \<and> cont_in 128 191 b2 \<and> cont_in 128 191 b3 then Some 4 else None)
      else None)"

definition rune_step :: "bytes \<Rightarrow> nat" where
  "rune_step s = (case rune_len s of None \<Rightarrow> 1 | Some n \<Rightarrow> n)"

lemma rune_len_pos: "rune_len s = Some n \<Longrightarrow> 0 < n"
  by (auto simp: rune_len_def Let_def split: if_splits)

lemma rune_step_pos: "0 < rune_step s"
  using rune_len_pos by (auto simp: rune_step_def split: option.splits)

text \<open>A string cut into its runes, an invalid byte on its own.\<close>

function runes :: "bytes \<Rightarrow> bytes list" where
  "runes s = (if s = [] then [] else take (rune_step s) s # runes (drop (rune_step s) s))"
  by auto
termination
  by (relation "measure length") (use rune_step_pos in \<open>auto simp: not_le\<close>)

declare runes.simps [simp del]

lemma runes_Nil [simp]: "runes [] = []"
  by (simp add: runes.simps)

lemma concat_runes: "concat (runes s) = s"
proof (induction s rule: runes.induct)
  case (1 s)
  show ?case
  proof (cases "s = []")
    case False
    then show ?thesis using "1.IH" by (subst runes.simps) simp
  qed simp
qed

definition valid_rune :: "bytes \<Rightarrow> bool" where
  "valid_rune u \<longleftrightarrow> rune_len u = Some (length u)"

definition valid_utf8 :: "bytes \<Rightarrow> bool" where
  "valid_utf8 s \<longleftrightarrow> list_all valid_rune (runes s)"

subsection \<open>String literals\<close>

definition hex_digit :: "nat \<Rightarrow> char" where
  "hex_digit n = ''0123456789abcdef'' ! n"

definition u00 :: "nat \<Rightarrow> string" where
  "u00 n = [CHR 0x5C, CHR ''u'', CHR ''0'', CHR ''0'', hex_digit (n div 16), hex_digit (n mod 16)]"

text \<open>The code of an ASCII character: short escapes, \<open>u00xx\<close> for other controls and HTML
  characters, itself otherwise.\<close>

definition quote_ascii :: "char \<Rightarrow> string" where
  "quote_ascii c =
     (let n = of_char c :: nat in
      if n = 34 \<or> n = 92 then [CHR 0x5C, c]
      else if n = 8 then [CHR 0x5C, CHR ''b'']
      else if n = 12 then [CHR 0x5C, CHR ''f'']
      else if n = 10 then [CHR 0x5C, CHR ''n'']
      else if n = 13 then [CHR 0x5C, CHR ''r'']
      else if n = 9 then [CHR 0x5C, CHR ''t'']
      else if n < 32 \<or> n = 60 \<or> n = 62 \<or> n = 38 then u00 n
      else [c])"

definition quote_rune :: "bytes \<Rightarrow> string" where
  "quote_rune u =
     (case rune_len u of
        None \<Rightarrow> CHR 0x5C # ''ufffd''
      | Some n \<Rightarrow>
          if n = 1 then quote_ascii (hd u)
          else if u = [CHR 0xE2, CHR 0x80, CHR 0xA8] then CHR 0x5C # ''u2028''
          else if u = [CHR 0xE2, CHR 0x80, CHR 0xA9] then CHR 0x5C # ''u2029''
          else u)"

definition quote :: "bytes \<Rightarrow> string" where
  "quote s = CHR 0x22 # concat (map quote_rune (runes s)) @ [CHR 0x22]"

subsection \<open>A literal determines its string\<close>

definition hex_val :: "char \<Rightarrow> nat" where
  "hex_val c = (if is_digit c then of_char c - 48 else of_char c - 87)"

text \<open>Reading one code back: the rune and what follows it.\<close>

definition unquote_escape :: "string \<Rightarrow> bytes \<times> string" where
  "unquote_escape s =
     (if s = [] then ([], [])
      else if hd s = CHR ''b'' then ([CHR 0x08], tl s)
      else if hd s = CHR ''f'' then ([CHR 0x0C], tl s)
      else if hd s = CHR ''n'' then ([CHR 0x0A], tl s)
      else if hd s = CHR ''r'' then ([CHR 0x0D], tl s)
      else if hd s = CHR ''t'' then ([CHR 0x09], tl s)
      else if hd s = CHR ''u'' then
        (if take 5 s = ''u2028'' then ([CHR 0xE2, CHR 0x80, CHR 0xA8], drop 5 s)
         else if take 5 s = ''u2029'' then ([CHR 0xE2, CHR 0x80, CHR 0xA9], drop 5 s)
         else ([char_of (hex_val (s ! 3) * 16 + hex_val (s ! 4))], drop 5 s))
      else ([hd s], tl s))"

definition unquote_rune :: "string \<Rightarrow> bytes \<times> string" where
  "unquote_rune s = (if s \<noteq> [] \<and> hd s = CHR 0x5C then unquote_escape (tl s)
     else (take (rune_step s) s, drop (rune_step s) s))"

lemma hex_round: "n < 128 \<Longrightarrow> hex_val (hex_digit (n div 16)) * 16 + hex_val (hex_digit (n mod 16)) = n"
proof -
  have "list_all (\<lambda>n. hex_val (hex_digit (n div 16)) * 16 + hex_val (hex_digit (n mod 16)) = n) [0..<128]"
    by code_simp
  then show "n < 128 \<Longrightarrow> ?thesis" by (simp add: list_all_iff)
qed

lemma char_code: "(c = d) \<longleftrightarrow> (of_char c = (of_char d :: nat))"
  by simp

lemma rune_len_one: "rune_len u = Some 1 \<longleftrightarrow> u \<noteq> [] \<and> of_char (hd u) < (128 :: nat)"
  by (auto simp: rune_len_def Let_def byte_at_def hd_conv_nth split: if_splits)

lemma byte_at_append: "i < length u \<Longrightarrow> byte_at (u @ r) i = byte_at u i"
  by (simp add: byte_at_def nth_append)

lemma rune_len_bytes:
  assumes "rune_len s = Some n" and "\<And>i. i < n \<Longrightarrow> byte_at t i = byte_at s i" and "t \<noteq> []"
  shows "rune_len t = Some n"
proof -
  have n: "0 < n" using assms(1) by (rule rune_len_pos)
  have b0: "byte_at t 0 = byte_at s 0" using assms(2) n by blast
  have b: "1 < n \<Longrightarrow> byte_at t 1 = byte_at s 1" "2 < n \<Longrightarrow> byte_at t 2 = byte_at s 2" "3 < n \<Longrightarrow> byte_at t 3 = byte_at s 3"
    using assms(2) by blast+
  show ?thesis using assms(1,3) b0 b
    by (simp add: rune_len_def Let_def split: if_split_asm)
qed

lemma valid_rune_append: "valid_rune u \<Longrightarrow> rune_len (u @ r) = Some (length u)"
  unfolding valid_rune_def
proof -
  assume u: "rune_len u = Some (length u)"
  then have "u \<noteq> []" using rune_len_pos by fastforce
  with u show "rune_len (u @ r) = Some (length u)"
    by (intro rune_len_bytes [OF u]) (auto simp: byte_at_append)
qed

lemma quote_ascii_cases:
  obtains "quote_ascii c = [c]" "c \<noteq> CHR 0x5C" "c \<noteq> CHR 0x22"
  | d where "quote_ascii c = [CHR 0x5C, d]" "unquote_escape (d # r) = ([c], r)"
  | "quote_ascii c = u00 (of_char c)" "of_char c < (128 :: nat)"
proof -
  let ?n = "of_char c :: nat"
  have sp: "c = CHR 0x22 \<longleftrightarrow> ?n = 34" "c = CHR 0x5C \<longleftrightarrow> ?n = 92" "c = CHR 0x08 \<longleftrightarrow> ?n = 8"
    "c = CHR 0x0C \<longleftrightarrow> ?n = 12" "c = CHR 0x0A \<longleftrightarrow> ?n = 10" "c = CHR 0x0D \<longleftrightarrow> ?n = 13" "c = CHR 0x09 \<longleftrightarrow> ?n = 9"
    unfolding char_code [of c] by simp_all
  show thesis
  proof (cases "?n \<in> {34, 92, 8, 12, 10, 13, 9}")
    case True
    then have c: "c \<in> {CHR 0x22, CHR 0x5C, CHR 0x08, CHR 0x0C, CHR 0x0A, CHR 0x0D, CHR 0x09}" by (simp only: sp insert_iff empty_iff)
    have "\<exists>d. quote_ascii c = [CHR 0x5C, d] \<and> unquote_escape (d # r) = ([c], r)"
      using c unfolding insert_iff empty_iff
      by (elim disjE) (simp_all add: quote_ascii_def unquote_escape_def)
    then show thesis using that(2) by blast
  next
    case False
    then have n: "?n \<noteq> 34" "?n \<noteq> 92" "?n \<noteq> 8" "?n \<noteq> 12" "?n \<noteq> 10" "?n \<noteq> 13" "?n \<noteq> 9" by auto
    show thesis
    proof (cases "?n < 32 \<or> ?n = 60 \<or> ?n = 62 \<or> ?n = 38")
      case True
      then have "quote_ascii c = u00 ?n" using n by (simp add: quote_ascii_def)
      moreover have "?n < 128" using True by auto
      ultimately show thesis by (rule that(3))
    next
      case F: False
      have "quote_ascii c = [c]" using n F by (simp add: quote_ascii_def)
      then show thesis using n sp by (intro that(1)) auto
    qed
  qed
qed

lemma unquote_u00: "n < 128 \<Longrightarrow> unquote_rune (u00 n @ r) = ([char_of n], r)"
proof -
  assume n: "n < 128"
  have "char_of (hex_val (hex_digit (n div 16)) * 16 + hex_val (hex_digit (n mod 16))) = (char_of n :: char)"
    using hex_round [OF n] by simp
  then show ?thesis by (simp add: unquote_rune_def u00_def unquote_escape_def)
qed

lemma unquote_quote_rune:
  assumes "valid_rune u"
  shows "unquote_rune (quote_rune u @ r) = (u, r) \<and> quote_rune u \<noteq> [] \<and> hd (quote_rune u) \<noteq> CHR 0x22"
proof (cases "length u = 1")
  case True
  then have one: "rune_len u = Some 1" using assms by (simp add: valid_rune_def)
  obtain c where u: "u = [c]" using True by (cases u) auto
  have lt: "of_char c < (128 :: nat)" using one u rune_len_one by force
  have q: "quote_rune u = quote_ascii c" using one u by (simp add: quote_rune_def)
  show ?thesis
  proof (cases rule: quote_ascii_cases [where c = c and r = r])
    case 1
    have "rune_len ([c] @ r) = Some 1" using lt by (subst rune_len_one) simp
    with 1 q u show ?thesis by (simp add: unquote_rune_def rune_step_def)
  next
    case (2 d)
    with q u show ?thesis by (simp add: unquote_rune_def)
  next
    case 3
    have "unquote_rune (u00 (of_char c) @ r) = ([char_of (of_char c :: nat)], r)" using 3(2) by (rule unquote_u00)
    with 3 q u show ?thesis by (simp add: u00_def)
  qed
next
  case False
  have len: "rune_len u = Some (length u)" using assms by (simp add: valid_rune_def)
  have ne: "u \<noteq> []" using rune_len_pos [OF len] by auto
  have big: "\<not> of_char (hd u) < (128 :: nat)"
    using False len ne rune_len_one [of u] by auto
  then have hd: "hd u \<noteq> CHR 0x5C" "hd u \<noteq> CHR 0x22" by auto
  show ?thesis
  proof (cases "u = [CHR 0xE2, CHR 0x80, CHR 0xA8] \<or> u = [CHR 0xE2, CHR 0x80, CHR 0xA9]")
    case True
    then show ?thesis
      by (elim disjE) (simp_all add: quote_rune_def rune_len_def byte_at_def cont_in_def unquote_rune_def unquote_escape_def)
  next
    case F: False
    have q: "quote_rune u = u" using F False len by (simp add: quote_rune_def)
    have "rune_step (u @ r) = length u" using valid_rune_append [OF assms] by (simp add: rune_step_def)
    then show ?thesis using q hd ne by (simp add: unquote_rune_def)
  qed
qed

lemma quote_runes_inj:
  assumes "list_all valid_rune us" "list_all valid_rune vs"
    and "concat (map quote_rune us) @ CHR 0x22 # r = concat (map quote_rune vs) @ CHR 0x22 # r'"
  shows "us = vs \<and> r = r'"
  using assms
proof (induction us arbitrary: vs)
  case Nil
  then show ?case
  proof (cases vs)
    case (Cons v vs')
    with Nil have "valid_rune v" by simp
    then have "quote_rune v \<noteq> []" "hd (quote_rune v) \<noteq> CHR 0x22" using unquote_quote_rune by blast+
    with Nil Cons show ?thesis by (cases "quote_rune v") auto
  qed simp
next
  case (Cons u us)
  then have u: "valid_rune u" by simp
  show ?case
  proof (cases vs)
    case Nil
    have "quote_rune u \<noteq> []" "hd (quote_rune u) \<noteq> CHR 0x22" using unquote_quote_rune [OF u] by blast+
    with Nil Cons.prems(3) show ?thesis by (cases "quote_rune u") auto
  next
    case c: (Cons v vs')
    then have v: "valid_rune v" using Cons.prems(2) by simp
    have eq: "quote_rune u @ concat (map quote_rune us) @ CHR 0x22 # r
        = quote_rune v @ concat (map quote_rune vs') @ CHR 0x22 # r'"
      using Cons.prems(3) c by simp
    have "(u, concat (map quote_rune us) @ CHR 0x22 # r) = (v, concat (map quote_rune vs') @ CHR 0x22 # r')"
      using unquote_quote_rune [OF u] unquote_quote_rune [OF v] eq by metis
    then show ?thesis using Cons.IH [of vs'] Cons.prems(1,2) c by simp
  qed
qed

lemma quote_inj:
  assumes "valid_utf8 s" "valid_utf8 t" "quote s @ r = quote t @ r'"
  shows "s = t \<and> r = r'"
proof -
  have "runes s = runes t \<and> r = r'"
    using assms by (intro quote_runes_inj) (simp_all add: valid_utf8_def quote_def)
  then show ?thesis by (metis concat_runes)
qed

text \<open>\<open>strings.ToLower\<close> as far as a comparison with ASCII names can see: the Kelvin sign and
  the dotted capital I are the only other characters with ASCII lower case.\<close>

fun to_lower :: "string \<Rightarrow> string" where
  "to_lower [] = []"
| "to_lower (c # s) =
     (if c = CHR 0xE2 \<and> take 2 s = [CHR 0x84, CHR 0xAA] then CHR ''k'' # to_lower (drop 2 s)
      else if c = CHR 0xC4 \<and> take 1 s = [CHR 0xB0] then CHR ''i'' # to_lower (drop 1 s)
      else (if CHR ''A'' \<le> c \<and> c \<le> CHR ''Z'' then char_of (of_char c + 32 :: nat) else c) # to_lower s)"

end
