(* ===== verification/Census.thy ===== *)
theory Census
  imports Occupancy Text "HOL-Library.Product_Lexorder" "HOL-Library.Word"
begin

text \<open>
  The content census of verification/census.go, binding.go, detect.go and the accumulation
  part of detectors.go: policy check, planned read set, findings, census facts, binding and
  coverage check. Digests are 32-byte strings; SHA-256 and HMAC are arguments. The regular
  expressions and the shingle hashing of a single file are not modelled: its finding is an input.
\<close>

subsection \<open>Refusals and members\<close>

datatype refusal = ArtifactChanged | Unsupported | SummaryBudget | ResourceLimit | Timeout | PermissionDenied
  | ScannerFailure | VerifierUpgradeRequired | InsufficientReadableContent | MemberCountExceeded | EmptyVersion

fun refusal_text :: "refusal \<Rightarrow> string" where
  "refusal_text ArtifactChanged = ''artifact_changed''"
| "refusal_text Unsupported = ''unsupported_type''"
| "refusal_text SummaryBudget = ''summary_budget_exceeded''"
| "refusal_text ResourceLimit = ''resource_limit_exceeded''"
| "refusal_text Timeout = ''timeout''"
| "refusal_text PermissionDenied = ''permission_denied''"
| "refusal_text ScannerFailure = ''scanner_failure''"
| "refusal_text VerifierUpgradeRequired = ''verifier_upgrade_required''"
| "refusal_text InsufficientReadableContent = ''insufficient_readable_content''"
| "refusal_text MemberCountExceeded = ''member_count_exceeded''"
| "refusal_text EmptyVersion = ''empty_version''"

record member =
  mb_identity :: string
  mb_size :: int
  mb_sha :: string
  mb_digest :: bool
  mb_ordering :: "string option"
  mb_format :: string
  mb_etag :: string
  mb_version :: string

definition bare_format :: "string \<Rightarrow> string" where
  "bare_format f = to_lower (trim_prefix ''.'' f)"

definition supported :: "string \<Rightarrow> bool" where
  "supported f \<longleftrightarrow> f = ''csv'' \<or> f = ''tsv'' \<or> f = ''jsonl'' \<or> f = ''parquet''"

definition extension_class :: "string \<Rightarrow> string" where
  "extension_class format =
     (let f = bare_format format in
      if f \<in> set [''csv'', ''tsv'', ''jsonl'', ''ndjson'', ''parquet''] then ''table''
      else if f = ''json'' then ''json''
      else if f \<in> set [''go'', ''py'', ''cpp'', ''c'', ''h'', ''java'', ''js'', ''ts'', ''rs'', ''rb'', ''sh'', ''cs'', ''sql'']
        then ''source_code''
      else if f \<in> set [''md'', ''markdown''] then ''markdown''
      else if f \<in> set [''txt'', ''text'', ''in'', ''out''] then ''text''
      else if f \<in> set [''html'', ''htm'', ''xml''] then ''html_xml''
      else if f = ''pdf'' then ''pdf''
      else if f \<in> set [''png'', ''jpg'', ''jpeg'', ''gif'', ''webp'', ''svg''] then ''image''
      else if f = ''zip'' then ''archive_zip''
      else if f \<in> set [''tar.gz'', ''tgz''] then ''archive_tar_gz''
      else ''other'')"

definition archive_formats :: "(string \<times> string) list" where
  "archive_formats = [(''zip'', ''zip''), (''tar.gz'', ''tar.gz''), (''tgz'', ''tar.gz'')]"

text \<open>A name that is not in the table gives the empty format.\<close>

definition archive_format :: "member \<Rightarrow> string" where
  "archive_format m = (case map_of archive_formats (bare_format (mb_format m)) of None \<Rightarrow> '''' | Some f \<Rightarrow> f)"

subsection \<open>Policy\<close>

record archive_caps =
  ac_bytes :: int
  ac_entries :: int
  ac_ratio :: int

record policy =
  po_mode :: string
  po_binding :: string
  po_budget :: int
  po_planned :: int
  po_allowance :: int
  po_caps :: archive_caps
  po_patterns :: "string list"
  po_seed :: string
  po_max_memory :: int
  po_max_facts :: int
  po_custom :: bool

definition content_census_v1 :: string where "content_census_v1 = ''content_census_v1''"

definition pattern_versions :: "string list" where
  "pattern_versions = [''email_v1'', ''phone_e164_or_separated_v1'', ''credential_v1'', ''licence_families_v1'',
     ''simhash64_5shingle_v1'']"

definition zero_caps :: archive_caps where "zero_caps = \<lparr>ac_bytes = 0, ac_entries = 0, ac_ratio = 0\<rparr>"

definition census_caps :: archive_caps where
  "census_caps = \<lparr>ac_bytes = 268435456, ac_entries = 10000, ac_ratio = 1000\<rparr>"

definition check_census_policy :: "policy \<Rightarrow> refusal option" where
  "check_census_policy p =
     (let census = (po_mode p = content_census_v1) in
      if po_mode p \<noteq> '''' \<and> po_mode p \<noteq> ''table_v1'' \<and> po_mode p \<noteq> content_census_v1 then Some Unsupported
      else if po_binding p \<noteq> '''' \<and> po_binding p \<noteq> ''full_sha256_v1'' \<and> po_binding p \<noteq> ''planned_read_commitment_v2''
        then Some Unsupported
      else if ((census \<or> po_budget p \<noteq> 0) \<and> po_budget p \<noteq> 4000000000 \<and> po_budget p \<noteq> 3000000000)
          \<or> po_planned p < 0 \<or> po_planned p > po_budget p then Some Unsupported
      else if (census \<or> po_allowance p \<noteq> 0) \<and> po_allowance p \<noteq> 67108864 then Some Unsupported
      else if (census \<or> po_caps p \<noteq> zero_caps) \<and> po_caps p \<noteq> census_caps then Some Unsupported
      else if (census \<or> po_patterns p \<noteq> []) \<and> po_patterns p \<noteq> pattern_versions then Some Unsupported
      else if (census \<and> po_binding p \<noteq> ''planned_read_commitment_v2'')
          \<or> (\<not> census \<and> po_binding p = ''planned_read_commitment_v2'') then Some Unsupported
      else None)"

subsection \<open>The planned read set\<close>

definition read_cost :: "policy \<Rightarrow> member \<Rightarrow> int" where
  "read_cost p m = (if archive_format m \<noteq> '''' then po_allowance p else mb_size m)"

fun plan_greedy :: "policy \<Rightarrow> int \<Rightarrow> member list \<Rightarrow> string list" where
  "plan_greedy p remaining [] = []"
| "plan_greedy p remaining (m # ms) =
     (let cost = read_cost p m in
      if cost \<ge> 0 \<and> cost \<le> remaining then mb_identity m # plan_greedy p (remaining - cost) ms
      else plan_greedy p remaining ms)"

definition ranked :: "(string \<Rightarrow> string \<Rightarrow> string) \<Rightarrow> string \<Rightarrow> member list \<Rightarrow> member list" where
  "ranked mac seed ms =
     sort_key (\<lambda>m. (mac seed (mb_identity m), mb_identity m)) (filter (\<lambda>m. \<not> supported (mb_format m)) ms)"

definition planned_read_set :: "(string \<Rightarrow> string \<Rightarrow> string) \<Rightarrow> string \<Rightarrow> member list \<Rightarrow> policy \<Rightarrow> string list" where
  "planned_read_set mac seed ms p = plan_greedy p (po_planned p) (ranked mac seed ms)"

subsection \<open>Findings\<close>

record file_finding =
  ff_near :: bool
  ff_class :: string
  ff_encoding :: string
  ff_script :: string
  ff_size :: int
  ff_digest :: string
  ff_simhash :: "64 word"
  ff_hits :: "int list"
  ff_licences :: "string list"

record inspection =
  in_near_files :: int
  in_files :: int
  in_bytes :: int
  in_empty :: int
  in_garbage :: int
  in_classes :: counts
  in_encodings :: counts
  in_scripts :: counts
  in_licences :: counts
  in_hits :: "int list"
  in_hit_files :: "int list"
  in_exact :: counts
  in_near :: "(64 word \<times> int) list"

definition no_inspection :: inspection where
  "no_inspection = \<lparr>in_near_files = 0, in_files = 0, in_bytes = 0, in_empty = 0, in_garbage = 0, in_classes = [],
     in_encodings = [], in_scripts = [], in_licences = [], in_hits = [0, 0, 0], in_hit_files = [0, 0, 0],
     in_exact = [], in_near = []\<rparr>"

text \<open>The shared memory allowance; None is the absent allowance of the legacy callers.\<close>

record allowance =
  al_used :: int
  al_limit :: int
  al_over :: bool

definition reserve_memory :: "int \<Rightarrow> allowance option \<Rightarrow> bool \<times> allowance option" where
  "reserve_memory n m = (case m of None \<Rightarrow> (True, None)
     | Some a \<Rightarrow> if n > al_limit a - al_used a \<or> al_over a then (False, Some (a\<lparr>al_over := True\<rparr>))
                else (True, Some (a\<lparr>al_used := al_used a + n\<rparr>)))"

definition count_file :: "file_finding \<Rightarrow> inspection \<Rightarrow> inspection" where
  "count_file f a = a\<lparr>
     in_files := in_files a + 1, in_bytes := in_bytes a + ff_size f,
     in_classes := bump (ff_class f) 1 (in_classes a),
     in_encodings := bump (ff_encoding f) 1 (in_encodings a),
     in_scripts := (if ff_encoding f \<noteq> ''binary'' then bump (ff_script f) 1 (in_scripts a) else in_scripts a),
     in_empty := (if ff_class f = ''empty'' then in_empty a + 1 else in_empty a),
     in_garbage := (if ff_class f = ''other_binary'' then in_garbage a + 1 else in_garbage a),
     in_hits := map2 (+) (in_hits a) (ff_hits f),
     in_hit_files := map2 (\<lambda>k n. if n > 0 then k + 1 else k) (in_hit_files a) (ff_hits f),
     in_licences := fold (\<lambda>k. bump k 1) (ff_licences f) (in_licences a),
     in_exact := bump (ff_digest f) 1 (in_exact a),
     in_near_files := (if ff_near f then in_near_files a + 1 else in_near_files a),
     in_near := (if ff_near f then bump (ff_simhash f) 1 (in_near a) else in_near a)\<rparr>"

definition add_file :: "file_finding \<Rightarrow> inspection \<times> allowance option \<Rightarrow> inspection \<times> allowance option" where
  "add_file f am =
     (case am of (a, m) \<Rightarrow>
      (case (if ff_digest f \<notin> fst ` set (in_exact a) then reserve_memory 256 m else (True, m)) of
         (False, m1) \<Rightarrow> (a, m1)
       | (True, m1) \<Rightarrow>
         (case (if ff_near f \<and> ff_simhash f \<notin> fst ` set (in_near a) then reserve_memory 128 m1 else (True, m1)) of
            (False, m2) \<Rightarrow> (a, m2)
          | (True, m2) \<Rightarrow> (count_file f a, m2))))"

definition merge_counts :: "('k \<times> int) list \<Rightarrow> ('k \<times> int) list \<Rightarrow> ('k \<times> int) list" where
  "merge_counts dst src = fold (\<lambda>(k, v). bump k v) src dst"

definition merge_inspection :: "inspection \<Rightarrow> inspection \<Rightarrow> inspection" where
  "merge_inspection a b = a\<lparr>
     in_files := in_files a + in_files b, in_bytes := in_bytes a + in_bytes b,
     in_empty := in_empty a + in_empty b, in_garbage := in_garbage a + in_garbage b,
     in_near_files := in_near_files a + in_near_files b,
     in_classes := merge_counts (in_classes a) (in_classes b),
     in_encodings := merge_counts (in_encodings a) (in_encodings b),
     in_scripts := merge_counts (in_scripts a) (in_scripts b),
     in_licences := merge_counts (in_licences a) (in_licences b),
     in_hits := map2 (+) (in_hits a) (in_hits b),
     in_hit_files := map2 (+) (in_hit_files a) (in_hit_files b),
     in_exact := merge_counts (in_exact a) (in_exact b),
     in_near := merge_counts (in_near a) (in_near b)\<rparr>"

subsection \<open>Commitments\<close>

record commitment =
  cm_tag :: string
  cm_digest :: string

text \<open>Big-endian bytes; a negative number in two's complement.\<close>

fun be_bytes :: "nat \<Rightarrow> int \<Rightarrow> string" where
  "be_bytes 0 n = []"
| "be_bytes (Suc k) n = be_bytes k (n div 256) @ [char_of (nat (n mod 256))]"

definition u64_bytes :: "int \<Rightarrow> string" where "u64_bytes n = be_bytes 8 n"

definition frame_bytes :: "string \<Rightarrow> string" where
  "frame_bytes b = u64_bytes (int (length b)) @ b"

definition trim_quotes :: "string \<Rightarrow> string" where
  "trim_quotes s = rev (dropWhile (\<lambda>c. c = CHR 0x22) (rev (dropWhile (\<lambda>c. c = CHR 0x22) s)))"

definition metadata_bytes :: "member \<Rightarrow> string" where
  "metadata_bytes m = u64_bytes (mb_size m) @ frame_bytes (trim_quotes (mb_etag m)) @ frame_bytes (mb_version m)"

definition unread_commitment :: "(string \<Rightarrow> string) \<Rightarrow> member \<Rightarrow> commitment" where
  "unread_commitment sha m = \<lparr>cm_tag = ''unread'', cm_digest = sha (metadata_bytes m)\<rparr>"

definition decoded_commitment :: "(string \<Rightarrow> string) \<Rightarrow> string \<Rightarrow> commitment" where
  "decoded_commitment sha b = \<lparr>cm_tag = ''decoded_prefix'', cm_digest = sha (u64_bytes (int (length b)) @ ''decoded_prefix'' @ b)\<rparr>"

definition unread_binding :: "(string \<Rightarrow> string) \<Rightarrow> member list \<Rightarrow> string list \<Rightarrow> string" where
  "unread_binding sha members planned =
     sha (concat (map (\<lambda>m. frame_bytes (mb_identity m) @ metadata_bytes m)
       (filter (\<lambda>m. \<not> (supported (mb_format m) \<or> mb_identity m \<in> set planned)) members)))"

definition census_tags :: "string list" where
  "census_tags = [''full'', ''zip_entries'', ''decoded_prefix'', ''unread'']"

definition member_frame :: "member \<Rightarrow> (string \<times> commitment) list \<Rightarrow> refusal + string" where
  "member_frame m cs =
     (case map_of cs (mb_identity m) of None \<Rightarrow> Inl ArtifactChanged
      | Some c \<Rightarrow>
        (let head = frame_bytes (mb_identity m) @ u64_bytes (mb_size m) in
         if supported (mb_format m) then
           (if cm_tag c \<noteq> ''full'' then Inl ArtifactChanged else Inr (head @ cm_digest c))
         else if cm_tag c \<notin> set census_tags then Inl Unsupported
         else Inr (head @ frame_bytes (cm_tag c) @ frame_bytes (cm_digest c))))"

fun member_frames :: "member list \<Rightarrow> (string \<times> commitment) list \<Rightarrow> refusal + string" where
  "member_frames [] cs = Inr []"
| "member_frames (m # ms) cs =
     (case member_frame m cs of Inl e \<Rightarrow> Inl e
      | Inr b \<Rightarrow> (case member_frames ms cs of Inl e \<Rightarrow> Inl e | Inr bs \<Rightarrow> Inr (b @ bs)))"

definition content_binding_v2 :: "(string \<Rightarrow> string) \<Rightarrow> member list \<Rightarrow> (string \<times> commitment) list \<Rightarrow> refusal + string" where
  "content_binding_v2 sha members cs =
     (case member_frames members cs of Inl e \<Rightarrow> Inl e | Inr b \<Rightarrow> Inr (sha b))"

subsection \<open>Results of members and their accumulation\<close>

record member_result =
  mr_err :: "refusal option"
  mr_plain :: bool
  mr_commit :: commitment
  mr_state :: string
  mr_reason :: string
  mr_opened :: bool
  mr_stored :: int
  mr_processed :: int
  mr_readable :: int
  mr_unreadable :: int
  mr_entries :: int
  mr_entry_bytes :: int
  mr_findings :: inspection
  mr_reasons :: counts

definition unread_result :: "(string \<Rightarrow> string) \<Rightarrow> member \<Rightarrow> string \<Rightarrow> member_result" where
  "unread_result sha m reason =
     \<lparr>mr_err = None, mr_plain = False, mr_commit = unread_commitment sha m, mr_state = ''unread'', mr_reason = reason,
      mr_opened = False, mr_stored = 0, mr_processed = 0, mr_readable = 0, mr_unreadable = 0, mr_entries = 0,
      mr_entry_bytes = 0, mr_findings = no_inspection, mr_reasons = []\<rparr>"

text \<open>What a plain member's stream did: it did not open, or it delivered bytes and then ended
  or failed; the deadline may have passed before, at the opening or during the reading.\<close>

datatype stream = NotOpened | Delivered string bool

record read_env =
  re_sha :: "string \<Rightarrow> string"
  re_inspect :: "string \<Rightarrow> string \<Rightarrow> file_finding"
  re_late0 :: bool
  re_late1 :: bool
  re_late2 :: bool

definition read_plain :: "read_env \<Rightarrow> member \<Rightarrow> stream \<Rightarrow> allowance option \<Rightarrow> member_result \<times> allowance option" where
  "read_plain env m s mem =
     (if re_late0 env then (unread_result (re_sha env) m ''budget_exhausted'', mem)
      else (let r = unread_result (re_sha env) m ''read_error'' in
        case s of
          NotOpened \<Rightarrow> (if re_late1 env then r\<lparr>mr_reason := ''budget_exhausted''\<rparr> else r\<lparr>mr_unreadable := mb_size m\<rparr>, mem)
        | Delivered bytes failed \<Rightarrow>
          (let got = take (nat (mb_size m + 1)) bytes; n = int (length got); digest = re_sha env got;
               r1 = r\<lparr>mr_opened := True, mr_processed := min n (mb_size m)\<rparr> in
           if re_late2 env then (r1\<lparr>mr_reason := ''budget_exhausted''\<rparr>, mem)
           else if (failed \<and> length got = length bytes) \<or> n \<noteq> mb_size m then (r1\<lparr>mr_unreadable := mb_size m\<rparr>, mem)
           else if mb_digest m \<and> digest \<noteq> mb_sha m then (r1\<lparr>mr_reason := ''read_error'', mr_unreadable := mb_size m\<rparr>, mem)
           else (case add_file (re_inspect env (CHR ''.'' # mb_format m) got) (no_inspection, mem) of (f, mem') \<Rightarrow>
             (r1\<lparr>mr_commit := \<lparr>cm_tag = ''full'', cm_digest = digest\<rparr>, mr_state := ''fully_read'', mr_reason := '''',
                 mr_stored := mb_size m, mr_readable := mb_size m, mr_findings := f\<rparr>, mem')))))"

record census_raw =
  rw_members :: int
  rw_stored :: int
  rw_archives :: int
  rw_opened :: int
  rw_partial :: int
  rw_entries :: int
  rw_entry_bytes :: int
  rw_fully :: int
  rw_partly :: int
  rw_unread :: int
  rw_stored_read :: int
  rw_processed :: int
  rw_readable :: int
  rw_unreadable :: int
  rw_extensions :: counts
  rw_sizes :: counts
  rw_reasons :: counts
  rw_interior :: counts
  rw_inspected :: inspection

definition zero_raw :: census_raw where
  "zero_raw = \<lparr>rw_members = 0, rw_stored = 0, rw_archives = 0, rw_opened = 0, rw_partial = 0, rw_entries = 0,
     rw_entry_bytes = 0, rw_fully = 0, rw_partly = 0, rw_unread = 0, rw_stored_read = 0, rw_processed = 0, rw_readable = 0,
     rw_unreadable = 0, rw_extensions = [], rw_sizes = [], rw_reasons = [], rw_interior = [], rw_inspected = no_inspection\<rparr>"

definition raw_member :: "member \<Rightarrow> census_raw \<Rightarrow> census_raw" where
  "raw_member m r = r\<lparr>
     rw_members := rw_members r + 1, rw_stored := rw_stored r + mb_size m,
     rw_extensions := bump (extension_class (mb_format m)) 1 (rw_extensions r),
     rw_sizes := bump (size_bucket (mb_size m)) 1 (rw_sizes r),
     rw_archives := (if archive_format m \<noteq> '''' then rw_archives r + 1 else rw_archives r)\<rparr>"

definition new_raw :: "member list \<Rightarrow> census_raw" where
  "new_raw ms = fold raw_member ms zero_raw"

definition raw_add :: "member \<times> member_result \<Rightarrow> census_raw \<Rightarrow> census_raw" where
  "raw_add mx r = (case mx of (m, x) \<Rightarrow>
     (let inside = (archive_format m \<noteq> '''' \<and> mr_opened x \<and> \<not> mr_plain x) in
      r\<lparr>rw_fully := (if mr_state x = ''fully_read'' then rw_fully r + 1 else rw_fully r),
        rw_partly := (if mr_state x = ''partly_read'' then rw_partly r + 1 else rw_partly r),
        rw_unread := (if mr_state x \<noteq> ''fully_read'' \<and> mr_state x \<noteq> ''partly_read'' then rw_unread r + 1 else rw_unread r),
        rw_reasons := (if mr_reason x \<noteq> '''' then bump (mr_reason x) 1 (rw_reasons r) else rw_reasons r),
        rw_stored_read := rw_stored_read r + mr_stored x, rw_processed := rw_processed r + mr_processed x,
        rw_readable := rw_readable r + mr_readable x, rw_unreadable := rw_unreadable r + mr_unreadable x,
        rw_inspected := merge_inspection (rw_inspected r) (mr_findings x),
        rw_opened := (if inside then rw_opened r + 1 else rw_opened r),
        rw_partial := (if inside \<and> mr_state x \<noteq> ''fully_read'' then rw_partial r + 1 else rw_partial r),
        rw_entries := (if inside then rw_entries r + mr_entries x else rw_entries r),
        rw_entry_bytes := (if inside then rw_entry_bytes r + mr_entry_bytes x else rw_entry_bytes r),
        rw_interior := merge_counts (rw_interior r) (mr_reasons x)\<rparr>))"

definition duplicate_rate :: "('k \<times> int) list \<Rightarrow> int \<Rightarrow> int" where
  "duplicate_rate counts n =
     (if n = 0 then 0 else rate_units (sum_list (map (\<lambda>(k, v). v - 1) (filter (\<lambda>(k, v). v > 1) counts))) n)"

subsection \<open>The published census\<close>

record census_finding =
  fi_class :: string
  fi_version :: string
  fi_family :: string
  fi_population :: fact
  fi_state :: string
  fi_files :: string
  fi_files_with_hits :: string
  fi_hits :: string
  fi_count :: fact

record census_duplicates =
  du_exact :: fact
  du_near :: fact
  du_near_state :: string
  du_population :: fact
  du_state :: string

record census_inventory =
  iv_members :: fact
  iv_stored :: fact
  iv_extensions :: partition_fact
  iv_sizes :: partition_fact
  iv_archives :: fact

record census_coverage =
  cv_read :: partition_fact
  cv_members :: fact
  cv_stored_read :: fact
  cv_stored_total :: fact
  cv_processed :: fact
  cv_sampled :: bool
  cv_reasons :: partition_fact
  cv_limited :: bool

record census_interiors =
  it_state :: string
  it_population :: fact
  it_opened :: fact
  it_partial :: fact
  it_entries :: fact
  it_entry_bytes :: fact
  it_reasons :: partition_fact

record census_inspected =
  ip_classes :: partition_fact
  ip_detectors :: "census_finding list"
  ip_licences :: "census_finding list"
  ip_duplicates :: census_duplicates
  ip_encodings :: partition_fact
  ip_scripts :: partition_fact
  ip_empty :: census_finding
  ip_garbage :: census_finding

record content_census =
  cc_method :: string
  cc_depth :: string
  cc_inventory :: census_inventory
  cc_coverage :: census_coverage
  cc_interiors :: census_interiors
  cc_inspected :: census_inspected

definition blank_finding :: "int \<Rightarrow> census_finding" where
  "blank_finding n = \<lparr>fi_class = '''', fi_version = '''', fi_family = '''', fi_population = population n,
     fi_state = finding_state n, fi_files = '''', fi_files_with_hits = '''', fi_hits = '''', fi_count = FNil\<rparr>"

definition detector_names :: "string list" where "detector_names = [''email'', ''phone'', ''credential_like'']"

definition licence_families :: "string list" where
  "licence_families = [''mit'', ''apache_2'', ''bsd'', ''gpl'', ''lgpl'', ''agpl'', ''mpl'', ''cc_by'', ''cc_by_sa'', ''cc_by_nc'',
     ''cc0'', ''unlicense'', ''proprietary_notice'', ''unknown_licence_text'']"

definition detector_finding :: "inspection \<Rightarrow> nat \<Rightarrow> census_finding" where
  "detector_finding a i =
     (let f = (blank_finding (in_files a))\<lparr>fi_class := detector_names ! i, fi_version := pattern_versions ! i\<rparr> in
      if in_files a \<ge> 10 then f\<lparr>fi_files_with_hits := count_band (in_hit_files a ! i), fi_hits := count_band (in_hits a ! i)\<rparr> else f)"

definition licence_finding :: "inspection \<Rightarrow> string \<Rightarrow> census_finding" where
  "licence_finding a family =
     (let f = (blank_finding (in_files a))\<lparr>fi_family := family\<rparr> in
      if in_files a \<ge> 10 then f\<lparr>fi_files := count_band (get family (in_licences a))\<rparr> else f)"

definition duplicates_of :: "inspection \<Rightarrow> census_duplicates" where
  "duplicates_of a = (let n = in_files a in
     \<lparr>du_exact = (if n \<ge> 10 then FNum (duplicate_rate (in_exact a) n) else FNil),
      du_near = (if n \<ge> 10 \<and> in_near_files a \<ge> 10 then FNum (duplicate_rate (in_near a) n) else FNil),
      du_near_state = finding_state (in_near_files a), du_population = population n, du_state = finding_state n\<rparr>)"

definition inspected_of :: "inspection \<Rightarrow> census_inspected" where
  "inspected_of a = (let n = in_files a in
     \<lparr>ip_classes = census_partition (in_classes a) n False,
      ip_detectors = map (detector_finding a) [0..<3],
      ip_licences = map (licence_finding a) licence_families,
      ip_duplicates = duplicates_of a,
      ip_encodings = census_partition (in_encodings a) n False,
      ip_scripts = census_partition (in_scripts a) (tally (in_scripts a)) False,
      ip_empty = (if n \<ge> 10 then (blank_finding n)\<lparr>fi_count := FBand (count_band (in_empty a))\<rparr> else blank_finding n),
      ip_garbage = (if n \<ge> 10 then (blank_finding n)\<lparr>fi_count := FBand (count_band (in_garbage a))\<rparr> else blank_finding n)\<rparr>)"

definition hidden_partition :: "string \<Rightarrow> fact \<Rightarrow> partition_fact" where
  "hidden_partition st pop = \<lparr>pt_state = st, pt_population = pop, pt_cells = []\<rparr>"

definition suppress_inspected :: "int \<Rightarrow> census_inspected \<Rightarrow> census_inspected" where
  "suppress_inspected n s = (let pop = FBand (count_band n); hidden = hidden_partition suppressed pop in
     s\<lparr>ip_classes := hidden, ip_encodings := hidden, ip_scripts := hidden,
       ip_detectors := map (\<lambda>f. f\<lparr>fi_state := suppressed, fi_population := pop, fi_files_with_hits := '''', fi_hits := ''''\<rparr>) (ip_detectors s),
       ip_licences := map (\<lambda>f. f\<lparr>fi_state := suppressed, fi_population := pop, fi_files := ''''\<rparr>) (ip_licences s),
       ip_duplicates := (ip_duplicates s)\<lparr>du_state := suppressed, du_population := pop, du_exact := FNil, du_near := FNil,
          du_near_state := suppressed\<rparr>,
       ip_empty := (blank_finding 0)\<lparr>fi_state := suppressed, fi_population := pop\<rparr>,
       ip_garbage := (blank_finding 0)\<lparr>fi_state := suppressed, fi_population := pop\<rparr>\<rparr>)"

definition read_states :: "census_raw \<Rightarrow> partition_fact" where
  "read_states r = census_partition [(''fully_read'', rw_fully r), (''partly_read'', rw_partly r), (''unread'', rw_unread r)]
     (rw_members r) True"

definition coverage_of :: "census_raw \<Rightarrow> census_coverage" where
  "coverage_of r =
     (let states = read_states r; n = rw_fully r + rw_partly r;
          exact = (pt_state states = ''checked'' \<and> n \<ge> 10 \<and> rw_unread r \<ge> 10) in
      \<lparr>cv_read = states, cv_members = population (rw_members r), cv_stored_read = byte_count (rw_stored_read r) n exact,
       cv_stored_total = byte_count (rw_stored r) (rw_members r) exact, cv_processed = byte_count (rw_processed r) n exact,
       cv_sampled = (rw_fully r \<noteq> rw_members r), cv_reasons = census_partition (rw_reasons r) (rw_members r) False,
       cv_limited = (rw_unreadable r > 0 \<and> rw_readable r < (rw_readable r + rw_unreadable r + 9) div 10)\<rparr>)"

definition interiors_of :: "census_raw \<Rightarrow> census_interiors" where
  "interiors_of r =
     (let n = rw_opened r; st = finding_state n in
      if n < 10 then
        \<lparr>it_state = st, it_population = population n, it_opened = FNil, it_partial = FNil, it_entries = FNil,
         it_entry_bytes = FNil, it_reasons = hidden_partition st (population n)\<rparr>
      else
        \<lparr>it_state = st, it_population = population n, it_opened = part_count n (rw_archives r),
         it_partial = part_count (rw_partial r) n, it_entries = FBand (count_band (rw_entries r)),
         it_entry_bytes = FBand (size_bucket (rw_entry_bytes r)), it_reasons = census_partition (rw_interior r) n False\<rparr>)"

definition finish_census :: "census_raw \<Rightarrow> content_census" where
  "finish_census r =
     (let ins = inspected_of (rw_inspected r) in
      \<lparr>cc_method = content_census_v1,
       cc_depth = (if rw_fully r \<noteq> rw_members r then ''content_census_sampled_v1'' else ''content_census_complete_v1''),
       cc_inventory = \<lparr>iv_members = population (rw_members r), iv_stored = byte_count (rw_stored r) (rw_members r) True,
          iv_extensions = census_partition (rw_extensions r) (rw_members r) False,
          iv_sizes = census_partition (rw_sizes r) (rw_members r) False,
          iv_archives = part_count (rw_archives r) (rw_members r)\<rparr>,
       cc_coverage = coverage_of r,
       cc_interiors = interiors_of r,
       cc_inspected = (if rw_opened r > 0 \<and> rw_opened r < 10 then suppress_inspected (in_files (rw_inspected r)) ins else ins)\<rparr>)"

subsection \<open>The coverage check of the published facts\<close>

fun exact_count :: "fact \<Rightarrow> int option" where
  "exact_count (FNum n) = Some n"
| "exact_count _ = None"

definition contains_count :: "fact \<Rightarrow> int \<Rightarrow> bool" where
  "contains_count v n = (case v of FNum k \<Rightarrow> k = n | FNil \<Rightarrow> False
     | FBand b \<Rightarrow> if b = ''0'' then n = 0 else if b = ''1-9'' then n \<ge> 1 \<and> n \<le> 9 else if b = ''10-99'' then n \<ge> 10 \<and> n \<le> 99
         else if b = ''100-999'' then n \<ge> 100 \<and> n \<le> 999 else if b = ''1000+'' then n \<ge> 1000 else False)"

record cell_sum =
  cs_total :: int
  cs_read :: int
  cs_unread :: int
  cs_seen :: "string list"

fun check_cells :: "int \<Rightarrow> counts \<Rightarrow> cell_sum \<Rightarrow> refusal + cell_sum" where
  "check_cells members [] s = Inr s"
| "check_cells members ((k, n) # cells) s =
     (if n < 10 \<or> n > members - cs_total s \<or> k \<in> set (cs_seen s) then Inl ArtifactChanged
      else (let s1 = s\<lparr>cs_seen := k # cs_seen s, cs_total := cs_total s + n\<rparr> in
        if k \<in> {''fully_read'', ''partly_read'', ''other''} then check_cells members cells (s1\<lparr>cs_read := cs_read s + n\<rparr>)
        else if k = ''unread'' then check_cells members cells (s1\<lparr>cs_unread := cs_unread s + n\<rparr>)
        else Inl Unsupported))"

definition validate_census_coverage :: "content_census \<Rightarrow> int \<Rightarrow> int \<Rightarrow> refusal option" where
  "validate_census_coverage c members planned =
     (let p = cv_read (cc_coverage c) in
      if members < 0 \<or> planned < 0 \<or> planned > members \<or> cc_method c \<noteq> content_census_v1
        \<or> \<not> contains_count (iv_members (cc_inventory c)) members \<or> \<not> contains_count (cv_members (cc_coverage c)) members
      then Some ArtifactChanged
      else if cc_depth c = ''content_census_complete_v1'' \<and> (planned \<noteq> members \<or> cv_sampled (cc_coverage c)) then Some ArtifactChanged
      else if cc_depth c = ''content_census_sampled_v1'' \<and> \<not> cv_sampled (cc_coverage c) then Some ArtifactChanged
      else if cc_depth c \<noteq> ''content_census_complete_v1'' \<and> cc_depth c \<noteq> ''content_census_sampled_v1'' then Some Unsupported
      else if pt_state p = suppressed \<or> pt_state p = ''not_checked'' then None
      else if pt_state p \<noteq> ''checked'' \<or> \<not> contains_count (pt_population p) members then Some ArtifactChanged
      else case check_cells members (pt_cells p) \<lparr>cs_total = 0, cs_read = 0, cs_unread = 0, cs_seen = []\<rparr> of
          Inl e \<Rightarrow> Some e
        | Inr s \<Rightarrow> if cs_total s \<noteq> members \<or> cs_read s > planned \<or> cs_unread s < members - planned
                   then Some ArtifactChanged else None)"

subsection \<open>The census run\<close>

text \<open>The environment of a run: the reader of a member, the deadline seen by each worker, the
  metadata query, the tables of the same version and the encoder of facts.\<close>

record 'o table_facts =
  tf_objects :: 'o
  tf_digests :: "(string \<times> string) list"

record 'o census_env =
  ce_sha :: "string \<Rightarrow> string"
  ce_mac :: "string \<Rightarrow> string \<Rightarrow> string"
  ce_hex :: "string \<Rightarrow> string"
  ce_late :: "string \<Rightarrow> bool"
  ce_read :: "member \<Rightarrow> member_result"
  ce_memory_failed :: bool
  ce_head :: "string \<Rightarrow> refusal + member"
  ce_tables :: "member list \<Rightarrow> refusal + 'o table_facts"
  ce_locator :: string
  ce_encode :: "'o table_facts \<Rightarrow> nat \<Rightarrow> nat \<Rightarrow> content_census option \<Rightarrow> refusal + string"
  ce_fingerprint :: "'o table_facts \<Rightarrow> nat \<Rightarrow> nat \<Rightarrow> content_census option \<Rightarrow> refusal + string"

record 'o census_facts =
  fx_tables :: "'o table_facts"
  fx_discovered :: nat
  fx_in_census :: nat
  fx_census :: "content_census option"
  fx_unread :: string
  fx_content :: string
  fx_locator :: string
  fx_fingerprint :: string

definition hex_ascii :: "string \<Rightarrow> bool" where
  "hex_ascii s \<longleftrightarrow> length s = 64 \<and> list_all is_lower_hex s"

definition file_id_ascii :: "string \<Rightarrow> bool" where
  "file_id_ascii s \<longleftrightarrow> length s = 32 \<and> hex_ascii (s @ s)"

fun members_ok :: "policy \<Rightarrow> string option \<Rightarrow> int \<Rightarrow> member list \<Rightarrow> bool" where
  "members_ok p prev sofar [] = True"
| "members_ok p prev sofar (m # ms) \<longleftrightarrow>
     valid_utf8 (mb_identity m) \<and> valid_utf8 (mb_etag m) \<and> valid_utf8 (mb_version m) \<and> mb_identity m \<noteq> ''''
     \<and> (mb_ordering m = None \<longrightarrow> file_id_ascii (mb_identity m))
     \<and> (mb_ordering m \<noteq> None \<longrightarrow> po_custom p \<and> mb_ordering m = Some (mb_identity m))
     \<and> 0 \<le> mb_size m \<and> mb_size m \<le> max_int64 - sofar
     \<and> (case prev of None \<Rightarrow> True | Some i \<Rightarrow> i < mb_identity m)
     \<and> members_ok p (Some (mb_identity m)) (sofar + mb_size m) ms"

definition member_outcome :: "'o census_env \<Rightarrow> string list \<Rightarrow> member \<Rightarrow> member_result" where
  "member_outcome env plan m =
     (if mb_identity m \<in> set plan
      then (if ce_late env (mb_identity m) then unread_result (ce_sha env) m ''budget_exhausted'' else ce_read env m)
      else unread_result (ce_sha env) m ''not_sampled'')"

definition head_check :: "'o census_env \<Rightarrow> member \<times> member_result \<Rightarrow> refusal option" where
  "head_check env mr = (case mr of (m, r) \<Rightarrow>
     if mr_state r \<noteq> ''unread'' then None
     else (case ce_head env (mb_identity m) of Inl e \<Rightarrow> Some e
       | Inr got \<Rightarrow> if mb_size got \<noteq> mb_size m \<or> trim_quotes (mb_etag got) \<noteq> trim_quotes (mb_etag m)
           \<or> mb_version got \<noteq> mb_version m then Some ArtifactChanged else None))"

fun first_refusal :: "refusal option list \<Rightarrow> refusal option" where
  "first_refusal [] = None"
| "first_refusal (None # es) = first_refusal es"
| "first_refusal (Some e # es) = Some e"

definition scan_census :: "'o census_env \<Rightarrow> 'o table_facts \<Rightarrow> policy \<Rightarrow> member list \<Rightarrow> refusal + 'o census_facts" where
  "scan_census env no_tables p members =
     (if members = [] then Inl EmptyVersion
      else if length members > 100000 then Inl MemberCountExceeded
      else if \<not> members_ok p None 0 members then Inl ArtifactChanged
      else (let tables = filter (\<lambda>m. supported (mb_format m)) members;
                census = filter (\<lambda>m. \<not> supported (mb_format m)) members in
        bind_res (if tables \<noteq> [] then ce_tables env tables else Inr no_tables) (\<lambda>tf.
        (let plan = planned_read_set (ce_mac env) (po_seed p) census p in
         if int (length census) * 1024 + 67108864 > po_max_memory p then Inl ResourceLimit
         else (let results = map (\<lambda>m. (m, member_outcome env plan m)) census in
           if ce_memory_failed env then Inl ResourceLimit
           else case first_refusal (map (mr_err \<circ> snd) results) of Some e \<Rightarrow> Inl e
             | None \<Rightarrow>
           case first_refusal (map (head_check env) results) of Some e \<Rightarrow> Inl e
             | None \<Rightarrow>
             (let commitments = fold (\<lambda>(m, r). AList.update (mb_identity m) (mr_commit r)) results
                    (map (\<lambda>(i, d). (i, \<lparr>cm_tag = ''full'', cm_digest = d\<rparr>)) (tf_digests tf));
                  raw = fold raw_add results (new_raw census);
                  cc = (if census \<noteq> [] then Some (finish_census raw) else None) in
              case (case cc of None \<Rightarrow> None
                    | Some c \<Rightarrow> validate_census_coverage c (int (length census)) (int (length plan))) of Some e \<Rightarrow> Inl e
              | None \<Rightarrow>
                bind_res (content_binding_v2 (ce_hex env \<circ> ce_sha env) members commitments) (\<lambda>binding.
                if \<not> hex_ascii (ce_locator env) then Inl Unsupported
                else bind_res (ce_encode env tf (length members) (length census) cc) (\<lambda>b.
                if int (length b) > po_max_facts p then Inl SummaryBudget
                else bind_res (ce_fingerprint env tf (length members) (length census) cc) (\<lambda>fp.
                Inr \<lparr>fx_tables = tf, fx_discovered = length members, fx_in_census = length census, fx_census = cc,
                     fx_unread = unread_binding (ce_hex env \<circ> ce_sha env) members plan, fx_content = binding,
                     fx_locator = ce_locator env, fx_fingerprint = fp\<rparr>))))))))) "

end
