(* ===== verification/Pinned.thy ===== *)
theory Pinned
  imports Census
begin

text \<open>
  The reading layer of verification/scanner.go: the memory budget, the reader that hashes a member
  block by block and compares the blocks on later reads, the random access that checks every block
  it returns. What the storage gives is a list of blocks with
  faults in between, chosen anew for every pass; SHA-256 is an argument.
\<close>

subsection \<open>The memory budget\<close>

record budget =
  bu_used :: int
  bu_limit :: int
  bu_peak :: int

definition budget_reserve :: "int \<Rightarrow> budget \<Rightarrow> refusal option \<times> budget" where
  "budget_reserve n b =
     (if n < 0 \<or> n > bu_limit b - bu_used b then (Some ResourceLimit, b)
      else (None, b\<lparr>bu_used := bu_used b + n, bu_peak := max (bu_peak b) (bu_used b + n)\<rparr>))"

text \<open>The budget is never exceeded, and its peak is the most that was ever in use.\<close>

lemma budget_reserve_bounded:
  assumes "budget_reserve n b = (e, b')" and "bu_used b \<le> bu_limit b" and "bu_peak b \<le> bu_limit b"
  shows "bu_used b' \<le> bu_limit b' \<and> bu_peak b' \<le> bu_limit b' \<and> bu_limit b' = bu_limit b"
  using assms by (auto simp: budget_reserve_def split: if_splits)

subsection \<open>Reading in blocks\<close>

definition scan_block :: nat where "scan_block = 65536"

text \<open>What one attempt to fill a block gives: bytes, fewer than a block only at the end, or a fault.\<close>

datatype chunk = Chunk bytes | ChunkFault

datatype read_end = Going | AtEnd | Failed refusal

text \<open>hashBlocks: the rest of the input, what the hash has been given, the size, the digests of the
  blocks, the bytes of the current block not yet handed out, whether the input has ended, and the
  number of blocks compared.\<close>

record hash_reader =
  hb_input :: "chunk list"
  hb_fed :: bytes
  hb_size :: nat
  hb_blocks :: "bytes list"
  hb_pending :: bytes
  hb_end :: bool
  hb_index :: nat

definition fresh_reader :: "chunk list \<Rightarrow> hash_reader" where
  "fresh_reader cs = \<lparr>hb_input = cs, hb_fed = [], hb_size = 0, hb_blocks = [], hb_pending = [], hb_end = False, hb_index = 0\<rparr>"

text \<open>What is done with the digest of a block: recorded in the first pass, compared in later ones.\<close>

definition take_digest :: "bytes list option \<Rightarrow> bytes \<Rightarrow> hash_reader \<Rightarrow> hash_reader option" where
  "take_digest pinned d st =
     (case pinned of None \<Rightarrow> Some (st\<lparr>hb_blocks := hb_blocks st @ [d]\<rparr>)
      | Some ds \<Rightarrow> if hb_index st \<ge> length ds \<or> d \<noteq> ds ! hb_index st then None else Some (st\<lparr>hb_index := hb_index st + 1\<rparr>))"

text \<open>The next block, of a member with the given size.\<close>

definition next_block :: "(bytes \<Rightarrow> bytes) \<Rightarrow> nat \<Rightarrow> bytes list option \<Rightarrow> hash_reader \<Rightarrow> read_end \<times> hash_reader" where
  "next_block sha sz pinned st =
     (case (case hb_input st of [] \<Rightarrow> Chunk [] | c # cs \<Rightarrow> c) of
        ChunkFault \<Rightarrow> (Failed ArtifactChanged, st\<lparr>hb_input := tl (hb_input st)\<rparr>)
      | Chunk bs \<Rightarrow>
        (let b = take scan_block bs;
             st1 = st\<lparr>hb_input := tl (hb_input st), hb_end := (length b < scan_block), hb_size := hb_size st + length b\<rparr> in
         if hb_size st1 > sz then (Failed ArtifactChanged, st1)
         else if b = [] then (if hb_size st1 \<noteq> sz then Failed ArtifactChanged else AtEnd, st1)
         else
           let st2 = st1\<lparr>hb_fed := hb_fed st1 @ b\<rparr> in
           (case take_digest pinned (sha b) st2 of None \<Rightarrow> (Failed ArtifactChanged, st2)
            | Some st3 \<Rightarrow> if hb_end st3 \<and> hb_size st3 \<noteq> sz then (Failed ArtifactChanged, st3)
                else (Going, st3\<lparr>hb_pending := b\<rparr>))))"

text \<open>Read into a buffer of the given length; the flag says that the context has ended.\<close>

definition read_some :: "(bytes \<Rightarrow> bytes) \<Rightarrow> nat \<Rightarrow> bytes list option \<Rightarrow> bool \<times> nat \<Rightarrow> hash_reader \<Rightarrow> bytes \<times> read_end \<times> hash_reader" where
  "read_some sha sz pinned rq st =
     (if fst rq then ([], Failed Timeout, st)
      else case (if hb_pending st \<noteq> [] then (Going, st) else if hb_end st then (AtEnd, st) else next_block sha sz pinned st) of
        (Going, st') \<Rightarrow> (take (snd rq) (hb_pending st'), Going, st'\<lparr>hb_pending := drop (snd rq) (hb_pending st')\<rparr>)
      | (e, st') \<Rightarrow> ([], e, st'))"

text \<open>Reading on until the end or an error; a reader that makes no further call runs out of time.\<close>

fun read_on :: "(bytes \<Rightarrow> bytes) \<Rightarrow> nat \<Rightarrow> bytes list option \<Rightarrow> (bool \<times> nat) list \<Rightarrow> hash_reader \<Rightarrow> bytes \<times> read_end \<times> hash_reader" where
  "read_on sha sz pinned [] st = ([], Failed Timeout, st)"
| "read_on sha sz pinned (rq # rqs) st =
     (case read_some sha sz pinned rq st of
        (bs, Going, st') \<Rightarrow> (case read_on sha sz pinned rqs st' of (more_bs, e, st'') \<Rightarrow> (bs @ more_bs, e, st''))
      | (bs, e, st') \<Rightarrow> (bs, e, st'))"

lemma read_on_end: "read_on sha sz pinned rqs st = (bs, e, st') \<Longrightarrow> e \<noteq> Going"
  by (induction rqs arbitrary: st bs) (auto split: prod.splits read_end.splits)

text \<open>Peek: reading until there are four bytes; an error stops it and is forgotten.\<close>

fun peek_four :: "(bytes \<Rightarrow> bytes) \<Rightarrow> nat \<Rightarrow> bytes list option \<Rightarrow> (bool \<times> nat) list \<Rightarrow> bytes \<Rightarrow> hash_reader
    \<Rightarrow> bytes \<times> (bool \<times> nat) list \<times> hash_reader" where
  "peek_four sha sz pinned [] got st = (got, [], st)"
| "peek_four sha sz pinned (rq # rqs) got st =
     (if length got \<ge> 4 then (got, rq # rqs, st)
      else case read_some sha sz pinned rq st of
        (bs, Going, st') \<Rightarrow> peek_four sha sz pinned rqs (got @ bs) st'
      | (bs, e, st') \<Rightarrow> (got, rqs, st'))"

subsection \<open>Random access\<close>

text \<open>What the storage gives for a block by its number: the bytes that were read, or the failure of the
  read or of the context.\<close>

type_synonym storage = "nat \<Rightarrow> refusal + bytes"

definition block_length :: "nat \<Rightarrow> nat \<Rightarrow> nat" where
  "block_length sz i = min scan_block (sz - i * scan_block)"

text \<open>ReadAt of verifiedAt: the bytes and whether it went well; at the end of the member what is
  missing is reported as the end.\<close>

function read_at :: "(bytes \<Rightarrow> bytes) \<Rightarrow> nat \<Rightarrow> bytes list \<Rightarrow> storage \<Rightarrow> nat \<Rightarrow> nat \<Rightarrow> bytes \<times> read_end" where
  "read_at sha sz ds disk off n =
     (if n = 0 then ([], Going) else if off \<ge> sz then ([], AtEnd)
      else
        (case disk (off div scan_block) of Inl e \<Rightarrow> ([], Failed e)
         | Inr b \<Rightarrow>
           if length b \<noteq> block_length sz (off div scan_block) \<or> off div scan_block \<ge> length ds \<or> sha b \<noteq> ds ! (off div scan_block)
           then ([], Failed ArtifactChanged)
           else let got = take n (drop (off mod scan_block) b) in
             (case read_at sha sz ds disk (off + length got) (n - length got) of (rest, e) \<Rightarrow> (got @ rest, e))))"
  by auto
termination
proof (relation "measure (\<lambda>(sha, sz, ds, disk, off, n). n)", goal_cases)
  case (2 sha sz ds disk off n b got)
  have "off div scan_block * scan_block + off mod scan_block < sz" using 2 by simp
  moreover have "off mod scan_block < scan_block" by (simp add: scan_block_def)
  ultimately have "off mod scan_block < block_length sz (off div scan_block)" unfolding block_length_def by linarith
  then show ?case using 2 by simp
qed simp

declare read_at.simps [simp del]


subsection \<open>Blocks of a content\<close>

function cut_blocks :: "bytes \<Rightarrow> bytes list" where
  "cut_blocks b = (if b = [] then [] else take scan_block b # cut_blocks (drop scan_block b))"
  by auto
termination by (relation "measure length") (auto simp: scan_block_def)

declare cut_blocks.simps [simp del]

lemma cut_blocks_Nil [simp]: "cut_blocks [] = []"
  by (simp add: cut_blocks.simps)

lemma concat_cut_blocks [simp]: "concat (cut_blocks b) = b"
proof (induction b rule: cut_blocks.induct)
  case (1 b)
  then show ?case by (cases "b = []") (simp_all add: cut_blocks.simps [of b])
qed

lemma cut_blocks_append:
  assumes "scan_block dvd length a" and "b \<noteq> []" and "length b \<le> scan_block"
  shows "cut_blocks (a @ b) = cut_blocks a @ [b]"
  using assms(1)
proof (induction a rule: cut_blocks.induct)
  case (1 a)
  show ?case
  proof (cases "a = []")
    case True
    then show ?thesis using assms by (simp add: cut_blocks.simps [of b])
  next
    case False
    then have l: "scan_block \<le> length a" using 1(2) by (simp add: dvd_imp_le)
    then have "scan_block dvd length (drop scan_block a)" using 1(2) by simp
    then have "cut_blocks (drop scan_block a @ b) = cut_blocks (drop scan_block a) @ [b]" using 1(1) False by blast
    then show ?thesis using False l by (simp add: cut_blocks.simps [of "a @ b"] cut_blocks.simps [of a])
  qed
qed

lemma length_cut_blocks: "i < length (cut_blocks b) \<longleftrightarrow> i * scan_block < length b"
proof (induction b arbitrary: i rule: cut_blocks.induct)
  case (1 b)
  show ?case
  proof (cases "b = []")
    case False
    then show ?thesis using 1 [of "i - 1"] by (cases i) (auto simp: cut_blocks.simps [of b] scan_block_def)
  qed (simp add: cut_blocks.simps [of b])
qed

lemma nth_cut_blocks: "i < length (cut_blocks b) \<Longrightarrow> cut_blocks b ! i = take scan_block (drop (i * scan_block) b)"
proof (induction b arbitrary: i rule: cut_blocks.induct)
  case (1 b)
  then have "b \<noteq> []" by (auto simp: cut_blocks.simps [of b])
  with 1 show ?case by (cases i) (simp_all add: cut_blocks.simps [of b] add.commute)
qed

lemma concat_take_blocks: "concat (take i (cut_blocks b)) = take (i * scan_block) b"
proof (induction b arbitrary: i rule: cut_blocks.induct)
  case (1 b)
  show ?case
  proof (cases "b = []")
    case False
    then show ?thesis using 1 [of "i - 1"]
      by (cases i) (simp_all add: cut_blocks.simps [of b] take_add)
  qed (simp add: cut_blocks.simps [of b])
qed

text \<open>The digests by which a content is pinned.\<close>

definition block_digests :: "(bytes \<Rightarrow> bytes) \<Rightarrow> bytes \<Rightarrow> bytes list" where
  "block_digests sha c = map sha (cut_blocks c)"

lemma pinned_block:
  assumes "\<forall>x y. sha x = sha y \<longrightarrow> x = y" and "i < length (block_digests sha c)" and "sha b = block_digests sha c ! i"
  shows "b = cut_blocks c ! i"
  using assms by (auto simp: block_digests_def)

subsection \<open>The first pass\<close>

text \<open>What holds of the reader and of the bytes handed out so far: the digests are those of the blocks
  of what was hashed, and what was handed out is what was hashed, or the size is wrong for good.\<close>

definition hashing :: "(bytes \<Rightarrow> bytes) \<Rightarrow> nat \<Rightarrow> bytes \<Rightarrow> hash_reader \<Rightarrow> bool" where
  "hashing sha sz out st \<longleftrightarrow> hb_blocks st = block_digests sha (hb_fed st) \<and> (hb_size st = length (hb_fed st) \<or> hb_size st > sz)
     \<and> (\<not> hb_end st \<longrightarrow> scan_block dvd length (hb_fed st))
     \<and> (out @ hb_pending st = hb_fed st \<or> hb_end st \<and> hb_size st \<noteq> sz)"

lemma hashing_fresh: "hashing sha sz [] (fresh_reader cs)"
  by (simp add: hashing_def fresh_reader_def block_digests_def cut_blocks.simps)

lemma next_block_hashing:
  assumes "next_block sha sz None st = (e, st')" and "hashing sha sz out st" and "hb_pending st = []" and "\<not> hb_end st"
  shows "hashing sha sz out st' \<and> (e \<noteq> Going \<longrightarrow> hb_pending st' = [])"
proof (cases "case hb_input st of [] \<Rightarrow> Chunk [] | c # cs \<Rightarrow> c")
  case ChunkFault
  then show ?thesis using assms by (auto simp: next_block_def hashing_def)
next
  case (Chunk bs)
  let ?b = "take scan_block bs"
  have b: "length ?b \<le> scan_block" by simp
  have "cut_blocks (hb_fed st @ ?b) = cut_blocks (hb_fed st) @ [?b]" if "?b \<noteq> []"
    using cut_blocks_append [OF _ that b] assms(2,4) by (simp add: hashing_def)
  moreover have "scan_block dvd length (hb_fed st @ ?b)" if "\<not> length ?b < scan_block"
    using that assms(2,4) by (simp add: hashing_def)
  ultimately show ?thesis using assms Chunk
    unfolding next_block_def hashing_def block_digests_def take_digest_def Let_def
    by (cases "?b = []") (auto split: if_splits simp del: length_take take_eq_Nil)
qed

lemma read_some_hashing:
  assumes "read_some sha sz None rq st = (bs, e, st')" and "hashing sha sz out st"
  shows "hashing sha sz (out @ bs) st' \<and> (e = AtEnd \<longrightarrow> hb_pending st' = []) \<and> (e \<noteq> Going \<longrightarrow> bs = [])"
proof (cases "fst rq")
  case True
  then show ?thesis using assms by (auto simp: read_some_def)
next
  case False
  let ?r = "if hb_pending st \<noteq> [] then (Going, st) else if hb_end st then (AtEnd, st) else next_block sha sz None st"
  obtain e1 st1 where r: "?r = (e1, st1)" by fastforce
  have h: "hashing sha sz out st1 \<and> (e1 \<noteq> Going \<longrightarrow> hb_pending st1 = [])"
    using r assms(2) next_block_hashing [of sha sz st e1 st1 out] by (auto split: if_splits)
  have "hashing sha sz (out @ take k (hb_pending st1)) (st1\<lparr>hb_pending := drop k (hb_pending st1)\<rparr>)" for k
    using h by (auto simp: hashing_def)
  with h r False assms(1) show ?thesis by (auto simp: read_some_def split: read_end.splits)
qed

lemma read_on_hashing:
  assumes "read_on sha sz None rqs st = (bs, e, st')" and "hashing sha sz out st"
  shows "hashing sha sz (out @ bs) st' \<and> e \<noteq> Going \<and> (e = AtEnd \<longrightarrow> hb_pending st' = [])"
  using assms
proof (induction rqs arbitrary: st out bs e st')
  case (Cons rq rqs)
  obtain b1 e1 st1 where r: "read_some sha sz None rq st = (b1, e1, st1)" by (metis prod_cases3)
  note h = read_some_hashing [OF r Cons.prems(2)]
  show ?case
  proof (cases "e1 = Going")
    case True
    obtain b2 st2 e2 where r2: "read_on sha sz None rqs st1 = (b2, e2, st2)" by (metis prod_cases3)
    from Cons.IH [OF r2, of "out @ b1"] h Cons.prems(1) r True r2 show ?thesis by simp
  next
    case False
    then show ?thesis using h Cons.prems(1) r by (cases e1) auto
  qed
qed simp

lemma peek_four_hashing:
  assumes "peek_four sha sz None rqs got st = (got', rqs', st')" and "hashing sha sz got st"
  shows "hashing sha sz got' st'"
  using assms
proof (induction rqs arbitrary: st got)
  case (Cons rq rqs)
  obtain b1 e1 st1 where r: "read_some sha sz None rq st = (b1, e1, st1)" by (metis prod_cases3)
  note h = read_some_hashing [OF r Cons.prems(2)]
  show ?case
    using Cons.prems Cons.IH [of "got @ b1" st1] h r by (cases e1) (auto split: if_splits)
qed simp

subsection \<open>Later passes\<close>

text \<open>What was handed out are the first blocks of the pinned content; without a failure nothing else
  was read.\<close>

definition comparing :: "nat \<Rightarrow> bytes \<Rightarrow> bytes \<Rightarrow> hash_reader \<Rightarrow> bool" where
  "comparing sz c out st \<longleftrightarrow> out @ hb_pending st = take (hb_index st * scan_block) c
     \<and> hb_size st = length out + length (hb_pending st) \<and> (hb_end st \<longrightarrow> hb_size st = sz)"

lemma next_block_comparing:
  assumes "next_block sha sz (Some (block_digests sha c)) st = (e, st')" and "comparing sz c out st" and "hb_pending st = []"
    and "\<forall>x y. sha x = sha y \<longrightarrow> x = y" and "length c = sz"
  shows "(e = Going \<longrightarrow> comparing sz c out st') \<and> (e = AtEnd \<longrightarrow> out = c)"
proof (cases "case hb_input st of [] \<Rightarrow> Chunk [] | c # cs \<Rightarrow> c")
  case ChunkFault
  then show ?thesis using assms by (auto simp: next_block_def)
next
  case (Chunk bs)
  let ?b = "take scan_block bs" and ?i = "hb_index st"
  have out: "out = take (?i * scan_block) c" "hb_size st = length out" using assms(2,3) by (simp_all add: comparing_def)
  have all: "out = c" if "hb_size st = sz"
  proof -
    have "length out = length c" using out(2) assms(5) that by simp
    then show ?thesis using out(1) by (metis length_take min_def take_all_iff order_refl)
  qed
  show ?thesis
  proof (cases "?b \<noteq> [] \<and> ?i < length (block_digests sha c) \<and> sha ?b = block_digests sha c ! ?i")
    case True
    then have "?b = cut_blocks c ! ?i" using pinned_block [OF assms(4)] by blast
    then have "?b = take scan_block (drop (?i * scan_block) c)" using nth_cut_blocks True by (simp add: block_digests_def)
    moreover have "Suc ?i * scan_block = ?i * scan_block + scan_block" by simp
    ultimately have "out @ ?b = take (Suc ?i * scan_block) c" using out(1) by (simp only: take_add)
    then show ?thesis using assms(1) True out(2) Chunk
      by (simp add: next_block_def comparing_def take_digest_def Let_def split: if_splits del: take_eq_Nil mult_Suc length_take)
        (auto simp del: take_eq_Nil mult_Suc length_take)
  next
    case False
    then show ?thesis using assms(1) all Chunk
      by (simp add: next_block_def take_digest_def Let_def split: if_splits del: take_eq_Nil length_take) auto
  qed
qed

lemma take_beginning: "out @ x = take k c \<Longrightarrow> \<exists>j. out = take j c"
  by (metis append_eq_conv_conj take_take)

lemma read_on_comparing:
  assumes "read_on sha sz (Some (block_digests sha c)) rqs st = (bs, e, st')" and "comparing sz c out st"
    and "\<forall>x y. sha x = sha y \<longrightarrow> x = y" and "length c = sz"
  shows "(\<exists>k. out @ bs = take k c) \<and> (e = AtEnd \<longrightarrow> out @ bs = c)"
  using assms(1,2)
proof (induction rqs arbitrary: st out bs e st')
  case Nil
  then show ?case using take_beginning by (auto simp: comparing_def)
next
  case (Cons rq rqs)
  have o: "\<exists>k. out = take k c"
    using Cons.prems(2) take_beginning by (auto simp: comparing_def)
  let ?r = "if hb_pending st \<noteq> [] then (Going, st) else if hb_end st then (AtEnd, st) else next_block sha sz (Some (block_digests sha c)) st"
  obtain e1 st1 where r: "?r = (e1, st1)" by fastforce
  have "out = c" if e: "hb_pending st = []" "hb_end st"
  proof -
    have "out = take (hb_index st * scan_block) c" using Cons.prems(2) e(1) by (simp add: comparing_def)
    moreover have "hb_size st = sz" "hb_size st = length out" using Cons.prems(2) e unfolding comparing_def by auto
    then have "length out = length c" using assms(4) by metis
    ultimately show ?thesis by (metis length_take min_def take_all_iff order_refl)
  qed
  then have h: "(e1 = Going \<longrightarrow> comparing sz c out st1) \<and> (e1 = AtEnd \<longrightarrow> out = c)"
    using r Cons.prems(2) next_block_comparing [OF _ Cons.prems(2) _ assms(3,4), of e1 st1] by (auto split: if_splits)
  show ?case
  proof (cases "\<not> fst rq \<and> e1 = Going")
    case True
    let ?b = "take (snd rq) (hb_pending st1)" and ?st = "st1\<lparr>hb_pending := drop (snd rq) (hb_pending st1)\<rparr>"
    have "length ?b + length (drop (snd rq) (hb_pending st1)) = length (hb_pending st1)" by simp
    then have c: "comparing sz c (out @ ?b) ?st" using h True unfolding comparing_def by (auto simp del: length_take length_drop)
    obtain b2 e2 st2 where r2: "read_on sha sz (Some (block_digests sha c)) rqs ?st = (b2, e2, st2)" by (metis prod_cases3)
    have "bs = ?b @ b2" "e = e2" using Cons.prems(1) True r r2 by (simp_all add: read_some_def)
    with Cons.IH [OF r2 c] show ?thesis by simp
  next
    case False
    have "bs = [] \<and> (e = AtEnd \<longrightarrow> e1 = AtEnd)"
    proof (cases "fst rq")
      case True
      then show ?thesis using Cons.prems(1) by (auto simp: read_some_def)
    next
      case f: False
      then show ?thesis using False Cons.prems(1) r by (cases e1) (auto simp: read_some_def)
    qed
    then show ?thesis using o h by (metis append_Nil2)
  qed
qed

lemma comparing_fresh: "comparing sz c [] (fresh_reader cs)"
  by (simp add: comparing_def fresh_reader_def)

text \<open>A later pass hands out a beginning of the pinned content, and all of it when it ends well.\<close>

lemma later_pass:
  assumes "read_on sha sz (Some (block_digests sha c)) rqs (fresh_reader cs) = (bs, e, st')"
    and "\<forall>x y. sha x = sha y \<longrightarrow> x = y" and "length c = sz"
  shows "(\<exists>k. bs = take k c) \<and> (e = AtEnd \<longrightarrow> bs = c)"
  using read_on_comparing [OF assms(1) comparing_fresh assms(2,3)] by simp

lemma taken_further:
  assumes "got = take m x" and "m \<le> n"
  shows "got @ take (n - length got) (drop (length got) x) = take n x" and "\<exists>j. got @ take k (drop (length got) x) = take j x"
proof -
  have x: "x = got @ drop (length got) x" using assms(1) by (metis append_eq_conv_conj append_take_drop_id)
  have "length got \<le> n" using assms by simp
  then have "take n (got @ drop (length got) x) = got @ take (n - length got) (drop (length got) x)" by simp
  then show "got @ take (n - length got) (drop (length got) x) = take n x" using x by metis
  have "take (length got + k) (got @ drop (length got) x) = got @ take k (drop (length got) x)" by simp
  then show "\<exists>j. got @ take k (drop (length got) x) = take j x" using x by metis
qed

lemma read_at_pinned:
  "read_at sha sz ds disk off n = (bs, e) \<Longrightarrow> ds = block_digests sha c \<Longrightarrow> \<forall>x y. sha x = sha y \<longrightarrow> x = y \<Longrightarrow> length c = sz
    \<Longrightarrow> (\<exists>k. bs = take k (drop off c)) \<and> (e = Going \<or> e = AtEnd \<longrightarrow> bs = take n (drop off c))"
proof (induction sha sz ds disk off n arbitrary: bs e rule: read_at.induct)
  case (1 sha sz ds disk off n)
  let ?i = "off div scan_block"
  note rd = 1(2) [unfolded read_at.simps [of sha sz ds disk off n]]
  show ?case
  proof (cases "n = 0 \<or> off \<ge> sz")
    case True
    then show ?thesis using rd 1(5) by (auto split: if_splits)
  next
    case False
    show ?thesis
    proof (cases "disk ?i")
      case (Inl e')
      then show ?thesis using rd False by auto
    next
      case (Inr b)
      show ?thesis
      proof (cases "length b \<noteq> block_length sz ?i \<or> ?i \<ge> length ds \<or> sha b \<noteq> ds ! ?i")
        case True
        then show ?thesis using rd False Inr by (auto split: if_splits)
      next
        case ok: False
        let ?got = "take n (drop (off mod scan_block) b)"
        have "b = cut_blocks c ! ?i" using pinned_block [OF 1(4), of ?i c b] ok 1(3) by simp
        then have b: "b = take scan_block (drop (?i * scan_block) c)" using nth_cut_blocks [of ?i c] ok 1(3) by (simp add: block_digests_def)
        have "drop (off mod scan_block) (drop (?i * scan_block) c) = drop off c"
          by (simp add: add.commute)
        then have got: "?got = take (min n (scan_block - off mod scan_block)) (drop off c)"
          unfolding b by (simp add: drop_take)
        obtain rest e1 where r: "read_at sha sz ds disk (off + length ?got) (n - length ?got) = (rest, e1)" by fastforce
        have "bs = ?got @ rest" "e = e1" using rd False Inr ok r by (simp_all add: Let_def)
        moreover have "(\<exists>k. rest = take k (drop (off + length ?got) c))
            \<and> (e1 = Going \<or> e1 = AtEnd \<longrightarrow> rest = take (n - length ?got) (drop (off + length ?got) c))"
          using 1(1) [OF _ _ Inr _ refl r 1(3-5)] False ok by simp
        ultimately show ?thesis using taken_further [OF got min.cobounded1] by (metis add.commute drop_drop)
      qed
    qed
  qed
qed

text \<open>An error while the first four bytes are looked at is forgotten: when the storage recovers, the content is
  read in full and its beginning was never looked at, here that of a ZIP archive.\<close>

lemma forgotten_peek_error:
  "\<exists>st st'. peek_four id 4 None [(False, 100), (False, 100), (False, 100)] [] (fresh_reader [ChunkFault, Chunk ''PKab'']) = ([], [(False, 100), (False, 100)], st)
     \<and> read_on id 4 None [(False, 100), (False, 100)] st = (''PKab'', AtEnd, st') \<and> hb_fed st' = ''PKab'' \<and> hb_size st' = 4"
  by (simp add: read_some_def next_block_def take_digest_def fresh_reader_def scan_block_def Let_def)

end
