(* ===== verification/Json.thy ===== *)
theory Json
  imports Text "HOL-Library.List_Lexorder"
begin

text \<open>
  Canonical JSON (Canonical and write of internal/wire/wire.go): a decoded document is a
  \<open>json\<close> value, its text is what the signatures and the audit chain are computed over.
\<close>

subsection \<open>Canonical JSON\<close>

datatype json = JNull | JBool bool | JNum string | JStr string | JArr "json list" | JObj "(string \<times> json) list"

fun join_comma :: "string list \<Rightarrow> string" where
  "join_comma [] = []"
| "join_comma [x] = x"
| "join_comma (x # y # ys) = x @ CHR '','' # join_comma (y # ys)"

text \<open>write: a map's keys are sorted bytewise; a map has each key once.\<close>

fun write_json :: "json \<Rightarrow> string" where
  "write_json JNull = ''null''"
| "write_json (JBool b) = (if b then ''true'' else ''false'')"
| "write_json (JNum s) = s"
| "write_json (JStr s) = quote s"
| "write_json (JArr vs) = CHR ''['' # join_comma (map write_json vs) @ '']''"
| "write_json (JObj kvs) = CHR ''{'' # join_comma
     (map (\<lambda>(k, w). quote k @ CHR '':'' # w)
       (sort_key fst (map (\<lambda>(k, v). (k, write_json v)) kvs))) @ ''}''"

text \<open>Canonical over the JSON value that \<open>json.Marshal\<close> gives for the Go value.\<close>

definition canonical :: "json \<Rightarrow> string" where
  "canonical v = write_json v"

subsection \<open>Canonical text determines the document\<close>

definition number_char :: "char \<Rightarrow> bool" where
  "number_char c \<longleftrightarrow> c \<in> set ''0123456789+-.eE''"

definition number_text :: "string \<Rightarrow> bool" where
  "number_text s \<longleftrightarrow> s \<noteq> [] \<and> hd s \<in> set ''-0123456789'' \<and> list_all number_char s"

text \<open>A document in normal form: keys sorted and distinct, texts valid UTF-8, numbers literals.\<close>

fun normal :: "json \<Rightarrow> bool" where
  "normal JNull = True"
| "normal (JBool b) = True"
| "normal (JNum s) = number_text s"
| "normal (JStr s) = valid_utf8 s"
| "normal (JArr vs) = list_all normal vs"
| "normal (JObj kvs) = (sorted (map fst kvs) \<and> distinct (map fst kvs)
     \<and> list_all (\<lambda>(k, v). valid_utf8 k \<and> normal v) kvs)"

text \<open>What may follow a value inside a document: nothing, a comma or a closing bracket.\<close>

definition value_end :: "string \<Rightarrow> bool" where
  "value_end r \<longleftrightarrow> r = [] \<or> hd r = CHR '','' \<or> hd r = CHR '']'' \<or> hd r = CHR ''}''"

definition member_text :: "string \<times> json \<Rightarrow> string" where
  "member_text kv = quote (fst kv) @ CHR '':'' # write_json (snd kv)"

lemma write_obj:
  assumes "sorted (map fst kvs)"
  shows "write_json (JObj kvs) = CHR ''{'' # join_comma (map member_text kvs) @ ''}''"
proof -
  have "sort_key fst (map (\<lambda>(k, v). (k, write_json v)) kvs) = map (\<lambda>(k, v). (k, write_json v)) kvs"
    using assms by (intro sort_key_id_if_sorted) (simp add: comp_def case_prod_beta)
  moreover have "member_text = (\<lambda>x. quote (fst x) @ CHR '':'' # write_json (snd x))"
    by (rule ext) (simp add: member_text_def)
  ultimately show ?thesis by (simp add: comp_def case_prod_beta)
qed

definition first_class :: "json \<Rightarrow> nat" where
  "first_class v = (case v of JNull \<Rightarrow> 0 | JBool b \<Rightarrow> (if b then 1 else 2) | JNum _ \<Rightarrow> 3 | JStr _ \<Rightarrow> 4
     | JArr _ \<Rightarrow> 5 | JObj _ \<Rightarrow> 6)"

definition class_of_char :: "char \<Rightarrow> nat" where
  "class_of_char c = (if c = CHR ''n'' then 0 else if c = CHR ''t'' then 1 else if c = CHR ''f'' then 2
     else if c = CHR 0x22 then 4 else if c = CHR ''['' then 5 else if c = CHR ''{'' then 6 else 3)"

lemma write_first:
  assumes "normal v"
  shows "write_json v \<noteq> [] \<and> class_of_char (hd (write_json v)) = first_class v \<and> hd (write_json v) \<noteq> CHR '']''"
proof (cases v)
  case (JNum s)
  with assms have "s \<noteq> []" "hd s \<in> set ''-0123456789''" by (auto simp: number_text_def)
  then show ?thesis using JNum by (auto simp: class_of_char_def first_class_def)
next
  case (JObj kvs)
  with assms show ?thesis by (simp add: write_obj class_of_char_def first_class_def)
qed (auto simp: class_of_char_def first_class_def quote_def)

lemma number_take: "list_all number_char s \<Longrightarrow> value_end r \<Longrightarrow> takeWhile number_char (s @ r) = s"
proof -
  assume s: "list_all number_char s" and r: "value_end r"
  have "takeWhile number_char r = []"
    using r by (cases r) (auto simp: value_end_def number_char_def)
  with s show ?thesis by (simp add: takeWhile_append list_all_iff)
qed

lemma join_comma_Cons: "join_comma (x # xs) = x @ (if xs = [] then [] else CHR '','' # join_comma xs)"
  by (cases xs) auto

text \<open>Reading back a comma-separated list of texts that determine themselves up to an end.\<close>

lemma join_comma_inj:
  assumes "\<And>x y r r'. x \<in> set xs \<Longrightarrow> Q y \<Longrightarrow> value_end r \<Longrightarrow> value_end r'
      \<Longrightarrow> f x @ r = f y @ r' \<Longrightarrow> x = y \<and> r = r'"
    and "\<And>y. Q y \<Longrightarrow> f y \<noteq> [] \<and> hd (f y) \<noteq> e" and "\<And>x. x \<in> set xs \<Longrightarrow> f x \<noteq> [] \<and> hd (f x) \<noteq> e"
    and "\<forall>y \<in> set ys. Q y" and "e = CHR '']'' \<or> e = CHR ''}''"
    and "join_comma (map f xs) @ e # r = join_comma (map f ys) @ e # r'"
  shows "xs = ys \<and> r = r'"
  using assms
proof (induction xs arbitrary: ys)
  case Nil
  show ?case
  proof (cases ys)
    case (Cons y ys')
    then have "f y \<noteq> []" "hd (f y) \<noteq> e" using Nil.prems(2,4) by auto
    with Nil.prems(6) Cons show ?thesis by (cases "f y") (auto simp: join_comma_Cons)
  qed (use Nil.prems(6) in simp)
next
  case (Cons x xs)
  show ?case
  proof (cases ys)
    case Nil
    have "f x \<noteq> []" "hd (f x) \<noteq> e" using Cons.prems(3) by auto
    with Cons.prems(6) Nil show ?thesis by (cases "f x") (auto simp: join_comma_Cons)
  next
    case c: (Cons y ys')
    let ?tx = "(if xs = [] then [] else CHR '','' # join_comma (map f xs)) @ e # r"
    let ?ty = "(if ys' = [] then [] else CHR '','' # join_comma (map f ys')) @ e # r'"
    have ends: "value_end ?tx" "value_end ?ty" using Cons.prems(5) by (auto simp: value_end_def)
    have "f x @ ?tx = f y @ ?ty" using Cons.prems(6) c by (simp add: join_comma_Cons)
    then have eq: "x = y" "?tx = ?ty" using Cons.prems(1) [of x y ?tx ?ty] Cons.prems(4) c ends by auto
    have ne: "e \<noteq> CHR '',''" using Cons.prems(5) by auto
    show ?thesis
    proof (cases "xs = [] \<or> ys' = []")
      case True
      with eq(2) ne have "xs = [] \<and> ys' = [] \<and> r = r'" by (auto split: if_splits)
      with eq(1) c show ?thesis by simp
    next
      case False
      with eq(2) have "join_comma (map f xs) @ e # r = join_comma (map f ys') @ e # r'" by simp
      then have "xs = ys' \<and> r = r'"
      proof (rule Cons.IH [rotated 5])
        show "x' = y' \<and> s = s'" if "x' \<in> set xs" "Q y'" "value_end s" "value_end s'" "f x' @ s = f y' @ s'"
          for x' y' s s'
          using Cons.prems(1) [of x' y' s s'] that by simp
        show "f y' \<noteq> [] \<and> hd (f y') \<noteq> e" if "Q y'" for y' using Cons.prems(2) that .
        show "f x' \<noteq> [] \<and> hd (f x') \<noteq> e" if "x' \<in> set xs" for x' using Cons.prems(3) [of x'] that by simp
        show "\<forall>y \<in> set ys'. Q y" using Cons.prems(4) c by simp
        show "e = CHR '']'' \<or> e = CHR ''}''" by (rule Cons.prems(5))
      qed
      with eq(1) c show ?thesis by simp
    qed
  qed
qed

lemma write_json_inj:
  assumes "normal v" "normal w" "value_end r" "value_end r'" "write_json v @ r = write_json w @ r'"
  shows "v = w \<and> r = r'"
  using assms
proof (induction v arbitrary: w r r')
  case JNull
  then have "first_class w = 0" using write_first [of w] by (cases "write_json w") (auto simp: class_of_char_def)
  with JNull show ?case by (cases w) (auto simp: first_class_def split: if_splits)
next
  case (JBool b)
  then have "first_class w = (if b then 1 else 2)"
    using write_first [of w] by (cases "write_json w") (auto simp: class_of_char_def split: if_splits)
  with JBool show ?case by (cases w; cases b) (auto simp: first_class_def split: if_splits)
next
  case (JNum s)
  have "first_class w = 3"
    using JNum.prems write_first [of w] write_first [of "JNum s"]
    by (cases "write_json w"; cases s) (auto simp: first_class_def)
  then obtain t where w: "w = JNum t" by (cases w) (auto simp: first_class_def split: if_splits)
  have n: "list_all number_char s" "list_all number_char t"
    using JNum.prems(1,2) w by (simp_all add: number_text_def)
  have eq: "s @ r = t @ r'" using JNum.prems(5) w by simp
  have "s = t" using number_take [OF n(1) JNum.prems(3)] number_take [OF n(2) JNum.prems(4)] eq by simp
  with eq w show ?case by simp
next
  case (JStr s)
  have "first_class w = 4"
    using JStr.prems write_first [of w] by (cases "write_json w") (auto simp: class_of_char_def quote_def)
  then obtain t where w: "w = JStr t" by (cases w) (auto simp: first_class_def split: if_splits)
  show ?case using quote_inj [of s t r r'] JStr.prems w by simp
next
  case (JArr vs)
  have "first_class w = 5"
    using JArr.prems write_first [of w] by (cases "write_json w") (auto simp: class_of_char_def)
  then obtain ws where w: "w = JArr ws" by (cases w) (auto simp: first_class_def split: if_splits)
  have "join_comma (map write_json vs) @ CHR '']'' # r = join_comma (map write_json ws) @ CHR '']'' # r'"
    using JArr.prems(5) w by simp
  then have "vs = ws \<and> r = r'"
  proof (rule join_comma_inj [where Q = normal, rotated 5])
    show "x = y \<and> r = r'" if "x \<in> set vs" "normal y" "value_end r" "value_end r'"
      "write_json x @ r = write_json y @ r'" for x y r r'
      using JArr.IH [OF that(1) _ that(2-5)] JArr.prems(1) that(1) by (simp add: list_all_iff)
  qed (use JArr.prems(1,2) w write_first in \<open>auto simp: list_all_iff\<close>)
  with w show ?case by simp
next
  case (JObj kvs)
  have "first_class w = 6"
    using JObj.prems write_first [of w] write_first [of "JObj kvs"]
    by (cases "write_json w"; cases "write_json (JObj kvs)") (auto simp: first_class_def)
  then obtain kws where w: "w = JObj kws" by (cases w) (auto simp: first_class_def split: if_splits)
  let ?Q = "\<lambda>kv. valid_utf8 (fst kv) \<and> normal (snd kv)"
  have q: "\<forall>kv \<in> set kvs. ?Q kv" "\<forall>kv \<in> set kws. ?Q kv"
    using JObj.prems(1,2) w by (auto simp: list_all_iff)
  have "join_comma (map member_text kvs) @ CHR ''}'' # r = join_comma (map member_text kws) @ CHR ''}'' # r'"
    using JObj.prems(1,2,5) w by (simp only: normal.simps write_obj) simp
  then have "kvs = kws \<and> r = r'"
  proof (rule join_comma_inj [where Q = ?Q, rotated 5])
    show "x = y \<and> r = r'" if x: "x \<in> set kvs" and y: "?Q y" and e: "value_end r" "value_end r'"
      and eq: "member_text x @ r = member_text y @ r'" for x y r r'
    proof -
      have "quote (fst x) @ CHR '':'' # write_json (snd x) @ r = quote (fst y) @ CHR '':'' # write_json (snd y) @ r'"
        using eq by (simp add: member_text_def)
      then have k: "fst x = fst y" "write_json (snd x) @ r = write_json (snd y) @ r'"
        using quote_inj [of "fst x" "fst y"] q(1) x y by blast+
      have "snd x \<in> Basic_BNFs.snds x" by (cases x) simp
      then have "snd x = snd y \<and> r = r'"
        using JObj.IH [OF x _ _ _ e k(2)] q(1) x y by blast
      with k(1) show ?thesis by (simp add: prod_eq_iff)
    qed
  qed (use q in \<open>auto simp: member_text_def quote_def\<close>)
  with w show ?case by simp
qed

text \<open>C18: The canonical text determines the document: two JSON values in normal form that are
  signed as the same bytes are the same value.\<close>

theorem canonical_inj:
  assumes "normal v" and "normal w" and "canonical v = canonical w"
  shows "v = w"
  using write_json_inj [of v w "[]" "[]"] assms by (simp add: canonical_def value_end_def)

theorem canonical_inj_witness:
  "canonical (JObj [(''a'', JNum ''1'')]) \<noteq> canonical (JObj [(''a'', JStr ''1'')])"
proof
  assume eq: "canonical (JObj [(''a'', JNum ''1'')]) = canonical (JObj [(''a'', JStr ''1'')])"
  have "normal (JObj [(''a'', JNum ''1'')])" "normal (JObj [(''a'', JStr ''1'')])" by code_simp+
  from canonical_inj [OF this eq] show False by simp
qed

end
