(* ===== verification/WireTypes.thy ===== *)
theory WireTypes
  imports Prelude
begin

text \<open>
  The message types of internal/wire/wire.go as records with the source's fields, the
  configuration type of internal/config/config.go, and the error values the ledger and
  its callers distinguish. Go strings are HOL strings, int64 is \<open>int\<close>, uint64 sequence
  numbers are \<open>nat\<close>, a nullable pointer or column is an \<open>option\<close>.
\<close>

subsection \<open>Signed messages\<close>

record permission =
  p_aud :: string
  p_oid :: string
  p_lvid :: string
  p_fid :: string
  p_sha :: string
  p_jti :: string
  p_iat :: int
  p_sd :: int
  p_td :: int
  p_ro :: int

record wire_key =
  k_kid :: string
  k_alg :: string
  k_key :: string

record instruction =
  i_op :: string
  i_aud :: string
  i_iid :: string
  i_iat :: int
  i_fid :: string
  i_sha :: string
  i_lvid :: string
  i_cid :: string
  i_exp :: int
  i_jti :: string
  i_oid :: string
  i_keys :: "wire_key list"
  i_version :: string

record revoke_ack =
  ra_op :: string
  ra_jti :: string
  ra_state_before :: string

record prepare_ack =
  pa_op :: string
  pa_iid :: string
  pa_oid :: string
  pa_fid :: string
  pa_ready :: bool
  pa_refusal :: "string option"
  pa_resume_offset :: int
  pa_transmitted_bytes :: int
  pa_interval_count :: int
  pa_max_serve_count :: int

record receipt =
  rc_op :: string
  rc_oid :: string
  rc_fid :: string
  rc_sha :: string
  rc_size :: int
  rc_jtis :: "string list"
  rc_transmitted :: "(int \<times> int) list"
  rc_transmitted_bytes :: int
  rc_max_serves_bytes :: int
  rc_outcome :: string
  rc_blocks_verified :: bool
  rc_first_byte_at :: string
  rc_last_byte_at :: string
  rc_seq :: nat

record offer_ack =
  oa_iid :: string
  oa_fid :: string
  oa_ready :: bool
  oa_refusal :: "string option"

text \<open>wire.Interval: an inclusive pair, empty when the end precedes the start.\<close>

fun interval_length :: "int \<times> int \<Rightarrow> int" where
  "interval_length (a, b) = (if b < a then 0 else b - a + 1)"

text \<open>inventory.Phase1: what the log tells of a file; instants by their text.\<close>

record phase1 =
  ph_fid :: string
  ph_name :: string
  ph_size :: int
  ph_media :: string
  ph_commitment :: string
  ph_first_seen :: string
  ph_changed_at :: string
  ph_present :: bool

subsection \<open>Configuration\<close>

record source_cfg =
  src_name :: string
  src_path :: string

record column_rule =
  col_rename :: "(string \<times> string) list"
  col_drop :: "string list"

record config =
  cfg_verification_enabled :: bool
  cfg_sources :: "source_cfg list"
  cfg_offer_ceiling :: "string list"
  cfg_aliases :: "(string \<times> string) list"
  cfg_columns :: "(string \<times> column_rule) list"
  cfg_listen :: string
  cfg_max_downloads :: int
  cfg_connect_proxy :: string
  cfg_requires_local_approval :: bool

subsection \<open>Errors\<close>

text \<open>
  The sentinel errors of the ledger, \<open>sql.ErrNoRows\<close>, a constraint violation, any other
  storage fault, and errors built from a message.
\<close>

datatype gw_error =
    ErrFragmented
  | ErrExhausted
  | ErrClosed
  | ErrDeadline
  | ErrProgress gw_error
  | ErrNoRows
  | ErrConstraint
  | ErrStorage
  | ErrMsg string

end
