(* ===== verification/AuditLog.thy ===== *)
theory AuditLog
  imports Json WireTypes
begin

text \<open>
  internal/audit/audit.go: the hash-chained, signed, append-only log. A rotation file is its
  byte content; the directory is the list of files in name order. SHA-256 in hex, Ed25519,
  the lexer of encoding/json, \<open>json.Unmarshal\<close> into the entry and the scan report
  validation are arguments; so are the clock and the faults of the file operations.
\<close>

subsection \<open>Reading a document token by token\<close>

datatype token = TOpenObj | TCloseObj | TOpenArr | TCloseArr | TStr string | TNum string | TBool bool | TNull

text \<open>value's rule for numbers: integers without sign games that fit in 64 bits.\<close>

definition number_ok :: "string \<Rightarrow> bool" where
  "number_ok s \<longleftrightarrow> \<not> (s = ''-0'' \<or> (\<exists>c \<in> set s. c \<in> set ''.eE+'') \<or> (length s > 1 \<and> hd s = CHR ''0'')
     \<or> (length s > 2 \<and> take 2 s = ''-0'')) \<and> parse_int s \<noteq> None"

text \<open>value: the fuel bounds the nesting and the length, the number of tokens is enough.\<close>

fun value_of :: "nat \<Rightarrow> token list \<Rightarrow> (json \<times> token list) option"
  and members_of :: "nat \<Rightarrow> token list \<Rightarrow> (string \<times> json) list \<Rightarrow> ((string \<times> json) list \<times> token list) option"
  and elements_of :: "nat \<Rightarrow> token list \<Rightarrow> json list \<Rightarrow> (json list \<times> token list) option" where
  "value_of 0 ts = None"
| "value_of (Suc n) [] = None"
| "value_of (Suc n) (t # ts) =
     (case t of
        TOpenObj \<Rightarrow> map_option (\<lambda>(m, r). (JObj m, r)) (members_of n ts [])
      | TOpenArr \<Rightarrow> map_option (\<lambda>(a, r). (JArr a, r)) (elements_of n ts [])
      | TCloseObj \<Rightarrow> None
      | TCloseArr \<Rightarrow> None
      | TNum s \<Rightarrow> if number_ok s then Some (JNum s, ts) else None
      | TStr s \<Rightarrow> Some (JStr s, ts)
      | TBool b \<Rightarrow> Some (JBool b, ts)
      | TNull \<Rightarrow> Some (JNull, ts))"
| "members_of 0 ts m = None"
| "members_of (Suc n) [] m = None"
| "members_of (Suc n) (t # ts) m =
     (case t of
        TCloseObj \<Rightarrow> Some (m, ts)
      | TStr name \<Rightarrow> if name \<in> fst ` set m then None
          else (case value_of n ts of None \<Rightarrow> None | Some (v, r) \<Rightarrow> members_of n r (m @ [(name, v)]))
      | _ \<Rightarrow> None)"
| "elements_of 0 ts a = None"
| "elements_of (Suc n) [] a = None"
| "elements_of (Suc n) (t # ts) a =
     (if t = TCloseArr then Some (a, ts)
      else case value_of n (t # ts) of None \<Rightarrow> None | Some (v, r) \<Rightarrow> elements_of n r (a @ [v]))"

text \<open>A whole document: the tokens end where the text does. The lexer gives the tokens and
  whether it reached the end of the text without a syntax error.\<close>

definition document_of :: "(string \<Rightarrow> token list \<times> bool) \<Rightarrow> string \<Rightarrow> json option" where
  "document_of lexer raw = (case lexer raw of (ts, ok) \<Rightarrow>
     (case value_of (2 * length ts + 2) ts of Some (v, []) \<Rightarrow> (if ok then Some v else None) | _ \<Rightarrow> None))"

subsection \<open>Entries\<close>

text \<open>The body is the document whose canonical text is the raw message.\<close>

record entry =
  en_seq :: nat
  en_time :: string
  en_type :: string
  en_body :: json
  en_prev :: string
  en_sig :: string

definition unsigned_json :: "entry \<Rightarrow> json" where
  "unsigned_json e = JObj [(''body'', en_body e), (''message_type'', JStr (en_type e)),
     (''prev_hash'', JStr (en_prev e)), (''seq'', JNum (dec_text (en_seq e))), (''time'', JStr (en_time e))]"

definition entry_json :: "entry \<Rightarrow> json" where
  "entry_json e = JObj [(''body'', en_body e), (''message_type'', JStr (en_type e)),
     (''prev_hash'', JStr (en_prev e)), (''seq'', JNum (dec_text (en_seq e))), (''sig'', JStr (en_sig e)),
     (''time'', JStr (en_time e))]"

record audit_env =
  ae_lex :: "string \<Rightarrow> token list \<times> bool"
  ae_unmarshal :: "string \<Rightarrow> gw_error + entry"
  ae_sha :: "string \<Rightarrow> string"
  ae_sign :: "string \<Rightarrow> string"
  ae_verify :: "string \<Rightarrow> string \<Rightarrow> bool"
  ae_scan :: "string \<Rightarrow> gw_error option"

definition max_scan_line :: nat where "max_scan_line = 1048576"
definition max_line :: nat where "max_line = 2097152"
definition rotation_bytes :: nat where "rotation_bytes = 100000000"

definition entry_keys :: "string list" where
  "entry_keys = [''seq'', ''time'', ''message_type'', ''body'', ''prev_hash'', ''sig'']"

definition six_fields :: "json \<Rightarrow> bool" where
  "six_fields v \<longleftrightarrow> (case v of JObj m \<Rightarrow> length m = 6 \<and> list_all (\<lambda>k. k \<in> fst ` set m) entry_keys | _ \<Rightarrow> False)"

definition validate_raw :: "audit_env \<Rightarrow> string \<Rightarrow> gw_error + entry" where
  "validate_raw env raw =
     (case document_of (ae_lex env) raw of None \<Rightarrow> Inl (ErrMsg ''invalid audit JSON'')
      | Some v \<Rightarrow>
        if \<not> six_fields v then Inl (ErrMsg ''audit entry needs six fields'')
        else if canonical v \<noteq> raw then Inl (ErrMsg ''noncanonical audit JSON'')
        else case ae_unmarshal env raw of Inl e \<Rightarrow> Inl e
          | Inr en \<Rightarrow>
            if en_seq en = 0 \<or> en_type en = '''' then Inl (ErrMsg ''invalid audit entry'')
            else if en_type en = ''scan_report'' \<and> length raw > max_scan_line
              then Inl (ErrMsg ''scan_report exceeds 1 MiB'')
            else case (if en_type en = ''scan_report'' then ae_scan env (canonical (en_body en)) else None) of
                Some e \<Rightarrow> Inl e
              | None \<Rightarrow>
                if \<not> ae_verify env (canonical (unsigned_json en)) (en_sig en)
                then Inl (ErrMsg ''invalid audit signature'') else Inr en)"

definition message_types :: "string list" where
  "message_types = [''inventory'', ''description'', ''receipt'', ''canary_result'', ''revocation_ack'',
     ''offer_ack'', ''prepare_ack'', ''error'', ''scan_report'']"

definition allowed_type :: "string \<Rightarrow> bool" where
  "allowed_type s = list_ex (\<lambda>x. x = s) message_types"

subsection \<open>State and disk\<close>

record audit_log =
  al_seq :: nat
  al_prev :: string
  al_index :: nat
  al_size :: nat
  al_rotations :: "(nat \<times> nat) list"
  al_cursor :: "nat \<times> nat \<times> nat"
  al_last :: "entry option"
  al_failed :: "gw_error option"

text \<open>Rotation files by number, in the order of their six-digit names.\<close>

type_synonym disk = "(nat \<times> string) list"

definition nl :: char where "nl = CHR 0x0A"

text \<open>Reading up to and including a newline.\<close>

definition read_line :: "string \<Rightarrow> string \<times> string \<times> bool" where
  "read_line s = (case cut nl s of (a, b, found) \<Rightarrow> (if found then a @ [nl] else a, b, found))"

record chain =
  ch_seq :: nat
  ch_prev :: string
  ch_last :: "entry option"
  ch_offset :: nat

subsection \<open>Opening\<close>

text \<open>One line: accepted with its hash, or an error; the flag says that a newline ended it.\<close>

definition take_line :: "audit_env \<Rightarrow> string \<Rightarrow> bool \<Rightarrow> chain \<Rightarrow> gw_error + chain" where
  "take_line env line terminated st =
     (case validate_raw env (trim_suffix [nl] line) of Inl e \<Rightarrow> Inl e
      | Inr en \<Rightarrow>
        if \<not> terminated \<or> en_seq en \<noteq> ch_seq st + 1 \<or> en_prev en \<noteq> ch_prev st
        then Inl (ErrMsg ''audit chain broken'')
        else Inr \<lparr>ch_seq = ch_seq st + 1, ch_prev = ae_sha env (butlast line), ch_last = Some en,
                 ch_offset = ch_offset st + length line\<rparr>)"

definition line_too_long :: "string \<Rightarrow> bool \<Rightarrow> bool" where
  "line_too_long line terminated = (if terminated then length line > max_line else length line \<ge> max_line)"

text \<open>The lines of a file: the new chain, and in the last file the torn tail to set aside.\<close>

lemma read_line_shorter: "s \<noteq> [] \<Longrightarrow> read_line s = (a, b, t) \<Longrightarrow> length b < length s"
  using cut_sound [of nl s] by (auto simp: read_line_def split: prod.splits if_splits)

function scan_lines :: "audit_env \<Rightarrow> bool \<Rightarrow> string \<Rightarrow> chain \<Rightarrow> gw_error + (chain \<times> string option)" where
  "scan_lines env is_last content st =
     (if content = [] then Inr (st, None)
      else case read_line content of (line, rest, terminated) \<Rightarrow>
        if line_too_long line terminated then Inl (ErrMsg ''audit entry exceeds 2 MiB'')
        else if \<not> terminated \<and> is_last then Inr (st, Some line)
        else case take_line env line terminated st of Inl e \<Rightarrow> Inl e
          | Inr st' \<Rightarrow> scan_lines env is_last rest st')"
  by pat_completeness auto
termination
  by (relation "measure (\<lambda>(env, l, content, st). length content)")
    (auto dest: read_line_shorter [OF _ sym])

declare scan_lines.simps [simp del]

text \<open>The files in order; \<open>sync k\<close> is the fault of the k-th sync.\<close>

fun scan_files :: "audit_env \<Rightarrow> (nat \<Rightarrow> gw_error option) \<Rightarrow> gw_error option \<Rightarrow> disk \<Rightarrow> nat \<Rightarrow> chain
    \<Rightarrow> (nat \<times> nat) list \<Rightarrow> gw_error + (chain \<times> (nat \<times> nat) list \<times> disk)" where
  "scan_files env sync torn [] k st rot = Inr (st, rot, [])"
| "scan_files env sync torn ((i, content) # files) k st rot =
     (case scan_lines env (files = []) content (st\<lparr>ch_offset := 0\<rparr>) of Inl e \<Rightarrow> Inl e
      | Inr (st', tail) \<Rightarrow>
        (case (if tail \<noteq> None then torn else None) of Some e \<Rightarrow> Inl e
         | None \<Rightarrow>
           (case sync k of Some e \<Rightarrow> Inl e
            | None \<Rightarrow>
              (let rot' = (if ch_seq st' \<ge> ch_seq st + 1 then rot @ [(ch_seq st + 1, i)] else rot) in
               case scan_files env sync torn files (k + 1) st' rot' of Inl e \<Rightarrow> Inl e
               | Inr (st'', rot'', disk') \<Rightarrow> Inr (st'', rot'', (i, take (ch_offset st') content) # disk')))))"

definition open_log :: "audit_env \<Rightarrow> (nat \<Rightarrow> gw_error option) \<Rightarrow> gw_error option \<Rightarrow> disk
    \<Rightarrow> gw_error + (audit_log \<times> disk)" where
  "open_log env sync torn files =
     (case scan_files env sync torn files 0 \<lparr>ch_seq = 0, ch_prev = '''', ch_last = None, ch_offset = 0\<rparr> [] of
        Inl e \<Rightarrow> Inl e
      | Inr (st, rot, disk') \<Rightarrow>
        (case sync (length files) of Some e \<Rightarrow> Inl e
         | None \<Rightarrow>
          (case sync (length files + 1) of Some e \<Rightarrow> Inl e
           | None \<Rightarrow>
             Inr (\<lparr>al_seq = ch_seq st, al_prev = ch_prev st,
                al_index = (if disk' = [] then 0 else fst (last disk')),
                al_size = (if disk' = [] then 0 else length (snd (last disk'))),
                al_rotations = rot, al_cursor = (0, 0, 0), al_last = ch_last st, al_failed = None\<rparr>, disk'))))"

subsection \<open>Appending\<close>

text \<open>The faults of one append: opening, writing (with the number of bytes that landed) or
  syncing, closing, and syncing the directory of a new rotation.\<close>

record append_io =
  io_open :: "gw_error option"
  io_write :: "(nat \<times> gw_error) option"
  io_close :: "gw_error option"
  io_dir :: "gw_error option"

fun append_disk :: "nat \<Rightarrow> string \<Rightarrow> disk \<Rightarrow> disk" where
  "append_disk i bs [] = [(i, bs)]"
| "append_disk i bs ((j, content) # files) =
     (if i = j then (j, content @ bs) # files else (j, content) # append_disk i bs files)"

definition next_entry :: "audit_env \<Rightarrow> string \<Rightarrow> string \<Rightarrow> json \<Rightarrow> audit_log \<Rightarrow> entry" where
  "next_entry env time ty body L =
     (let u = \<lparr>en_seq = al_seq L + 1, en_time = time, en_type = ty, en_body = body, en_prev = al_prev L, en_sig = ''''\<rparr>
      in u\<lparr>en_sig := ae_sign env (canonical (unsigned_json u))\<rparr>)"

text \<open>Everything decided before the file is touched.\<close>

definition prepare_entry :: "audit_env \<Rightarrow> string \<Rightarrow> string \<Rightarrow> json \<Rightarrow> audit_log \<Rightarrow> gw_error + (entry \<times> string)" where
  "prepare_entry env time ty body L =
     (case al_failed L of Some e \<Rightarrow> Inl e
      | None \<Rightarrow>
        if \<not> allowed_type ty then Inl (ErrMsg ''unknown message type'')
        else case (if ty = ''scan_report'' then ae_scan env (canonical body) else None) of Some e \<Rightarrow> Inl e
          | None \<Rightarrow>
            (let en = next_entry env time ty body L; line = canonical (entry_json en) in
             if ty = ''scan_report'' \<and> length line > max_scan_line then Inl (ErrMsg ''scan_report exceeds 1 MiB'')
             else case validate_raw env line of Inl e \<Rightarrow> Inl e | Inr _ \<Rightarrow> Inr (en, line)))"

definition rotate :: "nat \<Rightarrow> audit_log \<Rightarrow> audit_log" where
  "rotate n L = (if al_size L + (n + 1) > rotation_bytes \<and> al_size L > 0
     then L\<lparr>al_index := al_index L + 1, al_size := 0\<rparr> else L)"

definition append :: "audit_env \<Rightarrow> append_io \<Rightarrow> string \<Rightarrow> string \<Rightarrow> json \<Rightarrow> audit_log \<times> disk
    \<Rightarrow> (gw_error + entry) \<times> audit_log \<times> disk" where
  "append env io time ty body LD =
     (case LD of (L0, D) \<Rightarrow>
      (case prepare_entry env time ty body L0 of Inl e \<Rightarrow> (Inl e, L0, D)
       | Inr (en, line) \<Rightarrow>
         (let L = rotate (length line) L0; fresh = (al_size L = 0); bs = line @ [nl] in
          case io_open io of Some e \<Rightarrow> (Inl e, L, D)
          | None \<Rightarrow>
            (case io_write io of
               Some (n, e) \<Rightarrow> (Inl e, L\<lparr>al_failed := Some e\<rparr>, append_disk (al_index L) (take n bs) D)
             | None \<Rightarrow>
               (let D' = append_disk (al_index L) bs D in
                case io_close io of Some e \<Rightarrow> (Inl e, L\<lparr>al_failed := Some e\<rparr>, D')
                | None \<Rightarrow>
                  (case (if fresh then io_dir io else None) of Some e \<Rightarrow> (Inl e, L\<lparr>al_failed := Some e\<rparr>, D')
                   | None \<Rightarrow>
                     (Inr en,
                      L\<lparr>al_rotations := (if fresh then al_rotations L @ [(al_seq L + 1, al_index L)] else al_rotations L),
                        al_size := al_size L + (length line + 1), al_seq := al_seq L + 1,
                        al_prev := ae_sha env line, al_last := Some en\<rparr>, D')))))))"

subsection \<open>Reading\<close>

definition file_content :: "nat \<Rightarrow> disk \<Rightarrow> string option" where
  "file_content i D = map_of D i"

text \<open>\<open>sort.Search\<close>: the first rotation that starts after the sequence number, less one.\<close>

definition rotation_for :: "nat \<Rightarrow> (nat \<times> nat) list \<Rightarrow> (nat \<times> nat) option" where
  "rotation_for seq rots =
     (let n = length (takeWhile (\<lambda>r. \<not> fst r > seq) rots) in if n = 0 then None else Some (rots ! (n - 1)))"

fun skip_to :: "audit_env \<Rightarrow> nat \<Rightarrow> string \<Rightarrow> nat \<Rightarrow> gw_error + (entry \<times> nat)" where
  "skip_to env k content offset =
     (case read_line content of (line, rest, terminated) \<Rightarrow>
        if \<not> terminated then Inl (ErrMsg ''EOF'')
        else (case k of
           0 \<Rightarrow> (case ae_unmarshal env (butlast line) of Inl e \<Rightarrow> Inl e | Inr en \<Rightarrow> Inr (en, offset + length line))
         | Suc j \<Rightarrow> skip_to env j rest (offset + length line)))"

definition read_entry :: "audit_env \<Rightarrow> nat \<Rightarrow> audit_log \<times> disk \<Rightarrow> (gw_error + entry) \<times> audit_log" where
  "read_entry env seq LD =
     (case LD of (L, D) \<Rightarrow>
      if seq = 0 \<or> seq > al_seq L then (Inl (ErrMsg ''audit sequence out of range''), L)
      else if seq = al_seq L then (case al_last L of None \<Rightarrow> (Inl (ErrMsg ''audit sequence missing''), L) | Some en \<Rightarrow> (Inr en, L))
      else case rotation_for seq (al_rotations L) of None \<Rightarrow> (Inl (ErrMsg ''audit rotation missing''), L)
        | Some (first, i) \<Rightarrow>
          (let (start, offset) = (if fst (al_cursor L) + 1 = seq \<and> fst (snd (al_cursor L)) = i
                                  then (seq, snd (snd (al_cursor L))) else (first, 0)) in
           case file_content i D of None \<Rightarrow> (Inl (ErrMsg ''file missing''), L)
           | Some content \<Rightarrow>
             (case skip_to env (seq - start) (drop offset content) offset of Inl e \<Rightarrow> (Inl e, L)
              | Inr (en, offset') \<Rightarrow> (Inr en, L\<lparr>al_cursor := (seq, i, offset')\<rparr>))))"

definition hash_entry :: "audit_env \<Rightarrow> entry \<Rightarrow> string" where
  "hash_entry env e = ae_sha env (canonical (entry_json e))"

subsection \<open>Chains of lines\<close>

text \<open>Lines numbered from \<open>n + 1\<close>, each signed, canonical and naming the hash of the one before.\<close>

fun chained :: "audit_env \<Rightarrow> nat \<Rightarrow> string \<Rightarrow> string list \<Rightarrow> bool" where
  "chained env n prev [] = True"
| "chained env n prev (l # ls) =
     ((case validate_raw env l of Inl e \<Rightarrow> False | Inr en \<Rightarrow> en_seq en = n + 1 \<and> en_prev en = prev)
      \<and> chained env (n + 1) (ae_sha env l) ls)"

fun last_hash :: "audit_env \<Rightarrow> string \<Rightarrow> string list \<Rightarrow> string" where
  "last_hash env prev [] = prev"
| "last_hash env prev (l # ls) = last_hash env (ae_sha env l) ls"

definition last_entry :: "audit_env \<Rightarrow> entry option \<Rightarrow> string list \<Rightarrow> entry option" where
  "last_entry env d ls = (if ls = [] then d else Some (projr (validate_raw env (last ls))))"

lemma chained_append:
  "chained env n prev (ls @ ms) \<longleftrightarrow> chained env n prev ls \<and> chained env (n + length ls) (last_hash env prev ls) ms"
  by (induction ls arbitrary: n prev) (auto simp: add.commute add.left_commute)

lemma last_hash_append: "last_hash env prev (ls @ ms) = last_hash env (last_hash env prev ls) ms"
  by (induction ls arbitrary: prev) auto

definition content_of :: "string list \<Rightarrow> string" where
  "content_of ls = concat (map (\<lambda>l. l @ [nl]) ls)"

lemma content_of_simps [simp]: "content_of [] = []" "content_of (l # ls) = l @ nl # content_of ls"
  "content_of (ls @ ms) = content_of ls @ content_of ms"
  by (simp_all add: content_of_def)

definition line_ok :: "string \<Rightarrow> bool" where
  "line_ok l \<longleftrightarrow> nl \<notin> set l \<and> length l < max_line"

lemma read_line_of: "nl \<notin> set l \<Longrightarrow> read_line (l @ nl # r) = (l @ [nl], r, True)"
  using cut_append [of nl l r] by (simp add: read_line_def)

lemma cut_none: "c \<notin> set s \<Longrightarrow> cut c s = (s, [], False)"
  by (induction s) auto

lemma trim_nl: "trim_suffix [nl] (l @ [nl]) = l"
  by (simp add: trim_suffix_def has_suffix_def)

text \<open>Scanning a well-formed file, with whatever follows its last newline.\<close>

lemma scan_lines_content:
  assumes "\<forall>l \<in> set ls. line_ok l" and "chained env (ch_seq st) (ch_prev st) ls"
    and "nl \<notin> set tail" and "length tail < max_line" and "tail \<noteq> [] \<Longrightarrow> is_last"
  shows "scan_lines env is_last (content_of ls @ tail) st =
     Inr (\<lparr>ch_seq = ch_seq st + length ls, ch_prev = last_hash env (ch_prev st) ls,
           ch_last = last_entry env (ch_last st) ls, ch_offset = ch_offset st + length (content_of ls)\<rparr>,
          if tail = [] then None else Some tail)"
  using assms(1,2)
proof (induction ls arbitrary: st)
  case Nil
  show ?case
  proof (cases "tail = []")
    case True
    then show ?thesis by (subst scan_lines.simps) (simp add: last_entry_def)
  next
    case False
    have "read_line tail = (tail, [], False)" using assms(3) by (simp add: read_line_def cut_none)
    with False assms(4,5) show ?thesis
      by (subst scan_lines.simps) (simp add: line_too_long_def last_entry_def)
  qed
next
  case (Cons l ls)
  then have l: "nl \<notin> set l" "length l < max_line" by (auto simp: line_ok_def)
  obtain en where en: "validate_raw env l = Inr en" "en_seq en = ch_seq st + 1" "en_prev en = ch_prev st"
    using Cons.prems(2) by (auto split: sum.splits)
  let ?st = "\<lparr>ch_seq = ch_seq st + 1, ch_prev = ae_sha env l, ch_last = Some en,
    ch_offset = ch_offset st + length (l @ [nl])\<rparr>"
  have tl: "take_line env (l @ [nl]) True st = Inr ?st"
    using en by (simp add: take_line_def trim_nl)
  have "content_of (l # ls) @ tail = l @ nl # (content_of ls @ tail)" by simp
  then have "scan_lines env is_last (content_of (l # ls) @ tail) st
      = scan_lines env is_last (content_of ls @ tail) ?st"
    using l tl by (subst scan_lines.simps) (simp add: read_line_of line_too_long_def)
  also have "\<dots> = Inr (\<lparr>ch_seq = ch_seq ?st + length ls, ch_prev = last_hash env (ch_prev ?st) ls,
       ch_last = last_entry env (ch_last ?st) ls, ch_offset = ch_offset ?st + length (content_of ls)\<rparr>,
      if tail = [] then None else Some tail)"
    using Cons.prems by (intro Cons.IH) auto
  finally show ?case using en(1) by (cases ls) (auto simp: last_entry_def)
qed

text \<open>A directory of whole lines, file by file.\<close>

type_synonym parts = "(nat \<times> string list) list"

definition disk_of :: "parts \<Rightarrow> disk" where
  "disk_of ps = map (\<lambda>(i, ls). (i, content_of ls)) ps"

definition lines_of :: "parts \<Rightarrow> string list" where
  "lines_of ps = concat (map snd ps)"

text \<open>The last file may end in a torn line.\<close>

fun tear :: "string \<Rightarrow> disk \<Rightarrow> disk" where
  "tear tail [] = []"
| "tear tail [(i, c)] = [(i, c @ tail)]"
| "tear tail (f # g # fs) = f # tear tail (g # fs)"

lemma tear_nil: "tear [] D = D"
  by (induction "[] :: string" D rule: tear.induct) auto

text \<open>The rotation table of such a directory: the first number in each file that has a line.\<close>

fun starts :: "nat \<Rightarrow> parts \<Rightarrow> (nat \<times> nat) list" where
  "starts n [] = []"
| "starts n ((i, ls) # ps) = (if ls = [] then [] else [(n + 1, i)]) @ starts (n + length ls) ps"

lemma starts_append: "starts n (ps @ qs) = starts n ps @ starts (n + length (lines_of ps)) qs"
  by (induction n ps rule: starts.induct) (auto simp: lines_of_def add.assoc)

definition no_fault :: "nat \<Rightarrow> gw_error option" where "no_fault k = None"

lemma scan_files_parts:
  assumes "\<forall>l \<in> set (lines_of ps). line_ok l" and "chained env (ch_seq st) (ch_prev st) (lines_of ps)"
    and "nl \<notin> set tail" and "length tail < max_line"
  shows "\<exists>st'. scan_files env no_fault None (tear tail (disk_of ps)) k st rot
      = Inr (st', rot @ starts (ch_seq st) ps, disk_of ps)
    \<and> ch_seq st' = ch_seq st + length (lines_of ps) \<and> ch_prev st' = last_hash env (ch_prev st) (lines_of ps)
    \<and> ch_last st' = last_entry env (ch_last st) (lines_of ps)"
  using assms(1,2)
proof (induction ps arbitrary: k st rot)
  case Nil
  then show ?case by (simp add: disk_of_def lines_of_def last_entry_def)
next
  case (Cons p ps)
  obtain i ls where p: "p = (i, ls)" by fastforce
  have ls: "\<forall>l \<in> set ls. line_ok l" "chained env (ch_seq st) (ch_prev st) ls"
    and rest: "\<forall>l \<in> set (lines_of ps). line_ok l"
      "chained env (ch_seq st + length ls) (last_hash env (ch_prev st) ls) (lines_of ps)"
    using Cons.prems p by (auto simp: lines_of_def chained_append)
  let ?tail = "if ps = [] then tail else []"
  let ?st1 = "\<lparr>ch_seq = ch_seq st + length ls, ch_prev = last_hash env (ch_prev st) ls,
           ch_last = last_entry env (ch_last st) ls, ch_offset = length (content_of ls)\<rparr>"
  have torn: "tear tail (disk_of (p # ps)) = (i, content_of ls @ ?tail) # tear tail (disk_of ps)"
    using p by (cases ps) (auto simp: disk_of_def)
  have empty: "(tear tail (disk_of ps) = []) = (ps = [])"
    by (cases ps rule: list.exhaust; cases "tl ps") (auto simp: disk_of_def)
  have scan: "scan_lines env (ps = []) (content_of ls @ ?tail) (st\<lparr>ch_offset := 0\<rparr>)
      = Inr (?st1, if ?tail = [] then None else Some ?tail)"
  proof -
    have "0 < max_line" by (simp add: max_line_def)
    then have "nl \<notin> set ?tail \<and> length ?tail < max_line \<and> (?tail \<noteq> [] \<longrightarrow> ps = [])"
      using assms(3,4) by (cases "ps = []") simp_all
    then have t: "nl \<notin> set ?tail" "length ?tail < max_line" "?tail \<noteq> [] \<Longrightarrow> ps = []" by blast+
    have c: "chained env (ch_seq (st\<lparr>ch_offset := 0\<rparr>)) (ch_prev (st\<lparr>ch_offset := 0\<rparr>)) ls"
      using ls(2) by simp
    have "scan_lines env (ps = []) (content_of ls @ ?tail) (st\<lparr>ch_offset := 0\<rparr>)
      = Inr (\<lparr>ch_seq = ch_seq (st\<lparr>ch_offset := 0\<rparr>) + length ls, ch_prev = last_hash env (ch_prev (st\<lparr>ch_offset := 0\<rparr>)) ls,
           ch_last = last_entry env (ch_last (st\<lparr>ch_offset := 0\<rparr>)) ls, ch_offset = ch_offset (st\<lparr>ch_offset := 0\<rparr>) + length (content_of ls)\<rparr>,
          if ?tail = [] then None else Some ?tail)"
      by (rule scan_lines_content [OF ls(1) c t])
    then show ?thesis by (cases st) (simp only: chain.simps add_0)
  qed

  let ?rot = "if ch_seq ?st1 \<ge> ch_seq st + 1 then rot @ [(ch_seq st + 1, i)] else rot"
  obtain st' where IH: "scan_files env no_fault None (tear tail (disk_of ps)) (k + 1) ?st1 ?rot
      = Inr (st', ?rot @ starts (ch_seq ?st1) ps, disk_of ps)"
    "ch_seq st' = ch_seq ?st1 + length (lines_of ps)" "ch_prev st' = last_hash env (ch_prev ?st1) (lines_of ps)"
    "ch_last st' = last_entry env (ch_last ?st1) (lines_of ps)"
    using Cons.IH [of ?st1 "k + 1" ?rot] rest by auto
  have rot: "?rot @ starts (ch_seq ?st1) ps = rot @ starts (ch_seq st) (p # ps)" by (auto simp: p Suc_le_eq)
  obtain t where t: "t = ?tail" by blast
  have "scan_files env no_fault None ((i, content_of ls @ t) # tear tail (disk_of ps)) k st rot
      = Inr (st', rot @ starts (ch_seq st) (p # ps), (i, content_of ls) # disk_of ps)"
    using IH(1) scan unfolding t [symmetric] rot by (simp add: empty no_fault_def Let_def)
  then have "scan_files env no_fault None (tear tail (disk_of (p # ps))) k st rot
      = Inr (st', rot @ starts (ch_seq st) (p # ps), disk_of (p # ps))"
    unfolding torn t by (simp add: p disk_of_def)
  moreover have "last_entry env (last_entry env (ch_last st) ls) (lines_of ps) = last_entry env (ch_last st) (lines_of (p # ps))"
    by (auto simp: last_entry_def lines_of_def p)
  ultimately show ?case using IH(2-4) p by (auto simp: lines_of_def last_hash_append)
qed

end
