(* ===== verification/PyJson.thy ===== *)
theory PyJson
  imports AuditLog
begin

text \<open>
  verification/canonical.go: the encoding python-json-sort-compact-v1 of facts, receipts and
  control documents, and the strict decoder in front of it. The lexer of encoding/json and the
  shortest text of a 64-bit float are arguments.
\<close>

subsection \<open>Encoding\<close>

definition py_ascii :: "char \<Rightarrow> string" where
  "py_ascii c =
     (let n = of_char c :: nat in
      if n = 34 \<or> n = 92 then [CHR 0x5C, c]
      else if n = 8 then [CHR 0x5C, CHR ''b'']
      else if n = 12 then [CHR 0x5C, CHR ''f'']
      else if n = 10 then [CHR 0x5C, CHR ''n'']
      else if n = 13 then [CHR 0x5C, CHR ''r'']
      else if n = 9 then [CHR 0x5C, CHR ''t'']
      else if n < 32 then u00 n
      else [c])"

definition py_rune :: "bytes \<Rightarrow> string" where
  "py_rune u = (if length u = 1 then py_ascii (hd u) else u)"

text \<open>pythonString: only valid UTF-8 has a text.\<close>

definition py_string :: "bytes \<Rightarrow> string option" where
  "py_string s = (if \<not> valid_utf8 s then None
     else Some (CHR 0x22 # concat (map py_rune (runes s)) @ [CHR 0x22]))"

text \<open>A number literal: a float through its shortest text (\<open>fl\<close>, none for one out of range),
  an integer of any size through big.Int.\<close>

definition py_number :: "(string \<Rightarrow> string option) \<Rightarrow> string \<Rightarrow> string option" where
  "py_number fl s =
     (if \<exists>c \<in> set s. c \<in> set ''.eE'' then fl s
      else (let neg = (s \<noteq> [] \<and> hd s = CHR ''-'');
                ds = (if s \<noteq> [] \<and> (hd s = CHR ''-'' \<or> hd s = CHR ''+'') then tl s else s) in
            if ds = [] \<or> \<not> list_all is_digit ds then None
            else Some (int_text (if neg then - dec_val ds else dec_val ds))))"

fun all_some :: "'a option list \<Rightarrow> 'a list option" where
  "all_some [] = Some []"
| "all_some (None # xs) = None"
| "all_some (Some x # xs) = map_option (Cons x) (all_some xs)"

definition py_member :: "string \<Rightarrow> string option \<Rightarrow> string option" where
  "py_member k v = (case py_string k of None \<Rightarrow> None
     | Some q \<Rightarrow> map_option (\<lambda>w. q @ CHR '':'' # w) v)"

text \<open>encodePython: the keys of an object in byte order.\<close>

fun py_encode :: "(string \<Rightarrow> string option) \<Rightarrow> json \<Rightarrow> string option" where
  "py_encode fl JNull = Some ''null''"
| "py_encode fl (JBool b) = Some (if b then ''true'' else ''false'')"
| "py_encode fl (JNum s) = py_number fl s"
| "py_encode fl (JStr s) = py_string s"
| "py_encode fl (JArr vs) =
     map_option (\<lambda>ts. CHR ''['' # join_comma ts @ '']'') (all_some (map (py_encode fl) vs))"
| "py_encode fl (JObj kvs) =
     map_option (\<lambda>ts. CHR ''{'' # join_comma ts @ ''}'')
       (all_some (map (\<lambda>(k, w). py_member k w) (sort_key fst (map (\<lambda>(k, v). (k, py_encode fl v)) kvs))))"

subsection \<open>Decoding\<close>

text \<open>jsonValue: nesting deeper than 32 and repeated keys are refused. The fuel bounds the
  tokens read.\<close>

fun json_value :: "nat \<Rightarrow> nat \<Rightarrow> token list \<Rightarrow> (json \<times> token list) option"
  and json_members :: "nat \<Rightarrow> nat \<Rightarrow> token list \<Rightarrow> (string \<times> json) list \<Rightarrow> ((string \<times> json) list \<times> token list) option"
  and json_elements :: "nat \<Rightarrow> nat \<Rightarrow> token list \<Rightarrow> json list \<Rightarrow> (json list \<times> token list) option" where
  "json_value 0 d ts = None"
| "json_value (Suc n) d [] = None"
| "json_value (Suc n) d (t # ts) =
     (if d > 32 then None else
      case t of
        TOpenObj \<Rightarrow> map_option (\<lambda>(m, r). (JObj m, r)) (json_members n d ts [])
      | TOpenArr \<Rightarrow> map_option (\<lambda>(a, r). (JArr a, r)) (json_elements n d ts [])
      | TCloseObj \<Rightarrow> None
      | TCloseArr \<Rightarrow> None
      | TNum s \<Rightarrow> Some (JNum s, ts)
      | TStr s \<Rightarrow> Some (JStr s, ts)
      | TBool b \<Rightarrow> Some (JBool b, ts)
      | TNull \<Rightarrow> Some (JNull, ts))"
| "json_members 0 d ts m = None"
| "json_members (Suc n) d [] m = None"
| "json_members (Suc n) d (t # ts) m =
     (case t of
        TCloseObj \<Rightarrow> Some (m, ts)
      | TStr name \<Rightarrow> if name \<in> fst ` set m then None
          else (case json_value n (d + 1) ts of None \<Rightarrow> None
            | Some (v, r) \<Rightarrow> json_members n d r (m @ [(name, v)]))
      | _ \<Rightarrow> None)"
| "json_elements 0 d ts a = None"
| "json_elements (Suc n) d [] a = None"
| "json_elements (Suc n) d (t # ts) a =
     (if t = TCloseArr then Some (a, ts)
      else case json_value n (d + 1) (t # ts) of None \<Rightarrow> None
        | Some (v, r) \<Rightarrow> json_elements n d r (a @ [v]))"

definition decode_json :: "(string \<Rightarrow> token list \<times> bool) \<Rightarrow> string \<Rightarrow> json option" where
  "decode_json lexer raw =
     (if \<not> valid_utf8 raw then None
      else (case lexer raw of (ts, ok) \<Rightarrow>
        (case json_value (2 * length ts + 2) 0 ts of Some (v, []) \<Rightarrow> (if ok then Some v else None) | _ \<Rightarrow> None)))"

text \<open>requireCanonical: the document whose encoding is exactly the bytes.\<close>

definition parse_canonical :: "(string \<Rightarrow> token list \<times> bool) \<Rightarrow> (string \<Rightarrow> string option) \<Rightarrow> string \<Rightarrow> json option" where
  "parse_canonical lexer fl raw =
     (case decode_json lexer raw of None \<Rightarrow> None
      | Some v \<Rightarrow> if py_encode fl v = Some raw then Some v else None)"

end
