(* ===== verification/Tabular.thy ===== *)
theory Tabular
  imports Pinned PyJson
begin

text \<open>
  verification/tabular.go: the records of a text table, the kinds of its columns and the scalars
  that are counted. The standard library's CSV reader and line scanner are modelled over the bytes
  of the input; the tokens of encoding/json, the parsing of floats and of times are arguments. What
  the environment decides, the sizes of the reads and the moment a deadline passes, is an argument too.
\<close>

subsection \<open>Arguments and policy\<close>

text \<open>A finite float: its canonical text and its floor. A parsed time: its text to the second in UTC
  and its nanoseconds.\<close>

datatype float_parse = FloatOk string int | FloatSpecial | FloatRange | FloatBad

record clock =
  ck_text :: string
  ck_nanos :: nat

record table_env =
  te_sha :: "bytes \<Rightarrow> bytes"
  te_mac :: "bytes \<Rightarrow> bytes \<Rightarrow> bytes"
  te_lex :: "string \<Rightarrow> token list \<times> bool"
  te_float :: "string \<Rightarrow> float_parse"
  te_time :: "nat \<Rightarrow> string \<Rightarrow> clock option"
  te_estimate :: "nat list \<Rightarrow> int"

record table_policy = policy +
  tp_canonicalization :: string
  tp_row_count :: string
  tp_distinct :: string
  tp_histogram :: string
  tp_numeric :: string
  tp_occupancy :: int
  tp_lengths :: "nat list"
  tp_boundaries :: "int list"
  tp_record :: int
  tp_scalar :: int
  tp_columns :: int
  tp_deadline :: int
  tp_gateway :: string
  tp_snapshot :: string
  tp_commitment :: bytes

definition length_bounds :: "nat list" where "length_bounds = [0, 1, 4, 8, 16, 32, 64, 128, 256]"

definition numeric_boundaries :: "int list" where "numeric_boundaries = [-1000, -100, -10, 0, 10, 100, 1000]"

definition uuid_ascii :: "string \<Rightarrow> bool" where
  "uuid_ascii s \<longleftrightarrow> length s = 36
     \<and> list_all (\<lambda>(i, c). if i \<in> {8, 13, 18, 23} then c = CHR ''-'' else is_lower_hex c) (zip [0..<36] s)"

text \<open>A limit of zero stands for its default.\<close>

definition or_default :: "int \<Rightarrow> int \<Rightarrow> int" where
  "or_default d n = (if n = 0 then d else n)"

definition with_defaults :: "table_policy \<Rightarrow> table_policy" where
  "with_defaults p = p\<lparr>po_max_memory := or_default 134217728 (po_max_memory p), tp_record := or_default 16777216 (tp_record p),
     tp_scalar := or_default 16777216 (tp_scalar p), tp_columns := or_default 1000 (tp_columns p),
     po_max_facts := or_default 32768 (po_max_facts p), tp_deadline := or_default 1800000000000 (tp_deadline p)\<rparr>"

definition versions_ok :: "table_policy \<Rightarrow> bool" where
  "versions_ok p \<longleftrightarrow> tp_canonicalization p = ''python-json-sort-compact-v1'' \<and> tp_row_count p = ''exact-v1''
     \<and> tp_distinct p = ''hll-sha256-v1'' \<and> tp_histogram p = ''fixed-buckets-v1'' \<and> tp_numeric p = ''fixed-buckets-v1'' \<and> tp_occupancy p = 10"

definition limits_ok :: "table_policy \<Rightarrow> bool" where
  "limits_ok p \<longleftrightarrow> 1 \<le> po_max_memory p \<and> po_max_memory p \<le> 134217728 \<and> 1 \<le> tp_record p \<and> tp_record p \<le> 16777216
     \<and> 1 \<le> tp_scalar p \<and> tp_scalar p \<le> 16777216 \<and> 1 \<le> tp_columns p \<and> tp_columns p \<le> 1000
     \<and> 0 \<le> tp_deadline p \<and> tp_deadline p \<le> 1800000000000"

definition policy_refusal :: "table_policy \<Rightarrow> refusal option" where
  "policy_refusal p0 =
     (let p = with_defaults p0 in
      if \<not> versions_ok p0 then Some Unsupported
      else if tp_lengths p0 \<noteq> length_bounds \<or> tp_boundaries p0 \<noteq> numeric_boundaries then Some Unsupported
      else if \<not> po_custom p0 \<and> (\<not> uuid_ascii (tp_gateway p0) \<or> \<not> hex_ascii (tp_snapshot p0)) then Some Unsupported
      else if po_max_facts p < 1 \<or> po_max_facts p > 32768 then Some SummaryBudget
      else if \<not> limits_ok p then Some ResourceLimit
      else check_census_policy (policy.truncate p))"

definition checked :: "table_policy \<Rightarrow> refusal + table_policy" where
  "checked p = (case policy_refusal p of None \<Rightarrow> Inr (with_defaults p) | Some e \<Rightarrow> Inl e)"

subsection \<open>Records\<close>

datatype cell = TextCell string | JsonCell json

text \<open>What the walk of a table reports: the names, the cells when it is a record, and the offset behind it.\<close>

type_synonym visit = "string list \<times> cell list option \<times> nat"

definition name_ok :: "table_policy \<Rightarrow> string list \<Rightarrow> bool" where
  "name_ok p names \<longleftrightarrow> names \<noteq> [] \<and> int (length names) \<le> tp_columns p \<and> distinct names
     \<and> list_all (\<lambda>n. valid_utf8 n \<and> n \<noteq> [] \<and> length (runes n) \<le> 256) names"

text \<open>limitRecords: the size of the current record and the state of its quoting, byte by byte. The
  states are: start of a field, in a plain field, in a quoted field, after a quote in one.\<close>

definition quote_state :: "char \<Rightarrow> nat \<Rightarrow> char \<Rightarrow> nat" where
  "quote_state comma q c =
     (if q = 0 then (if c = CHR 0x22 then 2 else if c \<noteq> comma \<and> c \<noteq> CHR 0x0A then 1 else 0)
      else if q = 1 then (if c = comma then 0 else 1)
      else if q = 2 then (if c = CHR 0x22 then 3 else 2)
      else (if c = CHR 0x22 then 2 else if c = comma then 0 else q))"

fun limit_bytes :: "char \<Rightarrow> int \<Rightarrow> nat \<times> nat \<Rightarrow> bytes \<Rightarrow> (nat \<times> nat) option" where
  "limit_bytes comma mx s [] = Some s"
| "limit_bytes comma mx (n, q) (c # cs) =
     (if int (n + 1) > mx then None
      else let q' = quote_state comma q c in
        limit_bytes comma mx (if c = CHR 0x0A \<and> q' \<noteq> 2 then (0, 0) else (n + 1, q')) cs)"

text \<open>The bytes in reads of the given sizes: a read in which a record grows too large gives nothing.\<close>

fun limit_reads :: "char \<Rightarrow> int \<Rightarrow> nat list \<Rightarrow> nat \<times> nat \<Rightarrow> bytes \<Rightarrow> bytes \<times> bool" where
  "limit_reads comma mx [] s bs = (case limit_bytes comma mx s bs of None \<Rightarrow> ([], True) | Some s' \<Rightarrow> (bs, False))"
| "limit_reads comma mx (k # ks) s bs =
     (case limit_bytes comma mx s (take k bs) of None \<Rightarrow> ([], True)
      | Some s' \<Rightarrow> (case limit_reads comma mx ks s' (drop k bs) of (out, over) \<Rightarrow> (take k bs @ out, over)))"

subsection \<open>The CSV reader\<close>

definition without_return :: "bytes \<Rightarrow> bytes" where
  "without_return b = (if b \<noteq> [] \<and> hd (rev b) = CHR 0x0D then butlast b else b)"

text \<open>readLine: the line with its newline, CR LF as LF; at the end of the input a last line without one,
  less a final CR. A failure of the input comes with what was read before it.\<close>

definition csv_line :: "bytes \<Rightarrow> read_end \<Rightarrow> bytes \<times> read_end \<times> bytes" where
  "csv_line inp e =
     (let l = takeWhile (\<lambda>c. c \<noteq> CHR 0x0A) inp; r = dropWhile (\<lambda>c. c \<noteq> CHR 0x0A) inp in
      if r \<noteq> [] then (without_return l @ [CHR 0x0A], Going, tl r)
      else if inp \<noteq> [] \<and> e = AtEnd then (without_return inp, Going, [])
      else (inp, e, []))"

definition only_newline :: "bytes \<Rightarrow> bool" where
  "only_newline l \<longleftrightarrow> l = [] \<or> l = [CHR 0x0A]"

lemma csv_line_shorter: "csv_line inp e = (l, e', r) \<Longrightarrow> length r \<le> length inp \<and> (inp \<noteq> [] \<longrightarrow> length r < length inp)
    \<and> length l + length r \<le> length inp"
proof -
  assume c: "csv_line inp e = (l, e', r)"
  let ?l = "takeWhile (\<lambda>c. c \<noteq> CHR 0x0A) inp" and ?r = "dropWhile (\<lambda>c. c \<noteq> CHR 0x0A) inp"
  have s: "length ?l + length ?r = length inp" by (metis length_append takeWhile_dropWhile_id)
  have w: "length (without_return x) \<le> length x" for x by (simp add: without_return_def)
  from c show ?thesis using s w [of ?l] w [of inp]
    by (cases ?r) (auto simp: csv_line_def Let_def split: if_splits)
qed

text \<open>Skipping empty lines. The end of the input is an end only when nothing was read.\<close>

function csv_first_line :: "bytes \<Rightarrow> read_end \<Rightarrow> bytes \<times> read_end \<times> bytes" where
  "csv_first_line inp e =
     (case csv_line inp e of (l, e', r) \<Rightarrow>
        if e' = Going \<and> only_newline l \<and> inp \<noteq> [] then csv_first_line r e else (l, e', r))"
  by auto
termination
proof (relation "measure (\<lambda>(inp, e). length inp)", goal_cases)
  case (2 inp e x y xa ya)
  then have "csv_line inp e = (x, xa, ya)" by (metis prod.collapse)
  from csv_line_shorter [OF this] 2 show ?case by simp
qed simp

declare csv_first_line.simps [simp del]

text \<open>readRecord. Within a record: the start of a field in a line, or the inside of a quoted field with
  what was read of it; the rest of the input is read on when a quoted field spans lines.\<close>

datatype field_mode = FieldStart | InQuotes bytes

datatype csv_read = CsvEnd | CsvFail refusal | CsvRow "string list"

definition text_error :: "read_end \<Rightarrow> refusal" where
  "text_error e = (case e of Failed x \<Rightarrow> (if x \<in> {ArtifactChanged, ResourceLimit, Timeout} then x else Unsupported) | _ \<Rightarrow> Unsupported)"

text \<open>The fields of a line are complete: a failure of the input that came with the line counts.\<close>

definition csv_done :: "string list \<Rightarrow> read_end \<Rightarrow> csv_read" where
  "csv_done fs e = (if e = Going then CsvRow fs else CsvFail (text_error e))"

text \<open>Each step of readRecord takes characters off the line or the input.\<close>

lemma after_mark: "c \<in> set line \<Longrightarrow> length (dropWhile (\<lambda>x. x \<noteq> c) line) - Suc 0 < length line"
  by (induction line) auto

function csv_fields :: "char \<Rightarrow> field_mode \<Rightarrow> string list \<Rightarrow> bytes \<Rightarrow> read_end \<Rightarrow> bytes \<Rightarrow> read_end \<Rightarrow> csv_read \<times> bytes" where
  "csv_fields comma FieldStart fs line now inp e =
     (if line \<noteq> [] \<and> hd line = CHR 0x22 then csv_fields comma (InQuotes []) fs (tl line) now inp e
      else if comma \<in> set line then
        (let f = takeWhile (\<lambda>c. c \<noteq> comma) line in
         if CHR 0x22 \<in> set f then (CsvFail Unsupported, inp)
         else csv_fields comma FieldStart (fs @ [f]) (tl (dropWhile (\<lambda>c. c \<noteq> comma) line)) now inp e)
      else
        (let f = trim_suffix [CHR 0x0A] line in
         if CHR 0x22 \<in> set f then (CsvFail Unsupported, inp) else (csv_done (fs @ [f]) now, inp)))"
| "csv_fields comma (InQuotes buf) fs line now inp e =
     (if CHR 0x22 \<in> set line then
        (let got = buf @ takeWhile (\<lambda>c. c \<noteq> CHR 0x22) line; r = tl (dropWhile (\<lambda>c. c \<noteq> CHR 0x22) line) in
         if r \<noteq> [] \<and> hd r = CHR 0x22 then csv_fields comma (InQuotes (got @ [CHR 0x22])) fs (tl r) now inp e
         else if r \<noteq> [] \<and> hd r = comma then csv_fields comma FieldStart (fs @ [got]) (tl r) now inp e
         else if only_newline r then (csv_done (fs @ [got]) now, inp)
         else (CsvFail Unsupported, inp))
      else if line \<noteq> [] then
        (if now \<noteq> Going then (CsvFail (text_error now), inp)
         else (case csv_line inp e of (l, now', r) \<Rightarrow>
           csv_fields comma (InQuotes (buf @ line)) fs l (if now' = AtEnd then Going else now') r e))
      else if now = Going then (CsvFail Unsupported, inp)
      else (CsvFail (text_error now), inp))"
  by pat_completeness auto

termination
proof (relation "measure (\<lambda>(comma, mode, fs, line, now, inp, e). length line + length inp)", goal_cases)
  case (4 comma buf fs line now inp e got r)
  then show ?case using after_mark [of "CHR 0x22" line] by (cases r) auto
next
  case (5 comma buf fs line now inp e got r)
  then show ?case using after_mark [of "CHR 0x22" line] by (cases r) auto
next
  case (6 comma buf fs line now inp e x y xa ya)
  then have "csv_line inp e = (x, xa, ya)" by (metis prod.collapse)
  from csv_line_shorter [OF this] 6 show ?case by (cases line) auto
qed (auto simp: after_mark)

declare csv_fields.simps [simp del]

definition csv_record :: "char \<Rightarrow> bytes \<Rightarrow> read_end \<Rightarrow> csv_read \<times> bytes" where
  "csv_record comma inp e =
     (case csv_first_line inp e of (l, now, r) \<Rightarrow>
        if now = AtEnd \<or> l = [] \<and> now = Going then (CsvEnd, r) else csv_fields comma FieldStart [] l now r e)"


lemma csv_first_line_shorter:
  "csv_first_line inp e = (l, e', r) \<Longrightarrow> length r \<le> length inp \<and> (inp \<noteq> [] \<longrightarrow> length r < length inp) \<and> (inp = [] \<longrightarrow> l = [])"
proof (induction inp e arbitrary: l e' r rule: csv_first_line.induct)
  case (1 inp e)
  obtain l1 e1 r1 where c: "csv_line inp e = (l1, e1, r1)" by (metis prod_cases3)
  note s = csv_line_shorter [OF c]
  show ?case
  proof (cases "e1 = Going \<and> only_newline l1 \<and> inp \<noteq> []")
    case True
    then have "csv_first_line r1 e = (l, e', r)" using 1(2) c by (simp add: csv_first_line.simps [of inp])
    from 1(1) [OF c [symmetric] refl True this] show ?thesis using s True by auto
  next
    case False
    then show ?thesis using 1(2) c s by (auto simp: csv_first_line.simps [of inp])
  qed
qed

lemma csv_fields_shorter: "csv_fields comma mode fs line now inp e = (res, r) \<Longrightarrow> length r \<le> length inp"
proof (induction comma mode fs line now inp e arbitrary: res r rule: csv_fields.induct)
  case (1 comma fs line now inp e)
  then show ?case by (auto simp: csv_fields.simps(1) [of comma fs line] Let_def split: if_splits)
next
  case (2 comma buf fs line now inp e)
  obtain l e1 r1 where c: "csv_line inp e = (l, e1, r1)" by (metis prod_cases3)
  have "length r1 \<le> length inp" using csv_line_shorter [OF c] by simp
  with 2 c show ?case by (fastforce simp: csv_fields.simps(2) [of comma buf fs line] Let_def split: if_splits)
qed

lemma csv_record_shorter:
  assumes "csv_record comma inp e = (CsvRow fs, r)"
  shows "length r < length inp"
proof -
  obtain l e1 r1 where c: "csv_first_line inp e = (l, e1, r1)" by (metis prod_cases3)
  have f: "csv_fields comma FieldStart [] l e1 r1 e = (CsvRow fs, r)" "\<not> (l = [] \<and> e1 = Going)"
    using assms c by (auto simp: csv_record_def split: if_splits)
  have "inp \<noteq> []"
  proof
    assume "inp = []"
    then have "l = []" using csv_first_line_shorter [OF c] by simp
    with f show False by (simp add: csv_fields.simps(1) trim_suffix_def has_suffix_def csv_done_def split: if_splits)
  qed
  then show ?thesis using csv_first_line_shorter [OF c] csv_fields_shorter [OF f(1)] by simp
qed

subsection \<open>Walking a table\<close>

text \<open>The rows behind the header; the flag says when the context has ended.\<close>

function csv_rows :: "table_policy \<Rightarrow> (nat \<Rightarrow> bool) \<Rightarrow> char \<Rightarrow> string list \<Rightarrow> nat \<Rightarrow> bytes \<Rightarrow> read_end \<Rightarrow> nat \<Rightarrow> visit list \<times> refusal option" where
  "csv_rows p late comma names offset inp e k =
     (if late k then ([], Some Timeout)
      else case csv_record comma inp e of
        (CsvEnd, r) \<Rightarrow> ([], None)
      | (CsvFail x, r) \<Rightarrow> ([], Some x)
      | (CsvRow fs, r) \<Rightarrow>
          (let used = length inp - length r in
           if length fs \<noteq> length names then ([], Some Unsupported)
           else if int used > tp_record p then ([], Some ResourceLimit)
           else if \<not> list_all (\<lambda>f. valid_utf8 f \<and> int (length f) \<le> tp_scalar p) fs then ([], Some Unsupported)
           else (case csv_rows p late comma names (offset + used) r e (k + 1) of (vs, x) \<Rightarrow>
             ((names, Some (map TextCell fs), offset + used) # vs, x))))"
  by auto
termination
proof (relation "measure (\<lambda>(p, late, comma, names, offset, inp, e, k). length inp)", goal_cases)
  case (2 p late comma names offset inp e k x y fs used)
  then have "csv_record comma inp e = (CsvRow fs, y)" by (metis prod.collapse)
  from csv_record_shorter [OF this] show ?case by simp
qed simp

declare csv_rows.simps [simp del]

definition utf8_mark :: bytes where "utf8_mark = [CHR 0xEF, CHR 0xBB, CHR 0xBF]"

definition walk_csv :: "table_policy \<Rightarrow> (nat \<Rightarrow> bool) \<Rightarrow> nat list \<Rightarrow> char \<Rightarrow> bytes \<Rightarrow> read_end \<Rightarrow> visit list \<times> refusal option" where
  "walk_csv p late sizes comma inp0 e0 =
     (case limit_reads comma (tp_record p) sizes (0, 0) inp0 of (inp, over) \<Rightarrow>
      (let e = (if over then Failed ResourceLimit else e0) in
       case csv_record comma inp e of
         (CsvEnd, r) \<Rightarrow> ([], Some Unsupported)
       | (CsvFail x, r) \<Rightarrow> ([], Some x)
       | (CsvRow fs, r) \<Rightarrow>
           (let names = trim_prefix utf8_mark (hd fs) # tl fs; used = length inp - length r in
            if \<not> name_ok p names then ([], Some Unsupported)
            else (case csv_rows p late comma names used r e 0 of (vs, x) \<Rightarrow> ((names, None, used) # vs, x)))))"

text \<open>White space as Unicode has it.\<close>

definition space_rune :: "bytes \<Rightarrow> bool" where
  "space_rune u \<longleftrightarrow> u \<in> {[CHR 0x09], [CHR 0x0A], [CHR 0x0B], [CHR 0x0C], [CHR 0x0D], [CHR '' ''], [CHR 0xC2, CHR 0x85], [CHR 0xC2, CHR 0xA0],
      [CHR 0xE1, CHR 0x9A, CHR 0x80], [CHR 0xE2, CHR 0x80, CHR 0xA8], [CHR 0xE2, CHR 0x80, CHR 0xA9], [CHR 0xE2, CHR 0x80, CHR 0xAF],
      [CHR 0xE2, CHR 0x81, CHR 0x9F], [CHR 0xE3, CHR 0x80, CHR 0x80]}
     \<or> (length u = 3 \<and> u ! 0 = CHR 0xE2 \<and> u ! 1 = CHR 0x80 \<and> 0x80 \<le> (of_char (u ! 2) :: nat) \<and> (of_char (u ! 2) :: nat) \<le> 0x8A)"

definition trim_space :: "string \<Rightarrow> string" where
  "trim_space s = concat (rev (dropWhile space_rune (rev (dropWhile space_rune (runes s)))))"

text \<open>The members of one flat object, read token by token. A nested value refuses the record whatever is in it;
  for one that is cut short the code passes on the error of the decoder, which the model reports as the same refusal.\<close>

fun scalar_token :: "token \<Rightarrow> json option" where
  "scalar_token (TNum s) = Some (JNum s)"
| "scalar_token (TStr s) = Some (JStr s)"
| "scalar_token (TBool b) = Some (JBool b)"
| "scalar_token TNull = Some JNull"
| "scalar_token _ = None"

fun flat_members :: "token list \<Rightarrow> (string \<times> json) list \<Rightarrow> ((string \<times> json) list \<times> token list) option" where
  "flat_members (TCloseObj # ts) m = Some (m, ts)"
| "flat_members (TStr k # t # ts) m =
     (if k \<in> fst ` set m then None
      else case scalar_token t of None \<Rightarrow> None | Some v \<Rightarrow> flat_members ts (m @ [(k, v)]))"
| "flat_members _ m = None"

definition json_line :: "table_env \<Rightarrow> table_policy \<Rightarrow> bytes \<Rightarrow> (string \<times> json) list option" where
  "json_line env p raw =
     (case te_lex env raw of
        (TOpenObj # ts, True) \<Rightarrow>
          (case flat_members ts [] of Some (m, []) \<Rightarrow> (if name_ok p (map fst m) then Some m else None) | _ \<Rightarrow> None)
      | _ \<Rightarrow> None)"

fun jsonl_rows :: "table_env \<Rightarrow> table_policy \<Rightarrow> (nat \<Rightarrow> bool) \<Rightarrow> read_end \<Rightarrow> nat \<Rightarrow> nat \<Rightarrow> bytes list \<Rightarrow> visit list \<times> refusal option" where
  "jsonl_rows env p late e offset k [] =
     ([], case e of Failed x \<Rightarrow> Some (if x = ArtifactChanged \<or> x = Timeout then x else ResourceLimit) | _ \<Rightarrow> None)"
| "jsonl_rows env p late e offset k (l # ls) =
     (if int (length l) > tp_record p then ([], Some ResourceLimit)
      else if late k then ([], Some Timeout)
      else
        (let raw = without_return l; o' = offset + length raw + 1 in
         if \<not> valid_utf8 raw then ([], Some ResourceLimit)
         else if trim_space raw = [] then jsonl_rows env p late e o' (k + 1) ls
         else case json_line env p raw of None \<Rightarrow> ([], Some Unsupported)
         | Some m \<Rightarrow>
           (case jsonl_rows env p late e o' (k + 1) ls of (vs, x) \<Rightarrow>
             ((map fst m, Some (map (\<lambda>(n, v). JsonCell v) m), o') # vs, x))))"

definition text_lines :: "bytes \<Rightarrow> bytes list" where
  "text_lines b = (let ls = split_on CHR 0x0A b in if hd (rev ls) = [] then butlast ls else ls)"

definition walk_text :: "table_env \<Rightarrow> table_policy \<Rightarrow> (nat \<Rightarrow> bool) \<Rightarrow> nat list \<Rightarrow> string \<Rightarrow> bytes \<Rightarrow> read_end \<Rightarrow> visit list \<times> refusal option" where
  "walk_text env p late sizes fmt inp e =
     (if fmt = ''jsonl'' then jsonl_rows env p late e 0 0 (text_lines inp)
      else walk_csv p late sizes (if fmt = ''tsv'' then CHR 0x09 else CHR '','') inp e)"

end
