(* ===== verification/Columns.thy ===== *)
theory Columns
  imports Tabular
begin

text \<open>
  The columns of a text table (verification/tabular.go and the aggregate of scanner.go): the kind
  inferred for each column, the scalar text that is counted, the aggregate of a column and the two
  passes over the records of a table.
\<close>

subsection \<open>Kinds\<close>

definition null_tokens :: "string list" where
  "null_tokens = ['''', ''#N/A'', ''#N/A N/A'', ''#NA'', ''-1.#IND'', ''-1.#QNAN'', ''-NaN'', ''-nan'', ''1.#IND'', ''1.#QNAN'', ''N/A'', ''NA'',
     ''NULL'', ''NaN'', ''n/a'', ''nan'', ''null'']"

text \<open>timestamp: the first of the three layouts that fits, and whether it is the one with a zone.\<close>

definition timestamp_of :: "table_env \<Rightarrow> string \<Rightarrow> (clock \<times> bool) option" where
  "timestamp_of env s =
     (case te_time env 0 s of Some t \<Rightarrow> Some (t, True)
      | None \<Rightarrow> (case te_time env 1 s of Some t \<Rightarrow> Some (t, False)
        | None \<Rightarrow> (case te_time env 2 s of Some t \<Rightarrow> Some (t, False) | None \<Rightarrow> None)))"

definition date_of :: "table_env \<Rightarrow> string \<Rightarrow> clock option" where
  "date_of env s = te_time env 3 s"

definition contains_any :: "string \<Rightarrow> string \<Rightarrow> bool" where
  "contains_any s cs = list_ex (\<lambda>c. c \<in> set cs) s"

definition infer_json :: "table_env \<Rightarrow> json \<Rightarrow> string" where
  "infer_json env v =
     (case v of JNull \<Rightarrow> ''unknown''
      | JBool b \<Rightarrow> ''boolean''
      | JNum s \<Rightarrow> if contains_any s ''.eE'' then ''float'' else ''integer''
      | JStr s \<Rightarrow> if timestamp_of env s \<noteq> None \<and> \<not> contains_any s ''.,'' then ''datetime'' else ''string''
      | _ \<Rightarrow> ''unsupported'')"

definition float_text :: "table_env \<Rightarrow> string \<Rightarrow> bool" where
  "float_text env s \<longleftrightarrow> te_float env s \<noteq> FloatBad"

definition infer_text :: "table_env \<Rightarrow> string \<Rightarrow> string" where
  "infer_text env s =
     (let v = trim_space s in
      if s \<in> set null_tokens then ''unknown''
      else if v \<in> set [''true'', ''false'', ''True'', ''False'', ''TRUE'', ''FALSE''] then ''boolean''
      else if parse_int v \<noteq> None \<and> \<not> has_prefix ''+'' v then ''integer''
      else if float_text env v then ''float''
      else if date_of env v \<noteq> None then ''date''
      else if timestamp_of env v \<noteq> None then ''datetime''
      else ''string'')"

fun infer_cell :: "table_env \<Rightarrow> cell \<Rightarrow> string" where
  "infer_cell env (JsonCell v) = infer_json env v"
| "infer_cell env (TextCell s) = infer_text env s"

definition promote :: "string \<Rightarrow> string \<Rightarrow> bool \<Rightarrow> refusal + string" where
  "promote a z is_json =
     (if a = ''unknown'' then Inr z
      else if z = ''unknown'' \<or> z = a then Inr a
      else if a = ''integer'' \<and> z = ''float'' \<or> a = ''float'' \<and> z = ''integer'' then Inr ''float''
      else if is_json then Inl Unsupported else Inr ''string'')"

text \<open>The columns found so far, in the order of their first mention, with their kinds.\<close>

type_synonym columns = "(string \<times> string) list"

definition set_kind :: "string \<Rightarrow> string \<Rightarrow> columns \<Rightarrow> columns" where
  "set_kind n k cols = map (\<lambda>(m, k'). if m = n then (m, k) else (m, k')) cols"

text \<open>One name of a visit, with its cell: a new column costs memory, and beyond the first mebibyte of
  a CSV file the kinds stay what they are.\<close>

definition infer_column :: "table_env \<Rightarrow> table_policy \<Rightarrow> string \<Rightarrow> nat \<Rightarrow> string \<times> cell option \<Rightarrow> columns \<times> budget
    \<Rightarrow> refusal option \<times> columns \<times> budget" where
  "infer_column env p fmt offset nc st =
     (case st of (cols, b) \<Rightarrow> case nc of (n, c) \<Rightarrow>
      let known = (n \<in> fst ` set cols) in
      if \<not> known \<and> int (length cols) \<ge> tp_columns p then (Some Unsupported, st)
      else case (if known then (None, b) else budget_reserve (int (length n) + 1024) b) of
        (Some e, b') \<Rightarrow> (Some e, cols, b')
      | (None, b') \<Rightarrow>
        (let cols' = (if known then cols else cols @ [(n, ''unknown'')]) in
         case c of None \<Rightarrow> (None, cols', b')
         | Some x \<Rightarrow>
           if fmt \<noteq> ''jsonl'' \<and> offset > 1048576 then (None, cols', b')
           else (case promote (the (map_of cols' n)) (infer_cell env x) (fmt = ''jsonl'') of
               Inl e \<Rightarrow> (Some e, cols', b') | Inr k \<Rightarrow> (None, set_kind n k cols', b'))))"

fun infer_columns :: "table_env \<Rightarrow> table_policy \<Rightarrow> string \<Rightarrow> nat \<Rightarrow> (string \<times> cell option) list \<Rightarrow> columns \<times> budget
    \<Rightarrow> refusal option \<times> columns \<times> budget" where
  "infer_columns env p fmt offset [] st = (None, st)"
| "infer_columns env p fmt offset (nc # ncs) st =
     (case infer_column env p fmt offset nc st of (Some e, st') \<Rightarrow> (Some e, st')
      | (None, st') \<Rightarrow> infer_columns env p fmt offset ncs st')"

definition visit_pairs :: "visit \<Rightarrow> (string \<times> cell option) list" where
  "visit_pairs v = (case v of (names, None, _) \<Rightarrow> map (\<lambda>n. (n, None)) names | (names, Some cs, _) \<Rightarrow> zip names (map Some cs))"

fun infer_visits :: "table_env \<Rightarrow> table_policy \<Rightarrow> string \<Rightarrow> visit list \<times> refusal option \<Rightarrow> columns \<times> budget
    \<Rightarrow> refusal option \<times> columns \<times> budget" where
  "infer_visits env p fmt ([], e) st = (e, st)"
| "infer_visits env p fmt (v # vs, e) st =
     (case infer_columns env p fmt (snd (snd v)) (visit_pairs v) st of (Some x, st') \<Rightarrow> (Some x, st')
      | (None, st') \<Rightarrow> infer_visits env p fmt (vs, e) st')"

subsection \<open>Scalars\<close>

definition parse_bool :: "string \<Rightarrow> bool option" where
  "parse_bool s = (if s \<in> set [''1'', ''t'', ''T'', ''true'', ''TRUE'', ''True''] then Some True
     else if s \<in> set [''0'', ''f'', ''F'', ''false'', ''FALSE'', ''False''] then Some False else None)"

definition bool_text :: "bool \<Rightarrow> string" where
  "bool_text b = (if b then ''true'' else ''false'')"

text \<open>The nine or six digits behind the second, when there are any.\<close>

definition padded :: "nat \<Rightarrow> nat \<Rightarrow> string" where
  "padded k n = replicate (k - length (dec_text n)) CHR ''0'' @ dec_text n"

definition iso_python :: "clock \<Rightarrow> bool \<Rightarrow> string" where
  "iso_python t tz = ck_text t
     @ (if ck_nanos t = 0 then '''' else if ck_nanos t mod 1000 \<noteq> 0 then CHR ''.'' # padded 9 (ck_nanos t)
        else CHR ''.'' # padded 6 (ck_nanos t div 1000))
     @ (if tz then ''+00:00'' else '''')"

definition cell_text :: "cell \<Rightarrow> string" where
  "cell_text c = (case c of TextCell s \<Rightarrow> s
     | JsonCell v \<Rightarrow> (case v of JStr s \<Rightarrow> s | JNum s \<Rightarrow> s | JBool b \<Rightarrow> bool_text b | _ \<Rightarrow> ''''))"

definition null_cell :: "cell \<Rightarrow> string \<Rightarrow> bool" where
  "null_cell c kind = (case c of TextCell s \<Rightarrow> kind \<noteq> ''string'' \<and> s \<in> set null_tokens | JsonCell v \<Rightarrow> v = JNull)"

definition json_text :: "cell \<Rightarrow> bool" where
  "json_text c = (case c of JsonCell v \<Rightarrow> (case v of JStr s \<Rightarrow> True | _ \<Rightarrow> False) | TextCell s \<Rightarrow> True)"

text \<open>A scalar: what is hashed, its length in bytes for a string, and the floor of its value for a number.\<close>

record scalar_value =
  sv_raw :: bytes
  sv_length :: nat
  sv_floor :: int

definition plain_scalar :: "bytes \<Rightarrow> scalar_value" where
  "plain_scalar raw = \<lparr>sv_raw = raw, sv_length = 0, sv_floor = 0\<rparr>"

text \<open>scalar: None within the result is a null.\<close>

definition scalar_of :: "table_env \<Rightarrow> cell \<Rightarrow> string \<Rightarrow> refusal + scalar_value option" where
  "scalar_of env c kind =
     (let t = cell_text c in
      if null_cell c kind then Inr None
      else if kind = ''string'' then
        (if \<not> json_text c then Inl Unsupported
         else case py_string t of None \<Rightarrow> Inl Unsupported
           | Some raw \<Rightarrow> Inr (Some \<lparr>sv_raw = raw, sv_length = length t, sv_floor = 0\<rparr>))
      else if kind = ''integer'' then
        (case parse_int (trim_space t) of None \<Rightarrow> Inl Unsupported
         | Some n \<Rightarrow> Inr (Some \<lparr>sv_raw = int_text n, sv_length = 0, sv_floor = n\<rparr>))
      else if kind = ''float'' then
        (case te_float env (trim_space t) of FloatOk raw f \<Rightarrow> Inr (Some \<lparr>sv_raw = raw, sv_length = 0, sv_floor = f\<rparr>) | _ \<Rightarrow> Inl Unsupported)
      else if kind = ''boolean'' then
        (case parse_bool t of None \<Rightarrow> Inl Unsupported | Some b \<Rightarrow> Inr (Some (plain_scalar (bool_text b))))
      else if kind = ''date'' then
        (case date_of env t of None \<Rightarrow> Inl Unsupported | Some d \<Rightarrow> Inr (Some (plain_scalar (''time:'' @ take 10 (ck_text d)))))
      else if kind = ''datetime'' then
        (case timestamp_of env t of None \<Rightarrow> Inl Unsupported
         | Some (d, tz) \<Rightarrow> Inr (Some (plain_scalar (''time:'' @ iso_python d (tz \<and> (case c of TextCell s \<Rightarrow> True | _ \<Rightarrow> False))))))
      else Inl Unsupported)"


subsection \<open>The aggregate of a column\<close>

text \<open>The counts of a column while its records are read: nulls, up to ten distinct values, the registers of
  the sketch and the two histograms.\<close>

record column_tally =
  ta_kind :: string
  ta_nulls :: int
  ta_exact :: "bytes list"
  ta_registers :: "nat list"
  ta_lengths :: "int list"
  ta_numeric :: "int list"
  ta_seed :: bytes

definition new_tally :: "table_policy \<Rightarrow> nat \<Rightarrow> string \<Rightarrow> column_tally" where
  "new_tally p i kind = \<lparr>ta_kind = kind, ta_nulls = 0, ta_exact = [], ta_registers = replicate 128 0, ta_lengths = replicate 10 0,
     ta_numeric = replicate 8 0, ta_seed = po_seed p @ be_bytes 4 (int i)\<rparr>"

definition count_null :: "column_tally \<Rightarrow> column_tally" where
  "count_null a = a\<lparr>ta_nulls := ta_nulls a + 1\<rparr>"

text \<open>\<open>bits.Len64\<close> and the big-endian reading of eight bytes.\<close>

fun bit_length :: "nat \<Rightarrow> nat" where
  "bit_length n = (if n = 0 then 0 else 1 + bit_length (n div 2))"

declare bit_length.simps [simp del]

definition be_value :: "bytes \<Rightarrow> nat" where
  "be_value b = foldl (\<lambda>v c. v * 256 + of_char c) 0 b"

text \<open>The register a value belongs to, and its rank there.\<close>

definition sketch_slot :: "(bytes \<Rightarrow> bytes) \<Rightarrow> bytes \<Rightarrow> bytes \<Rightarrow> nat \<times> nat" where
  "sketch_slot sha seed raw = (let x = be_value (take 8 (sha (seed @ CHR 0x00 # raw))) in (x mod 128, 58 - bit_length (x div 128)))"

definition raise_register :: "nat \<times> nat \<Rightarrow> nat list \<Rightarrow> nat list" where
  "raise_register s rs = rs[fst s := max (rs ! fst s) (snd s)]"

definition bump_at :: "nat \<Rightarrow> int list \<Rightarrow> int list" where
  "bump_at i xs = xs[i := xs ! i + 1]"

definition length_bucket :: "table_policy \<Rightarrow> nat \<Rightarrow> nat" where
  "length_bucket p n = length (takeWhile (\<lambda>b. n > b) (tp_lengths p))"

definition numeric_bucket :: "table_policy \<Rightarrow> int \<Rightarrow> nat" where
  "numeric_bucket p n = length (takeWhile (\<lambda>b. n \<ge> b) (tp_boundaries p))"

definition text_kind :: "string \<Rightarrow> bool" where
  "text_kind k \<longleftrightarrow> k = ''string'' \<or> k = ''binary''"

definition number_kind :: "string \<Rightarrow> bool" where
  "number_kind k \<longleftrightarrow> k = ''integer'' \<or> k = ''float'' \<or> k = ''decimal''"

text \<open>add: one value of a column.\<close>

definition count_value :: "(bytes \<Rightarrow> bytes) \<Rightarrow> table_policy \<Rightarrow> scalar_value \<Rightarrow> column_tally \<Rightarrow> column_tally" where
  "count_value sha p v a = a\<lparr>
     ta_registers := raise_register (sketch_slot sha (ta_seed a) (sv_raw v)) (ta_registers a),
     ta_lengths := (if text_kind (ta_kind a) then bump_at (length_bucket p (sv_length v)) (ta_lengths a) else ta_lengths a),
     ta_numeric := (if number_kind (ta_kind a) then bump_at (numeric_bucket p (sv_floor v)) (ta_numeric a) else ta_numeric a)\<rparr>"

definition tally_add :: "(bytes \<Rightarrow> bytes) \<Rightarrow> table_policy \<Rightarrow> scalar_value option \<Rightarrow> column_tally \<Rightarrow> budget \<Rightarrow> refusal option \<times> column_tally \<times> budget" where
  "tally_add sha p v a b =
     (case v of None \<Rightarrow> (None, count_null a, b)
      | Some x \<Rightarrow>
        if int (length (sv_raw x)) > tp_scalar p then (Some ResourceLimit, a, b)
        else if length (ta_exact a) < 10 \<and> sv_raw x \<notin> set (ta_exact a) then
          (case budget_reserve (int (length (sv_raw x)) + 64) b of
             (Some e, b') \<Rightarrow> (Some e, a, b')
           | (None, b') \<Rightarrow> (None, count_value sha p x (a\<lparr>ta_exact := ta_exact a @ [sv_raw x]\<rparr>), b'))
        else (None, count_value sha p x a, b))"

definition aggregate_of :: "table_env \<Rightarrow> column_tally \<Rightarrow> aggregate" where
  "aggregate_of env a = \<lparr>ag_kind = ta_kind a, ag_nulls = ta_nulls a, ag_exact = ta_exact a, ag_estimate = te_estimate env (ta_registers a),
     ag_lengths = ta_lengths a, ag_numeric = ta_numeric a\<rparr>"

subsection \<open>The second pass\<close>

text \<open>One cell of a record: the memory for its text is taken and given back, and its scalar is counted.\<close>

definition count_cell :: "table_env \<Rightarrow> table_policy \<Rightarrow> string list \<Rightarrow> string \<times> cell \<Rightarrow> column_tally list \<times> budget
    \<Rightarrow> refusal option \<times> column_tally list \<times> budget" where
  "count_cell env p cols nc st =
     (case st of (acc, b) \<Rightarrow> case nc of (n, c) \<Rightarrow>
      if n \<notin> set cols then (Some ArtifactChanged, st)
      else
        let i = length (takeWhile (\<lambda>m. m \<noteq> n) cols);
            len = (case c of JsonCell (JStr s) \<Rightarrow> length s | JsonCell _ \<Rightarrow> 0 | TextCell s \<Rightarrow> length s);
            extra = max 0 (int len * 6 + 1024 - tp_record p) in
        (case budget_reserve extra b of
           (Some e, b') \<Rightarrow> (Some e, acc, b')
         | (None, b') \<Rightarrow>
           (case scalar_of env c (ta_kind (acc ! i)) of
              Inl e \<Rightarrow> (Some e, acc, b'\<lparr>bu_used := bu_used b' - extra\<rparr>)
            | Inr v \<Rightarrow>
              (case tally_add (te_sha env) p v (acc ! i) (b'\<lparr>bu_used := bu_used b' - extra\<rparr>) of
                 (e, a, b'') \<Rightarrow> (e, acc[i := a], b'')))))"

fun count_cells :: "table_env \<Rightarrow> table_policy \<Rightarrow> string list \<Rightarrow> (string \<times> cell) list \<Rightarrow> column_tally list \<times> budget
    \<Rightarrow> refusal option \<times> column_tally list \<times> budget" where
  "count_cells env p cols [] st = (None, st)"
| "count_cells env p cols (nc # ncs) st =
     (case count_cell env p cols nc st of (Some e, st') \<Rightarrow> (Some e, st') | (None, st') \<Rightarrow> count_cells env p cols ncs st')"

text \<open>The columns a record does not mention count a null.\<close>

definition count_absent :: "string list \<Rightarrow> string list \<Rightarrow> column_tally list \<Rightarrow> column_tally list" where
  "count_absent cols present acc = map (\<lambda>(n, a). if n \<in> set present then a else count_null a) (zip cols acc)"

definition max_rows :: int where "max_rows = 9223372036854"

fun count_visits :: "table_env \<Rightarrow> table_policy \<Rightarrow> string list \<Rightarrow> visit list \<times> refusal option \<Rightarrow> int \<times> column_tally list \<times> budget
    \<Rightarrow> refusal option \<times> int \<times> column_tally list \<times> budget" where
  "count_visits env p cols ([], e) st = (e, st)"
| "count_visits env p cols ((names, None, o') # vs, e) st = count_visits env p cols (vs, e) st"
| "count_visits env p cols ((names, Some cs, o') # vs, e) (rows, acc, b) =
     (if rows + 1 > max_rows then (Some ResourceLimit, rows + 1, acc, b)
      else case count_cells env p cols (zip names cs) (acc, b) of
        (Some x, acc', b') \<Rightarrow> (Some x, rows + 1, acc', b')
      | (None, acc', b') \<Rightarrow> count_visits env p cols (vs, e) (rows + 1, count_absent cols names acc', b'))"

text \<open>What is published of a table.\<close>

record table_object =
  to_id :: string
  to_names :: "string list"
  to_columns :: "column_fact list"
  to_rows :: int

definition count_table :: "table_env \<Rightarrow> table_policy \<Rightarrow> columns \<Rightarrow> visit list \<times> refusal option \<Rightarrow> budget
    \<Rightarrow> (refusal + table_object) \<times> budget" where
  "count_table env p cols ws b =
     (case count_visits env p (map fst cols) ws (0, map (\<lambda>(i, c). new_tally p i (snd c)) (zip [0..<length cols] cols), b) of
        (Some e, _, _, b') \<Rightarrow> (Inl e, b')
      | (None, rows, acc, b') \<Rightarrow>
        (Inr \<lparr>to_id = '''', to_names = map fst cols, to_columns = finish_columns rows (map (aggregate_of env) acc), to_rows = rows\<rparr>, b'))"

end
