(* ===== verification/TableScan.thy ===== *)
theory TableScan
  imports Columns
begin

text \<open>
  The scan of tables in verification/scanner.go: the first pass over every member, the second pass
  over each table, and the facts with their fingerprint; then Scan and Probe around them. The Arrow
  library behind a parquet file is an argument: it chooses what to read next from what it has read.
  What the storage does, the sizes of the reads and the deadlines are arguments of every pass.
\<close>

subsection \<open>Passes\<close>

text \<open>What the environment decides of one pass over a member: whether it opens, the blocks it gives, the reads of
  the parser, when the context ends, the sizes of the reads of the CSV reader, the reads after a failure
  that the parser has seen already, the blocks by number, the bytes a random access buffers, if it tells, and
  the sizes it reports at its start and at its end.\<close>

record pass_io =
  pi_open :: bool
  pi_input :: "chunk list"
  pi_reads :: "(bool \<times> nat) list"
  pi_late :: "nat \<Rightarrow> bool"
  pi_sizes :: "nat list"
  pi_again :: "(bool \<times> nat) list option"
  pi_disk :: storage
  pi_buffered :: "int option"
  pi_before :: int
  pi_after :: int
  pi_expired :: bool

record pinned_member =
  pm_member :: member
  pm_blocks :: "bytes list"
  pm_columns :: columns

definition block_count :: "int \<Rightarrow> int" where
  "block_count n = n div int scan_block + (if n mod int scan_block \<noteq> 0 then 1 else 0)"

definition member_refused :: "table_policy \<Rightarrow> string option \<Rightarrow> member \<Rightarrow> bool" where
  "member_refused p prev m \<longleftrightarrow> mb_identity m = '''' \<or> mb_size m < 0 \<or> (mb_ordering m = None \<and> \<not> file_id_ascii (mb_identity m))
     \<or> (mb_ordering m \<noteq> None \<and> (\<not> po_custom p \<or> mb_ordering m \<noteq> Some (mb_identity m)))
     \<or> (case prev of None \<Rightarrow> False | Some q \<Rightarrow> \<not> q < mb_identity m)"

text \<open>What the first pass makes of the bytes: a table that is no parquet file is inferred, another is only read.\<close>

definition parse_member :: "table_env \<Rightarrow> table_policy \<Rightarrow> pass_io \<Rightarrow> string \<Rightarrow> member \<Rightarrow> bytes \<Rightarrow> read_end \<Rightarrow> budget
    \<Rightarrow> refusal option \<times> columns \<times> budget" where
  "parse_member env p io fmt m bs e b =
     (if supported fmt \<and> mb_format m \<noteq> ''parquet''
      then infer_visits env p fmt (walk_text env p (pi_late io) (pi_sizes io) fmt bs e) ([], b)
      else ((case e of Failed x \<Rightarrow> Some x | _ \<Rightarrow> None), [], b))"

definition prepare_member :: "table_env \<Rightarrow> table_policy \<Rightarrow> pass_io \<Rightarrow> string option \<Rightarrow> member \<Rightarrow> budget
    \<Rightarrow> (refusal + pinned_member) \<times> budget" where
  "prepare_member env p io prev m b0 =
     (case (case mb_ordering m of None \<Rightarrow> (None, b0) | Some k \<Rightarrow> budget_reserve (int (length (mb_identity m)) + int (length k)) b0) of
        (Some e, b) \<Rightarrow> (Inl e, b)
      | (None, b1) \<Rightarrow>
        if member_refused p prev m then (Inl ArtifactChanged, b1)
        else case budget_reserve (block_count (mb_size m) * 32) b1 of
          (Some e, b) \<Rightarrow> (Inl e, b)
        | (None, b2) \<Rightarrow>
          if \<not> pi_open io then (Inl ArtifactChanged, b2)
          else
            let sz = nat (mb_size m) in
            (case peek_four (te_sha env) sz None (pi_reads io) [] (fresh_reader (pi_input io)) of (got, rqs, st1) \<Rightarrow>
             case read_on (te_sha env) sz None rqs st1 of (rest, e, st2) \<Rightarrow>
             let fmt = (if length got \<ge> 4 \<and> take 2 got = ''PK'' then ''unsupported'' else mb_format m) in
             case parse_member env p io fmt m (got @ rest) e b2 of (err, cols, b3) \<Rightarrow>
               if err = Some ResourceLimit then (Inl ResourceLimit, b3)
               else
                 (case (if err = None then (AtEnd, st2)
                     else case pi_again io of None \<Rightarrow> (e, st2)
                     | Some rqs' \<Rightarrow> (case read_on (te_sha env) sz None rqs' st2 of (_, e', st') \<Rightarrow> (e', st'))) of
                    (Failed x, st3) \<Rightarrow> (Inl x, b3)
                  | (_, st3) \<Rightarrow>
                    if hb_size st3 \<noteq> sz \<or> ((mb_ordering m = None \<or> mb_digest m) \<and> te_sha env (hb_fed st3) \<noteq> mb_sha m)
                    then (Inl ArtifactChanged, b3)
                    else (case err of Some x \<Rightarrow> (Inl x, b3)
                      | None \<Rightarrow> (Inr \<lparr>pm_member = m\<lparr>mb_sha := te_sha env (hb_fed st3), mb_digest := True, mb_format := fmt\<rparr>,
                          pm_blocks = hb_blocks st3, pm_columns = cols\<rparr>, b3)))))"

fun prepare_members :: "table_env \<Rightarrow> table_policy \<Rightarrow> (string \<Rightarrow> pass_io) \<Rightarrow> string option \<Rightarrow> member list \<Rightarrow> budget
    \<Rightarrow> (refusal + pinned_member list) \<times> budget" where
  "prepare_members env p io prev [] b = (Inr [], b)"
| "prepare_members env p io prev (m # ms) b =
     (case prepare_member env p (io (mb_identity m)) prev m b of
        (Inl e, b') \<Rightarrow> (Inl e, b')
      | (Inr x, b') \<Rightarrow> (case prepare_members env p io (Some (mb_identity m)) ms b' of
          (Inl e, b'') \<Rightarrow> (Inl e, b'') | (Inr xs, b'') \<Rightarrow> (Inr (x # xs), b'')))"

definition prepare_all :: "table_env \<Rightarrow> table_policy \<Rightarrow> (string \<Rightarrow> pass_io) \<Rightarrow> member list \<Rightarrow> budget \<Rightarrow> (refusal + pinned_member list) \<times> budget" where
  "prepare_all env p io ms b =
     (if ms = [] \<or> length ms > 100000 then (Inl ArtifactChanged, b)
      else case budget_reserve (int (length ms) * 512) b of (Some e, b') \<Rightarrow> (Inl e, b')
      | (None, b') \<Rightarrow> prepare_members env p io None ms b')"

subsection \<open>Tables\<close>

definition reread :: "table_env \<Rightarrow> pinned_member \<Rightarrow> pass_io \<Rightarrow> bytes \<times> read_end" where
  "reread env x io = (case read_on (te_sha env) (nat (mb_size (pm_member x))) (Some (pm_blocks x)) (pi_reads io) (fresh_reader (pi_input io)) of
     (bs, e, st) \<Rightarrow> (bs, e))"

definition text_object :: "table_env \<Rightarrow> table_policy \<Rightarrow> pinned_member \<Rightarrow> pass_io \<Rightarrow> budget \<Rightarrow> (refusal + table_object) \<times> budget" where
  "text_object env p x io b =
     (if \<not> pi_open io then (Inl ArtifactChanged, b)
      else case reread env x io of (bs, e) \<Rightarrow>
        count_table env p (pm_columns x) (walk_text env p (pi_late io) (pi_sizes io) (mb_format (pm_member x)) bs e) b)"

text \<open>A reader that chooses its next read by what it has read.\<close>

datatype 'a reading = Finished 'a | Reading nat nat "bytes \<times> read_end \<Rightarrow> 'a reading"

primrec run_reading :: "(nat \<Rightarrow> nat \<Rightarrow> bytes \<times> read_end) \<Rightarrow> 'a reading \<Rightarrow> 'a" where
  "run_reading rd (Finished a) = a"
| "run_reading rd (Reading off n f) = run_reading rd (f (rd off n))"

type_synonym parquet_reader = "table_policy \<Rightarrow> nat \<Rightarrow> budget \<Rightarrow> ((refusal + table_object) \<times> budget) reading"

definition le_value :: "bytes \<Rightarrow> nat" where
  "le_value b = be_value (rev b)"

text \<open>parquetObject: what the access buffers is taken from the memory, the footer is found at the end, the
  library reads what it wants through the verified access, and at last everything is read once in order through it.\<close>

definition page_limit :: "budget \<Rightarrow> int" where
  "page_limit b = min 4194304 ((bu_limit b - bu_used b) div 10)"

definition reserve_buffered :: "int option \<Rightarrow> budget \<Rightarrow> refusal option \<times> budget" where
  "reserve_buffered n b = (case n of None \<Rightarrow> (None, b) | Some k \<Rightarrow> budget_reserve k b)"

definition parquet_pages :: "(nat \<Rightarrow> nat \<Rightarrow> bytes \<times> read_end) \<Rightarrow> table_policy \<Rightarrow> parquet_reader \<Rightarrow> nat \<Rightarrow> int \<Rightarrow> budget
    \<Rightarrow> (refusal + table_object) \<times> budget" where
  "parquet_pages rd p pq sz left b =
     (let page = page_limit b in
      if page < 65536 then (Inl ResourceLimit, b)
      else case budget_reserve (page * 6) b of (Some e, b') \<Rightarrow> (Inl e, b')
      | (None, b') \<Rightarrow>
        (case run_reading rd (pq p sz b') of
           (Inl e, b'') \<Rightarrow> (Inl e, b''\<lparr>bu_used := bu_used b'' - page * 6\<rparr>)
         | (Inr o', b'') \<Rightarrow>
           ((case rd 0 sz of (_, Failed e) \<Rightarrow> Inl e | _ \<Rightarrow> if left \<noteq> int sz then Inl ArtifactChanged else Inr o'),
             b''\<lparr>bu_used := bu_used b'' - page * 6\<rparr>)))"

definition parquet_object :: "table_env \<Rightarrow> table_policy \<Rightarrow> parquet_reader \<Rightarrow> pinned_member \<Rightarrow> pass_io \<Rightarrow> budget
    \<Rightarrow> (refusal + table_object) \<times> budget" where
  "parquet_object env p pq x io b0 =
     (let sz = nat (mb_size (pm_member x)); rd = read_at (te_sha env) sz (pm_blocks x) (pi_disk io) in
      if \<not> pi_open io then (Inl ArtifactChanged, b0)
      else case reserve_buffered (pi_buffered io) b0 of (Some e, b) \<Rightarrow> (Inl e, b)
      | (None, b) \<Rightarrow>
        if pi_before io \<noteq> mb_size (pm_member x) \<or> sz < 12 then (Inl ArtifactChanged, b)
        else case rd (sz - 8) 8 of
          (bs, Failed e) \<Rightarrow> (Inl e, b)
        | (bs, _) \<Rightarrow>
          let footer = le_value (take 4 bs) in
          if drop 4 bs \<noteq> ''PAR1'' \<or> footer > 1048576 \<or> footer > sz - 12 then (Inl ResourceLimit, b)
          else parquet_pages rd p pq sz (pi_after io) b)"

text \<open>One table; the memory in use is that before it again, and a failure after the deadline is a timeout.\<close>

definition table_of :: "table_env \<Rightarrow> table_policy \<Rightarrow> parquet_reader \<Rightarrow> pinned_member \<Rightarrow> pass_io \<Rightarrow> budget
    \<Rightarrow> (refusal + table_object) \<times> budget" where
  "table_of env p pq x io b =
     (case (if mb_format (pm_member x) = ''parquet'' then parquet_object env p pq x io b else text_object env p x io b) of
        (r, b') \<Rightarrow> ((case r of Inl e \<Rightarrow> Inl (if pi_expired io then Timeout else e) | Inr o' \<Rightarrow> Inr o'), b'\<lparr>bu_used := bu_used b\<rparr>))"


subsection \<open>Facts\<close>

record scanned_facts =
  tf_discovered :: int
  tf_scanned :: int
  tf_skipped :: "string list"
  tf_objects :: "table_object list"
  tf_frames :: bytes
  tf_content :: string
  tf_locator :: string
  tf_fingerprint :: string

text \<open>What a client of the package brings: the parquet library, its own commitments, and the census of
  theory Census for the mode of that name.\<close>

record scan_args =
  sa_parquet :: parquet_reader
  sa_object :: "member \<Rightarrow> string"
  sa_locator :: string
  sa_census :: "table_policy \<Rightarrow> refusal + scanned_facts"

definition hex_string :: "bytes \<Rightarrow> string" where
  "hex_string b = concat (map (\<lambda>c. [hex_digit (of_char c div 16), hex_digit (of_char c mod 16)]) b)"

definition keyed :: "table_env \<Rightarrow> bytes \<Rightarrow> string \<Rightarrow> string" where
  "keyed env key s = hex_string (te_mac env key s)"

definition object_name :: "table_env \<Rightarrow> scan_args \<Rightarrow> table_policy \<Rightarrow> member \<Rightarrow> string" where
  "object_name env sa p m =
     (if po_custom p then sa_object sa m
      else keyed env (tp_commitment p) (''object'' @ CHR 0x00 # ''gateway_listing'' @ CHR 0x00 # tp_gateway p @ CHR 0x00 # mb_identity m
        @ CHR 0x00 # hex_string (mb_sha m)))"

definition locator_name :: "table_env \<Rightarrow> scan_args \<Rightarrow> table_policy \<Rightarrow> string" where
  "locator_name env sa p =
     (if po_custom p then sa_locator sa
      else keyed env (tp_commitment p) (''gateway_listing'' @ CHR 0x00 # tp_gateway p @ CHR 0x00 # tp_snapshot p))"

definition count_json :: "int \<Rightarrow> json" where "count_json n = JNum (int_text n)"

definition coverage_json :: "scanned_facts \<Rightarrow> json" where
  "coverage_json f = JObj [(''objects_discovered'', count_json (tf_discovered f)), (''objects_scanned'', count_json (tf_scanned f)),
     (''objects_skipped_by_reason'', JObj (if tf_skipped f = [] then [] else [(''unsupported_type'', count_json (int (length (tf_skipped f))))])),
     (''skipped'', JArr (map (\<lambda>i. JObj [(''object_id'', JStr i), (''reason'', JStr ''unsupported_type'')]) (tf_skipped f)))]"

fun fact_json :: "col_fact \<Rightarrow> json" where
  "fact_json CNil = JNull"
| "fact_json CSuppressed = JStr ''suppressed_low_occupancy''"
| "fact_json (CRate s) = JStr s"
| "fact_json (CEstimate n) = JObj [(''estimate'', count_json n), (''algorithm'', JStr ''hll-sha256-v1''), (''relative_error_ppm'', count_json 91924)]"
| "fact_json (CHist h) = JArr (map count_json h)"

definition object_json :: "table_object \<Rightarrow> json" where
  "object_json o' = JObj [(''object_id'', JStr (to_id o')), (''column_names'', JArr (map JStr (to_names o'))),
     (''column_types'', JArr (map (JStr \<circ> cf_type) (to_columns o'))), (''null_rate'', JArr (map (fact_json \<circ> cf_null_rate) (to_columns o'))),
     (''approx_distinct_count'', JArr (map (fact_json \<circ> cf_distinct) (to_columns o'))),
     (''length_histograms'', JArr (map (fact_json \<circ> cf_length) (to_columns o'))),
     (''numeric_range_buckets'', JArr (map (fact_json \<circ> cf_numeric) (to_columns o'))),
     (''row_count'', count_json (to_rows o')), (''row_count_method'', JStr ''exact'')]"

definition preview_json :: "table_object \<Rightarrow> json" where
  "preview_json o' = JObj [(''object_id'', JStr (to_id o')), (''column_names'', JArr (map JStr (to_names o'))),
     (''column_types'', JArr (map (JStr \<circ> cf_type) (to_columns o'))), (''row_count'', count_json (to_rows o')),
     (''row_count_method'', JStr ''exact'')]"

definition summary_text :: "scanned_facts \<Rightarrow> string option" where
  "summary_text f = py_encode (\<lambda>_. None) (JObj [(''coverage'', coverage_json f), (''objects'', JArr (map object_json (tf_objects f))),
     (''schema_preview'', JArr (map preview_json (tf_objects f)))])"

definition within_summary :: "table_policy \<Rightarrow> scanned_facts \<Rightarrow> bool" where
  "within_summary p f = (case summary_text f of None \<Rightarrow> False | Some raw \<Rightarrow> int (length raw) \<le> po_max_facts p)"

definition fingerprint_text :: "table_policy \<Rightarrow> scanned_facts \<Rightarrow> string option" where
  "fingerprint_text p f = py_encode (\<lambda>_. None) (JObj [(''coverage'', coverage_json f), (''objects'', JArr (map object_json (tf_objects f))),
     (''depth_class'', JStr ''complete_standard_v1''), (''row_count_algorithm_version'', JStr (tp_row_count p)),
     (''distinct_algorithm_version'', JStr (tp_distinct p)), (''histogram_version'', JStr (tp_histogram p)),
     (''numeric_bucket_version'', JStr (tp_numeric p)), (''canonicalization_version'', JStr (tp_canonicalization p))])"

subsection \<open>The scan\<close>

definition member_bytes :: "member \<Rightarrow> bytes" where
  "member_bytes m = frame_bytes (mb_identity m) @ u64_bytes (mb_size m) @ mb_sha m"

definition scan_member :: "table_env \<Rightarrow> scan_args \<Rightarrow> table_policy \<Rightarrow> pinned_member \<Rightarrow> pass_io \<Rightarrow> scanned_facts \<times> budget
    \<Rightarrow> refusal + scanned_facts \<times> budget" where
  "scan_member env sa p x io fb =
     (case fb of (f0, b) \<Rightarrow>
      let m = pm_member x; f = f0\<lparr>tf_frames := tf_frames f0 @ member_bytes m\<rparr>; name = object_name env sa p m in
      if \<not> hex_ascii name then Inl Unsupported
      else if \<not> supported (mb_format m) then
        (if int ((length (tf_skipped f) + 1) * 128) > po_max_facts p then Inl SummaryBudget
         else if \<not> pi_open io then Inl ArtifactChanged
         else case reread env x io of (bs, Failed e) \<Rightarrow> Inl e
         | (bs, _) \<Rightarrow> Inr (f\<lparr>tf_skipped := tf_skipped f @ [name]\<rparr>, b))
      else (case table_of env p (sa_parquet sa) x io b of
          (Inl e, b') \<Rightarrow> Inl e
        | (Inr o', b') \<Rightarrow>
          (let f' = f\<lparr>tf_objects := tf_objects f @ [o'\<lparr>to_id := name\<rparr>], tf_scanned := tf_scanned f + 1\<rparr> in
           if within_summary p f' then Inr (f', b') else Inl SummaryBudget)))"

fun scan_members :: "table_env \<Rightarrow> scan_args \<Rightarrow> table_policy \<Rightarrow> (string \<Rightarrow> pass_io) \<Rightarrow> pinned_member list \<Rightarrow> scanned_facts \<times> budget
    \<Rightarrow> refusal + scanned_facts \<times> budget" where
  "scan_members env sa p io [] fb = Inr fb"
| "scan_members env sa p io (x # xs) fb =
     (case scan_member env sa p x (io (mb_identity (pm_member x))) fb of
        Inl e \<Rightarrow> Inl e | Inr fb' \<Rightarrow> scan_members env sa p io xs fb')"

definition no_facts :: "int \<Rightarrow> scanned_facts" where
  "no_facts n = \<lparr>tf_discovered = n, tf_scanned = 0, tf_skipped = [], tf_objects = [], tf_frames = [], tf_content = '''', tf_locator = '''',
     tf_fingerprint = ''''\<rparr>"

definition sealed_facts :: "table_env \<Rightarrow> scan_args \<Rightarrow> table_policy \<Rightarrow> scanned_facts \<Rightarrow> refusal + scanned_facts" where
  "sealed_facts env sa p f0 =
     (if \<not> within_summary p f0 then Inl SummaryBudget
      else
        let f = f0\<lparr>tf_objects := sort_key to_id (tf_objects f0), tf_skipped := sort (tf_skipped f0),
                   tf_content := hex_string (te_sha env (tf_frames f0)), tf_locator := locator_name env sa p\<rparr> in
        if \<not> hex_ascii (tf_locator f) then Inl Unsupported
        else case fingerprint_text p f of None \<Rightarrow> Inl Unsupported
        | Some raw \<Rightarrow> Inr (f\<lparr>tf_fingerprint := hex_string (te_sha env raw)\<rparr>))"

definition fresh_budget :: "table_policy \<Rightarrow> budget" where
  "fresh_budget p = \<lparr>bu_used = 0, bu_limit = po_max_memory p, bu_peak = 0\<rparr>"

definition scan_tables :: "table_env \<Rightarrow> scan_args \<Rightarrow> table_policy \<Rightarrow> (string \<Rightarrow> pass_io) \<Rightarrow> (string \<Rightarrow> pass_io) \<Rightarrow> member list
    \<Rightarrow> refusal + scanned_facts" where
  "scan_tables env sa p0 io1 io2 ms =
     (case checked p0 of Inl e \<Rightarrow> Inl e
      | Inr p \<Rightarrow>
        (case budget_reserve (tp_record p * 4 + po_max_facts p * 4 + 4194304) (fresh_budget p) of (Some e, b) \<Rightarrow> Inl e
         | (None, b) \<Rightarrow>
           (case prepare_all env p io1 ms b of (Inl e, b') \<Rightarrow> Inl e
            | (Inr xs, b') \<Rightarrow>
              (case scan_members env sa p io2 xs (no_facts (int (length xs)), b') of Inl e \<Rightarrow> Inl e
               | Inr (f, b'') \<Rightarrow> sealed_facts env sa p f))))"

text \<open>Scan: without a mode a summary that is too large is reported as the old budget error.\<close>

definition scan_facts :: "table_env \<Rightarrow> scan_args \<Rightarrow> table_policy \<Rightarrow> (string \<Rightarrow> pass_io) \<Rightarrow> (string \<Rightarrow> pass_io) \<Rightarrow> member list
    \<Rightarrow> refusal + scanned_facts" where
  "scan_facts env sa p io1 io2 ms =
     (case (case checked p of Inl e \<Rightarrow> Inl e | Inr p' \<Rightarrow>
         if po_mode p' = content_census_v1 then sa_census sa p' else scan_tables env sa p' io1 io2 ms) of
        Inl e \<Rightarrow> Inl (if po_mode p = '''' \<and> e = SummaryBudget then ResourceLimit else e)
      | Inr f \<Rightarrow> Inr f)"

record table_probe =
  pr_objects :: int
  pr_class :: string
  pr_tokens :: int

definition schema_tokens :: "scanned_facts \<Rightarrow> int" where
  "schema_tokens f = max 1 ((512 + sum_list (map (\<lambda>o'. 512 + sum_list (map (\<lambda>n. int (length n) * 6 + 768) (to_names o'))) (tf_objects f)) + 2) div 3)"

fun total_size :: "int \<Rightarrow> member list \<Rightarrow> int option" where
  "total_size n [] = Some n"
| "total_size n (m # ms) = (if mb_size m > max_int64 - n then None else total_size (n + mb_size m) ms)"

definition probe_tables :: "table_env \<Rightarrow> scan_args \<Rightarrow> table_policy \<Rightarrow> (string \<Rightarrow> pass_io) \<Rightarrow> (string \<Rightarrow> pass_io) \<Rightarrow> member list
    \<Rightarrow> refusal + table_probe" where
  "probe_tables env sa p0 io1 io2 ms =
     (let p = (if po_mode p0 = '''' then p0\<lparr>po_mode := ''table_v1''\<rparr> else p0) in
      case scan_facts env sa p io1 io2 ms of Inl e \<Rightarrow> Inl e
      | Inr f \<Rightarrow>
        (case summary_text f of None \<Rightarrow> Inl Unsupported
         | Some raw \<Rightarrow>
           if (int (length raw) + 2) div 3 > 8192 then Inl SummaryBudget
           else (case total_size 0 ms of None \<Rightarrow> Inl ResourceLimit
             | Some n \<Rightarrow>
               if schema_tokens f > 8192 then Inl SummaryBudget
               else Inr \<lparr>pr_objects = tf_discovered f,
                 pr_class = (if n < 10000000 then ''small'' else if n < 100000000 then ''medium'' else ''large''),
                 pr_tokens = schema_tokens f\<rparr>)))"

end
