(* ===== verification/Wire.thy ===== *)
theory Wire
  imports Json WireTypes
begin

text \<open>
  internal/wire/wire.go: unpadded URL base64, compact JWS signatures and the verification of
  permissions, instructions and gateway answers. The Ed25519 functions and the decoders of encoding/json into the Go
  structs are arguments.
\<close>

subsection \<open>Unpadded URL base64\<close>

definition b64_alphabet :: string where
  "b64_alphabet = ''ABCDEFGHIJKLMNOPQRSTUVWXYZabcdefghijklmnopqrstuvwxyz0123456789-_''"

definition b64_char :: "nat \<Rightarrow> char" where
  "b64_char n = b64_alphabet ! n"

definition b64_val :: "char \<Rightarrow> nat option" where
  "b64_val c = (let n = length (takeWhile (\<lambda>d. d \<noteq> c) b64_alphabet) in if n < 64 then Some n else None)"

fun b64_encode_nats :: "nat list \<Rightarrow> string" where
  "b64_encode_nats [] = []"
| "b64_encode_nats [a] = [b64_char (a div 4), b64_char (a mod 4 * 16)]"
| "b64_encode_nats [a, b] = [b64_char (a div 4), b64_char (a mod 4 * 16 + b div 16), b64_char (b mod 16 * 4)]"
| "b64_encode_nats (a # b # c # r) = b64_char (a div 4) # b64_char (a mod 4 * 16 + b div 16)
     # b64_char (b mod 16 * 4 + c div 64) # b64_char (c mod 64) # b64_encode_nats r"

definition b64_encode :: "bytes \<Rightarrow> string" where
  "b64_encode s = b64_encode_nats (map of_char s)"

fun b64_decode_vals :: "nat list \<Rightarrow> nat list option" where
  "b64_decode_vals [] = Some []"
| "b64_decode_vals [x] = None"
| "b64_decode_vals [x, y] = Some [x * 4 + y div 16]"
| "b64_decode_vals [x, y, z] = Some [x * 4 + y div 16, y mod 16 * 16 + z div 4]"
| "b64_decode_vals (x # y # z # w # r) =
     (case b64_decode_vals r of None \<Rightarrow> None
      | Some t \<Rightarrow> Some ((x * 4 + y div 16) # (y mod 16 * 16 + z div 4) # (z mod 4 * 64 + w) # t))"

text \<open>The decoder skips carriage returns and newlines and ignores the unused low bits.\<close>

definition b64_decode :: "string \<Rightarrow> bytes option" where
  "b64_decode s =
     (let cs = filter (\<lambda>c. c \<noteq> CHR 0x0D \<and> c \<noteq> CHR 0x0A) s; vs = map b64_val cs in
      if None \<in> set vs then None
      else map_option (map char_of) (b64_decode_vals (map the vs)))"

subsection \<open>Signing and verifying\<close>

record jws_header =
  hd_alg :: string
  hd_typ :: string
  hd_kid :: string

text \<open>The environment: Ed25519 and the strict decoders.\<close>

record 'k crypto =
  cr_sign :: "'k \<Rightarrow> string \<Rightarrow> bytes"
  cr_private_ok :: "'k \<Rightarrow> bool"
  cr_verify :: "bytes \<Rightarrow> string \<Rightarrow> bytes \<Rightarrow> bool"

record decoders =
  dc_header :: "bytes \<Rightarrow> gw_error + jws_header"
  dc_fields :: "bytes \<Rightarrow> gw_error + (string \<times> string) list"
  dc_permission :: "bytes \<Rightarrow> gw_error + permission"
  dc_instruction :: "bytes \<Rightarrow> gw_error + instruction"

definition header_json :: "jws_header \<Rightarrow> json" where
  "header_json h = JObj [(''alg'', JStr (hd_alg h)), (''typ'', JStr (hd_typ h)), (''kid'', JStr (hd_kid h))]"

definition sign_token :: "'k crypto \<Rightarrow> string \<Rightarrow> string \<Rightarrow> json \<Rightarrow> 'k \<Rightarrow> gw_error + string" where
  "sign_token cr typ kid claims private =
     (if \<not> cr_private_ok cr private then Inl (ErrMsg ''invalid private key'')
      else let h = canonical (header_json \<lparr>hd_alg = ''EdDSA'', hd_typ = typ, hd_kid = kid\<rparr>);
               input = b64_encode h @ CHR ''.'' # b64_encode (canonical claims) in
        Inr (input @ CHR ''.'' # b64_encode (cr_sign cr private input)))"

definition b64_res :: "string \<Rightarrow> gw_error + bytes" where
  "b64_res s = (case b64_decode s of None \<Rightarrow> Inl (ErrMsg ''illegal base64 data'') | Some b \<Rightarrow> Inr b)"

definition key_of :: "(string \<times> bytes) list \<Rightarrow> string \<Rightarrow> bytes" where
  "key_of keys kid = (case map_of keys kid of None \<Rightarrow> [] | Some k \<Rightarrow> k)"

text \<open>Verify up to the payload bytes; the caller decodes them strictly.\<close>

definition verify_payload :: "'k crypto \<Rightarrow> decoders \<Rightarrow> string \<Rightarrow> string \<Rightarrow> (string \<times> bytes) list
    \<Rightarrow> gw_error + bytes" where
  "verify_payload cr dc token typ keys =
     (case split_on CHR ''.'' token of
        [p0, p1, p2] \<Rightarrow>
          bind_res (b64_res p0) (\<lambda>h.
          bind_res (dc_header dc h) (\<lambda>header.
            if hd_alg header \<noteq> ''EdDSA'' \<or> hd_typ header \<noteq> typ then Inl (ErrMsg ''wrong JWS algorithm or type'')
            else let key = key_of keys (hd_kid header) in
              if length key \<noteq> 32 then Inl (ErrMsg ''unknown kid'')
              else bind_res (b64_res p2) (\<lambda>sig.
                if \<not> cr_verify cr key (p0 @ CHR ''.'' # p1) sig then Inl (ErrMsg ''invalid signature'')
                else b64_res p1)))
      | _ \<Rightarrow> Inl (ErrMsg ''invalid compact JWS''))"

definition verify_token :: "'k crypto \<Rightarrow> decoders \<Rightarrow> (bytes \<Rightarrow> gw_error + 'a) \<Rightarrow> string \<Rightarrow> string
    \<Rightarrow> (string \<times> bytes) list \<Rightarrow> gw_error + 'a" where
  "verify_token cr dc dec token typ keys = bind_res (verify_payload cr dc token typ keys) dec"

subsection \<open>Field syntax\<close>

definition lower_hex :: "nat \<Rightarrow> string \<Rightarrow> bool" where
  "lower_hex n s \<longleftrightarrow> length s = n \<and> list_all is_lower_hex s"

definition valid_uuid :: "string \<Rightarrow> bool" where
  "valid_uuid s \<longleftrightarrow> (case split_on CHR ''-'' s of
      [a, b, c, d, e] \<Rightarrow> lower_hex 8 a \<and> lower_hex 4 b \<and> lower_hex 4 c \<and> lower_hex 4 d \<and> lower_hex 12 e
    | _ \<Rightarrow> False)"

definition revoke_states :: "string list" where
  "revoke_states = [''active'', ''expired'', ''closed'', ''unknown'']"

definition refusal_codes :: "string list" where
  "refusal_codes = [''not_offered'', ''outside_ceiling'', ''awaiting_local_approval'', ''file_changed'',
     ''file_missing'', ''coverage_exhausted'', ''complete'']"

definition receipt_outcomes :: "string list" where
  "receipt_outcomes = [''in_progress'', ''complete'', ''aborted_block_mismatch'', ''aborted_deadline'']"

definition valid_readiness :: "bool \<Rightarrow> string option \<Rightarrow> bool" where
  "valid_readiness ready refusal = (if ready then refusal = None
     else (case refusal of None \<Rightarrow> False | Some r \<Rightarrow> r \<in> set refusal_codes))"

text \<open>required: each named claim is present, and not null unless it is the refusal.\<close>

definition has_claim :: "(string \<times> string) list \<Rightarrow> string \<Rightarrow> bool" where
  "has_claim fs name \<longleftrightarrow> (case map_of fs name of None \<Rightarrow> False
     | Some v \<Rightarrow> v \<noteq> ''null'' \<or> name = ''refusal'')"

definition required_claims :: "decoders \<Rightarrow> string \<Rightarrow> string list \<Rightarrow> gw_error + unit" where
  "required_claims dc token names =
     (case split_on CHR ''.'' token of
        [p0, p1, p2] \<Rightarrow>
          bind_res (b64_res p1) (\<lambda>p. bind_res (dc_fields dc p) (\<lambda>fs.
            if list_all (has_claim fs) names then Inr () else Inl (ErrMsg ''missing claim'')))
      | _ \<Rightarrow> Inl (ErrMsg ''invalid compact JWS''))"

definition check :: "bool \<Rightarrow> string \<Rightarrow> gw_error + unit" where
  "check ok msg = (if ok then Inr () else Inl (ErrMsg msg))"

subsection \<open>Permissions\<close>

definition permission_claims_ok :: "permission \<Rightarrow> bool" where
  "permission_claims_ok p \<longleftrightarrow> valid_uuid (p_aud p) \<and> valid_uuid (p_oid p) \<and> valid_uuid (p_lvid p)
     \<and> lower_hex 32 (p_fid p) \<and> lower_hex 64 (p_sha p) \<and> valid_uuid (p_jti p)
     \<and> \<not> (p_iat p \<le> 0 \<or> p_sd p \<le> p_iat p \<or> p_td p < p_sd p \<or> p_ro p < 0)"

definition permission_names :: "string list" where
  "permission_names = [''aud'', ''oid'', ''lvid'', ''fid'', ''sha256'', ''jti'', ''iat'', ''sd'', ''td'', ''ro'']"

definition verify_permission :: "'k crypto \<Rightarrow> decoders \<Rightarrow> string \<Rightarrow> (string \<times> bytes) list
    \<Rightarrow> gw_error + permission" where
  "verify_permission cr dc token keys =
     bind_res (verify_token cr dc (dc_permission dc) token ''aim-permission+jwt'' keys) (\<lambda>p.
     bind_res (required_claims dc token permission_names) (\<lambda>_.
     bind_res (check (permission_claims_ok p) ''invalid permission claims'') (\<lambda>_. Inr p)))"

subsection \<open>Instructions\<close>

definition kind :: "instruction \<Rightarrow> gw_error + (string \<times> string)" where
  "kind i =
     (if i_op i = ''offer'' \<or> i_op i = ''unoffer'' then Inr (''aim-offer+jwt'', ''listing'')
      else if i_op i = ''describe'' then Inr (''aim-describe+jwt'', ''listing'')
      else if i_op i = ''revoke'' then Inr (''aim-revoke+jwt'', ''permission'')
      else if i_op i = ''prepare'' then Inr (''aim-prepare+jwt'', ''permission'')
      else if i_op i = ''key_rotation'' then Inr (''aim-keys+jwt'', ''outgoing'')
      else if i_op i = ''minimum_version'' then Inr (''aim-minver+jwt'', ''listing'')
      else Inl (ErrMsg ''unknown instruction''))"

definition rotation_key_ok :: "wire_key \<Rightarrow> bool" where
  "rotation_key_ok k \<longleftrightarrow> k_kid k \<noteq> '''' \<and> k_alg k = ''EdDSA''
     \<and> (case b64_decode (k_key k) of None \<Rightarrow> False | Some raw \<Rightarrow> length raw = 32)"

text \<open>The claims that belong to each operation, and their syntax.\<close>

definition op_claims :: "instruction \<Rightarrow> gw_error + string list" where
  "op_claims i =
     (if i_op i = ''offer'' \<or> i_op i = ''unoffer'' then
        bind_res (check (lower_hex 32 (i_fid i) \<and> lower_hex 64 (i_sha i) \<and> valid_uuid (i_lvid i)) ''invalid offer claims'')
          (\<lambda>_. Inr [''fid'', ''sha256'', ''lvid''])
      else if i_op i = ''describe'' then
        bind_res (check (lower_hex 32 (i_fid i) \<and> valid_uuid (i_cid i) \<and> i_exp i = i_iat i + 900) ''invalid describe claims'')
          (\<lambda>_. Inr [''fid'', ''cid'', ''exp''])
      else if i_op i = ''revoke'' then
        bind_res (check (valid_uuid (i_jti i)) ''invalid revoke claims'') (\<lambda>_. Inr [''jti''])
      else if i_op i = ''prepare'' then
        bind_res (check (valid_uuid (i_oid i) \<and> lower_hex 32 (i_fid i) \<and> lower_hex 64 (i_sha i)) ''invalid prepare claims'')
          (\<lambda>_. Inr [''oid'', ''fid'', ''sha256''])
      else if i_op i = ''key_rotation'' then
        bind_res (check (i_keys i \<noteq> []) ''missing keys'')
          (\<lambda>_. bind_res (check (list_all rotation_key_ok (i_keys i)) ''invalid rotation key'') (\<lambda>_. Inr [''keys'']))
      else if i_op i = ''minimum_version'' then
        bind_res (check (i_version i \<noteq> '''') ''missing version'') (\<lambda>_. Inr [''version''])
      else Inr [])"

definition base_claims :: "string list" where
  "base_claims = [''op'', ''aud'', ''iid'', ''iat'']"

definition verify_instruction :: "'k crypto \<Rightarrow> decoders \<Rightarrow> int \<Rightarrow> string \<Rightarrow> (string \<times> bytes) list
    \<Rightarrow> gw_error + instruction" where
  "verify_instruction cr dc now token keys =
     (case split_on CHR ''.'' token of
        [p0, p1, p2] \<Rightarrow>
          bind_res (b64_res p1) (\<lambda>p.
          bind_res (dc_instruction dc p) (\<lambda>i0.
          bind_res (kind i0) (\<lambda>(typ, _).
          bind_res (verify_token cr dc (dc_instruction dc) token typ keys) (\<lambda>i.
          bind_res (required_claims dc token base_claims) (\<lambda>_.
          bind_res (check (valid_uuid (i_aud i) \<and> valid_uuid (i_iid i) \<and> \<not> i_iat i \<le> 0) ''invalid instruction claims'') (\<lambda>_.
          bind_res (check (\<not> (i_exp i \<noteq> 0 \<and> i_exp i \<le> now)) ''expired instruction'') (\<lambda>_.
          bind_res (op_claims i) (\<lambda>extra.
          bind_res (required_claims dc token extra) (\<lambda>_.
          bind_res (dc_fields dc p) (\<lambda>claims.
          bind_res (check (set (map fst claims) \<subseteq> set (base_claims @ extra)) ''inapplicable instruction claim'') (\<lambda>_.
            Inr i)))))))))))
      | _ \<Rightarrow> Inl (ErrMsg ''invalid compact JWS''))"

subsection \<open>Gateway answers\<close>

record hello =
  he_gid :: string
  he_nonce :: string
  he_version :: string
  he_ts :: string

record column =
  co_name :: string
  co_type :: string
  co_null_rate :: "int option"
  co_distinct :: string

record description =
  de_fid :: string
  de_sha :: string
  de_rows :: int
  de_columns :: "column list option"

record canary_result =
  ca_state :: string
  ca_dns :: string
  ca_tcp :: string
  ca_proxy :: string
  ca_label :: string
  ca_at :: string

text \<open>One file of an inventory batch; a zero time is the empty string.\<close>

record inventory_file =
  if_fid :: string
  if_commitment :: string
  if_name :: string
  if_media :: string
  if_first_seen :: string
  if_changed_at :: string

text \<open>The decoded answer, by the Go type the caller passes; a nil slice is None.\<close>

datatype answer =
    AnsRevoke revoke_ack
  | AnsPrepare prepare_ack
  | AnsReceipt receipt
  | AnsHello hello
  | AnsInventory "inventory_file list option"
  | AnsDescription description
  | AnsFailure string string
  | AnsCanary canary_result
  | AnsOffer offer_ack
  | AnsError string string

definition inventory_file_ok :: "inventory_file \<Rightarrow> bool" where
  "inventory_file_ok f \<longleftrightarrow> lower_hex 32 (if_fid f) \<and> lower_hex 64 (if_commitment f) \<and> if_name f \<noteq> ''''
     \<and> if_media f \<noteq> '''' \<and> if_first_seen f \<noteq> '''' \<and> if_changed_at f \<noteq> ''''"

text \<open>The value check and the claims required, for an answer name and a decoded value.\<close>

definition answer_check :: "string \<Rightarrow> answer \<Rightarrow> gw_error + string list" where
  "answer_check name a =
     (if name = ''revoke_ack'' then (case a of
          AnsRevoke v \<Rightarrow> bind_res (check (ra_op v = name \<and> valid_uuid (ra_jti v)
              \<and> ra_state_before v \<in> set revoke_states) ''invalid revoke ack'')
            (\<lambda>_. Inr [''op'', ''jti'', ''state_before''])
        | _ \<Rightarrow> Inl (ErrMsg ''invalid revoke ack''))
      else if name = ''prepare_ack'' then (case a of
          AnsPrepare v \<Rightarrow> bind_res (check (pa_op v = name \<and> valid_uuid (pa_iid v) \<and> valid_uuid (pa_oid v)
              \<and> lower_hex 32 (pa_fid v) \<and> valid_readiness (pa_ready v) (pa_refusal v)) ''invalid prepare ack'')
            (\<lambda>_. Inr [''op'', ''iid'', ''oid'', ''fid'', ''ready'', ''refusal'', ''resume_offset'',
              ''transmitted_bytes'', ''interval_count'', ''max_serve_count''])
        | _ \<Rightarrow> Inl (ErrMsg ''invalid prepare ack''))
      else if name = ''receipt'' then (case a of
          AnsReceipt v \<Rightarrow> bind_res (check (rc_op v = name \<and> valid_uuid (rc_oid v) \<and> lower_hex 32 (rc_fid v)
              \<and> lower_hex 64 (rc_sha v) \<and> rc_outcome v \<in> set receipt_outcomes) ''invalid receipt'')
            (\<lambda>_. Inr [''op'', ''oid'', ''fid'', ''sha256'', ''size_bytes'', ''jtis'', ''transmitted'',
              ''transmitted_bytes'', ''max_serves_reached_bytes'', ''outcome'', ''blocks_verified'',
              ''first_byte_at'', ''last_byte_at'', ''seq''])
        | _ \<Rightarrow> Inl (ErrMsg ''invalid receipt''))
      else if name = ''hello'' then (case a of
          AnsHello v \<Rightarrow> bind_res (check (valid_uuid (he_gid v) \<and> he_nonce v \<noteq> '''' \<and> he_version v \<noteq> ''''
              \<and> he_ts v \<noteq> '''') ''invalid hello'')
            (\<lambda>_. Inr [''gid'', ''nonce'', ''version'', ''ts''])
        | _ \<Rightarrow> Inl (ErrMsg ''invalid hello''))
      else if name = ''inventory'' then (case a of
          AnsInventory fs \<Rightarrow> (case fs of None \<Rightarrow> Inl (ErrMsg ''invalid inventory'')
            | Some xs \<Rightarrow> bind_res (check (list_all inventory_file_ok xs) ''invalid inventory file'')
                (\<lambda>_. Inr [''generation'', ''files'']))
        | _ \<Rightarrow> Inl (ErrMsg ''invalid inventory''))
      else if name = ''description'' then (case a of
          AnsFailure fid code \<Rightarrow> bind_res (check (lower_hex 32 fid
              \<and> code \<in> {''unsupported_format'', ''read_error'', ''gateway_timeout''}) ''invalid description failure'')
            (\<lambda>_. Inr [''file_id'', ''failure_code''])
        | AnsDescription v \<Rightarrow> bind_res (check (lower_hex 32 (de_fid v) \<and> lower_hex 64 (de_sha v)
              \<and> de_columns v \<noteq> None) ''invalid description'')
            (\<lambda>_. Inr [''file_id'', ''sha256'', ''row_count'', ''columns''])
        | _ \<Rightarrow> Inl (ErrMsg ''invalid description''))
      else if name = ''canary_result'' then (case a of
          AnsCanary v \<Rightarrow> bind_res (check (ca_state v \<noteq> '''' \<and> ca_dns v \<noteq> '''' \<and> ca_tcp v \<noteq> ''''
              \<and> ca_proxy v \<noteq> '''' \<and> ca_label v \<noteq> '''' \<and> ca_at v \<noteq> '''') ''invalid canary result'')
            (\<lambda>_. Inr [''state'', ''dns'', ''tcp'', ''proxy'', ''label'', ''at''])
        | _ \<Rightarrow> Inl (ErrMsg ''invalid canary result''))
      else if name = ''offer_ack'' then (case a of
          AnsOffer v \<Rightarrow> bind_res (check (valid_uuid (oa_iid v) \<and> lower_hex 32 (oa_fid v)
              \<and> valid_readiness (oa_ready v) (oa_refusal v)) ''invalid offer ack'')
            (\<lambda>_. Inr [''iid'', ''fid'', ''ready'', ''refusal''])
        | _ \<Rightarrow> Inl (ErrMsg ''invalid offer ack''))
      else if name = ''error'' then (case a of
          AnsError code msg \<Rightarrow> bind_res (check (code \<noteq> '''' \<and> msg \<noteq> '''') ''invalid gateway error'')
            (\<lambda>_. Inr [''code'', ''message''])
        | _ \<Rightarrow> Inl (ErrMsg ''invalid gateway error''))
      else Inl (ErrMsg ''unknown gateway answer''))"

definition verify_gateway_answer :: "'k crypto \<Rightarrow> decoders \<Rightarrow> (bytes \<Rightarrow> gw_error + answer) \<Rightarrow> string \<Rightarrow> string
    \<Rightarrow> (string \<times> bytes) list \<Rightarrow> gw_error + answer" where
  "verify_gateway_answer cr dc dec token name keys =
     bind_res (verify_token cr dc dec token (''aim-'' @ name @ ''+jwt'') keys) (\<lambda>a.
     bind_res (answer_check name a) (\<lambda>names.
     bind_res (required_claims dc token names) (\<lambda>_. Inr a)))"

subsection \<open>Base64 round trip\<close>

lemma b64_val_char: "n < 64 \<Longrightarrow> b64_val (b64_char n) = Some n"
proof -
  have "list_all (\<lambda>n. b64_val (b64_char n) = Some n) [0..<64]" by code_simp
  then show "n < 64 \<Longrightarrow> ?thesis" by (simp add: list_all_iff)
qed

lemma b64_char_plain: "n < 64 \<Longrightarrow> b64_char n \<noteq> CHR 0x0D \<and> b64_char n \<noteq> CHR 0x0A \<and> b64_char n \<noteq> CHR ''.''"
proof -
  have "list_all (\<lambda>n. b64_char n \<noteq> CHR 0x0D \<and> b64_char n \<noteq> CHR 0x0A \<and> b64_char n \<noteq> CHR ''.'') [0..<64]" by code_simp
  then show "n < 64 \<Longrightarrow> ?thesis" by (simp add: list_all_iff)
qed

definition b64_nats :: "nat list \<Rightarrow> nat list" where
  "b64_nats ns = map (\<lambda>c. the (b64_val c)) (b64_encode_nats ns)"

lemma b64_encode_nats_chars:
  "\<forall>n \<in> set ns. n < 256 \<Longrightarrow> \<forall>c \<in> set (b64_encode_nats ns). \<exists>n < 64. c = b64_char n"
proof (induction ns rule: b64_encode_nats.induct)
  case (2 a)
  then show ?case by (auto intro!: exI)
next
  case (3 a b)
  then show ?case by (auto intro!: exI)
next
  case (4 a b c r)
  then have "\<forall>c \<in> set (b64_encode_nats r). \<exists>n < 64. c = b64_char n" by simp
  moreover have "a div 4 < 64" "a mod 4 * 16 + b div 16 < 64" "b mod 16 * 4 + c div 64 < 64" "c mod 64 < 64"
    using 4(2) by (auto intro: less_mult_imp_div_less)
  ultimately show ?case by (auto intro: exI [of _ "c mod 64"])
qed simp

lemma b64_arith:
  assumes "(a :: nat) < 256" "b < 256" "c < 256"
  shows "a div 4 < 64" "a mod 4 * 16 + b div 16 < 64" "b mod 16 * 4 + c div 64 < 64" "c mod 64 < 64"
    "a div 4 * 4 + (a mod 4 * 16 + b div 16) div 16 = a"
    "(a mod 4 * 16 + b div 16) mod 16 * 16 + (b mod 16 * 4 + c div 64) div 4 = b"
    "(b mod 16 * 4 + c div 64) mod 4 * 64 + c mod 64 = c"
    "a mod 4 * 16 < 64" "b mod 16 * 4 < 64" "a div 4 * 4 + a mod 4 * 16 div 16 = a"
    "(a mod 4 * 16 + b div 16) mod 16 * 16 + b mod 16 * 4 div 4 = b"
proof -
  have q: "b div 16 < 16" "c div 64 < 4" using assms by auto
  have d: "(x * 16 + y) div 16 = x" "(x * 16 + y) mod 16 = y" if "y < 16" for x y :: nat
    using that by simp_all
  have e: "(x * 4 + y) div 4 = x" "(x * 4 + y) mod 4 = y" if "y < 4" for x y :: nat
    using that by simp_all
  show "a div 4 < 64" "c mod 64 < 64" using assms by auto
  have m: "a mod 4 \<le> 3" "b mod 16 \<le> 15" using mod_less_divisor [of 4 a] mod_less_divisor [of 16 b] by linarith+
  show "a mod 4 * 16 + b div 16 < 64" "b mod 16 * 4 + c div 64 < 64" "a mod 4 * 16 < 64" "b mod 16 * 4 < 64"
    using m q by linarith+
  show "a div 4 * 4 + (a mod 4 * 16 + b div 16) div 16 = a" using q d by simp
  show "(a mod 4 * 16 + b div 16) mod 16 * 16 + (b mod 16 * 4 + c div 64) div 4 = b" using q d e by simp
  show "(b mod 16 * 4 + c div 64) mod 4 * 64 + c mod 64 = c" using q e by simp
  show "a div 4 * 4 + a mod 4 * 16 div 16 = a" by simp
  show "(a mod 4 * 16 + b div 16) mod 16 * 16 + b mod 16 * 4 div 4 = b" using q d by simp
qed

lemma b64_decode_encode_nats:
  "\<forall>n \<in> set ns. n < 256 \<Longrightarrow> b64_decode_vals (map (\<lambda>c. the (b64_val c)) (b64_encode_nats ns)) = Some ns"
proof (induction ns rule: b64_encode_nats.induct)
  case (2 a)
  then show ?case using b64_arith [of a 0 0] by (simp add: b64_val_char)
next
  case (3 a b)
  then show ?case using b64_arith [of a b 0] by (simp add: b64_val_char)
next
  case (4 a b c r)
  then show ?case using b64_arith [of a b c] by (simp add: b64_val_char)
qed simp

lemma b64_encode_props:
  "CHR ''.'' \<notin> set (b64_encode s)" "b64_decode (b64_encode s) = Some s"
proof -
  have b: "\<forall>n \<in> set (map of_char s). n < (256 :: nat)" by auto
  note cs = b64_encode_nats_chars [OF b]
  show "CHR ''.'' \<notin> set (b64_encode s)"
    using cs b64_char_plain unfolding b64_encode_def by fastforce
  have filt: "filter (\<lambda>c. c \<noteq> CHR 0x0D \<and> c \<noteq> CHR 0x0A) (b64_encode s) = b64_encode s"
    using cs b64_char_plain unfolding b64_encode_def by (intro filter_True) fastforce
  have "None \<notin> set (map b64_val (b64_encode s))"
    using cs b64_val_char unfolding b64_encode_def by fastforce
  moreover have "b64_decode_vals (map the (map b64_val (b64_encode s))) = Some (map of_char s)"
    using b64_decode_encode_nats [OF b] by (simp add: b64_encode_def comp_def)
  ultimately show "b64_decode (b64_encode s) = Some s"
    unfolding b64_decode_def Let_def filt by (simp add: comp_def)
qed

subsection \<open>Signatures\<close>

lemma split_token: "CHR ''.'' \<notin> set a \<Longrightarrow> CHR ''.'' \<notin> set b \<Longrightarrow> CHR ''.'' \<notin> set c
    \<Longrightarrow> split_on CHR ''.'' (a @ CHR ''.'' # b @ CHR ''.'' # c) = [a, b, c]"
proof -
  have single: "d \<notin> set x \<Longrightarrow> split_on d x = [x]" for d and x :: string by (induction x) auto
  have app: "d \<notin> set x \<Longrightarrow> split_on d (x @ d # y) = x # split_on d y" for d and x y :: string
    by (induction x) auto
  assume "CHR ''.'' \<notin> set a" "CHR ''.'' \<notin> set b" "CHR ''.'' \<notin> set c"
  then show ?thesis by (simp add: app single)
qed

text \<open>C19: What Sign produces, Verify accepts under the signer's key and gives back the same
  payload bytes, for the type it was signed as and for no other.\<close>

theorem sign_verify:
  assumes "sign_token cr typ kid claims private = Inr token"
    and "\<And>msg. cr_verify cr public msg (cr_sign cr private msg)" and "length public = 32"
    and "map_of keys kid = Some public"
    and "dc_header dc (canonical (header_json \<lparr>hd_alg = ''EdDSA'', hd_typ = typ, hd_kid = kid\<rparr>))
      = Inr \<lparr>hd_alg = ''EdDSA'', hd_typ = typ, hd_kid = kid\<rparr>"
  shows "verify_payload cr dc token typ keys = Inr (canonical claims)
    \<and> (\<forall>other. other \<noteq> typ \<longrightarrow> verify_payload cr dc token other keys = Inl (ErrMsg ''wrong JWS algorithm or type''))"
proof -
  let ?h = "canonical (header_json \<lparr>hd_alg = ''EdDSA'', hd_typ = typ, hd_kid = kid\<rparr>)"
  let ?in = "b64_encode ?h @ CHR ''.'' # b64_encode (canonical claims)"
  have t: "token = b64_encode ?h @ CHR ''.'' # b64_encode (canonical claims)
      @ CHR ''.'' # b64_encode (cr_sign cr private ?in)"
    using assms(1) by (simp add: sign_token_def Let_def split: if_splits)
  have sp: "split_on CHR ''.'' token = [b64_encode ?h, b64_encode (canonical claims), b64_encode (cr_sign cr private ?in)]"
    unfolding t by (intro split_token b64_encode_props(1))
  have b: "b64_res (b64_encode x) = Inr x" for x by (simp add: b64_res_def b64_encode_props(2))
  show ?thesis
    unfolding verify_payload_def sp using assms(2-5) by (simp add: b key_of_def Let_def)
qed

text \<open>A concrete environment for the witnesses: the signature repeats the message, and the
  decoders know the documents used below.\<close>

definition toy_crypto :: "unit crypto" where
  "toy_crypto = \<lparr>cr_sign = (\<lambda>_ m. m), cr_private_ok = (\<lambda>_. True), cr_verify = (\<lambda>_ m s. m = s)\<rparr>"

definition toy_key :: bytes where
  "toy_key = replicate 32 CHR ''k''"

definition toy_uuid :: string where
  "toy_uuid = ''00000000-0000-0000-0000-000000000000''"

definition toy_permission :: permission where
  "toy_permission = \<lparr>p_aud = toy_uuid, p_oid = toy_uuid, p_lvid = toy_uuid, p_fid = replicate 32 CHR ''0'',
     p_sha = replicate 64 CHR ''0'', p_jti = toy_uuid, p_iat = 1, p_sd = 2, p_td = 3, p_ro = 0\<rparr>"

definition toy_instruction :: instruction where
  "toy_instruction = \<lparr>i_op = ''revoke'', i_aud = toy_uuid, i_iid = toy_uuid, i_iat = 1, i_fid = '''', i_sha = '''',
     i_lvid = '''', i_cid = '''', i_exp = 0, i_jti = toy_uuid, i_oid = '''', i_keys = [], i_version = ''''\<rparr>"

definition toy_claims :: json where
  "toy_claims = JObj [(''ro'', JNum ''0'')]"

definition toy_revoke_claims :: json where
  "toy_revoke_claims = JObj [(''op'', JStr ''revoke'')]"

definition toy_decoders :: decoders where
  "toy_decoders = \<lparr>dc_header = (\<lambda>h.
       if h = canonical (header_json \<lparr>hd_alg = ''EdDSA'', hd_typ = ''aim-permission+jwt'', hd_kid = ''k''\<rparr>)
       then Inr \<lparr>hd_alg = ''EdDSA'', hd_typ = ''aim-permission+jwt'', hd_kid = ''k''\<rparr>
       else Inr \<lparr>hd_alg = ''EdDSA'', hd_typ = ''aim-revoke+jwt'', hd_kid = ''k''\<rparr>),
     dc_fields = (\<lambda>p. Inr (map (\<lambda>n. (n, ''1'')) (if p = canonical toy_claims then permission_names
       else [''op'', ''aud'', ''iid'', ''iat'', ''jti'']))),
     dc_permission = (\<lambda>p. Inr toy_permission), dc_instruction = (\<lambda>p. Inr toy_instruction)\<rparr>"

definition toy_token :: string where
  "toy_token = projr (sign_token toy_crypto ''aim-permission+jwt'' ''k'' toy_claims ())"

lemma toy_signed: "sign_token toy_crypto ''aim-permission+jwt'' ''k'' toy_claims () = Inr toy_token"
  by (simp add: toy_token_def sign_token_def toy_crypto_def Let_def)

theorem sign_verify_witness:
  "verify_payload toy_crypto toy_decoders toy_token ''aim-permission+jwt'' [(''k'', toy_key)] = Inr (canonical toy_claims)"
proof -
  have v: "cr_verify toy_crypto toy_key msg (cr_sign toy_crypto () msg)" for msg by (simp add: toy_crypto_def)
  have l: "length toy_key = 32" by (simp add: toy_key_def)
  have h: "dc_header toy_decoders (canonical (header_json \<lparr>hd_alg = ''EdDSA'', hd_typ = ''aim-permission+jwt'', hd_kid = ''k''\<rparr>))
      = Inr \<lparr>hd_alg = ''EdDSA'', hd_typ = ''aim-permission+jwt'', hd_kid = ''k''\<rparr>"
    by (simp add: toy_decoders_def)
  have k: "map_of [(''k'', toy_key)] ''k'' = Some toy_key" by simp
  from sign_verify [OF toy_signed v l k h] show ?thesis by blast
qed

text \<open>What a verified payload rests on: three parts, EdDSA under the expected type, a known
  32-byte key and a signature over the first two parts as they were sent.\<close>

definition signed_by :: "'k crypto \<Rightarrow> decoders \<Rightarrow> string \<Rightarrow> string \<Rightarrow> (string \<times> bytes) list \<Rightarrow> bytes \<Rightarrow> bool" where
  "signed_by cr dc token typ keys payload \<longleftrightarrow> (\<exists>p0 p1 p2 h header sig.
     split_on CHR ''.'' token = [p0, p1, p2] \<and> b64_decode p0 = Some h \<and> dc_header dc h = Inr header
     \<and> hd_alg header = ''EdDSA'' \<and> hd_typ header = typ \<and> length (key_of keys (hd_kid header)) = 32
     \<and> b64_decode p2 = Some sig \<and> cr_verify cr (key_of keys (hd_kid header)) (p0 @ CHR ''.'' # p1) sig
     \<and> b64_decode p1 = Some payload)"

lemma verify_payload_Inr:
  "verify_payload cr dc token typ keys = Inr p \<longleftrightarrow> signed_by cr dc token typ keys p"
proof (cases "\<exists>p0 p1 p2. split_on CHR ''.'' token = [p0, p1, p2]")
  case True
  then obtain p0 p1 p2 where "split_on CHR ''.'' token = [p0, p1, p2]" by blast
  then show ?thesis
    by (auto simp: verify_payload_def signed_by_def bind_res_Inr b64_res_def Let_def split: option.splits if_splits)
next
  case False
  then have "verify_payload cr dc token typ keys = Inl (ErrMsg ''invalid compact JWS'')"
    by (simp add: verify_payload_def split: list.splits)
  with False show ?thesis by (auto simp: signed_by_def)
qed

lemma check_Inr [simp]: "check b m = Inr u \<longleftrightarrow> b"
  by (auto simp: check_def)



text \<open>What holds of an accepted instruction.\<close>

lemma verify_instructionD:
  assumes "verify_instruction cr dc now token keys = Inr i"
  shows "\<exists>payload ty cls extra fs. signed_by cr dc token ty keys payload
    \<and> dc_instruction dc payload = Inr i \<and> kind i = Inr (ty, cls)
    \<and> valid_uuid (i_aud i) \<and> valid_uuid (i_iid i) \<and> 0 < i_iat i \<and> (i_exp i = 0 \<or> now < i_exp i)
    \<and> op_claims i = Inr extra \<and> dc_fields dc payload = Inr fs
    \<and> list_all (has_claim fs) (base_claims @ extra) \<and> set (map fst fs) \<subseteq> set (base_claims @ extra)"
proof -
  obtain p0 p1 p2 where t: "split_on CHR ''.'' token = [p0, p1, p2]"
    using assms by (auto simp: verify_instruction_def split: list.splits)
  obtain p i0 ty cls extra fs where p: "b64_decode p1 = Some p" "dc_instruction dc p = Inr i0" "kind i0 = Inr (ty, cls)"
    and v: "verify_token cr dc (dc_instruction dc) token ty keys = Inr i"
    and r: "required_claims dc token base_claims = Inr ()" "required_claims dc token extra = Inr ()"
    and c: "valid_uuid (i_aud i) \<and> valid_uuid (i_iid i) \<and> \<not> i_iat i \<le> 0" "\<not> (i_exp i \<noteq> 0 \<and> i_exp i \<le> now)"
      "op_claims i = Inr extra" "dc_fields dc p = Inr fs" "set (map fst fs) \<subseteq> set (base_claims @ extra)"
    using assms t by (auto simp: verify_instruction_def bind_res_Inr b64_res_def split: option.splits)
  obtain payload where s: "verify_payload cr dc token ty keys = Inr payload" "dc_instruction dc payload = Inr i"
    using v by (auto simp: verify_token_def bind_res_Inr)
  then have sb: "signed_by cr dc token ty keys payload" using verify_payload_Inr by blast
  with t p(1) have same: "payload = p" by (auto simp: signed_by_def)
  with s(2) p(2) have "i0 = i" by simp
  have "list_all (has_claim fs) names" if "required_claims dc token names = Inr ()" for names
    using that t p(1) c(4) by (auto simp: required_claims_def bind_res_Inr b64_res_def split: if_splits)
  then have "list_all (has_claim fs) (base_claims @ extra)" using r by simp
  then show ?thesis using sb s(2) p(3) c \<open>i0 = i\<close> same by (intro exI conjI) auto
qed

text \<open>C22: An instruction is accepted only with a valid signature of the very type its own
  operation requires, so a signature for one operation never authorises another; it is
  not expired, and it carries the claims of its operation and no others.\<close>

theorem verify_instruction_sound:
  assumes "verify_instruction cr dc now token keys = Inr i"
  shows "\<exists>payload ty cls extra fs. signed_by cr dc token ty keys payload
    \<and> dc_instruction dc payload = Inr i \<and> kind i = Inr (ty, cls)
    \<and> valid_uuid (i_aud i) \<and> valid_uuid (i_iid i) \<and> 0 < i_iat i \<and> (i_exp i = 0 \<or> now < i_exp i)
    \<and> op_claims i = Inr extra \<and> dc_fields dc payload = Inr fs
    \<and> list_all (has_claim fs) (base_claims @ extra) \<and> set (map fst fs) \<subseteq> set (base_claims @ extra)"
  using assms by (rule verify_instructionD)

definition toy_revoke :: string where
  "toy_revoke = projr (sign_token toy_crypto ''aim-revoke+jwt'' ''k'' toy_revoke_claims ())"

theorem verify_instruction_sound_witness:
  "\<exists>payload ty. signed_by toy_crypto toy_decoders toy_revoke ty [(''k'', toy_key)] payload"
proof -
  have "verify_instruction toy_crypto toy_decoders 5 toy_revoke [(''k'', toy_key)] = Inr toy_instruction" by code_simp
  from verify_instruction_sound [OF this] show ?thesis by blast
qed

end
