(* ===== verification/Control.thy ===== *)
theory Control
  imports Wire PyJson "HOL-Library.AList"
begin

text \<open>
  internal/wire/verification.go, the control messages: documents in exact base64, closed
  objects, the strict verification of a control token, scan key rotation, key sets and the
  bootstrap of the scan keys. SHA-256, the lexer and the text of floats come in \<open>documents\<close>;
  the decoder of the claims is an argument. Every refusal is ErrVerification: None here.
\<close>

subsection \<open>Documents\<close>

definition identifier_char :: "char \<Rightarrow> bool" where
  "identifier_char c \<longleftrightarrow> (CHR ''A'' \<le> c \<and> c \<le> CHR ''Z'') \<or> (CHR ''a'' \<le> c \<and> c \<le> CHR ''z'') \<or> is_digit c
     \<or> c \<in> set ''_.-''"

definition is_identifier :: "string \<Rightarrow> bool" where
  "is_identifier s \<longleftrightarrow> 1 \<le> length s \<and> length s \<le> 128 \<and> list_all identifier_char s"

definition encoded_len :: "nat \<Rightarrow> nat" where
  "encoded_len n = (n * 8 + 5) div 6"

text \<open>DecodeDocument: base64 that is its own encoding, within the limit.\<close>

definition decode_document :: "string \<Rightarrow> nat \<Rightarrow> bytes option" where
  "decode_document s limit =
     (if length s > encoded_len limit then None
      else case b64_decode s of None \<Rightarrow> None
        | Some b \<Rightarrow> if length b > limit \<or> b64_encode b \<noteq> s then None else Some b)"

record documents =
  dm_lex :: "string \<Rightarrow> token list \<times> bool"
  dm_float :: "string \<Rightarrow> string option"
  dm_sha :: "bytes \<Rightarrow> string"

text \<open>A field that is present and not null.\<close>

definition field :: "(string \<times> json) list \<Rightarrow> string \<Rightarrow> json option" where
  "field m k = (case map_of m k of Some JNull \<Rightarrow> None | x \<Rightarrow> x)"

text \<open>closed: a canonical object with exactly these fields, none of them null.\<close>

definition closed_object :: "documents \<Rightarrow> string \<Rightarrow> string list \<Rightarrow> (string \<times> json) list option" where
  "closed_object dm raw names =
     (case parse_canonical (dm_lex dm) (dm_float dm) raw of
        Some (JObj m) \<Rightarrow> if length m = length names \<and> list_all (\<lambda>n. field m n \<noteq> None) names then Some m else None
      | _ \<Rightarrow> None)"

text \<open>The text of a field, empty when it is not a string.\<close>

definition text_field :: "(string \<times> json) list \<Rightarrow> string \<Rightarrow> string" where
  "text_field m k = (case map_of m k of Some (JStr s) \<Rightarrow> s | _ \<Rightarrow> '''')"

subsection \<open>Control tokens\<close>

text \<open>
  VerifyControl: size, shape, header and claims are checked byte for byte before the
  signature: both parts must be canonical in the fact encoding, the claims also in the
  encoding of the gateway.
\<close>

definition verify_control :: "'k crypto \<Rightarrow> decoders \<Rightarrow> documents \<Rightarrow> (bytes \<Rightarrow> gw_error + 'a) \<Rightarrow> string \<Rightarrow> string
    \<Rightarrow> string list \<Rightarrow> (string \<times> bytes) list \<Rightarrow> nat \<Rightarrow> (string \<times> 'a) option" where
  "verify_control cr dc dm dec token typ names keys limit =
     (if length token > limit then None
      else case split_on CHR ''.'' token of
        [p0, p1, p2] \<Rightarrow>
          (case decode_document p2 64 of None \<Rightarrow> None
           | Some sig \<Rightarrow>
             if length sig \<noteq> 64 then None
             else case decode_document p0 512 of None \<Rightarrow> None
             | Some h \<Rightarrow>
               (case closed_object dm h [''alg'', ''typ'', ''kid''] of None \<Rightarrow> None
                | Some m \<Rightarrow>
                  if \<not> is_identifier (text_field m ''kid'') then None
                  else case decode_document p1 limit of None \<Rightarrow> None
                  | Some raw \<Rightarrow>
                    (case closed_object dm raw names of None \<Rightarrow> None
                     | Some v \<Rightarrow>
                       if canonical (JObj v) \<noteq> raw then None
                       else case verify_token cr dc dec token typ keys of Inl _ \<Rightarrow> None
                         | Inr x \<Rightarrow> Some (text_field m ''kid'', x))))
      | _ \<Rightarrow> None)"

subsection \<open>Keys\<close>

text \<open>ValidateKeySet: all groups together have distinct names.\<close>

definition scan_key_ok :: "wire_key \<Rightarrow> bool" where
  "scan_key_ok k \<longleftrightarrow> (case decode_document (k_key k) 32 of None \<Rightarrow> False | Some b \<Rightarrow> length b = 32)
     \<and> k_alg k = ''EdDSA'' \<and> is_identifier (k_kid k)"

fun key_set_loop :: "wire_key list \<Rightarrow> string list \<Rightarrow> bool" where
  "key_set_loop [] seen = True"
| "key_set_loop (k # ks) seen = (if \<not> scan_key_ok k \<or> k_kid k \<in> set seen then False
     else key_set_loop ks (k_kid k # seen))"

definition validate_key_set :: "wire_key list list \<Rightarrow> bool" where
  "validate_key_set groups = key_set_loop (concat groups) []"

definition verify_scan_rotation :: "'k crypto \<Rightarrow> decoders \<Rightarrow> documents \<Rightarrow> string \<Rightarrow> (string \<times> bytes) list
    \<Rightarrow> instruction option" where
  "verify_scan_rotation cr dc dm token keys =
     (case verify_control cr dc dm (dc_instruction dc) token ''aim-keys+jwt'' [''op'', ''aud'', ''iid'', ''iat'', ''keys''] keys 4096 of
        None \<Rightarrow> None
      | Some (_, i) \<Rightarrow>
        if i_op i \<noteq> ''key_rotation'' \<or> \<not> valid_uuid (i_aud i) \<or> \<not> valid_uuid (i_iid i) \<or> i_keys i = [] then None
        else if key_set_loop (i_keys i) [] then Some i else None)"

record scan_bootstrap =
  sb_op :: string
  sb_variant :: string
  sb_aud :: string
  sb_iid :: string
  sb_issued :: int
  sb_expires :: int
  sb_keys :: "wire_key list"

definition verify_scan_bootstrap :: "'k crypto \<Rightarrow> decoders \<Rightarrow> documents \<Rightarrow> (bytes \<Rightarrow> gw_error + scan_bootstrap) \<Rightarrow> string
    \<Rightarrow> (string \<times> bytes) list \<Rightarrow> string \<Rightarrow> int \<Rightarrow> scan_bootstrap option" where
  "verify_scan_bootstrap cr dc dm dec token keys gateway at =
     (case verify_control cr dc dm dec token ''aim-scan-key-bootstrap+jwt''
         [''op'', ''variant'', ''aud'', ''iid'', ''iat'', ''exp'', ''keys''] keys 4096 of
        None \<Rightarrow> None
      | Some (_, b) \<Rightarrow>
        if sb_op b \<noteq> ''scan_spec'' \<or> sb_variant b \<noteq> ''key_bootstrap'' \<or> sb_aud b \<noteq> gateway \<or> \<not> valid_uuid (sb_iid b)
          \<or> sb_expires b \<noteq> sb_issued b + 900 \<or> sb_issued b > at + 300 \<or> sb_expires b < at - 300 \<or> sb_keys b = []
        then None else if validate_key_set [sb_keys b] then Some b else None)"

subsection \<open>What an accepted control token is\<close>

lemma decode_documentD: "decode_document s n = Some b \<Longrightarrow> b64_decode s = Some b \<and> b64_encode b = s \<and> length b \<le> n"
  by (auto simp: decode_document_def split: if_splits option.splits)

lemma key_set_loop_iff:
  "key_set_loop ks seen \<longleftrightarrow> (\<forall>k \<in> set ks. scan_key_ok k) \<and> distinct (map k_kid ks) \<and> set (map k_kid ks) \<inter> set seen = {}"
  by (induction ks arbitrary: seen) auto

lemma verify_controlE:
  assumes "verify_control cr dc dm dec token typ names keys limit = Some (kid, x)"
  obtains p0 p1 p2 h m raw v where "split_on CHR ''.'' token = [p0, p1, p2]" "decode_document p0 512 = Some h"
    "closed_object dm h [''alg'', ''typ'', ''kid''] = Some m" "kid = text_field m ''kid''" "is_identifier kid"
    "decode_document p1 limit = Some raw" "closed_object dm raw names = Some v" "canonical (JObj v) = raw"
    "verify_token cr dc dec token typ keys = Inr x" "length token \<le> limit"
  using assms unfolding verify_control_def
  by (auto split: if_splits list.splits option.splits sum.splits)

end
