(* ===== verification/PyProps.thy ===== *)
theory PyProps
  imports Control "HOL-Library.Multiset"
begin

text \<open>
  Plain documents: ASCII texts without escapes, integers in shortest form, keys in order. On
  them the two encodings of the program agree and the strict parser gives back the document,
  so that a signed control token made from one is accepted. A lexer for plain documents shows
  that what is asked of encoding/json can be had.
\<close>

subsection \<open>Plain documents\<close>

definition plain_char :: "char \<Rightarrow> bool" where
  "plain_char c \<longleftrightarrow> (let n = of_char c :: nat in 32 \<le> n \<and> n < 127 \<and> n \<notin> {34, 92, 60, 62, 38})"

definition plain :: "string \<Rightarrow> bool" where
  "plain s \<longleftrightarrow> list_all plain_char s"

definition plain_number :: "string \<Rightarrow> bool" where
  "plain_number s \<longleftrightarrow> py_number (\<lambda>_. None) s = Some s \<and> s \<noteq> [] \<and> list_all (\<lambda>c. is_digit c \<or> c = CHR ''-'') s"

fun plain_json :: "json \<Rightarrow> bool" where
  "plain_json JNull = True"
| "plain_json (JBool b) = True"
| "plain_json (JNum s) = plain_number s"
| "plain_json (JStr s) = plain s"
| "plain_json (JArr vs) = list_all plain_json vs"
| "plain_json (JObj m) = (sorted (map fst m) \<and> distinct (map fst m) \<and> list_all (\<lambda>(k, v). plain k \<and> plain_json v) m)"

lemma plain_rune_len: "plain_char c \<Longrightarrow> rune_len (c # s) = Some 1"
  by (simp add: rune_len_def plain_char_def byte_at_def Let_def)

lemma runes_plain: "plain s \<Longrightarrow> runes s = map (\<lambda>c. [c]) s"
proof (induction s)
  case (Cons c s)
  then have "rune_step (c # s) = 1" by (simp add: rune_step_def plain_def plain_rune_len)
  with Cons show ?case by (subst runes.simps) (simp add: plain_def)
qed simp

lemma plain_valid: "plain s \<Longrightarrow> valid_utf8 s"
  by (auto simp: valid_utf8_def runes_plain valid_rune_def list_all_iff plain_def plain_rune_len)

lemma plain_ascii: "plain_char c \<Longrightarrow> py_ascii c = [c] \<and> quote_ascii c = [c]"
  by (auto simp: py_ascii_def quote_ascii_def plain_char_def Let_def)

lemma plain_quote:
  assumes "plain s"
  shows "quote s = CHR 0x22 # s @ [CHR 0x22]" and "py_string s = Some (CHR 0x22 # s @ [CHR 0x22])"
proof -
  have r: "runes s = map (\<lambda>c. [c]) s" using assms by (rule runes_plain)
  have c: "\<forall>c \<in> set s. plain_char c" using assms by (simp add: plain_def list_all_iff)
  have "concat (map (quote_rune \<circ> (\<lambda>c. [c])) s) = s"
    using c by (induction s) (simp_all add: quote_rune_def plain_rune_len plain_ascii)
  then show "quote s = CHR 0x22 # s @ [CHR 0x22]" by (simp add: quote_def r)
  have "concat (map (py_rune \<circ> (\<lambda>c. [c])) s) = s"
    using c by (induction s) (simp_all add: py_rune_def plain_ascii)
  then show "py_string s = Some (CHR 0x22 # s @ [CHR 0x22])" by (simp add: py_string_def r plain_valid [OF assms])
qed

subsection \<open>One text in both encodings\<close>

lemma all_some_map: "(\<And>x. x \<in> set xs \<Longrightarrow> f x = Some (g x)) \<Longrightarrow> all_some (map f xs) = Some (map g xs)"
  by (induction xs) auto

lemma plain_number_py: "plain_number s \<Longrightarrow> py_number fl s = Some s"
proof -
  assume s: "plain_number s"
  then have "\<not> (\<exists>c \<in> set s. c \<in> set ''.eE'')" by (auto simp: plain_number_def list_all_iff is_digit_def)
  then have "py_number fl s = py_number (\<lambda>_. None) s" unfolding py_number_def by meson
  with s show ?thesis by (simp add: plain_number_def)
qed

theorem plain_encodings_agree: "plain_json v \<Longrightarrow> py_encode fl v = Some (canonical v)"
proof (induction v)
  case (JArr vs)
  then have "all_some (map (py_encode fl) vs) = Some (map write_json vs)"
    by (intro all_some_map) (auto simp: list_all_iff canonical_def)
  then show ?case by (simp add: canonical_def)
next
  case (JObj m)
  let ?e = "map (\<lambda>(k, v). (k, py_encode fl v)) m"
  have p: "plain k \<and> plain_json v \<and> py_encode fl v = Some (write_json v)" if "(k, v) \<in> set m" for k v
    using JObj that by (auto simp: list_all_iff canonical_def)
  have s: "sorted (map fst m)" using JObj.prems by simp
  then have "sort_key fst ?e = ?e" by (intro sort_key_id_if_sorted) (simp add: comp_def case_prod_beta)
  moreover have "all_some (map (\<lambda>(k, w). py_member k w) ?e) = Some (map member_text m)"
    unfolding map_map by (rule all_some_map) (auto dest: p simp: py_member_def plain_quote member_text_def)
  ultimately show ?case by (simp add: canonical_def write_obj [OF s] del: write_json.simps)
qed (auto simp: canonical_def plain_quote plain_number_py)

subsection \<open>Tokens of a document\<close>

fun tokens_of :: "json \<Rightarrow> token list" where
  "tokens_of JNull = [TNull]"
| "tokens_of (JBool b) = [TBool b]"
| "tokens_of (JNum s) = [TNum s]"
| "tokens_of (JStr s) = [TStr s]"
| "tokens_of (JArr vs) = TOpenArr # concat (map tokens_of vs) @ [TCloseArr]"
| "tokens_of (JObj m) = TOpenObj # concat (map (\<lambda>(k, v). TStr k # tokens_of v) m) @ [TCloseObj]"

fun nesting :: "json \<Rightarrow> nat" where
  "nesting (JArr vs) = 1 + foldr max (map nesting vs) 0"
| "nesting (JObj m) = 1 + foldr max (map (\<lambda>(k, v). nesting v) m) 0"
| "nesting v = 0"

lemma foldr_max_ge: "x \<in> set xs \<Longrightarrow> x \<le> foldr max xs (0 :: nat)"
  by (induction xs) auto

lemma tokens_not_close: "\<exists>t ts. tokens_of v = t # ts \<and> t \<noteq> TCloseArr \<and> t \<noteq> TCloseObj"
  by (cases v) auto

text \<open>Keys are distinct everywhere.\<close>

fun keys_distinct :: "json \<Rightarrow> bool" where
  "keys_distinct (JArr vs) = list_all keys_distinct vs"
| "keys_distinct (JObj m) = (distinct (map fst m) \<and> list_all (\<lambda>(k, v). keys_distinct v) m)"
| "keys_distinct v = True"

lemma json_elements_tokens:
  assumes "\<And>v n r. v \<in> set vs \<Longrightarrow> length (tokens_of v) \<le> n \<Longrightarrow> json_value n (d + 1) (tokens_of v @ r) = Some (v, r)"
  shows "length (concat (map tokens_of vs)) < n
    \<Longrightarrow> json_elements n d (concat (map tokens_of vs) @ TCloseArr # r) acc = Some (acc @ vs, r)"
  using assms
proof (induction vs arbitrary: n acc)
  case Nil
  then show ?case by (cases n) auto
next
  case (Cons v vs)
  obtain m where n: "n = Suc m" using Cons.prems(1) by (cases n) auto
  obtain t ts where t: "tokens_of v = t # ts" "t \<noteq> TCloseArr" using tokens_not_close by blast
  let ?r = "concat (map tokens_of vs) @ TCloseArr # r"
  have "json_value m (d + 1) (tokens_of v @ ?r) = Some (v, ?r)" using Cons.prems n by simp
  moreover have "length (concat (map tokens_of vs)) < m" using Cons.prems(1) n t by simp
  then have "json_elements m d ?r (acc @ [v]) = Some (acc @ v # vs, r)"
    using Cons.IH [of m "acc @ [v]"] Cons.prems(2) by simp
  ultimately show ?case using n t by simp
qed

lemma json_members_tokens:
  assumes "\<And>k v n r. (k, v) \<in> set ms \<Longrightarrow> length (tokens_of v) \<le> n \<Longrightarrow> json_value n (d + 1) (tokens_of v @ r) = Some (v, r)"
    and "distinct (map fst (acc @ ms))"
  shows "length (concat (map (\<lambda>(k, v). TStr k # tokens_of v) ms)) < n
    \<Longrightarrow> json_members n d (concat (map (\<lambda>(k, v). TStr k # tokens_of v) ms) @ TCloseObj # r) acc = Some (acc @ ms, r)"
  using assms
proof (induction ms arbitrary: n acc)
  case Nil
  then show ?case by (cases n) auto
next
  case (Cons kv ms)
  obtain k v where kv: "kv = (k, v)" by fastforce
  obtain m where n: "n = Suc m" using Cons.prems(1) by (cases n) auto
  let ?r = "concat (map (\<lambda>(k, v). TStr k # tokens_of v) ms) @ TCloseObj # r"
  have rest: "json_value n (d + 1) (tokens_of va @ r) = Some (va, r)"
    if "(ka, va) \<in> set ms" "length (tokens_of va) \<le> n" for ka va n r
    by (rule Cons.prems(2) [of ka]) (use that in simp_all)
  have "json_value m (d + 1) (tokens_of v @ ?r) = Some (v, ?r)"
    by (rule Cons.prems(2) [of k]) (use Cons.prems(1) n kv in simp_all)
  moreover have "length (concat (map (\<lambda>(k, v). TStr k # tokens_of v) ms)) < m" using Cons.prems(1) n kv by simp
  then have "json_members m d ?r (acc @ [(k, v)]) = Some (acc @ (k, v) # ms, r)"
    using Cons.IH [of m "acc @ [(k, v)]", OF _ rest] Cons.prems(3) kv by simp
  moreover have "k \<notin> fst ` set acc" using Cons.prems(3) kv by auto
  ultimately show ?case using n kv by simp
qed

lemma json_value_tokens:
  "keys_distinct v \<Longrightarrow> d + nesting v \<le> 32 \<Longrightarrow> length (tokens_of v) \<le> n \<Longrightarrow> json_value n d (tokens_of v @ r) = Some (v, r)"
proof (induction v arbitrary: n d r)
  case (JArr vs)
  obtain m where n: "n = Suc m" using JArr.prems(3) by (cases n) auto
  have "json_elements m d (concat (map tokens_of vs) @ TCloseArr # r) [] = Some ([] @ vs, r)"
  proof (rule json_elements_tokens)
    fix v n' r' assume v: "v \<in> set vs" "length (tokens_of v) \<le> n'"
    then have "nesting v \<le> foldr max (map nesting vs) 0" by (intro foldr_max_ge) simp
    then show "json_value n' (d + 1) (tokens_of v @ r') = Some (v, r')"
      using JArr.IH [OF v(1), of "d + 1" n' r'] JArr.prems(1,2) v by (simp add: list_all_iff)
  qed (use JArr.prems(3) n in simp)
  then show ?case using n JArr.prems(2) by simp
next
  case (JObj ms)
  obtain m where n: "n = Suc m" using JObj.prems(3) by (cases n) auto
  have "json_members m d (concat (map (\<lambda>(k, v). TStr k # tokens_of v) ms) @ TCloseObj # r) [] = Some ([] @ ms, r)"
  proof (rule json_members_tokens)
    fix k v n' r' assume v: "(k, v) \<in> set ms" "length (tokens_of v) \<le> n'"
    then have "nesting v \<le> foldr max (map (\<lambda>(k, v). nesting v) ms) 0" by (intro foldr_max_ge) force
    then show "json_value n' (d + 1) (tokens_of v @ r') = Some (v, r')"
      using JObj.IH [of "(k, v)" v "d + 1" n' r'] JObj.prems(1,2) v by (auto simp: list_all_iff)
  qed (use JObj.prems n in simp_all)
  then show ?case using n JObj.prems(2) by simp
next
  case JNull
  then show ?case by (cases n) simp_all
next
  case (JBool b)
  then show ?case by (cases n) simp_all
next
  case (JNum s)
  then show ?case by (cases n) simp_all
next
  case (JStr s)
  then show ?case by (cases n) simp_all
qed

lemma plain_keys_distinct: "plain_json v \<Longrightarrow> keys_distinct v"
  by (induction v) (auto simp: list_all_iff)

subsection \<open>The strict parser reads plain documents back\<close>

definition printable :: "string \<Rightarrow> bool" where
  "printable s \<longleftrightarrow> list_all (\<lambda>c. 32 \<le> (of_char c :: nat) \<and> of_char c < (128 :: nat)) s"

lemma printable_simps [simp]:
  "printable []" "printable (c # s) \<longleftrightarrow> 32 \<le> (of_char c :: nat) \<and> of_char c < (128 :: nat) \<and> printable s" "printable (s @ t) \<longleftrightarrow> printable s \<and> printable t"
  by (simp_all add: printable_def)

lemma printable_valid: "printable s \<Longrightarrow> valid_utf8 s"
proof -
  assume s: "printable s"
  have "runes s = map (\<lambda>c. [c]) s"
    using s
  proof (induction s)
    case (Cons c s)
    then have "rune_step (c # s) = 1" by (simp add: rune_step_def rune_len_def byte_at_def Let_def)
    with Cons show ?case by (subst runes.simps) simp
  qed simp
  then show ?thesis using s by (auto simp: valid_utf8_def valid_rune_def printable_def list_all_iff rune_len_def byte_at_def Let_def)
qed

lemma plain_printable: "plain s \<Longrightarrow> printable s"
  by (auto simp: plain_def plain_char_def printable_def list_all_iff Let_def)

lemma join_comma_printable: "\<forall>t \<in> set ts. printable t \<Longrightarrow> printable (join_comma ts)"
  by (induction ts rule: join_comma.induct) auto

lemma digit_printable: "is_digit c \<or> c = CHR ''-'' \<Longrightarrow> 32 \<le> (of_char c :: nat) \<and> of_char c < (128 :: nat)"
  by (auto simp: is_digit_def less_eq_char_def)

lemma plain_text_printable: "plain_json v \<Longrightarrow> printable (write_json v)"
proof (induction v)
  case (JArr vs)
  then have "printable (join_comma (map write_json vs))" by (intro join_comma_printable) (auto simp: list_all_iff)
  then show ?case by simp
next
  case (JObj m)
  have "printable (join_comma (map member_text m))"
  proof (rule join_comma_printable, clarsimp simp: member_text_def)
    fix k v assume "(k, v) \<in> set m"
    then show "printable (quote k) \<and> printable (write_json v)"
      using JObj by (auto simp: list_all_iff plain_quote plain_printable)
  qed
  then show ?case using JObj.prems write_obj [of m] by (simp del: write_json.simps)
next
  case (JNum s)
  then have "\<forall>c \<in> set s. is_digit c \<or> c = CHR ''-''" by (simp add: plain_number_def list_all_iff)
  then show ?case using digit_printable by (simp add: printable_def list_all_iff)
qed (auto simp: plain_quote plain_printable)

lemma decode_tokens:
  assumes "lexer raw = (tokens_of v, True)" and "valid_utf8 raw" and "keys_distinct v" and "nesting v \<le> 32"
  shows "decode_json lexer raw = Some v"
  using json_value_tokens [of v 0 "2 * length (tokens_of v) + 2" "[]"] assms by (simp add: decode_json_def)

text \<open>What encoding/json does with plain documents, and no more is asked of it.\<close>

definition reads_plain :: "(string \<Rightarrow> token list \<times> bool) \<Rightarrow> bool" where
  "reads_plain lexer \<longleftrightarrow> (\<forall>v. plain_json v \<longrightarrow> lexer (canonical v) = (tokens_of v, True))"

lemma plain_parsed:
  assumes "plain_json v" and "nesting v \<le> 32" and "reads_plain lexer"
  shows "py_encode fl v = Some (canonical v) \<and> parse_canonical lexer fl (canonical v) = Some v"
proof -
  have "lexer (canonical v) = (tokens_of v, True)" using assms(1,3) by (simp add: reads_plain_def)
  moreover have "valid_utf8 (canonical v)"
    using plain_text_printable [OF assms(1)] by (simp add: canonical_def printable_valid)
  ultimately have "decode_json lexer (canonical v) = Some v"
    using decode_tokens plain_keys_distinct [OF assms(1)] assms(2) by blast
  then show ?thesis using plain_encodings_agree [OF assms(1)] by (simp add: parse_canonical_def)
qed

subsection \<open>A lexer of plain documents\<close>

definition token_char :: "char \<Rightarrow> bool" where
  "token_char c \<longleftrightarrow> is_digit c \<or> c = CHR ''-''"

function plain_lex :: "string \<Rightarrow> token list" where
  "plain_lex [] = []"
| "plain_lex (c # s) =
     (if c = CHR ''{'' then TOpenObj # plain_lex s
      else if c = CHR ''}'' then TCloseObj # plain_lex s
      else if c = CHR ''['' then TOpenArr # plain_lex s
      else if c = CHR '']'' then TCloseArr # plain_lex s
      else if c = CHR 0x22 then TStr (takeWhile (\<lambda>x. x \<noteq> CHR 0x22) s) # plain_lex (drop 1 (dropWhile (\<lambda>x. x \<noteq> CHR 0x22) s))
      else if c = CHR ''n'' then TNull # plain_lex (drop 3 s)
      else if c = CHR ''t'' then TBool True # plain_lex (drop 3 s)
      else if c = CHR ''f'' then TBool False # plain_lex (drop 4 s)
      else if token_char c then TNum (c # takeWhile token_char s) # plain_lex (dropWhile token_char s)
      else plain_lex s)"
  by pat_completeness auto
termination
  by (relation "measure length") (auto simp: le_imp_less_Suc length_dropWhile_le less_Suc_eq_le intro: le_trans [OF diff_le_self])

definition plain_lexer :: "string \<Rightarrow> token list \<times> bool" where
  "plain_lexer s = (plain_lex s, True)"

text \<open>What follows a value inside a document.\<close>

definition text_end :: "string \<Rightarrow> bool" where
  "text_end r \<longleftrightarrow> r = [] \<or> hd r \<in> {CHR '','', CHR '']'', CHR ''}''}"

lemma lex_string: "plain s \<Longrightarrow> plain_lex (CHR 0x22 # s @ CHR 0x22 # r) = TStr s # plain_lex r"
proof -
  assume "plain s"
  then have q: "\<forall>x \<in> set s. x \<noteq> CHR 0x22" by (auto simp: plain_def plain_char_def list_all_iff Let_def)
  then have "takeWhile (\<lambda>x. x \<noteq> CHR 0x22) (s @ CHR 0x22 # r) = s" "dropWhile (\<lambda>x. x \<noteq> CHR 0x22) (s @ CHR 0x22 # r) = CHR 0x22 # r"
    by (simp_all add: takeWhile_append dropWhile_append)
  then show ?thesis by simp
qed

lemma lex_number:
  assumes "plain_number s" and "text_end r"
  shows "plain_lex (s @ r) = TNum s # plain_lex r"
proof -
  obtain c t where s: "s = c # t" using assms(1) by (cases s) (auto simp: plain_number_def)
  have tc: "\<forall>x \<in> set (c # t). token_char x" using assms(1) s by (auto simp: plain_number_def list_all_iff token_char_def)
  have e: "r = [] \<or> \<not> token_char (hd r)" using assms(2) by (auto simp: text_end_def token_char_def is_digit_def)
  have "takeWhile token_char (t @ r) = t" "dropWhile token_char (t @ r) = r"
    using tc e by (cases r; simp add: takeWhile_append dropWhile_append)+
  moreover have "c \<notin> {CHR ''{'', CHR ''}'', CHR ''['', CHR '']'', CHR 0x22, CHR ''n'', CHR ''t'', CHR ''f''}"
    using tc by (auto simp: token_char_def is_digit_def)
  ultimately show ?thesis using s tc by simp
qed

lemma lex_joined:
  assumes "\<And>x r. x \<in> set xs \<Longrightarrow> text_end r \<Longrightarrow> plain_lex (f x @ r) = g x @ plain_lex r"
    and "e = CHR '']'' \<or> e = CHR ''}''"
  shows "plain_lex (join_comma (map f xs) @ e # r) = concat (map g xs) @ plain_lex (e # r)"
  using assms(1)
proof (induction xs)
  case (Cons x xs)
  show ?case
  proof (cases xs)
    case Nil
    then show ?thesis using Cons.prems [of x "e # r"] assms(2) by (simp add: text_end_def)
  next
    case (Cons y ys)
    have "plain_lex (f x @ CHR '','' # join_comma (map f xs) @ e # r) = g x @ plain_lex (CHR '','' # join_comma (map f xs) @ e # r)"
      using Cons.prems by (simp add: text_end_def)
    also have "plain_lex (CHR '','' # join_comma (map f xs) @ e # r) = plain_lex (join_comma (map f xs) @ e # r)"
      by (simp add: token_char_def is_digit_def)
    finally show ?thesis using Cons.IH Cons.prems Cons by simp
  qed
qed simp

lemma lex_write: "plain_json v \<Longrightarrow> text_end r \<Longrightarrow> plain_lex (write_json v @ r) = tokens_of v @ plain_lex r"
proof (induction v arbitrary: r)
  case (JArr vs)
  have "plain_lex (join_comma (map write_json vs) @ CHR '']'' # r) = concat (map tokens_of vs) @ plain_lex (CHR '']'' # r)"
    by (rule lex_joined) (use JArr in \<open>auto simp: list_all_iff\<close>)
  then show ?case by simp
next
  case (JObj m)
  have "plain_lex (join_comma (map member_text m) @ CHR ''}'' # r)
    = concat (map (\<lambda>kv. TStr (fst kv) # tokens_of (snd kv)) m) @ plain_lex (CHR ''}'' # r)"
  proof (rule lex_joined)
    fix kv q assume kv: "kv \<in> set m" "text_end q"
    obtain k v where e: "kv = (k, v)" by fastforce
    have p: "plain k" "plain_json v" using JObj.prems(1) kv e by (auto simp: list_all_iff)
    have "plain_lex (quote k @ CHR '':'' # write_json v @ q) = TStr k # plain_lex (CHR '':'' # write_json v @ q)"
      using lex_string [OF p(1)] plain_quote(1) [OF p(1)] by simp
    also have "plain_lex (CHR '':'' # write_json v @ q) = plain_lex (write_json v @ q)"
      by (simp add: token_char_def is_digit_def)
    also have "\<dots> = tokens_of v @ plain_lex q" using JObj.IH [of kv v] kv e p by simp
    finally show "plain_lex (member_text kv @ q) = (TStr (fst kv) # tokens_of (snd kv)) @ plain_lex q"
      by (simp add: member_text_def e)
  qed simp
  then have "plain_lex (write_json (JObj m) @ r) = TOpenObj # concat (map (\<lambda>kv. TStr (fst kv) # tokens_of (snd kv)) m) @ TCloseObj # plain_lex r"
    using JObj.prems(1) write_obj [of m] by (simp del: write_json.simps)
  moreover have "concat (map (\<lambda>kv. TStr (fst kv) # tokens_of (snd kv)) m) = concat (map (\<lambda>(k, v). TStr k # tokens_of v) m)"
    by (rule arg_cong [of _ _ concat]) (auto simp: case_prod_beta)
  ultimately show ?case by (simp del: write_json.simps)
next
  case (JStr s)
  then show ?case using lex_string [of s r] by (simp add: plain_quote)
next
  case (JNum s)
  then show ?case using lex_number by simp
qed simp_all

lemma plain_lexer_reads: "reads_plain plain_lexer"
proof -
  have "plain_lex (write_json v) = tokens_of v" if "plain_json v" for v
    using lex_write [OF that, of "[]"] by (simp add: text_end_def)
  then show ?thesis by (simp add: reads_plain_def plain_lexer_def canonical_def)
qed

subsection \<open>Documents in base64\<close>

lemma b64_encode_nats_length: "length (b64_encode_nats ns) = (length ns * 8 + 5) div 6"
  by (induction ns rule: b64_encode_nats.induct) auto

lemma b64_encode_length: "length (b64_encode b) = encoded_len (length b)"
  by (simp add: b64_encode_def b64_encode_nats_length encoded_len_def)

lemma decode_document_encode: "length b \<le> n \<Longrightarrow> decode_document (b64_encode b) n = Some b"
proof -
  assume n: "length b \<le> n"
  then have "encoded_len (length b) \<le> encoded_len n" unfolding encoded_len_def by (intro div_le_mono) simp
  then show ?thesis using n b64_encode_props(2) [of b] by (simp add: decode_document_def b64_encode_length)
qed

subsection \<open>A signed control token is accepted\<close>

definition header_doc :: "string \<Rightarrow> string \<Rightarrow> json" where
  "header_doc typ kid = JObj [(''alg'', JStr ''EdDSA''), (''kid'', JStr kid), (''typ'', JStr typ)]"

lemma canonical_header:
  "canonical (header_json \<lparr>hd_alg = ''EdDSA'', hd_typ = typ, hd_kid = kid\<rparr>) = canonical (header_doc typ kid)"
proof -
  have le: "(''alg'' :: string) \<le> ''typ''" "(''kid'' :: string) \<le> ''typ''" "\<not> (''typ'' :: string) \<le> ''kid''" "(''alg'' :: string) \<le> ''kid''"
    by code_simp+
  show ?thesis by (simp add: canonical_def header_json_def header_doc_def le)
qed

lemma identifier_plain: "is_identifier s \<Longrightarrow> plain s"
proof -
  have "identifier_char c \<Longrightarrow> plain_char c" for c
    by (auto simp: identifier_char_def plain_char_def is_digit_def less_eq_char_def Let_def)
  then show "is_identifier s \<Longrightarrow> plain s" by (auto simp: is_identifier_def plain_def list_all_iff)
qed

lemma closed_plain:
  assumes "plain_json (JObj m)" and "nesting (JObj m) \<le> 32" and "reads_plain (dm_lex dm)"
    and "length m = length names" and "\<forall>n \<in> set names. field m n \<noteq> None"
  shows "closed_object dm (canonical (JObj m)) names = Some m"
  using plain_parsed [OF assms(1-3)] assms(4,5) by (simp add: closed_object_def list_all_iff)

text \<open>A control token that Sign makes from plain claims with exactly the expected fields, under a
  name and a key the receiver trusts and within the limit, is accepted by VerifyControl, and what
  it returns is the name of the key and the claims.\<close>

theorem control_roundtrip:
  assumes "sign_token cr typ kid (JObj m) private = Inr token"
    and "\<forall>msg. length (cr_sign cr private msg) = 64 \<and> cr_verify cr public msg (cr_sign cr private msg)"
    and "length public = 32" and "map_of keys kid = Some public" and "is_identifier kid" and "plain typ"
    and "dc_header dc (canonical (header_doc typ kid)) = Inr \<lparr>hd_alg = ''EdDSA'', hd_typ = typ, hd_kid = kid\<rparr>"
    and "dec (canonical (JObj m)) = Inr x" and "reads_plain (dm_lex dm)"
    and "plain_json (JObj m)" and "nesting (JObj m) \<le> 32" and "length m = length names" and "\<forall>n \<in> set names. field m n \<noteq> None"
    and "length token \<le> limit" and "length (canonical (header_doc typ kid)) \<le> 512" and "length (canonical (JObj m)) \<le> limit"
  shows "verify_control cr dc dm dec token typ names keys limit = Some (kid, x)"
proof -
  let ?h = "canonical (header_doc typ kid)" and ?c = "canonical (JObj m)"
  define input where "input = b64_encode ?h @ CHR ''.'' # b64_encode ?c"
  define sig where "sig = cr_sign cr private input"
  have token: "token = input @ CHR ''.'' # b64_encode sig"
    using assms(1) canonical_header [of "typ" kid] by (auto simp: sign_token_def Let_def input_def sig_def split: if_splits)
  have parts: "split_on CHR ''.'' token = [b64_encode ?h, b64_encode ?c, b64_encode sig]"
    using b64_encode_props(1) by (simp add: token input_def split_on_append split_on_single)
  have docs: "decode_document (b64_encode sig) 64 = Some sig" "decode_document (b64_encode ?h) 512 = Some ?h"
    "decode_document (b64_encode ?c) limit = Some ?c"
    using assms(2,15,16) by (simp_all add: decode_document_encode sig_def)
  have hdr: "closed_object dm ?h [''alg'', ''typ'', ''kid''] = Some [(''alg'', JStr ''EdDSA''), (''kid'', JStr kid), (''typ'', JStr typ)]"
    unfolding header_doc_def
  proof (rule closed_plain)
    show "plain_json (JObj [(''alg'', JStr ''EdDSA''), (''kid'', JStr kid), (''typ'', JStr typ)])"
      using identifier_plain [OF assms(5)] assms(6) by (simp add: plain_def plain_char_def)
  qed (use assms(9) in \<open>simp_all add: field_def\<close>)
  have "verify_token cr dc dec token typ keys = Inr x"
    using assms(2-4,7,8) b64_encode_props(2)
    by (simp add: verify_token_def verify_payload_def parts b64_res_def key_of_def Let_def sig_def flip: input_def)
  then show ?thesis
    using parts docs hdr closed_plain [OF assms(10,11,9,12,13)] assms(2,5,14)
    by (simp add: verify_control_def text_field_def sig_def)
qed

subsection \<open>Sizes of plain texts\<close>

fun text_size :: "json \<Rightarrow> nat" where
  "text_size JNull = 4"
| "text_size (JBool b) = (if b then 4 else 5)"
| "text_size (JNum s) = length s"
| "text_size (JStr s) = length s + 2"
| "text_size (JArr vs) = 2 + (length vs - 1) + sum_list (map text_size vs)"
| "text_size (JObj m) = 2 + (length m - 1) + sum_list (map (\<lambda>(k, v). length k + 3 + text_size v) m)"

lemma length_join_comma: "length (join_comma ts) = (length ts - 1) + sum_list (map length ts)"
  by (induction ts rule: join_comma.induct) auto

lemma length_canonical: "plain_json v \<Longrightarrow> length (canonical v) = text_size v"
proof (induction v)
  case (JArr vs)
  then have "map (length \<circ> write_json) vs = map text_size vs" by (auto simp: list_all_iff canonical_def)
  then have "sum_list (map (length \<circ> write_json) vs) = sum_list (map text_size vs)" by (rule arg_cong)
  then show ?case by (simp add: canonical_def length_join_comma)
next
  case (JObj m)
  have "map (length \<circ> member_text) m = map (\<lambda>(k, v). length k + 3 + text_size v) m"
    using JObj by (auto simp: list_all_iff canonical_def member_text_def plain_quote)
  then have "sum_list (map (length \<circ> member_text) m) = sum_list (map (\<lambda>(k, v). length k + 3 + text_size v) m)" by (rule arg_cong)
  then show ?case using JObj.prems write_obj [of m] by (simp add: canonical_def length_join_comma del: write_json.simps)
qed (auto simp: canonical_def plain_quote)

lemma b64_plain: "plain (b64_encode b)" and b64_identifier_chars: "list_all identifier_char (b64_encode b)"
proof -
  have "\<forall>n \<in> set (map of_char b). n < (256 :: nat)" by auto
  from b64_encode_nats_chars [OF this] have c: "\<forall>c \<in> set (b64_encode b). \<exists>n < 64. c = b64_char n"
    by (simp add: b64_encode_def)
  have "list_all (\<lambda>n. identifier_char (b64_char n) \<and> plain_char (b64_char n)) [0..<64]" by code_simp
  then have "\<forall>n < 64. identifier_char (b64_char n) \<and> plain_char (b64_char n)" by (simp add: list_all_iff)
  with c show "plain (b64_encode b)" "list_all identifier_char (b64_encode b)"
    by (auto simp: plain_def list_all_iff)
qed

lemma b64_encode_inj: "b64_encode x = b64_encode y \<Longrightarrow> x = y"
  by (metis b64_encode_props(2) option.inject)

subsection \<open>Examples\<close>

definition plain_documents :: "(bytes \<Rightarrow> string) \<Rightarrow> documents" where
  "plain_documents sha = \<lparr>dm_lex = plain_lexer, dm_float = (\<lambda>_. None), dm_sha = sha\<rparr>"

definition fixed_signature :: bytes where "fixed_signature = replicate 64 CHR ''s''"

definition fixed_crypto :: "unit crypto" where
  "fixed_crypto = \<lparr>cr_sign = (\<lambda>_ m. fixed_signature), cr_private_ok = (\<lambda>_. True), cr_verify = (\<lambda>k m s. s = fixed_signature)\<rparr>"

definition fixed_key :: bytes where "fixed_key = replicate 32 CHR ''k''"

text \<open>A token signed with the fixed key, and the decoders that know its header.\<close>

definition made_token :: "string \<Rightarrow> json \<Rightarrow> string" where
  "made_token typ claims = (case sign_token fixed_crypto typ ''k1'' claims () of Inl e \<Rightarrow> '''' | Inr t \<Rightarrow> t)"

definition header_decoders :: "string \<Rightarrow> decoders" where
  "header_decoders typ = \<lparr>dc_header = (\<lambda>_. Inr \<lparr>hd_alg = ''EdDSA'', hd_typ = typ, hd_kid = ''k1''\<rparr>),
     dc_fields = (\<lambda>_. Inl ErrStorage), dc_permission = (\<lambda>_. Inl ErrStorage), dc_instruction = (\<lambda>_. Inl ErrStorage)\<rparr>"

lemma made_token_signed: "sign_token fixed_crypto typ ''k1'' claims () = Inr (made_token typ claims)"
  by (simp add: made_token_def sign_token_def fixed_crypto_def Let_def)

lemma header_doc_size: "plain typ \<Longrightarrow> length (canonical (header_doc typ ''k1'')) = 35 + length typ"
proof -
  assume t: "plain typ"
  then have "plain_json (header_doc typ ''k1'')" by (simp add: header_doc_def plain_def plain_char_def)
  from length_canonical [OF this] show ?thesis by (simp add: header_doc_def)
qed

lemma made_token_length:
  "plain typ \<Longrightarrow> length (made_token typ claims) = encoded_len (35 + length typ) + encoded_len (length (canonical claims)) + 88"
proof -
  assume t: "plain typ"
  have "length (b64_encode fixed_signature) = 86" by (simp add: b64_encode_length fixed_signature_def encoded_len_def)
  then show ?thesis using header_doc_size [OF t]
    by (simp add: made_token_def sign_token_def fixed_crypto_def Let_def canonical_header b64_encode_length)
qed

lemma made_token_parts:
  "split_on CHR ''.'' (made_token typ claims)
    = [b64_encode (canonical (header_doc typ ''k1'')), b64_encode (canonical claims), b64_encode fixed_signature]"
  using b64_encode_props(1)
  by (simp add: made_token_def sign_token_def fixed_crypto_def Let_def canonical_header split_on_append split_on_single)

lemma made_token_accepted:
  assumes "plain typ" and "length typ \<le> 100" and "dec (canonical (JObj m)) = Inr x" and "dm_lex dm = plain_lexer"
    and "plain_json (JObj m)" and "nesting (JObj m) \<le> 32" and "length m = length names" and "list_all (\<lambda>n. field m n \<noteq> None) names"
    and "length (made_token typ (JObj m)) \<le> limit" and "length (canonical (JObj m)) \<le> limit"
  shows "verify_control fixed_crypto (header_decoders typ) dm dec (made_token typ (JObj m)) typ names [(''k1'', fixed_key)] limit
    = Some (''k1'', x)"
proof (rule control_roundtrip [OF made_token_signed, where public = fixed_key])
  show "length (canonical (header_doc typ ''k1'')) \<le> 512" using header_doc_size [OF assms(1)] assms(2) by simp
  show "is_identifier ''k1''" by code_simp
qed (use assms plain_lexer_reads in \<open>auto simp: fixed_crypto_def fixed_signature_def fixed_key_def header_decoders_def list_all_iff\<close>)

text \<open>C20: A plain document of at most 32 levels has one text in the encoding of facts and in that of
  the gateway, and the strict parser reads this text back as the document.\<close>

theorem parse_canonical_plain:
  assumes "plain_json v" and "nesting v \<le> 32" and "reads_plain lexer"
  shows "py_encode fl v = Some (canonical v) \<and> parse_canonical lexer fl (canonical v) = Some v"
  by (rule plain_parsed [OF assms])

theorem parse_canonical_plain_witness:
  "py_encode (\<lambda>_. None) (JObj [(''a'', JArr [JNum ''-12'', JStr ''x''])]) = Some (canonical (JObj [(''a'', JArr [JNum ''-12'', JStr ''x''])]))
   \<and> parse_canonical plain_lexer (\<lambda>_. None) (canonical (JObj [(''a'', JArr [JNum ''-12'', JStr ''x''])]))
     = Some (JObj [(''a'', JArr [JNum ''-12'', JStr ''x''])])"
proof (rule parse_canonical_plain [OF _ _ plain_lexer_reads])
  show "plain_json (JObj [(''a'', JArr [JNum ''-12'', JStr ''x''])])" by code_simp
qed simp

theorem control_roundtrip_witness:
  "verify_control fixed_crypto (header_decoders ''aim-t+jwt'') (plain_documents b64_encode) (\<lambda>raw. Inr raw)
     (made_token ''aim-t+jwt'' (JObj [(''a'', JStr ''x'')])) ''aim-t+jwt'' [''a''] [(''k1'', fixed_key)] 4096
   = Some (''k1'', canonical (JObj [(''a'', JStr ''x'')]))"
proof -
  have p: "plain ''aim-t+jwt''" "plain_json (JObj [(''a'', JStr ''x'')])" by code_simp+
  note size = made_token_length [OF p(1)] length_canonical [OF p(2)] header_doc_size [OF p(1)]
  show ?thesis
    by (rule control_roundtrip [OF made_token_signed, where public = fixed_key])
      (use p size plain_lexer_reads in \<open>auto simp: fixed_crypto_def fixed_signature_def fixed_key_def header_decoders_def
        plain_documents_def field_def encoded_len_def is_identifier_def identifier_char_def is_digit_def\<close>)
qed

subsection \<open>The length of a text\<close>

lemma sum_list_sort_key: "sum_list (map (f :: 'a \<Rightarrow> nat) (sort_key k xs)) = sum_list (map f xs)"
  by (metis mset_map mset_sort sum_mset_sum_list)

text \<open>Documents of plain texts and numbers, in any order of their keys, have a text of that length.\<close>

fun plain_doc :: "json \<Rightarrow> bool" where
  "plain_doc (JNum s) = plain_number s"
| "plain_doc (JStr s) = plain s"
| "plain_doc (JArr vs) = list_all plain_doc vs"
| "plain_doc (JObj m) = list_all (\<lambda>(k, v). plain k \<and> plain_doc v) m"
| "plain_doc v = True"

lemma all_some_the: "\<forall>x \<in> set xs. f x \<noteq> None \<Longrightarrow> all_some (map f xs) = Some (map (\<lambda>x. the (f x)) xs)"
  by (rule all_some_map) auto

lemma py_encode_size: "plain_doc v \<Longrightarrow> map_option length (py_encode fl v) = Some (text_size v)"
proof (induction v)
  case (JNum s)
  then show ?case by (simp add: plain_number_py)
next
  case (JStr s)
  then show ?case by (simp add: plain_quote)
next
  case (JArr vs)
  then have e: "\<forall>v \<in> set vs. py_encode fl v \<noteq> None \<and> length (the (py_encode fl v)) = text_size v"
    by (fastforce simp: list_all_iff)
  then have "map (length \<circ> (\<lambda>v. the (py_encode fl v))) vs = map text_size vs" by simp
  with e show ?case by (simp add: all_some_the length_join_comma del: map_eq_conv)
next
  case (JObj m)
  let ?L = "map (\<lambda>(k, v). (k, py_encode fl v)) m" and ?F = "\<lambda>(k, w). py_member k w"
  have e: "?F (k, py_encode fl v) \<noteq> None \<and> length (the (?F (k, py_encode fl v))) = length k + 3 + text_size v" if "(k, v) \<in> set m" for k v
    using that JObj by (fastforce simp: list_all_iff py_member_def plain_quote)
  have "\<forall>x \<in> set (sort_key fst ?L). ?F x \<noteq> None" using e by auto
  moreover have "map (length \<circ> (\<lambda>x. the (?F x)) \<circ> (\<lambda>(k, v). (k, py_encode fl v))) m = map (\<lambda>(k, v). length k + 3 + text_size v) m"
    using e by auto
  then have "sum_list (map (length \<circ> (\<lambda>x. the (?F x))) (sort_key fst ?L)) = sum_list (map (\<lambda>(k, v). length k + 3 + text_size v) m)"
    by (simp add: sum_list_sort_key o_assoc del: map_eq_conv)
  ultimately show ?case by (simp add: all_some_the length_join_comma del: map_eq_conv)
qed simp_all

end
