(* ===== verification/TableProps.thy ===== *)
theory TableProps
  imports TableScan PyProps
begin

text \<open>
  What a scan of tables promises: what it publishes is a function of the pinned content, whatever the
  storage gives on the later reads, however the reads are cut and whenever the contexts end. The last
  part runs two scans of one small file.
\<close>

subsection \<open>Walking a whole table\<close>

abbreviation never :: "nat \<Rightarrow> bool" where "never \<equiv> \<lambda>k. False"

text \<open>The walk over a content that is read without faults, deadlines and cuts.\<close>

definition walk_content :: "table_env \<Rightarrow> table_policy \<Rightarrow> string \<Rightarrow> bytes \<Rightarrow> visit list \<times> refusal option" where
  "walk_content env p fmt c = walk_text env p never [] fmt c AtEnd"

lemma limit_bytes_append:
  "limit_bytes comma mx s (a @ b) = (case limit_bytes comma mx s a of None \<Rightarrow> None | Some s' \<Rightarrow> limit_bytes comma mx s' b)"
  by (induction comma mx s a rule: limit_bytes.induct) (simp_all add: Let_def)

text \<open>The sizes of the reads do not matter for what is refused, and nothing is lost when nothing is.\<close>

lemma limit_reads_whole:
  "limit_reads comma mx ks s bs = (out, over) \<Longrightarrow> over = (limit_bytes comma mx s bs = None) \<and> (\<not> over \<longrightarrow> out = bs)"
proof (induction ks arbitrary: s bs out over)
  case (Cons k ks)
  have "limit_bytes comma mx s bs = limit_bytes comma mx s (take k bs @ drop k bs)" by simp
  then have a: "limit_bytes comma mx s bs
      = (case limit_bytes comma mx s (take k bs) of None \<Rightarrow> None | Some s' \<Rightarrow> limit_bytes comma mx s' (drop k bs))"
    by (simp only: limit_bytes_append)
  show ?case
  proof (cases "limit_bytes comma mx s (take k bs)")
    case (Some s')
    obtain o' v where r: "limit_reads comma mx ks s' (drop k bs) = (o', v)" by fastforce
    from Cons.IH [OF r] Cons.prems Some r a show ?thesis by auto
  qed (use Cons.prems a in simp)
qed (auto split: option.splits)

lemma csv_first_line_end:
  "csv_first_line inp e = (l, e', r) \<Longrightarrow> e \<noteq> Going \<Longrightarrow> (e' = AtEnd \<longrightarrow> e = AtEnd) \<and> (e' = Going \<longrightarrow> l \<noteq> [])"
proof (induction inp e arbitrary: l e' r rule: csv_first_line.induct)
  case (1 inp e)
  obtain l1 e1 r1 where c: "csv_line inp e = (l1, e1, r1)" by (metis prod_cases3)
  show ?case
  proof (cases "e1 = Going \<and> only_newline l1 \<and> inp \<noteq> []")
    case True
    then have "csv_first_line r1 e = (l, e', r)" using 1(2) c by (simp add: csv_first_line.simps [of inp])
    from 1(1) [OF c [symmetric] refl True this 1(3)] show ?thesis .
  next
    case False
    then have "l = l1" "e' = e1" using 1(2) c by (auto simp: csv_first_line.simps [of inp])
    then show ?thesis using False c 1(3) by (auto simp: csv_line_def only_newline_def Let_def split: if_splits)
  qed
qed

lemma csv_fields_no_end: "csv_fields comma mode fs line now inp e = (res, r) \<Longrightarrow> res \<noteq> CsvEnd"
proof (induction comma mode fs line now inp e arbitrary: res r rule: csv_fields.induct)
  case (1 comma fs line now inp e)
  then show ?case by (auto simp: csv_fields.simps(1) [of comma fs line] csv_done_def Let_def split: if_splits)
next
  case (2 comma buf fs line now inp e)
  obtain l e1 r1 where c: "csv_line inp e = (l, e1, r1)" by (metis prod_cases3)
  with 2 show ?case by (fastforce simp: csv_fields.simps(2) [of comma buf fs line] csv_done_def Let_def split: if_splits)
qed

lemma csv_record_end:
  assumes "csv_record comma inp e = (CsvEnd, r)" and "e \<noteq> Going"
  shows "e = AtEnd"
proof -
  obtain l e1 r1 where c: "csv_first_line inp e = (l, e1, r1)" by (metis prod_cases3)
  then show ?thesis using assms csv_first_line_end [OF c assms(2)]
    by (auto simp: csv_record_def split: if_splits dest: csv_fields_no_end)
qed

lemma csv_rows_whole:
  "csv_rows p late comma names offset inp e k = (vs, None) \<Longrightarrow> e \<noteq> Going
    \<Longrightarrow> e = AtEnd \<and> csv_rows p never comma names offset inp AtEnd j = (vs, None)"
proof (induction p late comma names offset inp e k arbitrary: vs j rule: csv_rows.induct)
  case (1 p late comma names offset inp e k)
  obtain res r where c: "csv_record comma inp e = (res, r)" by fastforce
  have l: "\<not> late k" using 1(2) by (auto simp: csv_rows.simps [of p late])
  show ?case
  proof (cases res)
    case CsvEnd
    then have "e = AtEnd" using c csv_record_end 1(3) by blast
    then show ?thesis using 1(2) c l CsvEnd by (auto simp: csv_rows.simps)
  next
    case (CsvFail x)
    then show ?thesis using 1(2) c l by (simp add: csv_rows.simps [of p late])
  next
    case (CsvRow fs)
    let ?u = "length inp - length r"
    have ok: "length fs = length names" "\<not> int ?u > tp_record p" "list_all (\<lambda>f. valid_utf8 f \<and> int (length f) \<le> tp_scalar p) fs"
      using 1(2) c l CsvRow by (auto simp: csv_rows.simps [of p late] Let_def split: if_splits)
    obtain vs' x where r: "csv_rows p late comma names (offset + ?u) r e (k + 1) = (vs', x)" by fastforce
    have v: "vs = (names, Some (map TextCell fs), offset + ?u) # vs'" "x = None"
      using 1(2) c l CsvRow ok r by (simp_all add: csv_rows.simps [of p late] Let_def)
    from 1(1) [OF l c [symmetric] CsvRow refl] ok r v(2) 1(3)
    have "e = AtEnd \<and> csv_rows p never comma names (offset + ?u) r AtEnd (j + 1) = (vs', None)" by simp
    then show ?thesis using v c CsvRow ok by (simp add: csv_rows.simps [of p never comma names offset] Let_def)
  qed
qed

lemma jsonl_rows_whole:
  "jsonl_rows env p late e offset k ls = (vs, None) \<Longrightarrow> e \<noteq> Going \<Longrightarrow> e = AtEnd \<and> jsonl_rows env p never AtEnd offset j ls = (vs, None)"
proof (induction ls arbitrary: offset k vs j)
  case Nil
  then show ?case by (cases e) simp_all
next
  case (Cons l ls)
  let ?raw = "without_return l" and ?o = "offset + length (without_return l) + 1"
  have ok: "\<not> int (length l) > tp_record p" "\<not> late k" "valid_utf8 ?raw" using Cons.prems(1) by (auto simp: Let_def split: if_splits)
  show ?case
  proof (cases "trim_space ?raw = []")
    case True
    then have "jsonl_rows env p late e ?o (k + 1) ls = (vs, None)" using Cons.prems(1) ok by (simp add: Let_def)
    from Cons.IH [OF this Cons.prems(2), of "j + 1"] show ?thesis using True ok by (simp add: Let_def)
  next
    case False
    obtain m where m: "json_line env p ?raw = Some m" using Cons.prems(1) ok False by (auto simp: Let_def split: option.splits)
    obtain vs' x where r: "jsonl_rows env p late e ?o (k + 1) ls = (vs', x)" by fastforce
    with Cons.prems(1) ok False m have v: "vs = (map fst m, Some (map (\<lambda>(n, v). JsonCell v) m), ?o) # vs'" "x = None" by (simp_all add: Let_def)
    from Cons.IH [of ?o "k + 1" vs' "j + 1"] r v(2) Cons.prems(2)
    have "e = AtEnd \<and> jsonl_rows env p never AtEnd ?o (j + 1) ls = (vs', None)" by simp
    then show ?thesis using v False ok m by (simp add: Let_def)
  qed
qed

text \<open>A walk without an error saw the end of its input, and any other such walk is the same.\<close>

lemma walk_text_whole:
  assumes "walk_text env p late sizes fmt c e = (vs, None)" and "e \<noteq> Going"
  shows "e = AtEnd \<and> walk_content env p fmt c = (vs, None)"
proof (cases "fmt = ''jsonl''")
  case True
  then show ?thesis using assms jsonl_rows_whole [of env p late e 0 0 "text_lines c" vs 0] by (simp add: walk_text_def walk_content_def)
next
  case False
  let ?comma = "if fmt = ''tsv'' then CHR 0x09 else CHR '',''"
  obtain inp over where lim: "limit_reads ?comma (tp_record p) sizes (0, 0) c = (inp, over)" by fastforce
  let ?e = "if over then Failed ResourceLimit else e"
  have w: "walk_csv p late sizes ?comma c e = (vs, None)" using assms(1) False by (simp add: walk_text_def)
  then obtain fs r where f: "csv_record ?comma inp ?e = (CsvRow fs, r)"
    using lim by (auto simp: walk_csv_def Let_def split: csv_read.splits prod.splits)
  let ?n = "trim_prefix utf8_mark (hd fs) # tl fs" and ?u = "length inp - length r"
  obtain vs' x where cr: "csv_rows p late ?comma ?n ?u r ?e 0 = (vs', x)" by fastforce
  have n: "name_ok p ?n" "vs = (?n, None, ?u) # vs'" "x = None"
    using w lim f cr by (auto simp: walk_csv_def Let_def split: if_splits)
  have e: "?e = AtEnd \<and> csv_rows p never ?comma ?n ?u r AtEnd 0 = (vs', None)"
    using csv_rows_whole [of p late ?comma ?n ?u r ?e 0 vs' 0] cr n(3) assms(2) by simp
  then have o: "\<not> over" "e = AtEnd" by (auto split: if_splits)
  note whole = limit_reads_whole [OF lim]
  then have "inp = c" "limit_bytes ?comma (tp_record p) (0, 0) c \<noteq> None" using o by simp_all
  then have "limit_reads ?comma (tp_record p) [] (0, 0) c = (c, False)" by auto
  then have "walk_csv p never [] ?comma c AtEnd = (vs, None)"
    using f e n o \<open>inp = c\<close> by (simp add: walk_csv_def Let_def)
  then show ?thesis using o False by (simp add: walk_content_def walk_text_def)
qed

lemma infer_visits_None: "infer_visits env p fmt (vs, e) st = (None, st') \<Longrightarrow> e = None"
  by (induction env p fmt "(vs, e)" st arbitrary: vs rule: infer_visits.induct) (auto split: prod.splits option.splits)

lemma count_visits_None: "count_visits env p cols (vs, e) st = (None, st') \<Longrightarrow> e = None"
  by (induction env p cols "(vs, e)" st arbitrary: vs rule: count_visits.induct) (auto split: prod.splits option.splits if_splits)


subsection \<open>What a scan publishes is a function of the pinned content\<close>

text \<open>A member pins a content by its size, its hash and the digests of its blocks.\<close>

definition pins_content :: "table_env \<Rightarrow> pinned_member \<Rightarrow> bytes \<Rightarrow> bool" where
  "pins_content env x c \<longleftrightarrow> mb_size (pm_member x) = int (length c) \<and> mb_sha (pm_member x) = te_sha env c
     \<and> pm_blocks x = block_digests (te_sha env) c"

definition no_collisions :: "table_env \<Rightarrow> bool" where
  "no_collisions env \<longleftrightarrow> (\<forall>a b. te_sha env a = te_sha env b \<longrightarrow> a = b)"

lemma parse_member_None:
  assumes "parse_member env p io fmt m c e b = (None, cols, b')" and "e \<noteq> Going"
  shows "e = AtEnd \<and> (supported fmt \<and> mb_format m \<noteq> ''parquet'' \<longrightarrow>
    infer_visits env p fmt (walk_content env p fmt c) ([], b) = (None, cols, b'))"
proof (cases "supported fmt \<and> mb_format m \<noteq> ''parquet''")
  case True
  obtain vs x where w: "walk_text env p (pi_late io) (pi_sizes io) fmt c e = (vs, x)" by fastforce
  have "x = None" using assms(1) True w infer_visits_None by (fastforce simp: parse_member_def)
  with walk_text_whole [of env p "pi_late io" "pi_sizes io" fmt c e vs] w assms True show ?thesis
    by (simp add: parse_member_def)
next
  case False
  then show ?thesis using assms by (cases e) (auto simp: parse_member_def)
qed

definition prepared_budget :: "member \<Rightarrow> budget \<Rightarrow> budget" where
  "prepared_budget m b = snd (budget_reserve (block_count (mb_size m) * 32)
     (snd (case mb_ordering m of None \<Rightarrow> (None, b) | Some k \<Rightarrow> budget_reserve (int (length (mb_identity m)) + int (length k)) b)))"

text \<open>What the first pass makes of a content under a format.\<close>

definition prepared_content :: "table_env \<Rightarrow> table_policy \<Rightarrow> member \<Rightarrow> string \<Rightarrow> bytes \<Rightarrow> budget \<Rightarrow> refusal option \<times> pinned_member \<times> budget" where
  "prepared_content env p m fmt c b =
     (case (if supported fmt \<and> mb_format m \<noteq> ''parquet'' then infer_visits env p fmt (walk_content env p fmt c) ([], prepared_budget m b)
         else (None, [], prepared_budget m b)) of
        (err, cols, b') \<Rightarrow> (err, \<lparr>pm_member = m\<lparr>mb_sha := te_sha env c, mb_digest := True, mb_format := fmt\<rparr>,
          pm_blocks = block_digests (te_sha env) c, pm_columns = cols\<rparr>, b'))"

definition settled_format :: "member \<Rightarrow> bytes \<Rightarrow> string" where
  "settled_format m c = (if length c \<ge> 4 \<and> take 2 c = ''PK'' then ''unsupported'' else mb_format m)"

text \<open>The first four bytes were there when they were looked at, or the content ends before them.\<close>

definition whole_peek :: "table_env \<Rightarrow> member \<Rightarrow> pass_io \<Rightarrow> bool" where
  "whole_peek env m io \<longleftrightarrow> (case peek_four (te_sha env) (nat (mb_size m)) None (pi_reads io) [] (fresh_reader (pi_input io)) of
     (got, rqs, st) \<Rightarrow> length got \<ge> 4 \<or> hb_end st \<and> hb_pending st = [])"

lemma read_on_ended: "read_on sha sz pinned rqs st = (bs, e, st') \<Longrightarrow> hb_end st \<Longrightarrow> hb_pending st = [] \<Longrightarrow> bs = []"
  by (cases rqs) (auto simp: read_some_def split: if_splits)

text \<open>The first pass pins what it has read: a content of the declared size and, where there is one, of the
  declared hash. All it finds out is found out from this content.\<close>

lemma prepare_member_pins:
  assumes "prepare_member env p io prev m b = (Inr x, b1)"
  shows "\<exists>c fmt. pins_content env x c \<and> int (length c) = mb_size m \<and> (mb_ordering m = None \<or> mb_digest m \<longrightarrow> te_sha env c = mb_sha m)
    \<and> prepared_content env p m fmt c b = (None, x, b1) \<and> (whole_peek env m io \<longrightarrow> fmt = settled_format m c)"
proof -
  let ?sz = "nat (mb_size m)" and ?sha = "te_sha env"
  obtain e0 b0 where r0: "(case mb_ordering m of None \<Rightarrow> (None, b) | Some k \<Rightarrow> budget_reserve (int (length (mb_identity m)) + int (length k)) b) = (e0, b0)"
    by fastforce
  obtain e2 b2 where r2: "budget_reserve (block_count (mb_size m) * 32) b0 = (e2, b2)" by fastforce
  obtain got rqs st1 where pk: "peek_four ?sha ?sz None (pi_reads io) [] (fresh_reader (pi_input io)) = (got, rqs, st1)" by (metis prod_cases3)
  obtain rest e st2 where rd: "read_on ?sha ?sz None rqs st1 = (rest, e, st2)" by (metis prod_cases3)
  let ?fmt = "if length got \<ge> 4 \<and> take 2 got = ''PK'' then ''unsupported'' else mb_format m"
  obtain err cols b3 where pm: "parse_member env p io ?fmt m (got @ rest) e b2 = (err, cols, b3)" by (metis prod_cases3)
  note step = assms [unfolded prepare_member_def r0 Let_def]
  have n: "e0 = None" "\<not> member_refused p prev m" "e2 = None" "pi_open io"
    using step r2 by (auto split: option.splits if_splits)
  note step = step [simplified n if_False prod.case option.case r2 pk rd pm, simplified]
  have err: "err = None"
    using step n r2 pk rd pm by (cases err) (auto split: if_splits prod.splits read_end.splits)
  have h: "hashing ?sha ?sz (got @ rest) st2" "e \<noteq> Going" "e = AtEnd \<longrightarrow> hb_pending st2 = []"
    using read_on_hashing [OF rd peek_four_hashing [OF pk hashing_fresh]] by simp_all
  note pn = parse_member_None [OF pm [unfolded err] h(2)]
  have x: "hb_size st2 = ?sz" "mb_ordering m = None \<or> mb_digest m \<longrightarrow> ?sha (hb_fed st2) = mb_sha m"
      "x = \<lparr>pm_member = m\<lparr>mb_sha := ?sha (hb_fed st2), mb_digest := True, mb_format := ?fmt\<rparr>, pm_blocks = hb_blocks st2, pm_columns = cols\<rparr>" "b1 = b3"
    using step n r2 pk rd pm err by (auto split: if_splits)
  let ?c = "hb_fed st2"
  have c: "got @ rest = ?c" "length ?c = ?sz" "hb_blocks st2 = block_digests ?sha ?c"
    using h pn x(1) by (auto simp: hashing_def)
  have "0 \<le> mb_size m" using n(2) by (simp add: member_refused_def)
  then have a: "pins_content env x ?c" "int (length ?c) = mb_size m"
    using c x(3) by (simp_all add: pins_content_def)
  have b: "prepared_budget m b = b2" using r0 r2 by (simp add: prepared_budget_def)
  have "prepared_content env p m ?fmt ?c b = (None, x, b1)"
  proof (cases "supported ?fmt \<and> mb_format m \<noteq> ''parquet''")
    case True
    then show ?thesis using pn x(3,4) c by (simp add: prepared_content_def b)
  next
    case False
    then have "cols = []" "b3 = b2" using pm by (auto simp: parse_member_def)
    then show ?thesis using False x(3,4) c(3) unfolding prepared_content_def b if_not_P [OF False] by simp
  qed
  moreover have "?fmt = settled_format m ?c" if w: "whole_peek env m io"
  proof (cases "length got \<ge> 4")
    case True
    then have "take 2 ?c = take 2 got" "length ?c \<ge> 4" unfolding c(1) [symmetric] by simp_all
    then show ?thesis using True by (simp add: settled_format_def)
  next
    case False
    then have "rest = []" using w pk read_on_ended [OF rd] by (auto simp: whole_peek_def)
    then show ?thesis using c(1) False by (simp add: settled_format_def)
  qed
  ultimately show ?thesis using a x(2) by blast
qed

text \<open>Reading a content itself.\<close>

definition content_read :: "bytes \<Rightarrow> nat \<Rightarrow> nat \<Rightarrow> bytes \<times> read_end" where
  "content_read c off n = (take n (drop off c), if n \<noteq> 0 \<and> off + n > length c then AtEnd else Going)"

lemma read_at_content:
  "read_at sha sz ds disk off n = (bs, e) \<Longrightarrow> ds = block_digests sha c \<Longrightarrow> \<forall>x y. sha x = sha y \<longrightarrow> x = y \<Longrightarrow> length c = sz
    \<Longrightarrow> \<forall>x. e \<noteq> Failed x \<Longrightarrow> (bs, e) = content_read c off n"
proof -
  assume a: "read_at sha sz ds disk off n = (bs, e)" "ds = block_digests sha c" "\<forall>x y. sha x = sha y \<longrightarrow> x = y" "length c = sz" "\<forall>x. e \<noteq> Failed x"
  then have "bs = take n (drop off c)" using read_at_pinned [OF a(1-4)] by (cases e) auto
  moreover have "read_at sha sz ds disk off n = (bs, e) \<Longrightarrow> \<forall>x. e \<noteq> Failed x
      \<Longrightarrow> e = (if n \<noteq> 0 \<and> off + n > sz then AtEnd else Going)" for off n bs
  proof (induction sha sz ds disk off n arbitrary: bs rule: read_at.induct)
    case (1 sha sz ds disk off n)
    note rd = 1(2) [unfolded read_at.simps [of sha sz ds disk off n]]
    show ?case
    proof (cases "n = 0 \<or> off \<ge> sz")
      case True
      then show ?thesis using rd by (auto split: if_splits)
    next
      case False
      then obtain b' where b: "disk (off div scan_block) = Inr b'" using rd 1(3) by (cases "disk (off div scan_block)") auto
      let ?got = "take n (drop (off mod scan_block) b')"
      have ok: "\<not> (length b' \<noteq> block_length sz (off div scan_block) \<or> off div scan_block \<ge> length ds \<or> sha b' \<noteq> ds ! (off div scan_block))"
        using rd False b 1(3) by (auto split: if_splits)
      obtain rest where r: "read_at sha sz ds disk (off + length ?got) (n - length ?got) = (rest, e)"
        using rd False b ok by (auto simp: Let_def split: prod.splits)
      have i: "e = (if n - length ?got \<noteq> 0 \<and> off + length ?got + (n - length ?got) > sz then AtEnd else Going)"
        using 1(1) [OF _ _ b _ refl r 1(3)] False ok by simp
      have l: "length ?got \<le> n" by simp
      have "sz - off div scan_block * scan_block - off mod scan_block = sz - off" by (simp add: diff_diff_left)
      moreover have "length b' \<le> sz - off div scan_block * scan_block" using ok by (simp add: block_length_def)
      moreover have "length ?got \<le> length b' - off mod scan_block" by simp
      ultimately have "length ?got \<le> sz - off" by linarith
      with i l False show ?thesis by auto
    qed
  qed
  ultimately show ?thesis using a by (simp add: content_read_def)
qed

primrec no_failure :: "(nat \<Rightarrow> nat \<Rightarrow> bytes \<times> read_end) \<Rightarrow> 'a reading \<Rightarrow> bool" where
  "no_failure rd (Finished a) \<longleftrightarrow> True"
| "no_failure rd (Reading off n f) \<longleftrightarrow> (\<forall>x. snd (rd off n) \<noteq> Failed x) \<and> no_failure rd (f (rd off n))"

lemma run_reading_same:
  assumes "\<And>off n bs e. rd off n = (bs, e) \<Longrightarrow> \<forall>x. e \<noteq> Failed x \<Longrightarrow> (bs, e) = rd' off n"
  shows "no_failure rd t \<Longrightarrow> run_reading rd t = run_reading rd' t"
proof (induction t)
  case (Reading off n f)
  have "rd off n = rd' off n" using Reading.prems assms [of off n "fst (rd off n)" "snd (rd off n)"] by simp
  then show ?case using Reading.IH [of "f (rd off n)"] Reading.prems by (simp add: rangeI)
qed simp

text \<open>A careful library reports no table when one of its reads has failed.\<close>

definition careful :: "parquet_reader \<Rightarrow> bool" where
  "careful pq \<longleftrightarrow> (\<forall>p sz b rd o' b'. run_reading rd (pq p sz b) = (Inr o', b') \<longrightarrow> no_failure rd (pq p sz b))"

text \<open>The table of a content, without storage.\<close>

definition table_of_content :: "table_env \<Rightarrow> table_policy \<Rightarrow> parquet_reader \<Rightarrow> int option \<Rightarrow> string \<Rightarrow> columns \<Rightarrow> bytes \<Rightarrow> budget
    \<Rightarrow> (refusal + table_object) \<times> budget" where
  "table_of_content env p pq buf fmt cols c b =
     (case (if fmt = ''parquet''
         then (let b' = snd (reserve_buffered buf b) in
           run_reading (content_read c) (pq p (length c) (snd (budget_reserve (page_limit b' * 6) b'))))
         else count_table env p cols (walk_content env p fmt c) b) of
        (r, b') \<Rightarrow> (r, b'\<lparr>bu_used := bu_used b\<rparr>))"

lemma text_object_content:
  assumes "text_object env p x io b = (Inr o', b')" and "pins_content env x c" and "no_collisions env"
  shows "count_table env p (pm_columns x) (walk_content env p (mb_format (pm_member x)) c) b = (Inr o', b')"
proof -
  obtain bs e st where r: "read_on (te_sha env) (length c) (Some (block_digests (te_sha env) c)) (pi_reads io) (fresh_reader (pi_input io)) = (bs, e, st)"
    by (metis prod_cases3)
  have l: "e = AtEnd \<longrightarrow> bs = c" using later_pass [OF r] assms(3) by (simp add: no_collisions_def)
  have "e \<noteq> Going" using read_on_end [OF r] .
  obtain vs w where ws: "walk_text env p (pi_late io) (pi_sizes io) (mb_format (pm_member x)) bs e = (vs, w)" by fastforce
  have t: "count_table env p (pm_columns x) (vs, w) b = (Inr o', b')"
    using assms(1,2) r ws by (simp add: text_object_def reread_def pins_content_def split: if_splits)
  then have "w = None" using count_visits_None by (fastforce simp: count_table_def split: prod.splits option.splits)
  with walk_text_whole [of env p "pi_late io" "pi_sizes io" "mb_format (pm_member x)" bs e vs] ws \<open>e \<noteq> Going\<close> l t
  show ?thesis by auto
qed

lemma table_of_content_eq:
  assumes "table_of env p pq x io b = (Inr o', b')" and "pins_content env x c" and "no_collisions env" and "careful pq"
  shows "table_of_content env p pq (pi_buffered io) (mb_format (pm_member x)) (pm_columns x) c b = (Inr o', b')"
proof (cases "mb_format (pm_member x) = ''parquet''")
  case True
  let ?rd = "read_at (te_sha env) (length c) (block_digests (te_sha env) c) (pi_disk io)"
  let ?bu = "snd (reserve_buffered (pi_buffered io) b)"
  let ?b = "snd (budget_reserve (page_limit ?bu * 6) ?bu)"
  have sz: "nat (mb_size (pm_member x)) = length c" "pm_blocks x = block_digests (te_sha env) c" using assms(2) by (simp_all add: pins_content_def)
  obtain b1 where b1: "parquet_object env p pq x io b = (Inr o', b1)" "b' = b1\<lparr>bu_used := bu_used b\<rparr>"
    using assms(1) True by (auto simp: table_of_def split: prod.splits sum.splits)
  then have "parquet_pages ?rd p pq (length c) (pi_after io) ?bu = (Inr o', b1)"
    unfolding parquet_object_def sz Let_def by (auto split: if_splits prod.splits option.splits read_end.splits)
  then obtain b2 k where r: "run_reading ?rd (pq p (length c) ?b) = (Inr o', b2)" "b1 = b2\<lparr>bu_used := k\<rparr>"
    unfolding parquet_pages_def Let_def by (auto split: if_splits prod.splits option.splits read_end.splits sum.splits)
  then have "no_failure ?rd (pq p (length c) ?b)" using assms(4) by (auto simp: careful_def)
  then have "run_reading ?rd (pq p (length c) ?b) = run_reading (content_read c) (pq p (length c) ?b)"
    by (rule run_reading_same [rotated]) (use read_at_content assms(3) in \<open>auto simp: no_collisions_def\<close>)
  with r b1 True show ?thesis by (simp add: table_of_content_def Let_def)
next
  case False
  then obtain b1 where "text_object env p x io b = (Inr o', b1)" "b' = b1\<lparr>bu_used := bu_used b\<rparr>"
    using assms(1) by (auto simp: table_of_def split: prod.splits sum.splits)
  with text_object_content [OF this(1) assms(2,3)] False show ?thesis by (simp add: table_of_content_def)
qed


subsection \<open>Two scans of the same members\<close>

definition member_pinned :: "member \<Rightarrow> bool" where
  "member_pinned m \<longleftrightarrow> mb_ordering m = None \<or> mb_digest m"

lemma prepare_member_same:
  assumes "prepare_member env p io prev m b = (Inr x, b1)" and "prepare_member env p io' prev m b = (Inr x', b1')"
    and "no_collisions env" and "member_pinned m" and "whole_peek env m io" and "whole_peek env m io'"
  shows "x' = x \<and> b1' = b1"
proof -
  obtain c where c: "te_sha env c = mb_sha m" "prepared_content env p m (settled_format m c) c b = (None, x, b1)"
    using prepare_member_pins [OF assms(1)] assms(4,5) by (auto simp: member_pinned_def)
  obtain c' where c': "te_sha env c' = mb_sha m" "prepared_content env p m (settled_format m c') c' b = (None, x', b1')"
    using prepare_member_pins [OF assms(2)] assms(4,6) by (auto simp: member_pinned_def)
  have "c' = c" using assms(3) c(1) c'(1) unfolding no_collisions_def by metis
  with c c' show ?thesis by simp
qed

lemma prepare_members_same:
  assumes "prepare_members env p io prev ms b = (Inr xs, b1)" and "prepare_members env p io' prev ms b = (Inr xs', b1')"
    and "no_collisions env" and "list_all (\<lambda>m. member_pinned m \<and> whole_peek env m (io (mb_identity m)) \<and> whole_peek env m (io' (mb_identity m))) ms"
  shows "xs' = xs \<and> b1' = b1"
  using assms(1,2,4)
proof (induction ms arbitrary: prev b xs xs')
  case (Cons m ms)
  obtain x b2 ys where x: "prepare_member env p (io (mb_identity m)) prev m b = (Inr x, b2)" "xs = x # ys"
      "prepare_members env p io (Some (mb_identity m)) ms b2 = (Inr ys, b1)"
    using Cons.prems(1) by (auto split: prod.splits sum.splits)
  obtain x' b2' ys' where x': "prepare_member env p (io' (mb_identity m)) prev m b = (Inr x', b2')" "xs' = x' # ys'"
      "prepare_members env p io' (Some (mb_identity m)) ms b2' = (Inr ys', b1')"
    using Cons.prems(2) by (auto split: prod.splits sum.splits)
  have "x' = x \<and> b2' = b2" using prepare_member_same [OF x(1) x'(1) assms(3)] Cons.prems(3) by simp
  with Cons.IH [OF x(3), of ys'] x x' Cons.prems(3) show ?case by simp
qed simp

text \<open>What is prepared: one member after the other, each pinning a content.\<close>

definition prepared_from :: "table_env \<Rightarrow> table_policy \<Rightarrow> member \<Rightarrow> pinned_member \<Rightarrow> bool" where
  "prepared_from env p m x \<longleftrightarrow> (\<exists>c b b1 fmt. pins_content env x c \<and> int (length c) = mb_size m \<and> (member_pinned m \<longrightarrow> te_sha env c = mb_sha m)
     \<and> prepared_content env p m fmt c b = (None, x, b1))"

lemma prepared_from_member: "prepared_from env p m x \<Longrightarrow> (\<exists>c. pins_content env x c) \<and> mb_identity (pm_member x) = mb_identity m"
proof -
  have "prepared_content env p m fmt c b = (None, x, b1) \<Longrightarrow> mb_identity (pm_member x) = mb_identity m" for fmt c b b1
    unfolding prepared_content_def by (simp split: prod.split_asm) force
  then show "prepared_from env p m x \<Longrightarrow> ?thesis" by (auto simp: prepared_from_def)
qed

lemma prepare_members_from:
  "prepare_members env p io prev ms b = (Inr xs, b1) \<Longrightarrow> list_all2 (prepared_from env p) ms xs"
proof (induction ms arbitrary: prev b xs)
  case (Cons m ms)
  obtain x b2 ys where x: "prepare_member env p (io (mb_identity m)) prev m b = (Inr x, b2)" "xs = x # ys"
      "prepare_members env p io (Some (mb_identity m)) ms b2 = (Inr ys, b1)"
    using Cons.prems by (auto split: prod.splits sum.splits)
  have "prepared_from env p m x" using prepare_member_pins [OF x(1)] unfolding prepared_from_def member_pinned_def by blast
  with Cons.IH [OF x(3)] x(2) show ?case by simp
qed simp

lemma scan_member_same:
  assumes "scan_member env sa p x io fb = Inr r" and "scan_member env sa p x io' fb = Inr r'"
    and "pins_content env x c" and "no_collisions env" and "careful (sa_parquet sa)" and "pi_buffered io' = pi_buffered io"
  shows "r' = r"
proof (cases "supported (mb_format (pm_member x))")
  case True
  obtain f b where fb: "fb = (f, b)" by fastforce
  obtain o1 b1 where 1: "table_of env p (sa_parquet sa) x io b = (Inr o1, b1)"
    using assms(1) True fb by (auto simp: scan_member_def Let_def split: if_splits prod.splits sum.splits)
  obtain o2 b2 where 2: "table_of env p (sa_parquet sa) x io' b = (Inr o2, b2)"
    using assms(2) True fb by (auto simp: scan_member_def Let_def split: if_splits prod.splits sum.splits)
  have "o2 = o1 \<and> b2 = b1" using table_of_content_eq [OF 1 assms(3-5)] table_of_content_eq [OF 2 assms(3-5)] assms(6) by simp
  with 1 2 assms(1,2) True fb show ?thesis by (simp add: scan_member_def Let_def split: if_splits)
next
  case False
  then show ?thesis using assms(1,2)
    by (auto simp: scan_member_def Let_def split: if_splits prod.splits read_end.splits)
qed

lemma scan_members_same:
  assumes "scan_members env sa p io xs fb = Inr r" and "scan_members env sa p io' xs fb = Inr r'"
    and "list_all (\<lambda>x. (\<exists>c. pins_content env x c) \<and> pi_buffered (io' (mb_identity (pm_member x))) = pi_buffered (io (mb_identity (pm_member x)))) xs"
    and "no_collisions env" and "careful (sa_parquet sa)"
  shows "r' = r"
  using assms(1-3)
proof (induction xs arbitrary: fb)
  case (Cons x xs)
  obtain a where a: "scan_member env sa p x (io (mb_identity (pm_member x))) fb = Inr a" "scan_members env sa p io xs a = Inr r"
    using Cons.prems(1) by (auto split: sum.splits)
  obtain a' where a': "scan_member env sa p x (io' (mb_identity (pm_member x))) fb = Inr a'" "scan_members env sa p io' xs a' = Inr r'"
    using Cons.prems(2) by (auto split: sum.splits)
  obtain c where "pins_content env x c" "pi_buffered (io' (mb_identity (pm_member x))) = pi_buffered (io (mb_identity (pm_member x)))"
    using Cons.prems(3) by auto
  from scan_member_same [OF a(1) a'(1) this(1) assms(4,5) this(2)] Cons.IH [OF a(2)] a' Cons.prems(3) show ?case by simp
qed simp

text \<open>The parts of a scan of tables that succeeds.\<close>

lemma checked_mode: "checked p = Inr p' \<Longrightarrow> po_mode p' = po_mode p"
  by (cases "policy_refusal p") (auto simp: checked_def with_defaults_def)

lemma scan_factsE:
  assumes "scan_facts env sa p0 io1 io2 ms = Inr f" and "po_mode p0 \<noteq> content_census_v1"
  obtains p1 p b b1 b2 b3 xs f0 where "checked p0 = Inr p1" and "checked p1 = Inr p"
    and "budget_reserve (tp_record p * 4 + po_max_facts p * 4 + 4194304) (fresh_budget p) = (None, b)"
    and "budget_reserve (int (length ms) * 512) b = (None, b1)" and "prepare_members env p io1 None ms b1 = (Inr xs, b2)"
    and "scan_members env sa p io2 xs (no_facts (int (length xs)), b2) = Inr (f0, b3)" and "sealed_facts env sa p f0 = Inr f"
proof -
  obtain p1 where c: "checked p0 = Inr p1" using assms(1) by (cases "checked p0") (simp_all add: scan_facts_def)
  then have "po_mode p1 \<noteq> content_census_v1" using checked_mode assms(2) by metis
  then have "scan_tables env sa p1 io1 io2 ms = Inr f"
    using assms(1) c by (cases "scan_tables env sa p1 io1 io2 ms") (simp_all add: scan_facts_def)
  note p1 = c this
  obtain p where p: "checked p1 = Inr p" using p1(2) by (auto simp: scan_tables_def split: sum.splits)
  obtain b where b: "budget_reserve (tp_record p * 4 + po_max_facts p * 4 + 4194304) (fresh_budget p) = (None, b)"
    using p1(2) p by (auto simp: scan_tables_def split: prod.splits option.splits)
  obtain xs b2 where xs: "prepare_all env p io1 ms b = (Inr xs, b2)"
    using p1(2) p b by (auto simp: scan_tables_def split: prod.splits sum.splits)
  obtain b1 where b1: "budget_reserve (int (length ms) * 512) b = (None, b1)" "prepare_members env p io1 None ms b1 = (Inr xs, b2)"
    using xs by (auto simp: prepare_all_def split: if_splits prod.splits option.splits)
  obtain f0 b3 where "scan_members env sa p io2 xs (no_facts (int (length xs)), b2) = Inr (f0, b3)" "sealed_facts env sa p f0 = Inr f"
    using p1(2) p b xs by (auto simp: scan_tables_def split: prod.splits sum.splits)
  with p1 p b b1 show ?thesis using that by blast
qed


subsection \<open>Two scans of one file\<close>

definition ts_env :: table_env where
  "ts_env = \<lparr>te_sha = id, te_mac = (\<lambda>k s. replicate 32 CHR ''m''), te_lex = (\<lambda>_. ([], False)), te_float = (\<lambda>_. FloatBad), te_time = (\<lambda>_ _. None),
     te_estimate = (\<lambda>_. 0)\<rparr>"

definition ts_policy :: table_policy where
  "ts_policy = \<lparr>po_mode = '''', po_binding = '''', po_budget = 0, po_planned = 0, po_allowance = 0, po_caps = zero_caps, po_patterns = [], po_seed = '''',
     po_max_memory = 0, po_max_facts = 0, po_custom = True, tp_canonicalization = ''python-json-sort-compact-v1'', tp_row_count = ''exact-v1'',
     tp_distinct = ''hll-sha256-v1'', tp_histogram = ''fixed-buckets-v1'', tp_numeric = ''fixed-buckets-v1'', tp_occupancy = 10,
     tp_lengths = length_bounds, tp_boundaries = numeric_boundaries, tp_record = 0, tp_scalar = 0, tp_columns = 0, tp_deadline = 0,
     tp_gateway = '''', tp_snapshot = '''', tp_commitment = ''''\<rparr>"

definition ts_args :: scan_args where
  "ts_args = \<lparr>sa_parquet = (\<lambda>p n b. Finished (Inl Unsupported, b)), sa_object = (\<lambda>m. replicate 64 CHR ''0''), sa_locator = replicate 64 CHR ''0'',
     sa_census = (\<lambda>p. Inl Unsupported)\<rparr>"

definition ts_content :: bytes where "ts_content = [CHR ''a'', CHR 0x0A, CHR ''1'', CHR 0x0A]"

definition ts_member :: member where
  "ts_member = \<lparr>mb_identity = replicate 32 CHR ''0'', mb_size = 4, mb_sha = ts_content, mb_digest = False, mb_ordering = None, mb_format = ''csv'',
     mb_etag = '''', mb_version = ''''\<rparr>"

text \<open>One pass that reads the whole member at once, and one that reads it byte by byte after the first four.\<close>

definition ts_pass :: "(bool \<times> nat) list \<Rightarrow> pass_io" where
  "ts_pass rqs = \<lparr>pi_open = True, pi_input = [Chunk ts_content], pi_reads = rqs, pi_late = (\<lambda>k. False), pi_sizes = [], pi_again = None,
     pi_disk = (\<lambda>i. Inl Timeout), pi_buffered = None, pi_before = 0, pi_after = 0, pi_expired = False\<rparr>"

definition ts_checked :: table_policy where
  "ts_checked = ts_policy\<lparr>po_max_memory := 134217728, tp_record := 16777216, tp_scalar := 16777216, tp_columns := 1000,
     po_max_facts := 32768, tp_deadline := 1800000000000\<rparr>"

lemma ts_defaults: "with_defaults ts_policy = ts_checked" "with_defaults ts_checked = ts_checked"
  by (simp_all add: ts_policy_def ts_checked_def with_defaults_def or_default_def)

lemma ts_census: "check_census_policy (policy.truncate ts_checked) = None"
  by (simp add: ts_policy_def ts_checked_def check_census_policy_def policy.defs content_census_v1_def)

lemma ts_policy_ok: "checked ts_policy = Inr ts_checked" "checked ts_checked = Inr ts_checked"
proof -
  have "versions_ok ts_policy" "versions_ok ts_checked" "limits_ok ts_checked"
    by (simp_all add: ts_policy_def ts_checked_def versions_ok_def limits_ok_def)
  then show "checked ts_policy = Inr ts_checked" "checked ts_checked = Inr ts_checked"
    unfolding checked_def policy_refusal_def ts_defaults
    by (simp_all add: ts_census Let_def) (simp_all add: ts_policy_def ts_checked_def)
qed

lemma ts_limit: "limit_reads CHR '','' 16777216 [] (0, 0) ts_content = (ts_content, False)"
  by (simp add: ts_content_def quote_state_def)

lemma ts_rec1: "csv_record CHR '','' ts_content AtEnd = (CsvRow [''a''], [CHR ''1'', CHR 0x0A])"
  by (simp add: ts_content_def csv_record_def csv_first_line.simps csv_line_def only_newline_def without_return_def csv_fields.simps trim_suffix_def has_suffix_def csv_done_def)
lemma ts_rec2: "csv_record CHR '','' [CHR ''1'', CHR 0x0A] AtEnd = (CsvRow [''1''], [])"
  by (simp add: ts_content_def csv_record_def csv_first_line.simps csv_line_def only_newline_def without_return_def csv_fields.simps trim_suffix_def has_suffix_def csv_done_def)
lemma ts_rec3: "csv_record CHR '','' [] AtEnd = (CsvEnd, [])"
  by (simp add: ts_content_def csv_record_def csv_first_line.simps csv_line_def only_newline_def)
lemma ts_names: "name_ok ts_checked [''a'']" "valid_utf8 ''1''"
  by (simp add: name_ok_def ts_checked_def ts_policy_def, code_simp, code_simp)

lemma ts_rows: "csv_rows ts_checked never CHR '','' [''a''] 2 [CHR ''1'', CHR 0x0A] AtEnd 0 = ([([''a''], Some [TextCell ''1''], 4)], None)"
  by (simp add: csv_rows.simps ts_rec2 ts_rec3 ts_names) (simp add: ts_checked_def)

lemma ts_walk: "walk_content ts_env ts_checked ''csv'' ts_content = ([([''a''], None, 2), ([''a''], Some [TextCell ''1''], 4)], None)"
proof -
  have "trim_prefix utf8_mark ''a'' = ''a''" by code_simp
  moreover have "tp_record ts_checked = 16777216" by (simp add: ts_checked_def)
  ultimately show ?thesis
    by (simp add: walk_content_def walk_text_def walk_csv_def ts_limit ts_rec1 ts_names ts_rows del: limit_bytes.simps limit_reads.simps) (simp add: ts_content_def Let_def ts_rows flip: numeral_2_eq_2)
qed

lemma ts_cell: "infer_cell ts_env (TextCell ''1'') = ''integer''" by code_simp
lemma promote_unknown: "promote ''unknown'' z j = Inr z" by (simp add: promote_def)

lemma ts_infer: "infer_visits ts_env ts_checked ''csv'' (walk_content ts_env ts_checked ''csv'' ts_content) ([], \<lparr>bu_used = u, bu_limit = 134217728, bu_peak = u\<rparr>)
   = (None, [(''a'', ''integer'')], \<lparr>bu_used = u + 1025, bu_limit = 134217728, bu_peak = u + 1025\<rparr>)" if "u \<ge> 0" "u + 1025 \<le> 134217728"
proof -
  have "tp_columns ts_checked = 1000" by (simp add: ts_checked_def)
  then show ?thesis using that
  by (simp add: ts_walk visit_pairs_def infer_column_def set_kind_def promote_unknown ts_cell budget_reserve_def del: infer_cell.simps)
qed
lemma ts_scalar: "scalar_of ts_env (TextCell ''1'') ''integer'' = Inr (Some \<lparr>sv_raw = ''1'', sv_length = 0, sv_floor = 1\<rparr>)" by code_simp


definition ts_col :: column_fact where "ts_col = \<lparr>cf_type = ''integer'', cf_null_rate = CSuppressed, cf_distinct = CSuppressed, cf_length = CNil, cf_numeric = CSuppressed\<rparr>"
definition ts_object :: table_object where
  "ts_object = \<lparr>to_id = replicate 64 CHR ''0'', to_names = [''a''], to_columns = [ts_col], to_rows = 1\<rparr>"
definition ts_facts :: scanned_facts where
  "ts_facts = \<lparr>tf_discovered = 1, tf_scanned = 1, tf_skipped = [], tf_objects = [ts_object], tf_frames = [], tf_content = '''', tf_locator = '''',
     tf_fingerprint = ''''\<rparr>"


lemma plain_zeros: "plain (replicate n CHR ''0'')"
  by (simp add: plain_def list_all_iff plain_char_def)

lemma plain_words: "plain ''coverage''" "plain ''objects_skipped_by_reason''" by code_simp+
lemma plain_words2: "plain ''coverage''" "plain ''objects_skipped_by_reason''" by (simp_all add: plain_def plain_char_def)
lemma plain_count: "plain_doc (count_json 0)" "plain_doc (count_json 1)" by code_simp+
lemma count_size: "text_size (count_json 0) = 1" "text_size (count_json 1) = 1" by code_simp+

lemma plain_texts: "plain ''objects_discovered''" "plain ''objects_scanned''" "plain ''objects_skipped_by_reason''" "plain ''skipped''" "plain ''object_id''"
  "plain ''column_names''" "plain ''column_types''" "plain ''null_rate''" "plain ''approx_distinct_count''" "plain ''length_histograms''" "plain ''numeric_range_buckets''"
  "plain ''row_count''" "plain ''row_count_method''" "plain ''exact''" "plain ''coverage''" "plain ''objects''" "plain ''schema_preview''" "plain ''a''" "plain ''integer''"
  "plain ''suppressed_low_occupancy''" "plain ''depth_class''" "plain ''complete_standard_v1''" "plain ''row_count_algorithm_version''" "plain ''distinct_algorithm_version''"
  "plain ''histogram_version''" "plain ''numeric_bucket_version''" "plain ''canonicalization_version''" "plain ''exact-v1''" "plain ''hll-sha256-v1''" "plain ''fixed-buckets-v1''"
  "plain ''python-json-sort-compact-v1''"
  by (simp_all add: plain_def plain_char_def)

lemmas ts_json = coverage_json_def object_json_def preview_json_def ts_facts_def ts_object_def ts_col_def plain_texts plain_zeros plain_count count_size


lemma ts_summary: "within_summary ts_checked ts_facts"
proof -
  let ?j = "JObj [(''coverage'', coverage_json ts_facts), (''objects'', JArr (map object_json (tf_objects ts_facts))),
     (''schema_preview'', JArr (map preview_json (tf_objects ts_facts)))]"
  have p: "plain_doc ?j" by (simp add: ts_json)
  have "text_size ?j \<le> 32768" by (simp add: ts_json)
  then show ?thesis using py_encode_size [OF p, of "\<lambda>_. None"]
    by (auto simp: summary_text_def within_summary_def ts_checked_def)
qed

abbreviation ts_whole where "ts_whole \<equiv> [(False, 100), (False, 100)]"
abbreviation ts_single where "ts_single \<equiv> [(False, 1), (False, 1), (False, 1), (False, 1), (False, 1)]"

definition ts_end :: hash_reader where
  "ts_end = \<lparr>hb_input = [], hb_fed = ts_content, hb_size = 4, hb_blocks = [ts_content], hb_pending = [], hb_end = True, hb_index = 0\<rparr>"

lemmas ts_reading = fresh_reader_def read_some_def next_block_def take_digest_def scan_block_def ts_content_def ts_end_def Let_def

lemma ts_peeks: "peek_four id 4 None ts_whole [] (fresh_reader [Chunk ts_content]) = (ts_content, [(False, 100)], ts_end)"
  "peek_four id 4 None ts_single [] (fresh_reader [Chunk ts_content]) = (ts_content, [(False, 1)], ts_end)"
  by (simp_all add: ts_reading)

lemma ts_at_end: "read_on id 4 None [(False, n)] ts_end = ([], AtEnd, ts_end)"
  by (simp add: ts_reading)

lemma ts_rereads: "fst (snd (read_on id 4 (Some [ts_content]) ts_whole (fresh_reader [Chunk ts_content]))) = AtEnd
   \<and> fst (read_on id 4 (Some [ts_content]) ts_whole (fresh_reader [Chunk ts_content])) = ts_content"
  "fst (snd (read_on id 4 (Some [ts_content]) ts_single (fresh_reader [Chunk ts_content]))) = AtEnd
   \<and> fst (read_on id 4 (Some [ts_content]) ts_single (fresh_reader [Chunk ts_content])) = ts_content"
  by (simp_all add: ts_reading)

definition ts_budget :: "int \<Rightarrow> budget" where "ts_budget u = \<lparr>bu_used = u, bu_limit = 134217728, bu_peak = u\<rparr>"

definition ts_pinned :: pinned_member where
  "ts_pinned = \<lparr>pm_member = ts_member\<lparr>mb_digest := True\<rparr>, pm_blocks = [ts_content], pm_columns = [(''a'', ''integer'')]\<rparr>"

lemma ts_prepared:
  assumes "peek_four id 4 None r [] (fresh_reader [Chunk ts_content]) = (ts_content, [(False, n)], ts_end)"
  shows "prepare_member ts_env ts_checked (ts_pass r) None ts_member (ts_budget 71434752) = (Inr ts_pinned, ts_budget 71435809)"
proof -
  have m: "mb_ordering ts_member = None" "nat (mb_size ts_member) = 4" "mb_format ts_member = ''csv''" "mb_sha ts_member = ts_content"
    by (simp_all add: ts_member_def)
  have ok: "\<not> member_refused ts_checked None ts_member" by (simp add: member_refused_def ts_member_def file_id_ascii_def) code_simp
  have b: "budget_reserve (block_count (mb_size ts_member) * 32) (ts_budget 71434752) = (None, ts_budget 71434784)"
    by (simp add: budget_reserve_def ts_budget_def ts_member_def block_count_def scan_block_def)
  have e: "te_sha ts_env = id" "pi_open (ts_pass r)" "pi_input (ts_pass r) = [Chunk ts_content]" "pi_reads (ts_pass r) = r"
    by (simp_all add: ts_env_def ts_pass_def)
  have f: "take 2 ts_content \<noteq> ''PK''" "hb_fed ts_end = ts_content" "hb_size ts_end = 4" "hb_blocks ts_end = [ts_content]" by (simp_all add: ts_content_def ts_end_def)
  have p: "parse_member ts_env ts_checked (ts_pass r) ''csv'' ts_member ts_content AtEnd (ts_budget 71434784)
      = (None, [(''a'', ''integer'')], ts_budget 71435809)"
    using ts_infer [of 71434784] by (simp add: parse_member_def supported_def m ts_pass_def walk_content_def ts_budget_def)
  show ?thesis
    unfolding prepare_member_def m b e if_not_P [OF ok] Let_def assms option.case prod.case
    by (simp add: ok b e f ts_at_end assms p m del: read_on.simps) (simp add: ts_pinned_def ts_member_def f)
qed

lemma ts_table: "count_table ts_env ts_checked [(''a'', ''integer'')] (walk_content ts_env ts_checked ''csv'' ts_content) (ts_budget u)
   = (Inr (ts_object\<lparr>to_id := ''''\<rparr>), ts_budget (u + 65))" if "u \<ge> 0" "u < 100000000"
proof -
  have "tp_record ts_checked = 16777216" "tp_scalar ts_checked = 16777216" by (simp_all add: ts_checked_def)
  then show ?thesis using that
    by (simp add: count_table_def ts_walk count_cell_def new_tally_def ts_scalar tally_add_def budget_reserve_def ts_budget_def max_rows_def count_absent_def finish_columns_def
      aggregate_of_def count_value_def column_of_def histogram_fact_def null_rate_fact_def ts_object_def ts_col_def)
qed

definition ts_name :: string where "ts_name = replicate 64 CHR ''0''"

lemma ts_hex: "hex_ascii ts_name"
  by (simp add: ts_name_def hex_ascii_def is_lower_hex_def is_digit_def list_all_iff)

definition ts_found :: scanned_facts where
  "ts_found = ts_facts\<lparr>tf_frames := member_bytes (pm_member ts_pinned)\<rparr>"

lemma ts_text_object:
  assumes "fst (snd (read_on id 4 (Some [ts_content]) r (fresh_reader [Chunk ts_content]))) = AtEnd
   \<and> fst (read_on id 4 (Some [ts_content]) r (fresh_reader [Chunk ts_content])) = ts_content"
  shows "text_object ts_env ts_checked ts_pinned (ts_pass r) (ts_budget 71435809) = (Inr (ts_object\<lparr>to_id := ''''\<rparr>), ts_budget 71435874)"
proof -
  have m: "mb_format (pm_member ts_pinned) = ''csv''" "nat (mb_size (pm_member ts_pinned)) = 4"
    "pm_blocks ts_pinned = [ts_content]" "pm_columns ts_pinned = [(''a'', ''integer'')]"
    by (simp_all add: ts_pinned_def ts_member_def)
  have e: "te_sha ts_env = id" "pi_open (ts_pass r)" "pi_input (ts_pass r) = [Chunk ts_content]" "pi_reads (ts_pass r) = r"
    by (simp_all add: ts_env_def ts_pass_def)
  have r: "reread ts_env ts_pinned (ts_pass r) = (ts_content, AtEnd)" using assms by (auto simp: reread_def m e split: prod.split)
  have "walk_text ts_env ts_checked (pi_late (ts_pass r)) (pi_sizes (ts_pass r)) ''csv'' ts_content AtEnd = walk_content ts_env ts_checked ''csv'' ts_content"
    by (simp add: walk_content_def ts_pass_def)
  then show ?thesis using ts_table [of 71435809] by (simp add: text_object_def r m e)
qed

lemma ts_scanned:
  assumes "fst (snd (read_on id 4 (Some [ts_content]) r (fresh_reader [Chunk ts_content]))) = AtEnd
   \<and> fst (read_on id 4 (Some [ts_content]) r (fresh_reader [Chunk ts_content])) = ts_content"
  shows "\<exists>b. scan_member ts_env ts_args ts_checked ts_pinned (ts_pass r) (no_facts 1, ts_budget 71435809) = Inr (ts_found, b)"
proof -
  have m: "pm_member ts_pinned = ts_member\<lparr>mb_digest := True\<rparr>" "mb_format ts_member = ''csv''"
    by (simp_all add: ts_pinned_def ts_member_def)
  have n: "object_name ts_env ts_args ts_checked x = ts_name" for x
    by (simp add: object_name_def ts_checked_def ts_policy_def ts_args_def ts_name_def)
  let ?f = "no_facts 1\<lparr>tf_frames := tf_frames (no_facts 1) @ member_bytes (ts_member\<lparr>mb_digest := True\<rparr>),
    tf_objects := tf_objects (no_facts 1) @ [ts_object\<lparr>to_id := ts_name\<rparr>], tf_scanned := tf_scanned (no_facts 1) + 1\<rparr>"
  have f: "?f = ts_found" by (simp add: ts_found_def no_facts_def ts_facts_def ts_object_def ts_name_def m)
  have "summary_text ts_found = summary_text ts_facts" by (simp add: summary_text_def coverage_json_def ts_found_def)
  then have w: "within_summary ts_checked ts_found" using ts_summary by (simp add: within_summary_def)
  show ?thesis
    using ts_text_object [OF assms] w f
    by (simp add: scan_member_def ts_hex n m supported_def table_of_def Let_def)
qed

lemma ts_fingerprint: "fingerprint_text ts_checked (ts_facts\<lparr>tf_frames := x, tf_objects := [ts_object], tf_skipped := [], tf_content := y, tf_locator := z\<rparr>) \<noteq> None"
  (is "fingerprint_text ts_checked ?f \<noteq> None")
proof -
  let ?j = "JObj [(''coverage'', coverage_json ts_facts), (''objects'', JArr (map object_json (tf_objects ts_facts))),
     (''depth_class'', JStr ''complete_standard_v1''), (''row_count_algorithm_version'', JStr (tp_row_count ts_checked)),
     (''distinct_algorithm_version'', JStr (tp_distinct ts_checked)), (''histogram_version'', JStr (tp_histogram ts_checked)),
     (''numeric_bucket_version'', JStr (tp_numeric ts_checked)), (''canonicalization_version'', JStr (tp_canonicalization ts_checked))]"
  have "plain_doc ?j" by (simp add: ts_json ts_checked_def ts_policy_def)
  from py_encode_size [OF this, of "\<lambda>_. None"] have "py_encode (\<lambda>_. None) ?j \<noteq> None" by (cases "py_encode (\<lambda>_. None) ?j") (simp_all del: py_encode.simps)
  moreover have "tf_objects ?f = tf_objects ts_facts" "coverage_json ?f = coverage_json ts_facts" by (simp_all add: coverage_json_def ts_facts_def)
  ultimately show ?thesis unfolding fingerprint_text_def by metis
qed

lemma ts_sealed: "\<exists>f. sealed_facts ts_env ts_args ts_checked ts_found = Inr f"
proof -
  have "summary_text ts_found = summary_text ts_facts" by (simp add: summary_text_def coverage_json_def ts_found_def)
  then have w: "within_summary ts_checked ts_found" using ts_summary by (simp add: within_summary_def)
  have l: "locator_name ts_env ts_args ts_checked = ts_name"
    by (simp add: locator_name_def ts_checked_def ts_policy_def ts_args_def ts_name_def)
  have "tf_objects ts_found = [ts_object]" "tf_skipped ts_found = []" by (simp_all add: ts_found_def ts_facts_def)
  with ts_fingerprint w l ts_hex show ?thesis by (simp add: sealed_facts_def Let_def ts_found_def split: option.split)
qed

lemma ts_scan:
  assumes "r1 \<in> {ts_whole, ts_single}" and "r2 \<in> {ts_whole, ts_single}"
  shows "\<exists>f. scan_facts ts_env ts_args ts_policy (\<lambda>_. ts_pass r1) (\<lambda>_. ts_pass r2) [ts_member] = Inr f"
proof -
  obtain n where p: "peek_four id 4 None r1 [] (fresh_reader [Chunk ts_content]) = (ts_content, [(False, n)], ts_end)"
    using assms(1) ts_peeks by blast
  have r: "fst (snd (read_on id 4 (Some [ts_content]) r2 (fresh_reader [Chunk ts_content]))) = AtEnd
   \<and> fst (read_on id 4 (Some [ts_content]) r2 (fresh_reader [Chunk ts_content])) = ts_content"
    using assms(2) ts_rereads by blast
  have b: "budget_reserve (tp_record ts_checked * 4 + po_max_facts ts_checked * 4 + 4194304) (fresh_budget ts_checked) = (None, ts_budget 71434240)"
    "budget_reserve (int (length [ts_member]) * 512) (ts_budget 71434240) = (None, ts_budget 71434752)"
    by (simp_all add: budget_reserve_def fresh_budget_def ts_budget_def ts_checked_def)
  have m: "po_mode ts_checked \<noteq> content_census_v1" by (simp add: ts_checked_def ts_policy_def content_census_v1_def)
  obtain bx where s: "scan_member ts_env ts_args ts_checked ts_pinned (ts_pass r2) (no_facts 1, ts_budget 71435809) = Inr (ts_found, bx)"
    using ts_scanned [OF r] by blast
  from ts_sealed show ?thesis
    using ts_prepared [OF p] s b m by (auto simp: scan_facts_def scan_tables_def ts_policy_ok prepare_all_def)
qed

lemma ts_whole_peek:
  assumes "peek_four id 4 None r [] (fresh_reader [Chunk ts_content]) = (ts_content, [(False, n)], ts_end)"
  shows "whole_peek ts_env ts_member (ts_pass r)"
proof -
  have "nat (mb_size ts_member) = 4" "te_sha ts_env = id" "pi_input (ts_pass r) = [Chunk ts_content]" "pi_reads (ts_pass r) = r"
    by (simp_all add: ts_member_def ts_env_def ts_pass_def)
  then show ?thesis using assms by (simp add: whole_peek_def del: peek_four.simps) (simp add: ts_content_def)
qed


end
