(* ===== verification/ColumnProps.thy ===== *)
theory ColumnProps
  imports TableProps
begin

text \<open>
  What is published of a text table: every column has its facts, the histograms belong to the kind of
  the column and count exactly the values that are no nulls, and no published count is one to nine.
\<close>

subsection \<open>Counting\<close>

text \<open>The counts of a column after n records.\<close>

definition tally_ok :: "int \<Rightarrow> column_tally \<Rightarrow> bool" where
  "tally_ok n a \<longleftrightarrow> 0 \<le> ta_nulls a \<and> ta_nulls a \<le> n \<and> length (ta_lengths a) = 10 \<and> length (ta_numeric a) = 8
     \<and> list_all ((\<le>) 0) (ta_lengths a) \<and> list_all ((\<le>) 0) (ta_numeric a)
     \<and> (text_kind (ta_kind a) \<longrightarrow> sum_list (ta_lengths a) = n - ta_nulls a)
     \<and> (number_kind (ta_kind a) \<longrightarrow> sum_list (ta_numeric a) = n - ta_nulls a)
     \<and> (ta_exact a = [] \<longrightarrow> ta_nulls a = n)"

lemma sum_list_bump: "i < length xs \<Longrightarrow> sum_list (bump_at i xs) = sum_list xs + 1"
  unfolding bump_at_def by (induction xs arbitrary: i) (auto simp: nth_Cons' split: nat.splits)

lemma bump_nonnegative: "list_all ((\<le>) 0) xs \<Longrightarrow> list_all ((\<le>) 0) (bump_at i xs)"
  unfolding bump_at_def by (cases "i < length xs") (auto simp: list_all_length nth_list_update)

lemma buckets_in_range:
  "tp_lengths p = length_bounds \<Longrightarrow> length_bucket p n < 10"
  "tp_boundaries p = numeric_boundaries \<Longrightarrow> numeric_bucket p k < 8"
  using length_takeWhile_le [of _ length_bounds] length_takeWhile_le [of _ numeric_boundaries]
  by (auto simp: length_bucket_def numeric_bucket_def length_bounds_def numeric_boundaries_def intro: le_imp_less_Suc)

lemma length_bump [simp]: "length (bump_at i xs) = length xs"
  by (simp add: bump_at_def)

lemma new_tally_ok: "tally_ok 0 (new_tally p i k)"
  by (simp add: tally_ok_def new_tally_def list_all_iff sum_list_replicate)

lemma count_null_ok: "tally_ok n a \<Longrightarrow> tally_ok (n + 1) (count_null a)"
  by (simp add: tally_ok_def count_null_def)

lemma count_value_ok:
  assumes "tally_ok n a" and "y \<noteq> []"
    and "tp_lengths p = length_bounds" and "tp_boundaries p = numeric_boundaries"
  shows "tally_ok (n + 1) (count_value sha p v (a\<lparr>ta_exact := y\<rparr>))"
  using assms buckets_in_range [of p]
  by (auto simp: tally_ok_def count_value_def sum_list_bump bump_nonnegative)

lemma tally_add_ok:
  assumes "tally_add sha p v a b = (None, a', b')" and "tally_ok n a"
    and "tp_lengths p = length_bounds" and "tp_boundaries p = numeric_boundaries"
  shows "tally_ok (n + 1) a'"
proof (cases v)
  case None
  then show ?thesis using assms(1) count_null_ok [OF assms(2)] by (simp add: tally_add_def)
next
  case (Some x)
  have y: "tally_ok (n + 1) (count_value sha p x (a\<lparr>ta_exact := y\<rparr>))" if "y \<noteq> []" for y
    using count_value_ok [of n a y] that assms by simp
  have "tally_ok (n + 1) (count_value sha p x a)" if "\<not> (length (ta_exact a) < 10 \<and> sv_raw x \<notin> set (ta_exact a))"
  proof -
    have "ta_exact a \<noteq> []" using that by auto
    from y [OF this] show ?thesis by simp
  qed
  with y show ?thesis using assms(1) Some
    by (auto simp: tally_add_def split: if_splits prod.splits option.splits)
qed

subsection \<open>The records of a table\<close>

text \<open>The columns in \<open>d\<close> have counted one record more than the others.\<close>

definition counted :: "string list \<Rightarrow> int \<Rightarrow> string set \<Rightarrow> column_tally list \<Rightarrow> bool" where
  "counted cols n d acc \<longleftrightarrow> length acc = length cols
     \<and> (\<forall>i < length cols. tally_ok (if cols ! i \<in> d then n + 1 else n) (acc ! i))"

lemma first_position: "n \<in> set cols \<Longrightarrow> length (takeWhile (\<lambda>m. m \<noteq> n) cols) < length cols \<and> cols ! length (takeWhile (\<lambda>m. m \<noteq> n) cols) = n"
  by (induction cols) auto

lemma count_cell_counted:
  assumes "count_cell env p cols (m, c) (acc, b) = (None, acc', b')" and "counted cols n d acc" and "m \<notin> d" and "distinct cols"
    and "tp_lengths p = length_bounds" and "tp_boundaries p = numeric_boundaries"
  shows "counted cols n (insert m d) acc'"
proof -
  let ?i = "length (takeWhile (\<lambda>k. k \<noteq> m) cols)"
  obtain v a b1 where t: "m \<in> set cols" "tally_add (te_sha env) p v (acc ! ?i) b1 = (None, a, b')" "acc' = acc[?i := a]"
    using assms(1) by (auto simp: count_cell_def Let_def split: if_splits prod.splits option.splits sum.splits)
  have i: "?i < length cols" "cols ! ?i = m" using first_position [OF t(1)] by simp_all
  have "tally_ok (n + 1) a" using tally_add_ok [OF t(2) _ assms(5,6)] assms(2,3) i by (auto simp: counted_def)
  moreover have "cols ! j \<noteq> m" if "j < length cols" "j \<noteq> ?i" for j
    using that i assms(4) nth_eq_iff_index_eq by metis
  ultimately show ?thesis using assms(2) i t(3) by (auto simp: counted_def nth_list_update)
qed

lemma count_cells_counted:
  "count_cells env p cols ncs (acc, b) = (None, acc', b') \<Longrightarrow> counted cols n d acc \<Longrightarrow> distinct (map fst ncs) \<Longrightarrow> fst ` set ncs \<inter> d = {}
    \<Longrightarrow> distinct cols \<Longrightarrow> tp_lengths p = length_bounds \<Longrightarrow> tp_boundaries p = numeric_boundaries
    \<Longrightarrow> counted cols n (d \<union> fst ` set ncs) acc'"
proof (induction ncs arbitrary: acc b d)
  case (Cons nc ncs)
  obtain m c where nc: "nc = (m, c)" by fastforce
  obtain acc1 b1 where s: "count_cell env p cols (m, c) (acc, b) = (None, acc1, b1)" "count_cells env p cols ncs (acc1, b1) = (None, acc', b')"
    using Cons.prems(1) nc by (auto split: option.splits prod.splits)
  have "counted cols n (insert m d) acc1" using count_cell_counted [OF s(1) Cons.prems(2) _ Cons.prems(5-7)] Cons.prems(4) nc by auto
  from Cons.IH [OF s(2) this] Cons.prems nc show ?case by auto
qed simp

lemma count_absent_counted:
  assumes "counted cols n (set present) acc"
  shows "counted cols (n + 1) {} (count_absent cols present acc)"
  using assms count_null_ok by (auto simp: counted_def count_absent_def)

text \<open>What the walks report: distinct names and a cell for each.\<close>

definition visit_ok :: "visit \<Rightarrow> bool" where
  "visit_ok v \<longleftrightarrow> distinct (fst v) \<and> (case fst (snd v) of None \<Rightarrow> True | Some cs \<Rightarrow> length cs = length (fst v))"

lemma count_visits_counted:
  "count_visits env p cols (vs, e) (rows, acc, b) = (None, rows', acc', b') \<Longrightarrow> list_all visit_ok vs \<Longrightarrow> counted cols rows {} acc
    \<Longrightarrow> 0 \<le> rows \<Longrightarrow> distinct cols \<Longrightarrow> tp_lengths p = length_bounds \<Longrightarrow> tp_boundaries p = numeric_boundaries
    \<Longrightarrow> counted cols rows' {} acc' \<and> 0 \<le> rows'"
proof (induction vs arbitrary: rows acc b)
  case (Cons v vs)
  obtain names c o' where v: "v = (names, c, o')" by (metis prod_cases3)
  show ?case
  proof (cases c)
    case None
    then show ?thesis using Cons.IH [of rows acc b] Cons.prems v by simp
  next
    case (Some cs)
    obtain acc1 b1 where s: "count_cells env p cols (zip names cs) (acc, b) = (None, acc1, b1)"
        "count_visits env p cols (vs, e) (rows + 1, count_absent cols names acc1, b1) = (None, rows', acc', b')"
      using Cons.prems(1) v Some by (auto split: if_splits option.splits prod.splits)
    have n: "distinct names" "length cs = length names" using Cons.prems(2) v Some by (simp_all add: visit_ok_def)
    have "fst ` set (zip names cs) = set names" using n(2) by (metis list.set_map map_fst_zip)
    then have "counted cols rows (set names) acc1"
      using count_cells_counted [OF s(1) Cons.prems(3)] n Cons.prems(5-7) by simp
    from Cons.IH [OF s(2) _ count_absent_counted [OF this]] Cons.prems show ?thesis by simp
  qed
qed simp

lemma csv_rows_ok: "csv_rows p late comma names offset inp e k = (vs, x) \<Longrightarrow> distinct names \<Longrightarrow> list_all visit_ok vs"
proof (induction p late comma names offset inp e k arbitrary: vs x rule: csv_rows.induct)
  case (1 p late comma names offset inp e k)
  obtain res r where c: "csv_record comma inp e = (res, r)" by fastforce
  note s = 1(2) [unfolded csv_rows.simps [of p late comma names offset inp]]
  show ?case
  proof (cases "late k")
    case False
    show ?thesis
    proof (cases res)
      case (CsvRow fs)
      let ?used = "length inp - length r"
      show ?thesis
      proof (cases "length fs = length names \<and> \<not> int ?used > tp_record p \<and> list_all (\<lambda>f. valid_utf8 f \<and> int (length f) \<le> tp_scalar p) fs")
        case True
        obtain ws y where w: "csv_rows p late comma names (offset + ?used) r e (k + 1) = (ws, y)" by fastforce
        have "vs = (names, Some (map TextCell fs), offset + ?used) # ws" using s False c CsvRow True w by (simp add: Let_def)
        moreover have "list_all visit_ok ws" using 1(1) [OF False c [symmetric] CsvRow refl _ _ _ w 1(3)] True by simp
        moreover have "visit_ok (names, Some (map TextCell fs), offset + ?used)" using True 1(3) by (simp add: visit_ok_def)
        ultimately show ?thesis by simp
      next
        case f: False
        then show ?thesis using s False c CsvRow by (auto simp: Let_def split: if_splits)
      qed
    qed (use s False c in auto)
  qed (use s in auto)
qed

lemma jsonl_rows_ok: "jsonl_rows env p late e offset k ls = (vs, x) \<Longrightarrow> list_all visit_ok vs"
proof (induction ls arbitrary: offset k vs x)
  case (Cons l ls)
  show ?case
  proof (cases "json_line env p (without_return l)")
    case None
    then show ?thesis using Cons by (auto simp: Let_def split: if_splits)
  next
    case (Some m)
    then have "distinct (map fst m)" by (auto simp: json_line_def name_ok_def split: prod.splits list.splits token.splits bool.splits option.splits if_splits)
    then show ?thesis using Cons Some by (auto simp: Let_def visit_ok_def split: if_splits prod.splits)
  qed
qed simp

lemma walk_text_ok:
  assumes "walk_text env p late sizes fmt inp e = (vs, x)"
  shows "list_all visit_ok vs"
proof (cases "fmt = ''jsonl''")
  case True
  then show ?thesis using assms jsonl_rows_ok by (simp add: walk_text_def)
next
  case False
  then show ?thesis using assms csv_rows_ok
    by (fastforce simp: walk_text_def walk_csv_def Let_def visit_ok_def name_ok_def split: prod.splits csv_read.splits if_splits)
qed


subsection \<open>What is published\<close>

definition no_small_count :: "int list \<Rightarrow> bool" where
  "no_small_count xs \<longleftrightarrow> list_all (\<lambda>x. x = 0 \<or> 10 \<le> x) xs"

text \<open>A histogram over k buckets that counts n values, published for the kinds that want one.\<close>

definition histogram_ok :: "nat \<Rightarrow> int \<Rightarrow> bool \<Rightarrow> col_fact \<Rightarrow> bool" where
  "histogram_ok k n wanted f \<longleftrightarrow> (case f of CNil \<Rightarrow> \<not> wanted | CSuppressed \<Rightarrow> wanted
     | CHist h \<Rightarrow> wanted \<and> length h = k \<and> sum_list h = n \<and> no_small_count h | _ \<Rightarrow> False)"

definition rate_ok :: "int \<Rightarrow> int \<Rightarrow> col_fact \<Rightarrow> bool" where
  "rate_ok nulls rows f \<longleftrightarrow> (case f of CSuppressed \<Rightarrow> True
     | CRate s \<Rightarrow> no_small_count [nulls, rows - nulls] \<and> s = rate_string (rate_units nulls rows) | _ \<Rightarrow> False)"

definition distinct_ok :: "col_fact \<Rightarrow> bool" where
  "distinct_ok f \<longleftrightarrow> (case f of CSuppressed \<Rightarrow> True | CEstimate n \<Rightarrow> \<not> (1 \<le> n \<and> n \<le> 9) | _ \<Rightarrow> False)"

text \<open>The facts of one column with that many nulls.\<close>

definition column_ok :: "int \<Rightarrow> int \<Rightarrow> column_fact \<Rightarrow> bool" where
  "column_ok rows nulls c \<longleftrightarrow> 0 \<le> nulls \<and> nulls \<le> rows \<and> rate_ok nulls rows (cf_null_rate c) \<and> distinct_ok (cf_distinct c)
     \<and> histogram_ok 10 (rows - nulls) (text_kind (cf_type c)) (cf_length c)
     \<and> histogram_ok 8 (rows - nulls) (number_kind (cf_type c)) (cf_numeric c)"

definition table_ok :: "table_object \<Rightarrow> bool" where
  "table_ok o' \<longleftrightarrow> distinct (to_names o') \<and> length (to_columns o') = length (to_names o') \<and> 0 \<le> to_rows o'
     \<and> (\<exists>nulls. list_all2 (column_ok (to_rows o')) nulls (to_columns o'))"

lemma low_small: "list_all ((\<le>) 0) xs \<Longrightarrow> \<not> low xs \<Longrightarrow> no_small_count xs"
  by (fastforce simp: low_def no_small_count_def list_all_iff list_ex_iff)

lemma column_of_ok:
  assumes "tally_ok rows a"
  shows "column_ok rows (ta_nulls a) (column_of rows (aggregate_of env a))"
proof -
  have "no_small_count [ta_nulls a, rows - ta_nulls a]" if "\<not> low [ta_nulls a, rows - ta_nulls a]"
    using that assms by (intro low_small) (simp_all add: tally_ok_def)
  then have "rate_ok (ta_nulls a) rows (null_rate_fact (ta_nulls a) rows)" by (simp add: rate_ok_def null_rate_fact_def)
  moreover have "histogram_ok 10 (rows - ta_nulls a) (text_kind (ta_kind a)) (if text_kind (ta_kind a) then histogram_fact (ta_lengths a) rows else CNil)"
    using assms low_small [of "ta_lengths a"] by (simp add: histogram_ok_def histogram_fact_def tally_ok_def)
  moreover have "histogram_ok 8 (rows - ta_nulls a) (number_kind (ta_kind a)) (if number_kind (ta_kind a) then histogram_fact (ta_numeric a) rows else CNil)"
    using assms low_small [of "ta_numeric a"] by (simp add: histogram_ok_def histogram_fact_def tally_ok_def)
  moreover have "distinct_ok (cf_distinct (column_of rows (aggregate_of env a)))"
    by (auto simp: column_of_def distinct_ok_def ambiguous_distinct_def min_int64_def max_int64_def)
  moreover have "cf_length (column_of rows (aggregate_of env a)) = (if text_kind (ta_kind a) then histogram_fact (ta_lengths a) rows else CNil)"
    "cf_numeric (column_of rows (aggregate_of env a)) = (if number_kind (ta_kind a) then histogram_fact (ta_numeric a) rows else CNil)"
    "cf_type (column_of rows (aggregate_of env a)) = ta_kind a"
    "cf_null_rate (column_of rows (aggregate_of env a)) = null_rate_fact (ta_nulls a) rows"
    by (simp_all add: column_of_def aggregate_of_def text_kind_def number_kind_def)
  moreover have "0 \<le> ta_nulls a" "ta_nulls a \<le> rows" using assms by (simp_all add: tally_ok_def)
  ultimately show ?thesis unfolding column_ok_def by (simp only: simp_thms)
qed

lemma count_table_ok:
  assumes "count_table env p cols (vs, e) b = (Inr o', b')" and "list_all visit_ok vs" and "distinct (map fst cols)"
    and "tp_lengths p = length_bounds" and "tp_boundaries p = numeric_boundaries"
  shows "table_ok o'"
proof -
  let ?acc = "map (\<lambda>(i, c). new_tally p i (snd c)) (zip [0..<length cols] cols)"
  obtain rows acc b1 where c: "count_visits env p (map fst cols) (vs, e) (0, ?acc, b) = (None, rows, acc, b1)"
      "o' = \<lparr>to_id = '''', to_names = map fst cols, to_columns = finish_columns rows (map (aggregate_of env) acc), to_rows = rows\<rparr>"
    using assms(1) by (auto simp: count_table_def split: prod.splits option.splits)
  have "counted (map fst cols) 0 {} ?acc" by (simp add: counted_def new_tally_ok)
  then have "counted (map fst cols) rows {} acc \<and> 0 \<le> rows"
    using count_visits_counted [OF c(1)] assms by simp
  then have a: "length acc = length cols" "\<forall>i < length cols. tally_ok rows (acc ! i)" "0 \<le> rows" by (simp_all add: counted_def)
  then have "list_all2 (column_ok rows) (map ta_nulls acc) (to_columns o')"
    using column_of_ok by (simp add: c(2) finish_columns_def list_all2_conv_all_nth)
  then show ?thesis using a(1,3) assms(3) c(2) by (auto simp: table_ok_def finish_columns_def)
qed

text \<open>The inferred columns have distinct names.\<close>

lemma set_kind_names [simp]: "map fst (set_kind n k cols) = map fst cols"
  by (induction cols) (auto simp: set_kind_def)

lemma infer_column_distinct:
  assumes "infer_column env p fmt offset nc (cols, b) = (e, cols', b')" and "distinct (map fst cols)"
  shows "distinct (map fst cols')"
  using assms by (auto simp: infer_column_def Let_def split: prod.splits if_splits option.splits sum.splits)

lemma infer_columns_distinct:
  "infer_columns env p fmt offset ncs (cols, b) = (e, cols', b') \<Longrightarrow> distinct (map fst cols) \<Longrightarrow> distinct (map fst cols')"
proof (induction ncs arbitrary: cols b)
  case (Cons nc ncs)
  obtain e1 cols1 b1 where s: "infer_column env p fmt offset nc (cols, b) = (e1, cols1, b1)" by (metis prod_cases3)
  from infer_column_distinct [OF s Cons.prems(2)] Cons.IH [of cols1 b1] Cons.prems s show ?case by (auto split: option.splits)
qed simp

lemma infer_visits_distinct:
  "infer_visits env p fmt (vs, e) (cols, b) = (e', cols', b') \<Longrightarrow> distinct (map fst cols) \<Longrightarrow> distinct (map fst cols')"
proof (induction vs arbitrary: cols b)
  case (Cons v vs)
  obtain e1 cols1 b1 where s: "infer_columns env p fmt (snd (snd v)) (visit_pairs v) (cols, b) = (e1, cols1, b1)" by (metis prod_cases3)
  from infer_columns_distinct [OF s Cons.prems(2)] Cons.IH [of cols1 b1] Cons.prems s show ?case by (auto split: option.splits)
qed simp

lemma parse_member_distinct:
  assumes "parse_member env p io fmt m bs e b1 = (err, cols, b2)"
  shows "distinct (map fst cols)"
proof -
  obtain vs w where "walk_text env p (pi_late io) (pi_sizes io) fmt bs e = (vs, w)" by fastforce
  then show ?thesis using assms infer_visits_distinct [of env p fmt vs w "[]"] by (auto simp: parse_member_def split: if_splits)
qed

lemma prepared_distinct:
  assumes "prepare_member env p io prev m b = (Inr x, b')"
  shows "distinct (map fst (pm_columns x))"
  using assms parse_member_distinct unfolding prepare_member_def Let_def
  by (fastforce split: prod.splits option.splits if_splits read_end.splits)

lemma checked_bounds: "checked p0 = Inr p \<Longrightarrow> tp_lengths p = length_bounds \<and> tp_boundaries p = numeric_boundaries"
  by (auto simp: checked_def policy_refusal_def with_defaults_def Let_def split: option.splits if_splits)



end
