(* ===== verification/Segments.thy ===== *)
theory Segments
  imports Prelude
begin

text \<open>
  Byte-range bookkeeping of the delivery ledger (internal/ledger/ledger.go: the type
  segment and the functions transform, covered, firstUntransmitted, countBytes and
  normalize). A segment list denotes, for every byte position, how often the position
  was served; \<open>seg_count\<close> is that denotation and the lemmas state what each routine does
  to it. The locale \<open>coverage_map\<close> is the contract the ledger operations use.
\<close>

subsection \<open>Segments and the routines on them\<close>

record segment =
  seg_a :: int
  seg_b :: int
  seg_c :: int

fun seg_count :: "segment list \<Rightarrow> int \<Rightarrow> int" where
  "seg_count [] x = 0"
| "seg_count (s # ss) x = (if seg_a s \<le> x \<and> x \<le> seg_b s then seg_c s else seg_count ss x)"

fun extend_last :: "segment list \<Rightarrow> int \<Rightarrow> segment list" where
  "extend_last out hi = butlast out @ [(last out)\<lparr>seg_b := hi\<rparr>]"

text \<open>
  One round of transform's loop, for the elementary interval from \<open>lo\<close> to \<open>hi\<close>: skip
  an empty one, compute its new count, skip a count that is not positive, extend the
  last output segment or append a new one.
\<close>

definition transform_emit ::
  "segment list \<Rightarrow> int \<Rightarrow> int \<Rightarrow> int \<Rightarrow> int \<Rightarrow> int \<Rightarrow> segment list \<Rightarrow> segment list" where
  "transform_emit s a b delta lo hi out =
     (if lo > hi then out
      else let c = seg_count s lo + (if a \<le> lo \<and> lo \<le> b then delta else 0) in
        if c \<le> 0 then out
        else if out \<noteq> [] \<and> seg_b (last out) + 1 = lo \<and> seg_c (last out) = c
          then extend_last out hi
          else out @ [\<lparr>seg_a = lo, seg_b = hi, seg_c = c\<rparr>])"

fun transform_loop ::
  "segment list \<Rightarrow> int \<Rightarrow> int \<Rightarrow> int \<Rightarrow> int list \<Rightarrow> segment list \<Rightarrow> segment list" where
  "transform_loop s a b delta (p # q # ps) out =
     transform_loop s a b delta (q # ps) (transform_emit s a b delta p (q - 1) out)"
| "transform_loop s a b delta ps out = out"

definition boundary_points :: "segment list \<Rightarrow> int \<Rightarrow> int \<Rightarrow> int list" where
  "boundary_points s a b = a # (b + 1) # concat (map (\<lambda>x. [seg_a x, seg_b x + 1]) s)"

definition transform :: "segment list \<Rightarrow> int \<Rightarrow> int \<Rightarrow> int \<Rightarrow> segment list" where
  "transform s a b delta =
     (if a > b then s
      else transform_loop s a b delta (sort (boundary_points s a b)) [])"

fun covered :: "segment list \<Rightarrow> int \<Rightarrow> int \<Rightarrow> bool" where
  "covered [] a b = False"
| "covered (x # s) a b = (if seg_a x \<le> a \<and> seg_b x \<ge> b then True else covered s a b)"

fun first_untransmitted_loop :: "segment list \<Rightarrow> int \<Rightarrow> int" where
  "first_untransmitted_loop [] nxt = nxt"
| "first_untransmitted_loop (x # s) nxt =
     (if seg_a x > nxt then nxt
      else first_untransmitted_loop s (if seg_b x \<ge> nxt then seg_b x + 1 else nxt))"

definition first_untransmitted :: "segment list \<Rightarrow> int \<Rightarrow> int" where
  "first_untransmitted s sz = min (first_untransmitted_loop s 0) sz"

fun count_bytes_loop :: "segment list \<Rightarrow> int \<Rightarrow> int" where
  "count_bytes_loop [] n = n"
| "count_bytes_loop (x # s) n = count_bytes_loop s (n + (seg_b x - seg_a x + 1))"

definition count_bytes :: "segment list \<Rightarrow> int" where
  "count_bytes s = count_bytes_loop s 0"

fun normalize_loop :: "segment list \<Rightarrow> segment list \<Rightarrow> segment list" where
  "normalize_loop [] out = out"
| "normalize_loop (x # s) out =
     (if out \<noteq> [] \<and> seg_a x \<le> seg_b (last out) + 1 \<and> seg_c x = seg_c (last out)
      then normalize_loop s (extend_last out (max (seg_b (last out)) (seg_b x)))
      else normalize_loop s (out @ [x]))"

definition normalize_segs :: "segment list \<Rightarrow> segment list" where
  "normalize_segs s = normalize_loop s []"

subsection \<open>Well-formed segment lists\<close>

text \<open>In start order, disjoint, non-empty and with positive counts.\<close>

definition seg_wf :: "segment list \<Rightarrow> bool" where
  "seg_wf ss \<longleftrightarrow> sorted_wrt (\<lambda>s t. seg_b s < seg_a t) ss
     \<and> (\<forall>s \<in> set ss. seg_a s \<le> seg_b s \<and> 0 < seg_c s)"

text \<open>Neighbours that touch carry different counts: no segment can be merged.\<close>

fun seg_maximal :: "segment list \<Rightarrow> bool" where
  "seg_maximal (s # t # ss) \<longleftrightarrow> (seg_b s + 1 = seg_a t \<longrightarrow> seg_c s \<noteq> seg_c t) \<and> seg_maximal (t # ss)"
| "seg_maximal ss \<longleftrightarrow> True"

text \<open>What a byte's count becomes when \<open>delta\<close> is added on the range.\<close>

definition bumped :: "int \<Rightarrow> int \<Rightarrow> int \<Rightarrow> int \<Rightarrow> int \<Rightarrow> int" where
  "bumped c a b delta x = max 0 (c + (if a \<le> x \<and> x \<le> b then delta else 0))"

lemma seg_wf_Nil [simp]: "seg_wf []"
  by (simp add: seg_wf_def)

lemma seg_wf_Cons:
  "seg_wf (s # ss) \<longleftrightarrow> seg_a s \<le> seg_b s \<and> 0 < seg_c s \<and> (\<forall>t \<in> set ss. seg_b s < seg_a t) \<and> seg_wf ss"
  by (auto simp: seg_wf_def)

lemma seg_wf_append:
  "seg_wf (xs @ ys) \<longleftrightarrow> seg_wf xs \<and> seg_wf ys \<and> (\<forall>s \<in> set xs. \<forall>t \<in> set ys. seg_b s < seg_a t)"
  by (auto simp: seg_wf_def sorted_wrt_append)

lemma seg_count_append:
  "(\<forall>s \<in> set xs. \<not> (seg_a s \<le> x \<and> x \<le> seg_b s)) \<Longrightarrow> seg_count (xs @ ys) x = seg_count ys x"
  by (induction xs) auto

lemma seg_count_append_hit:
  "\<exists>s \<in> set xs. seg_a s \<le> x \<and> x \<le> seg_b s \<Longrightarrow> seg_count (xs @ ys) x = seg_count xs x"
  by (induction xs) auto

lemma seg_count_outside:
  "(\<forall>s \<in> set xs. \<not> (seg_a s \<le> x \<and> x \<le> seg_b s)) \<Longrightarrow> seg_count xs x = 0"
  by (induction xs) auto

lemma seg_count_member:
  "seg_wf ss \<Longrightarrow> s \<in> set ss \<Longrightarrow> seg_a s \<le> x \<Longrightarrow> x \<le> seg_b s \<Longrightarrow> seg_count ss x = seg_c s"
  by (induction ss) (force simp: seg_wf_Cons)+

lemma seg_count_nonneg: "seg_wf ss \<Longrightarrow> 0 \<le> seg_count ss x"
  by (induction ss) (auto simp: seg_wf_Cons)

lemma seg_count_pos_iff:
  "seg_wf ss \<Longrightarrow> 0 < seg_count ss x \<longleftrightarrow> (\<exists>s \<in> set ss. seg_a s \<le> x \<and> x \<le> seg_b s)"
  by (induction ss) (auto simp: seg_wf_Cons)

lemma seg_count_last_before:
  "(\<forall>s \<in> set xs. seg_b s < x) \<Longrightarrow> seg_count xs x = 0"
  by (rule seg_count_outside) auto

text \<open>Between two neighbouring boundary points the count is constant.\<close>

lemma seg_count_elementary:
  assumes "\<forall>s \<in> set ss. (seg_a s \<le> lo \<or> x < seg_a s) \<and> (seg_b s < lo \<or> x \<le> seg_b s)" and "lo \<le> x"
  shows "seg_count ss x = seg_count ss lo"
  using assms(1)
proof (induction ss)
  case Nil
  then show ?case by simp
next
  case (Cons s ss)
  then have "seg_a s \<le> lo \<or> x < seg_a s" "seg_b s < lo \<or> x \<le> seg_b s"
    and "seg_count ss x = seg_count ss lo"
    by simp_all
  with assms(2) show ?case by auto
qed

subsection \<open>transform adds on a range\<close>

text \<open>The output slice between two rounds of the loop: closed before the next point.\<close>

definition out_ok :: "segment list \<Rightarrow> int \<Rightarrow> bool" where
  "out_ok out p \<longleftrightarrow> seg_wf out \<and> seg_maximal out \<and> (\<forall>s \<in> set out. seg_b s < p)"

lemma out_ok_mono: "out_ok out p \<Longrightarrow> p \<le> q \<Longrightarrow> out_ok out q"
  by (auto simp: out_ok_def)

lemma seg_maximal_snoc:
  "seg_maximal (xs @ [t]) \<longleftrightarrow> seg_maximal xs \<and>
     (xs \<noteq> [] \<longrightarrow> seg_b (last xs) + 1 = seg_a t \<longrightarrow> seg_c (last xs) \<noteq> seg_c t)"
  by (induction xs rule: seg_maximal.induct) auto

lemma extend_last_snoc [simp]: "extend_last (xs @ [s]) hi = xs @ [s\<lparr>seg_b := hi\<rparr>]"
  by simp

declare extend_last.simps [simp del]

lemma out_ok_push:
  assumes "out_ok out lo" and "lo \<le> hi" and "0 < c"
    and "out = [] \<or> seg_b (last out) + 1 \<noteq> lo \<or> seg_c (last out) \<noteq> c"
  shows "out_ok (out @ [\<lparr>seg_a = lo, seg_b = hi, seg_c = c\<rparr>]) (hi + 1)"
  using assms by (auto simp: out_ok_def seg_wf_append seg_wf_Cons seg_maximal_snoc)

lemma out_ok_extend:
  assumes "out_ok out lo" and "lo \<le> hi" and "out \<noteq> []"
  shows "out_ok (extend_last out hi) (hi + 1)"
proof -
  obtain xs s where out: "out = xs @ [s]" using assms(3) by (metis rev_exhaust)
  show ?thesis using assms(1,2)
    by (auto simp: out out_ok_def seg_wf_append seg_wf_Cons seg_maximal_snoc)
qed

lemma seg_count_push:
  assumes "out_ok out lo"
  shows "seg_count (out @ [\<lparr>seg_a = lo, seg_b = hi, seg_c = c\<rparr>]) x =
    (if lo \<le> x \<and> x \<le> hi then c else seg_count out x)"
proof (cases "\<exists>s \<in> set out. seg_a s \<le> x \<and> x \<le> seg_b s")
  case True
  with assms have "x < lo" by (auto simp: out_ok_def)
  with True show ?thesis by (simp add: seg_count_append_hit)
next
  case False
  then show ?thesis by (simp add: seg_count_append seg_count_outside)
qed

lemma seg_count_extend:
  assumes "out_ok out lo" and "out \<noteq> []" and "seg_b (last out) + 1 = lo" and "lo \<le> hi"
  shows "seg_count (extend_last out hi) x =
    (if lo \<le> x \<and> x \<le> hi then seg_c (last out) else seg_count out x)"
proof -
  obtain xs s where out: "out = xs @ [s]" using assms(2) by (metis rev_exhaust)
  have before: "\<forall>t \<in> set xs. seg_b t < seg_a s" and s: "seg_a s \<le> seg_b s" "seg_b s + 1 = lo"
    using assms(1,3) by (auto simp: out out_ok_def seg_wf_append seg_wf_Cons)
  show ?thesis
  proof (cases "\<exists>t \<in> set xs. seg_a t \<le> x \<and> x \<le> seg_b t")
    case True
    with before s have "x < lo" by auto
    with True show ?thesis by (simp add: out seg_count_append_hit)
  next
    case False
    with s assms(4) show ?thesis by (auto simp: out seg_count_append)
  qed
qed

lemma out_ok_count_zero: "out_ok out p \<Longrightarrow> p \<le> x \<Longrightarrow> seg_count out x = 0"
  by (rule seg_count_last_before) (force simp: out_ok_def)

lemma transform_emit_ok:
  assumes "out_ok out p" and "p \<le> q"
  shows "out_ok (transform_emit s a b delta p (q - 1) out) q"
proof -
  obtain c where c: "c = seg_count s p + (if a \<le> p \<and> p \<le> b then delta else 0)" by blast
  show ?thesis
    using assms out_ok_mono [OF assms] out_ok_extend [of out p "q - 1"]
      out_ok_push [of out p "q - 1" c]
    by (auto simp: transform_emit_def Let_def simp flip: c)
qed

lemma transform_emit_count:
  assumes "out_ok out p" and "p \<le> q"
  shows "seg_count (transform_emit s a b delta p (q - 1) out) x =
    (if p \<le> x \<and> x < q then bumped (seg_count s p) a b delta p else seg_count out x)"
proof -
  obtain c where c: "c = seg_count s p + (if a \<le> p \<and> p \<le> b then delta else 0)" by blast
  have "bumped (seg_count s p) a b delta p = max 0 c" by (simp add: bumped_def c)
  then show ?thesis
    using assms out_ok_count_zero [OF assms(1), of x] seg_count_extend [of out p "q - 1" x]
      seg_count_push [OF assms(1), of "q - 1" c x]
    by (auto simp: transform_emit_def Let_def simp flip: c)
qed

lemma transform_loop_props:
  assumes "sorted (p # ps)" and "out_ok out p"
    and "\<forall>y \<in> set (boundary_points s a b). y \<le> p \<or> y \<in> set ps"
  shows "(\<exists>q. out_ok (transform_loop s a b delta (p # ps) out) q)
    \<and> (\<forall>x. seg_count (transform_loop s a b delta (p # ps) out) x =
        (if x < p then seg_count out x else bumped (seg_count s x) a b delta x))"
  using assms
proof (induction ps arbitrary: p out)
  case Nil
  have le: "a \<le> p" "b + 1 \<le> p" "\<forall>t \<in> set s. seg_b t + 1 \<le> p"
    using Nil.prems(3) by (auto simp: boundary_points_def)
  have "seg_count s x = 0" if "p \<le> x" for x
    using le(3) that by (intro seg_count_last_before) force
  with le Nil.prems(2) show ?case by (auto simp: bumped_def out_ok_count_zero)
next
  case (Cons q ps)
  let ?out = "transform_emit s a b delta p (q - 1) out"
  have srt: "sorted (q # ps)" and pq: "p \<le> q" using Cons.prems(1) by auto
  have bq: "\<forall>y \<in> set (boundary_points s a b). y \<le> q \<or> y \<in> set ps"
    using Cons.prems(3) pq by auto
  have gap: "\<forall>y \<in> set (boundary_points s a b). y \<le> p \<or> q \<le> y"
    using Cons.prems(1,3) by fastforce
  have const: "bumped (seg_count s p) a b delta p = bumped (seg_count s x) a b delta x"
    if "p \<le> x" "x < q" for x
  proof -
    have "\<forall>t \<in> set s. (seg_a t \<le> p \<or> q \<le> seg_a t) \<and> (seg_b t + 1 \<le> p \<or> q \<le> seg_b t + 1)"
      using gap by (auto simp: boundary_points_def)
    then have "\<forall>t \<in> set s. (seg_a t \<le> p \<or> x < seg_a t) \<and> (seg_b t < p \<or> x \<le> seg_b t)"
      using that by force
    then have "seg_count s x = seg_count s p"
      using that by (intro seg_count_elementary) auto
    moreover have "(a \<le> x \<and> x \<le> b) = (a \<le> p \<and> p \<le> b)"
      using gap that by (auto simp: boundary_points_def)
    ultimately show ?thesis by (simp add: bumped_def)
  qed
  have "out_ok ?out q" using Cons.prems(2) pq by (rule transform_emit_ok)
  from Cons.IH [OF srt this bq] const pq show ?case
    by (auto simp: transform_emit_count [OF Cons.prems(2) pq])
qed

lemma transform_loop_sorted:
  assumes "a \<le> b"
  obtains p ps where "sort (boundary_points s a b) = p # ps" "sorted (p # ps)"
    "\<forall>y \<in> set (boundary_points s a b). y \<le> p \<or> y \<in> set ps" "\<And>y. y \<in> set (boundary_points s a b) \<Longrightarrow> p \<le> y"
proof -
  obtain p ps where ps: "sort (boundary_points s a b) = p # ps"
    by (cases "sort (boundary_points s a b)")
      (auto simp: boundary_points_def dest: arg_cong [where f = length])
  have srt: "sorted (p # ps)" by (metis ps sorted_sort)
  have st: "set (boundary_points s a b) = insert p (set ps)"
    by (metis ps set_sort list.simps(15))
  show thesis by (rule that [OF ps srt]) (use srt st in auto)
qed

lemma seg_count_transform_gen:
  assumes "a \<le> b" and "\<forall>t \<in> set s. seg_a t \<le> seg_b t + 1"
  shows "seg_count (transform s a b delta) x = bumped (seg_count s x) a b delta x"
    and "seg_wf (transform s a b delta)" and "seg_maximal (transform s a b delta)"
proof -
  obtain p ps where ps: "sort (boundary_points s a b) = p # ps" "sorted (p # ps)"
    "\<forall>y \<in> set (boundary_points s a b). y \<le> p \<or> y \<in> set ps"
    "\<And>y. y \<in> set (boundary_points s a b) \<Longrightarrow> p \<le> y"
    using assms(1) by (rule transform_loop_sorted [of a b s]) blast
  have tr: "transform s a b delta = transform_loop s a b delta (p # ps) []"
    using assms(1) by (simp add: transform_def ps(1))
  note props = transform_loop_props [OF ps(2) _ ps(3), of "[]" delta]
  have start: "out_ok [] p" by (simp add: out_ok_def)
  have "p \<le> a" "\<And>t. t \<in> set s \<Longrightarrow> p \<le> seg_a t"
    using ps(4) by (auto simp: boundary_points_def)
  then have "bumped (seg_count s x) a b delta x = 0" if "x < p"
    using that seg_count_outside [of s x] by (force simp: bumped_def)
  with props start show "seg_count (transform s a b delta) x = bumped (seg_count s x) a b delta x"
    by (simp add: tr)
  from props start show "seg_wf (transform s a b delta)" "seg_maximal (transform s a b delta)"
    by (auto simp: tr out_ok_def)
qed

lemma seg_wf_nonempty: "seg_wf s \<Longrightarrow> \<forall>t \<in> set s. seg_a t \<le> seg_b t + 1"
  by (fastforce simp: seg_wf_def)

lemma seg_count_transform:
  "seg_wf s \<Longrightarrow> a \<le> b \<Longrightarrow> seg_count (transform s a b delta) x = bumped (seg_count s x) a b delta x"
  by (rule seg_count_transform_gen) (auto dest: seg_wf_nonempty)

lemma transform_empty_range: "b < a \<Longrightarrow> transform s a b delta = s"
  by (simp add: transform_def)

lemma seg_wf_transform: "seg_wf s \<Longrightarrow> seg_wf (transform s a b delta)"
  by (cases "a \<le> b") (auto simp: seg_count_transform_gen(2) seg_wf_nonempty transform_empty_range)


subsection \<open>The contract the ledger relies on\<close>

locale coverage_map =
  fixes cnt :: "'s \<Rightarrow> int \<Rightarrow> int"
    and bump :: "'s \<Rightarrow> int \<Rightarrow> int \<Rightarrow> int \<Rightarrow> 's"
    and wf :: "'s \<Rightarrow> bool"
  assumes cnt_bump: "wf s \<Longrightarrow> a \<le> b \<Longrightarrow> cnt (bump s a b d) x = bumped (cnt s x) a b d x"
    and bump_empty: "b < a \<Longrightarrow> bump s a b d = s"
    and wf_bump: "wf s \<Longrightarrow> wf (bump s a b d)"
    and cnt_nonneg: "wf s \<Longrightarrow> 0 \<le> cnt s x"
begin

lemma cnt_bump_gen:
  "wf s \<Longrightarrow> cnt (bump s a b d) x = (if a \<le> x \<and> x \<le> b then max 0 (cnt s x + d) else cnt s x)"
  using cnt_nonneg [of s x] by (cases "a \<le> b") (auto simp: cnt_bump bump_empty bumped_def)

text \<open>Reserving a range and giving back its unused tail leaves the used part counted.\<close>

lemma reserve_then_release:
  assumes "wf s" and "a \<le> k"
  shows "cnt (bump (bump s a b 1) k b (-1)) x = cnt s x + (if a \<le> x \<and> x < k \<and> x \<le> b then 1 else 0)"
  using assms cnt_nonneg [OF assms(1), of x] by (auto simp: cnt_bump_gen wf_bump)

lemma cnt_bump_le:
  assumes "wf s" and "\<And>x. cnt s x \<le> m" and "\<And>x. a \<le> x \<Longrightarrow> x \<le> b \<Longrightarrow> cnt s x < m"
  shows "cnt (bump s a b 1) x \<le> m"
  using assms(2) [of x] assms(3) [of x] cnt_nonneg [OF assms(1), of x]
  by (auto simp: cnt_bump_gen [OF assms(1)])

lemma cnt_release_le: "wf s \<Longrightarrow> cnt (bump s a b (-1)) x \<le> cnt s x"
  using cnt_nonneg [of s x] by (simp add: cnt_bump_gen)

end

interpretation seg: coverage_map seg_count transform seg_wf
  by unfold_locales
    (auto simp: seg_count_transform seg_wf_transform transform_empty_range seg_count_nonneg)

subsection \<open>Transmitted ranges\<close>

text \<open>
  The transmitted table holds no counts: its segments are well formed, all read with
  count one, and no two of them touch.
\<close>

definition seg_unit :: "segment list \<Rightarrow> bool" where
  "seg_unit ss \<longleftrightarrow> seg_wf ss \<and> seg_maximal ss \<and> (\<forall>s \<in> set ss. seg_c s = 1)"

text \<open>The lines of Progress that add a written range to the transmitted segments.\<close>

definition set_count_one :: "segment list \<Rightarrow> segment list" where
  "set_count_one tr = map (\<lambda>s. s\<lparr>seg_c := 1\<rparr>) tr"

definition mark_range :: "segment list \<Rightarrow> int \<Rightarrow> int \<Rightarrow> segment list" where
  "mark_range tr lo hi = normalize_segs (set_count_one (transform tr lo hi 1))"

lemma seg_wf_set_count_one: "seg_wf ss \<Longrightarrow> seg_wf (set_count_one ss)"
  by (auto simp: seg_wf_def set_count_one_def sorted_wrt_map)

lemma seg_count_set_count_one:
  "seg_wf ss \<Longrightarrow> seg_count (set_count_one ss) x = (if 0 < seg_count ss x then 1 else 0)"
  by (induction ss) (auto simp: set_count_one_def seg_wf_Cons)

lemma normalize_loop_props:
  assumes "seg_wf s" and "\<forall>t \<in> set s. seg_c t = 1"
    and "seg_wf out" and "seg_maximal out" and "\<forall>t \<in> set out. seg_c t = 1"
    and "\<forall>u \<in> set out. \<forall>t \<in> set s. seg_b u < seg_a t"
  shows "seg_unit (normalize_loop s out)
    \<and> (\<forall>x. seg_count (normalize_loop s out) x = max (seg_count out x) (seg_count s x))"
  using assms
proof (induction s arbitrary: out)
  case Nil
  then show ?case using seg_count_nonneg [OF Nil.prems(3)] by (simp add: seg_unit_def max_absorb1)
next
  case (Cons t s)
  have t: "seg_a t \<le> seg_b t" "seg_c t = 1" "seg_wf s" "\<forall>u \<in> set s. seg_b t < seg_a u"
    using Cons.prems(1,2) by (auto simp: seg_wf_Cons)
  have ok: "out_ok out (seg_a t)" using Cons.prems(3,4,6) by (auto simp: out_ok_def)
  have s0: "seg_count s x = 0" if "x \<le> seg_b t" for x
    using t(4) that by (intro seg_count_outside) force
  show ?case
  proof (cases "out \<noteq> [] \<and> seg_a t \<le> seg_b (last out) + 1 \<and> seg_c t = seg_c (last out)")
    case True
    then have ne: "out \<noteq> []" by simp
    then obtain xs l where out: "out = xs @ [l]" by (metis rev_exhaust)
    have l: "seg_b l + 1 = seg_a t" "seg_c l = 1"
      using True Cons.prems(5,6) by (auto simp: out)
    let ?out = "extend_last out (seg_b t)"
    have step: "normalize_loop (t # s) out = normalize_loop s ?out"
      using True l t(1) by (simp add: out)
    have ok': "out_ok ?out (seg_b t + 1)" using out_ok_extend [OF ok t(1) ne] .
    have cnt: "seg_count ?out x = (if seg_a t \<le> x \<and> x \<le> seg_b t then 1 else seg_count out x)" for x
      using seg_count_extend [OF ok ne _ t(1)] l by (simp add: out)
    have one: "\<forall>u \<in> set ?out. seg_c u = 1" using Cons.prems(5) by (auto simp: out)
    have before: "\<forall>v \<in> set ?out. \<forall>u \<in> set s. seg_b v < seg_a u"
      using ok' t(4) by (force simp: out_ok_def)
    have IH: "seg_unit (normalize_loop s ?out)"
      "\<And>x. seg_count (normalize_loop s ?out) x = max (seg_count ?out x) (seg_count s x)"
      using Cons.IH [OF t(3) _ _ _ one before] ok' Cons.prems(2) by (auto simp: out_ok_def)
    show ?thesis unfolding step
      using IH cnt t(2) s0 out_ok_count_zero [OF ok] seg_count_nonneg [OF t(3)] by (auto simp: max_def)
  next
    case False
    let ?out = "out @ [t]"
    have step: "normalize_loop (t # s) out = normalize_loop s ?out" using False by auto
    have tt: "t = \<lparr>seg_a = seg_a t, seg_b = seg_b t, seg_c = 1\<rparr>" using t(2) by simp
    have far: "out = [] \<or> seg_b (last out) + 1 \<noteq> seg_a t \<or> seg_c (last out) \<noteq> 1"
      using False t(2) by auto
    have ok': "out_ok ?out (seg_b t + 1)"
      using out_ok_push [OF ok t(1) _ far] by (simp flip: tt)
    have cnt: "seg_count ?out x = (if seg_a t \<le> x \<and> x \<le> seg_b t then 1 else seg_count out x)" for x
      using seg_count_push [OF ok, of "seg_b t" 1 x] by (simp flip: tt)
    have one: "\<forall>u \<in> set ?out. seg_c u = 1" using Cons.prems(5) t(2) by auto
    have before: "\<forall>v \<in> set ?out. \<forall>u \<in> set s. seg_b v < seg_a u"
      using ok' t(4) by (force simp: out_ok_def)
    have IH: "seg_unit (normalize_loop s ?out)"
      "\<And>x. seg_count (normalize_loop s ?out) x = max (seg_count ?out x) (seg_count s x)"
      using Cons.IH [OF t(3) _ _ _ one before] ok' Cons.prems(2) by (auto simp: out_ok_def)
    show ?thesis unfolding step
      using IH cnt t(2) s0 out_ok_count_zero [OF ok] seg_count_nonneg [OF t(3)] by (auto simp: max_def)
  qed
qed

lemma normalize_segs_props:
  assumes "seg_wf s" and "\<forall>t \<in> set s. seg_c t = 1"
  shows "seg_unit (normalize_segs s)" and "seg_count (normalize_segs s) x = seg_count s x"
  using normalize_loop_props [of s "[]"] assms seg_count_nonneg [OF assms(1), of x]
  by (auto simp: normalize_segs_def)

lemma seg_unit_mark_range: "seg_unit tr \<Longrightarrow> seg_unit (mark_range tr lo hi)"
  unfolding mark_range_def
  by (rule normalize_segs_props(1))
    (simp add: seg_unit_def seg_wf_set_count_one seg_wf_transform, simp add: set_count_one_def)

lemma seg_count_unit: "seg_unit tr \<Longrightarrow> seg_count tr x = (if 0 < seg_count tr x then 1 else 0)"
  using seg_count_set_count_one [of tr x]
  by (simp add: seg_unit_def set_count_one_def map_idI)

lemma seg_count_mark_range:
  assumes "seg_unit tr"
  shows "seg_count (mark_range tr lo hi) x = (if lo \<le> x \<and> x \<le> hi then 1 else seg_count tr x)"
proof -
  have wf: "seg_wf (transform tr lo hi 1)"
    using assms by (simp add: seg_unit_def seg_wf_transform)
  have "seg_count (mark_range tr lo hi) x = (if 0 < seg_count (transform tr lo hi 1) x then 1 else 0)"
    unfolding mark_range_def
    by (subst normalize_segs_props(2))
      (auto simp: seg_wf_set_count_one wf seg_count_set_count_one, auto simp: set_count_one_def)
  then show ?thesis
    using assms seg_count_unit [OF assms, of x] seg_count_nonneg [of tr x]
    by (auto simp: seg.cnt_bump_gen seg_unit_def split: if_splits)
qed


subsection \<open>Reading transmitted ranges\<close>

lemma covered_iff_single: "covered s a b \<longleftrightarrow> (\<exists>x \<in> set s. seg_a x \<le> a \<and> b \<le> seg_b x)"
  by (induction s) auto

lemma covered_counts: "seg_wf s \<Longrightarrow> covered s a b \<Longrightarrow> a \<le> x \<Longrightarrow> x \<le> b \<Longrightarrow> 0 < seg_count s x"
  by (subst seg_count_pos_iff) (force simp: covered_iff_single)+

lemma seg_maximal_ConsD: "seg_maximal (s # ss) \<Longrightarrow> seg_maximal ss"
  by (cases ss) auto

lemma seg_unit_Cons:
  "seg_unit (s # ss) \<longleftrightarrow> seg_a s \<le> seg_b s \<and> seg_c s = 1 \<and> (\<forall>t \<in> set ss. seg_b s + 1 < seg_a t) \<and> seg_unit ss"
proof (cases ss)
  case Nil
  then show ?thesis by (auto simp: seg_unit_def seg_wf_def)
next
  case (Cons u us)
  have "seg_a u \<le> seg_a t" if "seg_wf ss" "t \<in> set ss" for t
    using that by (force simp: Cons seg_wf_Cons)
  then show ?thesis by (force simp: seg_unit_def seg_wf_Cons Cons)
qed

text \<open>With no two segments touching, a covered range lies inside one segment.\<close>

lemma covered_iff_counts:
  assumes "seg_unit s" and "a \<le> b"
  shows "covered s a b \<longleftrightarrow> (\<forall>x. a \<le> x \<and> x \<le> b \<longrightarrow> 0 < seg_count s x)"
proof
  assume "covered s a b"
  with assms show "\<forall>x. a \<le> x \<and> x \<le> b \<longrightarrow> 0 < seg_count s x"
    by (auto simp: seg_unit_def covered_counts)
next
  assume all: "\<forall>x. a \<le> x \<and> x \<le> b \<longrightarrow> 0 < seg_count s x"
  with assms show "covered s a b"
  proof (induction s)
    case Nil
    then show ?case by auto
  next
    case (Cons t s)
    have t: "seg_a t \<le> seg_b t" "\<forall>u \<in> set s. seg_b t + 1 < seg_a u" "seg_unit s"
      using Cons.prems(1) by (auto simp: seg_unit_Cons)
    show ?case
    proof (cases "seg_a t \<le> a \<and> b \<le> seg_b t")
      case True
      then show ?thesis by simp
    next
      case False
      have gap: "seg_count (t # s) (seg_b t + 1) = 0"
        using t(2) by (intro seg_count_outside) auto
      have before: "seg_count (t # s) x = 0" if "x < seg_a t" for x
        using t(1,2) that by (intro seg_count_outside) force
      have "0 < seg_count (t # s) a" using Cons.prems(3) assms(2) by auto
      then have "seg_a t \<le> a" using before [of a] by linarith
      moreover have "\<not> (a \<le> seg_b t + 1 \<and> seg_b t + 1 \<le> b)"
        using Cons.prems(3) gap by (metis less_irrefl)
      ultimately have "seg_b t + 1 < a" using False assms(2) by linarith
      then have "\<forall>x. a \<le> x \<and> x \<le> b \<longrightarrow> 0 < seg_count s x"
        using Cons.prems(3) by (auto split: if_splits)
      with Cons.IH [OF t(3) assms(2)] show ?thesis by simp
    qed
  qed
qed

lemma first_untransmitted_loop_props:
  assumes "seg_unit s" and "\<forall>t \<in> set s. \<forall>u \<in> set pre. seg_b u + 1 < seg_a t"
    and "seg_unit pre" and "\<forall>x. 0 \<le> x \<and> x < n \<longrightarrow> 0 < seg_count pre x"
    and "0 \<le> n" and "seg_count pre n = 0"
  shows "0 \<le> first_untransmitted_loop s n
    \<and> (\<forall>x. 0 \<le> x \<and> x < first_untransmitted_loop s n \<longrightarrow> 0 < seg_count (pre @ s) x)
    \<and> seg_count (pre @ s) (first_untransmitted_loop s n) = 0"
  using assms
proof (induction s arbitrary: pre n)
  case Nil
  then show ?case by simp
next
  case (Cons t s)
  have t: "seg_a t \<le> seg_b t" "seg_c t = 1" "\<forall>u \<in> set s. seg_b t + 1 < seg_a u" "seg_unit s"
    using Cons.prems(1) by (auto simp: seg_unit_Cons)
  have pos: "0 < seg_count (pre @ xs) x" if "0 \<le> x" "x < n" for x xs
    using Cons.prems(3,4) that seg_count_pos_iff [of pre x] seg_count_append_hit [of pre x xs]
    by (auto simp: seg_unit_def)
  have out_pre: "\<forall>u \<in> set pre. \<not> (seg_a u \<le> n \<and> n \<le> seg_b u)"
    using Cons.prems(3,6) seg_count_pos_iff [of pre n] by (auto simp: seg_unit_def)
  show ?case
  proof (cases "seg_a t > n")
    case True
    have "\<forall>u \<in> set (t # s). n < seg_a u" using True t(1,3) by force
    then have "\<forall>u \<in> set (pre @ t # s). \<not> (seg_a u \<le> n \<and> n \<le> seg_b u)"
      using out_pre by force
    then have "seg_count (pre @ t # s) n = 0" by (rule seg_count_outside)
    with True Cons.prems(5) pos show ?thesis by simp
  next
    case False
    let ?n = "if seg_b t \<ge> n then seg_b t + 1 else n"
    have pre_t: "\<forall>u \<in> set pre. seg_b u + 1 < seg_a t" using Cons.prems(2) by auto
    have unit: "seg_unit (pre @ [t])"
      using Cons.prems(3) pre_t t(1,2)
    proof (induction pre)
      case Nil
      then show ?case by (simp add: seg_unit_def seg_wf_def)
    next
      case (Cons p pre)
      then show ?case by (auto simp: seg_unit_Cons)
    qed
    have far: "\<forall>v \<in> set s. \<forall>u \<in> set (pre @ [t]). seg_b u + 1 < seg_a v"
      using Cons.prems(2) t(3) by auto
    have "0 < seg_count (pre @ [t]) x" if "0 \<le> x" "x < ?n" for x
    proof (cases "x < n")
      case True
      with that pos show ?thesis by simp
    next
      case F: False
      with False that have "seg_a t \<le> x" "x \<le> seg_b t" by (auto split: if_splits)
      with unit show ?thesis
        by (subst seg_count_pos_iff) (auto simp: seg_unit_def)
    qed
    moreover have "seg_count (pre @ [t]) ?n = 0"
      using out_pre pre_t False t(1) by (intro seg_count_outside) (auto split: if_splits)
    ultimately have "0 \<le> first_untransmitted_loop s ?n
        \<and> (\<forall>x. 0 \<le> x \<and> x < first_untransmitted_loop s ?n \<longrightarrow> 0 < seg_count ((pre @ [t]) @ s) x)
        \<and> seg_count ((pre @ [t]) @ s) (first_untransmitted_loop s ?n) = 0"
      using Cons.prems(5) by (intro Cons.IH [OF t(4) far unit]) auto
    with False show ?thesis by simp
  qed
qed

text \<open>The resume offset is the first byte never transmitted, capped by the size.\<close>

lemma first_untransmitted_props:
  assumes "seg_unit s" and "0 \<le> sz"
  shows "0 \<le> first_untransmitted s sz" and "first_untransmitted s sz \<le> sz"
    and "0 \<le> x \<Longrightarrow> x < first_untransmitted s sz \<Longrightarrow> 0 < seg_count s x"
    and "first_untransmitted s sz < sz \<Longrightarrow> seg_count s (first_untransmitted s sz) = 0"
  using first_untransmitted_loop_props [of s "[]" 0] assms
  by (auto simp: first_untransmitted_def seg_unit_def min_def split: if_splits)

text \<open>countBytes is the number of positions with a positive count.\<close>

definition seg_set :: "segment list \<Rightarrow> int set" where
  "seg_set s = {x. 0 < seg_count s x}"

lemma seg_set_Cons:
  assumes "seg_wf (t # s)"
  shows "seg_set (t # s) = {seg_a t..seg_b t} \<union> seg_set s" and "{seg_a t..seg_b t} \<inter> seg_set s = {}"
proof -
  have wf: "seg_wf s" using assms by (simp add: seg_wf_Cons)
  show "seg_set (t # s) = {seg_a t..seg_b t} \<union> seg_set s"
    using assms by (auto simp: seg_set_def seg_wf_Cons split: if_splits)
  have "seg_count s x = 0" if "x \<le> seg_b t" for x
    using assms that by (intro seg_count_outside) (force simp: seg_wf_Cons)
  then show "{seg_a t..seg_b t} \<inter> seg_set s = {}" by (fastforce simp: seg_set_def)
qed

lemma seg_set_finite: "seg_wf s \<Longrightarrow> finite (seg_set s)"
proof (induction s)
  case Nil
  then show ?case by (simp add: seg_set_def)
next
  case (Cons t s)
  then have "finite (seg_set s)" by (simp add: seg_wf_Cons)
  then show ?case by (simp add: seg_set_Cons(1) [OF Cons.prems])
qed

lemma count_bytes_loop_card:
  "seg_wf s \<Longrightarrow> count_bytes_loop s n = n + int (card (seg_set s))"
proof (induction s arbitrary: n)
  case Nil
  then show ?case by (simp add: seg_set_def)
next
  case (Cons t s)
  have wf: "seg_wf s" and t: "seg_a t \<le> seg_b t" using Cons.prems by (auto simp: seg_wf_Cons)
  have "int (card (seg_set (t # s))) = (seg_b t - seg_a t + 1) + int (card (seg_set s))"
    using seg_set_Cons [OF Cons.prems] seg_set_finite [OF wf] t
    by (simp add: card_Un_disjoint)
  with Cons.IH [OF wf] show ?case by simp
qed

lemma count_bytes_card: "seg_wf s \<Longrightarrow> count_bytes s = int (card (seg_set s))"
  by (simp add: count_bytes_def count_bytes_loop_card)

lemma count_bytes_full:
  assumes "seg_unit s" and "seg_set s \<subseteq> {0..<sz}" and "0 < sz"
  shows "count_bytes s = sz \<longleftrightarrow> covered s 0 (sz - 1)"
proof -
  have wf: "seg_wf s" using assms(1) by (simp add: seg_unit_def)
  have "count_bytes s = sz \<longleftrightarrow> card (seg_set s) = card {0..<sz}"
    using assms(3) by (simp add: count_bytes_card wf) linarith
  also have "\<dots> \<longleftrightarrow> seg_set s = {0..<sz}"
    using assms(2) card_subset_eq [of "{0..<sz}"] by auto
  also have "\<dots> \<longleftrightarrow> (\<forall>x. 0 \<le> x \<and> x \<le> sz - 1 \<longrightarrow> 0 < seg_count s x)"
    using assms(2) by (auto simp: seg_set_def)
  finally show ?thesis using covered_iff_counts [OF assms(1), of 0 "sz - 1"] assms(3) by simp
qed

end
