(* ===== verification/LedgerState.thy ===== *)
theory LedgerState
  imports Segments WireTypes
begin

text \<open>
  The ledger's tables (the schema of internal/ledger/ledger.go) and the operations that
  touch one table: instructions seen, receipt outbox, files, offers, permissions,
  expiry and revocation. A table is its list of rows in rowid order. Every operation that
  the code runs inside \<open>tx\<close> is given as the transaction body, a function from the state to
  an error or a result with the new state; \<open>tx\<close> itself rolls back on an error.
\<close>

subsection \<open>Tables\<close>

record offer_row =
  of_fid :: string
  of_sha :: string
  of_lvid :: string
  of_iid :: string
  of_state :: string
  of_approved_at :: "string option"
  of_key_class :: string

record file_row =
  fl_fid :: string
  fl_source :: string
  fl_path :: string
  fl_size :: int
  fl_mtime :: string
  fl_sha :: string
  fl_block_size :: int
  fl_hashes :: "bytes list"
  fl_name :: string
  fl_root :: string
  fl_changed :: int

record perm_row =
  pr_jti :: string
  pr_oid :: string
  pr_fid :: string
  pr_sha :: string
  pr_sd :: int
  pr_td :: int
  pr_ro :: int
  pr_state :: string
  pr_bound_at :: "string option"
  pr_closed_at :: "string option"

record cov_row =
  cv_oid :: string
  cv_fid :: string
  cv_start :: int
  cv_end :: int
  cv_count :: int

record request_row =
  rq_id :: int
  rq_jti :: string
  rq_start :: int
  rq_end :: int
  rq_written :: int
  rq_open :: bool
  rq_isolated :: bool

record outbox_row =
  ob_seq :: nat
  ob_body :: string
  ob_sent_at :: "string option"

record ledger =
  lg_offers :: "offer_row list"
  lg_seen :: "string list"
  lg_answers :: "(string \<times> revoke_ack) list"
  lg_files :: "file_row list"
  lg_perms :: "perm_row list"
  lg_serves :: "cov_row list"
  lg_transmitted :: "cov_row list"
  lg_requests :: "request_row list"
  lg_revocations :: "(string \<times> string) list"
  lg_outbox :: "outbox_row list"
  lg_audited :: "(nat \<times> nat) list"
  lg_completed :: "(string \<times> string) list"

definition empty_ledger :: ledger where
  "empty_ledger = \<lparr>lg_offers = [], lg_seen = [], lg_answers = [], lg_files = [], lg_perms = [],
     lg_serves = [], lg_transmitted = [], lg_requests = [], lg_revocations = [], lg_outbox = [],
     lg_audited = [], lg_completed = []\<rparr>"

text \<open>window: one inventory block, the largest run of bytes written between checkpoints.\<close>

definition window :: int where "window = 8388608"

subsection \<open>Transactions\<close>

text \<open>
  \<open>tx\<close>: a failing begin, an error of the body and a failing commit all leave the database
  as it was (the deferred rollback); only a commit publishes the body's state.
\<close>

definition tx :: "gw_error option \<Rightarrow> gw_error option
    \<Rightarrow> (ledger \<Rightarrow> gw_error + ('a \<times> ledger)) \<Rightarrow> ledger \<Rightarrow> (gw_error + 'a) \<times> ledger" where
  "tx begin_err commit_err fn L =
     (case begin_err of Some e \<Rightarrow> (Inl e, L)
      | None \<Rightarrow> (case fn L of Inl e \<Rightarrow> (Inl e, L)
          | Inr (x, L') \<Rightarrow> (case commit_err of Some e \<Rightarrow> (Inl e, L) | None \<Rightarrow> (Inr x, L'))))"

lemma tx_error_unchanged: "tx b c fn L = (Inl e, L') \<Longrightarrow> L' = L"
  by (auto simp: tx_def split: option.splits sum.splits prod.splits)

lemma tx_ok: "tx b c fn L = (Inr x, L') \<Longrightarrow> fn L = Inr (x, L')"
  by (auto simp: tx_def split: option.splits sum.splits prod.splits)

lemma tx_cases:
  assumes "tx b c fn L = (r, L')"
  obtains "L' = L" | x where "r = Inr x" "fn L = Inr (x, L')"
  using assms by (cases r) (auto dest: tx_error_unchanged tx_ok)

subsection \<open>Instructions seen\<close>

definition seen :: "string \<Rightarrow> ledger \<Rightarrow> bool \<times> ledger" where
  "seen iid L = (if iid \<in> set (lg_seen L) then (True, L)
     else (False, L\<lparr>lg_seen := lg_seen L @ [iid]\<rparr>))"

definition was_seen :: "string \<Rightarrow> ledger \<Rightarrow> bool" where
  "was_seen iid L = (count_rows (\<lambda>x. x = iid) (lg_seen L) \<noteq> 0)"

lemma was_seen_iff: "was_seen iid L \<longleftrightarrow> iid \<in> set (lg_seen L)"
  by (auto simp: was_seen_def count_rows_zero)

lemma was_seen_after_seen: "was_seen j (snd (seen i L)) \<longleftrightarrow> j = i \<or> was_seen j L"
  by (auto simp: was_seen_iff seen_def)

subsection \<open>Receipt outbox\<close>

definition max_nat :: "nat list \<Rightarrow> nat" where
  "max_nat xs = foldr max xs 0"

lemma max_nat_ge: "x \<in> set xs \<Longrightarrow> x \<le> max_nat xs"
  by (induction xs) (auto simp: max_nat_def)

lemma max_nat_le: "(\<And>x. x \<in> set xs \<Longrightarrow> x \<le> m) \<Longrightarrow> max_nat xs \<le> m"
  by (induction xs) (auto simp: max_nat_def)

definition pending_receipts :: "ledger \<Rightarrow> (nat \<times> string) list" where
  "pending_receipts L =
     map (\<lambda>r. (ob_seq r, ob_body r))
       (sort_key ob_seq (filter (\<lambda>r. ob_seq r > max_nat (map fst (lg_audited L))) (lg_outbox L)))"

definition mark_receipt_audited :: "nat \<Rightarrow> nat \<Rightarrow> ledger \<Rightarrow> ledger" where
  "mark_receipt_audited seq audit_seq L =
     (if seq \<in> fst ` set (lg_audited L)
      then L\<lparr>lg_audited := update_rows (\<lambda>r. fst r = seq \<and> snd r \<noteq> audit_seq)
               (\<lambda>r. (seq, audit_seq)) (lg_audited L)\<rparr>
      else L\<lparr>lg_audited := lg_audited L @ [(seq, audit_seq)]\<rparr>)"

definition reconcile_receipts :: "string \<Rightarrow> nat \<Rightarrow> ledger \<Rightarrow> ledger" where
  "reconcile_receipts at seq L =
     L\<lparr>lg_outbox := update_rows (\<lambda>_. True)
         (\<lambda>r. r\<lparr>ob_sent_at := (if \<exists>a \<in> set (lg_audited L). fst a = ob_seq r \<and> snd a \<le> seq
                               then Some at else None)\<rparr>) (lg_outbox L)\<rparr>"

definition reset_receipt_delivery :: "ledger \<Rightarrow> ledger" where
  "reset_receipt_delivery L =
     L\<lparr>lg_outbox := update_rows (\<lambda>_. True) (\<lambda>r. r\<lparr>ob_sent_at := None\<rparr>) (lg_outbox L)\<rparr>"

definition mark_receipt_delivered :: "string \<Rightarrow> nat \<Rightarrow> ledger \<Rightarrow> ledger" where
  "mark_receipt_delivered at seq L =
     L\<lparr>lg_outbox := update_rows (\<lambda>r. ob_seq r = seq \<and> ob_sent_at r = None)
         (\<lambda>r. r\<lparr>ob_sent_at := Some at\<rparr>) (lg_outbox L)\<rparr>"

subsection \<open>Files\<close>

text \<open>
  \<open>PutFile\<close> upserts on the file id and clears the changed flag; \<open>changed\<close> is 0 for a file as
  scanned, 1 for one whose bytes no longer match, 2 for one that disappeared.
\<close>

definition put_file :: "file_row \<Rightarrow> ledger \<Rightarrow> ledger" where
  "put_file r L =
     (let r0 = r\<lparr>fl_changed := 0\<rparr> in
      if \<exists>x \<in> set (lg_files L). fl_fid x = fl_fid r
      then L\<lparr>lg_files := update_rows (\<lambda>x. fl_fid x = fl_fid r) (\<lambda>_. r0) (lg_files L)\<rparr>
      else L\<lparr>lg_files := lg_files L @ [r0]\<rparr>)"

definition file_of :: "string \<Rightarrow> ledger \<Rightarrow> file_row option" where
  "file_of fid L = select_row (\<lambda>r. fl_fid r = fid) (lg_files L)"

definition file_changed :: "file_row \<Rightarrow> bool" where
  "file_changed f = (fl_changed f \<noteq> 0)"

definition file_present :: "file_row \<Rightarrow> bool" where
  "file_present f = (fl_changed f \<noteq> 2)"

definition mark_changed :: "string \<Rightarrow> ledger \<Rightarrow> ledger" where
  "mark_changed fid L =
     L\<lparr>lg_files := update_rows (\<lambda>r. fl_fid r = fid) (\<lambda>r. r\<lparr>fl_changed := 1\<rparr>) (lg_files L)\<rparr>"

definition mark_missing :: "string \<Rightarrow> ledger \<Rightarrow> ledger" where
  "mark_missing fid L =
     L\<lparr>lg_files := update_rows (\<lambda>r. fl_fid r = fid) (\<lambda>r. r\<lparr>fl_changed := 2\<rparr>) (lg_files L)\<rparr>"

text \<open>Sizes are never negative, where Go's truncating division is \<open>div\<close>.\<close>

definition valid_blocks :: "file_row \<Rightarrow> bool" where
  "valid_blocks f = (int (length (fl_hashes f)) = (fl_size f + window - 1) div window)"

subsection \<open>Offers\<close>

definition put_offer :: "offer_row \<Rightarrow> ledger \<Rightarrow> ledger" where
  "put_offer o' L =
     (let same = (\<lambda>x. of_fid x = of_fid o' \<and> of_sha x = of_sha o' \<and> of_lvid x = of_lvid o') in
      if \<exists>x \<in> set (lg_offers L). same x
      then L\<lparr>lg_offers := update_rows same
             (\<lambda>x. x\<lparr>of_iid := of_iid o', of_state := of_state o',
                of_approved_at := (if of_state o' = ''withdrawn''
                    \<or> (of_state x = ''offered'' \<and> of_state o' = ''offered'' \<and> of_iid x = of_iid o')
                  then of_approved_at x else of_approved_at o'),
                of_key_class := of_key_class o'\<rparr>) (lg_offers L)\<rparr>
      else L\<lparr>lg_offers := lg_offers L @ [o']\<rparr>)"

definition offer_of :: "string \<Rightarrow> string \<Rightarrow> string \<Rightarrow> ledger \<Rightarrow> offer_row option" where
  "offer_of fid sha lvid L =
     select_row (\<lambda>x. of_fid x = fid \<and> of_sha x = sha \<and> of_lvid x = lvid) (lg_offers L)"

definition approve :: "string \<Rightarrow> string \<Rightarrow> string \<Rightarrow> string \<Rightarrow> ledger \<Rightarrow> gw_error + ledger" where
  "approve at fid sha lvid L =
     (let pend = (\<lambda>x. of_fid x = fid \<and> of_sha x = sha \<and> of_lvid x = lvid
                    \<and> of_state x = ''offered'' \<and> of_approved_at x = None) in
      if count_rows pend (lg_offers L) = 0
      then Inl (ErrMsg ''offer is not pending local approval'')
      else Inr (L\<lparr>lg_offers := update_rows pend (\<lambda>x. x\<lparr>of_approved_at := Some at\<rparr>) (lg_offers L)\<rparr>))"

subsection \<open>Permissions, expiry and revocation\<close>

definition permission_of :: "string \<Rightarrow> ledger \<Rightarrow> perm_row option" where
  "permission_of jti L = select_row (\<lambda>r. pr_jti r = jti) (lg_perms L)"

definition active_state :: "string \<Rightarrow> bool" where
  "active_state st = (st = ''issued'' \<or> st = ''bound'')"

definition close_expired :: "string \<Rightarrow> int \<Rightarrow> ledger \<Rightarrow> ledger" where
  "close_expired stamp at L =
     L\<lparr>lg_perms := update_rows (\<lambda>r. active_state (pr_state r) \<and> pr_td r \<le> at)
         (\<lambda>r. r\<lparr>pr_state := ''closed'', pr_closed_at := Some stamp\<rparr>) (lg_perms L)\<rparr>"

text \<open>
  \<open>revokeTx\<close>: the state before is reported, the permission (if known) becomes revoked, and
  the revocation is remembered even for an unknown permission.
\<close>

definition revoke_body :: "int \<Rightarrow> string \<Rightarrow> string \<Rightarrow> ledger \<Rightarrow> revoke_ack \<times> ledger" where
  "revoke_body t at jti L =
     (let ack = \<lparr>ra_op = ''revoke_ack'', ra_jti = jti, ra_state_before = ''unknown''\<rparr>;
          (ack', L1) = (case permission_of jti L of
              None \<Rightarrow> (ack, L)
            | Some r \<Rightarrow>
                (ack\<lparr>ra_state_before :=
                    (if pr_state r = ''closed'' \<or> pr_state r = ''revoked'' then ''closed''
                     else if pr_td r \<le> t then ''expired'' else ''active'')\<rparr>,
                 L\<lparr>lg_perms := update_rows (\<lambda>x. pr_jti x = jti)
                      (\<lambda>x. x\<lparr>pr_state := ''revoked''\<rparr>) (lg_perms L)\<rparr>))
      in (ack', if jti \<in> fst ` set (lg_revocations L1) then L1
                else L1\<lparr>lg_revocations := lg_revocations L1 @ [(jti, at)]\<rparr>))"

definition revoke :: "gw_error option \<Rightarrow> gw_error option \<Rightarrow> int \<Rightarrow> string \<Rightarrow> string \<Rightarrow> ledger
    \<Rightarrow> (gw_error + revoke_ack) \<times> ledger" where
  "revoke be ce t at jti L = tx be ce (\<lambda>L. Inr (revoke_body t at jti L)) L"

text \<open>The answer given first is stored under the instruction id and repeated on replay.\<close>

definition revoke_instruction_body :: "int \<Rightarrow> string \<Rightarrow> string \<Rightarrow> string \<Rightarrow> ledger
    \<Rightarrow> gw_error + (revoke_ack \<times> ledger)" where
  "revoke_instruction_body t at iid jti L =
     (case map_of (lg_answers L) iid of
        Some a \<Rightarrow> Inr (a, L)
      | None \<Rightarrow> (case revoke_body t at jti L of (a, L1) \<Rightarrow>
            Inr (a, L1\<lparr>lg_answers := lg_answers L1 @ [(iid, a)]\<rparr>)))"

definition revoke_instruction :: "gw_error option \<Rightarrow> gw_error option \<Rightarrow> int \<Rightarrow> string \<Rightarrow> string
    \<Rightarrow> string \<Rightarrow> ledger \<Rightarrow> (gw_error + revoke_ack) \<times> ledger" where
  "revoke_instruction be ce t at iid jti L = tx be ce (revoke_instruction_body t at iid jti) L"

end
