(* ===== verification/LedgerTransfer.thy ===== *)
theory LedgerTransfer
  imports LedgerState
begin

text \<open>
  The transfer operations of internal/ledger/ledger.go: reading and rewriting the segment
  tables, Reserve, Progress, WriteChunk, settle with crash recovery, receipts and the
  completion of empty files. Clock readings are explicit: \<open>clk n\<close> is the n-th reading of
  \<open>time.Now().Unix()\<close> during the operation and \<open>at\<close> the formatted time it stores. The signed
  receipt is produced by \<open>signer\<close>, the gateway's instance of wire.Sign.
\<close>

subsection \<open>Segment tables\<close>

datatype cov_table = Serves | Transmitted

fun cov_rows :: "cov_table \<Rightarrow> ledger \<Rightarrow> cov_row list" where
  "cov_rows Serves L = lg_serves L"
| "cov_rows Transmitted L = lg_transmitted L"

fun set_cov_rows :: "cov_table \<Rightarrow> cov_row list \<Rightarrow> ledger \<Rightarrow> ledger" where
  "set_cov_rows Serves rows L = L\<lparr>lg_serves := rows\<rparr>"
| "set_cov_rows Transmitted rows L = L\<lparr>lg_transmitted := rows\<rparr>"

definition cov_key :: "string \<Rightarrow> string \<Rightarrow> cov_row \<Rightarrow> bool" where
  "cov_key oid fid r = (cv_oid r = oid \<and> cv_fid r = fid)"

text \<open>The transmitted table has no count column: the query selects the literal 1.\<close>

definition segments :: "cov_table \<Rightarrow> string \<Rightarrow> string \<Rightarrow> ledger \<Rightarrow> segment list" where
  "segments tab oid fid L =
     map (\<lambda>r. \<lparr>seg_a = cv_start r, seg_b = cv_end r,
               seg_c = (case tab of Serves \<Rightarrow> cv_count r | Transmitted \<Rightarrow> 1)\<rparr>)
       (sort_key cv_start (filter (cov_key oid fid) (cov_rows tab L)))"

text \<open>
  The inserts of rewrite: a zero count is skipped, a second row with the same order, file
  and start violates the primary key.
\<close>

fun insert_segments :: "string \<Rightarrow> string \<Rightarrow> segment list \<Rightarrow> cov_row list \<Rightarrow> gw_error + cov_row list" where
  "insert_segments oid fid [] rows = Inr rows"
| "insert_segments oid fid (x # xs) rows =
     (if seg_c x = 0 then insert_segments oid fid xs rows
      else if \<exists>r \<in> set rows. cov_key oid fid r \<and> cv_start r = seg_a x then Inl ErrConstraint
      else insert_segments oid fid xs
        (rows @ [\<lparr>cv_oid = oid, cv_fid = fid, cv_start = seg_a x, cv_end = seg_b x, cv_count = seg_c x\<rparr>]))"

definition rewrite :: "cov_table \<Rightarrow> string \<Rightarrow> string \<Rightarrow> segment list \<Rightarrow> ledger \<Rightarrow> gw_error + ledger" where
  "rewrite tab oid fid s L =
     (case insert_segments oid fid s (filter (\<lambda>r. \<not> cov_key oid fid r) (cov_rows tab L)) of
        Inl e \<Rightarrow> Inl e
      | Inr rows \<Rightarrow> Inr (set_cov_rows tab rows L))"

subsection \<open>Reserve\<close>

definition is_revoked :: "string \<Rightarrow> ledger \<Rightarrow> bool" where
  "is_revoked jti L = (count_rows (\<lambda>r. fst r = jti) (lg_revocations L) \<noteq> 0)"

definition is_completed :: "string \<Rightarrow> string \<Rightarrow> ledger \<Rightarrow> bool" where
  "is_completed oid fid L = (count_rows (\<lambda>r. r = (oid, fid)) (lg_completed L) \<noteq> 0)"

definition row_matches :: "permission \<Rightarrow> perm_row \<Rightarrow> bool" where
  "row_matches p r \<longleftrightarrow> pr_oid r = p_oid p \<and> pr_fid r = p_fid p \<and> pr_sha r = p_sha p
     \<and> pr_sd r = p_sd p \<and> pr_td r = p_td p \<and> pr_ro r = p_ro p"

definition row_state :: "perm_row option \<Rightarrow> string" where
  "row_state row = (case row of None \<Rightarrow> '''' | Some r \<Rightarrow> pr_state r)"

text \<open>The refusals of Reserve that depend on the permission, before any range is read.\<close>

definition reserve_refusal :: "(nat \<Rightarrow> int) \<Rightarrow> permission \<Rightarrow> ledger \<Rightarrow> gw_error option" where
  "reserve_refusal clk p L =
     (let row = permission_of (p_jti p) L; state = row_state row in
      if (case row of None \<Rightarrow> False
          | Some r \<Rightarrow> \<not> row_matches p r \<or> (state \<noteq> ''bound'' \<and> state \<noteq> ''issued''))
        then Some ErrClosed
      else if clk 0 \<ge> p_td p \<or> (state \<noteq> ''bound'' \<and> clk 1 \<ge> p_sd p) then Some ErrDeadline
      else if is_revoked (p_jti p) L then Some ErrClosed
      else if is_completed (p_oid p) (p_fid p) L then Some ErrClosed
      else None)"

text \<open>Stop before the first byte already at two serves; refuse when that is the first byte.\<close>

fun clip_served :: "segment list \<Rightarrow> int \<Rightarrow> int \<Rightarrow> int option" where
  "clip_served [] start end' = Some end'"
| "clip_served (x # xs) start end' =
     (if seg_c x = 2 \<and> seg_a x \<le> end' \<and> seg_b x \<ge> start
      then (if seg_a x \<le> start then None else Some (seg_a x - 1))
      else clip_served xs start end')"

definition request_key :: "ledger \<Rightarrow> request_row \<Rightarrow> (string \<times> string) option" where
  "request_key L r = map_option (\<lambda>p. (pr_oid p, pr_fid p)) (permission_of (rq_jti r) L)"

definition open_isolated :: "string \<Rightarrow> string \<Rightarrow> ledger \<Rightarrow> nat" where
  "open_isolated oid fid L =
     count_rows (\<lambda>r. request_key L r = Some (oid, fid) \<and> rq_open r \<and> rq_isolated r) (lg_requests L)"

definition new_perm_row :: "string \<Rightarrow> permission \<Rightarrow> perm_row" where
  "new_perm_row at p = \<lparr>pr_jti = p_jti p, pr_oid = p_oid p, pr_fid = p_fid p, pr_sha = p_sha p,
     pr_sd = p_sd p, pr_td = p_td p, pr_ro = p_ro p, pr_state = ''bound'',
     pr_bound_at = Some at, pr_closed_at = None\<rparr>"

definition offer_open :: "permission \<Rightarrow> ledger \<Rightarrow> bool" where
  "offer_open p L = (case offer_of (p_fid p) (p_sha p) (p_lvid p) L of
      None \<Rightarrow> False | Some x \<Rightarrow> of_state x = ''offered'' \<and> of_key_class x = ''listing'')"

text \<open>First bind: an open offer is needed, the permission row is inserted or updated.\<close>

definition bind_permission :: "string \<Rightarrow> permission \<Rightarrow> ledger \<Rightarrow> gw_error + ledger" where
  "bind_permission at p L =
     (let row = permission_of (p_jti p) L in
      if row_state row = ''bound'' then Inr L
      else if \<not> offer_open p L then Inl ErrClosed
      else case row of
          None \<Rightarrow> Inr (L\<lparr>lg_perms := lg_perms L @ [new_perm_row at p]\<rparr>)
        | Some _ \<Rightarrow> Inr (L\<lparr>lg_perms := update_rows (\<lambda>r. pr_jti r = p_jti p)
              (\<lambda>r. r\<lparr>pr_state := ''bound'', pr_bound_at := Some at\<rparr>) (lg_perms L)\<rparr>))"

definition next_request_id :: "ledger \<Rightarrow> int" where
  "next_request_id L = foldr (\<lambda>r m. max (rq_id r) m) (lg_requests L) 0 + 1"

definition insert_request :: "string \<Rightarrow> int \<Rightarrow> int \<Rightarrow> bool \<Rightarrow> ledger \<Rightarrow> ledger" where
  "insert_request jti start end' isolate L =
     L\<lparr>lg_requests := lg_requests L @ [\<lparr>rq_id = next_request_id L, rq_jti = jti, rq_start = start,
        rq_end = end', rq_written = start - 1, rq_open = True, rq_isolated = isolate\<rparr>]\<rparr>"

record reservation =
  rs_id :: int
  rs_start :: int
  rs_end :: int

definition reserve_body :: "(nat \<Rightarrow> int) \<Rightarrow> string \<Rightarrow> permission \<Rightarrow> int \<Rightarrow> int \<Rightarrow> ledger
    \<Rightarrow> gw_error + (reservation \<times> ledger)" where
  "reserve_body clk at p start end0 L =
     (case reserve_refusal clk p L of Some e \<Rightarrow> Inl e
      | None \<Rightarrow>
        (let ss = segments Serves (p_oid p) (p_fid p) L;
             tr = segments Transmitted (p_oid p) (p_fid p) L in
         case file_of (p_fid p) L of None \<Rightarrow> Inl ErrNoRows
         | Some f \<Rightarrow>
           if fl_size f = 0 \<or> covered tr 0 (fl_size f - 1) then Inl ErrClosed
           else if start < 0 \<or> end0 < start then Inl (ErrMsg ''invalid range'')
           else case clip_served ss start end0 of None \<Rightarrow> Inl ErrExhausted
             | Some end1 \<Rightarrow>
               (let isolate = (start > 0 \<and> \<not> covered tr (start - 1) (start - 1)) in
                if isolate \<and> int (length tr) + int (open_isolated (p_oid p) (p_fid p) L) + 1 > 1024
                  then Inl ErrFragmented
                else case bind_permission at p L of Inl e \<Rightarrow> Inl e
                  | Inr L1 \<Rightarrow>
                    (case rewrite Serves (p_oid p) (p_fid p) (transform ss start end1 1) L1 of
                       Inl e \<Rightarrow> Inl e
                     | Inr L2 \<Rightarrow>
                         Inr (\<lparr>rs_id = next_request_id L2, rs_start = start, rs_end = end1\<rparr>,
                              insert_request (p_jti p) start end1 isolate L2)))))"

definition reserve :: "gw_error option \<Rightarrow> gw_error option \<Rightarrow> (nat \<Rightarrow> int) \<Rightarrow> string \<Rightarrow> permission
    \<Rightarrow> int \<Rightarrow> int \<Rightarrow> ledger \<Rightarrow> (gw_error + reservation) \<times> ledger" where
  "reserve be ce clk at p start end0 L = tx be ce (reserve_body clk at p start end0) L"

subsection \<open>Receipts and the outbox\<close>

type_synonym signer = "receipt \<Rightarrow> gw_error + string"

text \<open>SQL min and max over a nullable text column ignore nulls; no value is the empty string.\<close>

definition str_lt :: "string \<Rightarrow> string \<Rightarrow> bool" where
  "str_lt a b = ord_class.lexordp a b"

fun min_stamp :: "string option list \<Rightarrow> string option" where
  "min_stamp [] = None"
| "min_stamp (None # xs) = min_stamp xs"
| "min_stamp (Some s # xs) =
     (case min_stamp xs of None \<Rightarrow> Some s | Some t \<Rightarrow> Some (if str_lt t s then t else s))"

fun max_stamp :: "string option list \<Rightarrow> string option" where
  "max_stamp [] = None"
| "max_stamp (None # xs) = max_stamp xs"
| "max_stamp (Some s # xs) =
     (case max_stamp xs of None \<Rightarrow> Some s | Some t \<Rightarrow> Some (if str_lt s t then t else s))"

definition null_string :: "string option \<Rightarrow> string" where
  "null_string x = (case x of None \<Rightarrow> '''' | Some s \<Rightarrow> s)"

text \<open>Bytes of a twice-served segment that were never written.\<close>

fun unwritten_bytes :: "segment \<Rightarrow> segment list \<Rightarrow> int \<Rightarrow> int" where
  "unwritten_bytes x [] u = u"
| "unwritten_bytes x (y # ys) u =
     unwritten_bytes x ys (u - max 0 (min (seg_b x) (seg_b y) - max (seg_a x) (seg_a y) + 1))"

fun max_serves_bytes :: "segment list \<Rightarrow> segment list \<Rightarrow> int \<Rightarrow> int" where
  "max_serves_bytes [] tr n = n"
| "max_serves_bytes (x # ss) tr n =
     max_serves_bytes ss tr
       (if seg_c x = 2 then n + unwritten_bytes x tr (seg_b x - seg_a x + 1) else n)"

fun insert_sorted_str :: "string \<Rightarrow> string list \<Rightarrow> string list" where
  "insert_sorted_str x [] = [x]"
| "insert_sorted_str x (y # ys) = (if str_lt y x then y # insert_sorted_str x ys else x # y # ys)"

definition order_jtis :: "string list \<Rightarrow> string list" where
  "order_jtis xs = foldr insert_sorted_str xs []"

definition receipt_body :: "string \<Rightarrow> string \<Rightarrow> string \<Rightarrow> string \<Rightarrow> nat \<Rightarrow> ledger \<Rightarrow> gw_error + receipt" where
  "receipt_body at oid fid outcome seq L =
     (case file_of fid L of None \<Rightarrow> Inl ErrNoRows
      | Some f \<Rightarrow>
        (let tr = segments Transmitted oid fid L;
             ss = segments Serves oid fid L;
             ps = filter (\<lambda>r. pr_oid r = oid \<and> pr_fid r = fid) (lg_perms L);
             n = count_bytes tr;
             first0 = null_string (min_stamp (map pr_bound_at ps));
             last0 = null_string (max_stamp (map pr_closed_at ps))
         in Inr \<lparr>rc_op = ''receipt'', rc_oid = oid, rc_fid = fid, rc_sha = fl_sha f,
              rc_size = fl_size f, rc_jtis = order_jtis (map pr_jti ps),
              rc_transmitted = map (\<lambda>x. (seg_a x, seg_b x)) tr,
              rc_transmitted_bytes = n, rc_max_serves_bytes = max_serves_bytes ss tr 0,
              rc_outcome = outcome, rc_blocks_verified = (outcome \<noteq> ''aborted_block_mismatch''),
              rc_first_byte_at = (if n > 0 \<and> first0 = '''' then at else first0),
              rc_last_byte_at = (if n > 0 then at else last0), rc_seq = seq\<rparr>))"

definition next_receipt_seq :: "ledger \<Rightarrow> nat" where
  "next_receipt_seq L = max_nat (map ob_seq (lg_outbox L)) + 1"

text \<open>
  \<open>queueTx\<close>: an empty outcome is in_progress, a finished transfer is complete; a second
  complete receipt is not queued; a complete receipt must account for every byte.
\<close>

definition queue_tx :: "signer \<Rightarrow> string \<Rightarrow> string \<Rightarrow> string \<Rightarrow> string \<Rightarrow> bool \<Rightarrow> ledger \<Rightarrow> gw_error + ledger" where
  "queue_tx signer at oid fid outcome0 complete L =
     (let outcome = (if complete then ''complete'' else if outcome0 = '''' then ''in_progress'' else outcome0) in
      if outcome = ''complete'' \<and> is_completed oid fid L then Inr L
      else let seq = next_receipt_seq L in
        case receipt_body at oid fid outcome seq L of Inl e \<Rightarrow> Inl e
        | Inr r \<Rightarrow>
          if outcome = ''complete'' \<and> (rc_transmitted_bytes r \<noteq> rc_size r \<or> \<not> rc_blocks_verified r)
            then Inl (ErrMsg ''incomplete receipt'')
          else case signer r of Inl e \<Rightarrow> Inl e
            | Inr body \<Rightarrow>
              (let L1 = L\<lparr>lg_outbox := lg_outbox L @ [\<lparr>ob_seq = seq, ob_body = body, ob_sent_at = None\<rparr>]\<rparr> in
               Inr (if outcome = ''complete''
                    then L1\<lparr>lg_completed := lg_completed L1 @ [(oid, fid)]\<rparr> else L1)))"

definition close_order_file :: "string \<Rightarrow> string \<Rightarrow> string \<Rightarrow> ledger \<Rightarrow> ledger" where
  "close_order_file at oid fid L =
     L\<lparr>lg_perms := update_rows (\<lambda>r. pr_oid r = oid \<and> pr_fid r = fid \<and> active_state (pr_state r))
         (\<lambda>r. r\<lparr>pr_state := ''closed'', pr_closed_at := Some at\<rparr>) (lg_perms L)\<rparr>"

subsection \<open>Empty files\<close>

definition finish_empty_refusal :: "(nat \<Rightarrow> int) \<Rightarrow> permission \<Rightarrow> ledger \<Rightarrow> gw_error option" where
  "finish_empty_refusal clk p L =
     (case file_of (p_fid p) L of None \<Rightarrow> Some ErrNoRows
      | Some f \<Rightarrow>
        if fl_size f \<noteq> 0 \<or> fl_sha f \<noteq> p_sha p then Some ErrClosed
        else if is_completed (p_oid p) (p_fid p) L then Some ErrClosed
        else if is_revoked (p_jti p) L \<or> clk 0 \<ge> p_sd p \<or> clk 1 \<ge> p_td p then Some ErrClosed
        else None)"

text \<open>The permission row as FinishEmpty reads it: on the token id with the same order, file and digest.\<close>

definition finish_empty_row :: "permission \<Rightarrow> ledger \<Rightarrow> perm_row option" where
  "finish_empty_row p L = select_row (\<lambda>r. pr_jti r = p_jti p \<and> pr_oid r = p_oid p
      \<and> pr_fid r = p_fid p \<and> pr_sha r = p_sha p) (lg_perms L)"

definition finish_empty_body :: "signer \<Rightarrow> (nat \<Rightarrow> int) \<Rightarrow> string \<Rightarrow> permission \<Rightarrow> ledger
    \<Rightarrow> gw_error + (unit \<times> ledger)" where
  "finish_empty_body signer clk at p L =
     (case finish_empty_refusal clk p L of Some e \<Rightarrow> Inl e
      | None \<Rightarrow>
        (let row = finish_empty_row p L; state = row_state row in
         if row \<noteq> None \<and> state \<noteq> ''issued'' \<and> state \<noteq> ''bound'' then Inl ErrClosed
         else if state \<noteq> ''bound'' \<and> \<not> offer_open p L then Inl ErrClosed
         else if row = None \<and> (\<exists>r \<in> set (lg_perms L). pr_jti r = p_jti p) then Inl ErrConstraint
         else (let L1 = (if row = None then L\<lparr>lg_perms := lg_perms L @ [new_perm_row at p]\<rparr> else L);
                   L2 = close_order_file at (p_oid p) (p_fid p) L1 in
               case queue_tx signer at (p_oid p) (p_fid p) ''complete'' True L2 of
                 Inl e \<Rightarrow> Inl e | Inr L3 \<Rightarrow> Inr ((), L3))))"

definition finish_empty :: "gw_error option \<Rightarrow> gw_error option \<Rightarrow> signer \<Rightarrow> (nat \<Rightarrow> int) \<Rightarrow> string
    \<Rightarrow> permission \<Rightarrow> ledger \<Rightarrow> (gw_error + unit) \<times> ledger" where
  "finish_empty be ce signer clk at p L = tx be ce (finish_empty_body signer clk at p) L"

subsection \<open>Progress\<close>

definition request_of :: "int \<Rightarrow> ledger \<Rightarrow> request_row option" where
  "request_of i L = select_row (\<lambda>r. rq_id r = i) (lg_requests L)"

text \<open>requestKey: the request joined with its permission.\<close>

definition joined_request :: "int \<Rightarrow> ledger \<Rightarrow> (request_row \<times> perm_row) option" where
  "joined_request i L = (case request_of i L of None \<Rightarrow> None
     | Some r \<Rightarrow> (case permission_of (rq_jti r) L of None \<Rightarrow> None | Some p \<Rightarrow> Some (r, p)))"

definition set_written :: "int \<Rightarrow> int \<Rightarrow> ledger \<Rightarrow> ledger" where
  "set_written i w L = L\<lparr>lg_requests := update_rows (\<lambda>r. rq_id r = i) (\<lambda>r. r\<lparr>rq_written := w\<rparr>) (lg_requests L)\<rparr>"

definition progress_body :: "signer \<Rightarrow> string \<Rightarrow> int \<Rightarrow> int \<Rightarrow> ledger \<Rightarrow> gw_error + (unit \<times> ledger)" where
  "progress_body signer at i written_through L =
     (case joined_request i L of None \<Rightarrow> Inl ErrNoRows
      | Some (r, p) \<Rightarrow>
        if \<not> rq_open r \<or> written_through < rq_written r \<or> written_through > rq_end r
          then Inl (ErrMsg ''invalid progress'')
        else if written_through > rq_written r then
          (case rewrite Transmitted (pr_oid p) (pr_fid p)
              (mark_range (segments Transmitted (pr_oid p) (pr_fid p) L) (rq_written r + 1) written_through) L of
             Inl e \<Rightarrow> Inl e
           | Inr L1 \<Rightarrow>
             (case queue_tx signer at (pr_oid p) (pr_fid p) ''in_progress'' False (set_written i written_through L1) of
                Inl e \<Rightarrow> Inl e | Inr L2 \<Rightarrow> Inr ((), L2)))
        else Inr ((), set_written i written_through L))"

definition progress :: "gw_error option \<Rightarrow> gw_error option \<Rightarrow> signer \<Rightarrow> string \<Rightarrow> int \<Rightarrow> int \<Rightarrow> ledger
    \<Rightarrow> (gw_error + unit) \<times> ledger" where
  "progress be ce signer at i w L = tx be ce (progress_body signer at i w) L"

subsection \<open>Settlement and recovery\<close>

definition set_closed :: "int \<Rightarrow> ledger \<Rightarrow> ledger" where
  "set_closed i L = L\<lparr>lg_requests := update_rows (\<lambda>r. rq_id r = i) (\<lambda>r. r\<lparr>rq_open := False\<rparr>) (lg_requests L)\<rparr>"

text \<open>
  The last byte a request keeps: what it recorded, and after a crash one more window, since
  that much may have been written without a checkpoint.
\<close>

definition settle_keep :: "bool \<Rightarrow> request_row \<Rightarrow> int" where
  "settle_keep crash r = (if crash then min (rq_end r) (rq_written r + window) else rq_written r)"

definition settle_body :: "signer \<Rightarrow> string \<Rightarrow> bool \<Rightarrow> string \<Rightarrow> int \<Rightarrow> ledger \<Rightarrow> gw_error + ledger" where
  "settle_body signer at crash outcome i L =
     (case joined_request i L of None \<Rightarrow> Inl ErrNoRows
      | Some (r, p) \<Rightarrow>
        if \<not> rq_open r then Inr L
        else let oid = pr_oid p; fid = pr_fid p; keep = settle_keep crash r in
          case rewrite Serves oid fid
              (transform (segments Serves oid fid L) (max (rq_start r) (keep + 1)) (rq_end r) (-1)) L of
            Inl e \<Rightarrow> Inl e
          | Inr L1 \<Rightarrow>
            (let L2 = set_closed i L1; tr = segments Transmitted oid fid L2 in
             case file_of fid L2 of None \<Rightarrow> Inl ErrNoRows
             | Some f \<Rightarrow>
               (let complete = (fl_size f = 0 \<or> covered tr 0 (fl_size f - 1));
                    L3 = (if complete then close_order_file at oid fid L2 else L2) in
                if complete \<or> (\<not> crash \<and> outcome \<noteq> '''')
                then queue_tx signer at oid fid outcome complete L3
                else Inr L3)))"

definition with_unit :: "gw_error + ledger \<Rightarrow> gw_error + (unit \<times> ledger)" where
  "with_unit r = (case r of Inl e \<Rightarrow> Inl e | Inr L \<Rightarrow> Inr ((), L))"

definition settle_outcome :: "gw_error option \<Rightarrow> gw_error option \<Rightarrow> signer \<Rightarrow> string \<Rightarrow> int \<Rightarrow> string
    \<Rightarrow> ledger \<Rightarrow> (gw_error + unit) \<times> ledger" where
  "settle_outcome be ce signer at i outcome L =
     (case joined_request i L of None \<Rightarrow> (Inl ErrNoRows, L)
      | Some _ \<Rightarrow> tx be ce (\<lambda>L. with_unit (settle_body signer at False outcome i L)) L)"

definition recover_request :: "gw_error option \<Rightarrow> gw_error option \<Rightarrow> signer \<Rightarrow> string \<Rightarrow> int
    \<Rightarrow> ledger \<Rightarrow> (gw_error + unit) \<times> ledger" where
  "recover_request be ce signer at i L =
     (case joined_request i L of None \<Rightarrow> (Inl ErrNoRows, L)
      | Some _ \<Rightarrow> tx be ce (\<lambda>L. with_unit (settle_body signer at True '''' i L)) L)"

fun settle_all :: "signer \<Rightarrow> string \<Rightarrow> int list \<Rightarrow> ledger \<Rightarrow> gw_error + ledger" where
  "settle_all signer at [] L = Inr L"
| "settle_all signer at (i # is) L =
     (case settle_body signer at True '''' i L of Inl e \<Rightarrow> Inl e | Inr L' \<Rightarrow> settle_all signer at is L')"

text \<open>
  Recover settles every open request that joins a permission as after a crash, in one
  transaction, in the order of the query (order id, file id, request id).
\<close>

definition open_request_keys :: "ledger \<Rightarrow> (string \<times> string \<times> int) list" where
  "open_request_keys L =
     concat (map (\<lambda>r. (case permission_of (rq_jti r) L of
         None \<Rightarrow> [] | Some p \<Rightarrow> if rq_open r then [(pr_oid p, pr_fid p, rq_id r)] else [])) (lg_requests L))"

fun key_before :: "string \<times> string \<times> int \<Rightarrow> string \<times> string \<times> int \<Rightarrow> bool" where
  "key_before (o1, f1, i1) (o2, f2, i2) =
     (str_lt o1 o2 \<or> (o1 = o2 \<and> (str_lt f1 f2 \<or> (f1 = f2 \<and> i1 < i2))))"

fun insert_key :: "string \<times> string \<times> int \<Rightarrow> (string \<times> string \<times> int) list \<Rightarrow> (string \<times> string \<times> int) list" where
  "insert_key x [] = [x]"
| "insert_key x (y # ys) = (if key_before y x then y # insert_key x ys else x # y # ys)"

definition open_requests_ordered :: "ledger \<Rightarrow> int list" where
  "open_requests_ordered L = map (\<lambda>k. snd (snd k)) (foldr insert_key (open_request_keys L) [])"

definition recover :: "gw_error option \<Rightarrow> gw_error option \<Rightarrow> signer \<Rightarrow> string \<Rightarrow> ledger
    \<Rightarrow> (gw_error + unit) \<times> ledger" where
  "recover be ce signer at L =
     tx be ce (\<lambda>L'. with_unit (settle_all signer at (open_requests_ordered L) L')) L"

end
