(* ===== verification/LedgerInv.thy ===== *)
theory LedgerInv
  imports LedgerTransfer
begin

text \<open>
  The transfer invariant of the ledger and its preservation by every operation. The state
  of the argument is the ledger together with a ghost map \<open>g\<close> from request ids to the last
  byte actually handed to the network for that request, which the database knows only up
  to the last checkpoint.
\<close>

named_theorems frame_intro \<open>operations that leave the transfer tables alone\<close>

subsection \<open>Rewriting a segment table\<close>

definition cov_row_of :: "string \<Rightarrow> string \<Rightarrow> segment \<Rightarrow> cov_row" where
  "cov_row_of oid fid x = \<lparr>cv_oid = oid, cv_fid = fid, cv_start = seg_a x, cv_end = seg_b x, cv_count = seg_c x\<rparr>"

definition rewritten :: "cov_table \<Rightarrow> string \<Rightarrow> string \<Rightarrow> segment list \<Rightarrow> ledger \<Rightarrow> ledger" where
  "rewritten tab oid fid s L = set_cov_rows tab
     (filter (\<lambda>r. \<not> cov_key oid fid r) (cov_rows tab L) @ map (cov_row_of oid fid) s) L"

lemma insert_segments_ok:
  assumes "\<forall>r \<in> set rows. cov_key oid fid r \<longrightarrow> cv_start r \<notin> seg_a ` set s"
    and "distinct (map seg_a s)" and "\<forall>x \<in> set s. seg_c x \<noteq> 0"
  shows "insert_segments oid fid s rows = Inr (rows @ map (cov_row_of oid fid) s)"
  using assms
proof (induction s arbitrary: rows)
  case Nil
  then show ?case by simp
next
  case (Cons x xs)
  have "insert_segments oid fid (x # xs) rows
      = insert_segments oid fid xs (rows @ [cov_row_of oid fid x])"
    using Cons.prems by (auto simp: cov_row_of_def)
  also have "\<dots> = Inr ((rows @ [cov_row_of oid fid x]) @ map (cov_row_of oid fid) xs)"
    using Cons.prems by (intro Cons.IH) (auto simp: cov_row_of_def)
  finally show ?case by simp
qed

lemma seg_wf_starts: "seg_wf s \<Longrightarrow> sorted_wrt (<) (map seg_a s)"
  by (induction s) (force simp: seg_wf_Cons)+

lemma rewrite_eq:
  assumes "seg_wf s"
  shows "rewrite tab oid fid s L = Inr (rewritten tab oid fid s L)"
proof -
  have "distinct (map seg_a s)" using seg_wf_starts [OF assms] strict_sorted_iff by blast
  moreover have "\<forall>x \<in> set s. seg_c x \<noteq> 0" using assms by (auto simp: seg_wf_def)
  ultimately show ?thesis
    by (simp add: rewrite_def insert_segments_ok rewritten_def)
qed

lemma cov_rows_set_cov_rows [simp]:
  "cov_rows tab (set_cov_rows tab' rows L) = (if tab = tab' then rows else cov_rows tab L)"
  by (cases tab; cases tab') simp_all

lemma sort_key_strict: "sorted_wrt (<) (map f xs) \<Longrightarrow> sort_key f xs = xs"
  by (rule sort_key_id_if_sorted) (simp add: strict_sorted_imp_sorted)

lemma segments_rewritten:
  assumes "seg_wf s"
  shows "segments tab oid fid (rewritten tab' oid' fid' s L) =
    (if tab = tab' \<and> oid = oid' \<and> fid = fid'
     then (case tab of Serves \<Rightarrow> s | Transmitted \<Rightarrow> set_count_one s)
     else segments tab oid fid L)"
proof (cases "tab = tab'")
  case False
  then show ?thesis by (simp add: segments_def rewritten_def)
next
  case True
  let ?rows = "filter (\<lambda>r. \<not> cov_key oid' fid' r) (cov_rows tab L)"
  show ?thesis
  proof (cases "oid = oid' \<and> fid = fid'")
    case same: True
    have "filter (cov_key oid fid) (?rows @ map (cov_row_of oid fid) s) = map (cov_row_of oid fid) s"
      using same by (auto simp: filter_map cov_key_def cov_row_of_def filter_empty_conv comp_def)
    moreover have "sort_key cv_start (map (cov_row_of oid fid) s) = map (cov_row_of oid fid) s"
      using seg_wf_starts [OF assms] by (intro sort_key_strict) (simp add: cov_row_of_def comp_def)
    ultimately show ?thesis
      using True same by (auto simp: segments_def rewritten_def cov_row_of_def comp_def
          set_count_one_def intro!: map_idI split: cov_table.splits)
  next
    case other: False
    have "filter (cov_key oid fid) (?rows @ map (cov_row_of oid' fid') s) = filter (cov_key oid fid) (cov_rows tab L)"
      using other by (auto simp: filter_map cov_key_def cov_row_of_def comp_def intro!: filter_cong)
    then show ?thesis using True other by (auto simp add: segments_def rewritten_def)
  qed
qed

lemma set_count_one_unit: "seg_unit s \<Longrightarrow> set_count_one s = s"
  by (simp add: seg_unit_def set_count_one_def map_idI)

lemma rewritten_fields [simp]:
  "lg_perms (rewritten tab oid fid s L) = lg_perms L"
  "lg_requests (rewritten tab oid fid s L) = lg_requests L"
  "lg_files (rewritten tab oid fid s L) = lg_files L"
  "lg_outbox (rewritten tab oid fid s L) = lg_outbox L"
  "lg_completed (rewritten tab oid fid s L) = lg_completed L"
  "lg_revocations (rewritten tab oid fid s L) = lg_revocations L"
  "lg_offers (rewritten tab oid fid s L) = lg_offers L"
  "lg_audited (rewritten tab oid fid s L) = lg_audited L"
  by (cases tab; simp add: rewritten_def)+

subsection \<open>The invariant\<close>

definition perm_key :: "string \<Rightarrow> ledger \<Rightarrow> (string \<times> string) option" where
  "perm_key jti L = map_option (\<lambda>p. (pr_oid p, pr_fid p)) (permission_of jti L)"

lemma request_key_perm_key: "request_key L r = perm_key (rq_jti r) L"
  by (simp add: request_key_def perm_key_def)

text \<open>How many requests of an order and file hold or used a byte, up to \<open>hi\<close> of each.\<close>

definition held :: "ledger \<Rightarrow> (request_row \<Rightarrow> int) \<Rightarrow> string \<Rightarrow> string \<Rightarrow> int \<Rightarrow> int" where
  "held L hi oid fid x = int (count_rows (\<lambda>r. request_key L r = Some (oid, fid)
      \<and> rq_start r \<le> x \<and> x \<le> hi r) (lg_requests L))"

text \<open>An open request holds its whole range, a closed one what it sent.\<close>

definition kept :: "(int \<Rightarrow> int) \<Rightarrow> request_row \<Rightarrow> int" where
  "kept g r = (if rq_open r then rq_end r else g (rq_id r))"

definition inv_keys :: "ledger \<Rightarrow> bool" where
  "inv_keys L \<longleftrightarrow> distinct (map pr_jti (lg_perms L)) \<and> distinct (map rq_id (lg_requests L))
     \<and> (\<forall>r \<in> set (lg_requests L). request_key L r \<noteq> None)"

definition inv_cov :: "ledger \<Rightarrow> bool" where
  "inv_cov L \<longleftrightarrow> (\<forall>oid fid. seg_wf (segments Serves oid fid L)
     \<and> (\<forall>x. seg_count (segments Serves oid fid L) x \<le> 2)
     \<and> seg_unit (segments Transmitted oid fid L))"

definition inv_req :: "ledger \<Rightarrow> (int \<Rightarrow> int) \<Rightarrow> bool" where
  "inv_req L g \<longleftrightarrow> (\<forall>r \<in> set (lg_requests L). 0 \<le> rq_start r \<and> rq_start r \<le> rq_end r
     \<and> rq_start r - 1 \<le> rq_written r \<and> rq_written r \<le> rq_end r \<and> rq_written r \<le> g (rq_id r)
     \<and> g (rq_id r) \<le> min (rq_end r) (rq_written r + window))"

definition inv_acct :: "ledger \<Rightarrow> (int \<Rightarrow> int) \<Rightarrow> bool" where
  "inv_acct L g \<longleftrightarrow> (\<forall>oid fid x. held L (kept g) oid fid x \<le> seg_count (segments Serves oid fid L) x)"

definition inv_tr :: "ledger \<Rightarrow> bool" where
  "inv_tr L \<longleftrightarrow> (\<forall>oid fid x. 0 < seg_count (segments Transmitted oid fid L) x \<longleftrightarrow>
     (\<exists>r \<in> set (lg_requests L). request_key L r = Some (oid, fid) \<and> rq_start r \<le> x \<and> x \<le> rq_written r))"

definition xfer_inv :: "ledger \<Rightarrow> (int \<Rightarrow> int) \<Rightarrow> bool" where
  "xfer_inv L g \<longleftrightarrow> inv_keys L \<and> inv_cov L \<and> inv_req L g \<and> inv_acct L g \<and> inv_tr L"

lemmas xfer_inv_defs = xfer_inv_def inv_keys_def inv_cov_def inv_req_def inv_acct_def inv_tr_def

lemma xfer_inv_empty: "xfer_inv empty_ledger g"
  by (simp add: xfer_inv_defs empty_ledger_def segments_def held_def count_rows_def seg_unit_def)

text \<open>What the network saw of a byte, over all requests of an order and file.\<close>

definition times_sent :: "ledger \<Rightarrow> (int \<Rightarrow> int) \<Rightarrow> string \<Rightarrow> string \<Rightarrow> int \<Rightarrow> int" where
  "times_sent L g oid fid x = held L (\<lambda>r. g (rq_id r)) oid fid x"

lemma count_rows_mono:
  "(\<And>r. r \<in> set rows \<Longrightarrow> P r \<Longrightarrow> Q r) \<Longrightarrow> count_rows P rows \<le> count_rows Q rows"
  by (induction rows) (auto simp: count_rows_def)

lemma times_sent_le_two:
  assumes "xfer_inv L g"
  shows "times_sent L g oid fid x \<le> 2"
proof -
  have "times_sent L g oid fid x \<le> held L (kept g) oid fid x"
    using assms unfolding times_sent_def held_def
    by (auto intro!: count_rows_mono simp: kept_def xfer_inv_def inv_req_def)
  also have "\<dots> \<le> seg_count (segments Serves oid fid L) x"
    using assms by (simp add: xfer_inv_def inv_acct_def)
  also have "\<dots> \<le> 2" using assms by (simp add: xfer_inv_def inv_cov_def)
  finally show ?thesis .
qed

subsection \<open>Operations outside the transfer tables\<close>

definition xfer_frame :: "ledger \<Rightarrow> ledger \<Rightarrow> bool" where
  "xfer_frame L L' \<longleftrightarrow> lg_serves L' = lg_serves L \<and> lg_transmitted L' = lg_transmitted L
     \<and> lg_requests L' = lg_requests L
     \<and> (distinct (map pr_jti (lg_perms L)) \<longrightarrow> distinct (map pr_jti (lg_perms L')))
     \<and> (\<forall>jti. perm_key jti L \<noteq> None \<longrightarrow> perm_key jti L' = perm_key jti L)"

lemma xfer_frame_refl [frame_intro]: "xfer_frame L L"
  by (simp add: xfer_frame_def)

lemma xfer_frame_trans: "xfer_frame L L1 \<Longrightarrow> xfer_frame L1 L2 \<Longrightarrow> xfer_frame L L2"
  by (auto simp: xfer_frame_def)

lemma xfer_frame_perms_same [frame_intro]:
  "lg_serves L' = lg_serves L \<Longrightarrow> lg_transmitted L' = lg_transmitted L \<Longrightarrow> lg_requests L' = lg_requests L
    \<Longrightarrow> lg_perms L' = lg_perms L \<Longrightarrow> xfer_frame L L'"
  by (simp add: xfer_frame_def perm_key_def permission_of_def)

lemma xfer_frame_update_perms [frame_intro]:
  assumes "\<And>r. pr_jti (f r) = pr_jti r" "\<And>r. pr_oid (f r) = pr_oid r" "\<And>r. pr_fid (f r) = pr_fid r"
  shows "xfer_frame L (L\<lparr>lg_perms := update_rows P f (lg_perms L)\<rparr>)"
proof -
  have "perm_key jti (L\<lparr>lg_perms := update_rows P f (lg_perms L)\<rparr>) = perm_key jti L" for jti
    using assms
    by (simp add: perm_key_def permission_of_def select_update_rows option.map_comp comp_def if_distrib cong: if_cong)
  then show ?thesis by (simp add: xfer_frame_def map_update_rows assms)
qed

lemma xfer_frame_insert_perm:
  assumes "permission_of (pr_jti r) L = None"
  shows "xfer_frame L (L\<lparr>lg_perms := lg_perms L @ [r]\<rparr>)"
  using assms
  by (auto simp: xfer_frame_def perm_key_def permission_of_def select_row_append select_row_None
      split: option.splits)

lemma segments_frame:
  "xfer_frame L L' \<Longrightarrow> segments tab oid fid L' = segments tab oid fid L"
  by (cases tab) (simp_all add: xfer_frame_def segments_def)

lemma request_key_frame:
  assumes "inv_keys L" "xfer_frame L L'" "r \<in> set (lg_requests L)"
  shows "request_key L' r = request_key L r"
proof -
  have "perm_key (rq_jti r) L \<noteq> None"
    using assms(1,3) unfolding inv_keys_def request_key_perm_key by blast
  with assms(2) show ?thesis by (simp add: request_key_perm_key xfer_frame_def)
qed

lemma count_rows_cong:
  "(\<And>r. r \<in> set rows \<Longrightarrow> P r = Q r) \<Longrightarrow> count_rows P rows = count_rows Q rows"
  unfolding count_rows_def by (metis filter_cong)

lemma held_frame:
  assumes "inv_keys L" "xfer_frame L L'"
  shows "held L' hi oid fid x = held L hi oid fid x"
proof -
  have "lg_requests L' = lg_requests L" using assms(2) by (simp add: xfer_frame_def)
  then show ?thesis
    unfolding held_def by (auto intro!: count_rows_cong simp: request_key_frame [OF assms])
qed

lemma xfer_inv_frame:
  assumes "xfer_inv L g" "xfer_frame L L'"
  shows "xfer_inv L' g"
proof -
  have keys: "inv_keys L" using assms(1) by (simp add: xfer_inv_def)
  note rk = request_key_frame [OF keys assms(2)]
  have same: "lg_requests L' = lg_requests L" using assms(2) by (simp add: xfer_frame_def)
  have "inv_keys L'" using keys assms(2) rk by (auto simp: inv_keys_def xfer_frame_def)
  moreover have "inv_tr L'" using assms(1) rk
    by (simp add: xfer_inv_def inv_tr_def segments_frame [OF assms(2)] same)
  ultimately show ?thesis
    using assms(1)
    by (simp add: xfer_inv_def inv_cov_def inv_req_def inv_acct_def
        segments_frame [OF assms(2)] held_frame [OF keys assms(2)] same)
qed

lemma close_expired_frame [frame_intro]: "xfer_frame L (close_expired stamp at L)"
  unfolding close_expired_def by (rule xfer_frame_update_perms) simp_all

lemma close_order_file_frame [frame_intro]: "xfer_frame L (close_order_file at oid fid L)"
  unfolding close_order_file_def by (rule xfer_frame_update_perms) simp_all

lemma revoke_body_frame: "revoke_body t at jti L = (a, L') \<Longrightarrow> xfer_frame L L'"
proof -
  assume r: "revoke_body t at jti L = (a, L')"
  let ?L1 = "case permission_of jti L of None \<Rightarrow> L | Some _ \<Rightarrow>
     L\<lparr>lg_perms := update_rows (\<lambda>x. pr_jti x = jti) (\<lambda>x. x\<lparr>pr_state := ''revoked''\<rparr>) (lg_perms L)\<rparr>"
  have "xfer_frame L ?L1"
    by (auto split: option.splits intro: xfer_frame_refl intro!: xfer_frame_update_perms)
  moreover have "xfer_frame ?L1 L'"
    using r by (auto simp: revoke_body_def Let_def split: option.splits prod.splits if_splits
        intro!: xfer_frame_perms_same)
  ultimately show ?thesis by (rule xfer_frame_trans)
qed

lemma bind_permission_frame: "bind_permission at p L = Inr L' \<Longrightarrow> xfer_frame L L'"
  by (auto simp: bind_permission_def Let_def new_perm_row_def split: if_splits option.splits
      intro: xfer_frame_refl intro!: xfer_frame_insert_perm xfer_frame_update_perms)

lemma queue_tx_frame: "queue_tx sg at oid fid oc c L = Inr L' \<Longrightarrow> xfer_frame L L'"
  by (auto simp: queue_tx_def Let_def split: if_splits sum.splits
      intro!: xfer_frame_perms_same)

lemma finish_empty_frame:
  assumes "finish_empty_body sg clk at p L = Inr (u, L')"
  shows "xfer_frame L L'"
proof -
  let ?L1 = "if finish_empty_row p L = None then L\<lparr>lg_perms := lg_perms L @ [new_perm_row at p]\<rparr> else L"
  have "xfer_frame L ?L1"
    using assms by (auto simp: finish_empty_body_def Let_def permission_of_def select_row_None new_perm_row_def
        split: option.splits if_splits sum.splits intro: xfer_frame_refl intro!: xfer_frame_insert_perm)
  moreover have "queue_tx sg at (p_oid p) (p_fid p) ''complete'' True (close_order_file at (p_oid p) (p_fid p) ?L1) = Inr L'"
    using assms by (auto simp: finish_empty_body_def Let_def split: option.splits if_splits sum.splits)
  ultimately show ?thesis
    by (rule xfer_frame_trans [OF _ xfer_frame_trans [OF close_order_file_frame queue_tx_frame]])
qed


subsection \<open>Reserve\<close>

lemma clip_served_props:
  assumes "seg_wf ss" and "\<forall>x \<in> set ss. seg_c x \<le> 2" and "clip_served ss start e0 = Some e1" and "start \<le> e0"
  shows "start \<le> e1 \<and> e1 \<le> e0 \<and> (\<forall>x. start \<le> x \<and> x \<le> e1 \<longrightarrow> seg_count ss x < 2)"
  using assms
proof (induction ss)
  case Nil
  then show ?case by simp
next
  case (Cons s ss)
  have wf: "seg_wf ss" and s: "seg_a s \<le> seg_b s" "\<forall>t \<in> set ss. seg_b s < seg_a t"
    using Cons.prems(1) by (auto simp: seg_wf_Cons)
  show ?case
  proof (cases "seg_c s = 2 \<and> seg_a s \<le> e0 \<and> seg_b s \<ge> start")
    case True
    with Cons.prems(3) have e1: "e1 = seg_a s - 1" "start < seg_a s" by (auto split: if_splits)
    have "seg_count (s # ss) x = 0" if "x \<le> e1" for x
      using s that e1(1) by (intro seg_count_outside) force
    with e1 True show ?thesis by force
  next
    case False
    then have "clip_served ss start e0 = Some e1" using Cons.prems(3) by auto
    with Cons.IH [OF wf] Cons.prems(2,4)
    have IH: "start \<le> e1" "e1 \<le> e0" "\<forall>x. start \<le> x \<and> x \<le> e1 \<longrightarrow> seg_count ss x < 2" by auto
    have "seg_c s \<le> 2" using Cons.prems(2) by simp
    with False IH show ?thesis by force
  qed
qed

lemma seg_counts_le_two:
  assumes "seg_wf ss" and "\<forall>x. seg_count ss x \<le> 2"
  shows "\<forall>s \<in> set ss. seg_c s \<le> 2"
proof
  fix s assume "s \<in> set ss"
  moreover from this assms(1) have "seg_a s \<le> seg_b s" by (auto simp: seg_wf_def)
  ultimately have "seg_count ss (seg_a s) = seg_c s" using assms(1) by (intro seg_count_member) auto
  with assms(2) show "seg_c s \<le> 2" by metis
qed

lemma next_request_id_fresh: "r \<in> set (lg_requests L) \<Longrightarrow> rq_id r < next_request_id L"
proof -
  have "r \<in> set rs \<Longrightarrow> rq_id r \<le> foldr (\<lambda>r m. max (rq_id r) m) rs 0" for rs
    by (induction rs) auto
  then show "r \<in> set (lg_requests L) \<Longrightarrow> rq_id r < next_request_id L"
    by (simp add: next_request_id_def)
qed

text \<open>What a successful Reserve did, in terms of the state it started from.\<close>

lemma reserve_body_InrE:
  assumes "reserve_body clk at p start e0 L = Inr (rs, L')" and "inv_cov L"
  obtains L1 e1 isol f where
    "reserve_refusal clk p L = None" "file_of (p_fid p) L = Some f"
    "fl_size f \<noteq> 0" "\<not> covered (segments Transmitted (p_oid p) (p_fid p) L) 0 (fl_size f - 1)"
    "0 \<le> start" "start \<le> e0"
    "clip_served (segments Serves (p_oid p) (p_fid p) L) start e0 = Some e1"
    "bind_permission at p L = Inr L1"
    "L' = insert_request (p_jti p) start e1 isol (rewritten Serves (p_oid p) (p_fid p)
        (transform (segments Serves (p_oid p) (p_fid p) L) start e1 1) L1)"
    "rs = \<lparr>rs_id = next_request_id L, rs_start = start, rs_end = e1\<rparr>"
proof -
  have wf: "seg_wf (transform (segments Serves (p_oid p) (p_fid p) L) start e1 1)" for e1
    using assms(2) by (simp add: inv_cov_def seg_wf_transform)
  have id: "bind_permission at p L = Inr L1 \<Longrightarrow> next_request_id (rewritten Serves oid fid s L1) = next_request_id L"
    for L1 oid fid s
    by (drule bind_permission_frame) (simp add: next_request_id_def xfer_frame_def)
  show thesis
    using assms(1)
    by (auto simp: reserve_body_def Let_def rewrite_eq [OF wf] id split: option.splits if_splits sum.splits
        intro: that)
qed

lemma bind_permission_key:
  assumes "bind_permission at p L = Inr L1" and "reserve_refusal clk p L = None"
  shows "perm_key (p_jti p) L1 = Some (p_oid p, p_fid p)"
proof (cases "permission_of (p_jti p) L")
  case None
  then show ?thesis using assms(1)
    by (auto simp: bind_permission_def Let_def row_state_def perm_key_def permission_of_def
        new_perm_row_def select_row_append split: if_splits)
next
  case (Some r)
  with assms(2) have "perm_key (p_jti p) L = Some (p_oid p, p_fid p)"
    by (auto simp: reserve_refusal_def Let_def perm_key_def row_matches_def split: if_splits)
  with bind_permission_frame [OF assms(1)] show ?thesis by (simp add: xfer_frame_def)
qed

lemma lg_insert_request:
  "lg_requests (insert_request jti s e isol L) = lg_requests L @
     [\<lparr>rq_id = next_request_id L, rq_jti = jti, rq_start = s, rq_end = e, rq_written = s - 1,
       rq_open = True, rq_isolated = isol\<rparr>]"
  "lg_perms (insert_request jti s e isol L) = lg_perms L"
  "segments tab oid fid (insert_request jti s e isol L) = segments tab oid fid L"
  by (cases tab; simp add: insert_request_def segments_def)+

lemma request_key_same_perms: "lg_perms L' = lg_perms L \<Longrightarrow> request_key L' r = request_key L r"
  by (simp add: request_key_def permission_of_def)

lemma reserve_body_inv:
  assumes "reserve_body clk at p start e0 L = Inr (rs, L')" and "xfer_inv L g"
  shows "xfer_inv L' (g(rs_id rs := rs_start rs - 1))"
proof -
  have cov: "inv_cov L" and keys0: "inv_keys L" using assms(2) by (auto simp: xfer_inv_def)
  obtain L1 e1 isol f where refusal: "reserve_refusal clk p L = None"
    and start: "0 \<le> start" "start \<le> e0"
    and clip: "clip_served (segments Serves (p_oid p) (p_fid p) L) start e0 = Some e1"
    and bind: "bind_permission at p L = Inr L1"
    and L': "L' = insert_request (p_jti p) start e1 isol (rewritten Serves (p_oid p) (p_fid p)
        (transform (segments Serves (p_oid p) (p_fid p) L) start e1 1) L1)"
    and rs: "rs = \<lparr>rs_id = next_request_id L, rs_start = start, rs_end = e1\<rparr>"
    by (rule reserve_body_InrE [OF assms(1) cov])
  let ?ss = "segments Serves (p_oid p) (p_fid p) L"
  let ?g = "g(next_request_id L := start - 1)"
  have fr: "xfer_frame L L1" using bind by (rule bind_permission_frame)
  have inv1: "xfer_inv L1 g" using assms(2) fr by (rule xfer_inv_frame)
  have reqs: "lg_requests L1 = lg_requests L" using fr by (simp add: xfer_frame_def)
  have nid: "next_request_id (rewritten Serves (p_oid p) (p_fid p) (transform ?ss start e1 1) L1) = next_request_id L"
    by (simp add: next_request_id_def reqs)
  have wf: "seg_wf ?ss" and le2: "\<forall>x. seg_count ?ss x \<le> 2" using cov by (auto simp: inv_cov_def)
  have clipped: "start \<le> e1" "e1 \<le> e0" "\<forall>x. start \<le> x \<and> x \<le> e1 \<longrightarrow> seg_count ?ss x < 2"
    using clip_served_props [OF wf seg_counts_le_two [OF wf le2] clip start(2)] by auto
  let ?new = "\<lparr>rq_id = next_request_id L, rq_jti = p_jti p, rq_start = start, rq_end = e1,
     rq_written = start - 1, rq_open = True, rq_isolated = isol\<rparr>"
  have reqs': "lg_requests L' = lg_requests L @ [?new]"
    by (simp add: L' lg_insert_request nid reqs)
  have perms': "lg_perms L' = lg_perms L1" by (simp add: L' lg_insert_request)
  have rk: "request_key L' r = request_key L1 r" for r using perms' by (rule request_key_same_perms)
  have new_key: "request_key L' ?new = Some (p_oid p, p_fid p)"
    using bind_permission_key [OF bind refusal]
    by (simp add: request_key_perm_key perm_key_def permission_of_def perms')
  have fresh: "\<forall>r \<in> set (lg_requests L). rq_id r \<noteq> next_request_id L"
    using next_request_id_fresh by fastforce
  have seg: "segments tab oid fid L' = (if tab = Serves \<and> oid = p_oid p \<and> fid = p_fid p
      then transform ?ss start e1 1 else segments tab oid fid L1)" for tab oid fid
    using segments_rewritten [OF seg_wf_transform [OF wf], of tab oid fid Serves "p_oid p" "p_fid p" start e1 1 L1]
    by (auto simp: L' lg_insert_request)
  have keys: "inv_keys L'"
    using inv1 fresh new_key unfolding xfer_inv_def inv_keys_def
    by (auto simp: reqs' reqs perms' rk)
  have cov': "inv_cov L'"
    using inv1 wf le2 clipped seg.cnt_bump_le [OF wf, of 2 start e1]
    unfolding xfer_inv_def inv_cov_def by (auto simp: seg seg_wf_transform)
  have req: "inv_req L' ?g"
    using inv1 fresh clipped start unfolding xfer_inv_def inv_req_def by (auto simp: reqs' reqs window_def)
  have tr: "inv_tr L'"
    using inv1 unfolding xfer_inv_def inv_tr_def by (auto simp: reqs' reqs rk seg)
  have acct: "inv_acct L' ?g"
    unfolding inv_acct_def
  proof (intro allI)
    fix oid fid x
    have "count_rows (\<lambda>r. request_key L' r = Some (oid, fid) \<and> rq_start r \<le> x \<and> x \<le> kept ?g r) (lg_requests L)
       = count_rows (\<lambda>r. request_key L1 r = Some (oid, fid) \<and> rq_start r \<le> x \<and> x \<le> kept g r) (lg_requests L)"
      using fresh by (intro count_rows_cong) (auto simp: rk kept_def)
    then have "held L' (kept ?g) oid fid x = held L1 (kept g) oid fid x
        + (if oid = p_oid p \<and> fid = p_fid p \<and> start \<le> x \<and> x \<le> e1 then 1 else 0)"
      using new_key by (simp add: held_def reqs' reqs count_rows_append count_rows_def kept_def)
    moreover have "held L1 (kept g) oid fid x \<le> seg_count (segments Serves oid fid L1) x"
      using inv1 by (simp add: xfer_inv_def inv_acct_def)
    moreover have "0 \<le> seg_count ?ss x" using wf by (rule seg_count_nonneg)
    ultimately show "held L' (kept ?g) oid fid x \<le> seg_count (segments Serves oid fid L') x"
      by (auto simp: seg seg.cnt_bump_gen [OF wf] segments_frame [OF fr])
  qed
  show ?thesis using keys cov' req tr acct by (simp add: rs xfer_inv_def)
qed

subsection \<open>Progress and settlement\<close>

text \<open>Updating the one request row with a given id.\<close>

lemma update_rows_unique:
  assumes "distinct (map k rows)" and "r \<in> set rows"
  shows "count_rows P (update_rows (\<lambda>x. k x = k r) f rows) + (if P r then 1 else 0)
       = count_rows P rows + (if P (f r) then 1 else 0)"
  using assms
proof (induction rows)
  case Nil
  then show ?case by simp
next
  case (Cons y rows)
  show ?case
  proof (cases "k y = k r")
    case True
    with Cons.prems have "y = r" by (auto simp: rev_image_eqI)
    moreover have "\<forall>x \<in> set rows. k x \<noteq> k r"
      using Cons.prems(1) True by (metis distinct.simps(2) imageI list.set_map list.simps(9))
    then have "update_rows (\<lambda>x. k x = k r) f rows = rows"
      by (simp add: update_rows_def map_idI)
    ultimately show ?thesis by (simp add: update_rows_def count_rows_def)
  next
    case False
    with Cons show ?thesis by (auto simp: update_rows_def count_rows_def)
  qed
qed

lemma update_rows_unique_int:
  assumes "distinct (map k rows)" and "r \<in> set rows"
  shows "int (count_rows P (update_rows (\<lambda>x. k x = k r) f rows)) + (if P r then 1 else 0)
       = int (count_rows P rows) + (if P (f r) then 1 else 0)"
  using update_rows_unique [OF assms, of P f] by (simp split: if_splits)

lemma bex_update_rows:
  "(\<exists>y \<in> set (update_rows P f rows). Q y) \<longleftrightarrow> (\<exists>x \<in> set rows. Q (if P x then f x else x))"
  by (auto simp: set_update_rows)

lemma update_rows_same:
  assumes "distinct (map k rows)" and "r \<in> set rows" and "P (f r) = P r"
  shows "count_rows P (update_rows (\<lambda>x. k x = k r) f rows) = count_rows P rows"
  using update_rows_unique [OF assms(1,2), of P f] assms(3) by simp

lemma request_of_Some: "request_of i L = Some r \<Longrightarrow> r \<in> set (lg_requests L) \<and> rq_id r = i"
  using select_row_Some [of "\<lambda>r. rq_id r = i" "lg_requests L" r] by (simp add: request_of_def)

lemma joined_request_Some:
  assumes "joined_request i L = Some (r, p)"
  shows "r \<in> set (lg_requests L)" "rq_id r = i" "request_of i L = Some r"
    "request_key L r = Some (pr_oid p, pr_fid p)"
  using assms request_of_Some [of i L r] by (auto simp: joined_request_def request_key_def split: option.splits)

lemma progress_body_inv:
  assumes "progress_body sg at i w L = Inr (u, L')" and "xfer_inv L g" and "w \<le> g i" and "g i \<le> w + window"
  shows "xfer_inv L' g"
proof -
  have cov: "inv_cov L" and keys0: "inv_keys L" using assms(2) by (auto simp: xfer_inv_def)
  obtain r p where j: "joined_request i L = Some (r, p)" and r: "rq_open r" "rq_written r \<le> w" "w \<le> rq_end r"
    using assms(1) by (auto simp: progress_body_def split: option.splits if_splits)
  note jr = joined_request_Some [OF j]
  let ?tr = "segments Transmitted (pr_oid p) (pr_fid p) L"
  let ?mr = "mark_range ?tr (rq_written r + 1) w"
  let ?L1 = "if w > rq_written r then rewritten Transmitted (pr_oid p) (pr_fid p) ?mr L else L"
  let ?L2 = "set_written i w ?L1"
  have unit: "seg_unit ?tr" using cov by (simp add: inv_cov_def)
  have mwf: "seg_wf ?mr" using seg_unit_mark_range [OF unit] by (simp add: seg_unit_def)
  have fr: "xfer_frame ?L2 L'"
    using assms(1) r by (auto simp: progress_body_def j rewrite_eq [OF mwf] queue_tx_frame xfer_frame_refl
        split: if_splits sum.splits)
  have reqs: "lg_requests ?L2 = update_rows (\<lambda>x. rq_id x = rq_id r) (\<lambda>r. r\<lparr>rq_written := w\<rparr>) (lg_requests L)"
    by (simp add: set_written_def jr(2))
  have perms: "lg_perms ?L2 = lg_perms L" by (simp add: set_written_def)
  have rk: "request_key ?L2 x = request_key L x" for x using perms by (rule request_key_same_perms)
  have rkw: "request_key L (x\<lparr>rq_written := w\<rparr>) = request_key L x" for x by (simp add: request_key_def)
  have seg: "segments tab oid fid ?L2 = (if w > rq_written r \<and> tab = Transmitted \<and> oid = pr_oid p \<and> fid = pr_fid p
      then ?mr else segments tab oid fid L)" for tab oid fid
  proof -
    have "segments tab oid fid ?L2 = segments tab oid fid ?L1"
      by (cases tab) (simp_all add: set_written_def segments_def)
    then show ?thesis
      by (simp add: segments_rewritten [OF mwf] set_count_one_unit [OF seg_unit_mark_range [OF unit]])
  qed
  have only: "x = r" if "x \<in> set (lg_requests L)" "rq_id x = rq_id r" for x
    using keys0 that jr(1) by (auto simp: inv_keys_def distinct_map inj_on_def)
  have keys: "inv_keys ?L2"
    using keys0 by (auto simp: inv_keys_def reqs perms rk rkw map_update_rows set_update_rows)
  have cov2: "inv_cov ?L2"
    using cov seg_unit_mark_range [OF unit] by (auto simp: inv_cov_def seg)
  have req: "inv_req ?L2 g"
    unfolding inv_req_def
  proof
    fix y assume "y \<in> set (lg_requests ?L2)"
    then obtain x where x: "x \<in> set (lg_requests L)"
      and y: "y = (if rq_id x = rq_id r then x\<lparr>rq_written := w\<rparr> else x)"
      by (auto simp: reqs set_update_rows)
    have "0 \<le> rq_start x \<and> rq_start x \<le> rq_end x \<and> rq_start x - 1 \<le> rq_written x
        \<and> rq_written x \<le> rq_end x \<and> rq_written x \<le> g (rq_id x)
        \<and> g (rq_id x) \<le> min (rq_end x) (rq_written x + window)"
      using assms(2) x by (simp add: xfer_inv_def inv_req_def)
    with only [OF x] r assms(3,4) jr(2) y
    show "0 \<le> rq_start y \<and> rq_start y \<le> rq_end y \<and> rq_start y - 1 \<le> rq_written y
        \<and> rq_written y \<le> rq_end y \<and> rq_written y \<le> g (rq_id y)
        \<and> g (rq_id y) \<le> min (rq_end y) (rq_written y + window)"
      by (cases "rq_id x = rq_id r") auto
  qed
  have acct: "inv_acct ?L2 g"
    unfolding inv_acct_def
  proof (intro allI)
    fix oid fid x
    let ?P = "\<lambda>r. request_key L r = Some (oid, fid) \<and> rq_start r \<le> x \<and> x \<le> kept g r"
    have "?P (r\<lparr>rq_written := w\<rparr>) = ?P r" using r(1) by (simp add: kept_def rkw)
    then have "count_rows ?P (lg_requests ?L2) = count_rows ?P (lg_requests L)"
      unfolding reqs using keys0 jr(1) by (intro update_rows_same) (auto simp: inv_keys_def)
    then have "held ?L2 (kept g) oid fid x = held L (kept g) oid fid x" by (simp add: held_def rk)
    then show "held ?L2 (kept g) oid fid x \<le> seg_count (segments Serves oid fid ?L2) x"
      using assms(2) by (simp add: xfer_inv_def inv_acct_def seg)
  qed
  have tr: "inv_tr ?L2"
    unfolding inv_tr_def
  proof (intro allI)
    fix oid fid x
    have lhs: "0 < seg_count (segments Transmitted oid fid ?L2) x \<longleftrightarrow>
       0 < seg_count (segments Transmitted oid fid L) x \<or>
       (oid = pr_oid p \<and> fid = pr_fid p \<and> rq_written r < x \<and> x \<le> w)"
      by (auto simp: seg seg_count_mark_range [OF unit])
    have "0 < seg_count (segments Transmitted oid fid L) x \<longleftrightarrow>
       (\<exists>r \<in> set (lg_requests L). request_key L r = Some (oid, fid) \<and> rq_start r \<le> x \<and> x \<le> rq_written r)"
      using assms(2) by (simp add: xfer_inv_def inv_tr_def)
    moreover have "(\<exists>r' \<in> set (lg_requests ?L2). request_key ?L2 r' = Some (oid, fid) \<and> rq_start r' \<le> x \<and> x \<le> rq_written r')
      \<longleftrightarrow> (\<exists>r' \<in> set (lg_requests L). request_key L r' = Some (oid, fid) \<and> rq_start r' \<le> x
           \<and> x \<le> (if rq_id r' = rq_id r then w else rq_written r'))"
      unfolding reqs bex_update_rows by (rule bex_cong) (simp_all add: rk rkw)
    moreover have "rq_start r - 1 \<le> rq_written r"
      using assms(2) jr(1) by (auto simp: xfer_inv_def inv_req_def)
    moreover have "(\<exists>r' \<in> set (lg_requests L). request_key L r' = Some (oid, fid) \<and> rq_start r' \<le> x
           \<and> x \<le> (if rq_id r' = rq_id r then w else rq_written r'))
      \<longleftrightarrow> (\<exists>r \<in> set (lg_requests L). request_key L r = Some (oid, fid) \<and> rq_start r \<le> x \<and> x \<le> rq_written r)
        \<or> (oid = pr_oid p \<and> fid = pr_fid p \<and> rq_written r < x \<and> x \<le> w)" if "rq_start r - 1 \<le> rq_written r"
    proof
      assume "\<exists>r' \<in> set (lg_requests L). request_key L r' = Some (oid, fid) \<and> rq_start r' \<le> x
           \<and> x \<le> (if rq_id r' = rq_id r then w else rq_written r')"
      then obtain r' where r': "r' \<in> set (lg_requests L)" "request_key L r' = Some (oid, fid)" "rq_start r' \<le> x"
        "x \<le> (if rq_id r' = rq_id r then w else rq_written r')" by blast
      then show "(\<exists>r \<in> set (lg_requests L). request_key L r = Some (oid, fid) \<and> rq_start r \<le> x \<and> x \<le> rq_written r)
        \<or> (oid = pr_oid p \<and> fid = pr_fid p \<and> rq_written r < x \<and> x \<le> w)"
        using jr(4) only [OF r'(1)] by (cases "rq_id r' = rq_id r"; cases "x \<le> rq_written r'") auto
    next
      assume "(\<exists>r \<in> set (lg_requests L). request_key L r = Some (oid, fid) \<and> rq_start r \<le> x \<and> x \<le> rq_written r)
        \<or> (oid = pr_oid p \<and> fid = pr_fid p \<and> rq_written r < x \<and> x \<le> w)"
      then show "\<exists>r' \<in> set (lg_requests L). request_key L r' = Some (oid, fid) \<and> rq_start r' \<le> x
           \<and> x \<le> (if rq_id r' = rq_id r then w else rq_written r')"
      proof
        assume "\<exists>r \<in> set (lg_requests L). request_key L r = Some (oid, fid) \<and> rq_start r \<le> x \<and> x \<le> rq_written r"
        then obtain r' where "r' \<in> set (lg_requests L)" "request_key L r' = Some (oid, fid)" "rq_start r' \<le> x"
          "x \<le> rq_written r'" by blast
        with r(2) only [of r'] show ?thesis by (intro bexI [of _ r']) auto
      next
        assume "oid = pr_oid p \<and> fid = pr_fid p \<and> rq_written r < x \<and> x \<le> w"
        with that jr(1,4) show ?thesis by (intro bexI [of _ r]) auto
      qed
    qed
    ultimately show "0 < seg_count (segments Transmitted oid fid ?L2) x \<longleftrightarrow>
      (\<exists>r' \<in> set (lg_requests ?L2). request_key ?L2 r' = Some (oid, fid) \<and> rq_start r' \<le> x \<and> x \<le> rq_written r')"
      using lhs by simp
  qed
  have "xfer_inv ?L2 g" using keys cov2 req acct tr by (simp add: xfer_inv_def)
  then show ?thesis using fr by (rule xfer_inv_frame)
qed

text \<open>
  Settlement gives back what the request did not keep. The ghost premise says that what
  went to the network is within what is kept: exact after a clean response, and after a
  crash guaranteed by the window.
\<close>

lemma settle_body_inv:
  assumes "settle_body sg at crash oc i L = Inr L'" and "xfer_inv L g"
    and "\<And>r. request_of i L = Some r \<Longrightarrow> rq_open r \<Longrightarrow> g i \<le> settle_keep crash r"
  shows "xfer_inv L' g"
proof -
  have cov: "inv_cov L" and keys0: "inv_keys L" using assms(2) by (auto simp: xfer_inv_def)
  obtain r p where j: "joined_request i L = Some (r, p)"
    using assms(1) by (auto simp: settle_body_def split: option.splits)
  note jr = joined_request_Some [OF j]
  show ?thesis
  proof (cases "rq_open r")
    case False
    with assms(1,2) show ?thesis by (simp add: settle_body_def j)
  next
    case True
    let ?ss = "segments Serves (pr_oid p) (pr_fid p) L"
    let ?from = "max (rq_start r) (settle_keep crash r + 1)"
    let ?ts = "transform ?ss ?from (rq_end r) (-1)"
    let ?L2 = "set_closed i (rewritten Serves (pr_oid p) (pr_fid p) ?ts L)"
    have wf: "seg_wf ?ss" and le2: "\<And>x. seg_count ?ss x \<le> 2" using cov by (auto simp: inv_cov_def)
    have twf: "seg_wf ?ts" using wf by (rule seg_wf_transform)
    have fr: "xfer_frame ?L2 L'"
      using assms(1) True
      by (auto simp: settle_body_def j rewrite_eq [OF twf] Let_def xfer_frame_refl close_order_file_frame
          split: option.splits if_splits
          intro: xfer_frame_trans [OF close_order_file_frame] dest!: queue_tx_frame)
    have reqs: "lg_requests ?L2 = update_rows (\<lambda>x. rq_id x = rq_id r) (\<lambda>r. r\<lparr>rq_open := False\<rparr>) (lg_requests L)"
      by (simp add: set_closed_def jr(2))
    have perms: "lg_perms ?L2 = lg_perms L" by (simp add: set_closed_def)
    have rk: "request_key ?L2 x = request_key L x" for x using perms by (rule request_key_same_perms)
    have rkw: "request_key L (x\<lparr>rq_open := False\<rparr>) = request_key L x" for x by (simp add: request_key_def)
    have seg: "segments tab oid fid ?L2 = (if tab = Serves \<and> oid = pr_oid p \<and> fid = pr_fid p
        then ?ts else segments tab oid fid L)" for tab oid fid
    proof -
      have "segments tab oid fid ?L2 = segments tab oid fid (rewritten Serves (pr_oid p) (pr_fid p) ?ts L)"
        by (cases tab) (simp_all add: set_closed_def segments_def)
      then show ?thesis by (auto simp: segments_rewritten [OF twf])
    qed
    have keys: "inv_keys ?L2"
      using keys0 by (auto simp: inv_keys_def reqs perms rk rkw map_update_rows set_update_rows)
    have cov2: "inv_cov ?L2"
      using cov twf order_trans [OF seg.cnt_release_le [OF wf] le2] by (auto simp: inv_cov_def seg)
    have req: "inv_req ?L2 g"
      using assms(2) unfolding xfer_inv_def inv_req_def reqs set_update_rows by auto
    have tr: "inv_tr ?L2"
      using assms(2) unfolding xfer_inv_def inv_tr_def
      by (simp add: reqs bex_update_rows rk rkw seg if_distrib cong: if_cong)
    have acct: "inv_acct ?L2 g"
      unfolding inv_acct_def
    proof (intro allI)
      fix oid fid x
      let ?P = "\<lambda>r. request_key L r = Some (oid, fid) \<and> rq_start r \<le> x \<and> x \<le> kept g r"
      have "held ?L2 (kept g) oid fid x + (if ?P r then 1 else 0)
          = held L (kept g) oid fid x + (if ?P (r\<lparr>rq_open := False\<rparr>) then 1 else 0)"
        unfolding held_def reqs rk using keys0 jr(1)
        by (intro update_rows_unique_int) (auto simp: inv_keys_def)
      moreover have "held L (kept g) oid fid x \<le> seg_count (segments Serves oid fid L) x"
        using assms(2) by (simp add: xfer_inv_def inv_acct_def)
      moreover have "0 \<le> held ?L2 (kept g) oid fid x" by (simp add: held_def)
      moreover have "g i \<le> settle_keep crash r" using assms(3) jr(3) True by blast
      moreover have "g i \<le> rq_end r"
        using assms(2) jr(1,2) by (auto simp: xfer_inv_def inv_req_def)
      ultimately show "held ?L2 (kept g) oid fid x \<le> seg_count (segments Serves oid fid ?L2) x"
        using jr(2,4) True by (auto simp: seg seg.cnt_bump_gen [OF wf] kept_def rkw split: if_splits)
    qed
    have "xfer_inv ?L2 g" using keys cov2 req acct tr by (simp add: xfer_inv_def)
    then show ?thesis using fr by (rule xfer_inv_frame)
  qed
qed

lemma settle_keep_crash:
  "xfer_inv L g \<Longrightarrow> request_of i L = Some r \<Longrightarrow> g i \<le> settle_keep True r"
  using request_of_Some [of i L r] by (auto simp: xfer_inv_def inv_req_def settle_keep_def)

lemma settle_all_inv:
  "settle_all sg at is L = Inr L' \<Longrightarrow> xfer_inv L g \<Longrightarrow> xfer_inv L' g"
proof (induction "is" arbitrary: L)
  case Nil
  then show ?case by simp
next
  case (Cons i "is")
  from Cons.prems(1) obtain L1 where s: "settle_body sg at True '''' i L = Inr L1" "settle_all sg at is L1 = Inr L'"
    by (auto split: sum.splits)
  have "xfer_inv L1 g"
    by (rule settle_body_inv [OF s(1) Cons.prems(2)]) (rule settle_keep_crash [OF Cons.prems(2)])
  with s(2) show ?case by (rule Cons.IH)
qed

subsection \<open>Transfer runs\<close>

text \<open>
  One step of the ledger as the door and the recovery drive it, on a state that pairs the
  ledger with the ghost map: a reservation; bytes of an open request going to the network,
  at most one window past the last checkpoint; a checkpoint of what was sent; a clean
  settlement, allowed once everything sent is recorded; settlement as after a crash; and
  any operation outside the transfer tables.
\<close>

inductive xfer_step :: "ledger \<times> (int \<Rightarrow> int) \<Rightarrow> ledger \<times> (int \<Rightarrow> int) \<Rightarrow> bool" where
  xs_reserve: "reserve be ce clk at p s e L = (Inr rs, L') \<Longrightarrow>
     xfer_step (L, g) (L', g(rs_id rs := rs_start rs - 1))"
| xs_send: "request_of i L = Some r \<Longrightarrow> rq_open r \<Longrightarrow> g i \<le> w \<Longrightarrow>
     w \<le> min (rq_end r) (rq_written r + window) \<Longrightarrow> xfer_step (L, g) (L, g(i := w))"
| xs_progress: "progress be ce sg at i (g i) L = (res, L') \<Longrightarrow> xfer_step (L, g) (L', g)"
| xs_settle: "(\<And>r. request_of i L = Some r \<Longrightarrow> g i = rq_written r) \<Longrightarrow>
     settle_outcome be ce sg at i oc L = (res, L') \<Longrightarrow> xfer_step (L, g) (L', g)"
| xs_crash: "recover_request be ce sg at i L = (res, L') \<Longrightarrow> xfer_step (L, g) (L', g)"
| xs_recover: "recover be ce sg at L = (res, L') \<Longrightarrow> xfer_step (L, g) (L', g)"
| xs_revoke: "revoke_instruction be ce t at iid jti L = (res, L') \<Longrightarrow> xfer_step (L, g) (L', g)"
| xs_empty: "finish_empty be ce sg clk at p L = (res, L') \<Longrightarrow> xfer_step (L, g) (L', g)"
| xs_other: "xfer_frame L L' \<Longrightarrow> xfer_step (L, g) (L', g)"

inductive_cases xfer_stepE: "xfer_step (L, g) (L', g')"

lemma with_unit_Inr: "with_unit r = Inr (u, L') \<longleftrightarrow> r = Inr L'"
  by (cases r) (auto simp: with_unit_def)

lemma revoke_instruction_body_frame:
  "revoke_instruction_body t at iid jti L = Inr (a, L') \<Longrightarrow> xfer_frame L L'"
proof -
  assume r: "revoke_instruction_body t at iid jti L = Inr (a, L')"
  show "xfer_frame L L'"
  proof (cases "map_of (lg_answers L) iid")
    case None
    obtain b L1 where b: "revoke_body t at jti L = (b, L1)" by fastforce
    have "L' = L1\<lparr>lg_answers := lg_answers L1 @ [(iid, b)]\<rparr>"
      using r by (auto simp: revoke_instruction_body_def None b)
    then have "xfer_frame L1 L'" by (intro xfer_frame_perms_same) simp_all
    with revoke_body_frame [OF b] show ?thesis by (rule xfer_frame_trans)
  next
    case (Some x)
    with r show ?thesis by (simp add: revoke_instruction_body_def xfer_frame_refl)
  qed
qed

lemma progress_tx_inv:
  assumes "progress be ce sg at i (g i) L = (res, L')" "xfer_inv L g"
  shows "xfer_inv L' g"
  using assms(1) unfolding progress_def
proof (rule tx_cases)
  assume "L' = L"
  with assms(2) show ?thesis by simp
next
  fix x assume "progress_body sg at i (g i) L = Inr (x, L')"
  then show ?thesis by (rule progress_body_inv [OF _ assms(2)]) (simp_all add: window_def)
qed

lemma settle_tx_inv:
  assumes "settle_outcome be ce sg at i oc L = (res, L')" "xfer_inv L g"
    and "\<And>r. request_of i L = Some r \<Longrightarrow> g i = rq_written r"
  shows "xfer_inv L' g"
proof (cases "joined_request i L")
  case None
  with assms(1,2) show ?thesis by (simp add: settle_outcome_def)
next
  case (Some x)
  then have t: "tx be ce (\<lambda>L. with_unit (settle_body sg at False oc i L)) L = (res, L')"
    using assms(1) by (simp add: settle_outcome_def)
  show ?thesis using t
  proof (rule tx_cases)
    assume "L' = L"
    with assms(2) show ?thesis by simp
  next
    fix u assume "with_unit (settle_body sg at False oc i L) = Inr (u, L')"
    then have "settle_body sg at False oc i L = Inr L'" by (simp add: with_unit_Inr)
    then show ?thesis
      by (rule settle_body_inv [OF _ assms(2)]) (simp add: assms(3) settle_keep_def)
  qed
qed

lemma recover_request_inv:
  assumes "recover_request be ce sg at i L = (res, L')" "xfer_inv L g"
  shows "xfer_inv L' g"
proof (cases "joined_request i L")
  case None
  with assms show ?thesis by (simp add: recover_request_def)
next
  case (Some x)
  then have t: "tx be ce (\<lambda>L. with_unit (settle_body sg at True '''' i L)) L = (res, L')"
    using assms(1) by (simp add: recover_request_def)
  show ?thesis using t
  proof (rule tx_cases)
    assume "L' = L"
    with assms(2) show ?thesis by simp
  next
    fix u assume "with_unit (settle_body sg at True '''' i L) = Inr (u, L')"
    then have "settle_body sg at True '''' i L = Inr L'" by (simp add: with_unit_Inr)
    then show ?thesis
      by (rule settle_body_inv [OF _ assms(2)]) (rule settle_keep_crash [OF assms(2)])
  qed
qed

lemma recover_inv:
  assumes "recover be ce sg at L = (res, L')" "xfer_inv L g"
  shows "xfer_inv L' g"
  using assms(1) unfolding recover_def
proof (rule tx_cases)
  assume "L' = L"
  with assms(2) show ?thesis by simp
next
  fix u assume "with_unit (settle_all sg at (open_requests_ordered L) L) = Inr (u, L')"
  then show ?thesis using settle_all_inv assms(2) by (metis with_unit_Inr)
qed

lemma xfer_send_inv:
  assumes "xfer_inv L g" "request_of i L = Some r" "rq_open r" "g i \<le> w"
    "w \<le> min (rq_end r) (rq_written r + window)"
  shows "xfer_inv L (g(i := w))"
proof -
  have r: "r \<in> set (lg_requests L)" "rq_id r = i" using request_of_Some [OF assms(2)] by auto
  have only: "x = r" if "x \<in> set (lg_requests L)" "rq_id x = i" for x
    using assms(1) that r by (auto simp: xfer_inv_def inv_keys_def distinct_map inj_on_def)
  have "held L (kept (g(i := w))) oid fid x = held L (kept g) oid fid x" for oid fid x
    unfolding held_def using only assms(3) by (auto intro!: count_rows_cong simp: kept_def)
  moreover have "inv_req L (g(i := w))"
    using assms(1,4,5) only r unfolding xfer_inv_def inv_req_def by fastforce
  ultimately show ?thesis using assms(1) by (simp add: xfer_inv_def inv_acct_def)
qed

lemma tx_frame:
  assumes "tx b c fn L = (res, L')" "\<And>x L'. fn L = Inr (x, L') \<Longrightarrow> xfer_frame L L'"
  shows "xfer_frame L L'"
  using assms(1) by (rule tx_cases) (auto intro: xfer_frame_refl assms(2))

lemma xfer_step_inv: "xfer_step (L, g) (L', g') \<Longrightarrow> xfer_inv L g \<Longrightarrow> xfer_inv L' g'"
proof (erule xfer_stepE, goal_cases)
  case (1 be ce clk at p s e rs)
  then show ?case by (metis reserve_def tx_ok reserve_body_inv)
next
  case (2 i r w)
  then show ?case using xfer_send_inv by simp
next
  case (3 be ce sg at i res)
  then show ?case using progress_tx_inv by simp
next
  case (4 i be ce sg at oc res)
  then show ?case using settle_tx_inv by simp
next
  case (5 be ce sg at i res)
  then show ?case using recover_request_inv by simp
next
  case (6 be ce sg at res)
  then show ?case using recover_inv by simp
next
  case (7 be ce t at iid jti res)
  have "xfer_frame L L'"
    using 7(3) unfolding revoke_instruction_def by (rule tx_frame) (rule revoke_instruction_body_frame)
  with 7(1,2) show ?case by (simp add: xfer_inv_frame)
next
  case (8 be ce sg clk at p res)
  have "xfer_frame L L'"
    using 8(3) unfolding finish_empty_def by (rule tx_frame) (rule finish_empty_frame)
  with 8(1,2) show ?case by (simp add: xfer_inv_frame)
next
  case 9
  then show ?case using xfer_inv_frame by simp
qed

inductive xfer_reach :: "ledger \<Rightarrow> (int \<Rightarrow> int) \<Rightarrow> bool" where
  xr_start: "xfer_reach empty_ledger g"
| xr_step: "xfer_reach L g \<Longrightarrow> xfer_step (L, g) (L', g') \<Longrightarrow> xfer_reach L' g'"

lemma xfer_reach_inv: "xfer_reach L g \<Longrightarrow> xfer_inv L g"
  by (induction rule: xfer_reach.induct) (auto intro: xfer_inv_empty xfer_step_inv)

end
