(* ===== verification/LedgerWrite.thy ===== *)
theory LedgerWrite
  imports LedgerInv
begin

text \<open>
  WriteChunk of internal/ledger/ledger.go: the write loop with its checkpoints, and the
  theorem that a run of it is a sequence of transfer steps after which everything written
  is recorded, unless the error says that a checkpoint failed. The network is the callback
  \<open>wr\<close>: \<open>wr k b\<close> is the result of the k-th call, with the number of bytes taken. Clock
  readings and the storage faults of each checkpoint are arguments too.
\<close>

subsection \<open>The write loop\<close>

datatype write_end = WriteDone "gw_error option" | WriteAbort gw_error

type_synonym writer = "nat \<Rightarrow> bytes \<Rightarrow> int \<times> gw_error option"
type_synonym faults = "nat \<Rightarrow> gw_error option \<times> gw_error option"

definition slice :: "bytes \<Rightarrow> int \<Rightarrow> int \<Rightarrow> bytes" where
  "slice data lo hi = take (nat (hi - lo)) (drop (nat lo) data)"

text \<open>
  One round: stop with an end, or go on with the new counts. The deadline is read first,
  a network result outside its slice aborts, a full window is checkpointed when more data
  follows, and an error or an empty write ends the loop.
\<close>

definition write_round :: "signer \<Rightarrow> string \<Rightarrow> writer \<Rightarrow> (nat \<Rightarrow> int) \<Rightarrow> faults \<Rightarrow> int \<Rightarrow> int \<Rightarrow> int
    \<Rightarrow> bytes \<Rightarrow> nat \<Rightarrow> int \<Rightarrow> int \<Rightarrow> ledger \<Rightarrow> (write_end \<times> int \<times> int \<times> ledger) + (int \<times> int \<times> ledger)" where
  "write_round sg at wr clk pf td i old data k written checkpoint L =
     (if clk k \<ge> td then Inl (WriteDone (Some ErrDeadline), written, checkpoint, L)
      else
        (let limit = min (int (length data)) (checkpoint + window);
             (n, err) = wr k (slice data written limit) in
         if n < 0 \<or> n > limit - written
           then Inl (WriteAbort (ErrMsg ''invalid write result''), written, checkpoint, L)
         else if written + n = limit \<and> limit < int (length data) then
           (case progress (fst (pf k)) (snd (pf k)) sg at i (old + (written + n)) L of
              (Inl e, L') \<Rightarrow> Inl (WriteAbort (ErrProgress e), written + n, checkpoint, L')
            | (Inr _, L') \<Rightarrow>
                if err \<noteq> None \<or> n = 0 then Inl (WriteDone err, written + n, written + n, L')
                else Inr (written + n, written + n, L'))
         else if err \<noteq> None \<or> n = 0 then Inl (WriteDone err, written + n, checkpoint, L)
         else Inr (written + n, checkpoint, L)))"

lemma write_round_grows:
  "write_round sg at wr clk pf td i old data k written checkpoint L = Inr (w', c', L') \<Longrightarrow> written < w'"
  by (auto simp: write_round_def Let_def split: if_splits prod.splits sum.splits)

function write_loop :: "signer \<Rightarrow> string \<Rightarrow> writer \<Rightarrow> (nat \<Rightarrow> int) \<Rightarrow> faults \<Rightarrow> int \<Rightarrow> int \<Rightarrow> int
    \<Rightarrow> bytes \<Rightarrow> nat \<Rightarrow> int \<Rightarrow> int \<Rightarrow> ledger \<Rightarrow> write_end \<times> int \<times> int \<times> ledger" where
  "write_loop sg at wr clk pf td i old data k written checkpoint L =
     (if written \<ge> int (length data) then (WriteDone None, written, checkpoint, L)
      else case write_round sg at wr clk pf td i old data k written checkpoint L of
          Inl r \<Rightarrow> r
        | Inr (w', c', L') \<Rightarrow> write_loop sg at wr clk pf td i old data (k + 1) w' c' L')"
  by pat_completeness auto
termination
  by (relation "measure (\<lambda>(sg, at, wr, clk, pf, td, i, old, data, k, written, checkpoint, L).
       nat (int (length data) - written))") (auto dest!: write_round_grows sym [where t = "write_round _ _ _ _ _ _ _ _ _ _ _ _ _"])

declare write_loop.simps [simp del]

subsection \<open>WriteChunk\<close>

text \<open>The clock readings of one call, in the order the code takes them, and the storage faults of
  the two calls of CloseExpired.\<close>

record write_clock =
  wc_entry :: int
  wc_entry_close :: int
  wc_loop :: "nat \<Rightarrow> int"
  wc_exit :: int
  wc_exit_close :: int
  wc_close_faults :: "gw_error option \<times> gw_error option"

text \<open>Past the transfer deadline: expired permissions are closed, or the storage fault is returned.\<close>

definition expire :: "gw_error option \<Rightarrow> string \<Rightarrow> int \<Rightarrow> ledger \<Rightarrow> gw_error \<times> ledger" where
  "expire fault at t L = (case fault of Some e \<Rightarrow> (e, L) | None \<Rightarrow> (ErrDeadline, close_expired at t L))"

lemma expire_cases:
  "expire fault at t L = (e, L') \<Longrightarrow> L' = L \<or> L' = close_expired at t L"
  by (auto simp: expire_def split: option.splits)

text \<open>The checks before the first byte; the row is the join of request, permission and file.\<close>

definition write_refusal :: "string \<Rightarrow> write_clock \<Rightarrow> request_row \<Rightarrow> perm_row \<Rightarrow> file_row \<Rightarrow> bytes
    \<Rightarrow> ledger \<Rightarrow> (gw_error \<times> ledger) option" where
  "write_refusal at wc r p f data L =
     (if \<not> rq_open r \<or> pr_state p \<noteq> ''bound'' then Some (ErrClosed, L)
      else if wc_entry wc \<ge> pr_td p then Some (expire (fst (wc_close_faults wc)) at (wc_entry_close wc) L)
      else if is_completed (pr_oid p) (pr_fid p) L then Some (ErrClosed, L)
      else if fl_size f = 0 \<or> covered (segments Transmitted (pr_oid p) (pr_fid p) L) 0 (fl_size f - 1)
        then Some (ErrClosed, L)
      else if data = [] \<or> rq_written r + int (length data) > rq_end r
        then Some (ErrMsg ''invalid write chunk'', L)
      else None)"

text \<open>After the loop: checkpoint the rest, then enforce the transfer deadline.\<close>

definition write_finish :: "signer \<Rightarrow> string \<Rightarrow> write_clock \<Rightarrow> gw_error option \<times> gw_error option \<Rightarrow> int
    \<Rightarrow> int \<Rightarrow> int \<Rightarrow> gw_error option \<Rightarrow> int \<Rightarrow> int \<Rightarrow> ledger \<Rightarrow> (int \<times> gw_error option) \<times> ledger" where
  "write_finish sg at wc pf td i old werr written checkpoint L =
     (case (if written > checkpoint then progress (fst pf) (snd pf) sg at i (old + written) L else (Inr (), L)) of
        (Inl e, L') \<Rightarrow> ((written, Some (ErrProgress e)), L')
      | (Inr _, L') \<Rightarrow>
          if wc_exit wc \<ge> td
          then (case expire (snd (wc_close_faults wc)) at (wc_exit_close wc) L' of (e, L2) \<Rightarrow> ((written, Some e), L2))
          else ((written, werr), L'))"

definition write_chunk :: "signer \<Rightarrow> string \<Rightarrow> writer \<Rightarrow> write_clock \<Rightarrow> faults \<Rightarrow> gw_error option \<times> gw_error option
    \<Rightarrow> int \<Rightarrow> bytes \<Rightarrow> ledger \<Rightarrow> (int \<times> gw_error option) \<times> ledger" where
  "write_chunk sg at wr wc pf pf_end i data L =
     (case joined_request i L of None \<Rightarrow> ((0, Some ErrNoRows), L)
      | Some (r, p) \<Rightarrow>
        (case file_of (pr_fid p) L of None \<Rightarrow> ((0, Some ErrNoRows), L)
         | Some f \<Rightarrow>
           (case write_refusal at wc r p f data L of
              Some (e, L') \<Rightarrow> ((0, Some e), L')
            | None \<Rightarrow>
              (case write_loop sg at wr (wc_loop wc) pf (pr_td p) i (rq_written r) data 0 0 0 L of
                 (WriteAbort e, written, checkpoint, L') \<Rightarrow> ((written, Some e), L')
               | (WriteDone werr, written, checkpoint, L') \<Rightarrow>
                   write_finish sg at wc pf_end (pr_td p) i (rq_written r) werr written checkpoint L'))))"

subsection \<open>A run is a sequence of transfer steps\<close>

definition xfer_steps :: "ledger \<times> (int \<Rightarrow> int) \<Rightarrow> ledger \<times> (int \<Rightarrow> int) \<Rightarrow> bool" where
  "xfer_steps = xfer_step\<^sup>*\<^sup>*"

lemma xfer_steps_refl: "xfer_steps s s"
  by (simp add: xfer_steps_def)

lemma xfer_steps_trans: "xfer_steps s t \<Longrightarrow> xfer_steps t u \<Longrightarrow> xfer_steps s u"
  by (simp add: xfer_steps_def)

lemma xfer_steps_one: "xfer_step s t \<Longrightarrow> xfer_steps s t"
  by (simp add: xfer_steps_def)

lemma xfer_steps_inv:
  assumes "xfer_steps (L, g) (L', g')" "xfer_inv L g"
  shows "xfer_inv L' g'"
proof -
  have "xfer_step\<^sup>*\<^sup>* (L, g) t \<Longrightarrow> xfer_inv (fst t) (snd t)" for t
  proof (induction rule: rtranclp_induct)
    case base
    from assms(2) show ?case by simp
  next
    case (step y z)
    then show ?case by (cases y; cases z) (auto intro: xfer_step_inv)
  qed
  from this [of "(L', g')"] assms(1) show ?thesis by (simp add: xfer_steps_def)
qed

text \<open>An open request whose checkpoint is at \<open>c\<close> and which has sent up to \<open>w\<close>.\<close>

definition at_point :: "ledger \<Rightarrow> (int \<Rightarrow> int) \<Rightarrow> int \<Rightarrow> int \<Rightarrow> int \<Rightarrow> bool" where
  "at_point L g i c w \<longleftrightarrow> (\<exists>r. request_of i L = Some r \<and> rq_open r \<and> rq_written r = c
     \<and> g i = w \<and> c \<le> w \<and> w \<le> min (rq_end r) (c + window))"

definition request_end :: "ledger \<Rightarrow> int \<Rightarrow> int" where
  "request_end L i = (case request_of i L of None \<Rightarrow> -1 | Some r \<Rightarrow> rq_end r)"

lemma send_to_point:
  assumes "at_point L g i c w" "w \<le> w'" "w' \<le> min (request_end L i) (c + window)"
  shows "xfer_step (L, g) (L, g(i := w'))" and "at_point L (g(i := w')) i c w'"
proof -
  obtain r where r: "request_of i L = Some r" "rq_open r" "rq_written r = c" "g i = w" "c \<le> w"
    using assms(1) by (auto simp: at_point_def)
  from r assms(2,3) show "xfer_step (L, g) (L, g(i := w'))"
    by (intro xs_send) (auto simp: request_end_def)
  from r assms(2,3) show "at_point L (g(i := w')) i c w'"
    by (auto simp: at_point_def request_end_def)
qed

lemma progress_body_request:
  assumes "progress_body sg at i w L = Inr (u, L')"
  obtains r where "request_of i L = Some r" "request_of i L' = Some (r\<lparr>rq_written := w\<rparr>)"
proof -
  obtain r p where j: "joined_request i L = Some (r, p)"
    using assms by (auto simp: progress_body_def split: option.splits)
  note jr = joined_request_Some [OF j]
  have set: "request_of i (set_written i w L1) = Some (r\<lparr>rq_written := w\<rparr>)"
    if "lg_requests L1 = lg_requests L" for L1
  proof -
    have "select_row (\<lambda>r. rq_id r = i) (lg_requests L) = Some r" using jr(3) by (simp add: request_of_def)
    then have "select_row (\<lambda>r. rq_id r = i) (update_rows (\<lambda>r. rq_id r = i) (\<lambda>r. r\<lparr>rq_written := w\<rparr>) (lg_requests L))
        = Some (r\<lparr>rq_written := w\<rparr>)"
      using jr(2) by (simp add: select_update_rows)
    then show ?thesis by (simp add: request_of_def set_written_def that)
  qed
  have rw: "rewrite tab oid fid s L = Inr L1 \<Longrightarrow> lg_requests L1 = lg_requests L" for tab oid fid s L1
    by (cases tab) (auto simp: rewrite_def split: sum.splits)
  have qt: "queue_tx sg at oid fid oc c L1 = Inr L2 \<Longrightarrow> request_of i L2 = request_of i L1" for oid fid oc c L1 L2
    by (drule queue_tx_frame) (simp add: xfer_frame_def request_of_def)
  have "request_of i L' = Some (r\<lparr>rq_written := w\<rparr>)"
    using assms set qt by (auto simp: progress_body_def j split: if_splits sum.splits dest!: rw)
  with jr(3) show thesis by (rule that)
qed

lemma progress_step:
  assumes "progress be ce sg at i w L = (Inr u, L')" "at_point L g i c w"
  shows "xfer_step (L, g) (L', g)" "at_point L' g i w w" "request_end L' i = request_end L i"
proof -
  have w: "g i = w" using assms(2) by (auto simp: at_point_def)
  with assms(1) show "xfer_step (L, g) (L', g)"
    using xs_progress [of be ce sg at i g L "Inr u" L'] by simp
  have "progress_body sg at i w L = Inr (u, L')" using assms(1) tx_ok by (metis progress_def)
  then obtain r where r: "request_of i L = Some r" "request_of i L' = Some (r\<lparr>rq_written := w\<rparr>)"
    by (rule progress_body_request)
  then show "at_point L' g i w w" "request_end L' i = request_end L i"
    using assms(2) by (auto simp: at_point_def request_end_def window_def)
qed

lemma progress_error: "progress be ce sg at i w L = (Inl e, L') \<Longrightarrow> L' = L"
  unfolding progress_def by (rule tx_error_unchanged)

text \<open>One round, seen as transfer steps.\<close>

lemma write_round_steps:
  assumes "write_round sg at wr clk pf td i old data k written checkpoint L = out"
    and "at_point L g i (old + checkpoint) (old + written)"
    and "old + int (length data) \<le> request_end L i" and "written \<le> int (length data)"
    and "(case out of Inl (e, w', c', L') \<Rightarrow> w = w' \<and> c = c' \<and> M = L'
          | Inr (w', c', L') \<Rightarrow> w = w' \<and> c = c' \<and> M = L')"
  shows "xfer_steps (L, g) (M, g(i := old + w)) \<and> at_point M (g(i := old + w)) i (old + c) (old + w)
    \<and> written \<le> w \<and> w \<le> int (length data) \<and> request_end M i = request_end L i"
proof -
  let ?len = "int (length data)"
  let ?limit = "min ?len (checkpoint + window)"
  obtain n err where wr: "wr k (slice data written ?limit) = (n, err)" by fastforce
  have gi: "g(i := old + written) = g" using assms(2) by (auto simp: at_point_def)
  show ?thesis
  proof (cases "clk k \<ge> td \<or> n < 0 \<or> n > ?limit - written")
    case True
    then have "w = written" "c = checkpoint" "M = L"
      using assms(1,5) wr by (auto simp: write_round_def Let_def split: if_splits)
    with assms(2,4) gi show ?thesis by (simp add: xfer_steps_refl)
  next
    case False
    then have n: "0 \<le> n" "written + n \<le> ?limit" by auto
    have to: "old + written \<le> old + (written + n)"
      "old + (written + n) \<le> min (request_end L i) (old + checkpoint + window)"
      using n assms(3) by auto
    note sent = send_to_point [OF assms(2) to]
    have sent1: "xfer_steps (L, g) (L, g(i := old + (written + n)))"
      using sent(1) by (rule xfer_steps_one)
    have n': "written \<le> written + n" "written + n \<le> ?len" using n by auto
    obtain res L1 where pr: "progress (fst (pf k)) (snd (pf k)) sg at i (old + (written + n)) L = (res, L1)"
      by (metis surj_pair)
    show ?thesis
    proof (cases "written + n = ?limit \<and> ?limit < ?len")
      case full: True
      note 1 = full pr
      show ?thesis
      proof (cases res)
        case (Inl e1)
        with 1 have "L1 = L" using progress_error by simp
        with 1 Inl False assms(1,5) wr have "w = written + n" "c = checkpoint" "M = L"
          by (auto simp: write_round_def Let_def split: if_splits)
        with sent(2) sent1 n' show ?thesis by metis
      next
        case (Inr u)
        note ps = progress_step [OF pr [unfolded Inr] sent(2)]
        have "w = written + n" "c = written + n" "M = L1"
          using 1 Inr False assms(1,5) wr by (auto simp: write_round_def Let_def split: if_splits)
        with ps n' xfer_steps_trans [OF sent1 xfer_steps_one [OF ps(1)]] show ?thesis by metis
      qed
    next
      case partial: False
      with False assms(1,5) wr have "w = written + n" "c = checkpoint" "M = L"
        by (auto simp: write_round_def Let_def split: if_splits)
      with sent(2) sent1 n' show ?thesis by metis
    qed
  qed
qed

lemma write_loop_steps:
  assumes "write_loop sg at wr clk pf td i old data k written checkpoint L = (e, w', c', L')"
    and "at_point L g i (old + checkpoint) (old + written)"
    and "old + int (length data) \<le> request_end L i"
    and "written \<le> int (length data)"
  shows "xfer_steps (L, g) (L', g(i := old + w'))
    \<and> at_point L' (g(i := old + w')) i (old + c') (old + w')
    \<and> written \<le> w' \<and> w' \<le> int (length data) \<and> request_end L' i = request_end L i"
  using assms
proof (induction sg at wr clk pf td i old data k written checkpoint L arbitrary: g e w' c' L'
    rule: write_loop.induct)
  case (1 sg at wr clk pf td i old data k written checkpoint L)
  note unfolded = "1.prems"(1) [unfolded write_loop.simps [of sg at wr clk pf td i old data k written checkpoint L]]
  note one = write_round_steps [OF _ "1.prems"(2-4)]
  consider "written \<ge> int (length data)"
    | r where "\<not> written \<ge> int (length data)"
        "write_round sg at wr clk pf td i old data k written checkpoint L = Inl r"
    | w1 c1 L1 where "\<not> written \<ge> int (length data)"
        "write_round sg at wr clk pf td i old data k written checkpoint L = Inr (w1, c1, L1)"
    by (metis sum.exhaust prod_cases3)
  then show ?case
  proof cases
    case 1
    have "g(i := old + written) = g" using "1.prems"(2) by (auto simp: at_point_def)
    with 1 unfolded "1.prems"(2,4) show ?thesis by (auto simp: xfer_steps_refl)
  next
    case 2
    with unfolded have "r = (e, w', c', L')" by simp
    with one [OF 2(2), of w' c' L'] show ?thesis by (simp del: fun_upd_apply add: fun_upd_def)
  next
    case 3
    with unfolded have loop: "write_loop sg at wr clk pf td i old data (k + 1) w1 c1 L1 = (e, w', c', L')"
      by simp
    have r: "xfer_steps (L, g) (L1, g(i := old + w1))" "at_point L1 (g(i := old + w1)) i (old + c1) (old + w1)"
      "written \<le> w1" "w1 \<le> int (length data)" "request_end L1 i = request_end L i"
      using one [OF 3(2), of w1 c1 L1] by auto
    have "xfer_steps (L1, g(i := old + w1)) (L', g(i := old + w1, i := old + w'))
      \<and> at_point L' (g(i := old + w1, i := old + w')) i (old + c') (old + w')
      \<and> w1 \<le> w' \<and> w' \<le> int (length data) \<and> request_end L' i = request_end L1 i"
      by (rule "1.IH" [OF 3 refl refl loop r(2) _ r(4)]) (use r(5) "1.prems"(3) in simp)
    then have "xfer_steps (L1, g(i := old + w1)) (L', g(i := old + w'))
      \<and> at_point L' (g(i := old + w')) i (old + c') (old + w')
      \<and> w1 \<le> w' \<and> w' \<le> int (length data) \<and> request_end L' i = request_end L1 i"
      unfolding fun_upd_upd .
    with r xfer_steps_trans [OF r(1)] show ?thesis by (metis order_trans)
  qed
qed

end
