(* ===== verification/LedgerProps.thy ===== *)
theory LedgerProps
  imports LedgerWrite
begin

text \<open>
  What the ledger promises, stated over its operations: how often a byte can leave the
  gateway, what the transmitted table and a receipt say, what a reservation grants, and
  what no later operation undoes. The examples at the start are the concrete ledger the
  witnesses run on.
\<close>

subsection \<open>A concrete ledger\<close>

definition demo_permission :: permission where
  "demo_permission = \<lparr>p_aud = ''adg-1'', p_oid = ''o'', p_lvid = ''v'', p_fid = ''f'', p_sha = ''h'',
     p_jti = ''j'', p_iat = 0, p_sd = 100, p_td = 200, p_ro = 0\<rparr>"

definition demo_file :: file_row where
  "demo_file = \<lparr>fl_fid = ''f'', fl_source = ''s'', fl_path = ''p'', fl_size = 10, fl_mtime = ''m'',
     fl_sha = ''h'', fl_block_size = window, fl_hashes = [''x''], fl_name = ''n'', fl_root = ''r'',
     fl_changed = 0\<rparr>"

definition demo_offer :: offer_row where
  "demo_offer = \<lparr>of_fid = ''f'', of_sha = ''h'', of_lvid = ''v'', of_iid = ''i'',
     of_state = ''offered'', of_approved_at = None, of_key_class = ''listing''\<rparr>"

definition demo_ledger :: ledger where
  "demo_ledger = empty_ledger\<lparr>lg_files := [demo_file], lg_offers := [demo_offer]\<rparr>"

definition demo_sign :: signer where
  "demo_sign r = Inr (rc_outcome r)"

definition demo_reserved :: ledger where
  "demo_reserved = snd (reserve None None (\<lambda>_. 0) ''t'' demo_permission 0 9 demo_ledger)"

lemmas demo_defs = demo_permission_def demo_file_def demo_offer_def demo_ledger_def
  demo_sign_def demo_reserved_def

lemma demo_reach: "xfer_reach demo_ledger g"
proof -
  have "xfer_frame empty_ledger demo_ledger"
    by (rule xfer_frame_perms_same) (simp_all add: demo_ledger_def)
  then show ?thesis by (rule xr_step [OF xr_start xs_other])
qed

lemma demo_reserve:
  "reserve None None (\<lambda>_. 0) ''t'' demo_permission 0 9 demo_ledger
     = (Inr \<lparr>rs_id = 1, rs_start = 0, rs_end = 9\<rparr>, demo_reserved)"
proof -
  have "fst (reserve None None (\<lambda>_. 0) ''t'' demo_permission 0 9 demo_ledger)
      = Inr \<lparr>rs_id = 1, rs_start = 0, rs_end = 9\<rparr>" by code_simp
  then show ?thesis by (metis demo_reserved_def prod.collapse)
qed

lemma demo_reserved_reach: "xfer_reach demo_reserved (\<lambda>_. -1)"
proof -
  have "xfer_step (demo_ledger, \<lambda>_. -1) (demo_reserved, (\<lambda>_. -1)(1 := -1))"
    using xs_reserve [OF demo_reserve, of "\<lambda>_. -1"] by simp
  moreover have "(\<lambda>_. -1)(1 := -1) = (\<lambda>_::int. -1::int)" by auto
  ultimately show ?thesis using xr_step [OF demo_reach] by metis
qed

subsection \<open>How often a byte is sent\<close>

text \<open>C1: Whatever order reservations, writes, checkpoints, settlements, crashes, recoveries
  and revocations come in, no byte of an order's file leaves the gateway more than twice.\<close>

theorem reach_sent_at_most_twice:
  assumes "xfer_reach L g"
  shows "times_sent L g oid fid x \<le> 2"
  by (rule times_sent_le_two [OF xfer_reach_inv [OF assms]])

theorem reach_sent_at_most_twice_witness:
  "times_sent demo_reserved (\<lambda>_. -1) ''o'' ''f'' 0 \<le> 2"
  by (rule reach_sent_at_most_twice [OF demo_reserved_reach])

text \<open>C7: The transmitted table is exact: it covers a byte if and only if some request of
  that order and file recorded it, and its rows are disjoint, ordered and never touch.\<close>

theorem reach_transmitted_exact:
  assumes "xfer_reach L g"
  shows "seg_wf (segments Transmitted oid fid L) \<and> seg_maximal (segments Transmitted oid fid L)
    \<and> (0 < seg_count (segments Transmitted oid fid L) x \<longleftrightarrow>
      (\<exists>r \<in> set (lg_requests L). request_key L r = Some (oid, fid) \<and> rq_start r \<le> x \<and> x \<le> rq_written r))"
  using xfer_reach_inv [OF assms] by (auto simp: xfer_inv_def inv_tr_def inv_cov_def seg_unit_def)

theorem reach_transmitted_exact_witness:
  "\<not> 0 < seg_count (segments Transmitted ''o'' ''f'' demo_reserved) 0"
proof -
  have "\<not> (\<exists>r \<in> set (lg_requests demo_reserved). request_key demo_reserved r = Some (''o'', ''f'')
      \<and> rq_start r \<le> 0 \<and> 0 \<le> rq_written r)" by code_simp
  with reach_transmitted_exact [OF demo_reserved_reach, of "''o''" "''f''" 0] show ?thesis by blast
qed

subsection \<open>Reservations\<close>

text \<open>The bytes of a file whose serve count is \<open>n\<close>, as the serves table has them.\<close>

definition serves_of :: "string \<Rightarrow> string \<Rightarrow> ledger \<Rightarrow> int \<Rightarrow> int" where
  "serves_of oid fid L x = seg_count (segments Serves oid fid L) x"

lemma clip_served_stop:
  assumes "seg_wf ss" "clip_served ss start e0 = Some e1" "e1 < e0"
  shows "seg_count ss (e1 + 1) = 2"
  using assms
proof (induction ss)
  case Nil
  then show ?case by simp
next
  case (Cons s ss)
  have wf: "seg_wf ss" and s: "seg_a s \<le> seg_b s" "\<forall>t \<in> set ss. seg_b s < seg_a t"
    using Cons.prems(1) by (auto simp: seg_wf_Cons)
  show ?case
  proof (cases "seg_c s = 2 \<and> seg_a s \<le> e0 \<and> seg_b s \<ge> start")
    case True
    with Cons.prems(2) s show ?thesis by (auto split: if_splits)
  next
    case False
    then have "clip_served ss start e0 = Some e1" using Cons.prems(2) by auto
    with Cons.IH wf Cons.prems(3) have two: "seg_count ss (e1 + 1) = 2" by simp
    then have "0 < seg_count ss (e1 + 1)" by simp
    then obtain t where "t \<in> set ss" "seg_a t \<le> e1 + 1" using wf seg_count_pos_iff by blast
    with s two show ?thesis by force
  qed
qed

lemma clip_served_None:
  assumes "seg_wf ss" "start \<le> e0"
  shows "clip_served ss start e0 = None \<longleftrightarrow> seg_count ss start = 2"
  using assms
proof (induction ss)
  case Nil
  then show ?case by simp
next
  case (Cons s ss)
  have wf: "seg_wf ss" and s: "seg_a s \<le> seg_b s" "\<forall>t \<in> set ss. seg_b s < seg_a t"
    using Cons.prems(1) by (auto simp: seg_wf_Cons)
  have rest: "seg_count ss start = 0" if "start \<le> seg_b s"
    using s that by (intro seg_count_outside) force
  show ?case using Cons.IH [OF wf Cons.prems(2)] Cons.prems(2) s rest by auto
qed

lemma request_of_new:
  assumes "\<forall>r \<in> set (lg_requests L). rq_id r \<noteq> i" "lg_requests L' = lg_requests L @ [r]" "rq_id r = i"
  shows "request_of i L' = Some r"
proof -
  have "select_row (\<lambda>r. rq_id r = i) (lg_requests L) = None" using assms(1) by (simp add: select_row_None)
  then show ?thesis using assms(2,3) by (simp add: request_of_def select_row_append)
qed

lemma reserve_facts:
  assumes "xfer_reach L g" and "reserve be ce clk at p s e L = (Inr rs, L')"
  shows "rs_start rs = s" and "0 \<le> s" and "s \<le> rs_end rs" and "rs_end rs \<le> e"
    and "rs_end rs < e \<Longrightarrow> serves_of (p_oid p) (p_fid p) L (rs_end rs + 1) = 2"
    and "s \<le> x \<Longrightarrow> x \<le> rs_end rs \<Longrightarrow> serves_of (p_oid p) (p_fid p) L x < 2"
    and "serves_of oid fid L' x = serves_of oid fid L x
      + (if oid = p_oid p \<and> fid = p_fid p \<and> s \<le> x \<and> x \<le> rs_end rs then 1 else 0)"
    and "\<exists>isol. request_of (rs_id rs) L' = Some \<lparr>rq_id = rs_id rs, rq_jti = p_jti p, rq_start = s,
      rq_end = rs_end rs, rq_written = s - 1, rq_open = True, rq_isolated = isol\<rparr>"
proof -
  have inv: "xfer_inv L g" using assms(1) by (rule xfer_reach_inv)
  then have cov: "inv_cov L" by (simp add: xfer_inv_def)
  have body: "reserve_body clk at p s e L = Inr (rs, L')" using assms(2) unfolding reserve_def by (rule tx_ok)
  obtain L1 e1 isol f where start: "0 \<le> s" "s \<le> e"
    and clip: "clip_served (segments Serves (p_oid p) (p_fid p) L) s e = Some e1"
    and bind: "bind_permission at p L = Inr L1"
    and L': "L' = insert_request (p_jti p) s e1 isol (rewritten Serves (p_oid p) (p_fid p)
        (transform (segments Serves (p_oid p) (p_fid p) L) s e1 1) L1)"
    and rs: "rs = \<lparr>rs_id = next_request_id L, rs_start = s, rs_end = e1\<rparr>"
    by (rule reserve_body_InrE [OF body cov])
  have fr: "xfer_frame L L1" using bind by (rule bind_permission_frame)
  have wf: "seg_wf (segments Serves (p_oid p) (p_fid p) L)"
    and le2: "\<forall>x. seg_count (segments Serves (p_oid p) (p_fid p) L) x \<le> 2"
    using cov by (auto simp: inv_cov_def)
  have clipped: "s \<le> e1" "e1 \<le> e"
    "\<forall>x. s \<le> x \<and> x \<le> e1 \<longrightarrow> seg_count (segments Serves (p_oid p) (p_fid p) L) x < 2"
    using clip_served_props [OF wf seg_counts_le_two [OF wf le2] clip start(2)] by auto
  show "rs_start rs = s" "0 \<le> s" "s \<le> rs_end rs" "rs_end rs \<le> e"
    using rs start clipped by simp_all
  show "serves_of (p_oid p) (p_fid p) L (rs_end rs + 1) = 2" if "rs_end rs < e"
    using clip_served_stop [OF wf clip] that by (simp add: rs serves_of_def)
  show "serves_of (p_oid p) (p_fid p) L x < 2" if "s \<le> x" "x \<le> rs_end rs"
    using clipped(3) that by (simp add: rs serves_of_def)
  show "serves_of oid fid L' x = serves_of oid fid L x
      + (if oid = p_oid p \<and> fid = p_fid p \<and> s \<le> x \<and> x \<le> rs_end rs then 1 else 0)"
    using segments_rewritten [OF seg_wf_transform [OF wf], of Serves oid fid Serves "p_oid p" "p_fid p" s e1 1 L1]
      seg_count_nonneg [OF wf, of x]
    by (auto simp: serves_of_def L' lg_insert_request rs seg.cnt_bump_gen [OF wf] segments_frame [OF fr])
  have reqs: "lg_requests L1 = lg_requests L" using fr by (simp add: xfer_frame_def)
  have nid: "next_request_id (rewritten Serves oid fid ss L1) = next_request_id L" for oid fid ss
    by (simp add: next_request_id_def reqs)
  have "\<forall>r \<in> set (lg_requests L). rq_id r \<noteq> next_request_id L" using next_request_id_fresh by fastforce
  then show "\<exists>isol. request_of (rs_id rs) L' = Some \<lparr>rq_id = rs_id rs, rq_jti = p_jti p, rq_start = s,
      rq_end = rs_end rs, rq_written = s - 1, rq_open = True, rq_isolated = isol\<rparr>"
    by (intro exI [of _ isol] request_of_new [of L]) (simp_all add: L' lg_insert_request nid reqs rs)
qed

text \<open>C10: A granted reservation starts at the byte asked for, ends no later than asked, is
  cut only by a byte already at two serves, and adds one serve to exactly its own bytes,
  none of which was at two; an open request with nothing written is recorded for it.\<close>

theorem reserve_grants:
  assumes "xfer_reach L g" and "reserve be ce clk at p s e L = (Inr rs, L')"
  shows "rs_start rs = s \<and> 0 \<le> s \<and> s \<le> rs_end rs \<and> rs_end rs \<le> e
    \<and> (rs_end rs < e \<longrightarrow> serves_of (p_oid p) (p_fid p) L (rs_end rs + 1) = 2)
    \<and> (\<forall>x. s \<le> x \<and> x \<le> rs_end rs \<longrightarrow> serves_of (p_oid p) (p_fid p) L x < 2)
    \<and> (\<forall>oid fid x. serves_of oid fid L' x = serves_of oid fid L x
      + (if oid = p_oid p \<and> fid = p_fid p \<and> s \<le> x \<and> x \<le> rs_end rs then 1 else 0))
    \<and> (\<exists>isol. request_of (rs_id rs) L' = Some \<lparr>rq_id = rs_id rs, rq_jti = p_jti p, rq_start = s,
      rq_end = rs_end rs, rq_written = s - 1, rq_open = True, rq_isolated = isol\<rparr>)"
  by (intro conjI allI impI; (elim conjE)?; rule reserve_facts [OF assms]; assumption)

theorem reserve_grants_witness:
  "serves_of ''o'' ''f'' demo_reserved 3 = serves_of ''o'' ''f'' demo_ledger 3 + 1"
  using reserve_grants [OF demo_reach demo_reserve] by (simp add: demo_permission_def)

text \<open>For a permission that is otherwise acceptable, on a file that is known and not yet
  fully sent, a well-formed range is refused as exhausted exactly when its first byte has
  already been served twice.\<close>

theorem reserve_exhausted_iff:
  assumes "xfer_reach L g" and "reserve_refusal clk p L = None" and "file_of (p_fid p) L = Some f"
    and "fl_size f \<noteq> 0" and "\<not> covered (segments Transmitted (p_oid p) (p_fid p) L) 0 (fl_size f - 1)"
    and "0 \<le> s" and "s \<le> e"
  shows "fst (reserve None None clk at p s e L) = Inl ErrExhausted \<longleftrightarrow> serves_of (p_oid p) (p_fid p) L s = 2"
proof -
  have wf: "seg_wf (segments Serves (p_oid p) (p_fid p) L)"
    using xfer_reach_inv [OF assms(1)] by (simp add: xfer_inv_def inv_cov_def)
  have bind: "bind_permission at p L \<noteq> Inl ErrExhausted"
    by (auto simp: bind_permission_def Let_def split: option.splits)
  show ?thesis
  proof (cases "clip_served (segments Serves (p_oid p) (p_fid p) L) s e")
    case None
    moreover from this have "serves_of (p_oid p) (p_fid p) L s = 2"
      using clip_served_None [OF wf assms(7)] by (simp add: serves_of_def)
    ultimately show ?thesis using assms
      by (simp add: reserve_def tx_def reserve_body_def Let_def)
  next
    case (Some e1)
    then have two: "serves_of (p_oid p) (p_fid p) L s \<noteq> 2"
      using clip_served_None [OF wf assms(7)] by (simp add: serves_of_def)
    have "reserve_body clk at p s e L \<noteq> Inl ErrExhausted"
      using assms bind Some
      by (auto simp: reserve_body_def Let_def rewrite_eq [OF seg_wf_transform [OF wf]] split: sum.splits)
    then have "fst (reserve None None clk at p s e L) \<noteq> Inl ErrExhausted"
      by (auto simp: reserve_def tx_def split: sum.splits)
    with two show ?thesis by simp
  qed
qed

theorem reserve_exhausted_iff_witness:
  "fst (reserve None None (\<lambda>_. 0) ''t'' demo_permission 0 9 demo_ledger) \<noteq> Inl ErrExhausted"
proof -
  have a: "reserve_refusal (\<lambda>_. 0) demo_permission demo_ledger = None" by code_simp
  have b: "file_of (p_fid demo_permission) demo_ledger = Some demo_file" by code_simp
  have c: "\<not> covered (segments Transmitted (p_oid demo_permission) (p_fid demo_permission) demo_ledger) 0
      (fl_size demo_file - 1)" by code_simp
  have d: "serves_of (p_oid demo_permission) (p_fid demo_permission) demo_ledger 0 \<noteq> 2" by code_simp
  show ?thesis
    using reserve_exhausted_iff [OF demo_reach a b _ c, of 0 9] d by (simp add: demo_file_def)
qed

subsection \<open>The write loop\<close>

lemma at_point_requests: "lg_requests L' = lg_requests L \<Longrightarrow> at_point L' g i c w = at_point L g i c w"
  by (simp add: at_point_def request_of_def)

lemma write_finish_steps:
  assumes "write_finish sg at wc pf td i old werr w c L = ((n, e), L')"
    and "at_point L g i (old + c) (old + w)"
  shows "n = w \<and> xfer_steps (L, g) (L', g)
    \<and> (at_point L' g i (old + w) (old + w) \<or> (at_point L' g i (old + c) (old + w) \<and> (\<exists>x. e = Some (ErrProgress x))))"
proof -
  let ?close = "close_expired at (wc_exit_close wc)"
  have close: "xfer_steps (M, g) (?close M, g)" for M
    by (intro xfer_steps_one xs_other close_expired_frame)
  have point: "at_point (?close M) g i x y = at_point M g i x y" for M x y
    by (rule at_point_requests) (simp add: close_expired_def)
  show ?thesis
  proof (cases "w > c")
    case False
    with assms(2) have "w = c" by (auto simp: at_point_def)
    with False assms close [of L] point [of L] show ?thesis
      by (auto simp: write_finish_def xfer_steps_refl split: if_splits prod.splits dest!: expire_cases)
  next
    case True
    obtain res L1 where pr: "progress (fst pf) (snd pf) sg at i (old + w) L = (res, L1)" by fastforce
    show ?thesis
    proof (cases res)
      case (Inl x)
      with pr have "L1 = L" using progress_error by simp
      with True pr Inl assms show ?thesis by (auto simp: write_finish_def xfer_steps_refl)
    next
      case (Inr u)
      note ps = progress_step [OF pr [unfolded Inr] assms(2)]
      have s1: "xfer_steps (L, g) (L1, g)" using ps(1) by (rule xfer_steps_one)
      have "n = w" "L' = L1 \<or> L' = ?close L1"
        using True pr Inr assms(1) by (auto simp: write_finish_def split: if_splits prod.splits dest: expire_cases)
      with ps(2) s1 xfer_steps_trans [OF s1 close] point [of L1] show ?thesis by metis
    qed
  qed
qed

text \<open>The contract of io.Writer: the count lies between zero and the length offered.\<close>

definition io_contract :: "writer \<Rightarrow> bool" where
  "io_contract wr \<longleftrightarrow> (\<forall>k b. 0 \<le> fst (wr k b) \<and> fst (wr k b) \<le> int (length b))"

definition bad_write :: "writer \<Rightarrow> gw_error \<Rightarrow> bool" where
  "bad_write wr e \<longleftrightarrow> e = ErrMsg ''invalid write result'' \<and> \<not> io_contract wr"

lemma write_round_in_contract:
  assumes "io_contract wr" "0 \<le> w" "w \<le> c + window" "w \<le> int (length data)"
    and "wr k (slice data w (min (int (length data)) (c + window))) = (n, err)"
  shows "0 \<le> n \<and> n \<le> min (int (length data)) (c + window) - w"
proof -
  let ?b = "slice data w (min (int (length data)) (c + window))"
  have "0 \<le> fst (wr k ?b) \<and> fst (wr k ?b) \<le> int (length ?b)"
    using assms(1) unfolding io_contract_def by blast
  moreover have "int (length ?b) \<le> min (int (length data)) (c + window) - w"
    using assms(2-4) by (simp add: slice_def)
  ultimately show ?thesis using assms(5) by simp
qed

lemma write_loop_abort:
  assumes "write_loop sg at wr clk pf td i old data k w0 c0 L = (WriteAbort e, w', c', L')"
    and "0 \<le> w0" and "w0 \<le> c0 + window"
  shows "(\<exists>x. e = ErrProgress x) \<or> bad_write wr e"
  using assms
proof (induction sg at wr clk pf td i old data k w0 c0 L rule: write_loop.induct)
  case (1 sg at wr clk pf td i old data k w c L)
  note unfolded = "1.prems"(1) [unfolded write_loop.simps [of sg at wr clk pf td i old data k w c L]]
  have more: "\<not> w \<ge> int (length data)" using unfolded by (auto split: if_splits)
  have contract: "0 \<le> n \<and> n \<le> min (int (length data)) (c + window) - w"
    if "wr k (slice data w (min (int (length data)) (c + window))) = (n, err)" "io_contract wr" for n err
    using write_round_in_contract [OF that(2) "1.prems"(2,3) _ that(1)] more by simp
  have round_end: "write_round sg at wr clk pf td i old data k w c L = Inl (WriteAbort e, a, b, M)
      \<Longrightarrow> (\<exists>x. e = ErrProgress x) \<or> bad_write wr e" for a b M
    using contract
    by (auto simp: write_round_def Let_def bad_write_def split: if_splits prod.splits sum.splits)
  show ?case
  proof (cases "write_round sg at wr clk pf td i old data k w c L")
    case (Inl r)
    with unfolded round_end more show ?thesis by auto
  next
    case (Inr r)
    obtain w1 c1 L1 where r: "r = (w1, c1, L1)" by (metis prod_cases3)
    have loop: "write_loop sg at wr clk pf td i old data (k + 1) w1 c1 L1 = (WriteAbort e, w', c', L')"
      using unfolded Inr r more by simp
    have "w < w1" "w1 \<le> c1 + window"
      using Inr r by (auto simp: write_round_def Let_def window_def split: if_splits prod.splits sum.splits)
    with "1.IH" [OF more Inr [unfolded r] refl refl loop] "1.prems"(2) show ?thesis by simp
  qed
qed

text \<open>The state after a write: what was sent, and how far the row says it was recorded.\<close>

definition write_accounted :: "ledger \<Rightarrow> int \<Rightarrow> int \<Rightarrow> gw_error option \<Rightarrow> bool" where
  "write_accounted L i sent e \<longleftrightarrow> (\<forall>r. request_of i L = Some r \<longrightarrow>
     rq_written r \<le> sent \<and> sent \<le> rq_written r + window \<and> sent \<le> rq_end r
     \<and> (rq_written r = sent \<or> (\<exists>x. e = Some (ErrProgress x)) \<or> e = Some (ErrMsg ''invalid write result'')))"

lemma at_point_accounted:
  "at_point L g i c w \<Longrightarrow> c = w \<or> (\<exists>x. e = Some (ErrProgress x)) \<or> e = Some (ErrMsg ''invalid write result'')
    \<Longrightarrow> write_accounted L i w e"
  by (auto simp: at_point_def write_accounted_def)

text \<open>A call of WriteChunk as transfer steps: either nothing was sent and the requests are as
  before, or the request stands at a checkpoint from which at most one window was sent.\<close>

definition write_ended :: "ledger \<Rightarrow> ledger \<Rightarrow> (int \<Rightarrow> int) \<Rightarrow> writer \<Rightarrow> int \<Rightarrow> int \<Rightarrow> int \<Rightarrow> gw_error option \<Rightarrow> bool" where
  "write_ended L L' g wr i sent n e \<longleftrightarrow> (n = 0 \<and> e \<noteq> None \<and> lg_requests L' = lg_requests L)
     \<or> (\<exists>c. at_point L' g i c sent \<and> (c = sent \<or> (\<exists>x. e = Some (ErrProgress x)) \<or> (\<exists>x. e = Some x \<and> bad_write wr x)))"

lemma write_chunk_run:
  assumes "request_of i L = Some r" and "g i = rq_written r"
    and "write_chunk sg at wr wc pf pf_end i data L = ((n, e), L')"
  shows "0 \<le> n \<and> n \<le> int (length data) \<and> xfer_steps (L, g) (L', g(i := rq_written r + n))
    \<and> write_ended L L' (g(i := rq_written r + n)) wr i (rq_written r + n) n e"
proof (cases "\<exists>r p f. joined_request i L = Some (r, p) \<and> file_of (pr_fid p) L = Some f
      \<and> write_refusal at wc r p f data L = None")
  case False
  have n: "n = 0 \<and> e \<noteq> None \<and> (L' = L \<or> L' = close_expired at (wc_entry_close wc) L)"
    using assms(3) False
    by (auto simp: write_chunk_def write_refusal_def split: option.splits prod.splits if_splits dest: expire_cases)
  have "xfer_steps (L, g) (close_expired at (wc_entry_close wc) L, g)"
    by (intro xfer_steps_one xs_other close_expired_frame)
  with n have "xfer_steps (L, g) (L', g)" using xfer_steps_refl by blast
  moreover have "g(i := rq_written r + n) = g" using assms(2) n by auto
  moreover have "lg_requests L' = lg_requests L" using n by (auto simp: close_expired_def)
  ultimately show ?thesis using n by (simp add: write_ended_def del: fun_upd_apply)
next
  case True
  then obtain r' p f where j: "joined_request i L = Some (r', p)" "file_of (pr_fid p) L = Some f"
    and ok: "write_refusal at wc r' p f data L = None" by blast
  have [simp]: "r' = r" using j(1) assms(1) by (simp add: joined_request_def split: option.splits)
  have ok': "rq_open r" "data \<noteq> []" "rq_written r + int (length data) \<le> rq_end r"
    using ok by (auto simp: write_refusal_def split: if_splits)
  have start: "at_point L g i (rq_written r + 0) (rq_written r + 0)"
    using assms(1,2) ok' by (simp add: at_point_def window_def)
  obtain we w c L1 where loop: "write_loop sg at wr (wc_loop wc) pf (pr_td p) i (rq_written r) data 0 0 0 L
      = (we, w, c, L1)" by (metis prod_cases4)
  let ?g = "g(i := rq_written r + w)"
  have steps: "xfer_steps (L, g) (L1, ?g)" "at_point L1 ?g i (rq_written r + c) (rq_written r + w)"
    "0 \<le> w" "w \<le> int (length data)"
    using write_loop_steps [OF loop start] ok'(3) assms(1) by (auto simp: request_end_def)
  show ?thesis
  proof (cases we)
    case (WriteAbort x)
    then have "n = w" "e = Some x" "L' = L1"
      using assms(3) j ok loop by (auto simp: write_chunk_def)
    with steps write_loop_abort [OF loop [unfolded WriteAbort]] show ?thesis
      by (auto simp: write_ended_def window_def)
  next
    case (WriteDone we')
    then have fin: "write_finish sg at wc pf_end (pr_td p) i (rq_written r) we' w c L1 = ((n, e), L')"
      using assms(3) j ok loop by (auto simp: write_chunk_def)
    note wf = write_finish_steps [OF fin steps(2)]
    then have "n = w" "xfer_steps (L, g) (L', ?g)" using steps(1) xfer_steps_trans by blast+
    with wf steps(3,4) show ?thesis unfolding write_ended_def by blast
  qed
qed

lemma write_ended_accounted:
  "write_ended L L' g wr i w n e \<Longrightarrow> n > 0 \<Longrightarrow> write_accounted L' i w e"
  by (auto simp: write_ended_def bad_write_def intro: at_point_accounted)


definition demo_clock :: write_clock where
  "demo_clock = \<lparr>wc_entry = 0, wc_entry_close = 0, wc_loop = (\<lambda>_. 0), wc_exit = 0, wc_exit_close = 0,
     wc_close_faults = (None, None)\<rparr>"

definition demo_write :: "(int \<times> gw_error option) \<times> ledger" where
  "demo_write = write_chunk demo_sign ''t'' (\<lambda>k b. (min 4 (int (length b)), None)) demo_clock
     (\<lambda>_. (None, None)) (None, None) 1 ''0123456789'' demo_reserved"


subsection \<open>Settlement\<close>

text \<open>Settling an open request gives back exactly the serves of the bytes behind the last
  one it keeps: the last recorded byte, or after a crash one window further, since that much
  may have been sent without a checkpoint. The request is closed and no other serve changes.\<close>

theorem settle_releases:
  assumes "xfer_inv L g" and "joined_request i L = Some (r, p)" and "rq_open r"
    and "settle_body sg at crash outcome i L = Inr L'"
  shows "(\<forall>oid fid x. serves_of oid fid L' x =
      (if oid = pr_oid p \<and> fid = pr_fid p \<and> max (rq_start r) (settle_keep crash r + 1) \<le> x \<and> x \<le> rq_end r
       then max 0 (serves_of oid fid L x - 1) else serves_of oid fid L x))
    \<and> request_of i L' = Some (r\<lparr>rq_open := False\<rparr>)"
proof -
  let ?ss = "segments Serves (pr_oid p) (pr_fid p) L"
  let ?tf = "transform ?ss (max (rq_start r) (settle_keep crash r + 1)) (rq_end r) (-1)"
  let ?L2 = "set_closed i (rewritten Serves (pr_oid p) (pr_fid p) ?tf L)"
  have wf: "seg_wf ?ss" using assms(1) by (simp add: xfer_inv_def inv_cov_def)
  have fr: "xfer_frame ?L2 L'"
    using assms(2-4)
    by (auto simp: settle_body_def Let_def rewrite_eq [OF seg_wf_transform [OF wf]] split: option.splits if_splits
        intro: xfer_frame_refl close_order_file_frame queue_tx_frame
          xfer_frame_trans [OF close_order_file_frame queue_tx_frame])
  have seg2: "segments tab oid fid ?L2 = segments tab oid fid (rewritten Serves (pr_oid p) (pr_fid p) ?tf L)" for tab oid fid
    by (cases tab) (simp_all add: segments_def set_closed_def)
  have "serves_of oid fid L' x = serves_of oid fid (rewritten Serves (pr_oid p) (pr_fid p) ?tf L) x" for oid fid x
    using segments_frame [OF fr] seg2 by (simp add: serves_of_def)
  then have counts: "serves_of oid fid L' x =
      (if oid = pr_oid p \<and> fid = pr_fid p \<and> max (rq_start r) (settle_keep crash r + 1) \<le> x \<and> x \<le> rq_end r
       then max 0 (serves_of oid fid L x - 1) else serves_of oid fid L x)" for oid fid x
    using segments_rewritten [OF seg_wf_transform [OF wf], of Serves oid fid Serves "pr_oid p" "pr_fid p"]
    by (auto simp: serves_of_def seg.cnt_bump_gen [OF wf])
  have "request_of i L = Some r" "rq_id r = i"
    using joined_request_Some [OF assms(2)] by auto
  then have "request_of i ?L2 = Some (r\<lparr>rq_open := False\<rparr>)"
    by (simp add: request_of_def set_closed_def select_update_rows)
  then have "request_of i L' = Some (r\<lparr>rq_open := False\<rparr>)"
    using fr by (simp add: request_of_def xfer_frame_def)
  with counts show ?thesis by blast
qed

theorem settle_releases_witness:
  "serves_of ''o'' ''f'' (projr (settle_body demo_sign ''t'' False '''' 1 demo_reserved)) 5 = 0"
proof -
  have j: "joined_request 1 demo_reserved = Some (\<lparr>rq_id = 1, rq_jti = ''j'', rq_start = 0, rq_end = 9,
      rq_written = -1, rq_open = True, rq_isolated = False\<rparr>, new_perm_row ''t'' demo_permission)" by code_simp
  have "\<not> isl (settle_body demo_sign ''t'' False '''' 1 demo_reserved)" by code_simp
  then have s: "settle_body demo_sign ''t'' False '''' 1 demo_reserved
      = Inr (projr (settle_body demo_sign ''t'' False '''' 1 demo_reserved))" by simp
  have one: "serves_of ''o'' ''f'' demo_reserved 5 = 1" by code_simp
  show ?thesis
    using settle_releases [OF xfer_reach_inv [OF demo_reserved_reach] j _ s]
    by (simp add: one settle_keep_def new_perm_row_def demo_permission_def)
qed

subsection \<open>The range arithmetic\<close>

text \<open>Transform adds its delta to the count of exactly the bytes of the range, floors at
  zero, and returns segments in order, disjoint, with positive counts and no two
  mergeable.\<close>

theorem transform_counts:
  assumes "seg_wf s" and "a \<le> b"
  shows "seg_wf (transform s a b delta) \<and> seg_maximal (transform s a b delta)
    \<and> (\<forall>x. seg_count (transform s a b delta) x = max 0 (seg_count s x + (if a \<le> x \<and> x \<le> b then delta else 0)))"
  using seg_count_transform_gen [OF assms(2), of s delta] seg_wf_nonempty [OF assms(1)]
    seg_wf_transform [OF assms(1)]
  by (auto simp: seg_count_transform [OF assms] bumped_def)

theorem transform_counts_witness:
  "seg_count (transform [\<lparr>seg_a = 0, seg_b = 9, seg_c = 1\<rparr>] 5 14 1) 7 = 2"
  using transform_counts [of "[\<lparr>seg_a = 0, seg_b = 9, seg_c = 1\<rparr>]" 5 14 1] by (simp add: seg_wf_def)

text \<open>Recording a run in the transmitted table marks exactly its bytes, keeps every row at
  count one and leaves no two rows touching, so a whole file is one row exactly when every
  byte was sent.\<close>

theorem mark_range_covers:
  assumes "seg_unit tr"
  shows "seg_unit (mark_range tr lo hi)
    \<and> (\<forall>x. seg_count (mark_range tr lo hi) x = (if lo \<le> x \<and> x \<le> hi then 1 else seg_count tr x))
    \<and> (\<forall>a b. a \<le> b \<longrightarrow> covered (mark_range tr lo hi) a b
        = (\<forall>x. a \<le> x \<and> x \<le> b \<longrightarrow> (lo \<le> x \<and> x \<le> hi) \<or> 0 < seg_count tr x))"
proof -
  have u: "seg_unit (mark_range tr lo hi)" using assms by (rule seg_unit_mark_range)
  show ?thesis using u seg_count_mark_range [OF assms] covered_iff_counts [OF u] by auto
qed

theorem mark_range_covers_witness:
  "covered (mark_range [\<lparr>seg_a = 0, seg_b = 4, seg_c = 1\<rparr>] 5 9) 0 9"
proof -
  have "seg_unit [\<lparr>seg_a = 0, seg_b = 4, seg_c = 1\<rparr>]" by code_simp
  from mark_range_covers [OF this, of 5 9] show ?thesis by auto
qed

text \<open>The resume offset given to a buyer is the first byte of the file never sent, and the
  size when there is none.\<close>

theorem first_untransmitted_first:
  assumes "seg_unit s" and "0 \<le> sz"
  shows "0 \<le> first_untransmitted s sz \<and> first_untransmitted s sz \<le> sz
    \<and> (\<forall>x. 0 \<le> x \<and> x < first_untransmitted s sz \<longrightarrow> 0 < seg_count s x)
    \<and> (first_untransmitted s sz < sz \<longrightarrow> seg_count s (first_untransmitted s sz) = 0)"
  using first_untransmitted_props [OF assms] by blast

theorem first_untransmitted_first_witness:
  "seg_count [\<lparr>seg_a = 0, seg_b = 4, seg_c = 1\<rparr>] (first_untransmitted [\<lparr>seg_a = 0, seg_b = 4, seg_c = 1\<rparr>] 10) = 0"
proof -
  have u: "seg_unit [\<lparr>seg_a = 0, seg_b = 4, seg_c = 1\<rparr>]" by code_simp
  have "first_untransmitted [\<lparr>seg_a = 0, seg_b = 4, seg_c = 1\<rparr>] 10 < 10" by code_simp
  then show ?thesis using first_untransmitted_first [OF u, of 10] by (simp del: seg_count.simps)
qed

subsection \<open>Receipts\<close>

lemma unwritten_bytes_card:
  assumes "seg_wf tr" and "seg_a x \<le> seg_b x"
  shows "unwritten_bytes x tr u = u - int (card ({seg_a x..seg_b x} \<inter> seg_set tr))"
  using assms(1)
proof (induction tr arbitrary: u)
  case Nil
  then show ?case by (simp add: seg_set_def)
next
  case (Cons y tr)
  have wf: "seg_wf tr" using Cons.prems by (simp add: seg_wf_Cons)
  let ?X = "{seg_a x..seg_b x}"
  let ?Y = "{seg_a y..seg_b y}"
  have split: "?X \<inter> seg_set (y # tr) = (?X \<inter> ?Y) \<union> (?X \<inter> seg_set tr)"
    using seg_set_Cons(1) [OF Cons.prems] by auto
  have disj: "(?X \<inter> ?Y) \<inter> (?X \<inter> seg_set tr) = {}" using seg_set_Cons(2) [OF Cons.prems] by auto
  have "card (?X \<inter> seg_set (y # tr)) = card (?X \<inter> ?Y) + card (?X \<inter> seg_set tr)"
    unfolding split using disj by (intro card_Un_disjoint) auto
  moreover have "int (card (?X \<inter> ?Y)) = max 0 (min (seg_b x) (seg_b y) - max (seg_a x) (seg_a y) + 1)"
    by (simp add: max_def min_def)
  ultimately show ?case using Cons.IH [OF wf] by simp
qed

lemma max_serves_bytes_card:
  assumes "seg_wf ss" and "seg_wf tr"
  shows "max_serves_bytes ss tr n = n + int (card {x. seg_count ss x = 2 \<and> x \<notin> seg_set tr})"
  using assms(1)
proof (induction ss arbitrary: n)
  case Nil
  then show ?case by simp
next
  case (Cons s ss)
  have wf: "seg_wf ss" and s: "seg_a s \<le> seg_b s" "\<forall>t \<in> set ss. seg_b s < seg_a t"
    using Cons.prems by (auto simp: seg_wf_Cons)
  let ?R = "{x. seg_count ss x = 2 \<and> x \<notin> seg_set tr}"
  let ?S = "{seg_a s..seg_b s} - seg_set tr"
  have "?R \<subseteq> seg_set ss" by (auto simp: seg_set_def)
  then have finR: "finite ?R" using seg_set_finite [OF wf] by (rule finite_subset)
  have zero: "seg_count ss x = 0" if "x \<le> seg_b s" for x
    using s that by (intro seg_count_outside) force
  have "{x. seg_count (s # ss) x = 2 \<and> x \<notin> seg_set tr} = (if seg_c s = 2 then ?S \<union> ?R else ?R)"
    using zero by (auto split: if_splits)
  moreover have "?S \<inter> ?R = {}" using zero by auto
  moreover have "int (card ?S) = (seg_b s - seg_a s + 1) - int (card ({seg_a s..seg_b s} \<inter> seg_set tr))"
  proof -
    have "card ({seg_a s..seg_b s} \<inter> seg_set tr) + card ?S = card {seg_a s..seg_b s}"
      using card_Un_disjoint [of "{seg_a s..seg_b s} \<inter> seg_set tr" ?S] by (simp add: Int_Diff_Un Int_Diff_disjoint)
    with s(1) show ?thesis by simp
  qed
  ultimately show ?case
    using Cons.IH [OF wf] finR unwritten_bytes_card [OF assms(2) s(1)]
    by (simp add: card_Un_disjoint)
qed

lemma rows_segments_wf: "xfer_inv L g \<Longrightarrow> seg_wf (segments Serves oid fid L) \<and> seg_unit (segments Transmitted oid fid L)"
  by (simp add: xfer_inv_def inv_cov_def)

text \<open>The bytes of an order's file the ledger has recorded as sent.\<close>

definition sent_bytes :: "string \<Rightarrow> string \<Rightarrow> ledger \<Rightarrow> int set" where
  "sent_bytes oid fid L = seg_set (segments Transmitted oid fid L)"

text \<open>A receipt counts what was sent: its byte total is the number of recorded bytes, and
  its exhausted total is the number of bytes reserved twice and never recorded.\<close>

theorem receipt_counts:
  assumes "xfer_reach L g" and "receipt_body at oid fid outcome seq L = Inr r"
  shows "rc_transmitted_bytes r = int (card (sent_bytes oid fid L))
    \<and> rc_max_serves_bytes r = int (card {x. serves_of oid fid L x = 2 \<and> x \<notin> sent_bytes oid fid L})
    \<and> rc_transmitted r = map (\<lambda>x. (seg_a x, seg_b x)) (segments Transmitted oid fid L)
    \<and> (rc_blocks_verified r \<longleftrightarrow> outcome \<noteq> ''aborted_block_mismatch'')"
proof -
  have w: "seg_wf (segments Serves oid fid L)" "seg_wf (segments Transmitted oid fid L)"
    using rows_segments_wf [OF xfer_reach_inv [OF assms(1)]] by (auto simp: seg_unit_def)
  show ?thesis using assms(2) max_serves_bytes_card [OF w, of 0]
    by (auto simp: receipt_body_def Let_def sent_bytes_def serves_of_def count_bytes_card [OF w(2)]
        split: option.splits)
qed

theorem receipt_counts_witness:
  "rc_transmitted_bytes (projr (receipt_body ''t'' ''o'' ''f'' ''in_progress'' 1 demo_reserved))
     = int (card (sent_bytes ''o'' ''f'' demo_reserved))"
proof -
  have "\<not> isl (receipt_body ''t'' ''o'' ''f'' ''in_progress'' 1 demo_reserved)" by code_simp
  then have "receipt_body ''t'' ''o'' ''f'' ''in_progress'' 1 demo_reserved
      = Inr (projr (receipt_body ''t'' ''o'' ''f'' ''in_progress'' 1 demo_reserved))" by simp
  from receipt_counts [OF demo_reserved_reach this] show ?thesis by blast
qed

text \<open>C11: A complete receipt is queued once per order and file, and only when as many bytes
  were recorded as the file has; if all of them lie within the file, all the file was sent.\<close>

theorem complete_receipt_accounts:
  assumes "xfer_reach L g" and "\<not> is_completed oid fid L" and "queue_tx sg at oid fid outcome True L = Inr L'"
  shows "\<exists>f r body. file_of fid L = Some f \<and> sg r = Inr body \<and> rc_outcome r = ''complete''
    \<and> lg_outbox L' = lg_outbox L @ [\<lparr>ob_seq = next_receipt_seq L, ob_body = body, ob_sent_at = None\<rparr>]
    \<and> is_completed oid fid L' \<and> int (card (sent_bytes oid fid L)) = fl_size f
    \<and> (sent_bytes oid fid L \<subseteq> {0..<fl_size f} \<longrightarrow> sent_bytes oid fid L = {0..<fl_size f})
    \<and> (\<forall>outcome'. queue_tx sg at oid fid outcome' True L' = Inr L')"
proof -
  obtain r body where r: "receipt_body at oid fid ''complete'' (next_receipt_seq L) L = Inr r"
    and full: "rc_transmitted_bytes r = rc_size r" and body: "sg r = Inr body"
    and L': "L' = L\<lparr>lg_outbox := lg_outbox L @ [\<lparr>ob_seq = next_receipt_seq L, ob_body = body, ob_sent_at = None\<rparr>],
       lg_completed := lg_completed L @ [(oid, fid)]\<rparr>"
    using assms(2,3) by (auto simp: queue_tx_def Let_def split: sum.splits if_splits)
  obtain f where f: "file_of fid L = Some f" "rc_size r = fl_size f" "rc_outcome r = ''complete''"
    using r by (auto simp: receipt_body_def Let_def split: option.splits)
  have n: "int (card (sent_bytes oid fid L)) = fl_size f"
    using receipt_counts [OF assms(1) r] full f(2) by simp
  have "sent_bytes oid fid L = {0..<fl_size f}" if "sent_bytes oid fid L \<subseteq> {0..<fl_size f}"
    using that n by (intro card_subset_eq) auto
  moreover have done': "is_completed oid fid L'" by (simp add: is_completed_def L' count_rows_def)
  moreover have "queue_tx sg at oid fid oc True L' = Inr L'" for oc
    using done' by (simp add: queue_tx_def)
  ultimately show ?thesis
    using f n body by (intro exI [of _ f] exI [of _ r] exI [of _ body]) (auto simp: L')
qed

text \<open>The concrete order with every byte written, before its settlement.\<close>

definition demo_written :: ledger where
  "demo_written = snd (progress None None demo_sign ''t'' 1 9 demo_reserved)"

lemma demo_written_reach: "xfer_reach demo_written ((\<lambda>_. -1)(1 := 9))"
proof -
  let ?g = "(\<lambda>_. -1 :: int)(1 := 9 :: int)"
  have r: "request_of 1 demo_reserved = Some \<lparr>rq_id = 1, rq_jti = ''j'', rq_start = 0, rq_end = 9,
      rq_written = -1, rq_open = True, rq_isolated = False\<rparr>" by code_simp
  have "xfer_step (demo_reserved, \<lambda>_. -1) (demo_reserved, ?g)"
    by (rule xs_send [OF r]) (simp_all add: window_def)
  then have "xfer_reach demo_reserved ?g" using demo_reserved_reach xr_step by blast
  moreover have "xfer_step (demo_reserved, ?g) (demo_written, ?g)"
    by (rule xs_progress [of None None demo_sign "''t''" 1 _ _ "fst (progress None None demo_sign ''t'' 1 9 demo_reserved)"])
      (simp add: demo_written_def)
  ultimately show ?thesis by (rule xr_step)
qed

theorem complete_receipt_accounts_witness:
  "int (card (sent_bytes ''o'' ''f'' demo_written)) = 10"
proof -
  have c: "\<not> is_completed ''o'' ''f'' demo_written" by code_simp
  have "\<not> isl (queue_tx demo_sign ''t'' ''o'' ''f'' '''' True demo_written)" by code_simp
  then have q: "queue_tx demo_sign ''t'' ''o'' ''f'' '''' True demo_written
      = Inr (projr (queue_tx demo_sign ''t'' ''o'' ''f'' '''' True demo_written))" by simp
  have f: "map_option fl_size (file_of ''f'' demo_written) = Some 10" by code_simp
  obtain f where "file_of ''f'' demo_written = Some f" "int (card (sent_bytes ''o'' ''f'' demo_written)) = fl_size f"
    using complete_receipt_accounts [OF demo_written_reach c q] by blast
  with f show ?thesis by simp
qed

subsection \<open>The receipt outbox\<close>

lemma filter_greater_sorted:
  "sorted_wrt (<) (map f (x # xs)) \<Longrightarrow> filter (\<lambda>r. f x < f r) (x # xs) = xs"
  for f :: "'a \<Rightarrow> 'b::linorder"
  by (simp add: filter_id_conv)

lemma max_nat_append [simp]: "max_nat (xs @ [n]) = max (max_nat xs) n"
  by (induction xs) (auto simp: max_nat_def)

lemma max_nat_Cons [simp]: "max_nat (n # xs) = max n (max_nat xs)"
  by (simp add: max_nat_def)



text \<open>Receipts get increasing numbers, so the outbox is in number order.\<close>

definition outbox_ordered :: "ledger \<Rightarrow> bool" where
  "outbox_ordered L \<longleftrightarrow> sorted_wrt (<) (map ob_seq (lg_outbox L))"

text \<open>The receipts waiting for the audit log are handed out in number order, and marking
  the first one audited leaves exactly the others waiting: none is skipped or repeated.\<close>

theorem pending_advances:
  assumes "outbox_ordered L" and "pending_receipts L = (s, body) # rest"
  shows "pending_receipts (mark_receipt_audited s a L) = rest"
proof -
  let ?m = "max_nat (map fst (lg_audited L))"
  let ?L' = "mark_receipt_audited s a L"
  let ?pend = "filter (\<lambda>r. ob_seq r > ?m) (lg_outbox L)"
  have ord: "sorted_wrt (<) (map ob_seq (lg_outbox L))" using assms(1) by (simp add: outbox_ordered_def)
  have srt: "sorted_wrt (<) (map ob_seq (filter P (lg_outbox L)))" for P
    using ord by (induction "lg_outbox L" arbitrary: L) (auto simp: sorted_wrt_map intro: sorted_wrt_filter)
  have pend: "map (\<lambda>r. (ob_seq r, ob_body r)) ?pend = (s, body) # rest"
    using assms(2) by (simp add: pending_receipts_def sort_key_strict [OF srt])
  then obtain r rs where rs: "?pend = r # rs" "ob_seq r = s" "map (\<lambda>r. (ob_seq r, ob_body r)) rs = rest"
    by (auto simp: Cons_eq_map_conv map_eq_Cons_conv)
  have gt: "?m < s" using rs(1,2) by (metis (mono_tags, lifting) filter_eq_ConsD)
  have audited: "max_nat (map fst (lg_audited ?L')) = s"
  proof (cases "s \<in> fst ` set (lg_audited L)")
    case True
    then have "s \<le> ?m" by (intro max_nat_ge) auto
    with gt show ?thesis by simp
  next
    case False
    with gt show ?thesis by (simp add: mark_receipt_audited_def max_def)
  qed
  have "filter (\<lambda>r. s < ob_seq r) (lg_outbox L) = filter (\<lambda>r. ob_seq (hd ?pend) < ob_seq r) ?pend"
    unfolding rs(1) list.sel rs(2) unfolding rs(1) [symmetric] filter_filter
    using gt by (intro filter_cong) auto
  also have "\<dots> = rs" using filter_greater_sorted [of ob_seq r rs] srt [of "\<lambda>r. ob_seq r > ?m"] rs(1) by simp
  finally have "filter (\<lambda>r. s < ob_seq r) (lg_outbox L) = rs" .
  moreover have "lg_outbox ?L' = lg_outbox L" by (simp add: mark_receipt_audited_def)
  ultimately show ?thesis
    using rs(3) sort_key_strict [OF srt [of "\<lambda>r. s < ob_seq r"]] by (simp add: pending_receipts_def audited)
qed

theorem pending_advances_witness:
  "pending_receipts (mark_receipt_audited 1 7 demo_written) = []"
proof -
  have o: "outbox_ordered demo_written" by code_simp
  have "pending_receipts demo_written = [(1, ''in_progress'')]" by code_simp
  from pending_advances [OF o this] show ?thesis .
qed

end
