(* ===== verification/LedgerHistory.thy ===== *)
theory LedgerHistory
  imports LedgerProps
begin

text \<open>
  Every mutating operation of the transfer ledger as one sum type, a run of them as a list,
  and the facts that no run undoes: a revoked token stays revoked, a completed transfer
  stays completed, answers once given are repeated, and queued receipts are only appended.
\<close>

subsection \<open>Operations and runs\<close>

datatype ledger_op =
    OpSeen string
  | OpPutFile file_row
  | OpMarkChanged string
  | OpMarkMissing string
  | OpPutOffer offer_row
  | OpApprove string string string string
  | OpCloseExpired string int
  | OpRevoke int string string
  | OpRevokeInstruction int string string string
  | OpReserve "nat \<Rightarrow> int" string permission int int
  | OpFinishEmpty "nat \<Rightarrow> int" string permission
  | OpProgress string int int
  | OpWrite string writer write_clock faults "gw_error option \<times> gw_error option" int bytes
  | OpSettle string int string
  | OpRecoverRequest string int
  | OpRecover string
  | OpAudited nat nat
  | OpReconcile string nat
  | OpReset
  | OpDelivered string nat

text \<open>One operation with its storage faults; a failing one leaves its rolled-back state.\<close>

fun run_op :: "signer \<Rightarrow> gw_error option \<times> gw_error option \<Rightarrow> ledger_op \<Rightarrow> ledger \<Rightarrow> ledger" where
  "run_op sg (be, ce) (OpSeen iid) L = snd (seen iid L)"
| "run_op sg (be, ce) (OpPutFile r) L = put_file r L"
| "run_op sg (be, ce) (OpMarkChanged fid) L = mark_changed fid L"
| "run_op sg (be, ce) (OpMarkMissing fid) L = mark_missing fid L"
| "run_op sg (be, ce) (OpPutOffer o') L = put_offer o' L"
| "run_op sg (be, ce) (OpApprove at fid sha lvid) L =
     (case approve at fid sha lvid L of Inl e \<Rightarrow> L | Inr L' \<Rightarrow> L')"
| "run_op sg (be, ce) (OpCloseExpired stamp at) L = close_expired stamp at L"
| "run_op sg (be, ce) (OpRevoke t at jti) L = snd (revoke be ce t at jti L)"
| "run_op sg (be, ce) (OpRevokeInstruction t at iid jti) L = snd (revoke_instruction be ce t at iid jti L)"
| "run_op sg (be, ce) (OpReserve clk at p s e) L = snd (reserve be ce clk at p s e L)"
| "run_op sg (be, ce) (OpFinishEmpty clk at p) L = snd (finish_empty be ce sg clk at p L)"
| "run_op sg (be, ce) (OpProgress at i w) L = snd (progress be ce sg at i w L)"
| "run_op sg (be, ce) (OpWrite at wr wc pf pe i data) L = snd (write_chunk sg at wr wc pf pe i data L)"
| "run_op sg (be, ce) (OpSettle at i oc) L = snd (settle_outcome be ce sg at i oc L)"
| "run_op sg (be, ce) (OpRecoverRequest at i) L = snd (recover_request be ce sg at i L)"
| "run_op sg (be, ce) (OpRecover at) L = snd (recover be ce sg at L)"
| "run_op sg (be, ce) (OpAudited s a) L = mark_receipt_audited s a L"
| "run_op sg (be, ce) (OpReconcile at s) L = reconcile_receipts at s L"
| "run_op sg (be, ce) OpReset L = reset_receipt_delivery L"
| "run_op sg (be, ce) (OpDelivered at s) L = mark_receipt_delivered at s L"

definition run_ops :: "signer \<Rightarrow> ((gw_error option \<times> gw_error option) \<times> ledger_op) list \<Rightarrow> ledger \<Rightarrow> ledger" where
  "run_ops sg ops L = fold (\<lambda>(f, oper). run_op sg f oper) ops L"

subsection \<open>What only grows\<close>

text \<open>The number and body of a queued receipt, without its delivery mark.\<close>

definition queued :: "ledger \<Rightarrow> (nat \<times> string) list" where
  "queued L = map (\<lambda>r. (ob_seq r, ob_body r)) (lg_outbox L)"

definition grows :: "ledger \<Rightarrow> ledger \<Rightarrow> bool" where
  "grows L L' \<longleftrightarrow> (\<forall>j. is_revoked j L \<longrightarrow> is_revoked j L')
     \<and> (\<forall>oid fid. is_completed oid fid L \<longrightarrow> is_completed oid fid L')
     \<and> (\<forall>i a. map_of (lg_answers L) i = Some a \<longrightarrow> map_of (lg_answers L') i = Some a)
     \<and> (\<forall>i. was_seen i L \<longrightarrow> was_seen i L')
     \<and> (\<exists>more. queued L' = queued L @ more) \<and> (outbox_ordered L \<longrightarrow> outbox_ordered L')"

named_theorems grows_intro \<open>operations that only add to the record\<close>

lemma grows_refl [grows_intro]: "grows L L"
  by (simp add: grows_def)

lemma grows_trans: "grows L L1 \<Longrightarrow> grows L1 L2 \<Longrightarrow> grows L L2"
  unfolding grows_def by (metis append_assoc)

text \<open>Same tables apart from the delivery marks.\<close>

lemma grows_same [grows_intro]:
  assumes "lg_revocations L' = lg_revocations L" "lg_completed L' = lg_completed L"
    "lg_answers L' = lg_answers L" "lg_seen L' = lg_seen L" "lg_outbox L' = lg_outbox L"
  shows "grows L L'"
  using assms by (simp add: grows_def is_revoked_def is_completed_def was_seen_def queued_def outbox_ordered_def)

lemma count_rows_pos: "count_rows P rows \<noteq> 0 \<longleftrightarrow> (\<exists>r \<in> set rows. P r)"
  by (auto simp: count_rows_zero)

lemma is_revoked_iff: "is_revoked j L \<longleftrightarrow> j \<in> fst ` set (lg_revocations L)"
  by (auto simp: is_revoked_def count_rows_zero image_iff)

lemma is_completed_iff: "is_completed oid fid L \<longleftrightarrow> (oid, fid) \<in> set (lg_completed L)"
  by (auto simp: is_completed_def count_rows_zero)

lemma outbox_next: "outbox_ordered L \<Longrightarrow> lg_outbox L' = lg_outbox L @ [r] \<Longrightarrow> ob_seq r = next_receipt_seq L
    \<Longrightarrow> outbox_ordered L'"
  using max_nat_ge [of _ "map ob_seq (lg_outbox L)"]
  by (auto simp: outbox_ordered_def sorted_wrt_append next_receipt_seq_def le_imp_less_Suc)

lemma queue_tx_grows: "queue_tx sg at oid fid oc c L = Inr L' \<Longrightarrow> grows L L'"
proof -
  assume q: "queue_tx sg at oid fid oc c L = Inr L'"
  have "L' = L \<or> (\<exists>b. lg_outbox L' = lg_outbox L @ [\<lparr>ob_seq = next_receipt_seq L, ob_body = b, ob_sent_at = None\<rparr>]
      \<and> lg_revocations L' = lg_revocations L \<and> lg_answers L' = lg_answers L \<and> lg_seen L' = lg_seen L
      \<and> set (lg_completed L) \<subseteq> set (lg_completed L'))"
    using q by (auto simp: queue_tx_def Let_def split: if_splits sum.splits)
  then show ?thesis
  proof (elim disjE exE)
    assume "L' = L"
    then show ?thesis by (simp add: grows_refl)
  next
    fix b assume b: "lg_outbox L' = lg_outbox L @ [\<lparr>ob_seq = next_receipt_seq L, ob_body = b, ob_sent_at = None\<rparr>]
      \<and> lg_revocations L' = lg_revocations L \<and> lg_answers L' = lg_answers L \<and> lg_seen L' = lg_seen L
      \<and> set (lg_completed L) \<subseteq> set (lg_completed L')"
    then have "outbox_ordered L \<longrightarrow> outbox_ordered L'" using outbox_next [of L L'] by simp
    with b show ?thesis
      unfolding grows_def by (auto simp: is_revoked_iff is_completed_iff was_seen_def queued_def)
  qed
qed

lemma outbox_marks_grow:
  assumes "queued L' = queued L" "lg_revocations L' = lg_revocations L" "lg_completed L' = lg_completed L"
    "lg_answers L' = lg_answers L" "lg_seen L' = lg_seen L"
  shows "grows L L'"
proof -
  have "map fst (queued L') = map fst (queued L)" using assms(1) by simp
  then have "map ob_seq (lg_outbox L') = map ob_seq (lg_outbox L)" by (simp add: queued_def comp_def)
  with assms show ?thesis
    by (simp add: grows_def is_revoked_def is_completed_def was_seen_def outbox_ordered_def)
qed

lemma tx_grows:
  assumes "tx be ce fn L = (r, L')" and "\<And>x L1. fn L = Inr (x, L1) \<Longrightarrow> grows L L1"
  shows "grows L L'"
  using assms by (elim tx_cases) (auto simp: grows_refl)

lemma rewrite_grows: "rewrite tab oid fid s L = Inr L' \<Longrightarrow> grows L L'"
  by (cases tab) (auto simp: rewrite_def split: sum.splits intro: grows_same)

lemma bind_permission_grows: "bind_permission at p L = Inr L' \<Longrightarrow> grows L L'"
  by (auto simp: bind_permission_def Let_def split: if_splits option.splits intro: grows_same)

lemma close_order_file_grows: "grows L (close_order_file at oid fid L)"
  by (rule grows_same) (simp_all add: close_order_file_def)

lemma close_expired_grows: "grows L (close_expired stamp at L)"
  by (rule grows_same) (simp_all add: close_expired_def)

lemma insert_request_grows: "grows L (insert_request jti s e isol L)"
  by (rule grows_same) (simp_all add: insert_request_def)

lemma set_written_grows: "grows L (set_written i w L)"
  by (rule grows_same) (simp_all add: set_written_def)

lemma set_closed_grows: "grows L (set_closed i L)"
  by (rule grows_same) (simp_all add: set_closed_def)

lemmas step_grows = rewrite_grows bind_permission_grows close_order_file_grows insert_request_grows
  set_written_grows set_closed_grows queue_tx_grows

lemma reserve_body_grows: "reserve_body clk at p s e L = Inr (x, L') \<Longrightarrow> grows L L'"
  by (auto simp: reserve_body_def Let_def split: option.splits if_splits sum.splits
      intro: grows_trans [OF grows_trans [OF bind_permission_grows rewrite_grows] insert_request_grows])

lemma progress_body_grows: "progress_body sg at i w L = Inr (x, L') \<Longrightarrow> grows L L'"
  by (auto simp: progress_body_def split: option.splits if_splits sum.splits
      intro: set_written_grows grows_trans [OF grows_trans [OF rewrite_grows set_written_grows] queue_tx_grows])

lemma settle_body_grows:
  assumes "settle_body sg at crash oc i L = Inr L'"
  shows "grows L L'"
proof (cases "\<exists>r p. joined_request i L = Some (r, p) \<and> rq_open r")
  case False
  with assms show ?thesis by (auto simp: settle_body_def grows_refl split: option.splits)
next
  case True
  then obtain r p where x: "joined_request i L = Some (r, p)" "rq_open r" by blast
  obtain L1 where L1: "rewrite Serves (pr_oid p) (pr_fid p)
      (transform (segments Serves (pr_oid p) (pr_fid p) L) (max (rq_start r) (settle_keep crash r + 1)) (rq_end r) (-1)) L = Inr L1"
    using assms x by (auto simp: settle_body_def Let_def split: sum.splits)
  have g1: "grows L (set_closed i L1)"
    by (rule grows_trans [OF rewrite_grows [OF L1] set_closed_grows])
  have g2: "grows L (close_order_file at (pr_oid p) (pr_fid p) (set_closed i L1))"
    by (rule grows_trans [OF g1 close_order_file_grows])
  show ?thesis
    using assms x L1 g1 g2
    by (auto simp: settle_body_def Let_def split: option.splits if_splits
        intro: grows_trans [OF g1 queue_tx_grows] grows_trans [OF g2 queue_tx_grows])
qed

lemma settle_all_grows: "settle_all sg at is L = Inr L' \<Longrightarrow> grows L L'"
proof (induction "is" arbitrary: L)
  case Nil
  then show ?case by (simp add: grows_refl)
next
  case (Cons i "is")
  then obtain L1 where "settle_body sg at True '''' i L = Inr L1" "settle_all sg at is L1 = Inr L'"
    by (auto split: sum.splits)
  with Cons.IH show ?case by (blast intro: grows_trans settle_body_grows)
qed

lemma finish_empty_body_grows:
  assumes "finish_empty_body sg clk at p L = Inr (x, L')"
  shows "grows L L'"
proof -
  let ?L1 = "if finish_empty_row p L = None then L\<lparr>lg_perms := lg_perms L @ [new_perm_row at p]\<rparr> else L"
  have "queue_tx sg at (p_oid p) (p_fid p) ''complete'' True (close_order_file at (p_oid p) (p_fid p) ?L1) = Inr L'"
    using assms by (auto simp: finish_empty_body_def Let_def split: option.splits if_splits sum.splits)
  from grows_trans [OF close_order_file_grows queue_tx_grows [OF this]]
  have "grows ?L1 L'" .
  moreover have "grows L ?L1" by (auto intro: grows_same)
  ultimately show ?thesis by (rule grows_trans [rotated])
qed

lemma revoke_body_grows: "revoke_body t at jti L = (a, L') \<Longrightarrow> grows L L' \<and> is_revoked jti L'"
  by (auto simp: revoke_body_def Let_def grows_def is_revoked_iff is_completed_def was_seen_def queued_def
      outbox_ordered_def split: option.splits if_splits prod.splits)

lemma map_of_append_new: "map_of xs i = None \<Longrightarrow> map_of (xs @ [(i, a)]) i = Some a"
  by (simp add: map_add_def)

lemma revoke_instruction_body_grows:
  assumes "revoke_instruction_body t at iid jti L = Inr (a, L')"
  shows "grows L L' \<and> map_of (lg_answers L') iid = Some a"
proof (cases "map_of (lg_answers L) iid")
  case (Some b)
  with assms show ?thesis by (simp add: revoke_instruction_body_def grows_refl)
next
  case None
  obtain b L1 where b: "revoke_body t at jti L = (b, L1)" by fastforce
  have g: "grows L L1" using revoke_body_grows [OF b] by simp
  have ans: "lg_answers L1 = lg_answers L"
    using b by (auto simp: revoke_body_def Let_def split: option.splits if_splits prod.splits)
  have L': "a = b" "L' = L1\<lparr>lg_answers := lg_answers L1 @ [(iid, b)]\<rparr>"
    using assms None b by (auto simp: revoke_instruction_body_def)
  have "grows L1 L'"
    by (auto simp: grows_def L' is_revoked_def is_completed_def was_seen_def queued_def outbox_ordered_def map_add_Some_iff)
  then have "grows L L'" by (rule grows_trans [OF g])
  then show ?thesis using L' None by (simp add: ans map_add_def)
qed

lemma progress_grows: "progress be ce sg at i w L = (r, L') \<Longrightarrow> grows L L'"
  unfolding progress_def by (erule tx_grows) (rule progress_body_grows)

lemma write_round_grows_ledger:
  "write_round sg at wr clk pf td i old data k w c L = Inl (e, w', c', L') \<Longrightarrow> grows L L'"
  "write_round sg at wr clk pf td i old data k w c L = Inr (w', c', L') \<Longrightarrow> grows L L'"
  by (auto simp: write_round_def Let_def split: if_splits prod.splits sum.splits intro: grows_refl progress_grows)

lemma write_loop_grows:
  "write_loop sg at wr clk pf td i old data k w c L = (e, w', c', L') \<Longrightarrow> grows L L'"
proof (induction sg at wr clk pf td i old data k w c L rule: write_loop.induct)
  case (1 sg at wr clk pf td i old data k w c L)
  note unfolded = "1.prems" [unfolded write_loop.simps [of sg at wr clk pf td i old data k w c L]]
  show ?case
  proof (cases "write_round sg at wr clk pf td i old data k w c L")
    case (Inl r)
    with unfolded show ?thesis by (auto split: if_splits intro: grows_refl write_round_grows_ledger(1))
  next
    case (Inr r)
    obtain w1 c1 L1 where r: "r = (w1, c1, L1)" by (metis prod_cases3)
    show ?thesis
    proof (cases "w \<ge> int (length data)")
      case True
      with unfolded show ?thesis by (simp add: grows_refl)
    next
      case False
      with unfolded Inr r have "write_loop sg at wr clk pf td i old data (k + 1) w1 c1 L1 = (e, w', c', L')" by simp
      from "1.IH" [OF False Inr r [symmetric] refl this]
      show ?thesis by (rule grows_trans [OF write_round_grows_ledger(2) [OF Inr [unfolded r]]])
    qed
  qed
qed

lemma write_chunk_grows: "write_chunk sg at wr wc pf pe i data L = (r, L') \<Longrightarrow> grows L L'"
proof -
  have fin: "grows L1 L2" if w: "write_finish sg at wc pf td i old we w c L1 = (x, L2)" for pf td old we w c L1 x L2
  proof -
    obtain res M where m: "(if w > c then progress (fst pf) (snd pf) sg at i (old + w) L1 else (Inr (), L1)) = (res, M)"
      by fastforce
    then have "grows L1 M" by (auto split: if_splits intro: grows_refl progress_grows)
    moreover have "L2 = M \<or> L2 = close_expired at (wc_exit_close wc) M"
      using w unfolding write_finish_def m by (auto split: sum.splits if_splits prod.splits dest: expire_cases)
    ultimately show ?thesis using grows_trans close_expired_grows by blast
  qed
  have ref: "write_refusal at wc a b f data L = Some (e, L2) \<Longrightarrow> grows L L2" for a b f e L2
    by (auto simp: write_refusal_def split: if_splits intro: grows_refl close_expired_grows dest!: expire_cases)
  assume w: "write_chunk sg at wr wc pf pe i data L = (r, L')"
  show "grows L L'"
  proof (cases "\<exists>a p f. joined_request i L = Some (a, p) \<and> file_of (pr_fid p) L = Some f
      \<and> write_refusal at wc a p f data L = None")
    case False
    with w show ?thesis
      by (auto simp: write_chunk_def split: option.splits prod.splits intro: grows_refl ref)
  next
    case True
    then obtain a p f where j: "joined_request i L = Some (a, p)" "file_of (pr_fid p) L = Some f"
      "write_refusal at wc a p f data L = None" by blast
    obtain we n c L1 where loop: "write_loop sg at wr (wc_loop wc) pf (pr_td p) i (rq_written a) data 0 0 0 L
      = (we, n, c, L1)" by (metis prod_cases4)
    have "L' = L1 \<or> (\<exists>pf td old we n c x. write_finish sg at wc pf td i old we n c L1 = (x, L'))"
    proof (cases we)
      case (WriteAbort x)
      with w j loop show ?thesis by (simp add: write_chunk_def)
    next
      case (WriteDone x)
      with w j loop have "write_finish sg at wc pe (pr_td p) i (rq_written a) x n c L1 = (r, L')"
        by (simp add: write_chunk_def)
      then show ?thesis by blast
    qed
    then show ?thesis using write_loop_grows [OF loop] fin grows_trans by blast
  qed
qed

lemma run_op_grows: "grows L (run_op sg f oper L)"
proof -
  obtain be ce where f: "f = (be, ce)" by fastforce
  have tx_snd: "(\<And>x L1. fn L = Inr (x, L1) \<Longrightarrow> grows L L1) \<Longrightarrow> grows L (snd (tx be ce fn L))"
    for fn :: "ledger \<Rightarrow> gw_error + ('a \<times> ledger)"
    by (rule tx_grows [of be ce fn L "fst (tx be ce fn L)"]) simp_all
  note bodies = reserve_body_grows progress_body_grows settle_body_grows finish_empty_body_grows settle_all_grows
  show ?thesis
  proof (cases oper)
    case (OpSeen iid)
    then show ?thesis
      by (auto simp: f grows_def seen_def is_revoked_def is_completed_def was_seen_iff queued_def outbox_ordered_def)
  next
    case (OpPutFile r)
    then show ?thesis by (auto simp: f put_file_def Let_def intro: grows_same)
  next
    case (OpMarkChanged fid)
    then show ?thesis by (auto simp: f mark_changed_def intro: grows_same)
  next
    case (OpMarkMissing fid)
    then show ?thesis by (auto simp: f mark_missing_def intro: grows_same)
  next
    case (OpPutOffer x)
    then show ?thesis by (auto simp: f put_offer_def Let_def intro: grows_same)
  next
    case (OpApprove at fid sha lvid)
    then show ?thesis by (auto simp: f approve_def Let_def split: sum.splits if_splits intro: grows_same grows_refl)
  next
    case (OpCloseExpired stamp at)
    then show ?thesis by (simp add: f close_expired_grows)
  next
    case (OpRevoke t at jti)
    then show ?thesis by (auto simp: f revoke_def intro!: tx_snd dest: revoke_body_grows)
  next
    case (OpRevokeInstruction t at iid jti)
    then show ?thesis by (auto simp: f revoke_instruction_def intro!: tx_snd dest: revoke_instruction_body_grows)
  next
    case (OpReserve clk at p s e)
    then show ?thesis by (auto simp: f reserve_def intro!: tx_snd dest: bodies)
  next
    case (OpFinishEmpty clk at p)
    then show ?thesis by (auto simp: f finish_empty_def intro!: tx_snd dest: bodies)
  next
    case (OpProgress at i w)
    then show ?thesis by (auto simp: f progress_def intro!: tx_snd dest: bodies)
  next
    case (OpWrite at wr wc pf pe i data)
    then show ?thesis using write_chunk_grows by (simp add: f) (metis prod.collapse)
  next
    case (OpSettle at i oc)
    then show ?thesis by (auto simp: f settle_outcome_def with_unit_Inr split: option.splits intro!: tx_snd intro: grows_refl dest: bodies)
  next
    case (OpRecoverRequest at i)
    then show ?thesis by (auto simp: f recover_request_def with_unit_Inr split: option.splits intro!: tx_snd intro: grows_refl dest: bodies)
  next
    case (OpRecover at)
    then show ?thesis by (auto simp: f recover_def with_unit_Inr intro!: tx_snd dest: bodies)
  next
    case (OpAudited s a)
    then show ?thesis by (auto simp: f mark_receipt_audited_def intro: grows_same)
  next
    case (OpReconcile at s)
    then show ?thesis
      by (intro outbox_marks_grow) (simp_all add: f reconcile_receipts_def queued_def update_rows_def)
  next
    case OpReset
    then show ?thesis
      by (intro outbox_marks_grow) (simp_all add: f reset_receipt_delivery_def queued_def update_rows_def)
  next
    case (OpDelivered at s)
    then show ?thesis
      by (intro outbox_marks_grow) (simp_all add: f mark_receipt_delivered_def queued_def update_rows_def)
  qed
qed

lemma run_ops_grows: "grows L (run_ops sg ops L)"
  unfolding run_ops_def
  by (induction ops arbitrary: L) (auto intro: grows_refl grows_trans run_op_grows)

subsection \<open>What no later operation undoes\<close>

lemma reserve_revoked: "is_revoked (p_jti p) L \<Longrightarrow> \<exists>e. fst (reserve be ce clk at p s e0 L) = Inl e"
proof -
  assume r: "is_revoked (p_jti p) L"
  then have "reserve_refusal clk p L \<noteq> None"
    unfolding reserve_refusal_def Let_def by (simp split: option.splits)
  then show ?thesis by (auto simp: reserve_def tx_def reserve_body_def split: option.splits)
qed

lemma finish_empty_revoked: "is_revoked (p_jti p) L \<Longrightarrow> \<exists>e. fst (finish_empty be ce sg clk at p L) = Inl e"
proof -
  assume r: "is_revoked (p_jti p) L"
  then have "finish_empty_refusal clk p L \<noteq> None"
    by (simp add: finish_empty_refusal_def split: option.splits)
  then show ?thesis by (auto simp: finish_empty_def tx_def finish_empty_body_def split: option.splits)
qed

text \<open>Once a token is revoked, whether or not the gateway knew it, no run of operations,
  crashes and storage faults included, lets it reserve a byte or close an empty file.\<close>

theorem revoked_for_good:
  assumes "fst (revoke None None t at jti L) = Inr a" and "p_jti p = jti"
    and "L' = run_ops sg ops (snd (revoke None None t at jti L))"
  shows "is_revoked jti L' \<and> (\<exists>e. fst (reserve be ce clk at' p s e0 L') = Inl e)
    \<and> (\<exists>e. fst (finish_empty be ce sg clk at' p L') = Inl e)"
proof -
  obtain b L1 where b: "revoke_body t at jti L = (b, L1)" by fastforce
  then have "snd (revoke None None t at jti L) = L1" by (simp add: revoke_def tx_def)
  moreover have "is_revoked jti L1" using revoke_body_grows [OF b] by simp
  ultimately have "is_revoked jti L'"
    using run_ops_grows [of L1 sg ops] assms(3) by (simp add: grows_def)
  with assms(2) show ?thesis using reserve_revoked finish_empty_revoked by blast
qed

theorem revoked_for_good_witness:
  "\<exists>e. fst (reserve None None (\<lambda>_. 0) ''t'' demo_permission 0 9
     (run_ops demo_sign [((None, None), OpMarkChanged ''f''), ((None, None), OpRecover ''t'')]
       (snd (revoke None None 0 ''t'' ''j'' demo_ledger)))) = Inl e"
proof -
  have a: "fst (revoke None None 0 ''t'' ''j'' demo_ledger)
      = Inr \<lparr>ra_op = ''revoke_ack'', ra_jti = ''j'', ra_state_before = ''unknown''\<rparr>" by code_simp
  have j: "p_jti demo_permission = ''j''" by (simp add: demo_permission_def)
  show ?thesis using revoked_for_good [OF a j refl] by blast
qed

text \<open>A revocation instruction is answered once: whatever happens in between, a replay of it
  repeats the first answer and changes nothing.\<close>

theorem revoke_answer_repeated:
  assumes "revoke_instruction be ce t at iid jti L = (Inr a, L1)" and "L2 = run_ops sg ops L1"
  shows "revoke_instruction None None t' at' iid jti' L2 = (Inr a, L2)"
proof -
  have "revoke_instruction_body t at iid jti L = Inr (a, L1)"
    using assms(1) unfolding revoke_instruction_def by (rule tx_ok)
  then have "map_of (lg_answers L1) iid = Some a" using revoke_instruction_body_grows by blast
  then have "map_of (lg_answers L2) iid = Some a"
    using run_ops_grows [of L1 sg ops] assms(2) by (simp add: grows_def)
  then show ?thesis by (simp add: revoke_instruction_def tx_def revoke_instruction_body_def)
qed

theorem revoke_answer_repeated_witness:
  "\<exists>a L2. revoke_instruction None None 500 ''u'' ''i1'' ''j'' L2 = (Inr a, L2) \<and> ra_state_before a = ''active''"
proof -
  let ?o = "revoke_instruction None None 0 ''t'' ''i1'' ''j'' demo_reserved"
  have f: "fst ?o = Inr \<lparr>ra_op = ''revoke_ack'', ra_jti = ''j'', ra_state_before = ''active''\<rparr>" by code_simp
  then have "?o = (Inr \<lparr>ra_op = ''revoke_ack'', ra_jti = ''j'', ra_state_before = ''active''\<rparr>, snd ?o)"
    by (metis prod.collapse)
  from revoke_answer_repeated [OF this refl, of 500 "''u''" "''j''" demo_sign "[]"] show ?thesis by force
qed

text \<open>A transfer that was completed stays completed, receipts already queued keep their
  number, body and place, numbers stay increasing, and a completed order and file can never
  be reserved or finished again.\<close>

theorem completed_for_good:
  assumes "is_completed oid fid L" and "outbox_ordered L" and "p_oid p = oid" and "p_fid p = fid"
    and "L' = run_ops sg ops L"
  shows "is_completed oid fid L' \<and> outbox_ordered L' \<and> (\<exists>more. queued L' = queued L @ more)
    \<and> (\<exists>e. fst (reserve be ce clk at p s e0 L') = Inl e)
    \<and> (\<exists>e. fst (finish_empty be ce sg clk at p L') = Inl e)"
proof -
  have c: "is_completed oid fid L'" and rest: "outbox_ordered L'" "\<exists>more. queued L' = queued L @ more"
    using run_ops_grows [of L sg ops] assms(1,2,5) by (auto simp: grows_def)
  have "reserve_refusal clk p L' \<noteq> None"
    using c assms(3,4) unfolding reserve_refusal_def Let_def by (simp split: option.splits)
  moreover have "finish_empty_refusal clk p L' \<noteq> None"
    using c assms(3,4) by (simp add: finish_empty_refusal_def split: option.splits)
  ultimately show ?thesis using c rest
    by (auto simp: reserve_def finish_empty_def tx_def reserve_body_def finish_empty_body_def split: option.splits)
qed

definition demo_complete :: ledger where
  "demo_complete = run_ops demo_sign [((None, None), OpSettle ''t'' 1 '''')] demo_written"

theorem completed_for_good_witness:
  "\<exists>e. fst (reserve None None (\<lambda>_. 0) ''t'' demo_permission 0 9
     (run_ops demo_sign [((None, None), OpPutFile (demo_file\<lparr>fl_size := 20\<rparr>))] demo_complete)) = Inl e"
proof -
  have c: "is_completed ''o'' ''f'' demo_complete" by code_simp
  have o: "outbox_ordered demo_complete" by code_simp
  have p: "p_oid demo_permission = ''o''" "p_fid demo_permission = ''f''" by (simp_all add: demo_permission_def)
  show ?thesis using completed_for_good [OF c o p refl] by blast
qed

subsection \<open>Delivery marks and local approval\<close>

text \<open>Reconciling the outbox against an audit position marks as delivered exactly the
  receipts audited at or before it, whatever was marked before, and touches no body.\<close>

theorem reconcile_marks:
  "queued (reconcile_receipts at seq L) = queued L
    \<and> (\<forall>r \<in> set (lg_outbox (reconcile_receipts at seq L)).
        (ob_sent_at r \<noteq> None) = (\<exists>a. (ob_seq r, a) \<in> set (lg_audited L) \<and> a \<le> seq))"
  by (force simp: reconcile_receipts_def queued_def update_rows_def)

theorem reconcile_marks_witness:
  "list_all (\<lambda>r. ob_sent_at r = None) (lg_outbox (reconcile_receipts ''u'' 6 (mark_receipt_audited 1 7 demo_written)))"
proof -
  have "lg_audited (mark_receipt_audited 1 7 demo_written) = [(1, 7)]" by code_simp
  with reconcile_marks [of "''u''" 6 "mark_receipt_audited 1 7 demo_written"] show ?thesis
    unfolding list_all_iff by auto
qed

text \<open>The offers table has one row per file, digest and listing version.\<close>

lemma offer_of_put_offer:
  "offer_of f h v (put_offer x L) =
     (if f = of_fid x \<and> h = of_sha x \<and> v = of_lvid x
      then Some (case offer_of f h v L of None \<Rightarrow> x
        | Some y \<Rightarrow> y\<lparr>of_iid := of_iid x, of_state := of_state x,
            of_approved_at := (if of_state x = ''withdrawn''
                \<or> (of_state y = ''offered'' \<and> of_state x = ''offered'' \<and> of_iid y = of_iid x)
              then of_approved_at y else of_approved_at x),
            of_key_class := of_key_class x\<rparr>)
      else offer_of f h v L)"
proof (cases "\<exists>y \<in> set (lg_offers L). of_fid y = of_fid x \<and> of_sha y = of_sha x \<and> of_lvid y = of_lvid x")
  case False
  then have "select_row (\<lambda>y. of_fid y = of_fid x \<and> of_sha y = of_sha x \<and> of_lvid y = of_lvid x) (lg_offers L) = None"
    by (simp add: select_row_None)
  with False show ?thesis
    by (auto simp: offer_of_def put_offer_def Let_def select_row_append split: option.splits)
next
  case True
  show ?thesis
  proof (cases "f = of_fid x \<and> h = of_sha x \<and> v = of_lvid x")
    case same: True
    with True have "select_row (\<lambda>y. of_fid y = f \<and> of_sha y = h \<and> of_lvid y = v) (lg_offers L) \<noteq> None"
      by (auto simp: select_row_None)
    then obtain y where y: "select_row (\<lambda>y. of_fid y = f \<and> of_sha y = h \<and> of_lvid y = v) (lg_offers L) = Some y" by auto
    then have "of_fid y = f \<and> of_sha y = h \<and> of_lvid y = v" using select_row_Some by fastforce
    with True same y show ?thesis by (simp add: offer_of_def put_offer_def Let_def select_update_rows)
  next
    case other: False
    have skip: "select_row Q (update_rows P g rows) = select_row Q rows"
      if "\<And>r. P r \<Longrightarrow> \<not> Q r" "\<And>r. P r \<Longrightarrow> \<not> Q (g r)" for P Q and g :: "offer_row \<Rightarrow> offer_row" and rows
      using that by (induction rows) (auto simp: update_rows_def)
    have "select_row (\<lambda>y. of_fid y = f \<and> of_sha y = h \<and> of_lvid y = v) (lg_offers (put_offer x L))
        = select_row (\<lambda>y. of_fid y = f \<and> of_sha y = h \<and> of_lvid y = v) (lg_offers L)"
      using True other unfolding put_offer_def Let_def by (simp, intro skip) auto
    then show ?thesis unfolding offer_of_def if_not_P [OF other] .
  qed
qed

text \<open>A repeated offer instruction keeps the operator's local approval, a new one for the
  same file, digest and version drops it, and a withdrawal leaves it for the record.\<close>

theorem offer_approval:
  assumes "offer_of f h v L = Some y" and "of_fid x = f" and "of_sha x = h" and "of_lvid x = v"
    and "of_approved_at x = None"
  shows "\<exists>z. offer_of f h v (put_offer x L) = Some z \<and> of_state z = of_state x \<and> of_iid z = of_iid x
    \<and> (of_approved_at z \<noteq> None \<longleftrightarrow> of_approved_at y \<noteq> None \<and> (of_state x = ''withdrawn''
         \<or> (of_state y = ''offered'' \<and> of_state x = ''offered'' \<and> of_iid y = of_iid x)))"
  using assms by (auto simp: offer_of_put_offer)

theorem offer_approval_witness:
  "\<exists>z. offer_of ''f'' ''h'' ''v'' (put_offer (demo_offer\<lparr>of_iid := ''i2''\<rparr>)
       (demo_ledger\<lparr>lg_offers := [demo_offer\<lparr>of_approved_at := Some ''t''\<rparr>]\<rparr>)) = Some z \<and> of_approved_at z = None"
proof -
  have o: "offer_of ''f'' ''h'' ''v'' (demo_ledger\<lparr>lg_offers := [demo_offer\<lparr>of_approved_at := Some ''t''\<rparr>]\<rparr>)
      = Some (demo_offer\<lparr>of_approved_at := Some ''t''\<rparr>)" by code_simp
  show ?thesis
    using offer_approval [OF o, of "demo_offer\<lparr>of_iid := ''i2''\<rparr>"] by (auto simp: demo_offer_def)
qed

end
