(* ===== verification/LedgerPrepare.thy ===== *)
theory LedgerPrepare
  imports LedgerProps
begin

text \<open>
  Prepare and WithinCeiling of internal/ledger/ledger.go: the readiness answer to a prepare
  instruction, with the refusal that applies first. \<open>filepath.Match\<close> is the argument \<open>glob\<close>
  (an error counts as no match, as in the code) and \<open>filepath.EvalSymlinks\<close> the argument
  \<open>real\<close> with None for an error.
\<close>

definition source_ok :: "(string \<Rightarrow> string option) \<Rightarrow> source_cfg list \<Rightarrow> file_row \<Rightarrow> bool" where
  "source_ok real sources f = (case List.find (\<lambda>s. src_name s = fl_source f) sources of
      None \<Rightarrow> False | Some s \<Rightarrow> real (src_path s) = Some (fl_root f))"

definition glob_allows :: "(string \<Rightarrow> string \<Rightarrow> bool) \<Rightarrow> string \<Rightarrow> string \<Rightarrow> bool" where
  "glob_allows glob path g \<longleftrightarrow>
     (has_suffix ''/**'' g \<and> has_prefix (trim_suffix ''/**'' g @ ''/'') path) \<or> glob g path"

definition within_ceiling :: "(string \<Rightarrow> string \<Rightarrow> bool) \<Rightarrow> (string \<Rightarrow> string option) \<Rightarrow> config
    \<Rightarrow> file_row \<Rightarrow> bool" where
  "within_ceiling glob real c f =
     (if cfg_sources c \<noteq> [] \<and> \<not> source_ok real (cfg_sources c) f then False
      else let path = fl_source f @ ''/'' @ fl_path f in
        if cfg_offer_ceiling c = [] then True
        else list_ex (glob_allows glob path) (cfg_offer_ceiling c))"

definition open_offers :: "string \<Rightarrow> string \<Rightarrow> ledger \<Rightarrow> offer_row list" where
  "open_offers fid sha L = filter (\<lambda>x. of_fid x = fid \<and> of_sha x = sha
     \<and> of_state x = ''offered'' \<and> of_key_class x = ''listing'') (lg_offers L)"

definition offer_refusal :: "(string \<Rightarrow> string \<Rightarrow> bool) \<Rightarrow> (string \<Rightarrow> string option) \<Rightarrow> instruction
    \<Rightarrow> config \<Rightarrow> ledger \<Rightarrow> string" where
  "offer_refusal glob real i c L =
     (case file_of (i_fid i) L of None \<Rightarrow> ''file_missing''
      | Some f \<Rightarrow>
        if \<not> file_present f then ''file_missing''
        else if file_changed f \<or> fl_sha f \<noteq> i_sha i \<or> \<not> valid_blocks f then ''file_changed''
        else if \<not> within_ceiling glob real c f then ''outside_ceiling''
        else let os = open_offers (i_fid i) (i_sha i) L in
          if os = [] then ''not_offered''
          else if cfg_requires_local_approval c \<and> \<not> list_ex (\<lambda>x. of_approved_at x \<noteq> None) os
            then ''awaiting_local_approval''
          else '''')"

text \<open>The serves loop: the largest count, and the refusal for a twice-served run not yet sent.\<close>

fun serves_scan :: "segment list \<Rightarrow> segment list \<Rightarrow> int \<Rightarrow> string \<Rightarrow> int \<times> string" where
  "serves_scan [] tr m refusal = (m, refusal)"
| "serves_scan (x # ss) tr m refusal =
     serves_scan ss tr (max m (seg_c x))
       (if seg_c x = 2 \<and> \<not> covered tr (seg_a x) (seg_b x) \<and> refusal = '''' then ''coverage_exhausted'' else refusal)"

definition prepare :: "(string \<Rightarrow> string \<Rightarrow> bool) \<Rightarrow> (string \<Rightarrow> string option) \<Rightarrow> instruction
    \<Rightarrow> config \<Rightarrow> ledger \<Rightarrow> prepare_ack" where
  "prepare glob real i c L =
     (let refusal0 = offer_refusal glob real i c L;
          fsize = (case file_of (i_fid i) L of None \<Rightarrow> 0 | Some f \<Rightarrow> fl_size f);
          tr = segments Transmitted (i_oid i) (i_fid i) L;
          sent = count_bytes tr;
          (m, refusal1) = serves_scan (segments Serves (i_oid i) (i_fid i) L) tr 0 refusal0;
          refusal = (if (is_completed (i_oid i) (i_fid i) L \<or> (fsize > 0 \<and> sent = fsize)) \<and> refusal1 = ''''
                     then ''complete'' else refusal1) in
      \<lparr>pa_op = ''prepare_ack'', pa_iid = i_iid i, pa_oid = i_oid i, pa_fid = i_fid i,
       pa_ready = (refusal = ''''), pa_refusal = (if refusal = '''' then None else Some refusal),
       pa_resume_offset = first_untransmitted tr fsize, pa_transmitted_bytes = sent,
       pa_interval_count = int (length tr), pa_max_serve_count = m\<rparr>)"

subsection \<open>Readiness\<close>

lemma serves_scan_refusal:
  "snd (serves_scan ss tr m refusal) =
     (if refusal = '''' \<and> (\<exists>x \<in> set ss. seg_c x = 2 \<and> \<not> covered tr (seg_a x) (seg_b x))
      then ''coverage_exhausted'' else refusal)"
proof (induction ss arbitrary: m refusal)
  case (Cons x ss)
  let ?P = "seg_c x = 2 \<and> \<not> covered tr (seg_a x) (seg_b x)"
  show ?case
  proof (cases "refusal = ''''")
    case True
    have step: "serves_scan (x # ss) tr m refusal = serves_scan ss tr (max m (seg_c x))
        (if ?P then ''coverage_exhausted'' else '''')" using True by simp
    show ?thesis
    proof (cases ?P)
      case p: True
      have "snd (serves_scan (x # ss) tr m refusal) = ''coverage_exhausted''"
        unfolding step if_P [OF p] Cons.IH by simp
      with True p show ?thesis by simp
    next
      case p: False
      then have "(\<exists>y \<in> set (x # ss). seg_c y = 2 \<and> \<not> covered tr (seg_a y) (seg_b y))
          = (\<exists>y \<in> set ss. seg_c y = 2 \<and> \<not> covered tr (seg_a y) (seg_b y))" by auto
      then show ?thesis unfolding step if_not_P [OF p] Cons.IH unfolding True by argo
    qed
  next
    case False
    then have "snd (serves_scan (x # ss) tr m refusal) = snd (serves_scan ss tr (max m (seg_c x)) refusal)" by simp
    also have "\<dots> = refusal" unfolding Cons.IH using False by argo
    finally show ?thesis using False by argo
  qed
qed simp

text \<open>The conditions under which a file can be served under an order.\<close>

definition servable :: "(string \<Rightarrow> string \<Rightarrow> bool) \<Rightarrow> (string \<Rightarrow> string option) \<Rightarrow> instruction
    \<Rightarrow> config \<Rightarrow> ledger \<Rightarrow> bool" where
  "servable glob real i c L \<longleftrightarrow> (\<exists>f. file_of (i_fid i) L = Some f \<and> file_present f \<and> \<not> file_changed f
     \<and> fl_sha f = i_sha i \<and> valid_blocks f \<and> within_ceiling glob real c f
     \<and> (\<exists>x \<in> set (lg_offers L). of_fid x = i_fid i \<and> of_sha x = i_sha i \<and> of_state x = ''offered''
          \<and> of_key_class x = ''listing'' \<and> (cfg_requires_local_approval c \<longrightarrow> of_approved_at x \<noteq> None)))"

lemma offer_refusal_empty: "offer_refusal glob real i c L = '''' \<longleftrightarrow> servable glob real i c L"
  by (auto simp: offer_refusal_def servable_def Let_def open_offers_def filter_empty_conv list_ex_iff
      split: option.splits)

text \<open>The gateway answers ready exactly when the file is known, present, unchanged and the one
  asked for, lies within the configured ceiling, is offered (and locally approved where that
  is required), no run of it is exhausted without having been sent, and it is not complete;
  a refusal is named exactly when it is not ready.\<close>

theorem prepare_ready_iff:
  "(pa_ready (prepare glob real i c L) \<longleftrightarrow> servable glob real i c L
     \<and> (\<forall>x \<in> set (segments Serves (i_oid i) (i_fid i) L). seg_c x = 2 \<longrightarrow>
          covered (segments Transmitted (i_oid i) (i_fid i) L) (seg_a x) (seg_b x))
     \<and> \<not> is_completed (i_oid i) (i_fid i) L
     \<and> (\<forall>f. file_of (i_fid i) L = Some f \<and> fl_size f > 0 \<longrightarrow>
          count_bytes (segments Transmitted (i_oid i) (i_fid i) L) \<noteq> fl_size f))
   \<and> (pa_ready (prepare glob real i c L) \<longleftrightarrow> pa_refusal (prepare glob real i c L) = None)"
proof -
  obtain m r where s: "serves_scan (segments Serves (i_oid i) (i_fid i) L)
      (segments Transmitted (i_oid i) (i_fid i) L) 0 (offer_refusal glob real i c L) = (m, r)" by fastforce
  have r: "r = '''' \<longleftrightarrow> servable glob real i c L
     \<and> (\<forall>x \<in> set (segments Serves (i_oid i) (i_fid i) L). seg_c x = 2 \<longrightarrow>
          covered (segments Transmitted (i_oid i) (i_fid i) L) (seg_a x) (seg_b x))"
    using serves_scan_refusal [of "segments Serves (i_oid i) (i_fid i) L"
        "segments Transmitted (i_oid i) (i_fid i) L" 0 "offer_refusal glob real i c L"]
      offer_refusal_empty [of glob real i c L]
    by (auto simp: s)
  have known: "servable glob real i c L \<Longrightarrow> file_of (i_fid i) L \<noteq> None" by (auto simp: servable_def)
  show ?thesis
    using r known by (auto simp: prepare_def Let_def s split: option.splits)
qed

definition demo_instruction :: instruction where
  "demo_instruction = \<lparr>i_op = ''prepare'', i_aud = ''adg-1'', i_iid = ''i'', i_iat = 0, i_fid = ''f'',
     i_sha = ''h'', i_lvid = ''v'', i_cid = '''', i_exp = 0, i_jti = '''', i_oid = ''o'', i_keys = [], i_version = ''''\<rparr>"

definition demo_config :: config where
  "demo_config = \<lparr>cfg_verification_enabled = False, cfg_sources = [\<lparr>src_name = ''s'', src_path = ''/s''\<rparr>],
     cfg_offer_ceiling = [''s/**''], cfg_aliases = [], cfg_columns = [], cfg_listen = '''',
     cfg_max_downloads = 4, cfg_connect_proxy = '''',
     cfg_requires_local_approval = False\<rparr>"

theorem prepare_ready_iff_witness:
  "pa_refusal (prepare (\<lambda>_ _. False) (\<lambda>_. Some ''r'') demo_instruction demo_config demo_ledger) = None"
proof -
  have "pa_ready (prepare (\<lambda>_ _. False) (\<lambda>_. Some ''r'') demo_instruction demo_config demo_ledger)" by code_simp
  then show ?thesis using prepare_ready_iff by blast
qed



end
