(* ===== verification/LedgerVerify.thy ===== *)
theory LedgerVerify
  imports WireTypes
begin

text \<open>
  The verification part of the ledger (internal/ledger/verification.go): admission of a
  signed job under a daily quota with single-use nonce and authorization, the life of an
  admission from accepted to a stored, audited and delivered result, local events, and
  pruning. Times are nanoseconds since the epoch where the code compares \<open>time.Time\<close>, and
  Unix seconds where it stores them; a UTC day is its number since the epoch, which the
  layout 2006-01-02 prints in the same order.
\<close>

subsection \<open>Tables\<close>

record admission =
  ad_spec_id :: string
  ad_runner :: string
  ad_listing :: string
  ad_version :: string
  ad_manifest :: string
  ad_spec_hash :: string
  ad_nonce :: string
  ad_authorization :: string
  ad_variant :: string
  ad_state :: string
  ad_iid :: string
  ad_accepted :: int
  ad_issued :: int
  ad_expires :: int
  ad_committed :: int
  ad_day :: int
  ad_spec :: bytes
  ad_snapshot :: bytes
  ad_result :: "bytes option"
  ad_audit_seq :: "nat option"
  ad_delivered :: bool
  ad_key_id :: string
  ad_scanner :: string

record local_event =
  ev_id :: nat
  ev_received :: int
  ev_spec_hash :: string
  ev_spec_id :: string
  ev_result :: string
  ev_code :: string
  ev_authorization :: string
  ev_nonce :: string

record vledger =
  vl_admissions :: "admission list"
  vl_daily :: "((string \<times> int) \<times> nat) list"
  vl_clock :: "int option"
  vl_events :: "local_event list"
  vl_last_event :: nat

definition empty_vledger :: vledger where
  "empty_vledger = \<lparr>vl_admissions = [], vl_daily = [], vl_clock = None, vl_events = [], vl_last_event = 0\<rparr>"

definition err_consent :: gw_error where
  "err_consent = ErrMsg ''consent_refused''"

definition nano :: int where "nano = 1000000000"

definition unix :: "int \<Rightarrow> int" where
  "unix at = at div nano"

definition utc_day :: "int \<Rightarrow> int" where
  "utc_day at = unix at div 86400"

subsection \<open>Admission\<close>

definition admission_of :: "string \<Rightarrow> vledger \<Rightarrow> admission option" where
  "admission_of i V = select_row (\<lambda>a. ad_spec_id a = i) (vl_admissions V)"

text \<open>The clock rules: order of the claimed times, a day's lifetime, the window around now,
  and no clock more than five minutes behind the last admission.\<close>

definition admit_window :: "admission \<Rightarrow> int \<Rightarrow> vledger \<Rightarrow> bool" where
  "admit_window a at V \<longleftrightarrow> \<not> (ad_accepted a > ad_issued a \<or> ad_issued a \<ge> ad_expires a
     \<or> ad_expires a - ad_issued a > 86400
     \<or> ad_issued a * nano > at + 300 * nano
     \<or> ad_issued a * nano < at - 86700 * nano
     \<or> ad_accepted a * nano < at - 86700 * nano
     \<or> ad_expires a * nano < at - 300 * nano
     \<or> unix at < (case vl_clock V of None \<Rightarrow> 0 | Some l \<Rightarrow> l) - 300)"

definition daily_count :: "string \<Rightarrow> int \<Rightarrow> vledger \<Rightarrow> nat" where
  "daily_count l d V = (case map_of (vl_daily V) (l, d) of None \<Rightarrow> 0 | Some n \<Rightarrow> n)"

text \<open>INSERT OR IGNORE of a zero row, then the guarded increment; no row changed is a refusal.\<close>

definition bump_daily :: "string \<Rightarrow> int \<Rightarrow> vledger \<Rightarrow> vledger option" where
  "bump_daily l d V =
     (let rows = (if (l, d) \<in> fst ` set (vl_daily V) then vl_daily V else vl_daily V @ [((l, d), 0)]);
          hit = (\<lambda>r. fst r = (l, d) \<and> snd r < 10) in
      if count_rows hit rows \<noteq> 1 then None
      else Some (V\<lparr>vl_daily := update_rows hit (\<lambda>r. (fst r, snd r + 1)) rows\<rparr>))"

text \<open>The constraints of the admissions table.\<close>

definition admission_allowed :: "admission \<Rightarrow> vledger \<Rightarrow> bool" where
  "admission_allowed a V \<longleftrightarrow> (\<forall>b \<in> set (vl_admissions V). ad_spec_id b \<noteq> ad_spec_id a
       \<and> ad_nonce b \<noteq> ad_nonce a \<and> ad_authorization b \<noteq> ad_authorization a)
     \<and> ad_variant a \<in> {''probe'', ''scan''}"

definition insert_admission :: "int \<Rightarrow> admission \<Rightarrow> vledger \<Rightarrow> vledger" where
  "insert_admission at a V = V\<lparr>vl_admissions := vl_admissions V @
     [a\<lparr>ad_state := ''accepted'', ad_committed := unix at, ad_day := utc_day at, ad_result := None,
        ad_audit_seq := None, ad_delivered := False\<rparr>]\<rparr>"

definition raise_clock :: "int \<Rightarrow> vledger \<Rightarrow> vledger" where
  "raise_clock at V = V\<lparr>vl_clock := Some (case vl_clock V of None \<Rightarrow> unix at | Some l \<Rightarrow> max l (unix at))\<rparr>"

definition add_event :: "int \<Rightarrow> admission \<Rightarrow> string \<Rightarrow> string \<Rightarrow> vledger \<Rightarrow> vledger" where
  "add_event at a res code V = V\<lparr>vl_last_event := vl_last_event V + 1, vl_events := vl_events V @
     [\<lparr>ev_id = vl_last_event V + 1, ev_received = unix at, ev_spec_hash = ad_spec_hash a,
       ev_spec_id = ad_spec_id a, ev_result = res, ev_code = code,
       ev_authorization = ad_authorization a, ev_nonce = ad_nonce a\<rparr>]\<rparr>"

text \<open>
  Admit: a known spec is a duplicate when its hash is the same and a refusal otherwise; a
  new one passes the clock rules, the quota and the uniqueness constraints, and everything
  is one commit. \<open>be\<close> and \<open>ce\<close> are faults of BEGIN and COMMIT.
\<close>

definition admit_body :: "admission \<Rightarrow> int \<Rightarrow> vledger \<Rightarrow> gw_error + (bool \<times> vledger)" where
  "admit_body a at V =
     (case admission_of (ad_spec_id a) V of
        Some b \<Rightarrow> if ad_spec_hash b \<noteq> ad_spec_hash a then Inl err_consent else Inr (False, V)
      | None \<Rightarrow>
          if \<not> admit_window a at V then Inl err_consent
          else case bump_daily (ad_listing a) (utc_day at) V of None \<Rightarrow> Inl err_consent
            | Some V1 \<Rightarrow>
                if \<not> admission_allowed a V1 then Inl err_consent
                else Inr (True, add_event at a ''accepted'' '''' (raise_clock at (insert_admission at a V1))))"

definition admit :: "gw_error option \<Rightarrow> gw_error option \<Rightarrow> admission \<Rightarrow> int \<Rightarrow> vledger
    \<Rightarrow> (gw_error + bool) \<times> vledger" where
  "admit be ce a at V = (case be of Some e \<Rightarrow> (Inl e, V)
     | None \<Rightarrow> (case admit_body a at V of Inl e \<Rightarrow> (Inl e, V)
         | Inr (False, V') \<Rightarrow> (Inr False, V)
         | Inr (True, V') \<Rightarrow> (case ce of Some e \<Rightarrow> (Inl e, V) | None \<Rightarrow> (Inr True, V'))))"

definition verification_event :: "admission \<Rightarrow> string \<Rightarrow> string \<Rightarrow> int \<Rightarrow> vledger \<Rightarrow> vledger" where
  "verification_event a res code at V = add_event at a res code V"

definition verification_events :: "nat \<Rightarrow> vledger \<Rightarrow> local_event list" where
  "verification_events after V = sort_key ev_id (filter (\<lambda>v. ev_id v > after) (vl_events V))"

subsection \<open>The life of an admission\<close>

definition on_admission :: "(admission \<Rightarrow> bool) \<Rightarrow> (admission \<Rightarrow> admission) \<Rightarrow> vledger \<Rightarrow> vledger" where
  "on_admission P f V = V\<lparr>vl_admissions := update_rows P f (vl_admissions V)\<rparr>"

definition verification_token :: "string \<Rightarrow> vledger \<Rightarrow> admission option" where
  "verification_token token V = select_row (\<lambda>a. ad_spec a = token) (vl_admissions V)"

definition admission_before :: "admission \<Rightarrow> admission \<Rightarrow> bool" where
  "admission_before a b \<longleftrightarrow> ad_committed a < ad_committed b
     \<or> (ad_committed a = ad_committed b \<and> ord_class.lexordp (ad_spec_id a) (ad_spec_id b))"

fun insert_by :: "('a \<Rightarrow> 'a \<Rightarrow> bool) \<Rightarrow> 'a \<Rightarrow> 'a list \<Rightarrow> 'a list" where
  "insert_by lt x [] = [x]"
| "insert_by lt x (y # ys) = (if lt y x then y # insert_by lt x ys else x # y # ys)"

definition verifications :: "(admission \<Rightarrow> bool) \<Rightarrow> vledger \<Rightarrow> admission list" where
  "verifications P V = foldr (insert_by admission_before) (filter P (vl_admissions V)) []"

definition unlinked_verifications :: "vledger \<Rightarrow> admission list" where
  "unlinked_verifications = verifications (\<lambda>a. ad_result a \<noteq> None \<and> ad_audit_seq a = None)"

definition claim_verification :: "string \<Rightarrow> vledger \<Rightarrow> bool \<times> vledger" where
  "claim_verification i V =
     (let hit = (\<lambda>a. ad_spec_id a = i \<and> ad_state a = ''accepted'') in
      (count_rows hit (vl_admissions V) = 1, on_admission hit (\<lambda>a. a\<lparr>ad_state := ''running''\<rparr>) V))"

definition save_verification :: "string \<Rightarrow> string \<Rightarrow> bytes \<Rightarrow> vledger \<Rightarrow> vledger" where
  "save_verification i st res V =
     on_admission (\<lambda>a. ad_spec_id a = i \<and> ad_result a = None) (\<lambda>a. a\<lparr>ad_state := st, ad_result := Some res\<rparr>) V"

definition audit_verification :: "string \<Rightarrow> nat \<Rightarrow> vledger \<Rightarrow> vledger" where
  "audit_verification i seq V =
     on_admission (\<lambda>a. ad_spec_id a = i \<and> (ad_audit_seq a = None \<or> ad_audit_seq a = Some seq))
       (\<lambda>a. a\<lparr>ad_audit_seq := Some seq\<rparr>) V"

definition reconcile_verification :: "nat \<Rightarrow> vledger \<Rightarrow> vledger" where
  "reconcile_verification seq V =
     on_admission (\<lambda>a. ad_audit_seq a \<noteq> None)
       (\<lambda>a. a\<lparr>ad_delivered := (case ad_audit_seq a of None \<Rightarrow> False | Some s \<Rightarrow> s \<le> seq)\<rparr>) V"

definition interrupt_verifications :: "vledger \<Rightarrow> vledger" where
  "interrupt_verifications V =
     on_admission (\<lambda>a. ad_state a \<in> {''accepted'', ''running''}) (\<lambda>a. a\<lparr>ad_state := ''interrupted''\<rparr>) V"

text \<open>Pruning: events of nothing live, delivered final probes, and quota rows of past days, all
  older than thirty days; paid scans stay.\<close>

definition event_kept :: "int \<Rightarrow> admission list \<Rightarrow> local_event \<Rightarrow> bool" where
  "event_kept cutoff as v \<longleftrightarrow> \<not> (ev_received v < cutoff
     \<and> \<not> (\<exists>a \<in> set as. ad_spec_id a = ev_spec_id v
          \<and> (ad_variant a = ''scan'' \<or> \<not> ad_delivered a \<or> ad_state a \<in> {''accepted'', ''running''})))"

definition admission_kept :: "int \<Rightarrow> admission \<Rightarrow> bool" where
  "admission_kept cutoff a \<longleftrightarrow> \<not> (ad_committed a < cutoff \<and> ad_variant a = ''probe''
     \<and> ad_state a \<in> {''reported'', ''refused'', ''interrupted''} \<and> ad_delivered a)"

definition daily_kept :: "int \<Rightarrow> admission list \<Rightarrow> (string \<times> int) \<times> nat \<Rightarrow> bool" where
  "daily_kept cutoff as r \<longleftrightarrow> \<not> (snd (fst r) < cutoff div 86400
     \<and> \<not> (\<exists>a \<in> set as. (ad_listing a, ad_day a) = fst r))"

definition prune_verification :: "int \<Rightarrow> vledger \<Rightarrow> vledger" where
  "prune_verification at V =
     (let cutoff = unix (at - 30 * 24 * 3600 * nano);
          events = filter (event_kept cutoff (vl_admissions V)) (vl_events V);
          as = filter (admission_kept cutoff) (vl_admissions V);
          daily = filter (daily_kept cutoff as) (vl_daily V) in
      V\<lparr>vl_events := events, vl_admissions := as, vl_daily := daily\<rparr>)"

subsection \<open>Runs of operations\<close>

datatype vop =
    VAdmit "gw_error option" "gw_error option" admission int
  | VEvent admission string string int
  | VClaim string
  | VSave string string bytes
  | VAudit string nat
  | VReconcile nat
  | VInterrupt
  | VPrune int

text \<open>A result is saved with a final state, as the runner does.\<close>

definition final_state :: "string \<Rightarrow> bool" where
  "final_state st \<longleftrightarrow> st \<in> {''reported'', ''refused'', ''interrupted''}"

fun vop_ok :: "vop \<Rightarrow> bool" where
  "vop_ok (VSave i st res) = final_state st"
| "vop_ok _ = True"

fun run_vop :: "vop \<Rightarrow> vledger \<Rightarrow> vledger" where
  "run_vop (VAdmit be ce a at) V = snd (admit be ce a at V)"
| "run_vop (VEvent a res code at) V = verification_event a res code at V"
| "run_vop (VClaim i) V = snd (claim_verification i V)"
| "run_vop (VSave i st res) V = save_verification i st res V"
| "run_vop (VAudit i seq) V = audit_verification i seq V"
| "run_vop (VReconcile seq) V = reconcile_verification seq V"
| "run_vop VInterrupt V = interrupt_verifications V"
| "run_vop (VPrune at) V = prune_verification at V"

definition run_vops :: "vop list \<Rightarrow> vledger \<Rightarrow> vledger" where
  "run_vops ops V = fold run_vop ops V"

lemma run_vops_invariant:
  assumes "I V" and "\<And>V x. x \<in> set ops \<Longrightarrow> I V \<Longrightarrow> I (run_vop x V)"
  shows "I (run_vops ops V)"
  using assms unfolding run_vops_def by (induction ops arbitrary: V) auto

lemma admit_True:
  assumes "admit be ce a at V = (Inr True, V')"
  obtains V1 where "admission_of (ad_spec_id a) V = None" "admit_window a at V"
    "bump_daily (ad_listing a) (utc_day at) V = Some V1" "admission_allowed a V1"
    "V' = add_event at a ''accepted'' '''' (raise_clock at (insert_admission at a V1))"
  using assms by (auto simp: admit_def admit_body_def split: option.splits sum.splits if_splits prod.splits bool.splits)

lemma admit_cases:
  obtains "snd (admit be ce a at V) = V" | V' where "admit be ce a at V = (Inr True, V')"
proof -
  have "snd (admit be ce a at V) = V \<or> (\<exists>V'. admit be ce a at V = (Inr True, V'))"
    by (auto simp: admit_def split: option.splits sum.splits prod.splits bool.splits)
  then show thesis using that by blast
qed

subsection \<open>Quota and single use\<close>

definition v_unique :: "vledger \<Rightarrow> bool" where
  "v_unique V \<longleftrightarrow> distinct (map ad_spec_id (vl_admissions V)) \<and> distinct (map ad_nonce (vl_admissions V))
     \<and> distinct (map ad_authorization (vl_admissions V)) \<and> distinct (map fst (vl_daily V))"

definition admitted_on :: "string \<Rightarrow> int \<Rightarrow> vledger \<Rightarrow> nat" where
  "admitted_on l d V = count_rows (\<lambda>a. (ad_listing a, ad_day a) = (l, d)) (vl_admissions V)"

definition v_quota :: "vledger \<Rightarrow> bool" where
  "v_quota V \<longleftrightarrow> (\<forall>l d. admitted_on l d V \<le> daily_count l d V \<and> daily_count l d V \<le> 10)"

lemma daily_map_update:
  "map_of (update_rows (\<lambda>r. fst r = k \<and> snd r < n) (\<lambda>r. (fst r, snd r + 1)) rows) x =
     (case map_of rows x of None \<Rightarrow> None | Some v \<Rightarrow> Some (if x = k \<and> v < n then v + 1 else v))"
  for n :: nat
  by (induction rows) (auto simp: update_rows_def)

lemma count_distinct_key:
  assumes "distinct (map fst rows)"
  shows "count_rows (\<lambda>r. fst r = k \<and> P (snd r)) rows = (case map_of rows k of None \<Rightarrow> 0 | Some v \<Rightarrow> if P v then 1 else 0)"
  using assms
proof (induction rows)
  case Nil
  then show ?case by (simp add: count_rows_def)
next
  case (Cons r rows)
  show ?case
  proof (cases "fst r = k")
    case True
    with Cons.prems have "map_of rows k = None" by (auto simp: map_of_eq_None_iff image_iff)
    with True Cons show ?thesis by (auto simp: count_rows_def)
  next
    case False
    with Cons show ?thesis by (auto simp: count_rows_def)
  qed
qed

lemma bump_daily_Some:
  assumes "bump_daily l d V = Some V1" and "distinct (map fst (vl_daily V))"
  shows "daily_count l d V < 10" and "daily_count l' d' V1 = daily_count l' d' V + (if (l', d') = (l, d) then 1 else 0)"
    and "distinct (map fst (vl_daily V1))" and "vl_admissions V1 = vl_admissions V" and "vl_clock V1 = vl_clock V"
    and "vl_events V1 = vl_events V"
proof -
  define R where "R = (if (l, d) \<in> fst ` set (vl_daily V) then vl_daily V else vl_daily V @ [((l, d), 0)])"
  let ?hit = "\<lambda>r. fst r = (l, d) \<and> snd r < (10 :: nat)"
  have dist: "distinct (map fst R)" using assms(2) by (auto simp: R_def)
  have cnt: "count_rows ?hit R = 1" and V1: "V1 = V\<lparr>vl_daily := update_rows ?hit (\<lambda>r. (fst r, snd r + 1)) R\<rparr>"
    using assms(1) unfolding bump_daily_def Let_def R_def [symmetric] by (auto split: if_splits)
  have rows: "map_of R x = (case map_of (vl_daily V) x of None \<Rightarrow> if x = (l, d) then Some 0 else None | Some v \<Rightarrow> Some v)" for x
  proof (cases "(l, d) \<in> fst ` set (vl_daily V)")
    case True
    then have "map_of (vl_daily V) (l, d) \<noteq> None" by (simp add: map_of_eq_None_iff)
    with True show ?thesis by (auto simp: R_def split: option.splits)
  next
    case False
    then have "map_of (vl_daily V) (l, d) = None" by (simp add: map_of_eq_None_iff)
    with False show ?thesis by (auto simp: R_def map_add_def split: option.splits)
  qed
  have "count_rows ?hit R = (case map_of R (l, d) of None \<Rightarrow> 0 | Some v \<Rightarrow> if v < 10 then 1 else 0)"
    using count_distinct_key [OF dist, of "(l, d)" "\<lambda>v. v < 10"] .
  also have "\<dots> = (if daily_count l d V < 10 then 1 else 0)" if "map_of R (l, d) = Some (daily_count l d V)"
    using that by simp
  finally have "map_of R (l, d) = Some (daily_count l d V) \<Longrightarrow> 1 = (if daily_count l d V < 10 then 1 else (0::nat))"
    unfolding cnt .
  moreover have "map_of R (l, d) = Some (daily_count l d V)"
    using rows [of "(l, d)"] by (simp add: daily_count_def split: option.splits)
  ultimately show less: "daily_count l d V < 10" by (metis zero_neq_one)
  show "daily_count l' d' V1 = daily_count l' d' V + (if (l', d') = (l, d) then 1 else 0)"
    using less daily_map_update [of "(l, d)" 10 R "(l', d')"] rows [of "(l', d')"]
    by (cases "map_of (vl_daily V) (l', d')") (auto simp: daily_count_def V1)
  have "map fst (update_rows ?hit (\<lambda>r. (fst r, snd r + 1)) R) = map fst R"
    by (rule map_update_rows) simp
  with dist show "distinct (map fst (vl_daily V1))" by (simp add: V1)
  show "vl_admissions V1 = vl_admissions V" "vl_clock V1 = vl_clock V" "vl_events V1 = vl_events V" by (simp_all add: V1)
qed

definition v_inv :: "vledger \<Rightarrow> bool" where
  "v_inv V \<longleftrightarrow> v_unique V \<and> v_quota V"

lemma add_raise_insert:
  "vl_admissions (add_event at a res code (raise_clock at' W)) = vl_admissions W"
  "vl_daily (add_event at a res code (raise_clock at' W)) = vl_daily W"
  by (simp_all add: add_event_def raise_clock_def)

lemma admit_inv:
  assumes "v_inv V"
  shows "v_inv (snd (admit be ce a at V))"
proof (cases rule: admit_cases [of be ce a at V])
  case 1
  with assms show ?thesis by simp
next
  case (2 V')
  obtain V1 where new: "admission_of (ad_spec_id a) V = None"
    and bump: "bump_daily (ad_listing a) (utc_day at) V = Some V1" and ok: "admission_allowed a V1"
    and V': "V' = add_event at a ''accepted'' '''' (raise_clock at (insert_admission at a V1))"
    using 2 by (rule admit_True)
  have d: "distinct (map fst (vl_daily V))" using assms by (simp add: v_inv_def v_unique_def)
  note b = bump_daily_Some [OF bump d]
  have adm: "vl_admissions V' = vl_admissions V @ [a\<lparr>ad_state := ''accepted'', ad_committed := unix at,
      ad_day := utc_day at, ad_result := None, ad_audit_seq := None, ad_delivered := False\<rparr>]"
    and day: "vl_daily V' = vl_daily V1"
    by (simp_all add: V' add_raise_insert insert_admission_def b(4))
  have "v_unique V'"
    using assms ok b(3) by (auto simp: v_inv_def v_unique_def adm day admission_allowed_def b(4) image_iff)
  moreover have "v_quota V'"
    using assms b(1,2) by (auto simp: v_inv_def v_quota_def admitted_on_def adm count_rows_def daily_count_def day)
  ultimately show ?thesis using 2 by (simp add: v_inv_def)
qed

lemma on_admission_inv:
  assumes "v_inv V" and "\<And>a. (ad_spec_id (f a), ad_nonce (f a), ad_authorization (f a), ad_listing (f a), ad_day (f a))
      = (ad_spec_id a, ad_nonce a, ad_authorization a, ad_listing a, ad_day a)"
  shows "v_inv (on_admission P f V)"
proof -
  have "map ad_spec_id (update_rows P f (vl_admissions V)) = map ad_spec_id (vl_admissions V)"
    "map ad_nonce (update_rows P f (vl_admissions V)) = map ad_nonce (vl_admissions V)"
    "map ad_authorization (update_rows P f (vl_admissions V)) = map ad_authorization (vl_admissions V)"
    using assms(2) by (auto intro!: map_update_rows)
  moreover have "count_rows (\<lambda>a. (ad_listing a, ad_day a) = (l, d)) (update_rows P f rows)
      = count_rows (\<lambda>a. (ad_listing a, ad_day a) = (l, d)) rows" for l d rows
    using assms(2) by (induction rows) (auto simp: count_rows_def update_rows_def)
  ultimately show ?thesis
    using assms by (simp add: v_inv_def v_unique_def v_quota_def admitted_on_def on_admission_def daily_count_def)
qed

lemma distinct_map_filter_rows: "distinct (map k rows) \<Longrightarrow> distinct (map k (filter P rows))"
  by (induction rows) auto

lemma count_rows_filter_le: "count_rows P (filter Q rows) \<le> count_rows P rows"
  by (induction rows) (auto simp: count_rows_def)

lemma map_of_filter_keys:
  "(\<And>v. P (k, v)) \<Longrightarrow> map_of (filter P rows) k = map_of rows k"
  by (induction rows) auto

lemma prune_inv:
  assumes "v_inv V"
  shows "v_inv (prune_verification at V)"
proof -
  let ?W = "prune_verification at V"
  let ?cutoff = "unix (at - 30 * 24 * 3600 * nano)"
  let ?as = "filter (admission_kept ?cutoff) (vl_admissions V)"
  have W: "vl_admissions ?W = ?as" "vl_daily ?W = filter (daily_kept ?cutoff ?as) (vl_daily V)"
    by (simp_all add: prune_verification_def Let_def)
  have "v_unique ?W" using assms by (simp add: v_inv_def v_unique_def W distinct_map_filter_rows)
  moreover have "admitted_on l d ?W \<le> daily_count l d ?W \<and> daily_count l d ?W \<le> 10" for l d
  proof (cases "\<exists>a \<in> set ?as. (ad_listing a, ad_day a) = (l, d)")
    case True
    have "map_of (filter (daily_kept ?cutoff ?as) (vl_daily V)) (l, d) = map_of (vl_daily V) (l, d)"
      using True by (intro map_of_filter_keys) (auto simp: daily_kept_def)
    moreover have "admitted_on l d ?W \<le> admitted_on l d V"
      unfolding admitted_on_def W by (rule count_rows_filter_le)
    ultimately show ?thesis using assms unfolding v_inv_def v_quota_def daily_count_def W
      by (metis order_trans)
  next
    case False
    then have "admitted_on l d ?W = 0" unfolding admitted_on_def W by (subst count_rows_zero) blast
    moreover have "daily_count l d ?W \<le> 10"
    proof -
      have "\<forall>v. (k, v) \<in> set (vl_daily V) \<longrightarrow> v \<le> 10" for k
        using assms unfolding v_inv_def v_unique_def v_quota_def daily_count_def
        by (metis (mono_tags, lifting) map_of_is_SomeI option.simps(5) prod.collapse)
      then show ?thesis unfolding daily_count_def W by (auto split: option.splits dest!: map_of_SomeD)
    qed
    ultimately show ?thesis by simp
  qed
  ultimately show ?thesis by (simp add: v_inv_def v_quota_def)
qed

lemma run_vop_inv: "v_inv V \<Longrightarrow> v_inv (run_vop x V)"
proof (cases x)
  case (VEvent a res code at)
  assume "v_inv V"
  with VEvent show ?thesis
    by (simp add: verification_event_def add_event_def v_inv_def v_unique_def v_quota_def admitted_on_def daily_count_def)
qed (auto simp: admit_inv prune_inv claim_verification_def Let_def save_verification_def audit_verification_def
    reconcile_verification_def interrupt_verifications_def intro!: on_admission_inv)

lemma v_inv_empty: "v_inv empty_vledger"
  by (simp add: v_inv_def v_unique_def v_quota_def empty_vledger_def admitted_on_def daily_count_def count_rows_def)

text \<open>C16: In every state reached from an empty ledger no listing holds more than ten admissions of
  one UTC day, and no two admissions share a spec, a nonce or an owner authorization.\<close>

theorem admissions_bounded:
  "admitted_on l d (run_vops ops empty_vledger) \<le> 10 \<and> v_unique (run_vops ops empty_vledger)"
proof -
  have "v_inv (run_vops ops empty_vledger)"
    by (rule run_vops_invariant [of v_inv]) (simp_all add: v_inv_empty run_vop_inv)
  then show ?thesis unfolding v_inv_def v_quota_def by (blast intro: order_trans)
qed

definition demo_admission :: admission where
  "demo_admission = \<lparr>ad_spec_id = ''s'', ad_runner = ''r'', ad_listing = ''l'', ad_version = ''v'',
     ad_manifest = ''m'', ad_spec_hash = ''h'', ad_nonce = ''n'', ad_authorization = ''a'',
     ad_variant = ''probe'', ad_state = '''', ad_iid = ''i'', ad_accepted = 1000, ad_issued = 1000,
     ad_expires = 2000, ad_committed = 0, ad_day = 0, ad_spec = ''t'', ad_snapshot = ''{}'',
     ad_result = None, ad_audit_seq = None, ad_delivered = False, ad_key_id = ''k'', ad_scanner = ''1''\<rparr>"

definition demo_admitted :: vledger where
  "demo_admitted = run_vops [VAdmit None None demo_admission (1100 * nano)] empty_vledger"

lemma admission_of_unique:
  "v_unique V \<Longrightarrow> a \<in> set (vl_admissions V) \<Longrightarrow> admission_of (ad_spec_id a) V = Some a"
  unfolding admission_of_def v_unique_def by (intro select_row_distinct) auto

text \<open>An admission is granted only to a job whose times are in order, which lives at most a
  day, is not from the future, stale or expired beyond the skew, on a clock not set back by
  more than five minutes, and for a spec, nonce and authorization never seen among the kept
  admissions; it is stored as accepted and counted against its listing's day.\<close>

theorem admit_grants:
  assumes "v_inv V" and "admit be ce a at V = (Inr True, V')"
  shows "ad_accepted a \<le> ad_issued a \<and> ad_issued a < ad_expires a \<and> ad_expires a \<le> ad_issued a + 86400
    \<and> ad_issued a * nano \<le> at + 300 * nano \<and> at \<le> (ad_accepted a + 86700) * nano
    \<and> at \<le> (ad_expires a + 300) * nano
    \<and> (\<forall>t. vl_clock V = Some t \<longrightarrow> t - 300 \<le> unix at)
    \<and> (\<forall>b \<in> set (vl_admissions V). ad_spec_id b \<noteq> ad_spec_id a \<and> ad_nonce b \<noteq> ad_nonce a
         \<and> ad_authorization b \<noteq> ad_authorization a)
    \<and> admitted_on (ad_listing a) (utc_day at) V < 10
    \<and> (\<exists>b. admission_of (ad_spec_id a) V' = Some b \<and> ad_state b = ''accepted'' \<and> ad_result b = None
         \<and> ad_day b = utc_day at \<and> ad_spec_hash b = ad_spec_hash a)"
proof -
  obtain V1 where w: "admit_window a at V"
    and bump: "bump_daily (ad_listing a) (utc_day at) V = Some V1" and ok: "admission_allowed a V1"
    and V': "V' = add_event at a ''accepted'' '''' (raise_clock at (insert_admission at a V1))"
    using assms(2) by (rule admit_True)
  have d: "distinct (map fst (vl_daily V))" using assms(1) by (simp add: v_inv_def v_unique_def)
  note b = bump_daily_Some [OF bump d]
  have less: "admitted_on (ad_listing a) (utc_day at) V < 10"
    using assms(1) b(1) unfolding v_inv_def v_quota_def by (blast intro: le_less_trans)
  have fresh: "\<forall>b \<in> set (vl_admissions V). ad_spec_id b \<noteq> ad_spec_id a \<and> ad_nonce b \<noteq> ad_nonce a
      \<and> ad_authorization b \<noteq> ad_authorization a"
    using ok b(4) by (simp add: admission_allowed_def)
  then have "select_row (\<lambda>b. ad_spec_id b = ad_spec_id a) (vl_admissions V) = None" by (simp add: select_row_None)
  then have "\<exists>b. admission_of (ad_spec_id a) V' = Some b \<and> ad_state b = ''accepted'' \<and> ad_result b = None
         \<and> ad_day b = utc_day at \<and> ad_spec_hash b = ad_spec_hash a"
    by (simp add: admission_of_def V' add_raise_insert insert_admission_def b(4) select_row_append)
  moreover have "ad_accepted a * nano \<ge> at - 86700 * nano" "ad_expires a * nano \<ge> at - 300 * nano"
    using w by (auto simp: admit_window_def)
  then have "at \<le> (ad_accepted a + 86700) * nano" "at \<le> (ad_expires a + 300) * nano"
    by (simp_all add: distrib_right)
  ultimately show ?thesis using w less fresh by (auto simp: admit_window_def)
qed

theorem admit_grants_witness:
  "admitted_on ''l'' 0 empty_vledger < 10 \<and> (\<exists>b. admission_of ''s'' demo_admitted = Some b \<and> ad_state b = ''accepted'')"
proof -
  have "fst (admit None None demo_admission (1100 * nano) empty_vledger) = Inr True" by code_simp
  then have a: "admit None None demo_admission (1100 * nano) empty_vledger = (Inr True, demo_admitted)"
    by (simp add: demo_admitted_def run_vops_def prod_eq_iff)
  have d: "utc_day (1100 * nano) = 0" by code_simp
  have f: "ad_listing demo_admission = ''l''" "ad_spec_id demo_admission = ''s''" by (simp_all add: demo_admission_def)
  show ?thesis using admit_grants [OF v_inv_empty a] unfolding d f by blast
qed

text \<open>What the operations may do to an admission that is still stored.\<close>

definition advances :: "admission \<Rightarrow> admission \<Rightarrow> bool" where
  "advances a b \<longleftrightarrow> ad_spec_id b = ad_spec_id a \<and> ad_spec_hash b = ad_spec_hash a \<and> ad_spec b = ad_spec a
     \<and> ad_variant b = ad_variant a \<and> ad_nonce b = ad_nonce a \<and> ad_authorization b = ad_authorization a
     \<and> (ad_state a \<noteq> ''accepted'' \<longrightarrow> ad_state b \<noteq> ''accepted'')
     \<and> (\<forall>x. ad_result a = Some x \<longrightarrow> ad_result b = Some x)
     \<and> (\<forall>s. ad_audit_seq a = Some s \<longrightarrow> ad_audit_seq b = Some s)"

lemma advances_refl: "advances a a"
  by (simp add: advances_def)

lemma advances_trans: "advances a b \<Longrightarrow> advances b c \<Longrightarrow> advances a c"
  by (auto simp: advances_def)

lemma on_admission_advances:
  assumes "a \<in> set (vl_admissions V)" and "P a \<Longrightarrow> advances a (f a)"
  shows "\<exists>b \<in> set (vl_admissions (on_admission P f V)). advances a b"
proof (intro bexI)
  show "advances a (if P a then f a else a)" using assms(2) by (simp add: advances_refl)
  show "(if P a then f a else a) \<in> set (vl_admissions (on_admission P f V))"
    unfolding on_admission_def using assms(1) by (simp add: set_update_rows)
qed

lemma run_vop_advances:
  assumes "a \<in> set (vl_admissions V)" and "vop_ok x" and "\<And>at. x = VPrune at \<Longrightarrow> ad_variant a = ''scan''"
  shows "\<exists>b \<in> set (vl_admissions (run_vop x V)). advances a b"
proof (cases x)
  case (VAdmit be ce c at)
  show ?thesis
  proof (cases rule: admit_cases [of be ce c at V])
    case 1
    with VAdmit assms(1) show ?thesis by (auto intro: advances_refl)
  next
    case (2 V')
    obtain V1 where "bump_daily (ad_listing c) (utc_day at) V = Some V1"
      and V': "V' = add_event at c ''accepted'' '''' (raise_clock at (insert_admission at c V1))"
      using 2 by (rule admit_True)
    then have "vl_admissions V1 = vl_admissions V" by (auto simp: bump_daily_def Let_def split: if_splits)
    with 2 VAdmit assms(1) have "a \<in> set (vl_admissions (run_vop x V))"
      by (simp add: V' add_raise_insert insert_admission_def)
    then show ?thesis by (auto intro: advances_refl)
  qed
next
  case (VEvent c res code at)
  with assms(1) show ?thesis by (auto simp: verification_event_def add_event_def intro: advances_refl)
next
  case (VPrune at)
  with assms(1,3) have "a \<in> set (vl_admissions (run_vop x V))"
    by (simp add: prune_verification_def Let_def admission_kept_def)
  then show ?thesis by (auto intro: advances_refl)
next
  case (VSave i st res)
  with assms(2) have "ad_result a = None \<Longrightarrow> advances a (a\<lparr>ad_state := st, ad_result := Some res\<rparr>)"
    by (auto simp: advances_def final_state_def)
  then show ?thesis unfolding VSave run_vop.simps save_verification_def
    using assms(1) by (intro on_admission_advances) auto
next
  case (VClaim i)
  show ?thesis unfolding VClaim run_vop.simps claim_verification_def Let_def snd_conv
    by (rule on_admission_advances [OF assms(1)]) (simp add: advances_def)
next
  case (VAudit i seq)
  show ?thesis unfolding VAudit run_vop.simps audit_verification_def
    by (rule on_admission_advances [OF assms(1)]) (auto simp: advances_def)
next
  case (VReconcile seq)
  show ?thesis unfolding VReconcile run_vop.simps reconcile_verification_def
    by (rule on_admission_advances [OF assms(1)]) (simp add: advances_def)
next
  case VInterrupt
  show ?thesis unfolding VInterrupt run_vop.simps interrupt_verifications_def
    by (rule on_admission_advances [OF assms(1)]) (simp add: advances_def)
qed

lemma run_vops_advances:
  assumes "a \<in> set (vl_admissions V)" and "list_all vop_ok ops"
    and "ad_variant a = ''scan'' \<or> (\<forall>at. VPrune at \<notin> set ops)"
  shows "\<exists>b \<in> set (vl_admissions (run_vops ops V)). advances a b"
  using assms
proof (induction ops arbitrary: a V)
  case Nil
  then show ?case by (auto simp: run_vops_def intro: advances_refl)
next
  case (Cons x ops)
  then obtain b where b: "b \<in> set (vl_admissions (run_vop x V))" "advances a b"
    using run_vop_advances [of a V x] by auto
  have "ad_variant b = ''scan'' \<or> (\<forall>at. VPrune at \<notin> set ops)"
    using Cons.prems(3) b(2) by (auto simp: advances_def)
  with Cons.IH [OF b(1)] Cons.prems(2) obtain c where
    "c \<in> set (vl_admissions (run_vops ops (run_vop x V)))" "advances b c" by auto
  with b(2) show ?case by (auto simp: run_vops_def intro: advances_trans)
qed

text \<open>A stored result and its audit position are never replaced, a claimed or finished
  admission is never claimed again, and the admission of a paid scan is never pruned,
  whatever operations follow.\<close>

theorem admission_advances:
  assumes "v_inv V" and "admission_of i V = Some a" and "list_all vop_ok ops"
    and "ad_variant a = ''scan'' \<or> (\<forall>at. VPrune at \<notin> set ops)" and "V' = run_vops ops V"
  shows "\<exists>b. admission_of i V' = Some b \<and> ad_spec_hash b = ad_spec_hash a \<and> ad_spec b = ad_spec a
    \<and> (ad_state a \<noteq> ''accepted'' \<longrightarrow> \<not> fst (claim_verification i V'))
    \<and> (ad_result a \<noteq> None \<longrightarrow> ad_result b = ad_result a)
    \<and> (ad_audit_seq a \<noteq> None \<longrightarrow> ad_audit_seq b = ad_audit_seq a)"
proof -
  have inv: "v_inv V'" unfolding assms(5) using assms(1) by (rule run_vops_invariant) (rule run_vop_inv)
  have a: "a \<in> set (vl_admissions V)" "ad_spec_id a = i"
    using select_row_Some [OF assms(2) [unfolded admission_of_def]] by auto
  obtain b where b: "b \<in> set (vl_admissions V')" "advances a b"
    using run_vops_advances [OF a(1) assms(3,4)] assms(5) by blast
  have bi: "admission_of i V' = Some b"
    using admission_of_unique [OF _ b(1)] inv b(2) a(2) by (simp add: v_inv_def advances_def)
  have "\<not> fst (claim_verification i V')" if "ad_state a \<noteq> ''accepted''"
  proof -
    have "ad_state c \<noteq> ''accepted''" if "c \<in> set (vl_admissions V')" "ad_spec_id c = i" for c
      using admission_of_unique [OF _ that(1)] inv that(2) bi b(2) \<open>ad_state a \<noteq> ''accepted''\<close>
      by (auto simp: v_inv_def advances_def)
    then have "count_rows (\<lambda>a. ad_spec_id a = i \<and> ad_state a = ''accepted'') (vl_admissions V') = 0"
      by (auto simp: count_rows_zero)
    then show ?thesis by (simp add: claim_verification_def Let_def)
  qed
  with bi b(2) show ?thesis by (auto simp: advances_def)
qed

theorem admission_advances_witness:
  "\<not> fst (claim_verification ''s'' (run_vops [VAudit ''s'' 4, VInterrupt] (run_vops [VClaim ''s''] demo_admitted)))"
proof -
  have inv: "v_inv (run_vops [VClaim ''s''] demo_admitted)"
    unfolding demo_admitted_def
    by (intro run_vops_invariant [of v_inv] v_inv_empty run_vop_inv)
  let ?a = "the (admission_of ''s'' (run_vops [VClaim ''s''] demo_admitted))"
  have s: "admission_of ''s'' (run_vops [VClaim ''s''] demo_admitted) \<noteq> None" by code_simp
  then have a: "admission_of ''s'' (run_vops [VClaim ''s''] demo_admitted) = Some ?a" by simp
  have r: "ad_state ?a \<noteq> ''accepted''" by code_simp
  have ok: "list_all vop_ok [VAudit ''s'' 4, VInterrupt]" "\<forall>at. VPrune at \<notin> set [VAudit ''s'' 4, VInterrupt]"
    by simp_all
  show ?thesis
    using admission_advances [OF inv a ok(1) _ refl] ok(2) r by blast
qed

text \<open>Submitting a known spec again changes nothing: the same bytes are reported as a
  duplicate, and other bytes under the same id are refused.\<close>

theorem admit_replayed:
  assumes "admission_of (ad_spec_id a) V = Some b"
  shows "admit None ce a at V =
    (if ad_spec_hash a = ad_spec_hash b then (Inr False, V) else (Inl err_consent, V))"
  using assms by (simp add: admit_def admit_body_def)

theorem admit_replayed_witness:
  "admit None None demo_admission (99999999 * nano) demo_admitted = (Inr False, demo_admitted)"
proof -
  let ?b = "the (admission_of ''s'' demo_admitted)"
  have "admission_of ''s'' demo_admitted \<noteq> None" by code_simp
  then have s: "admission_of (ad_spec_id demo_admission) demo_admitted = Some ?b"
    by (simp add: demo_admission_def)
  have "ad_spec_hash ?b = ''h''" by code_simp
  with admit_replayed [OF s] show ?thesis by (simp add: demo_admission_def)
qed

end
