(* ===== verification/Config.thy ===== *)
theory Config
  imports WireTypes
begin

text \<open>
  internal/config/config.go: validation of the operator's configuration and the lookups of
  aliases and column rules, over \<open>filepath.Clean\<close> and \<open>filepath.IsAbs\<close> for Unix paths. The
  file system, \<open>net.SplitHostPort\<close>, the syntax check of \<open>filepath.Match\<close> and the white-space
  test of \<open>strings.TrimSpace\<close> are arguments. A Go map is an association list in the order
  the loop happens to visit.
\<close>

subsection \<open>Paths\<close>

fun join_with :: "char \<Rightarrow> string list \<Rightarrow> string" where
  "join_with c [] = []"
| "join_with c [x] = x"
| "join_with c (x # y # ys) = x @ c # join_with c (y # ys)"

definition is_abs :: "string \<Rightarrow> bool" where
  "is_abs p = has_prefix ''/'' p"

text \<open>One element of \<open>filepath.Clean\<close>; the stack is in reverse.\<close>

definition clean_step :: "bool \<Rightarrow> string \<Rightarrow> string list \<Rightarrow> string list" where
  "clean_step rooted seg stack =
     (if seg = '''' \<or> seg = ''.'' then stack
      else if seg = ''..'' then
        (case stack of [] \<Rightarrow> if rooted then [] else [''..'']
         | t # ts \<Rightarrow> if t = ''..'' then ''..'' # stack else ts)
      else seg # stack)"

definition clean_segments :: "bool \<Rightarrow> string list \<Rightarrow> string list" where
  "clean_segments rooted segs = rev (fold (clean_step rooted) segs [])"

definition clean :: "string \<Rightarrow> string" where
  "clean p = (let out = join_with CHR ''/'' (clean_segments (is_abs p) (split_on CHR ''/'' p)) in
     if is_abs p then ''/'' @ out else if out = '''' then ''.'' else out)"

definition valid_relative :: "string \<Rightarrow> bool" where
  "valid_relative p \<longleftrightarrow> p \<noteq> '''' \<and> \<not> is_abs p \<and> clean p = p \<and> p \<noteq> ''..''
     \<and> \<not> has_prefix ''../'' p \<and> CHR 0x00 \<notin> set p"

subsection \<open>Validation\<close>

record config_env =
  env_is_dir :: "string \<Rightarrow> gw_error + bool"
  env_host_port :: "string \<Rightarrow> bool"
  env_bad_glob :: "string \<Rightarrow> bool"
  env_blank :: "string \<Rightarrow> bool"

definition bad_source_name :: "string \<Rightarrow> bool" where
  "bad_source_name n \<longleftrightarrow> n = '''' \<or> (\<exists>c \<in> set n. c \<in> {CHR ''/'', CHR 0x5C, CHR 0x00}) \<or> n = ''.'' \<or> n = ''..''"

fun validate_sources :: "config_env \<Rightarrow> source_cfg list \<Rightarrow> string list \<Rightarrow> gw_error option" where
  "validate_sources env [] names = None"
| "validate_sources env (s # ss) names =
     (if bad_source_name (src_name s) then Some (ErrMsg ''invalid source name'')
      else if src_name s \<in> set names then Some (ErrMsg ''duplicate source'')
      else if \<not> is_abs (src_path s) \<or> clean (src_path s) \<noteq> src_path s then Some (ErrMsg ''invalid source path'')
      else case env_is_dir env (src_path s) of Inl e \<Rightarrow> Some e
        | Inr d \<Rightarrow> if \<not> d then Some (ErrMsg ''source is not a directory'')
                   else validate_sources env ss (src_name s # names))"

definition has_dots :: "string \<Rightarrow> bool" where
  "has_dots g \<longleftrightarrow> (\<exists>i < length g. has_prefix ''..'' (drop i g))"

fun validate_ceiling :: "config_env \<Rightarrow> string list \<Rightarrow> gw_error option" where
  "validate_ceiling env [] = None"
| "validate_ceiling env (g # gs) =
     (if g = '''' \<or> has_dots g then Some (ErrMsg ''invalid ceiling glob'')
      else if env_bad_glob env g then Some (ErrMsg ''syntax error in pattern'')
      else validate_ceiling env gs)"

fun validate_aliases :: "config_env \<Rightarrow> (string \<times> string) list \<Rightarrow> gw_error option" where
  "validate_aliases env [] = None"
| "validate_aliases env ((k, v) # xs) =
     (if \<not> valid_relative k \<or> env_blank env v \<or> (\<exists>c \<in> set v. c \<in> {CHR 0x0D, CHR 0x0A, CHR 0x00})
      then Some (ErrMsg ''invalid alias'') else validate_aliases env xs)"

fun validate_drops :: "string list \<Rightarrow> string list \<Rightarrow> gw_error option" where
  "validate_drops [] dropped = None"
| "validate_drops (d # ds) dropped =
     (if d = '''' \<or> d \<in> set dropped then Some (ErrMsg ''invalid dropped column'')
      else validate_drops ds (d # dropped))"

fun validate_renames :: "(string \<times> string) list \<Rightarrow> string list \<Rightarrow> gw_error option" where
  "validate_renames [] dropped = None"
| "validate_renames ((old, new) # xs) dropped =
     (if old = '''' \<or> new = '''' \<or> old \<in> set dropped then Some (ErrMsg ''invalid rename'')
      else validate_renames xs dropped)"

fun validate_columns :: "(string \<times> column_rule) list \<Rightarrow> gw_error option" where
  "validate_columns [] = None"
| "validate_columns ((k, r) # xs) =
     (if \<not> valid_relative k then Some (ErrMsg ''invalid column rule'')
      else case validate_drops (col_drop r) [] of Some e \<Rightarrow> Some e
        | None \<Rightarrow> (case validate_renames (col_rename r) (col_drop r) of Some e \<Rightarrow> Some e
            | None \<Rightarrow> validate_columns xs))"

definition validate :: "config_env \<Rightarrow> config \<Rightarrow> gw_error option" where
  "validate env c =
     (if cfg_sources c = [] then Some (ErrMsg ''at least one source is required'')
      else first_error
        [validate_sources env (cfg_sources c) [],
         (if cfg_listen c \<noteq> '''' \<and> \<not> env_host_port env (cfg_listen c) then Some (ErrMsg ''door.listen'') else None),
         (if cfg_max_downloads c < 0 then Some (ErrMsg ''door.max_concurrent_downloads must be nonnegative'') else None),
         (if cfg_connect_proxy c \<noteq> '''' \<and> \<not> env_host_port env (cfg_connect_proxy c)
          then Some (ErrMsg ''egress.connect_proxy'') else None),
         validate_ceiling env (cfg_offer_ceiling c),
         validate_aliases env (cfg_aliases c),
         validate_columns (cfg_columns c)])"

text \<open>Load after decoding: the default listen address.\<close>

definition load :: "config_env \<Rightarrow> config \<Rightarrow> config \<times> gw_error option" where
  "load env c = (let c' = (if cfg_listen c = '''' then c\<lparr>cfg_listen := '':8080''\<rparr> else c) in (c', validate env c'))"

subsection \<open>Lookups\<close>

definition map_get :: "(string \<times> string) list \<Rightarrow> string \<Rightarrow> string" where
  "map_get m k = (case map_of m k of None \<Rightarrow> '''' | Some v \<Rightarrow> v)"

definition alias_of :: "config \<Rightarrow> string \<Rightarrow> string \<Rightarrow> string" where
  "alias_of c source rel =
     (let a = map_get (cfg_aliases c) (source @ ''/'' @ rel) in if a \<noteq> '''' then a else map_get (cfg_aliases c) rel)"

definition find_column_rule :: "config \<Rightarrow> string \<Rightarrow> string \<Rightarrow> column_rule" where
  "find_column_rule c source rel = (case map_of (cfg_columns c) (source @ ''/'' @ rel) of Some r \<Rightarrow> r
     | None \<Rightarrow> (case map_of (cfg_columns c) rel of Some r \<Rightarrow> r | None \<Rightarrow> \<lparr>col_rename = [], col_drop = []\<rparr>))"

subsection \<open>What a valid relative path is\<close>

lemma split_on_no_sep: "s \<in> set (split_on c p) \<Longrightarrow> c \<notin> set s"
  by (induction p arbitrary: s) (auto split: if_splits list.splits)

lemma split_join: "ss \<noteq> [] \<Longrightarrow> \<forall>s \<in> set ss. c \<notin> set s \<Longrightarrow> split_on c (join_with c ss) = ss"
  by (induction c ss rule: join_with.induct) (auto simp: split_on_single split_on_append)

lemma join_split: "join_with c (split_on c p) = p"
proof (induction p)
  case (Cons x p)
  show ?case
  proof (cases "split_on c p")
    case (Cons q qs)
    with Cons.IH show ?thesis by (cases qs) auto
  qed simp
qed simp

lemma join_with_Nil_iff: "(\<forall>s \<in> set ss. s \<noteq> []) \<Longrightarrow> join_with c ss = [] \<longleftrightarrow> ss = []"
  by (induction c ss rule: join_with.induct) auto

definition plain_segment :: "string \<Rightarrow> bool" where
  "plain_segment s \<longleftrightarrow> s \<noteq> '''' \<and> s \<noteq> ''.'' \<and> s \<noteq> ''..''"

lemma not_plain [simp]: "\<not> plain_segment ''''" "\<not> plain_segment ''.''" "\<not> plain_segment ''..''"
  by (simp_all add: plain_segment_def)

lemma plain_not_Nil: "plain_segment s \<Longrightarrow> s \<noteq> []"
  by (simp add: plain_segment_def)

text \<open>The stack of \<open>clean\<close> on a relative path: plain elements on top of double dots.\<close>

definition stack_ok :: "string list \<Rightarrow> bool" where
  "stack_ok st \<longleftrightarrow> (\<exists>xs n. st = xs @ replicate n ''..'' \<and> (\<forall>x \<in> set xs. plain_segment x))"

lemma clean_step_ok: "stack_ok st \<Longrightarrow> stack_ok (clean_step False seg st)"
proof -
  assume "stack_ok st"
  then obtain xs n where st: "st = xs @ replicate n ''..''" "\<forall>x \<in> set xs. plain_segment x"
    by (auto simp: stack_ok_def)
  consider "seg = '''' \<or> seg = ''.''" | "seg = ''..''" | "plain_segment seg" by (auto simp: plain_segment_def)
  then show ?thesis
  proof cases
    case 1
    with st show ?thesis by (auto simp: clean_step_def stack_ok_def)
  next
    case 2
    show ?thesis
    proof (cases xs)
      case Nil
      with 2 st have "clean_step False seg st = replicate (Suc n) ''..''"
        by (cases n) (auto simp: clean_step_def)
      then show ?thesis unfolding stack_ok_def by (intro exI [of _ "[]"] exI [of _ "Suc n"]) simp
    next
      case (Cons y ys)
      with 2 st have "clean_step False seg st = ys @ replicate n ''..''"
        by (auto simp: clean_step_def plain_segment_def)
      with Cons st show ?thesis by (auto simp: stack_ok_def)
    qed
  next
    case 3
    with st have "clean_step False seg st = (seg # xs) @ replicate n ''..''"
      by (auto simp: clean_step_def plain_segment_def)
    with st 3 show ?thesis unfolding stack_ok_def by (metis set_ConsD)
  qed
qed

lemma clean_fold_ok: "stack_ok st \<Longrightarrow> stack_ok (fold (clean_step False) segs st)"
  by (induction segs arbitrary: st) (auto intro: clean_step_ok)

lemma clean_fold_plain: "\<forall>s \<in> set segs. plain_segment s \<Longrightarrow> fold (clean_step r) segs st = rev segs @ st"
  by (induction segs arbitrary: st) (auto simp: clean_step_def plain_segment_def)

lemma stack_no_sep:
  assumes "\<forall>s \<in> set segs. c \<notin> set s" "\<forall>s \<in> set st. c \<notin> set s" "c \<noteq> CHR ''.''"
  shows "\<forall>s \<in> set (fold (clean_step r) segs st). c \<notin> set s"
  using assms
proof (induction segs arbitrary: st)
  case (Cons x segs)
  have "\<forall>s \<in> set (clean_step r x st). c \<notin> set s"
    using Cons.prems by (auto simp: clean_step_def split: list.splits)
  with Cons show ?case by simp
qed simp

text \<open>The keys accepted for aliases and column rules are exactly the single dot and the paths
  all of whose elements are proper names: no empty element, no dot, no double dot, no NUL,
  so a key never leaves its source.\<close>

theorem valid_relative_iff:
  "valid_relative p \<longleftrightarrow> CHR 0x00 \<notin> set p \<and> (p = ''.'' \<or> (\<forall>s \<in> set (split_on CHR ''/'' p). plain_segment s))"
proof
  assume v: "valid_relative p"
  let ?st = "fold (clean_step False) (split_on CHR ''/'' p) []"
  have p: "p \<noteq> ''''" "\<not> is_abs p" "clean p = p" "p \<noteq> ''..''" "\<not> has_prefix ''../'' p" "CHR 0x00 \<notin> set p"
    using v unfolding valid_relative_def by blast+
  have "stack_ok []" by (simp add: stack_ok_def)
  then obtain xs n where st: "?st = xs @ replicate n ''..''" "\<forall>x \<in> set xs. plain_segment x"
    using clean_fold_ok [of "[]" "split_on CHR ''/'' p"] unfolding stack_ok_def by blast
  let ?out = "join_with CHR ''/'' (rev ?st)"
  have out: "(if ?out = '''' then ''.'' else ?out) = p"
    using p(2,3) by (simp add: clean_def clean_segments_def Let_def)
  have nosep: "\<forall>s \<in> set (rev ?st). CHR ''/'' \<notin> set s"
    using stack_no_sep [of "split_on CHR ''/'' p" "CHR ''/''" "[]" False] split_on_no_sep by auto
  show "CHR 0x00 \<notin> set p \<and> (p = ''.'' \<or> (\<forall>s \<in> set (split_on CHR ''/'' p). plain_segment s))"
  proof (cases "rev ?st = []")
    case True
    then have "?out = ''''" unfolding True by simp
    with out p(6) show ?thesis by simp
  next
    case False
    have "\<forall>s \<in> set (rev ?st). s \<noteq> []" unfolding st(1) using st(2) plain_not_Nil by fastforce
    then have "?out \<noteq> ''''" using False join_with_Nil_iff by metis
    then have eq: "?out = p" using out by simp
    then have segs: "split_on CHR ''/'' p = rev ?st" using split_join [OF False nosep] by simp
    have "n = 0"
    proof (rule ccontr)
      assume "n \<noteq> 0"
      then have r: "rev ?st = ''..'' # replicate (n - 1) ''..'' @ rev xs"
        using st(1) by (cases n) (auto simp: replicate_append_same)
      show False
      proof (cases "replicate (n - 1) ''..'' @ rev xs")
        case Nil
        with r eq p(4) show False by simp
      next
        case (Cons y ys)
        with r have "?out = ''../'' @ join_with CHR ''/'' (y # ys)" by simp
        with eq p(5) show False by (metis has_prefix_append)
      qed
    qed
    with st segs p(6) show ?thesis by simp
  qed
next
  assume a: "CHR 0x00 \<notin> set p \<and> (p = ''.'' \<or> (\<forall>s \<in> set (split_on CHR ''/'' p). plain_segment s))"
  show "valid_relative p"
  proof (cases "p = ''.''")
    case True
    then show ?thesis by (simp add: valid_relative_def is_abs_def has_prefix_def clean_def clean_segments_def clean_step_def)
  next
    case False
    with a have plain: "\<forall>s \<in> set (split_on CHR ''/'' p). plain_segment s" by blast
    have segs: "clean_segments r (split_on CHR ''/'' p) = split_on CHR ''/'' p" for r
      using plain by (simp add: clean_segments_def clean_fold_plain)
    have ne: "p \<noteq> ''''" using plain by force
    have abs: "\<not> is_abs p"
    proof
      assume "is_abs p"
      then obtain r where "p = CHR ''/'' # r" by (auto simp: is_abs_def has_prefix_iff)
      then have "'''' \<in> set (split_on CHR ''/'' p)" by simp
      with plain show False using not_plain by blast
    qed
    have "clean p = p" using abs ne by (simp add: clean_def segs join_split)
    moreover have "p \<noteq> ''..''" using plain by force
    moreover have "\<not> has_prefix ''../'' p"
    proof
      assume "has_prefix ''../'' p"
      then obtain r where "p = ''..'' @ CHR ''/'' # r" by (auto simp: has_prefix_iff)
      then have "''..'' \<in> set (split_on CHR ''/'' p)" by (simp add: split_on_append)
      with plain show False using not_plain by blast
    qed
    ultimately show ?thesis using a ne abs unfolding valid_relative_def by blast
  qed
qed

theorem valid_relative_iff_witness: "\<not> valid_relative ''a/../b''"
proof -
  have "\<not> (\<forall>s \<in> set (split_on CHR ''/'' ''a/../b''). plain_segment s)" by code_simp
  with valid_relative_iff [of "''a/../b''"] show ?thesis by blast
qed

end
