(* ===== verification/AuditProps.thy ===== *)
theory AuditProps
  imports AuditLog
begin

text \<open>
  What the log of internal/audit/audit.go promises. The abstract log is a list of lines kept
  in parts, one part per rotation file; \<open>log_ok\<close> says that the memory and the directory of
  the concrete log stand for such a list. Append adds one line to it, reopening after a torn
  write gives back the lines before it or with it, and what Open accepts is one signed chain.
\<close>

subsection \<open>The abstract log\<close>

definition at_end :: "audit_log \<Rightarrow> parts \<Rightarrow> bool" where
  "at_end L ps \<longleftrightarrow>
     (ps \<noteq> [] \<and> al_index L = fst (last ps) \<and> al_size L = length (content_of (snd (last ps))))
     \<or> (al_size L = 0 \<and> (\<forall>i \<in> set (map fst ps). i < al_index L))"

definition parts_ok :: "audit_env \<Rightarrow> parts \<Rightarrow> bool" where
  "parts_ok env ps \<longleftrightarrow> sorted_wrt (<) (map fst ps) \<and> (\<forall>l \<in> set (lines_of ps). line_ok l)
     \<and> chained env 0 '''' (lines_of ps)"

definition log_ok :: "audit_env \<Rightarrow> audit_log \<Rightarrow> parts \<Rightarrow> bool" where
  "log_ok env L ps \<longleftrightarrow> parts_ok env ps \<and> at_end L ps
     \<and> al_seq L = length (lines_of ps) \<and> al_prev L = last_hash env '''' (lines_of ps)
     \<and> al_last L = last_entry env None (lines_of ps) \<and> al_rotations L = starts 0 ps"

text \<open>Adding to the part with this number, which is the last one or a new one.\<close>

definition extend :: "nat \<Rightarrow> string list \<Rightarrow> parts \<Rightarrow> parts" where
  "extend i ls ps = (if ps \<noteq> [] \<and> fst (last ps) = i then butlast ps @ [(i, snd (last ps) @ ls)] else ps @ [(i, ls)])"

definition fits :: "nat \<Rightarrow> parts \<Rightarrow> bool" where
  "fits i ps \<longleftrightarrow> sorted_wrt (<) (map fst ps) \<and>
     ((ps \<noteq> [] \<and> i = fst (last ps)) \<or> (\<forall>j \<in> set (map fst ps). j < i))"

lemma lines_of_append [simp]: "lines_of (ps @ qs) = lines_of ps @ lines_of qs"
  by (simp add: lines_of_def)

lemma lines_of_single [simp]: "lines_of [(i, ls)] = ls" "lines_of [] = []"
  by (simp_all add: lines_of_def)

lemma disk_of_append [simp]: "disk_of (ps @ qs) = disk_of ps @ disk_of qs"
  by (simp add: disk_of_def)

lemma disk_of_single [simp]: "disk_of [(i, ls)] = [(i, content_of ls)]" "disk_of [] = []"
  by (simp_all add: disk_of_def)

lemma append_disk_new: "i \<notin> fst ` set D \<Longrightarrow> append_disk i bs D = D @ [(i, bs)]"
  by (induction i bs D rule: append_disk.induct) auto

lemma append_disk_old: "i \<notin> fst ` set D \<Longrightarrow> append_disk i bs (D @ [(i, c)]) = D @ [(i, c @ bs)]"
  by (induction i bs D rule: append_disk.induct) auto

lemma tear_last: "tear t (D @ [(i, c)]) = D @ [(i, c @ t)]"
proof (induction D)
  case (Cons f D)
  then show ?case by (cases D) auto
qed simp

lemma fst_disk_of: "fst ` set (disk_of ps) = fst ` set ps"
  by (force simp: disk_of_def)

lemma fitsE:
  assumes "fits i ps"
  obtains qs ls where "ps = qs @ [(i, ls)]" "i \<notin> fst ` set qs" "sorted_wrt (<) (map fst qs)" "\<forall>j \<in> set (map fst qs). j < i"
    | "i \<notin> fst ` set ps" "sorted_wrt (<) (map fst ps)" "\<forall>j \<in> set (map fst ps). j < i"
proof (cases "ps \<noteq> [] \<and> i = fst (last ps)")
  case True
  then obtain qs ls where q: "ps = qs @ [(i, ls)]"
    by (metis append_butlast_last_id prod.collapse)
  moreover have "\<forall>j \<in> set (map fst qs). j < i" "sorted_wrt (<) (map fst qs)"
    using assms q by (auto simp: fits_def sorted_wrt_append)
  ultimately show thesis using that(1) [of qs ls] by fastforce
next
  case False
  then show thesis using assms that(2) by (fastforce simp: fits_def)
qed

lemma extend_new: "\<forall>j \<in> set (map fst ps). j < i \<Longrightarrow> extend i ls ps = ps @ [(i, ls)]"
  by (auto simp: extend_def)

lemma extend_old: "extend i ls (qs @ [(i, ms)]) = qs @ [(i, ms @ ls)]"
  by (simp add: extend_def)

lemma lines_of_extend: "fits i ps \<Longrightarrow> lines_of (extend i ls ps) = lines_of ps @ ls"
  by (erule fitsE) (simp_all add: extend_old extend_new)

lemma sorted_extend: "fits i ps \<Longrightarrow> sorted_wrt (<) (map fst (extend i ls ps))"
  by (erule fitsE) (simp_all add: extend_old extend_new sorted_wrt_append)

lemma last_extend: "extend i ls ps \<noteq> []" "fst (last (extend i ls ps)) = i"
  by (auto simp: extend_def)

lemma disk_of_extend:
  assumes "fits i ps"
  shows "append_disk i (content_of ls @ t) (disk_of ps) = tear t (disk_of (extend i ls ps))"
  using assms
proof (cases rule: fitsE)
  case (1 qs ms)
  then have "i \<notin> fst ` set (disk_of qs)" by (simp add: fst_disk_of)
  then show ?thesis using 1 by (simp add: extend_old append_disk_old tear_last)
next
  case 2
  then have "i \<notin> fst ` set (disk_of ps)" by (simp add: fst_disk_of)
  then show ?thesis using 2 by (simp add: extend_new append_disk_new tear_last)
qed

subsection \<open>Rotation keeps the end of the log\<close>

lemma at_end_fits: "parts_ok env ps \<Longrightarrow> at_end L ps \<Longrightarrow> fits (al_index L) ps"
  by (auto simp: at_end_def fits_def parts_ok_def)

lemma last_is_max:
  assumes "sorted_wrt (<) (map fst ps)" and "ps \<noteq> []" and "i \<in> set (map fst ps)"
  shows "i \<le> (fst (last ps) :: nat)"
proof -
  have "ps = butlast ps @ [last ps]" using assms(2) by simp
  then have "sorted_wrt (<) (map fst (butlast ps) @ [fst (last ps)])"
    and "i \<in> set (map fst (butlast ps)) \<or> i = fst (last ps)"
    using assms(1,3) by (metis list.simps(8,9) map_append, metis UnE assms(3) insertE list.set(1,2) list.simps(8,9) map_append set_append empty_iff)
  then show ?thesis by (auto simp: sorted_wrt_append)
qed

lemma rotate_at_end:
  assumes "parts_ok env ps" and "at_end L ps"
  shows "at_end (rotate n L) ps"
proof (cases "al_size L + (n + 1) > rotation_bytes \<and> al_size L > 0")
  case True
  then have "ps \<noteq> []" "al_index L = fst (last ps)" using assms(2) by (auto simp: at_end_def)
  moreover have "sorted_wrt (<) (map fst ps)" using assms(1) by (simp add: parts_ok_def)
  ultimately have "i < al_index L + 1" if "i \<in> set (map fst ps)" for i
    using last_is_max [OF _ _ that] by fastforce
  then show ?thesis using True by (auto simp: rotate_def at_end_def)
qed (use assms(2) in \<open>auto simp: rotate_def\<close>)

lemma rotate_keeps [simp]: "al_seq (rotate n L) = al_seq L" "al_prev (rotate n L) = al_prev L"
  "al_last (rotate n L) = al_last L" "al_rotations (rotate n L) = al_rotations L" "al_failed (rotate n L) = al_failed L"
  by (simp_all add: rotate_def)

lemma rotate_log_ok: "log_ok env L ps \<Longrightarrow> log_ok env (rotate n L) ps"
  by (auto simp: log_ok_def rotate_at_end)

text \<open>The line an append writes continues the chain.\<close>

lemma prepare_entryD:
  assumes "prepare_entry env time ty body L = Inr (en, line)"
  shows "line = canonical (entry_json en) \<and> en = next_entry env time ty body L \<and> al_failed L = None
    \<and> allowed_type ty \<and> validate_raw env line \<noteq> Inl e"
  using assms unfolding prepare_entry_def Let_def
  by (auto split: option.splits if_splits sum.splits)

lemma validate_rawD:
  "validate_raw env raw = Inr en \<Longrightarrow> ae_unmarshal env raw = Inr en
     \<and> ae_verify env (canonical (unsigned_json en)) (en_sig en) \<and> en_seq en \<noteq> 0"
  unfolding validate_raw_def by (auto split: option.splits if_splits sum.splits)

lemma prepare_entry_valid:
  assumes "prepare_entry env time ty body L = Inr (en, line)" and "ae_unmarshal env line = Inr en"
  shows "validate_raw env line = Inr en \<and> en_seq en = al_seq L + 1 \<and> en_prev en = al_prev L"
proof -
  obtain en' where "validate_raw env line = Inr en'"
    using prepare_entryD [OF assms(1)] by (cases "validate_raw env line") auto
  moreover from validate_rawD [OF this] assms(2) have "en' = en" by simp
  ultimately show ?thesis
    using prepare_entryD [OF assms(1)] by (simp add: next_entry_def Let_def)
qed

lemma last_entry_snoc: "validate_raw env l = Inr en \<Longrightarrow> last_entry env d (ls @ [l]) = Some en"
  by (simp add: last_entry_def)

lemma parts_ok_extend:
  assumes "parts_ok env ps" and "fits i ps" and "line_ok l"
    and "validate_raw env l = Inr en" and "en_seq en = length (lines_of ps) + 1" and "en_prev en = last_hash env '''' (lines_of ps)"
  shows "parts_ok env (extend i [l] ps)"
  using assms by (auto simp: parts_ok_def lines_of_extend sorted_extend chained_append)

lemma parts_ok_touch: "parts_ok env ps \<Longrightarrow> fits i ps \<Longrightarrow> parts_ok env (extend i [] ps)"
  by (simp add: parts_ok_def lines_of_extend sorted_extend)

lemma starts_extend_old: "starts n (qs @ [(i, ms @ ls)]) = starts n (qs @ [(i, ms)])" if "ms \<noteq> []"
  using that by (simp add: starts_append)

subsection \<open>Append\<close>

lemma starts_extend:
  assumes "parts_ok env ps" and "at_end L ps"
  shows "starts 0 (extend (al_index L) [l] ps)
    = (if al_size L = 0 then starts 0 ps @ [(length (lines_of ps) + 1, al_index L)] else starts 0 ps)"
proof (cases "ps \<noteq> [] \<and> al_index L = fst (last ps)")
  case True
  then obtain qs ls where q: "ps = qs @ [(al_index L, ls)]"
    by (metis append_butlast_last_id prod.collapse)
  have "\<not> (\<forall>i \<in> set (map fst ps). i < al_index L)" using q by simp
  then have "al_size L = length (content_of (snd (last ps)))"
    using assms(2) unfolding at_end_def by blast
  then have "al_size L = length (content_of ls)" using q by simp
  then have "al_size L = 0 \<longleftrightarrow> ls = []" by (cases ls) auto
  then show ?thesis using q by (simp add: extend_old starts_append)
next
  case False
  then have "al_size L = 0" "\<forall>i \<in> set (map fst ps). i < al_index L" using assms(2) by (auto simp: at_end_def)
  then show ?thesis by (simp add: extend_new starts_append)
qed

lemma size_extend:
  assumes "at_end L ps"
  shows "length (content_of (snd (last (extend (al_index L) ls ps)))) = al_size L + length (content_of ls)"
  using assms last_in_set [of ps] by (fastforce simp: at_end_def extend_def)

text \<open>An append that returns an entry.\<close>

lemma appendD:
  assumes "append env io time ty body (L0, D) = (Inr en, L', D')"
  obtains line where "prepare_entry env time ty body L0 = Inr (en, line)"
    and "D' = append_disk (al_index (rotate (length line) L0)) (content_of [line]) D"
    and "L' = (let L = rotate (length line) L0 in
          L\<lparr>al_rotations := (if al_size L = 0 then al_rotations L @ [(al_seq L + 1, al_index L)] else al_rotations L),
            al_size := al_size L + (length line + 1), al_seq := al_seq L + 1,
            al_prev := ae_sha env line, al_last := Some en\<rparr>)"
  using assms unfolding append_def Let_def
  by (auto split: sum.splits option.splits prod.splits if_splits)

lemma append_log_ok:
  assumes "log_ok env L ps" and "append env io time ty body (L, disk_of ps) = (Inr en, L', D')"
    and "ae_unmarshal env (canonical (entry_json en)) = Inr en" and "line_ok (canonical (entry_json en))"
  shows "\<exists>i. D' = disk_of (extend i [canonical (entry_json en)] ps) \<and> log_ok env L' (extend i [canonical (entry_json en)] ps)
    \<and> lines_of (extend i [canonical (entry_json en)] ps) = lines_of ps @ [canonical (entry_json en)]
    \<and> al_cursor L' = al_cursor L"
proof -
  obtain line where line: "prepare_entry env time ty body L = Inr (en, line)"
    and D': "D' = append_disk (al_index (rotate (length line) L)) (content_of [line]) (disk_of ps)"
    and L': "L' = (let M = rotate (length line) L in
          M\<lparr>al_rotations := (if al_size M = 0 then al_rotations M @ [(al_seq M + 1, al_index M)] else al_rotations M),
            al_size := al_size M + (length line + 1), al_seq := al_seq M + 1,
            al_prev := ae_sha env line, al_last := Some en\<rparr>)"
    using appendD [OF assms(2)] by metis
  let ?M = "rotate (length line) L"
  have c: "line = canonical (entry_json en)" using prepare_entryD [OF line] by simp
  have M: "log_ok env ?M ps" using assms(1) by (rule rotate_log_ok)
  then have fit: "fits (al_index ?M) ps" by (auto simp: log_ok_def at_end_fits)
  let ?qs = "extend (al_index ?M) [line] ps"
  have v: "validate_raw env line = Inr en" "en_seq en = al_seq L + 1" "en_prev en = al_prev L"
    using prepare_entry_valid [OF line] assms(3) c by simp_all
  have "D' = disk_of ?qs"
    using D' disk_of_extend [OF fit, of "[line]" "[]"] by (simp add: tear_nil)
  moreover have "log_ok env L' ?qs"
  proof -
    have "parts_ok env ?qs"
      by (rule parts_ok_extend [OF _ fit _ v(1)]) (use assms(1,4) v c in \<open>simp_all add: log_ok_def\<close>)
    moreover have "al_index L' = al_index ?M \<and> al_size L' = al_size ?M + length (content_of [line])"
      by (simp add: L' Let_def)
    then have "at_end L' ?qs"
      using size_extend [of ?M ps "[line]"] M last_extend [of "al_index ?M" "[line]" ps]
      unfolding at_end_def log_ok_def by metis
    moreover have "al_rotations L' = starts 0 ?qs"
      using starts_extend [of env ps ?M line] M by (simp add: L' Let_def log_ok_def)
    ultimately show ?thesis
      using M fit by (simp add: log_ok_def lines_of_extend L' Let_def last_hash_append last_entry_snoc [OF v(1)])
  qed
  moreover have "al_cursor L' = al_cursor L" by (simp add: L' Let_def rotate_def)
  ultimately show ?thesis using lines_of_extend [OF fit, of "[line]"] unfolding c by blast
qed

subsection \<open>Opening\<close>

lemma open_log_parts:
  assumes "parts_ok env ps" and "nl \<notin> set tail" and "length tail < max_line"
  shows "\<exists>L. open_log env no_fault None (tear tail (disk_of ps)) = Inr (L, disk_of ps)
    \<and> log_ok env L ps \<and> al_failed L = None \<and> al_cursor L = (0, 0, 0)"
proof -
  let ?st = "\<lparr>ch_seq = 0, ch_prev = '''', ch_last = None, ch_offset = 0\<rparr>"
  have c: "\<forall>l \<in> set (lines_of ps). line_ok l" "chained env (ch_seq ?st) (ch_prev ?st) (lines_of ps)"
    using assms(1) by (simp_all add: parts_ok_def)
  obtain st where st: "scan_files env no_fault None (tear tail (disk_of ps)) 0 ?st [] = Inr (st, [] @ starts (ch_seq ?st) ps, disk_of ps)"
    "ch_seq st = ch_seq ?st + length (lines_of ps)" "ch_prev st = last_hash env (ch_prev ?st) (lines_of ps)"
    "ch_last st = last_entry env (ch_last ?st) (lines_of ps)"
    using scan_files_parts [OF c assms(2,3), of 0 "[]"] by blast
  let ?L = "\<lparr>al_seq = ch_seq st, al_prev = ch_prev st,
                al_index = (if disk_of ps = [] then 0 else fst (last (disk_of ps))),
                al_size = (if disk_of ps = [] then 0 else length (snd (last (disk_of ps)))),
                al_rotations = starts 0 ps, al_cursor = (0, 0, 0), al_last = ch_last st, al_failed = None\<rparr>"
  have "open_log env no_fault None (tear tail (disk_of ps)) = Inr (?L, disk_of ps)"
    using st(1) by (simp add: open_log_def no_fault_def)
  moreover have "at_end ?L ps"
    by (cases ps rule: rev_cases) (auto simp: at_end_def disk_of_def split: prod.splits)
  then have "log_ok env ?L ps" using st(2-4) assms(1) by (simp add: log_ok_def)
  ultimately show ?thesis by auto
qed

text \<open>A write cut short leaves the lines before it, or all of them with the new one.\<close>

lemma torn_disk:
  assumes "fits i ps" and "nl \<notin> set line"
  shows "append_disk i (take n (line @ [nl])) (disk_of ps) =
    (if n > length line then tear [] (disk_of (extend i [line] ps)) else tear (take n line) (disk_of (extend i [] ps)))"
  using disk_of_extend [OF assms(1), of "[line]" "[]"] disk_of_extend [OF assms(1), of "[]" "take n line"] by simp

lemma append_torn:
  assumes "prepare_entry env time ty body L = Inr (en, line)" and "io_open io = None" and "io_write io = Some (n, e)"
  shows "\<exists>L'. append env io time ty body (L, D) = (Inl e, L', append_disk (al_index (rotate (length line) L)) (take n (line @ [nl])) D)
     \<and> al_failed L' = Some e"
  using assms by (simp add: append_def Let_def)

lemma torn_append_reopens:
  assumes ok: "log_ok env L ps" and line: "prepare_entry env time ty body L = Inr (en, line)"
    and um: "ae_unmarshal env line = Inr en" and lo: "line_ok line"
    and io: "io_open io = None" "io_write io = Some (n, e)"
  shows "\<exists>L' D' L2 qs. append env io time ty body (L, disk_of ps) = (Inl e, L', D') \<and> al_failed L' = Some e
    \<and> open_log env no_fault None D' = Inr (L2, disk_of qs) \<and> log_ok env L2 qs \<and> al_failed L2 = None
    \<and> lines_of qs = lines_of ps @ (if n > length line then [line] else [])"
proof -
  let ?i = "al_index (rotate (length line) L)"
  have M: "log_ok env (rotate (length line) L) ps" using ok by (rule rotate_log_ok)
  then have fit: "fits ?i ps" and pok: "parts_ok env ps" by (auto simp: log_ok_def at_end_fits)
  let ?qs = "extend ?i (if n > length line then [line] else []) ps"
  let ?t = "if n > length line then [] else take n line"
  let ?D = "append_disk ?i (take n (line @ [nl])) (disk_of ps)"
  have D: "?D = tear ?t (disk_of ?qs)"
    using torn_disk [OF fit, of line n] lo by (simp add: line_ok_def)
  have v: "validate_raw env line = Inr en" "en_seq en = al_seq L + 1" "en_prev en = al_prev L"
    using prepare_entry_valid [OF line um] by simp_all
  have "parts_ok env (extend ?i [line] ps)"
    by (rule parts_ok_extend [OF pok fit lo v(1)]) (use ok v in \<open>simp_all add: log_ok_def\<close>)
  then have q: "parts_ok env ?qs" using parts_ok_touch [OF pok fit] by simp
  have t: "nl \<notin> set ?t" "length ?t < max_line"
    using lo by (auto simp: line_ok_def dest: in_set_takeD)
  obtain L2 where "open_log env no_fault None ?D = Inr (L2, disk_of ?qs)" "log_ok env L2 ?qs" "al_failed L2 = None"
    using open_log_parts [OF q t] D by auto
  moreover obtain L' where "append env io time ty body (L, disk_of ps) = (Inl e, L', ?D)" "al_failed L' = Some e"
    using append_torn [OF line io] by blast
  ultimately show ?thesis using lines_of_extend [OF fit] by auto
qed

subsection \<open>What Open accepts\<close>

lemma read_lineD:
  assumes "read_line s = (a, b, t)"
  shows "a @ b = s \<and> (t \<longrightarrow> (\<exists>l. a = l @ [nl] \<and> nl \<notin> set l)) \<and> (\<not> t \<longrightarrow> b = [])"
  using assms cut_sound [of nl s] by (auto simp: read_line_def split: prod.splits if_splits)

lemma take_lineD:
  assumes "take_line env (l @ [nl]) t st = Inr st'"
  shows "t \<and> chained env (ch_seq st) (ch_prev st) [l] \<and> ch_seq st' = ch_seq st + 1 \<and> ch_prev st' = ae_sha env l
    \<and> ch_offset st' = ch_offset st + length (content_of [l])"
  using assms by (auto simp: take_line_def trim_nl split: sum.splits if_splits)

lemma scan_lines_sound:
  assumes "scan_lines env is_last content st = Inr (st', tail)"
  shows "\<exists>ls. content = content_of ls @ (case tail of None \<Rightarrow> [] | Some t \<Rightarrow> t) \<and> chained env (ch_seq st) (ch_prev st) ls
    \<and> ch_seq st' = ch_seq st + length ls \<and> ch_prev st' = last_hash env (ch_prev st) ls
    \<and> ch_offset st' = ch_offset st + length (content_of ls)"
  using assms
proof (induction env is_last content st rule: scan_lines.induct)
  case (1 env is_last content st)
  show ?case
  proof (cases "content = []")
    case True
    then show ?thesis using "1.prems" by (auto simp: scan_lines.simps intro!: exI [of _ "[]"])
  next
    case False
    obtain line rest t where rl: "read_line content = (line, rest, t)" by (metis prod_cases3)
    show ?thesis
    proof (cases "\<not> t \<and> is_last")
      case True
      then have "tail = Some line" "st' = st"
        using "1.prems" False rl by (auto simp: scan_lines.simps [of env _ content] split: if_splits)
      then show ?thesis using read_lineD [OF rl] True by (auto intro!: exI [of _ "[]"])
    next
      case nt: False
      then obtain st1 where tl: "take_line env line t st = Inr st1" and rec: "scan_lines env is_last rest st1 = Inr (st', tail)"
        and short: "\<not> line_too_long line t"
        using "1.prems" False rl by (auto simp: scan_lines.simps [of env _ content] split: if_splits sum.splits)
      have "t" using tl by (auto simp: take_line_def split: sum.splits if_splits)
      then obtain l where l: "line = l @ [nl]" "content = line @ rest" using read_lineD [OF rl] by auto
      obtain ls where ls: "rest = content_of ls @ (case tail of None \<Rightarrow> [] | Some t \<Rightarrow> t)" "chained env (ch_seq st1) (ch_prev st1) ls"
        "ch_seq st' = ch_seq st1 + length ls" "ch_prev st' = last_hash env (ch_prev st1) ls"
        "ch_offset st' = ch_offset st1 + length (content_of ls)"
        using "1.IH" [OF False rl [symmetric] refl short nt tl rec] by blast
      show ?thesis
        using take_lineD [OF tl [unfolded l(1)]] l ls by (intro exI [of _ "l # ls"]) auto
    qed
  qed
qed

lemma scan_files_sound:
  assumes "scan_files env sync torn D k st rot = Inr (st', rot', D')"
  shows "\<exists>ps. D' = disk_of ps \<and> map fst ps = map fst D \<and> chained env (ch_seq st) (ch_prev st) (lines_of ps)
    \<and> ch_seq st' = ch_seq st + length (lines_of ps) \<and> ch_prev st' = last_hash env (ch_prev st) (lines_of ps)"
  using assms
proof (induction env sync torn D k st rot arbitrary: st' rot' D' rule: scan_files.induct)
  case (1 env sync torn k st rot)
  then show ?case by (auto intro!: exI [of _ "[]"])
next
  case (2 env sync torn i content files k st rot)
  obtain st1 tail where s: "scan_lines env (files = []) content (st\<lparr>ch_offset := 0\<rparr>) = Inr (st1, tail)"
    using "2.prems" by (auto split: sum.splits)
  have nof: "(if tail \<noteq> None then torn else None) = None" "sync k = None"
    using "2.prems" s by (auto split: option.splits)
  let ?rot = "if ch_seq st1 \<ge> ch_seq st + 1 then rot @ [(ch_seq st + 1, i)] else rot"
  obtain D1 where rec: "scan_files env sync torn files (k + 1) st1 ?rot = Inr (st', rot', D1)"
    and D': "D' = (i, take (ch_offset st1) content) # D1"
    using "2.prems" s nof by (auto simp: Let_def split: sum.splits)
  obtain ls where ls: "content = content_of ls @ (case tail of None \<Rightarrow> [] | Some t \<Rightarrow> t)" "chained env (ch_seq st) (ch_prev st) ls"
    "ch_seq st1 = ch_seq st + length ls" "ch_prev st1 = last_hash env (ch_prev st) ls" "ch_offset st1 = length (content_of ls)"
    using scan_lines_sound [OF s] by auto
  obtain ps where "D1 = disk_of ps" "map fst ps = map fst files" "chained env (ch_seq st1) (ch_prev st1) (lines_of ps)"
    "ch_seq st' = ch_seq st1 + length (lines_of ps)" "ch_prev st' = last_hash env (ch_prev st1) (lines_of ps)"
    using "2.IH" [OF s refl nof refl rec] by blast
  then show ?case using ls D'
    by (intro exI [of _ "(i, ls) # ps"]) (simp add: disk_of_def lines_of_def chained_append last_hash_append)
qed

lemma open_log_sound:
  assumes "open_log env sync torn D = Inr (L, D')"
  shows "\<exists>ps. D' = disk_of ps \<and> map fst ps = map fst D \<and> chained env 0 '''' (lines_of ps)
    \<and> al_seq L = length (lines_of ps) \<and> al_prev L = last_hash env '''' (lines_of ps)"
proof -
  obtain st rot where "scan_files env sync torn D 0 \<lparr>ch_seq = 0, ch_prev = '''', ch_last = None, ch_offset = 0\<rparr> [] = Inr (st, rot, D')"
    and "al_seq L = ch_seq st" "al_prev L = ch_prev st"
    using assms unfolding open_log_def by (auto split: sum.splits option.splits)
  then show ?thesis using scan_files_sound by fastforce
qed

text \<open>The head hash commits to the whole history.\<close>

lemma last_hash_commits:
  assumes "\<forall>x y. ae_sha env x = ae_sha env y \<longrightarrow> x = y"
  shows "chained env n '''' ls \<Longrightarrow> chained env n '''' ms \<Longrightarrow> length ls = length ms
    \<Longrightarrow> last_hash env '''' ls = last_hash env '''' ms \<Longrightarrow> ls = ms"
proof (induction ls arbitrary: ms rule: rev_induct)
  case (snoc l ls)
  obtain ks k where m: "ms = ks @ [k]" using snoc.prems(3) by (cases ms rule: rev_cases) auto
  have "ae_sha env l = ae_sha env k" using snoc.prems(4) m by (simp add: last_hash_append)
  then have "l = k" using assms by blast
  moreover have "last_hash env '''' ls = last_hash env '''' ks"
    using snoc.prems(1,2) m \<open>l = k\<close> by (auto simp: chained_append split: sum.splits)
  ultimately show ?case using snoc.IH [of ks] snoc.prems m by (simp add: chained_append)
qed simp

subsection \<open>Read\<close>

text \<open>The abstract read: the entry on the numbered line.\<close>

definition entry_at :: "audit_env \<Rightarrow> parts \<Rightarrow> nat \<Rightarrow> entry" where
  "entry_at env ps seq = projr (validate_raw env (lines_of ps ! (seq - 1)))"

lemma starts_above: "r \<in> set (starts n ps) \<Longrightarrow> n < fst r"
  by (induction n ps rule: starts.induct) (auto split: if_splits)

lemma rotation_for_last:
  "rotation_for seq rots = (let t = takeWhile (\<lambda>r. \<not> fst r > seq) rots in if t = [] then None else Some (last t))"
proof -
  let ?t = "takeWhile (\<lambda>r. \<not> fst r > seq) rots"
  have "?t \<noteq> [] \<Longrightarrow> rots ! (length ?t - 1) = last ?t"
    by (metis diff_less last_conv_nth length_greater_0_conv takeWhile_nth zero_less_one)
  then show ?thesis by (simp add: rotation_for_def Let_def)
qed

lemma find_part:
  "n < seq \<Longrightarrow> seq \<le> n + length (lines_of ps) \<Longrightarrow>
    \<exists>qs i ls rs. ps = qs @ (i, ls) # rs \<and> n + length (lines_of qs) < seq \<and> seq \<le> n + length (lines_of qs) + length ls
      \<and> takeWhile (\<lambda>r. \<not> fst r > seq) (starts n ps) \<noteq> []
      \<and> last (takeWhile (\<lambda>r. \<not> fst r > seq) (starts n ps)) = (n + length (lines_of qs) + 1, i)"
proof (induction ps arbitrary: n)
  case (Cons p ps)
  obtain i ls where p: "p = (i, ls)" by fastforce
  show ?case
  proof (cases "seq \<le> n + length ls")
    case True
    then have "ls \<noteq> []" using Cons.prems(1) by auto
    moreover have "takeWhile (\<lambda>r. \<not> fst r > seq) (starts (n + length ls) ps) = []"
    proof (cases "starts (n + length ls) ps")
      case (Cons r rest)
      then show ?thesis using starts_above [of r "n + length ls" ps] True by simp
    qed simp
    ultimately show ?thesis using p Cons.prems(1) True
      by (intro exI [of _ "[]"] exI [of _ i] exI [of _ ls] exI [of _ ps]) simp
  next
    case False
    then obtain qs j ms rs where q: "ps = qs @ (j, ms) # rs" "n + length ls + length (lines_of qs) < seq"
      "seq \<le> n + length ls + length (lines_of qs) + length ms"
      "takeWhile (\<lambda>r. \<not> fst r > seq) (starts (n + length ls) ps) \<noteq> []"
      "last (takeWhile (\<lambda>r. \<not> fst r > seq) (starts (n + length ls) ps)) = (n + length ls + length (lines_of qs) + 1, j)"
      using Cons.IH [of "n + length ls"] Cons.prems p by (auto simp: lines_of_def)
    have "takeWhile (\<lambda>r. \<not> fst r > seq) (starts n (p # ps)) =
      (if ls = [] then [] else [(n + 1, i)]) @ takeWhile (\<lambda>r. \<not> fst r > seq) (starts (n + length ls) ps)"
      using p Cons.prems(1) by simp
    then show ?thesis using q p
      by (intro exI [of _ "(i, ls) # qs"] exI [of _ j] exI [of _ ms] exI [of _ rs]) (simp add: lines_of_def add.assoc)
  qed
qed simp

lemma skip_to_line:
  assumes "\<forall>l \<in> set ls. line_ok l \<and> \<not> isl (ae_unmarshal env l)" and "k < length ls"
  shows "skip_to env k (content_of ls @ r) off
    = Inr (projr (ae_unmarshal env (ls ! k)), off + length (content_of (take (k + 1) ls)))"
  using assms
proof (induction k arbitrary: ls off)
  case 0
  then obtain l ms where "ls = l # ms" by (cases ls) auto
  then show ?case using 0 by (auto simp: line_ok_def read_line_of split: sum.splits)
next
  case (Suc k)
  then obtain l ms where l: "ls = l # ms" by (cases ls) auto
  then show ?case using Suc.IH [of ms "off + length l + 1"] Suc.prems by (simp add: line_ok_def read_line_of)
qed

lemma chained_nth:
  "chained env n p ls \<Longrightarrow> k < length ls \<Longrightarrow> \<exists>en. validate_raw env (ls ! k) = Inr en \<and> en_seq en = n + k + 1"
proof (induction ls arbitrary: n p k)
  case (Cons l ls)
  from Cons.prems(1) obtain en where "validate_raw env l = Inr en" "en_seq en = n + 1" "chained env (n + 1) (ae_sha env l) ls"
    by (auto split: sum.splits)
  then show ?case using Cons.IH [of "n + 1" "ae_sha env l" "k - 1"] Cons.prems(2) by (cases k) auto
qed simp

text \<open>What the read cursor must say: where the next line of its file begins.\<close>

definition cursor_ok :: "audit_log \<Rightarrow> parts \<Rightarrow> bool" where
  "cursor_ok L ps \<longleftrightarrow> (case al_cursor L of (s, i, off) \<Rightarrow> (s = 0 \<and> off = 0) \<or>
     (\<exists>qs ls rs. ps = qs @ (i, ls) # rs \<and> length (lines_of qs) < s \<and> s \<le> length (lines_of qs) + length ls
       \<and> off = length (content_of (take (s - length (lines_of qs)) ls))))"

lemma content_take_drop: "drop (length (content_of (take k ls))) (content_of ls) = content_of (drop k ls)"
  by (metis append_eq_conv_conj append_take_drop_id content_of_simps(3))

lemma map_of_disk:
  "distinct (map fst (qs @ (i, ls) # rs)) \<Longrightarrow> map_of (disk_of (qs @ (i, ls) # rs)) i = Some (content_of ls)"
  by (induction qs) (auto simp: disk_of_def)

lemma sorted_distinct: "sorted_wrt (<) (xs :: nat list) \<Longrightarrow> distinct xs"
  by (simp add: strict_sorted_iff)

lemma unique_part:
  assumes "distinct (map fst (qs @ (i, ls) # rs))" and "qs @ (i, ls) # rs = qs' @ (i, ls') # rs'"
  shows "qs = qs' \<and> ls = ls'"
  using assms
proof (induction qs arbitrary: qs')
  case Nil
  then show ?case by (cases qs') auto
next
  case (Cons q qs)
  then obtain q' where q: "qs' = q # q'" by (cases qs') auto
  have "distinct (map fst (qs @ (i, ls) # rs))" using Cons.prems(1) by simp
  moreover have "qs @ (i, ls) # rs = q' @ (i, ls') # rs'" using Cons.prems(2) q by simp
  ultimately have "qs = q' \<and> ls = ls'" by (rule Cons.IH)
  with q show ?case by simp
qed

lemma cursorD:
  assumes "cursor_ok L ps" and "distinct (map fst ps)" and "al_cursor L = (s, i, off)"
    and "ps = qs @ (i, ls) # rs" and "length (lines_of qs) \<le> s"
  shows "off = length (content_of (take (s - length (lines_of qs)) ls))"
  using assms unique_part [of qs i ls rs] by (fastforce simp: cursor_ok_def)

lemma cursor_ok_extend:
  assumes "cursor_ok L ps" and "al_cursor L' = al_cursor L"
  shows "cursor_ok L' (extend j ms ps)"
proof -
  obtain s i off where c: "al_cursor L = (s, i, off)" by (metis prod_cases3)
  show ?thesis
  proof (cases "s = 0 \<and> off = 0")
    case False
    then obtain qs ls rs where q: "ps = qs @ (i, ls) # rs" "length (lines_of qs) < s" "s \<le> length (lines_of qs) + length ls"
       "off = length (content_of (take (s - length (lines_of qs)) ls))"
      using assms(1) c by (auto simp: cursor_ok_def)
    have "\<exists>ls' rs'. extend j ms ps = qs @ (i, ls @ ls') # rs'"
    proof (cases "fst (last ps) = j")
      case True
      then show ?thesis using q(1)
        by (cases rs rule: rev_cases) (auto simp: extend_def butlast_append intro: exI [of _ "[]"])
    next
      case False
      then have "extend j ms ps = qs @ (i, ls @ []) # (rs @ [(j, ms)])" using q(1) by (simp add: extend_def)
      then show ?thesis by blast
    qed
    then obtain ls' rs' where "extend j ms ps = qs @ (i, ls @ ls') # rs'" by blast
    then show ?thesis using q c assms(2) unfolding cursor_ok_def by fastforce
  qed (use c assms(2) in \<open>simp add: cursor_ok_def\<close>)
qed

lemma read_refines:
  assumes ok: "log_ok env L ps" and cur: "cursor_ok L ps" and seq: "0 < seq" "seq \<le> al_seq L"
  shows "\<exists>L'. read_entry env seq (L, disk_of ps) = (Inr (entry_at env ps seq), L') \<and> log_ok env L' ps \<and> cursor_ok L' ps"
proof (cases "seq = al_seq L")
  case True
  then have "lines_of ps \<noteq> []" "seq = length (lines_of ps)" using ok seq by (auto simp: log_ok_def)
  then have "al_last L = Some (entry_at env ps seq)"
    using ok by (simp add: log_ok_def last_entry_def entry_at_def last_conv_nth)
  then show ?thesis using True seq ok cur by (simp add: read_entry_def)
next
  case False
  have sl: "seq \<le> length (lines_of ps)" using ok seq by (simp add: log_ok_def)
  obtain qs i ls rs where ps: "ps = qs @ (i, ls) # rs" and lo: "length (lines_of qs) < seq"
    and hi: "seq \<le> length (lines_of qs) + length ls"
    and rot: "rotation_for seq (al_rotations L) = Some (length (lines_of qs) + 1, i)"
    using find_part [of 0 seq ps] seq sl ok by (auto simp: rotation_for_last log_ok_def)
  let ?n = "length (lines_of qs)"
  have d: "distinct (map fst ps)" and lk: "\<forall>l \<in> set (lines_of ps). line_ok l" and ch: "chained env 0 '''' (lines_of ps)"
    using ok by (simp_all add: log_ok_def parts_ok_def sorted_distinct)
  have fc: "file_content i (disk_of ps) = Some (content_of ls)"
    using map_of_disk d ps by (simp add: file_content_def)
  have lines: "lines_of ps = lines_of qs @ ls @ lines_of rs" using ps by (simp add: lines_of_def)
  have um: "\<exists>en. validate_raw env l = Inr en \<and> ae_unmarshal env l = Inr en" if "l \<in> set ls" for l
    using that lines chained_nth [OF ch] validate_rawD
    by (metis (no_types, opaque_lifting) UnCI in_set_conv_nth set_append)
  have good: "\<forall>l \<in> set (drop k ls). line_ok l \<and> \<not> isl (ae_unmarshal env l)" for k
    using um lk lines by (auto dest!: in_set_dropD) (metis sum.disc(2))
  have nth: "projr (ae_unmarshal env (ls ! (seq - ?n - 1))) = entry_at env ps seq"
  proof -
    have "lines_of ps ! (seq - 1) = ls ! (seq - ?n - 1)"
    proof -
      have "seq - 1 = ?n + (seq - ?n - 1)" "seq - ?n - 1 < length ls" using lo hi by arith+
      then show ?thesis by (metis lines nth_append nth_append_length_plus)
    qed
    then show ?thesis using um [of "ls ! (seq - ?n - 1)"] lo hi by (auto simp: entry_at_def)
  qed
  obtain cs ci coff where c: "al_cursor L = (cs, ci, coff)" by (metis prod_cases3)
  let ?k = "if cs + 1 = seq \<and> ci = i then seq - ?n - 1 else 0"
  let ?off = "if cs + 1 = seq \<and> ci = i then coff else 0"
  let ?start = "if cs + 1 = seq \<and> ci = i then seq else ?n + 1"
  have off: "?off = length (content_of (take ?k ls))"
    using cursorD [OF cur d _ ps] lo c by auto
  have skip: "skip_to env (seq - ?start) (drop ?off (content_of ls)) ?off
    = Inr (entry_at env ps seq, length (content_of (take (seq - ?n) ls)))"
  proof -
    have k: "seq - ?start < length (drop ?k ls)" "?k + (seq - ?start) = seq - ?n - 1" using lo hi by auto
    have "drop ?off (content_of ls) = content_of (drop ?k ls)" unfolding off by (rule content_take_drop)
    then have "skip_to env (seq - ?start) (drop ?off (content_of ls)) ?off
      = Inr (projr (ae_unmarshal env (drop ?k ls ! (seq - ?start))), ?off + length (content_of (take (seq - ?start + 1) (drop ?k ls))))"
      using skip_to_line [OF good k(1), of "[]"] by simp
    moreover have "drop ?k ls ! (seq - ?start) = ls ! (seq - ?n - 1)" using k by (simp add: nth_drop)
    moreover have "?off + length (content_of (take (seq - ?start + 1) (drop ?k ls))) = length (content_of (take (seq - ?n) ls))"
    proof -
      have "take ?k ls @ take (seq - ?start + 1) (drop ?k ls) = take (seq - ?n) ls"
        using k(2) lo by (metis Suc_diff_Suc Suc_eq_plus1 add.assoc diff_Suc_1 diff_diff_left take_add zero_less_diff)
      then show ?thesis unfolding off by (metis content_of_simps(3) length_append)
    qed
    ultimately show ?thesis using nth by simp
  qed
  let ?L = "L\<lparr>al_cursor := (seq, i, length (content_of (take (seq - ?n) ls)))\<rparr>"
  have "read_entry env seq (L, disk_of ps) = (Inr (entry_at env ps seq), ?L)"
    using skip False seq rot fc c
    by (cases "cs + 1 = seq \<and> ci = i") (auto simp: read_entry_def simp del: skip_to.simps)
  moreover have "log_ok env ?L ps" using ok by (simp add: log_ok_def at_end_def)
  moreover have "cursor_ok ?L ps"
    unfolding cursor_ok_def using ps lo hi by auto
  ultimately show ?thesis by blast
qed

subsection \<open>The token parser ends\<close>

lemma tokens_consumed:
  "value_of n ts = Some (v, r) \<Longrightarrow> length r < length ts"
  "members_of n ts m = Some (m', r) \<Longrightarrow> length r < length ts"
  "elements_of n ts a = Some (a', r) \<Longrightarrow> length r < length ts"
  by (induction n ts and n ts m and n ts a arbitrary: v r and m' r and a' r
      rule: value_of_members_of_elements_of.induct)
    (fastforce split: token.splits option.splits if_splits prod.splits)+

lemma no_tokens: "value_of n [] = None" "members_of n [] m = None" "elements_of n [] a = None"
  by (cases n; simp)+

lemma enough_fuel:
  "2 * length ts + 1 \<le> n \<Longrightarrow> 2 * length ts + 1 \<le> k \<Longrightarrow> value_of n ts = value_of k ts"
  "2 * length ts + 2 \<le> n \<Longrightarrow> 2 * length ts + 2 \<le> k \<Longrightarrow> members_of n ts m = members_of k ts m"
  "2 * length ts + 2 \<le> n \<Longrightarrow> 2 * length ts + 2 \<le> k \<Longrightarrow> elements_of n ts a = elements_of k ts a"
proof (induction n ts and n ts m and n ts a arbitrary: k and k and k rule: value_of_members_of_elements_of.induct)
  case (3 n t ts)
  obtain j where k: "k = Suc j" using "3.prems" by (cases k) auto
  have "t = TOpenObj \<Longrightarrow> members_of n ts [] = members_of j ts []"
    using "3.IH"(1) [of j] "3.prems" k by simp
  moreover have "t = TOpenArr \<Longrightarrow> elements_of n ts [] = elements_of j ts []"
    using "3.IH"(2) [of j] "3.prems" k by simp
  ultimately show ?case unfolding k by (cases t) simp_all
next
  case (6 n t ts m)
  obtain j where k: "k = Suc j" using "6.prems" by (cases k) auto
  show ?case
  proof (cases t)
    case (TStr name)
    show ?thesis
    proof (cases "name \<in> fst ` set m")
      case False
      have v: "value_of n ts = value_of j ts" by (rule "6.IH"(1) [OF TStr False]) (use "6.prems" k in simp_all)
      show ?thesis
      proof (cases "value_of j ts")
        case (Some p)
        obtain w r where p: "p = (w, r)" by fastforce
        have len: "length r < length ts" using tokens_consumed(1) Some p by blast
        have "members_of n r (m @ [(name, w)]) = members_of j r (m @ [(name, w)])"
          by (rule "6.IH"(2) [OF TStr False v [unfolded Some] p [symmetric]]) (use len "6.prems" k in simp_all)
        then show ?thesis using TStr False v Some p k by simp
      qed (use TStr False v k in simp)
    qed (use TStr k in simp)
  qed (use k in simp_all)
next
  case (9 n t ts a)
  obtain j where k: "k = Suc j" using "9.prems" by (cases k) auto
  show ?case
  proof (cases "t = TCloseArr")
    case False
    have v: "value_of n (t # ts) = value_of j (t # ts)" by (rule "9.IH"(1) [OF False]) (use "9.prems" k in simp_all)
    show ?thesis
    proof (cases "value_of j (t # ts)")
      case (Some p)
      obtain w r where p: "p = (w, r)" by fastforce
      have len: "length r < length (t # ts)" using tokens_consumed(1) Some p by blast
      have "elements_of n r (a @ [w]) = elements_of j r (a @ [w])"
        by (rule "9.IH"(2) [OF False v [unfolded Some] p [symmetric]]) (use len "9.prems" k in simp_all)
      then show ?thesis using False v Some p k by simp
    qed (use False v k in simp)
  qed (use k in simp)
qed (simp_all add: no_tokens)

subsection \<open>Properties\<close>


text \<open>C26: An append that returns an entry adds exactly its canonical line to the abstract log,
  leaves every line before it in place, and keeps memory and directory in step.\<close>
theorem append_adds_one_line:
  assumes "log_ok env L ps" and "cursor_ok L ps"
    and "append env io time ty body (L, disk_of ps) = (Inr en, L', D')"
    and "ae_unmarshal env (canonical (entry_json en)) = Inr en" and "line_ok (canonical (entry_json en))"
  shows "\<exists>qs. D' = disk_of qs \<and> log_ok env L' qs \<and> cursor_ok L' qs
    \<and> lines_of qs = lines_of ps @ [canonical (entry_json en)]"
  using append_log_ok [OF assms(1,3-5)] cursor_ok_extend [OF assms(2)] by blast


text \<open>Closing and opening a log gives back its sequence number, its head hash, its last
  entry and its rotation table, and does not change a byte on disk.\<close>
theorem reopen_roundtrip:
  assumes "log_ok env L ps"
  shows "\<exists>L'. open_log env no_fault None (disk_of ps) = Inr (L', disk_of ps) \<and> al_seq L' = al_seq L
    \<and> al_prev L' = al_prev L \<and> al_last L' = al_last L \<and> al_rotations L' = al_rotations L"
proof -
  have "parts_ok env ps" using assms by (simp add: log_ok_def)
  from open_log_parts [OF this, of "[]"] have "\<exists>L'. open_log env no_fault None (disk_of ps) = Inr (L', disk_of ps) \<and> log_ok env L' ps"
    by (auto simp: tear_nil max_line_def)
  then show ?thesis using assms by (auto simp: log_ok_def)
qed


text \<open>The sequence number and the head hash of an opened log commit to its whole content:
  two directories that open with the same pair hold the same lines, if no two lines collide
  under the hash.\<close>
theorem head_hash_commits:
  assumes "\<forall>x y. ae_sha env x = ae_sha env y \<longrightarrow> x = y"
    and "open_log env sync torn D1 = Inr (L1, D1')" and "open_log env sync' torn' D2 = Inr (L2, D2')"
    and "al_seq L1 = al_seq L2" and "al_prev L1 = al_prev L2"
  shows "concat (map snd D1') = concat (map snd D2')"
proof -
  obtain ps qs where "D1' = disk_of ps" "D2' = disk_of qs" "lines_of ps = lines_of qs"
    using open_log_sound [OF assms(2)] open_log_sound [OF assms(3)] last_hash_commits [OF assms(1)] assms(4,5) by metis
  moreover have "concat (map snd (disk_of rs)) = content_of (lines_of rs)" for rs
    by (induction rs) (auto simp: disk_of_def lines_of_def)
  ultimately show ?thesis by metis
qed

text \<open>Reading any sequence number of a consistent log, in any order and from any cursor,
  returns the entry on that line, and keeps the log and its cursor consistent.\<close>
theorem read_returns_line:
  assumes "log_ok env L ps" and "cursor_ok L ps" and "0 < seq" and "seq \<le> al_seq L"
  shows "\<exists>L'. read_entry env seq (L, disk_of ps) = (Inr (entry_at env ps seq), L') \<and> log_ok env L' ps \<and> cursor_ok L' ps"
  by (rule read_refines [OF assms])

subsection \<open>A concrete log\<close>

definition demo_entry :: entry where
  "demo_entry = \<lparr>en_seq = 1, en_time = ''t'', en_type = ''error'', en_body = JNull, en_prev = '''', en_sig = ''s''\<rparr>"

definition demo_tokens :: "token list" where
  "demo_tokens = [TOpenObj, TStr ''body'', TNull, TStr ''message_type'', TStr ''error'', TStr ''prev_hash'', TStr '''',
     TStr ''seq'', TNum ''1'', TStr ''sig'', TStr ''s'', TStr ''time'', TStr ''t'', TCloseObj]"

definition demo_env :: audit_env where
  "demo_env = \<lparr>ae_lex = (\<lambda>raw. (demo_tokens, True)), ae_unmarshal = (\<lambda>raw. Inr demo_entry), ae_sha = (\<lambda>s. s),
     ae_sign = (\<lambda>s. ''s''), ae_verify = (\<lambda>m s. s = ''s''), ae_scan = (\<lambda>b. None)\<rparr>"

definition demo_line :: string where "demo_line = canonical (entry_json demo_entry)"

definition demo_log :: audit_log where
  "demo_log = \<lparr>al_seq = 0, al_prev = '''', al_index = 0, al_size = 0, al_rotations = [], al_cursor = (0, 0, 0),
     al_last = None, al_failed = None\<rparr>"

definition no_io :: append_io where "no_io = \<lparr>io_open = None, io_write = None, io_close = None, io_dir = None\<rparr>"

lemma demo_prepared: "prepare_entry demo_env ''t'' ''error'' JNull demo_log = Inr (demo_entry, demo_line)"
  by code_simp

lemma demo_line_facts: "length demo_line = 80 \<and> nl \<notin> set demo_line"
  by code_simp

lemma demo_line_ok: "line_ok demo_line"
  using demo_line_facts by (simp add: line_ok_def max_line_def)

lemma demo_log_ok: "log_ok demo_env demo_log []"
  by (simp add: log_ok_def parts_ok_def at_end_def demo_log_def last_entry_def)

lemma demo_cursor_ok: "cursor_ok demo_log []"
  by (simp add: cursor_ok_def demo_log_def)

lemma demo_unmarshal: "ae_unmarshal demo_env l = Inr demo_entry"
  by (simp add: demo_env_def)

definition demo_log1 :: audit_log where
  "demo_log1 = \<lparr>al_seq = 1, al_prev = demo_line, al_index = 0, al_size = length demo_line + 1, al_rotations = [(1, 0)],
     al_cursor = (0, 0, 0), al_last = Some demo_entry, al_failed = None\<rparr>"

lemma demo_append: "append demo_env no_io ''t'' ''error'' JNull (demo_log, disk_of [])
    = (Inr demo_entry, demo_log1, disk_of [(0, [demo_line])])"
proof -
  have r: "rotate n demo_log = demo_log" for n by (simp add: rotate_def demo_log_def)
  show ?thesis
    by (simp only: append_def prod.case demo_prepared sum.case option.case Let_def r)
      (simp add: demo_log_def demo_log1_def no_io_def demo_env_def)
qed

lemma demo_valid: "validate_raw demo_env demo_line = Inr demo_entry"
  by code_simp

lemma demo_log1_ok: "log_ok demo_env demo_log1 [(0, [demo_line])]"
  using demo_valid
  by (simp add: log_ok_def parts_ok_def at_end_def demo_log1_def last_entry_def demo_line_ok demo_entry_def) (simp add: demo_env_def)

lemma demo_open: "open_log demo_env no_fault None (disk_of [(0, [demo_line])]) = Inr (demo_log1, disk_of [(0, [demo_line])])"
proof -
  let ?st = "\<lparr>ch_seq = 0, ch_prev = '''', ch_last = None, ch_offset = 0\<rparr>"
  have "chained demo_env (ch_seq ?st) (ch_prev ?st) [demo_line]" using demo_valid by (simp add: demo_entry_def)
  from scan_lines_content [OF _ this, of "[]" True]
  have "scan_lines demo_env True (demo_line @ [nl]) ?st
    = Inr (\<lparr>ch_seq = 1, ch_prev = demo_line, ch_last = Some demo_entry, ch_offset = length demo_line + 1\<rparr>, None)"
    using demo_line_ok demo_valid by (simp add: max_line_def last_entry_def) (simp add: demo_env_def)
  then show ?thesis by (simp add: open_log_def no_fault_def Let_def demo_log1_def)
qed

theorem append_adds_one_line_witness:
  "\<exists>qs. disk_of [(0, [demo_line])] = disk_of qs \<and> log_ok demo_env demo_log1 qs \<and> cursor_ok demo_log1 qs
    \<and> lines_of qs = lines_of [] @ [canonical (entry_json demo_entry)]"
  by (rule append_adds_one_line [OF demo_log_ok demo_cursor_ok demo_append])
    (simp_all add: demo_unmarshal demo_line_ok [unfolded demo_line_def])


theorem reopen_roundtrip_witness:
  "\<exists>L'. open_log demo_env no_fault None (disk_of [(0, [demo_line])]) = Inr (L', disk_of [(0, [demo_line])])
    \<and> al_seq L' = al_seq demo_log1 \<and> al_prev L' = al_prev demo_log1 \<and> al_last L' = al_last demo_log1
    \<and> al_rotations L' = al_rotations demo_log1"
  by (rule reopen_roundtrip [OF demo_log1_ok])


theorem head_hash_commits_witness:
  "concat (map snd (disk_of [(0, [demo_line])])) = concat (map snd (disk_of [(0, [demo_line])]))"
  by (rule head_hash_commits [OF _ demo_open demo_open refl refl]) (simp add: demo_env_def)

theorem read_returns_line_witness:
  "\<exists>L'. read_entry demo_env 1 (demo_log1, disk_of [(0, [demo_line])]) = (Inr (entry_at demo_env [(0, [demo_line])] 1), L')
    \<and> log_ok demo_env L' [(0, [demo_line])] \<and> cursor_ok L' [(0, [demo_line])]"
  by (rule read_returns_line [OF demo_log1_ok]) (simp_all add: cursor_ok_def demo_log1_def)

end
