(* ===== verification/CensusProps.thy ===== *)
theory CensusProps
  imports Census
begin

text \<open>
  Properties of the content census: the planned read set stays within its budget and depends on
  the set of members only, the binding fixes every commitment, and the facts of a run always
  pass the coverage check that the backend applies to them.
\<close>

subsection \<open>The planned read set\<close>

lemma plan_subset: "set (plan_greedy p rem ms) \<subseteq> mb_identity ` set ms"
  by (induction p rem ms rule: plan_greedy.induct) (auto simp: Let_def)

lemma plan_length: "length (plan_greedy p rem ms) \<le> length ms"
  by (induction p rem ms rule: plan_greedy.induct) (auto simp: Let_def)

definition plan_cost :: "policy \<Rightarrow> string list \<Rightarrow> member list \<Rightarrow> int" where
  "plan_cost p plan ms = sum_list (map (read_cost p) (filter (\<lambda>m. mb_identity m \<in> set plan) ms))"

lemma plan_cost_absent: "mb_identity m \<notin> mb_identity ` set ms \<Longrightarrow> plan_cost p (mb_identity m # ids) ms = plan_cost p ids ms"
  unfolding plan_cost_def
  by (rule arg_cong [of _ _ "\<lambda>xs. sum_list (map (read_cost p) xs)"], rule filter_cong [OF refl]) (metis imageI list.set_intros set_ConsD)

lemma plan_within:
  "distinct (map mb_identity ms) \<Longrightarrow> 0 \<le> rem \<Longrightarrow> 0 \<le> plan_cost p (plan_greedy p rem ms) ms
    \<and> plan_cost p (plan_greedy p rem ms) ms \<le> rem \<and> distinct (plan_greedy p rem ms)
    \<and> (\<forall>m \<in> set ms. mb_identity m \<notin> set (plan_greedy p rem ms) \<longrightarrow> 0 \<le> read_cost p m
        \<longrightarrow> rem < plan_cost p (plan_greedy p rem ms) ms + read_cost p m)"
proof (induction p rem ms rule: plan_greedy.induct)
  case (2 p rem m ms)
  let ?c = "read_cost p m"
  have absent: "mb_identity m \<notin> mb_identity ` set ms" and d: "distinct (map mb_identity ms)" using "2.prems"(1) by auto
  show ?case
  proof (cases "0 \<le> ?c \<and> ?c \<le> rem")
    case True
    let ?q = "plan_greedy p (rem - ?c) ms"
    have q: "plan_greedy p rem (m # ms) = mb_identity m # ?q" using True by (simp add: Let_def)
    have IH: "0 \<le> plan_cost p ?q ms \<and> plan_cost p ?q ms \<le> rem - ?c \<and> distinct ?q
      \<and> (\<forall>m \<in> set ms. mb_identity m \<notin> set ?q \<longrightarrow> 0 \<le> read_cost p m \<longrightarrow> rem - ?c < plan_cost p ?q ms + read_cost p m)"
      using "2.IH"(1) [OF refl True d] True by simp
    have "mb_identity m \<notin> set ?q" using plan_subset absent by blast
    moreover have "plan_cost p (mb_identity m # ?q) (m # ms) = ?c + plan_cost p ?q ms"
      using plan_cost_absent [OF absent, of p ?q] by (simp add: plan_cost_def)
    ultimately show ?thesis unfolding q using IH True by auto
  next
    case False
    let ?q = "plan_greedy p rem ms"
    have q: "plan_greedy p rem (m # ms) = ?q" using False by (auto simp: Let_def)
    have IH: "0 \<le> plan_cost p ?q ms \<and> plan_cost p ?q ms \<le> rem \<and> distinct ?q
      \<and> (\<forall>m \<in> set ms. mb_identity m \<notin> set ?q \<longrightarrow> 0 \<le> read_cost p m \<longrightarrow> rem < plan_cost p ?q ms + read_cost p m)"
      using "2.IH"(2) [OF refl False d] "2.prems"(2) by simp
    have "mb_identity m \<notin> set ?q" using plan_subset absent by blast
    then have "plan_cost p ?q (m # ms) = plan_cost p ?q ms" by (simp add: plan_cost_def)
    then show ?thesis unfolding q using IH False by auto
  qed
qed (simp add: plan_cost_def)

lemma plan_cost_mset:
  assumes "mset ms = mset ns"
  shows "plan_cost p plan ms = plan_cost p plan ns"
proof -
  have "mset (map (read_cost p) (filter (\<lambda>m. mb_identity m \<in> set plan) ms))
      = mset (map (read_cost p) (filter (\<lambda>m. mb_identity m \<in> set plan) ns))"
    using assms by simp
  then show ?thesis unfolding plan_cost_def by (metis sum_mset_sum_list)
qed

lemma ranked_mset: "mset (ranked mac seed ms) = mset (filter (\<lambda>m. \<not> supported (mb_format m)) ms)"
  by (simp add: ranked_def)

lemma ranked_cong:
  assumes "mset ms = mset ns" and "distinct (map mb_identity ms)"
  shows "ranked mac seed ms = ranked mac seed ns"
proof -
  let ?f = "filter (\<lambda>m. \<not> supported (mb_format m))"
  let ?k = "\<lambda>m. (mac seed (mb_identity m), mb_identity m)"
  have "inj_on ?k (set (?f ms))" using assms(2) by (auto simp: distinct_map inj_on_def)
  moreover have "mset (?f ms) = mset (sort_key ?k (?f ns))" using assms(1) by simp
  ultimately show ?thesis unfolding ranked_def by (intro sort_key_inj_key_eq) simp_all
qed

text \<open>The planned members of a census cost no more than the signed budget, every member
  left out would have exceeded it, and the plan is the same whatever order the members come in.\<close>
theorem planned_read_set_budget:
  assumes "distinct (map mb_identity ms)" and "0 \<le> po_planned p" and "mset ms = mset ns"
  shows "plan_cost p (planned_read_set mac seed ms p) (filter (\<lambda>m. \<not> supported (mb_format m)) ms) \<le> po_planned p
    \<and> (\<forall>m \<in> set ms. \<not> supported (mb_format m) \<longrightarrow> mb_identity m \<notin> set (planned_read_set mac seed ms p) \<longrightarrow> 0 \<le> read_cost p m
        \<longrightarrow> po_planned p < plan_cost p (planned_read_set mac seed ms p) (filter (\<lambda>m. \<not> supported (mb_format m)) ms) + read_cost p m)
    \<and> planned_read_set mac seed ns p = planned_read_set mac seed ms p"
proof -
  let ?r = "ranked mac seed ms"
  have "distinct (map mb_identity ?r)"
    using assms(1) ranked_mset [of mac seed ms] by (metis distinct_map_filter mset_map mset_eq_imp_distinct_iff)
  note w = plan_within [OF this assms(2), of p]
  have c: "plan_cost p plan ?r = plan_cost p plan (filter (\<lambda>m. \<not> supported (mb_format m)) ms)" for plan
    by (rule plan_cost_mset) (rule ranked_mset)
  have s: "set ?r = {m \<in> set ms. \<not> supported (mb_format m)}" by (simp add: ranked_def)
  show ?thesis using w unfolding planned_read_set_def ranked_cong [OF assms(3,1), symmetric] c s by auto
qed

subsection \<open>Framing\<close>

lemma length_be_bytes [simp]: "length (be_bytes k n) = k"
  by (induction k arbitrary: n) auto

lemma be_bytes_inj:
  "0 \<le> a \<Longrightarrow> a < 256 ^ k \<Longrightarrow> 0 \<le> b \<Longrightarrow> b < 256 ^ k \<Longrightarrow> be_bytes k a = be_bytes k b \<Longrightarrow> a = b"
proof (induction k arbitrary: a b)
  case (Suc k)
  have "be_bytes k (a div 256) = be_bytes k (b div 256)" and c: "char_of (nat (a mod 256)) = (char_of (nat (b mod 256)) :: char)"
    using Suc.prems(5) by simp_all
  moreover have "0 \<le> a div 256" "a div 256 < 256 ^ k" "0 \<le> b div 256" "b div 256 < 256 ^ k"
    using Suc.prems by (auto simp: pos_imp_zdiv_nonneg_iff div_less_iff_less_mult)
  ultimately have "a div 256 = b div 256" using Suc.IH by blast
  moreover have "a mod 256 = b mod 256"
  proof -
    have "of_char (char_of (nat (a mod 256)) :: char) = (of_char (char_of (nat (b mod 256)) :: char) :: nat)" using c by simp
    then have "nat (a mod 256) = nat (b mod 256)" by (simp add: nat_less_iff take_bit_nat_eq_self_iff)
    then show ?thesis by (metis eq_nat_nat_iff pos_mod_sign zero_less_numeral)
  qed
  ultimately show ?case by (metis div_mult_mod_eq)
qed simp

lemma frame_bytes_inj:
  assumes "int (length a) < 2 ^ 64" and "int (length b) < 2 ^ 64" and "frame_bytes a @ r = frame_bytes b @ s"
  shows "a = b \<and> r = s"
proof -
  have e: "u64_bytes (int (length a)) @ (a @ r) = u64_bytes (int (length b)) @ (b @ s)"
    using assms(3) by (simp add: frame_bytes_def)
  then have u: "u64_bytes (int (length a)) = u64_bytes (int (length b))" and t: "a @ r = b @ s"
    by (auto simp: u64_bytes_def append_eq_append_conv)
  have p: "(256 :: int) ^ 8 = 2 ^ 64" by simp
  have "int (length a) = int (length b)"
    using be_bytes_inj [of "int (length a)" 8 "int (length b)"] assms(1,2) u unfolding u64_bytes_def p by simp
  then show ?thesis using t by simp
qed

definition commitment_fits :: "commitment \<Rightarrow> bool" where
  "commitment_fits c \<longleftrightarrow> length (cm_digest c) = 32"

lemma census_tags_short: "t \<in> set census_tags \<Longrightarrow> int (length t) < 2 ^ 64"
  by (auto simp: census_tags_def)

lemma member_frame_inj:
  assumes "member_frame m cs = Inr x" and "member_frame m cs' = Inr y" and "x @ r = y @ s"
    and "map_of cs (mb_identity m) = Some c" and "map_of cs' (mb_identity m) = Some c'"
    and "commitment_fits c" and "commitment_fits c'"
  shows "c = c' \<and> r = s"
proof (cases "supported (mb_format m)")
  case True
  then have t: "cm_tag c = ''full''" "cm_tag c' = ''full''"
    and "x = (frame_bytes (mb_identity m) @ u64_bytes (mb_size m)) @ cm_digest c"
    and "y = (frame_bytes (mb_identity m) @ u64_bytes (mb_size m)) @ cm_digest c'"
    using assms(1,2,4,5) by (auto simp: member_frame_def Let_def split: if_splits)
  then have "cm_digest c @ r = cm_digest c' @ s" using assms(3) by simp
  then show ?thesis using assms(6,7) t by (auto simp: commitment_fits_def append_eq_append_conv intro: commitment.equality)
next
  case False
  then have t: "cm_tag c \<in> set census_tags" "cm_tag c' \<in> set census_tags"
    and "x = (frame_bytes (mb_identity m) @ u64_bytes (mb_size m)) @ frame_bytes (cm_tag c) @ frame_bytes (cm_digest c)"
    and "y = (frame_bytes (mb_identity m) @ u64_bytes (mb_size m)) @ frame_bytes (cm_tag c') @ frame_bytes (cm_digest c')"
    using assms(1,2,4,5) by (auto simp: member_frame_def Let_def split: if_splits)
  then have "frame_bytes (cm_tag c) @ (frame_bytes (cm_digest c) @ r) = frame_bytes (cm_tag c') @ (frame_bytes (cm_digest c') @ s)"
    using assms(3) by simp
  then have tag: "cm_tag c = cm_tag c'" "frame_bytes (cm_digest c) @ r = frame_bytes (cm_digest c') @ s"
    using frame_bytes_inj census_tags_short t by blast+
  have "int (length (cm_digest c)) < 2 ^ 64" "int (length (cm_digest c')) < 2 ^ 64"
    using assms(6,7) by (simp_all add: commitment_fits_def)
  then have "cm_digest c = cm_digest c' \<and> r = s" using frame_bytes_inj tag(2) by blast
  then show ?thesis using tag(1) by (auto intro: commitment.equality)
qed

definition fits_all :: "(string \<times> commitment) list \<Rightarrow> bool" where
  "fits_all cs \<longleftrightarrow> list_all (\<lambda>(i, c). commitment_fits c) cs"

lemma member_frames_inj:
  "fits_all cs \<Longrightarrow> fits_all cs' \<Longrightarrow> member_frames ms cs = Inr x \<Longrightarrow> member_frames ms cs' = Inr y \<Longrightarrow> x = y
    \<Longrightarrow> \<forall>m \<in> set ms. map_of cs (mb_identity m) = map_of cs' (mb_identity m)"
proof (induction ms arbitrary: x y)
  case (Cons m ms)
  obtain a as where a: "member_frame m cs = Inr a" "member_frames ms cs = Inr as" "x = a @ as"
    using Cons.prems(3) by (auto split: sum.splits)
  obtain b bs where b: "member_frame m cs' = Inr b" "member_frames ms cs' = Inr bs" "y = b @ bs"
    using Cons.prems(4) by (auto split: sum.splits)
  obtain c where c: "map_of cs (mb_identity m) = Some c" using a(1) by (auto simp: member_frame_def split: option.splits)
  obtain c' where c': "map_of cs' (mb_identity m) = Some c'" using b(1) by (auto simp: member_frame_def split: option.splits)
  have f: "commitment_fits c" "commitment_fits c'"
    using Cons.prems(1,2) c c' by (auto simp: fits_all_def list_all_iff dest: map_of_SomeD)
  have e: "a @ as = b @ bs" using a(3) b(3) Cons.prems(5) by simp
  have "c = c' \<and> as = bs" by (rule member_frame_inj [OF a(1) b(1) e c c' f])
  then show ?case using Cons.IH [OF Cons.prems(1,2) a(2) b(2)] c c' by simp
qed simp

text \<open>For the members of one snapshot, the content binding fixes the commitment of every
  member, its tag included: no two assignments of commitments give the same binding, if no two
  inputs collide under the hash.\<close>
theorem content_binding_commits:
  assumes "\<forall>x y. sha x = sha y \<longrightarrow> x = y" and "fits_all cs" and "fits_all cs'"
    and "content_binding_v2 sha members cs = Inr b" and "content_binding_v2 sha members cs' = Inr b"
  shows "\<forall>m \<in> set members. map_of cs (mb_identity m) = map_of cs' (mb_identity m)"
proof -
  obtain x y where "member_frames members cs = Inr x" "member_frames members cs' = Inr y" "sha x = sha y"
    using assms(4,5) by (auto simp: content_binding_v2_def split: sum.splits)
  then show ?thesis using member_frames_inj [OF assms(2,3)] assms(1) by blast
qed

subsection \<open>The coverage check\<close>

lemma contains_population: "0 \<le> n \<Longrightarrow> contains_count (population n) n"
  by (simp add: contains_count_def population_def count_band_def)

lemma check_cells_ok:
  "distinct (map fst cells) \<Longrightarrow> fst ` set cells \<inter> set (cs_seen s) = {} \<Longrightarrow> all_ten cells
    \<Longrightarrow> fst ` set cells \<subseteq> {''fully_read'', ''partly_read'', ''other'', ''unread''} \<Longrightarrow> cs_total s + tally cells \<le> members
    \<Longrightarrow> \<exists>s'. check_cells members cells s = Inr s' \<and> cs_total s' = cs_total s + tally cells
      \<and> cs_unread s' = cs_unread s + get ''unread'' cells \<and> cs_read s' = cs_read s + (tally cells - get ''unread'' cells)"
proof (induction members cells s rule: check_cells.induct)
  case (2 members k n cells s)
  have nn: "all_ten xs \<Longrightarrow> 0 \<le> tally xs" for xs :: counts by (induction xs) (auto simp: all_ten_def)
  let ?s = "s\<lparr>cs_seen := k # cs_seen s, cs_total := cs_total s + n\<rparr>"
  have k: "k \<notin> set (cs_seen s)" "k \<notin> fst ` set cells" "10 \<le> n" "all_ten cells" and d: "distinct (map fst cells)"
    using "2.prems" by (auto simp: all_ten_def)
  have g: "\<not> (n < 10 \<or> n > members - cs_total s \<or> k \<in> set (cs_seen s))"
    using k "2.prems"(5) nn [OF k(4)] by auto
  have rest: "fst ` set cells \<inter> set (k # cs_seen s) = {}" "cs_total s + n + tally cells \<le> members"
    "fst ` set cells \<subseteq> {''fully_read'', ''partly_read'', ''other'', ''unread''}"
    using "2.prems" k by auto
  show ?case
  proof (cases "k = ''unread''")
    case True
    have "get ''unread'' cells = 0" using k(2) True by (intro get_absent) simp
    then show ?thesis
      using "2.IH"(2) [OF g refl _ True d] rest k True g by (simp add: Let_def) force
  next
    case False
    then have l: "k \<in> {''fully_read'', ''partly_read'', ''other''}" using "2.prems"(4) by auto
    show ?thesis using "2.IH"(1) [OF g refl l d] rest k False l g by (simp add: Let_def) force
  qed
qed simp

lemma get_same_set: "distinct (map fst xs) \<Longrightarrow> distinct (map fst ys) \<Longrightarrow> set xs = set ys \<Longrightarrow> get k xs = get k ys"
proof -
  assume "distinct (map fst xs)" "distinct (map fst ys)" "set xs = set ys"
  then have "map_of xs = map_of ys" using map_of_inject_set by blast
  then show "get k xs = get k ys" by (simp only: get_def)
qed

lemma labels: "set read_labels = {''fully_read'', ''partly_read'', ''unread''}"
  by (simp add: read_labels_def)

lemma drop_two: "K \<subseteq> {a, b, c} \<Longrightarrow> K - {a} - {b} \<subseteq> {c}"
  by blast

lemma drop_one: "K \<subseteq> {b} \<Longrightarrow> ({a} \<union> ({a} \<union> K)) - {b} \<subseteq> {a}"
  by blast

lemma merge_read_unread:
  assumes "distinct (map fst m)" and "fst ` set m \<subseteq> set read_labels" and "\<not> length (merge_read m) \<le> 1"
  shows "get ''unread'' (merge_read m) = get ''unread'' m"
proof (cases "low_map m")
  case True
  let ?n = "get ''fully_read'' m + get ''partly_read'' m"
  let ?d = "AList.delete ''partly_read'' (AList.delete ''fully_read'' m)"
  let ?c = "AList.update ''other'' ?n ?d"
  let ?e = "AList.delete ''unread'' (AList.update ''other'' (get ''other'' ?c + get ''unread'' ?c) ?c)"
  have kd: "fst ` set ?d \<subseteq> {''unread''}" unfolding keys_delete by (rule drop_two [OF assms(2) [unfolded labels]])
  have "fst ` set ?e \<subseteq> {''other''}" unfolding keys_delete [of "''unread''"] dom_update by (rule drop_one [OF kd])
  moreover have "distinct (map fst ?e)" using assms(1) by (intro distinct_delete distinct_update)
  ultimately have "length ?e \<le> 1" by (rule keys_one [rotated])
  moreover have "merge_read m = (if get ''unread'' ?c < 10 \<or> ?n < 10 then ?e else ?c)"
    using True by (simp only: merge_read_def Let_def if_True)
  ultimately have m: "merge_read m = ?c"
    using assms(3) by (cases "get ''unread'' ?c < 10 \<or> ?n < 10") (simp_all only: if_True if_False simp_thms)
  show ?thesis unfolding m by (simp add: get_update get_delete)
qed (simp add: merge_read_def)

text \<open>The three read states, as the census counts them.\<close>

abbreviation three :: "int \<Rightarrow> int \<Rightarrow> int \<Rightarrow> counts" where
  "three f p u \<equiv> [(''fully_read'', f), (''partly_read'', p), (''unread'', u)]"

lemma three_facts:
  "distinct (map fst (three f p u))" "fst ` set (three f p u) \<subseteq> set read_labels"
  by (simp_all add: read_labels_def)

lemma read_cells:
  assumes "0 \<le> f" and "0 \<le> p" and "0 \<le> u"
    and "pt_cells (census_partition (three f p u) (f + p + u) True) \<noteq> []"
  defines "cells \<equiv> pt_cells (census_partition (three f p u) (f + p + u) True)"
  shows "distinct (map fst cells) \<and> all_ten cells \<and> tally cells = f + p + u \<and> get ''unread'' cells = u
    \<and> fst ` set cells \<subseteq> {''fully_read'', ''partly_read'', ''other'', ''unread''}"
proof -
  let ?pos = "filter (\<lambda>(k, n). n > 0) (three f p u)"
  have pos: "distinct (map fst ?pos)" "fst ` set ?pos \<subseteq> set read_labels" "\<forall>(k, n) \<in> set ?pos. 0 < n"
    by (auto simp: read_labels_def)
  have t: "tally ?pos = f + p + u" "get ''unread'' ?pos = u" using assms(1-3) by auto
  have c: "cells = sort_key fst (merge_read ?pos)" "\<not> length (merge_read ?pos) \<le> 1"
    using assms(4) unfolding cells_def census_partition_def Let_def by (auto simp only: if_True partition_fact.simps split: if_splits)
  note m = merge_read_ok [OF pos]
  have keys: "fst ` set (merge_read ?pos) \<subseteq> {''fully_read'', ''partly_read'', ''other'', ''unread''}"
  proof (cases "low_map ?pos")
    case True
    then show ?thesis using merge_read_low [OF True pos] by blast
  next
    case False
    then show ?thesis using pos(2) by (auto simp: merge_read_def read_labels_def)
  qed
  have d: "distinct (map fst cells)" using m c(1) by (simp add: distinct_map)
  moreover have "all_ten cells" using m c by (simp add: all_ten_def)
  moreover have "tally cells = f + p + u" using m t c(1) by simp
  moreover have "get ''unread'' cells = u"
    using get_same_set [OF d, of "merge_read ?pos"] merge_read_unread [OF pos(1,2) c(2)] m t(2) c(1) by simp
  moreover have "fst ` set cells \<subseteq> {''fully_read'', ''partly_read'', ''other'', ''unread''}" using keys c(1) by simp
  ultimately show ?thesis by blast
qed

lemma partition_states:
  "pt_population (census_partition counts pop rs) = population pop
    \<and> (pt_state (census_partition counts pop rs) = suppressed \<or> pt_state (census_partition counts pop rs) = ''not_checked''
       \<or> (pt_state (census_partition counts pop rs) = ''checked'' \<and> pt_cells (census_partition counts pop rs) \<noteq> []))"
proof -
  obtain M where M: "M = (if rs then merge_read (filter (\<lambda>(k, n). n > 0) counts) else merge_small (filter (\<lambda>(k, n). n > 0) counts))"
    by blast
  have "sort_key fst M \<noteq> []" if "\<not> length M \<le> 1"
    using that by (metis le_numeral_extra(3) length_sort list.size(3) zero_le_one)
  then show ?thesis
    unfolding census_partition_def Let_def M [symmetric] by (auto simp: finding_state_def)
qed

lemma finish_passes:
  assumes "rw_members r = rw_fully r + rw_partly r + rw_unread r" and "0 \<le> rw_fully r" and "0 \<le> rw_partly r" and "0 \<le> rw_unread r"
    and "rw_fully r + rw_partly r \<le> planned" and "planned \<le> rw_members r"
  shows "validate_census_coverage (finish_census r) (rw_members r) planned = None"
proof -
  let ?n = "rw_members r" and ?p = "read_states r"
  have p: "?p = census_partition (three (rw_fully r) (rw_partly r) (rw_unread r)) (rw_fully r + rw_partly r + rw_unread r) True"
    using assms(1) by (simp add: read_states_def)
  have top: "cc_method (finish_census r) = content_census_v1" "iv_members (cc_inventory (finish_census r)) = population ?n"
    "cv_members (cc_coverage (finish_census r)) = population ?n" "cv_read (cc_coverage (finish_census r)) = ?p"
    "cv_sampled (cc_coverage (finish_census r)) = (rw_fully r \<noteq> ?n)"
    "cc_depth (finish_census r) = (if rw_fully r \<noteq> ?n then ''content_census_sampled_v1'' else ''content_census_complete_v1'')"
    by (simp_all add: finish_census_def coverage_of_def Let_def)
  have n0: "0 \<le> ?n" using assms by linarith
  have full: "rw_fully r = ?n \<Longrightarrow> planned = ?n" using assms by linarith
  have head: "\<not> (?n < 0 \<or> planned < 0 \<or> planned > ?n \<or> content_census_v1 \<noteq> content_census_v1
      \<or> \<not> contains_count (population ?n) ?n \<or> \<not> contains_count (population ?n) ?n)"
    using assms n0 contains_population by auto
  show ?thesis
  proof (cases "pt_state ?p = suppressed \<or> pt_state ?p = ''not_checked''")
    case True
    then show ?thesis using head full by (simp add: validate_census_coverage_def top)
  next
    case False
    then have st: "pt_state ?p = ''checked''" "pt_cells ?p \<noteq> []" "pt_population ?p = population ?n"
      using partition_states unfolding read_states_def by metis+
    let ?z = "\<lparr>cs_total = 0, cs_read = 0, cs_unread = 0, cs_seen = []\<rparr>"
    have rc: "distinct (map fst (pt_cells ?p))" "all_ten (pt_cells ?p)" "tally (pt_cells ?p) = ?n"
      "get ''unread'' (pt_cells ?p) = rw_unread r"
      "fst ` set (pt_cells ?p) \<subseteq> {''fully_read'', ''partly_read'', ''other'', ''unread''}"
      using read_cells [OF assms(2-4) st(2) [unfolded p]] assms(1) unfolding p by auto
    obtain s where s: "check_cells ?n (pt_cells ?p) ?z = Inr s" "cs_total s = ?n" "cs_unread s = rw_unread r"
      "cs_read s = ?n - rw_unread r"
      using check_cells_ok [OF rc(1), of ?z ?n] rc by auto
    have "\<not> (cs_total s \<noteq> ?n \<or> cs_read s > planned \<or> cs_unread s < ?n - planned)" using s assms by linarith
    then show ?thesis
      using head full st False s(1) contains_population [OF n0] by (simp add: validate_census_coverage_def top)
  qed
qed

lemma new_raw_counts:
  "rw_members (fold raw_member ms r) = rw_members r + int (length ms) \<and> rw_fully (fold raw_member ms r) = rw_fully r
    \<and> rw_partly (fold raw_member ms r) = rw_partly r \<and> rw_unread (fold raw_member ms r) = rw_unread r"
  by (induction ms arbitrary: r) (auto simp: raw_member_def)

definition state_count :: "string set \<Rightarrow> (member \<times> member_result) list \<Rightarrow> int" where
  "state_count S xs = int (length (filter (\<lambda>x. mr_state (snd x) \<in> S) xs))"

lemma raw_add_step:
  "rw_members (raw_add x r) = rw_members r
    \<and> rw_fully (raw_add x r) = rw_fully r + (if mr_state (snd x) \<in> {''fully_read''} then 1 else 0)
    \<and> rw_partly (raw_add x r) = rw_partly r + (if mr_state (snd x) \<in> {''partly_read''} then 1 else 0)
    \<and> rw_unread (raw_add x r) = rw_unread r + (if mr_state (snd x) \<in> - {''fully_read'', ''partly_read''} then 1 else 0)"
  by (cases x) (simp add: raw_add_def Let_def)

lemma raw_add_counts:
  "rw_members (fold raw_add xs r) = rw_members r
    \<and> rw_fully (fold raw_add xs r) = rw_fully r + state_count {''fully_read''} xs
    \<and> rw_partly (fold raw_add xs r) = rw_partly r + state_count {''partly_read''} xs
    \<and> rw_unread (fold raw_add xs r) = rw_unread r + state_count (- {''fully_read'', ''partly_read''}) xs"
proof (induction xs arbitrary: r)
  case (Cons x xs)
  have s: "state_count S (x # xs) = (if mr_state (snd x) \<in> S then 1 else 0) + state_count S xs" for S
    by (simp add: state_count_def)
  show ?case unfolding fold_simps s using Cons.IH [of "raw_add x r"] raw_add_step [of x r] by auto
qed (simp add: state_count_def)

lemma state_count_split:
  "state_count {''fully_read''} xs + state_count {''partly_read''} xs = state_count {''fully_read'', ''partly_read''} xs
    \<and> state_count {''fully_read'', ''partly_read''} xs + state_count (- {''fully_read'', ''partly_read''}) xs = int (length xs)"
proof (induction xs)
  case (Cons x xs)
  have s: "state_count S (x # xs) = (if mr_state (snd x) \<in> S then 1 else 0) + state_count S xs" for S
    by (simp add: state_count_def)
  have ne: "''fully_read'' \<noteq> ''partly_read''" by simp
  show ?case unfolding s using Cons.IH ne
    by (cases "mr_state (snd x) = ''fully_read''"; cases "mr_state (snd x) = ''partly_read''") simp_all
qed (simp add: state_count_def)

definition outcomes :: "'o census_env \<Rightarrow> string list \<Rightarrow> member list \<Rightarrow> (member \<times> member_result) list" where
  "outcomes env plan ms = map (\<lambda>m. (m, member_outcome env plan m)) ms"

lemma read_within_plan:
  assumes "distinct (map mb_identity ms)"
  shows "state_count {''fully_read'', ''partly_read''} (outcomes env plan ms) \<le> int (length plan)"
proof -
  have unread: "mr_state (member_outcome env plan m) = ''unread''" if "mb_identity m \<notin> set plan" for m
    using that by (simp add: member_outcome_def unread_result_def)
  have "mr_state (member_outcome env plan m) \<in> {''fully_read'', ''partly_read''} \<Longrightarrow> mb_identity m \<in> set plan" for m
    using unread [of m] by (cases "mb_identity m \<in> set plan") simp_all
  then have "length (filter (\<lambda>m. mr_state (member_outcome env plan m) \<in> {''fully_read'', ''partly_read''}) ms)
    \<le> length (filter (\<lambda>m. mb_identity m \<in> set plan) ms)"
    by (induction ms) auto
  also have "\<dots> = card (set (map mb_identity (filter (\<lambda>m. mb_identity m \<in> set plan) ms)))"
    using assms by (metis distinct_card distinct_map_filter length_map)
  also have "\<dots> \<le> card (set plan)" by (rule card_mono) auto
  also have "\<dots> \<le> length plan" by (rule card_length)
  finally show ?thesis by (simp add: state_count_def outcomes_def filter_map comp_def)
qed

text \<open>Whatever the readers return, the facts of a census run pass the coverage check: the
  published bands and read states always agree with the member count and the plan.\<close>
theorem census_passes_coverage_check:
  assumes "distinct (map mb_identity ms)" and "plan = planned_read_set mac seed ms p"
  shows "validate_census_coverage (finish_census (fold raw_add (outcomes env plan ms) (new_raw ms)))
    (int (length ms)) (int (length plan)) = None"
proof -
  let ?xs = "outcomes env plan ms"
  let ?r = "fold raw_add ?xs (new_raw ms)"
  have c: "rw_members ?r = int (length ms)" "rw_fully ?r = state_count {''fully_read''} ?xs"
    "rw_partly ?r = state_count {''partly_read''} ?xs" "rw_unread ?r = state_count (- {''fully_read'', ''partly_read''}) ?xs"
    using raw_add_counts [of ?xs "new_raw ms"] new_raw_counts [of ms zero_raw] by (simp_all add: new_raw_def zero_raw_def)
  have nn: "0 \<le> state_count S ?xs" for S by (simp add: state_count_def)
  have len: "length ?xs = length ms" by (simp add: outcomes_def)
  have pl: "length plan \<le> length ms"
    unfolding assms(2) planned_read_set_def
    by (rule le_trans [OF plan_length]) (simp add: ranked_def)
  show ?thesis
    unfolding c(1) [symmetric]
    by (rule finish_passes) (use c nn len pl state_count_split [of ?xs] read_within_plan [OF assms(1), of env plan] in auto)
qed

subsection \<open>A concrete census\<close>

definition demo_member :: "string \<Rightarrow> int \<Rightarrow> string \<Rightarrow> member" where
  "demo_member i n f = \<lparr>mb_identity = i, mb_size = n, mb_sha = '''', mb_digest = False, mb_ordering = None,
     mb_format = f, mb_etag = '''', mb_version = ''''\<rparr>"

definition demo_policy :: policy where
  "demo_policy = \<lparr>po_mode = content_census_v1, po_binding = ''planned_read_commitment_v2'', po_budget = 3000000000,
     po_planned = 8, po_allowance = 67108864, po_caps = census_caps, po_patterns = pattern_versions, po_seed = ''s'',
     po_max_memory = 134217728, po_max_facts = 32768, po_custom = False\<rparr>"

definition demo_members :: "member list" where
  "demo_members = [demo_member ''a'' 5 ''txt'', demo_member ''b'' 7 ''pdf'', demo_member ''c'' 3 ''md'']"

theorem planned_read_set_budget_witness:
  "planned_read_set (\<lambda>s i. i) ''s'' (rev demo_members) demo_policy = [''a'', ''c'']"
proof -
  have "distinct (map mb_identity demo_members)" by code_simp
  moreover have "(0 :: int) \<le> po_planned demo_policy" by code_simp
  moreover have "mset demo_members = mset (rev demo_members)" by simp
  ultimately have "planned_read_set (\<lambda>s i. i) ''s'' (rev demo_members) demo_policy
    = planned_read_set (\<lambda>s i. i) ''s'' demo_members demo_policy"
    using planned_read_set_budget by blast
  then show ?thesis by code_simp
qed

definition demo_commitments :: "char \<Rightarrow> (string \<times> commitment) list" where
  "demo_commitments c = map (\<lambda>i. (i, \<lparr>cm_tag = ''full'', cm_digest = replicate 32 c\<rparr>)) [''a'', ''b'', ''c'']"

theorem content_binding_commits_witness:
  "list_all (\<lambda>m. map_of (demo_commitments CHR ''x'') (mb_identity m) = map_of (demo_commitments CHR ''x'') (mb_identity m)) demo_members
    \<and> content_binding_v2 (\<lambda>s. s) demo_members (demo_commitments CHR ''x'') \<noteq> content_binding_v2 (\<lambda>s. s) demo_members (demo_commitments CHR ''y'')"
proof -
  have f: "fits_all (demo_commitments c)" for c by (simp add: fits_all_def demo_commitments_def commitment_fits_def)
  have i: "\<forall>x y. (\<lambda>s :: string. s) x = (\<lambda>s. s) y \<longrightarrow> x = y" by simp
  have ok: "\<not> isl (content_binding_v2 (\<lambda>s. s) demo_members (demo_commitments CHR ''x''))" by code_simp
  then obtain b where b: "content_binding_v2 (\<lambda>s. s) demo_members (demo_commitments CHR ''x'') = Inr b"
    by (cases "content_binding_v2 (\<lambda>s. s) demo_members (demo_commitments CHR ''x'')") auto
  have "list_ex (\<lambda>m. map_of (demo_commitments CHR ''x'') (mb_identity m) \<noteq> map_of (demo_commitments CHR ''y'') (mb_identity m)) demo_members"
    by code_simp
  then have "\<not> (\<forall>m \<in> set demo_members. map_of (demo_commitments CHR ''x'') (mb_identity m) = map_of (demo_commitments CHR ''y'') (mb_identity m))"
    unfolding list_ex_iff by blast
  then have "content_binding_v2 (\<lambda>s. s) demo_members (demo_commitments CHR ''y'') \<noteq> Inr b"
    using content_binding_commits [OF i f f b] by blast
  then show ?thesis unfolding b list_all_iff by metis
qed

definition demo_census_env :: "unit census_env" where
  "demo_census_env = \<lparr>ce_sha = (\<lambda>s. replicate 32 CHR ''h''), ce_mac = (\<lambda>s i. i), ce_hex = (\<lambda>s. s), ce_late = (\<lambda>i. i = ''c''),
     ce_read = (\<lambda>m. (unread_result (\<lambda>s. s) m ''read_error'')\<lparr>mr_state := ''fully_read'', mr_reason := ''''\<rparr>),
     ce_memory_failed = False, ce_head = (\<lambda>i. Inl Timeout), ce_tables = (\<lambda>ms. Inl Unsupported), ce_locator = '''',
     ce_encode = (\<lambda>t a b c. Inl Unsupported), ce_fingerprint = (\<lambda>t a b c. Inl Unsupported)\<rparr>"

theorem census_passes_coverage_check_witness:
  "validate_census_coverage (finish_census (fold raw_add (outcomes demo_census_env [''a'', ''c''] demo_members) (new_raw demo_members))) 3 2 = None"
proof -
  have "distinct (map mb_identity demo_members)" "[''a'', ''c''] = planned_read_set (\<lambda>s i. i) ''s'' demo_members demo_policy"
    by code_simp+
  from census_passes_coverage_check [OF this, of demo_census_env] show ?thesis by (simp add: demo_members_def)
qed

end
