(* ===== verification/Door.thy ===== *)
theory Door
  imports LedgerPrepare Wire LedgerWrite
begin

text \<open>
  internal/door/door.go: the download door. A request is its method, path, authorization and
  range headers and parsed query; a response is status, error code, headers and body. The
  disk, the network, the clock and the storage faults of each ledger call are fields of the
  environment; the ledger calls are the ones of the ledger theories.
\<close>

subsection \<open>Requests and responses\<close>

record http_request =
  hr_method :: string
  hr_path :: string
  hr_auth :: string
  hr_query :: "(string \<times> string) list"
  hr_range :: string

record http_response =
  rp_status :: int
  rp_headers :: "(string \<times> string) list"
  rp_body :: bytes

definition base_headers :: "(string \<times> string) list" where
  "base_headers = [(''Referrer-Policy'', ''no-referrer''), (''Cache-Control'', ''no-store'')]"

text \<open>The JSON error document; the encoder sorts the keys of a map and ends with a newline.\<close>

definition error_document :: "string \<Rightarrow> bytes" where
  "error_document code = canonical (JObj [(''error'', JObj [(''code'', JStr code),
     (''message'', JStr (map (\<lambda>c. if c = CHR ''_'' then CHR '' '' else c) code)), (''details'', JObj [])])]) @ [CHR 0x0A]"

definition fail_with :: "int \<Rightarrow> string \<Rightarrow> (string \<times> string) list \<Rightarrow> http_response" where
  "fail_with status code hs = \<lparr>rp_status = status,
     rp_headers = base_headers @ hs @ [(''Content-Type'', ''application/json'')], rp_body = error_document code\<rparr>"

definition bearer_token :: "http_request \<Rightarrow> gw_error + string" where
  "bearer_token r =
     (let h0 = hr_auth r; has_header = (h0 \<noteq> '''') in
      if has_header \<and> (\<not> has_prefix ''Bearer '' h0 \<or> trim_prefix ''Bearer '' h0 = '''')
      then Inl (ErrMsg ''invalid bearer'')
      else (let h = trim_prefix ''Bearer '' h0; values = map snd (filter (\<lambda>(k, v). k = ''t'') (hr_query r));
                has_query = (values \<noteq> []) in
        if has_query \<and> length values \<noteq> 1 then Inl (ErrMsg ''duplicate token'')
        else (let q = (if has_query then hd values else '''') in
          if has_header \<and> has_query \<and> h \<noteq> q then Inl (ErrMsg ''tokens differ'')
          else if h \<noteq> '''' then Inr h else if q \<noteq> '''' then Inr q
          else Inl (ErrMsg ''missing token''))))"

text \<open>parseRange: first byte, last byte and whether the answer is partial.\<close>

definition parse_range :: "string \<Rightarrow> int \<Rightarrow> gw_error + (int \<times> int \<times> bool)" where
  "parse_range s sz =
     (if sz \<le> 0 then Inl (ErrMsg ''empty file'')
      else if s = '''' then Inr (0, sz - 1, False)
      else if \<not> has_prefix ''bytes='' s \<or> CHR '','' \<in> set s then Inl (ErrMsg ''invalid range'')
      else (case cut (CHR ''-'') (trim_prefix ''bytes='' s) of (a, b, ok) \<Rightarrow>
        if \<not> ok then Inl (ErrMsg ''invalid range'')
        else if a = '''' then
          (case parse_int b of None \<Rightarrow> Inl (ErrMsg ''invalid suffix'')
           | Some n \<Rightarrow> if n \<le> 0 then Inl (ErrMsg ''invalid suffix'') else Inr (max 0 (sz - n), sz - 1, True))
        else
          (case parse_int a of None \<Rightarrow> Inl (ErrMsg ''invalid start'')
           | Some start \<Rightarrow>
             if start < 0 \<or> start \<ge> sz then Inl (ErrMsg ''invalid start'')
             else if b = '''' then Inr (start, sz - 1, True)
             else (case parse_int b of None \<Rightarrow> Inl (ErrMsg ''invalid end'')
               | Some e \<Rightarrow> if e < start then Inl (ErrMsg ''invalid end'') else Inr (start, min e (sz - 1), True)))))"

definition safe_char :: "char \<Rightarrow> bool" where
  "safe_char c \<longleftrightarrow> \<not> (c = CHR 0x22 \<or> c = CHR 0x5C \<or> (of_char c :: nat) < 32)"

text \<open>safeName: the last path element of a Unix path without control characters, quotes and backslashes.\<close>

definition base_name :: "string \<Rightarrow> string" where
  "base_name s = (if s = '''' then ''.'' else
     (let parts = filter (\<lambda>p. p \<noteq> []) (split_on (CHR ''/'') s) in if parts = [] then ''/'' else last parts))"

definition safe_name :: "string \<Rightarrow> string" where
  "safe_name s = (let t = filter safe_char (base_name s) in if t = '''' \<or> t = ''.'' then ''download'' else t)"

subsection \<open>The environment of a download\<close>

text \<open>The file as the operating system shows it: opening the root and the file, its kind and
  size, and the k-th read at an offset, with the bytes and whether it ended without error.\<close>

record file_io =
  fo_root :: bool
  fo_open :: bool
  fo_stat :: "(bool \<times> int) option"
  fo_read :: "nat \<Rightarrow> int \<Rightarrow> nat \<Rightarrow> bytes \<times> bool"

record 'k door_env =
  dr_gid :: string
  dr_config :: config
  dr_crypto :: "'k crypto"
  dr_decoders :: decoders
  dr_keys :: "(string \<times> bytes) list"
  dr_private :: 'k
  dr_kid :: string
  dr_glob :: "string \<Rightarrow> string \<Rightarrow> bool"
  dr_real :: "string \<Rightarrow> string option"
  dr_sha :: "bytes \<Rightarrow> bytes"
  dr_sign :: signer
  dr_now :: int
  dr_offer_fault :: "gw_error option"
  dr_perm_fault :: "gw_error option"
  dr_file_fault :: "gw_error option"
  dr_close_fault :: bool
  dr_mark_fault :: bool
  dr_stamp :: "nat \<Rightarrow> string"
  dr_clock :: "nat \<Rightarrow> int"
  dr_tx :: "gw_error option \<times> gw_error option"
  dr_settle_tx :: "gw_error option \<times> gw_error option"
  dr_io :: file_io
  dr_net :: "nat \<Rightarrow> writer"
  dr_wclock :: "nat \<Rightarrow> write_clock"
  dr_wtx :: "nat \<Rightarrow> faults \<times> gw_error option \<times> gw_error option"
  dr_retries :: "(gw_error option \<times> gw_error option) list"

definition mark_file :: "'k door_env \<Rightarrow> string \<Rightarrow> ledger \<Rightarrow> ledger" where
  "mark_file env fid L = (if dr_mark_fault env then L else mark_changed fid L)"

text \<open>readBlock: the block around a position, verified against the hash taken at inventory.\<close>

definition read_block :: "'k door_env \<Rightarrow> file_row \<Rightarrow> nat \<Rightarrow> int \<Rightarrow> (int \<times> bytes) option" where
  "read_block env f k pos =
     (let index = pos div window; start = index * window; len = nat (min window (fl_size f - start));
          (b, ok) = fo_read (dr_io env) k start len in
      if ok \<and> length b = len \<and> index < int (length (fl_hashes f)) \<and> dr_sha env b = fl_hashes f ! nat index
      then Some (start, b) else None)"

text \<open>Whether a call of WriteChunk gets as far as the network.\<close>

definition reaches_network :: "string \<Rightarrow> write_clock \<Rightarrow> int \<Rightarrow> bytes \<Rightarrow> ledger \<Rightarrow> bool" where
  "reaches_network at wc i data L =
     (case joined_request i L of None \<Rightarrow> False
      | Some (r, p) \<Rightarrow> (case file_of (pr_fid p) L of None \<Rightarrow> False
         | Some f \<Rightarrow> write_refusal at wc r p f data L = None \<and> wc_loop wc 0 < pr_td p))"

text \<open>What a transfer ends with: the outcome for the receipt, whether to settle now, a late
  refusal when no byte was committed, the body and the ledger.\<close>

record transfer =
  tr_outcome :: string
  tr_settle :: bool
  tr_late :: "(int \<times> string) option"
  tr_committed :: bool
  tr_body :: bytes
  tr_ledger :: ledger

text \<open>\<open>errors.Is\<close>: a failed checkpoint is joined with the error that caused it.\<close>

definition is_err :: "gw_error \<Rightarrow> gw_error option \<Rightarrow> bool" where
  "is_err x e \<longleftrightarrow> e = Some x \<or> e = Some (ErrProgress x)"

definition late_refusal :: "bool \<Rightarrow> gw_error option \<Rightarrow> (int \<times> string) option" where
  "late_refusal committed e =
     (if committed then None else if is_err ErrDeadline e then Some (403, ''permission_expired'')
      else if is_err ErrClosed e then Some (403, ''permission_closed'') else None)"

definition chunk_of :: "int \<times> bytes \<Rightarrow> int \<Rightarrow> int \<Rightarrow> bytes" where
  "chunk_of blk pos stop = slice (snd blk) (pos - fst blk) (min (int (length (snd blk))) (stop - fst blk + 1))"

lemma write_loop_range:
  "write_loop sg at wr clk pf td i old data k w c L = (we, w', c', L') \<Longrightarrow> w \<le> w' \<and> w' \<le> max w (int (length data))"
proof (induction sg at wr clk pf td i old data k w c L rule: write_loop.induct)
  case (1 sg at wr clk pf td i old data k w c L)
  show ?case
  proof (cases "w \<ge> int (length data)")
    case True
    then show ?thesis using "1.prems" by (simp add: write_loop.simps)
  next
    case False
    show ?thesis
    proof (cases "write_round sg at wr clk pf td i old data k w c L")
      case (Inl r)
      then have "r = (we, w', c', L')" using "1.prems" False by (simp add: write_loop.simps)
      with Inl show ?thesis by (auto simp: write_round_def Let_def split: if_splits prod.splits sum.splits)
    next
      case (Inr t)
      obtain w1 c1 L1 where t: "t = (w1, c1, L1)" by (metis prod_cases3)
      have lt: "w < w1" "w1 \<le> int (length data)"
        using Inr t by (auto simp: write_round_def Let_def split: if_splits prod.splits sum.splits)
      have "write_loop sg at wr clk pf td i old data (k + 1) w1 c1 L1 = (we, w', c', L')"
        using "1.prems" False Inr t by (simp add: write_loop.simps [of sg at wr clk pf td i old data k])
      from "1.IH" [OF False Inr [unfolded t] refl refl this] lt False show ?thesis by simp
    qed
  qed
qed

lemma write_chunk_range:
  assumes "write_chunk sg at wr wc pf pe i data L = ((n, e), L')"
  shows "0 \<le> n \<and> n \<le> int (length data)"
proof -
  have "0 \<le> w \<and> w \<le> int (length data)"
    if "write_loop sg at wr (wc_loop wc) pf td i old data 0 0 0 L = (we, w, c, L1)" for td old we w c L1
    using write_loop_range [OF that] by simp
  then show ?thesis using assms unfolding write_chunk_def write_finish_def
    by (auto split: option.splits prod.splits write_end.splits sum.splits if_splits)
qed

subsection \<open>Sending a range\<close>

text \<open>The block in use at a position: the one held, or the next one read and verified.\<close>

definition current_block :: "'k door_env \<Rightarrow> file_row \<Rightarrow> nat \<Rightarrow> int \<times> bytes \<Rightarrow> int \<Rightarrow> (int \<times> bytes) option" where
  "current_block env f k blk pos =
     (if pos \<ge> fst blk + int (length (snd blk)) then read_block env f k pos else Some blk)"

definition is_progress :: "gw_error option \<Rightarrow> bool" where
  "is_progress e = (case e of Some (ErrProgress _) \<Rightarrow> True | _ \<Rightarrow> False)"

text \<open>One WriteChunk: the response is committed once a byte is offered to the network, and the
  body grows by what the call reports as written.\<close>

definition send_chunk :: "'k door_env \<Rightarrow> int \<Rightarrow> int \<Rightarrow> nat \<Rightarrow> int \<times> bytes \<Rightarrow> int \<Rightarrow> transfer
    \<Rightarrow> (int \<times> gw_error option) \<times> transfer" where
  "send_chunk env i stop k blk pos t =
     (let data = chunk_of blk pos stop;
          ((n, e), L') = write_chunk (dr_sign env) (dr_stamp env (k + 4)) (dr_net env k) (dr_wclock env k)
            (fst (dr_wtx env k)) (snd (dr_wtx env k)) i data (tr_ledger t) in
      ((n, e), t\<lparr>tr_ledger := L', tr_body := tr_body t @ take (nat n) data,
         tr_committed := tr_committed t
           \<or> reaches_network (dr_stamp env (k + 4)) (dr_wclock env k) i data (tr_ledger t),
         tr_outcome := (if is_err ErrDeadline e then ''aborted_deadline'' else tr_outcome t),
         tr_settle := tr_settle t \<and> \<not> is_progress e\<rparr>))"

lemma send_chunk_range:
  "send_chunk env i stop k blk pos t = ((n, e), t') \<Longrightarrow> 0 \<le> n \<and> n \<le> int (length (chunk_of blk pos stop))"
  by (auto simp: send_chunk_def Let_def split: prod.splits dest: write_chunk_range)

text \<open>
  The two nested loops of download as one: a round verifies the next block when the held one is
  used up, then offers the rest of the block to WriteChunk. An error or an empty write ends
  the transfer; so does a block that is not the inventoried one.
\<close>

function serve_loop :: "'k door_env \<Rightarrow> file_row \<Rightarrow> int \<Rightarrow> int \<Rightarrow> nat \<Rightarrow> int \<times> bytes \<Rightarrow> int \<Rightarrow> transfer \<Rightarrow> transfer" where
  "serve_loop env f i stop k blk pos t =
     (if pos > stop then t
      else case current_block env f k blk pos of
          None \<Rightarrow> t\<lparr>tr_outcome := ''aborted_block_mismatch'', tr_ledger := mark_file env (fl_fid f) (tr_ledger t)\<rparr>
        | Some blk' \<Rightarrow>
          (case send_chunk env i stop k blk' pos t of ((n, e), t') \<Rightarrow>
            if e \<noteq> None \<or> n = 0 then t'\<lparr>tr_late := late_refusal (tr_committed t') e\<rparr>
            else serve_loop env f i stop (k + 1) blk' (pos + n) t'))"
  by pat_completeness auto
termination
  by (relation "measure (\<lambda>(env, f, i, stop, k, blk, pos, t). nat (stop + 1 - pos))")
    (auto dest!: sym [where t = "send_chunk _ _ _ _ _ _ _"] dest: send_chunk_range)

declare serve_loop.simps [simp del]

subsection \<open>The end of a transfer\<close>

text \<open>A failed checkpoint: conservative crash settlement is tried at most six times.\<close>

fun recover_attempts :: "signer \<Rightarrow> string \<Rightarrow> int \<Rightarrow> (gw_error option \<times> gw_error option) list \<Rightarrow> ledger \<Rightarrow> ledger" where
  "recover_attempts sg at i [] L = L"
| "recover_attempts sg at i ((be, ce) # fs) L =
     (case recover_request be ce sg at i L of (Inr _, L') \<Rightarrow> L'
      | (Inl _, L') \<Rightarrow> recover_attempts sg at i fs L')"

definition settle_now :: "'k door_env \<Rightarrow> int \<Rightarrow> string \<Rightarrow> ledger \<Rightarrow> ledger" where
  "settle_now env i outcome L = snd (settle_outcome (fst (dr_settle_tx env)) (snd (dr_settle_tx env))
     (dr_sign env) (dr_stamp env 3) i outcome L)"

definition conclude :: "'k door_env \<Rightarrow> int \<Rightarrow> transfer \<Rightarrow> ledger" where
  "conclude env i t =
     (if tr_settle t then settle_now env i (tr_outcome t) (tr_ledger t)
      else recover_attempts (dr_sign env) (dr_stamp env 3) i (take 6 (dr_retries env)) (tr_ledger t))"

subsection \<open>Download\<close>

text \<open>The status and code of a refusal, with the ledger it leaves.\<close>

type_synonym http_refusal = "int \<times> string \<times> ledger"

definition check_request :: "'k door_env \<Rightarrow> string \<Rightarrow> http_request \<Rightarrow> (int \<times> string) + permission" where
  "check_request env fid r =
     (case bearer_token r of Inl _ \<Rightarrow> Inl (401, ''invalid_permission'')
      | Inr raw \<Rightarrow>
        (case verify_permission (dr_crypto env) (dr_decoders env) raw (dr_keys env) of
           Inl _ \<Rightarrow> Inl (401, ''invalid_permission'')
         | Inr p \<Rightarrow>
           if p_aud p \<noteq> dr_gid env then Inl (403, ''wrong_audience'')
           else if p_fid p \<noteq> fid then Inl (403, ''wrong_file'')
           else Inr p))"

text \<open>A look-up as QueryRow gives it: the storage fault, or ErrNoRows when there is no row.\<close>

definition query :: "gw_error option \<Rightarrow> 'a option \<Rightarrow> gw_error + 'a" where
  "query fault row = (case fault of Some e \<Rightarrow> Inl e | None \<Rightarrow> (case row of None \<Rightarrow> Inl ErrNoRows | Some x \<Rightarrow> Inr x))"

definition is_bound :: "permission \<Rightarrow> gw_error + perm_row \<Rightarrow> bool" where
  "is_bound p s = (case s of Inl _ \<Rightarrow> False
     | Inr r \<Rightarrow> pr_state r = ''bound'' \<and> pr_oid r = p_oid p \<and> pr_fid r = p_fid p \<and> pr_sha r = p_sha p)"

definition hard_error :: "gw_error + 'a \<Rightarrow> bool" where
  "hard_error q = (case q of Inl e \<Rightarrow> e \<noteq> ErrNoRows | Inr _ \<Rightarrow> False)"

definition stands_offered :: "gw_error + offer_row \<Rightarrow> bool" where
  "stands_offered q = (case q of Inl _ \<Rightarrow> False
     | Inr x \<Rightarrow> of_state x = ''offered'' \<and> of_key_class x = ''listing'')"

definition approved_locally :: "gw_error + offer_row \<Rightarrow> bool" where
  "approved_locally q = (case q of Inl _ \<Rightarrow> False | Inr x \<Rightarrow> of_approved_at x \<noteq> None)"

definition closed_row :: "permission \<Rightarrow> gw_error + perm_row \<Rightarrow> bool" where
  "closed_row p s = (case s of Inl _ \<Rightarrow> False
     | Inr r \<Rightarrow> pr_state r = ''closed'' \<or> pr_state r = ''revoked'' \<or> pr_oid r \<noteq> p_oid p
         \<or> pr_fid r \<noteq> p_fid p \<or> pr_sha r \<noteq> p_sha p)"

text \<open>The checks between the permission and the range, in the order of the code.\<close>

definition admit_download :: "'k door_env \<Rightarrow> permission \<Rightarrow> ledger \<Rightarrow> http_refusal + file_row" where
  "admit_download env p L =
     (let oq = query (dr_offer_fault env) (offer_of (p_fid p) (p_sha p) (p_lvid p) L);
          sq = query (dr_perm_fault env) (permission_of (p_jti p) L);
          bound = is_bound p sq in
      if hard_error oq then Inl (500, ''internal_error'', L)
      else if hard_error sq then Inl (500, ''internal_error'', L)
      else if \<not> bound \<and> \<not> stands_offered oq then Inl (403, ''not_offered'', L)
      else case query (dr_file_fault env) (file_of (p_fid p) L) of
          Inl _ \<Rightarrow> Inl (404, ''file_missing'', L)
        | Inr f \<Rightarrow>
          if file_changed f \<or> fl_sha f \<noteq> p_sha p \<or> \<not> valid_blocks f then Inl (409, ''file_changed'', L)
          else if \<not> within_ceiling (dr_glob env) (dr_real env) (dr_config env) f
            then Inl (403, ''outside_ceiling'', L)
          else if cfg_requires_local_approval (dr_config env) \<and> \<not> approved_locally oq
            then Inl (403, ''awaiting_local_approval'', L)
          else if dr_now env \<ge> p_td p \<or> (\<not> bound \<and> dr_now env \<ge> p_sd p)
            then Inl (403, ''permission_expired'',
              if dr_close_fault env then L else close_expired (dr_stamp env 0) (dr_now env) L)
          else if closed_row p sq then Inl (403, ''permission_closed'', L)
          else Inr f)"

definition file_headers :: "file_row \<Rightarrow> (string \<times> string) list" where
  "file_headers f = [(''Content-Disposition'', ''attachment; filename='' @ CHR 0x22 # safe_name (fl_name f) @ [CHR 0x22]),
     (''Accept-Ranges'', ''bytes'')]"

definition empty_download :: "'k door_env \<Rightarrow> permission \<Rightarrow> file_row \<Rightarrow> ledger \<Rightarrow> http_response \<times> ledger" where
  "empty_download env p f L =
     (if \<not> fo_root (dr_io env) \<or> \<not> fo_open (dr_io env) then (fail_with 404 ''file_missing'' [], L)
      else if fo_stat (dr_io env) \<noteq> Some (True, 0) then (fail_with 409 ''file_changed'' [], L)
      else case finish_empty (fst (dr_tx env)) (snd (dr_tx env)) (dr_sign env) (dr_clock env) (dr_stamp env 1) p L of
          (Inl _, L') \<Rightarrow> (fail_with 403 ''permission_closed'' [], L')
        | (Inr _, L') \<Rightarrow> (\<lparr>rp_status = 200, rp_headers = base_headers @ file_headers f @ [(''Content-Length'', ''0'')],
             rp_body = []\<rparr>, L'))"

definition reserve_code :: "gw_error \<Rightarrow> int \<times> string" where
  "reserve_code e = (case e of ErrFragmented \<Rightarrow> (409, ''coverage_fragmented'')
     | ErrExhausted \<Rightarrow> (409, ''coverage_exhausted'') | ErrClosed \<Rightarrow> (403, ''permission_closed'')
     | ErrDeadline \<Rightarrow> (403, ''permission_expired'') | _ \<Rightarrow> (500, ''internal_error''))"

text \<open>The response of a transfer. An uncommitted one without a late refusal is answered by
  net/http itself: status 200 with the headers set so far.\<close>

definition range_headers :: "bool \<Rightarrow> file_row \<Rightarrow> int \<Rightarrow> int \<Rightarrow> (string \<times> string) list" where
  "range_headers partial f start stop =
     file_headers f @ [(''Content-Type'', ''application/octet-stream''),
       (''Content-Length'', dec_text (nat (stop - start + 1)))]
     @ (if partial then [(''Content-Range'', ''bytes '' @ dec_text (nat start) @ CHR ''-'' # dec_text (nat stop)
          @ CHR ''/'' # dec_text (nat (fl_size f)))] else [])"

definition transfer_response :: "bool \<Rightarrow> file_row \<Rightarrow> int \<Rightarrow> int \<Rightarrow> transfer \<Rightarrow> http_response" where
  "transfer_response partial f start stop t =
     (case tr_late t of Some (status, code) \<Rightarrow> fail_with status code (file_headers f)
      | None \<Rightarrow> \<lparr>rp_status = (if partial \<and> tr_committed t then 206 else 200),
          rp_headers = base_headers @ range_headers partial f start stop, rp_body = tr_body t\<rparr>)"

definition start_transfer :: "ledger \<Rightarrow> transfer" where
  "start_transfer L = \<lparr>tr_outcome = '''', tr_settle = True, tr_late = None, tr_committed = False,
     tr_body = [], tr_ledger = L\<rparr>"

definition send_range :: "'k door_env \<Rightarrow> file_row \<Rightarrow> bool \<Rightarrow> int \<Rightarrow> reservation \<Rightarrow> ledger
    \<Rightarrow> http_response \<times> ledger" where
  "send_range env f ranged start rs L =
     (let i = rs_id rs; stop = rs_end rs; partial = (ranged \<or> start \<noteq> 0 \<or> stop \<noteq> fl_size f - 1) in
      if \<not> fo_root (dr_io env) \<or> \<not> fo_open (dr_io env) \<or> map_option fst (fo_stat (dr_io env)) \<noteq> Some True
        then (fail_with 404 ''file_missing'' [], settle_now env i '''' L)
      else case read_block env f 0 start of
          None \<Rightarrow> (fail_with 409 ''file_changed'' [],
            settle_now env i ''aborted_block_mismatch'' (mark_file env (fl_fid f) L))
        | Some blk \<Rightarrow>
          (let t = serve_loop env f i stop 0 blk start (start_transfer L) in
           (transfer_response partial f start stop t, conclude env i t)))"

definition download :: "'k door_env \<Rightarrow> string \<Rightarrow> http_request \<Rightarrow> ledger \<Rightarrow> http_response \<times> ledger" where
  "download env fid r L =
     (case check_request env fid r of Inl (status, code) \<Rightarrow> (fail_with status code [], L)
      | Inr p \<Rightarrow>
        (case admit_download env p L of Inl (status, code, L') \<Rightarrow> (fail_with status code [], L')
         | Inr f \<Rightarrow>
           if fl_size f = 0 \<and> hr_range r = '''' then empty_download env p f L
           else case parse_range (hr_range r) (fl_size f) of
               Inl _ \<Rightarrow> (fail_with 416 ''invalid_range''
                 [(''Content-Range'', ''bytes */'' @ dec_text (nat (fl_size f)))], L)
             | Inr (start, stop0, ranged) \<Rightarrow>
               (case reserve (fst (dr_tx env)) (snd (dr_tx env)) (dr_clock env) (dr_stamp env 2) p start stop0 L of
                  (Inl e, L') \<Rightarrow> (case reserve_code e of (status, code) \<Rightarrow> (fail_with status code [], L'))
                | (Inr rs, L') \<Rightarrow> send_range env f ranged start rs L')))"

subsection \<open>The statement and the router\<close>

definition statement :: "'k door_env \<Rightarrow> http_request \<Rightarrow> http_response" where
  "statement env r =
     (let nonce = (case map_of (hr_query r) ''nonce'' of None \<Rightarrow> '''' | Some v \<Rightarrow> v) in
      if \<not> lower_hex 32 nonce then fail_with 400 ''invalid_nonce'' []
      else case sign_token (dr_crypto env) ''aim-door+jwt'' (dr_kid env)
          (JObj [(''gid'', JStr (dr_gid env)), (''nonce'', JStr nonce), (''iat'', JNum (dec_text (nat (dr_now env))))])
          (dr_private env) of
        Inl _ \<Rightarrow> fail_with 500 ''internal_error'' []
      | Inr token \<Rightarrow> \<lparr>rp_status = 200, rp_headers = base_headers @ [(''Content-Type'', ''application/jose'')],
          rp_body = token\<rparr>)"

text \<open>Handler: the number of concurrent downloads, eight when neither the door nor the
  configuration gives one.\<close>

definition handler_limit :: "int \<Rightarrow> config option \<Rightarrow> int" where
  "handler_limit limit c =
     (if limit > 0 then limit
      else let n = (case c of None \<Rightarrow> limit | Some c \<Rightarrow> cfg_max_downloads c) in if n \<le> 0 then 8 else n)"

text \<open>serve, with the number of downloads that hold the semaphore when the request arrives.\<close>

definition serve :: "'k door_env \<Rightarrow> int \<Rightarrow> int \<Rightarrow> http_request \<Rightarrow> ledger \<Rightarrow> http_response \<times> ledger" where
  "serve env limit active r L =
     (if hr_method r \<noteq> ''GET'' then (fail_with 405 ''method_not_allowed'' [], L)
      else if hr_path r = ''/.well-known/aim-gateway'' then (statement env r, L)
      else if \<not> has_prefix ''/v1/files/'' (hr_path r) then (fail_with 404 ''not_found'' [], L)
      else let fid = trim_prefix ''/v1/files/'' (hr_path r) in
        if \<not> lower_hex 32 fid then (fail_with 404 ''not_found'' [], L)
        else if active \<ge> limit then (fail_with 503 ''busy'' [], L)
        else download env fid r L)"

text \<open>HealthServer: the local liveness answer.\<close>

definition health :: "http_request \<Rightarrow> int \<times> string" where
  "health r = (if hr_path r \<noteq> ''/healthz'' then (404, ''404 page not found'' @ [CHR 0x0A])
     else if hr_method r \<noteq> ''GET'' then (405, '''') else (200, ''ok'' @ [CHR 0x0A]))"

end
