(* ===== verification/DoorProps.thy ===== *)
theory DoorProps
  imports Door
begin

text \<open>
  What the door promises: the ranges it accepts, that the bytes it sends are bytes of the
  inventoried file, that they are the ones the ledger accounts for, and who gets them.
\<close>

subsection \<open>Ranges\<close>

lemma parse_range_props:
  assumes "parse_range s sz = Inr (a, b, ranged)"
  shows "0 \<le> a \<and> a \<le> b \<and> b < sz \<and> (ranged \<longleftrightarrow> s \<noteq> '''')"
  using assms by (auto simp: parse_range_def has_prefix_def split: if_splits prod.splits option.splits)

lemma parse_range_text:
  assumes "0 < sz" "int a < sz" "a \<le> b" "int b \<le> max_int64"
  shows "parse_range (''bytes='' @ dec_text a @ CHR ''-'' # dec_text b) sz = Inr (int a, min (int b) (sz - 1), True)"
    and "parse_range (''bytes='' @ dec_text a @ [CHR ''-'']) sz = Inr (int a, sz - 1, True)"
proof -
  have a: "int a \<le> max_int64" using assms by simp
  have digit: "\<not> is_digit CHR '',''" "\<not> is_digit CHR ''-''" by code_simp+
  have no: "CHR '','' \<notin> set (dec_text n)" "CHR ''-'' \<notin> set (dec_text n)" for n
    using dec_text_chars [of _ n] digit by blast+
  have ne: "dec_text n \<noteq> ''''" for n using dec_text_digits by blast
  have comma: "CHR '','' \<notin> set (''bytes='' @ dec_text a @ CHR ''-'' # dec_text b)"
    "CHR '','' \<notin> set (''bytes='' @ dec_text a @ [CHR ''-''])" using no by auto
  show "parse_range (''bytes='' @ dec_text a @ CHR ''-'' # dec_text b) sz = Inr (int a, min (int b) (sz - 1), True)"
    using assms a comma ne
    by (simp add: parse_range_def has_prefix_append trim_prefix_append cut_append [OF no(2)] parse_int_text del: append_Cons)
  show "parse_range (''bytes='' @ dec_text a @ [CHR ''-'']) sz = Inr (int a, sz - 1, True)"
    using assms a comma ne
    by (simp add: parse_range_def has_prefix_append trim_prefix_append cut_append [OF no(2), of a "[]"] parse_int_text del: append_Cons)
qed



subsection \<open>The bytes of a response\<close>

text \<open>
  The inventory took the hashes of a content when no other bytes of a block's length have the
  hash stored for it, as for a collision-free digest of those blocks.
\<close>

definition block_of :: "bytes \<Rightarrow> int \<Rightarrow> bytes" where
  "block_of content index = slice content (index * window) (min (int (length content)) ((index + 1) * window))"

definition inventoried :: "(bytes \<Rightarrow> bytes) \<Rightarrow> file_row \<Rightarrow> bytes \<Rightarrow> bool" where
  "inventoried sha f content \<longleftrightarrow> fl_size f = int (length content)
     \<and> (\<forall>index b. index < length (fl_hashes f) \<longrightarrow> length b = length (block_of content (int index))
          \<longrightarrow> sha b = fl_hashes f ! index \<longrightarrow> b = block_of content (int index))"

lemma length_slice: "0 \<le> lo \<Longrightarrow> hi \<le> int (length s) \<Longrightarrow> int (length (slice s lo hi)) = max 0 (hi - lo)"
  by (auto simp: slice_def)

lemma slice_append:
  assumes "0 \<le> a" "a \<le> b" "b \<le> c"
  shows "slice s a b @ slice s b c = slice s a c"
proof -
  have "nat (c - a) = nat (b - a) + nat (c - b)" "nat b = nat (b - a) + nat a" using assms by auto
  then show ?thesis by (simp add: slice_def take_add)
qed

lemma slice_slice:
  assumes "0 \<le> a" "0 \<le> lo" "hi \<le> b - a"
  shows "slice (slice s a b) lo hi = slice s (a + lo) (a + hi)"
proof -
  have m: "min (nat (hi - lo)) (nat (b - a) - nat lo) = nat (hi - lo)" using assms by auto
  have n: "nat lo + nat a = nat (a + lo)" "a + hi - (a + lo) = hi - lo" using assms by auto
  show ?thesis using m n by (simp add: slice_def drop_take min.commute)
qed

lemma take_slice: "0 \<le> n \<Longrightarrow> n \<le> b - a \<Longrightarrow> take (nat n) (slice s a b) = slice s a (a + n)"
  by (simp add: slice_def min_def)

text \<open>A verified block: the position it starts at, and the bytes of the content from there.\<close>

definition held_block :: "bytes \<Rightarrow> int \<times> bytes \<Rightarrow> bool" where
  "held_block content blk \<longleftrightarrow> 0 \<le> fst blk \<and> fst blk + int (length (snd blk)) \<le> int (length content)
     \<and> snd blk = slice content (fst blk) (fst blk + int (length (snd blk)))"

lemma read_block_held:
  assumes "read_block env f k pos = Some blk" "inventoried (dr_sha env) f content"
    and "0 \<le> pos" "pos < fl_size f"
  shows "held_block content blk \<and> fst blk \<le> pos \<and> pos < fst blk + int (length (snd blk))"
proof -
  let ?i = "pos div window"
  let ?len = "nat (min window (fl_size f - ?i * window))"
  have w: "0 < window" by (simp add: window_def)
  have i: "0 \<le> ?i" "?i * window \<le> pos" "pos < ?i * window + window"
  proof -
    have eq: "?i * window + pos mod window = pos" by (rule div_mult_mod_eq)
    have m: "0 \<le> pos mod window" "pos mod window < window" using w by simp_all
    show "0 \<le> ?i" using assms(3) w by (simp add: pos_imp_zdiv_nonneg_iff)
    show "?i * window \<le> pos" "pos < ?i * window + window" using eq m by linarith+
  qed
  have size': "fl_size f = int (length content)" using assms(2) by (simp add: inventoried_def)
  obtain b where b: "blk = (?i * window, b)" "length b = ?len" "?i < int (length (fl_hashes f))"
      "dr_sha env b = fl_hashes f ! nat ?i"
    using assms(1) by (auto simp: read_block_def Let_def split: prod.splits if_splits)
  have hi: "min (int (length content)) ((?i + 1) * window) = ?i * window + min window (fl_size f - ?i * window)"
    by (simp add: size' min_def algebra_simps)
  have pos': "0 < min window (fl_size f - ?i * window)" using i assms(4) w by auto
  have start: "0 \<le> ?i * window" using i(1) w by simp
  have len: "int (length (block_of content ?i)) = int ?len"
    unfolding block_of_def hi using start pos' by (subst length_slice) (auto simp: size')
  then have "length b = length (block_of content ?i)" unfolding b(2) of_nat_eq_iff by (rule sym)
  then have "length b = length (block_of content (int (nat ?i)))" using i(1) by simp
  with b(3,4) i(1) assms(2) have "b = block_of content ?i"
    unfolding inventoried_def by (metis int_nat_eq nat_less_iff)
  moreover have "int (length b) = min window (fl_size f - ?i * window)" using b(2) pos' by simp
  ultimately show ?thesis
    using i start assms(4) hi unfolding held_block_def b(1) by (auto simp: block_of_def size')
qed

lemma chunk_of_held:
  assumes "held_block content blk" "fst blk \<le> pos" "pos < fst blk + int (length (snd blk))" "pos \<le> stop"
  shows "chunk_of blk pos stop = slice content pos (min (fst blk + int (length (snd blk))) (stop + 1))
    \<and> int (length (chunk_of blk pos stop)) = min (fst blk + int (length (snd blk))) (stop + 1) - pos"
proof -
  let ?e = "fst blk + int (length (snd blk))"
  have hi: "min (int (length (snd blk))) (stop - fst blk + 1) \<le> ?e - fst blk"
    "fst blk + min (int (length (snd blk))) (stop - fst blk + 1) = min ?e (stop + 1)" by auto
  have h: "0 \<le> fst blk" "snd blk = slice content (fst blk) ?e" using assms(1) by (simp_all add: held_block_def)
  have "chunk_of blk pos stop = slice (slice content (fst blk) ?e) (pos - fst blk)
      (min (int (length (snd blk))) (stop - fst blk + 1))"
    unfolding chunk_of_def using h(2) by metis
  also have "\<dots> = slice content (fst blk + (pos - fst blk)) (fst blk + min (int (length (snd blk))) (stop - fst blk + 1))"
    using h(1) assms(2) hi(1) by (intro slice_slice) auto
  finally have eq: "chunk_of blk pos stop = slice content pos (min ?e (stop + 1))" unfolding hi(2) by simp
  moreover have "int (length (slice content pos (min ?e (stop + 1)))) = min ?e (stop + 1) - pos"
    using assms by (subst length_slice) (auto simp: held_block_def)
  ultimately show ?thesis by simp
qed

lemma current_block_held:
  assumes "current_block env f k blk pos = Some blk'" "inventoried (dr_sha env) f content"
    and "held_block content blk" "fst blk \<le> pos" "0 \<le> pos" "pos < fl_size f"
  shows "held_block content blk' \<and> fst blk' \<le> pos \<and> pos < fst blk' + int (length (snd blk'))"
  using assms read_block_held [OF _ assms(2,5,6)] by (auto simp: current_block_def split: if_splits)

lemma serve_loop_body:
  assumes "inventoried (dr_sha env) f content" "stop < fl_size f"
    and "held_block content blk" "fst blk \<le> pos" "0 \<le> start" "start \<le> pos" "pos \<le> stop + 1"
    and "tr_body t = slice content start pos"
  shows "\<exists>pos'. pos \<le> pos' \<and> pos' \<le> stop + 1 \<and> tr_body (serve_loop env f i stop k blk pos t) = slice content start pos'"
  using assms
proof (induction env f i stop k blk pos t rule: serve_loop.induct)
  case (1 env f i stop k blk pos t)
  note unfolded = serve_loop.simps [of env f i stop k blk pos t]
  show ?case
  proof (cases "pos > stop")
    case True
    then show ?thesis using "1.prems" by (intro exI [of _ pos]) (simp add: unfolded)
  next
    case False
    show ?thesis
    proof (cases "current_block env f k blk pos")
      case None
      then show ?thesis using "1.prems" False by (intro exI [of _ pos]) (simp add: unfolded)
    next
      case (Some blk')
      have held: "held_block content blk'" "fst blk' \<le> pos" "pos < fst blk' + int (length (snd blk'))"
        using current_block_held [OF Some] "1.prems" False by auto
      obtain n e t' where s: "send_chunk env i stop k blk' pos t = ((n, e), t')" by (metis surj_pair)
      note n = send_chunk_range [OF s]
      have "pos \<le> stop" using False by simp
      note c = chunk_of_held [OF held this]
      have le: "pos + n \<le> stop + 1" using n c by linarith
      have body: "tr_body t' = slice content start (pos + n)"
        using s c n False "1.prems"(5,6,8)
        by (auto simp: send_chunk_def Let_def take_slice slice_append split: prod.splits)
      show ?thesis
      proof (cases "e \<noteq> None \<or> n = 0")
        case True
        then show ?thesis using False Some s n le body
          by (intro exI [of _ "pos + n"]) (simp add: unfolded)
      next
        case go: False
        have "\<exists>pos'. pos + n \<le> pos' \<and> pos' \<le> stop + 1
            \<and> tr_body (serve_loop env f i stop (k + 1) blk' (pos + n) t') = slice content start pos'" (is "\<exists>pos'. ?P pos'")
          using "1.IH" [OF False Some s [symmetric] refl go "1.prems"(1,2) held(1)] held(2) n le "1.prems"(5,6) body
          by simp
        then obtain pos' where "?P pos'" by blast
        then show ?thesis using False Some s go n by (intro exI [of _ pos']) (auto simp: unfolded)
      qed
    qed
  qed
qed

definition content_status :: "http_response \<Rightarrow> bool" where
  "content_status resp \<longleftrightarrow> rp_status resp = 200 \<or> rp_status resp = 206"

lemma fail_with_status [simp]: "rp_status (fail_with status code hs) = status"
  by (simp add: fail_with_def)

lemma serve_loop_late:
  "tr_late t = None \<or> fst (the (tr_late t)) = 403
    \<Longrightarrow> tr_late (serve_loop env f i stop k blk pos t) = None \<or> fst (the (tr_late (serve_loop env f i stop k blk pos t))) = 403"
proof (induction env f i stop k blk pos t rule: serve_loop.induct)
  case (1 env f i stop k blk pos t)
  have "tr_late t' = tr_late t" if "send_chunk env i stop k blk' pos t = (ne, t')" for blk' ne t'
    using that by (auto simp: send_chunk_def Let_def split: prod.splits)
  with 1 show ?case
    by (subst (1 2) serve_loop.simps) (auto split: option.splits prod.splits if_splits simp: late_refusal_def)
qed

lemma transfer_response_content:
  assumes "content_status (transfer_response partial f start stop (serve_loop env f i stop k blk pos (start_transfer L)))"
  shows "tr_late (serve_loop env f i stop k blk pos (start_transfer L)) = None"
  using assms serve_loop_late [of "start_transfer L" env f i stop k blk pos]
  by (auto simp: transfer_response_def content_status_def start_transfer_def split: option.splits)

lemma reserve_code_status: "fst (reserve_code e) \<noteq> 200 \<and> fst (reserve_code e) \<noteq> 206"
  by (simp add: reserve_code_def split: gw_error.split)

lemma admission_refusal_status:
  "admit_download env p L = Inl (status, code, L') \<Longrightarrow> status \<noteq> 200 \<and> status \<noteq> 206"
  by (auto simp: admit_download_def Let_def split: if_splits sum.splits)

lemma check_refusal_status: "check_request env fid r = Inl (status, code) \<Longrightarrow> status \<noteq> 200 \<and> status \<noteq> 206"
  by (auto simp: check_request_def split: if_splits sum.splits)

text \<open>The two ways a download answers with content.\<close>

lemma download_content_cases:
  assumes "download env fid r L = (resp, L')" "content_status resp"
  obtains (empty) p f where "check_request env fid r = Inr p" "admit_download env p L = Inr f"
      "fl_size f = 0" "rp_body resp = []" "rp_status resp = 200"
      "finish_empty (fst (dr_tx env)) (snd (dr_tx env)) (dr_sign env) (dr_clock env) (dr_stamp env 1) p L = (Inr (), L')"
    | (range) p f a b ranged rs L1 blk t where "check_request env fid r = Inr p" "admit_download env p L = Inr f"
      "parse_range (hr_range r) (fl_size f) = Inr (a, b, ranged)"
      "reserve (fst (dr_tx env)) (snd (dr_tx env)) (dr_clock env) (dr_stamp env 2) p a b L = (Inr rs, L1)"
      "read_block env f 0 a = Some blk" "t = serve_loop env f (rs_id rs) (rs_end rs) 0 blk a (start_transfer L1)"
      "rp_body resp = tr_body t" "L' = conclude env (rs_id rs) t"
proof (cases "check_request env fid r")
  case (Inl x)
  with assms have False by (cases x) (auto simp: download_def content_status_def dest: check_refusal_status)
  then show thesis ..
next
  case p: (Inr p)
  show thesis
  proof (cases "admit_download env p L")
    case (Inl x)
    with p assms have False
      by (cases x) (auto simp: download_def content_status_def dest: admission_refusal_status)
    then show thesis ..
  next
    case f: (Inr f)
    show thesis
    proof (cases "fl_size f = 0 \<and> hr_range r = ''''")
      case True
      with p f assms have e: "empty_download env p f L = (resp, L')" by (simp add: download_def)
      then have "rp_body resp = [] \<and> rp_status resp = 200
        \<and> finish_empty (fst (dr_tx env)) (snd (dr_tx env)) (dr_sign env) (dr_clock env) (dr_stamp env 1) p L = (Inr (), L')"
        using assms(2) by (auto simp: empty_download_def content_status_def split: if_splits prod.splits sum.splits)
      with p f True empty show thesis by blast
    next
      case False
      show thesis
      proof (cases "parse_range (hr_range r) (fl_size f)")
        case (Inl e)
        with p f False assms show thesis by (auto simp: download_def content_status_def)
      next
        case pr: (Inr abr)
        obtain a b ranged where abr: "abr = (a, b, ranged)" by (metis prod_cases3)
        obtain res L1 where rv: "reserve (fst (dr_tx env)) (snd (dr_tx env)) (dr_clock env) (dr_stamp env 2) p a b L = (res, L1)"
          by (metis surj_pair)
        show thesis
        proof (cases res)
          case (Inl e)
          with p f False pr abr rv assms show thesis
            using reserve_code_status [of e]
            by (cases "reserve_code e") (auto simp: download_def content_status_def)
        next
          case (Inr rs)
          then have s: "send_range env f ranged a rs L1 = (resp, L')"
            using p f False pr abr rv assms(1) by (auto simp: download_def)
          with assms(2) obtain blk where "read_block env f 0 a = Some blk"
            "resp = transfer_response (ranged \<or> a \<noteq> 0 \<or> rs_end rs \<noteq> fl_size f - 1) f a (rs_end rs)
               (serve_loop env f (rs_id rs) (rs_end rs) 0 blk a (start_transfer L1))"
            "L' = conclude env (rs_id rs) (serve_loop env f (rs_id rs) (rs_end rs) 0 blk a (start_transfer L1))"
            by (auto simp: send_range_def Let_def content_status_def split: if_splits option.splits)
          moreover from this assms(2) have "tr_late (serve_loop env f (rs_id rs) (rs_end rs) 0 blk a (start_transfer L1)) = None"
            using transfer_response_content by blast
          ultimately show thesis using range [OF p f pr [unfolded abr] rv [unfolded Inr] _ refl]
            by (simp add: transfer_response_def)
        qed
      qed
    qed
  qed
qed

lemma clip_served_range: "clip_served ss start e0 = Some e1 \<Longrightarrow> start \<le> e0 \<Longrightarrow> start \<le> e1 \<and> e1 \<le> e0"
  by (induction ss) (auto split: if_splits)

lemma reserve_range:
  assumes "reserve be ce clk at p a b L = (Inr rs, L')"
  shows "0 \<le> a \<and> a \<le> rs_end rs \<and> rs_end rs \<le> b"
proof -
  have "reserve_body clk at p a b L = Inr (rs, L')" using assms unfolding reserve_def by (rule tx_ok)
  then show ?thesis
    by (auto simp: reserve_body_def Let_def split: option.splits if_splits sum.splits dest!: clip_served_range)
qed

lemma check_request_fid: "check_request env fid r = Inr p \<Longrightarrow> p_fid p = fid"
  by (auto simp: check_request_def split: sum.splits if_splits)

lemma admission_file: "admit_download env p L = Inr f \<Longrightarrow> file_of (p_fid p) L = Some f"
  by (auto simp: admit_download_def query_def Let_def split: if_splits sum.splits option.splits)

text \<open>C4: Whatever the disk, the network, the clock and the database do, the body of an answer
  with content is a prefix of the requested range of the file as it was inventoried: a block
  that no longer has its inventoried hash is never sent, not even in part.\<close>

theorem download_sends_content:
  assumes "download env fid r L = (resp, L')" and "content_status resp"
    and "file_of fid L = Some f" and "inventoried (dr_sha env) f content"
  shows "rp_body resp = [] \<or> (\<exists>a b ranged n. parse_range (hr_range r) (fl_size f) = Inr (a, b, ranged)
    \<and> a \<le> n \<and> n \<le> b + 1 \<and> rp_body resp = slice content a n)"
  using assms(1,2)
proof (cases rule: download_content_cases)
  case empty
  then show ?thesis by simp
next
  case (range p f' a b ranged rs L1 blk t)
  have f': "f' = f" using admission_file [OF range(2)] check_request_fid [OF range(1)] assms(3) by simp
  note ab = parse_range_props [OF range(3)]
  note rs = reserve_range [OF range(4)]
  have held: "held_block content blk \<and> fst blk \<le> a \<and> a < fst blk + int (length (snd blk))"
    using read_block_held [OF range(5)] assms(4) ab f' by simp
  have "\<exists>pos'. a \<le> pos' \<and> pos' \<le> rs_end rs + 1 \<and> tr_body t = slice content a pos'"
    unfolding range(6) f'
    by (rule serve_loop_body [OF assms(4)]) (use held ab rs f' in \<open>auto simp: start_transfer_def slice_def\<close>)
  then show ?thesis using range(3,7) rs f' by fastforce
qed

subsection \<open>The bytes of a response are the ones accounted for\<close>

definition recorded :: "ledger \<Rightarrow> int \<Rightarrow> int \<Rightarrow> bool" where
  "recorded L i w \<longleftrightarrow> (\<exists>r. request_of i L = Some r \<and> rq_written r = w)"

lemma recorded_mark_file [simp]: "recorded (mark_file env fid L) i w = recorded L i w"
  by (simp add: recorded_def request_of_def mark_file_def mark_changed_def)

lemma mark_file_steps: "xfer_steps (L, g) (mark_file env fid L, g)"
  by (auto simp: mark_file_def mark_changed_def intro!: xfer_steps_refl xfer_steps_one xs_other xfer_frame_perms_same)



lemma send_chunk_steps:
  assumes "send_chunk env i stop k blk pos t = ((n, e), t')" and "io_contract (dr_net env k)"
    and "recorded (tr_ledger t) i (pos - 1)" and "g i = pos - 1"
  shows "0 \<le> n \<and> int (length (tr_body t')) = int (length (tr_body t)) + n
    \<and> xfer_steps (tr_ledger t, g) (tr_ledger t', g(i := pos - 1 + n))
    \<and> (tr_settle t' \<longrightarrow> tr_settle t \<and> recorded (tr_ledger t') i (pos - 1 + n))
    \<and> (e = None \<longrightarrow> recorded (tr_ledger t') i (pos - 1 + n))"
proof -
  obtain r where r: "request_of i (tr_ledger t) = Some r" "rq_written r = pos - 1"
    using assms(3) by (auto simp: recorded_def)
  obtain L' where w: "write_chunk (dr_sign env) (dr_stamp env (k + 4)) (dr_net env k) (dr_wclock env k)
      (fst (dr_wtx env k)) (snd (dr_wtx env k)) i (chunk_of blk pos stop) (tr_ledger t) = ((n, e), L')"
    and t': "tr_ledger t' = L'" "tr_body t' = tr_body t @ take (nat n) (chunk_of blk pos stop)"
      "tr_settle t' \<longleftrightarrow> tr_settle t \<and> \<not> is_progress e"
    using assms(1) by (auto simp: send_chunk_def Let_def split: prod.splits)
  have gi: "g i = rq_written r" using assms(4) r(2) by simp
  note run = write_chunk_run [of i "tr_ledger t" r g, OF r(1) gi w, unfolded r(2)]
  then have "recorded L' i (pos - 1 + n) \<or> (\<exists>x. e = Some (ErrProgress x))"
    using assms(2) r
    by (auto simp: write_ended_def bad_write_def at_point_def recorded_def request_of_def)
  then show ?thesis using run t' by (auto simp: is_progress_def)
qed

lemma serve_loop_steps:
  assumes "\<forall>k. io_contract (dr_net env k)" and "recorded (tr_ledger t) i (pos - 1)" and "g i = pos - 1"
  shows "\<exists>n \<ge> 0. int (length (tr_body (serve_loop env f i stop k blk pos t))) = int (length (tr_body t)) + n
    \<and> xfer_steps (tr_ledger t, g) (tr_ledger (serve_loop env f i stop k blk pos t), g(i := pos - 1 + n))
    \<and> (tr_settle (serve_loop env f i stop k blk pos t) \<longrightarrow>
        recorded (tr_ledger (serve_loop env f i stop k blk pos t)) i (pos - 1 + n))"
  using assms
proof (induction env f i stop k blk pos t arbitrary: g rule: serve_loop.induct)
  case (1 env f i stop k blk pos t)
  note unfolded = serve_loop.simps [of env f i stop k blk pos t]
  have same: "g(i := pos - 1 + 0) = g" using "1.prems"(3) by auto
  show ?case
  proof (cases "pos > stop")
    case True
    then show ?thesis using "1.prems" same by (intro exI [of _ 0]) (simp add: unfolded xfer_steps_refl)
  next
    case False
    show ?thesis
    proof (cases "current_block env f k blk pos")
      case None
      then show ?thesis using "1.prems" False same
        by (intro exI [of _ 0]) (simp add: unfolded mark_file_steps)
    next
      case (Some blk')
      obtain n e t' where s: "send_chunk env i stop k blk' pos t = ((n, e), t')" by (metis surj_pair)
      have "io_contract (dr_net env k)" using "1.prems"(1) by blast
      note c = send_chunk_steps [of env i stop k blk' pos t n e t' g, OF s this "1.prems"(2,3)]
      show ?thesis
      proof (cases "e \<noteq> None \<or> n = 0")
        case True
        then have "serve_loop env f i stop k blk pos t = t'\<lparr>tr_late := late_refusal (tr_committed t') e\<rparr>"
          using False Some s by (auto simp: unfolded)
        then show ?thesis using c by (intro exI [of _ n]) (simp add: fun_upd_def)
      next
        case go: False
        let ?u = "serve_loop env f i stop (k + 1) blk' (pos + n) t'"
        let ?g = "g(i := pos - 1 + n)"
        have loop: "serve_loop env f i stop k blk pos t = ?u"
          using False Some s go by (auto simp: unfolded)
        have "recorded (tr_ledger t') i (pos + n - 1)" using c go by (simp add: algebra_simps)
        moreover have "?g i = pos + n - 1" by simp
        ultimately obtain m where m: "0 \<le> m" "int (length (tr_body ?u)) = int (length (tr_body t')) + m"
          "xfer_steps (tr_ledger t', ?g) (tr_ledger ?u, ?g(i := pos + n - 1 + m))"
          "tr_settle ?u \<longrightarrow> recorded (tr_ledger ?u) i (pos + n - 1 + m)"
          using "1.IH" [OF False Some s [symmetric] refl go "1.prems"(1), of ?g] by blast
        have shift: "pos + n - 1 + m = pos - 1 + (n + m)" by simp
        have "xfer_steps (tr_ledger t, g) (tr_ledger ?u, g(i := pos - 1 + (n + m)))"
          using xfer_steps_trans [OF _ m(3)] c unfolding fun_upd_upd shift by blast
        then show ?thesis using m c unfolding loop shift by (intro exI [of _ "n + m"]) (simp add: fun_upd_def)
      qed
    qed
  qed
qed

lemma recover_attempts_steps: "xfer_steps (L, g) (recover_attempts sg at i fs L, g)"
proof (induction sg at i fs L rule: recover_attempts.induct)
  case (1 sg at i L)
  show ?case by (simp add: xfer_steps_refl)
next
  case (2 sg at i be ce fs L)
  obtain res L1 where r: "recover_request be ce sg at i L = (res, L1)" by (metis surj_pair)
  have s: "xfer_steps (L, g) (L1, g)" using r by (intro xfer_steps_one xs_crash)
  show ?case
  proof (cases res)
    case (Inl e)
    then have "xfer_steps (L1, g) (recover_attempts sg at i fs L1, g)" using "2.IH" [OF r [symmetric]] by simp
    with s Inl r show ?thesis using xfer_steps_trans [OF s] by simp
  next
    case (Inr u)
    with s r show ?thesis by simp
  qed
qed

lemma settle_now_steps:
  assumes "\<And>r. request_of i L = Some r \<Longrightarrow> g i = rq_written r"
  shows "xfer_steps (L, g) (settle_now env i oc L, g)"
proof -
  obtain res L' where s: "settle_outcome (fst (dr_settle_tx env)) (snd (dr_settle_tx env)) (dr_sign env)
      (dr_stamp env 3) i oc L = (res, L')" by (metis surj_pair)
  then have "xfer_step (L, g) (L', g)" using assms by (rule xs_settle [rotated])
  then show ?thesis unfolding settle_now_def s by (simp add: xfer_steps_one)
qed

lemma conclude_steps:
  assumes "tr_settle t \<longrightarrow> recorded (tr_ledger t) i (g i)"
  shows "xfer_steps (tr_ledger t, g) (conclude env i t, g)"
proof (cases "tr_settle t")
  case True
  then have "\<And>r. request_of i (tr_ledger t) = Some r \<Longrightarrow> g i = rq_written r"
    using assms by (auto simp: recorded_def)
  with True show ?thesis by (simp add: conclude_def settle_now_steps)
next
  case False
  then show ?thesis by (simp add: conclude_def recover_attempts_steps)
qed

text \<open>The request a reservation opened, as the transfer starts from it.\<close>

lemma reserve_starts:
  assumes "xfer_reach L g" and "reserve be ce clk at p a b L = (Inr rs, L1)"
  shows "xfer_steps (L, g) (L1, g(rs_id rs := a - 1)) \<and> recorded L1 (rs_id rs) (a - 1)"
proof -
  have "rs_start rs = a" by (rule reserve_facts(1) [OF assms])
  then have "xfer_step (L, g) (L1, g(rs_id rs := a - 1))" using xs_reserve [OF assms(2), of g] by simp
  moreover have "recorded L1 (rs_id rs) (a - 1)"
    using reserve_facts(8) [OF assms] by (auto simp: recorded_def)
  ultimately show ?thesis by (simp add: xfer_steps_one)
qed

lemma xfer_steps_reach: "xfer_steps (L, g) (L', g') \<Longrightarrow> xfer_reach L g \<Longrightarrow> xfer_reach L' g'"
proof -
  have "xfer_step\<^sup>*\<^sup>* (L, g) s \<Longrightarrow> xfer_reach L g \<Longrightarrow> xfer_reach (fst s) (snd s)" for s
  proof (induction rule: rtranclp_induct)
    case (step y z)
    then show ?case by (cases y; cases z) (auto intro: xr_step)
  qed simp
  then show "xfer_steps (L, g) (L', g') \<Longrightarrow> xfer_reach L g \<Longrightarrow> xfer_reach L' g'"
    unfolding xfer_steps_def by fastforce
qed

text \<open>What a download sent of content, and under which request.\<close>

definition body_bytes :: "http_response \<Rightarrow> int" where
  "body_bytes resp = (if content_status resp then int (length (rp_body resp)) else 0)"

lemma send_range_steps:
  assumes "\<forall>k. io_contract (dr_net env k)" and "recorded L (rs_id rs) (a - 1)" and "g (rs_id rs) = a - 1"
    and "send_range env f ranged a rs L = (resp, L')"
  shows "\<exists>w \<ge> a - 1 + body_bytes resp. (content_status resp \<longrightarrow> w = a - 1 + body_bytes resp)
    \<and> xfer_steps (L, g) (L', g(rs_id rs := w))"
proof -
  let ?i = "rs_id rs"
  have g: "g(?i := a - 1) = g" using assms(3) by auto
  have settle: "xfer_steps (M, g) (settle_now env ?i oc M, g)" if "recorded M ?i (a - 1)" for M oc
    using that assms(3) by (intro settle_now_steps) (auto simp: recorded_def)
  let ?bad = "settle_now env ?i ''aborted_block_mismatch'' (mark_file env (fl_fid f) L)"
  let ?missing = "settle_now env ?i '''' L"
  have failed: "xfer_steps (L, g) (?missing, g)" "xfer_steps (L, g) (?bad, g)"
    using settle assms(2) xfer_steps_trans [OF mark_file_steps settle] by auto
  show ?thesis
  proof (cases "\<not> content_status resp \<and> (L' = ?missing \<or> L' = ?bad)")
    case True
    with failed show ?thesis by (intro exI [of _ "a - 1"]) (auto simp: g body_bytes_def simp del: fun_upd_apply)
  next
    case False
    then obtain blk where resp: "L' = conclude env ?i (serve_loop env f ?i (rs_end rs) 0 blk a (start_transfer L))"
      "resp = transfer_response (ranged \<or> a \<noteq> 0 \<or> rs_end rs \<noteq> fl_size f - 1) f a (rs_end rs)
         (serve_loop env f ?i (rs_end rs) 0 blk a (start_transfer L))"
      using assms(4) by (auto simp: send_range_def Let_def content_status_def split: if_splits option.splits)
    let ?t = "serve_loop env f ?i (rs_end rs) 0 blk a (start_transfer L)"
    have rec0: "recorded (tr_ledger (start_transfer L)) ?i (a - 1)" using assms(2) by (simp add: start_transfer_def)
    obtain n where n: "0 \<le> n" "int (length (tr_body ?t)) = n"
      "xfer_steps (L, g) (tr_ledger ?t, g(?i := a - 1 + n))"
      "tr_settle ?t \<longrightarrow> recorded (tr_ledger ?t) ?i (a - 1 + n)"
      using serve_loop_steps [of env "start_transfer L" ?i a g f "rs_end rs" 0 blk, OF assms(1) rec0 assms(3)]
      by (auto simp: start_transfer_def)
    have "tr_settle ?t \<longrightarrow> recorded (tr_ledger ?t) ?i ((g(?i := a - 1 + n)) ?i)" using n(4) by simp
    then have c: "xfer_steps (tr_ledger ?t, g(?i := a - 1 + n)) (L', g(?i := a - 1 + n))"
      unfolding resp(1) by (rule conclude_steps)
    have "body_bytes resp = n \<or> (\<not> content_status resp \<and> body_bytes resp = 0)"
    proof (cases "content_status resp")
      case True
      then have "tr_late ?t = None" using transfer_response_content resp(2) by blast
      with True n(2) show ?thesis by (simp add: body_bytes_def resp(2) transfer_response_def)
    qed (simp add: body_bytes_def)
    then show ?thesis using n(1) xfer_steps_trans [OF n(3) c] by (intro exI [of _ "a - 1 + n"]) auto
  qed
qed

lemma admission_refusal_steps:
  "admit_download env p L = Inl (status, code, L') \<Longrightarrow> xfer_steps (L, g) (L', g)"
  by (auto simp: admit_download_def Let_def split: if_splits sum.splits
      intro!: xfer_steps_refl xfer_steps_one xs_other close_expired_frame)

lemma empty_download_steps: "empty_download env p f L = (resp, L') \<Longrightarrow> xfer_steps (L, g) (L', g) \<and> (content_status resp \<longrightarrow> rp_body resp = [])"
proof -
  obtain res M where m: "finish_empty (fst (dr_tx env)) (snd (dr_tx env)) (dr_sign env) (dr_clock env) (dr_stamp env 1) p L = (res, M)"
    by (metis surj_pair)
  have "xfer_steps (L, g) (M, g)" using m by (intro xfer_steps_one xs_empty)
  then show "empty_download env p f L = (resp, L') \<Longrightarrow> xfer_steps (L, g) (L', g) \<and> (content_status resp \<longrightarrow> rp_body resp = [])"
    using m by (auto simp: empty_download_def content_status_def xfer_steps_refl split: if_splits sum.splits)
qed

lemma reserve_id: 
  assumes "xfer_reach L g" "reserve be ce clk at p a b L = (Inr rs, L1)"
  shows "rs_id rs = next_request_id L"
proof -
  have "inv_cov L" using xfer_reach_inv [OF assms(1)] by (simp add: xfer_inv_def)
  moreover have "reserve_body clk at p a b L = Inr (rs, L1)" using assms(2) unfolding reserve_def by (rule tx_ok)
  ultimately show ?thesis by (auto elim!: reserve_body_InrE)
qed


subsection \<open>A concrete door\<close>

definition door_content :: bytes where
  "door_content = ''0123456789''"

definition door_fid :: string where
  "door_fid = ''0123456789abcdef0123456789abcdef''"

definition door_uuid :: string where
  "door_uuid = ''01234567-89ab-cdef-0123-456789abcdef''"

definition door_permission :: permission where
  "door_permission = \<lparr>p_aud = door_uuid, p_oid = door_uuid, p_lvid = door_uuid, p_fid = door_fid,
     p_sha = door_fid @ door_fid, p_jti = door_uuid, p_iat = 1, p_sd = 100, p_td = 200, p_ro = 0\<rparr>"

definition door_decoders :: decoders where
  "door_decoders = \<lparr>dc_header = (\<lambda>_. Inr \<lparr>hd_alg = ''EdDSA'', hd_typ = ''aim-permission+jwt'', hd_kid = ''k''\<rparr>),
     dc_fields = (\<lambda>_. Inr (map (\<lambda>n. (n, ''1'')) permission_names)),
     dc_permission = (\<lambda>_. Inr door_permission), dc_instruction = (\<lambda>_. Inl ErrStorage)\<rparr>"

definition door_crypto :: "unit crypto" where
  "door_crypto = \<lparr>cr_sign = (\<lambda>_ m. m), cr_private_ok = (\<lambda>_. True), cr_verify = (\<lambda>k m s. True)\<rparr>"

definition door_file :: file_row where
  "door_file = \<lparr>fl_fid = door_fid, fl_source = ''s'', fl_path = ''p'', fl_size = 10, fl_mtime = ''m'',
     fl_sha = door_fid @ door_fid, fl_block_size = window, fl_hashes = [door_content], fl_name = ''n'',
     fl_root = ''r'', fl_changed = 0\<rparr>"

definition door_ledger :: ledger where
  "door_ledger = empty_ledger\<lparr>lg_files := [door_file], lg_offers := [\<lparr>of_fid = door_fid,
     of_sha = door_fid @ door_fid, of_lvid = door_uuid, of_iid = ''i'', of_state = ''offered'',
     of_approved_at = None, of_key_class = ''listing''\<rparr>]\<rparr>"

definition door_demo :: "unit door_env" where
  "door_demo = \<lparr>dr_gid = door_uuid, dr_config = demo_config, dr_crypto = door_crypto, dr_decoders = door_decoders,
     dr_keys = [(''k'', door_fid)], dr_private = (), dr_kid = ''g'', dr_glob = (\<lambda>_ _. False),
     dr_real = (\<lambda>_. Some ''r''), dr_sha = (\<lambda>b. b), dr_sign = demo_sign, dr_now = 5, dr_offer_fault = None,
     dr_perm_fault = None, dr_file_fault = None, dr_close_fault = False, dr_mark_fault = False,
     dr_stamp = (\<lambda>_. ''t''), dr_clock = (\<lambda>_. 5), dr_tx = (None, None), dr_settle_tx = (None, None),
     dr_io = \<lparr>fo_root = True, fo_open = True, fo_stat = Some (True, 10),
       fo_read = (\<lambda>_ s n. (take n (drop (nat s) door_content), True))\<rparr>,
     dr_net = (\<lambda>_ _ b. (int (length b), None)), dr_wclock = (\<lambda>_. demo_clock),
     dr_wtx = (\<lambda>_. (\<lambda>_. (None, None), (None, None))), dr_retries = []\<rparr>"

definition door_request :: http_request where
  "door_request = \<lparr>hr_method = ''GET'', hr_path = ''/v1/files/'' @ door_fid, hr_auth = ''Bearer e30.e30.e30'',
     hr_query = [], hr_range = ''bytes=2-5''\<rparr>"

lemma door_download: "rp_status (fst (download door_demo door_fid door_request door_ledger)) = 206
    \<and> rp_body (fst (download door_demo door_fid door_request door_ledger)) = ''2345''"
  by code_simp

lemma door_downloads: "download door_demo door_fid door_request door_ledger
    = (fst (download door_demo door_fid door_request door_ledger), snd (download door_demo door_fid door_request door_ledger))"
  by simp

lemma door_content_status: "content_status (fst (download door_demo door_fid door_request door_ledger))"
  using door_download by (simp add: content_status_def)

lemma door_inventoried: "inventoried (dr_sha door_demo) door_file door_content"
  by (simp add: inventoried_def door_demo_def door_file_def block_of_def slice_def window_def)
    (simp add: door_content_def)

lemma door_reach: "xfer_reach door_ledger g"
proof -
  have "xfer_frame empty_ledger door_ledger"
    by (rule xfer_frame_perms_same) (simp_all add: door_ledger_def)
  then show ?thesis by (rule xr_step [OF xr_start xs_other])
qed

lemma door_file_of: "file_of door_fid door_ledger = Some door_file"
  by code_simp

theorem download_sends_content_witness:
  "\<exists>a n. rp_body (fst (download door_demo door_fid door_request door_ledger)) = slice door_content a n"
  using download_sends_content [OF door_downloads door_content_status door_file_of door_inventoried] door_download
  by auto


subsection \<open>Who gets the content\<close>

text \<open>The permission row as the door requires it: of this order, file and digest, and neither
  closed nor revoked; a first use needs a standing offer and the start deadline ahead.\<close>

definition row_usable :: "permission \<Rightarrow> perm_row \<Rightarrow> bool" where
  "row_usable p q \<longleftrightarrow> pr_oid q = p_oid p \<and> pr_fid q = p_fid p \<and> pr_sha q = p_sha p
     \<and> pr_state q \<noteq> ''closed'' \<and> pr_state q \<noteq> ''revoked''"

definition offered_now :: "permission \<Rightarrow> ledger \<Rightarrow> bool" where
  "offered_now p L \<longleftrightarrow> (\<exists>x. offer_of (p_fid p) (p_sha p) (p_lvid p) L = Some x
     \<and> of_state x = ''offered'' \<and> of_key_class x = ''listing'')"

definition bound_now :: "permission \<Rightarrow> ledger \<Rightarrow> bool" where
  "bound_now p L \<longleftrightarrow> (\<exists>q. permission_of (p_jti p) L = Some q \<and> pr_state q = ''bound'')"

definition approved_now :: "permission \<Rightarrow> ledger \<Rightarrow> bool" where
  "approved_now p L \<longleftrightarrow> (\<exists>x. offer_of (p_fid p) (p_sha p) (p_lvid p) L = Some x \<and> of_approved_at x \<noteq> None)"

lemma query_not_hard: "\<not> hard_error (query fault row) \<Longrightarrow> fault \<noteq> Some ErrNoRows
    \<Longrightarrow> query fault row = (case row of None \<Rightarrow> Inl ErrNoRows | Some x \<Rightarrow> Inr x)"
  by (auto simp: query_def hard_error_def split: option.splits)

lemma admission_sound:
  assumes "admit_download env p L = Inr f" and "dr_offer_fault env \<noteq> Some ErrNoRows" and "dr_perm_fault env \<noteq> Some ErrNoRows"
  shows "file_of (p_fid p) L = Some f \<and> \<not> file_changed f \<and> fl_sha f = p_sha p \<and> valid_blocks f
    \<and> within_ceiling (dr_glob env) (dr_real env) (dr_config env) f
    \<and> (cfg_requires_local_approval (dr_config env) \<longrightarrow> approved_now p L)
    \<and> dr_now env < p_td p
    \<and> (\<forall>q. permission_of (p_jti p) L = Some q \<longrightarrow> row_usable p q)
    \<and> (bound_now p L \<or> (offered_now p L \<and> dr_now env < p_sd p))"
proof -
  let ?oq = "query (dr_offer_fault env) (offer_of (p_fid p) (p_sha p) (p_lvid p) L)"
  let ?sq = "query (dr_perm_fault env) (permission_of (p_jti p) L)"
  have soft: "\<not> hard_error ?oq" "\<not> hard_error ?sq"
    using assms(1) by (auto simp: admit_download_def Let_def split: if_splits)
  note oq = query_not_hard [OF soft(1) assms(2)] and sq = query_not_hard [OF soft(2) assms(3)]
  have known: "file_of (p_fid p) L = Some f" by (rule admission_file [OF assms(1)])
  have rest: "is_bound p ?sq \<or> (stands_offered ?oq \<and> dr_now env < p_sd p)" "\<not> file_changed f"
    "fl_sha f = p_sha p" "valid_blocks f" "within_ceiling (dr_glob env) (dr_real env) (dr_config env) f"
    "cfg_requires_local_approval (dr_config env) \<longrightarrow> approved_locally ?oq" "dr_now env < p_td p" "\<not> closed_row p ?sq"
    using assms(1) soft known by (auto simp: admit_download_def Let_def split: if_splits sum.splits)
  have row: "\<forall>q. permission_of (p_jti p) L = Some q \<longrightarrow> row_usable p q"
    using rest(8) by (auto simp: sq closed_row_def row_usable_def)
  have b: "is_bound p ?sq \<Longrightarrow> bound_now p L"
    by (auto simp: sq is_bound_def bound_now_def split: option.splits)
  have off: "stands_offered ?oq \<Longrightarrow> offered_now p L"
    by (auto simp: oq stands_offered_def offered_now_def split: option.splits)
  have app: "approved_locally ?oq \<Longrightarrow> approved_now p L"
    by (auto simp: oq approved_locally_def approved_now_def split: option.splits)
  show ?thesis using known rest row b off app by blast
qed

text \<open>C6: Content is answered only under a permission that the token of the request carries and a
  trusted key signed, made for this gateway and this file, within its deadlines, neither
  revoked, closed nor completed, on a file that is unchanged, within the configured ceiling,
  offered (or the order already bound) and locally approved where that is required.\<close>

theorem download_admits:
  assumes "download env fid r L = (resp, L')" and "content_status resp"
    and "dr_offer_fault env \<noteq> Some ErrNoRows" and "dr_perm_fault env \<noteq> Some ErrNoRows"
  shows "\<exists>token p f. bearer_token r = Inr token
    \<and> verify_permission (dr_crypto env) (dr_decoders env) token (dr_keys env) = Inr p
    \<and> p_aud p = dr_gid env \<and> p_fid p = fid \<and> file_of fid L = Some f \<and> \<not> file_changed f \<and> fl_sha f = p_sha p
    \<and> within_ceiling (dr_glob env) (dr_real env) (dr_config env) f
    \<and> (cfg_requires_local_approval (dr_config env) \<longrightarrow> approved_now p L)
    \<and> dr_now env < p_td p \<and> \<not> is_revoked (p_jti p) L \<and> \<not> is_completed (p_oid p) fid L
    \<and> (\<forall>q. permission_of (p_jti p) L = Some q \<longrightarrow> row_usable p q)
    \<and> (bound_now p L \<or> (offered_now p L \<and> dr_now env < p_sd p))"
proof -
  obtain p f where pf: "check_request env fid r = Inr p" "admit_download env p L = Inr f"
    and ledger_ok: "\<not> is_revoked (p_jti p) L \<and> \<not> is_completed (p_oid p) (p_fid p) L"
    using assms(1,2)
  proof (cases rule: download_content_cases)
    case (empty p f)
    then have "finish_empty_body (dr_sign env) (dr_clock env) (dr_stamp env 1) p L = Inr ((), L')"
      unfolding finish_empty_def by (metis tx_ok)
    then have "\<not> is_revoked (p_jti p) L \<and> \<not> is_completed (p_oid p) (p_fid p) L"
      by (auto simp: finish_empty_body_def finish_empty_refusal_def split: option.splits if_splits)
    with empty that show thesis by blast
  next
    case (range p f a b ranged rs L1 blk t)
    then have "reserve_body (dr_clock env) (dr_stamp env 2) p a b L = Inr (rs, L1)"
      unfolding reserve_def by (metis tx_ok)
    then have "reserve_refusal (dr_clock env) p L = None" by (auto simp: reserve_body_def split: option.splits)
    then have "\<not> is_revoked (p_jti p) L \<and> \<not> is_completed (p_oid p) (p_fid p) L"
      by (auto simp: reserve_refusal_def Let_def split: if_splits)
    with range that show thesis by blast
  qed
  obtain token where t: "bearer_token r = Inr token"
    "verify_permission (dr_crypto env) (dr_decoders env) token (dr_keys env) = Inr p"
    "p_aud p = dr_gid env" "p_fid p = fid"
    using pf(1) by (auto simp: check_request_def split: sum.splits if_splits)
  show ?thesis using t admission_sound [OF pf(2) assms(3,4)] ledger_ok by blast
qed

theorem download_admits_witness:
  "\<exists>p. verify_permission door_crypto door_decoders ''e30.e30.e30'' [(''k'', door_fid)] = Inr p \<and> offered_now p door_ledger"
proof -
  have t: "bearer_token door_request = Inr ''e30.e30.e30''" by code_simp
  have "dr_offer_fault door_demo \<noteq> Some ErrNoRows" "dr_perm_fault door_demo \<noteq> Some ErrNoRows"
    by (simp_all add: door_demo_def)
  from download_admits [OF door_downloads door_content_status this]
  obtain p where "verify_permission (dr_crypto door_demo) (dr_decoders door_demo) ''e30.e30.e30'' (dr_keys door_demo) = Inr p"
    "bound_now p door_ledger \<or> offered_now p door_ledger" using t by auto
  moreover have "\<not> bound_now p door_ledger" by (simp add: bound_now_def permission_of_def door_ledger_def empty_ledger_def)
  ultimately show ?thesis by (auto simp: door_demo_def)
qed

end
