(* ===== verification/DoorLive.thy ===== *)
theory DoorLive
  imports DoorProps
begin

text \<open>
  A download that nothing disturbs delivers its whole range: a liveness theorem about the
  composition of the door, the block hashes, the write loop and the checkpoints. Undisturbed
  means that the disk still has the inventoried bytes, the network takes what it is given,
  no storage fault occurs and the deadline is ahead.
\<close>

subsection \<open>A checkpoint succeeds\<close>

text \<open>A request that can go on: open, bound, before its end, with its last byte never sent.\<close>

definition can_send :: "file_row \<Rightarrow> int \<Rightarrow> perm_row \<Rightarrow> int \<Rightarrow> int \<Rightarrow> ledger \<Rightarrow> bool" where
  "can_send f i p stop w L \<longleftrightarrow> (\<exists>r. request_of i L = Some r \<and> permission_of (rq_jti r) L = Some p
     \<and> rq_open r \<and> rq_written r = w \<and> rq_end r = stop \<and> pr_state p = ''bound''
     \<and> file_of (pr_fid p) L = Some f \<and> \<not> is_completed (pr_oid p) (pr_fid p) L
     \<and> seg_unit (segments Transmitted (pr_oid p) (pr_fid p) L)
     \<and> (w < stop \<longrightarrow> seg_count (segments Transmitted (pr_oid p) (pr_fid p) L) stop = 0))"

definition always_signs :: "signer \<Rightarrow> bool" where
  "always_signs sg \<longleftrightarrow> (\<forall>r. \<not> isl (sg r))"

lemma queue_progress:
  assumes "always_signs sg" and "file_of fid L = Some f"
  shows "\<exists>body. queue_tx sg at oid fid ''in_progress'' False L
    = Inr (L\<lparr>lg_outbox := lg_outbox L @ [\<lparr>ob_seq = next_receipt_seq L, ob_body = body, ob_sent_at = None\<rparr>]\<rparr>)"
proof -
  obtain r where r: "receipt_body at oid fid ''in_progress'' (next_receipt_seq L) L = Inr r"
    by (simp add: receipt_body_def Let_def assms(2))
  have "\<not> isl (sg r)" using assms(1) by (simp add: always_signs_def)
  then obtain body where "sg r = Inr body" by (cases "sg r") auto
  with r show ?thesis by (intro exI [of _ body]) (simp add: queue_tx_def Let_def)
qed

lemma progress_succeeds:
  assumes "can_send f i p stop w L" and "always_signs sg" and "w < w'" and "w' \<le> stop"
  shows "\<exists>L'. progress None None sg at i w' L = (Inr (), L') \<and> can_send f i p stop w' L'"
proof -
  obtain r where r: "request_of i L = Some r" "permission_of (rq_jti r) L = Some p" "rq_open r"
      "rq_written r = w" "rq_end r = stop" "pr_state p = ''bound''" "file_of (pr_fid p) L = Some f"
      "\<not> is_completed (pr_oid p) (pr_fid p) L" "seg_unit (segments Transmitted (pr_oid p) (pr_fid p) L)"
      "seg_count (segments Transmitted (pr_oid p) (pr_fid p) L) stop = 0"
    using assms(1,3,4) by (auto simp: can_send_def)
  let ?tr = "segments Transmitted (pr_oid p) (pr_fid p) L"
  let ?mr = "mark_range ?tr (w + 1) w'"
  let ?L1 = "set_written i w' (rewritten Transmitted (pr_oid p) (pr_fid p) ?mr L)"
  have unit: "seg_unit ?mr" by (rule seg_unit_mark_range [OF r(9)])
  then have wf: "seg_wf ?mr" by (simp add: seg_unit_def)
  have f1: "file_of (pr_fid p) ?L1 = Some f" using r(7) by (simp add: file_of_def set_written_def)
  obtain body where q: "queue_tx sg at (pr_oid p) (pr_fid p) ''in_progress'' False ?L1
      = Inr (?L1\<lparr>lg_outbox := lg_outbox ?L1 @ [\<lparr>ob_seq = next_receipt_seq ?L1, ob_body = body, ob_sent_at = None\<rparr>]\<rparr>)"
    using queue_progress [OF assms(2) f1] by blast
  define L' where "L' = ?L1\<lparr>lg_outbox := lg_outbox ?L1 @ [\<lparr>ob_seq = next_receipt_seq ?L1, ob_body = body, ob_sent_at = None\<rparr>]\<rparr>"
  have body: "progress_body sg at i w' L = Inr ((), L')"
    using r assms(3,4) q by (simp add: progress_body_def joined_request_def rewrite_eq [OF wf] L'_def)
  obtain r' where "request_of i L = Some r'" "request_of i L' = Some (r'\<lparr>rq_written := w'\<rparr>)"
    by (rule progress_body_request [OF body])
  with r(1) have req: "request_of i L' = Some (r\<lparr>rq_written := w'\<rparr>)" by simp
  have fields: "lg_perms L' = lg_perms L" "lg_files L' = lg_files L" "lg_completed L' = lg_completed L"
    by (simp_all add: L'_def set_written_def)
  have "segments Transmitted (pr_oid p) (pr_fid p) L'
      = segments Transmitted (pr_oid p) (pr_fid p) (rewritten Transmitted (pr_oid p) (pr_fid p) ?mr L)"
    by (simp add: L'_def set_written_def segments_def)
  then have seg: "segments Transmitted (pr_oid p) (pr_fid p) L' = ?mr"
    by (simp add: segments_rewritten [OF wf] set_count_one_unit [OF unit])
  have "can_send f i p stop w' L'"
    using r req fields unit assms(3)
    by (simp add: can_send_def seg seg_count_mark_range [OF r(9)] permission_of_def file_of_def is_completed_def)
  then show ?thesis using body by (auto simp: progress_def tx_def)
qed

subsection \<open>A call of WriteChunk succeeds\<close>

definition takes_all :: "writer \<Rightarrow> bool" where
  "takes_all wr \<longleftrightarrow> (\<forall>k b. wr k b = (int (length b), None))"

definition clock_before :: "int \<Rightarrow> write_clock \<Rightarrow> bool" where
  "clock_before td wc \<longleftrightarrow> wc_entry wc < td \<and> (\<forall>k. wc_loop wc k < td) \<and> wc_exit wc < td"

lemma write_loop_all:
  assumes "takes_all wr" and "\<forall>k. clk k < td" and "data \<noteq> []" and "int (length data) \<le> window"
  shows "write_loop sg at wr clk pf td i old data 0 0 0 L = (WriteDone None, int (length data), 0, L)"
proof -
  let ?n = "int (length data)"
  have sl: "slice data 0 ?n = data" by (simp add: slice_def)
  have lim: "min ?n (0 + window) = ?n" "min ?n window = ?n" using assms(4) by simp_all
  have td: "\<not> clk 0 \<ge> td" using assms(2) by (simp add: not_le)
  have wr: "wr 0 data = (?n, None)" using assms(1) by (simp add: takes_all_def)
  have r: "write_round sg at wr clk pf td i old data 0 0 0 L = Inr (?n, 0, L)"
    using assms(3) td wr by (simp add: write_round_def Let_def lim sl del: length_greater_0_conv)
  have "write_loop sg at wr clk pf td i old data 1 ?n 0 L = (WriteDone None, ?n, 0, L)"
    by (simp add: write_loop.simps)
  then show ?thesis using r assms(3)
    by (subst write_loop.simps) simp
qed

lemma write_chunk_all:
  assumes "can_send f i p stop w L" and "always_signs sg" and "takes_all wr" and "clock_before (pr_td p) wc"
    and "data \<noteq> []" and "int (length data) \<le> window" and "w + int (length data) \<le> stop" and "stop < fl_size f" and "0 \<le> stop"
  shows "\<exists>L'. write_chunk sg at wr wc pf (None, None) i data L = ((int (length data), None), L')
    \<and> can_send f i p stop (w + int (length data)) L' \<and> reaches_network at wc i data L"
proof -
  have less: "w < stop" using assms(5,7) by (cases data) auto
  obtain r where r: "request_of i L = Some r" "permission_of (rq_jti r) L = Some p" "rq_open r"
      "rq_written r = w" "rq_end r = stop" "pr_state p = ''bound''" "file_of (pr_fid p) L = Some f"
      "\<not> is_completed (pr_oid p) (pr_fid p) L" "seg_unit (segments Transmitted (pr_oid p) (pr_fid p) L)"
      "seg_count (segments Transmitted (pr_oid p) (pr_fid p) L) stop = 0"
    using assms(1,7) less by (auto simp: can_send_def)
  have "\<not> covered (segments Transmitted (pr_oid p) (pr_fid p) L) 0 (fl_size f - 1)"
    using covered_counts [of "segments Transmitted (pr_oid p) (pr_fid p) L" 0 "fl_size f - 1" stop] r(9,10) assms(8,9)
    by (auto simp: seg_unit_def)
  moreover have td: "wc_entry wc < pr_td p" "\<forall>k. wc_loop wc k < pr_td p" "wc_exit wc < pr_td p"
    using assms(4) by (auto simp: clock_before_def)
  ultimately have ok: "write_refusal at wc r p f data L = None"
    using r assms(5,7,8,9) by (simp add: write_refusal_def)
  obtain L' where L': "progress None None sg at i (w + int (length data)) L = (Inr (), L')"
      "can_send f i p stop (w + int (length data)) L'"
    using progress_succeeds [OF assms(1,2), of "w + int (length data)" at] assms(5,7) by auto
  have "write_chunk sg at wr wc pf (None, None) i data L = ((int (length data), None), L')"
    using r ok L'(1) assms(5) td(3)
    by (simp add: write_chunk_def joined_request_def write_loop_all [OF assms(3) td(2) assms(5,6)] write_finish_def)
  moreover have "reaches_network at wc i data L"
    using r ok td(2) by (simp add: reaches_network_def joined_request_def)
  ultimately show ?thesis using L'(2) by blast
qed

subsection \<open>The loop delivers the range\<close>

text \<open>The disk still holds the inventoried content, and the block hashes are those of the content.\<close>

definition intact :: "'k door_env \<Rightarrow> file_row \<Rightarrow> bytes \<Rightarrow> bool" where
  "intact env f content \<longleftrightarrow> fl_size f = int (length content) \<and> valid_blocks f
     \<and> fo_root (dr_io env) \<and> fo_open (dr_io env) \<and> map_option fst (fo_stat (dr_io env)) = Some True
     \<and> (\<forall>k s n. fo_read (dr_io env) k s n = (take n (drop (nat s) content), True))
     \<and> (\<forall>index < length (fl_hashes f). dr_sha env (block_of content (int index)) = fl_hashes f ! index)"

definition undisturbed :: "'k door_env \<Rightarrow> int \<Rightarrow> bool" where
  "undisturbed env td \<longleftrightarrow> always_signs (dr_sign env)
     \<and> (\<forall>k. takes_all (dr_net env k) \<and> clock_before td (dr_wclock env k) \<and> snd (dr_wtx env k) = (None, None))"

definition short_block :: "bytes \<Rightarrow> int \<times> bytes \<Rightarrow> int \<Rightarrow> bool" where
  "short_block content blk pos \<longleftrightarrow> held_block content blk \<and> fst blk \<le> pos \<and> int (length (snd blk)) \<le> window"

lemma read_block_intact:
  assumes "intact env f content" and "0 \<le> pos" and "pos < fl_size f"
  shows "\<exists>blk. read_block env f k pos = Some blk \<and> short_block content blk pos \<and> pos < fst blk + int (length (snd blk))"
proof -
  let ?i = "pos div window"
  let ?len = "nat (min window (fl_size f - ?i * window))"
  let ?b = "take ?len (drop (nat (?i * window)) content)"
  have w: "0 < window" by (simp add: window_def)
  have eq: "?i * window + pos mod window = pos" by (rule div_mult_mod_eq)
  have m: "0 \<le> pos mod window" "pos mod window < window" using w by simp_all
  have i: "0 \<le> ?i" "?i * window \<le> pos" "pos < ?i * window + window" "0 \<le> ?i * window"
    using assms(2) w eq m by (simp add: pos_imp_zdiv_nonneg_iff, linarith, linarith, simp add: pos_imp_zdiv_nonneg_iff)
  have size': "fl_size f = int (length content)" using assms(1) by (simp add: intact_def)
  have len: "int ?len = min window (fl_size f - ?i * window)" using i assms(3) w by simp
  have "int ?len + ?i * window \<le> int (length content)" using len size' by simp
  then have "?len \<le> length content - nat (?i * window)" using i(4) by linarith
  then have lb: "length ?b = ?len" by simp
  have hi: "min (int (length content)) ((?i + 1) * window) = ?i * window + int ?len"
    unfolding len by (simp add: size' min_def algebra_simps)
  have blk: "?b = block_of content ?i"
    unfolding block_of_def hi slice_def by (simp del: int_nat_eq)
  have "?i < (fl_size f + window - 1) div window"
  proof -
    have "?i * window + window \<le> fl_size f + window - 1" using i(2) assms(3) by simp
    then have "(?i + 1) * window \<le> fl_size f + window - 1" by (simp add: algebra_simps)
    then have "?i + 1 \<le> (fl_size f + window - 1) div window" using w by (metis nonzero_mult_div_cancel_right order_less_irrefl zdiv_mono1)
    then show ?thesis by simp
  qed
  then have idx: "?i < int (length (fl_hashes f))" using assms(1) by (simp add: intact_def valid_blocks_def)
  then have idx': "nat ?i < length (fl_hashes f)" using i(1) by simp
  have "\<forall>index < length (fl_hashes f). dr_sha env (block_of content (int index)) = fl_hashes f ! index"
    using assms(1) by (simp add: intact_def)
  then have h: "dr_sha env ?b = fl_hashes f ! nat ?i" using idx' i(1) unfolding blk by (metis int_nat_eq)
  have rd: "fo_read (dr_io env) k (?i * window) ?len = (?b, True)" using assms(1) by (simp add: intact_def)
  have "read_block env f k pos = Some (?i * window, ?b)"
    using idx h lb by (simp only: read_block_def Let_def rd prod.case) simp
  moreover have "held_block content (?i * window, ?b)"
    using i(4) len lb assms(3) i(2) by (simp add: held_block_def size' slice_def)
  moreover have "pos < ?i * window + int (length ?b)" using lb len i assms(3) by simp
  moreover have "int (length ?b) \<le> window" using lb len by simp
  ultimately show ?thesis using i(2)
    by (intro exI [of _ "(?i * window, ?b)"] conjI) (simp_all only: short_block_def fst_conv snd_conv simp_thms)
qed

lemma serve_loop_delivers:
  assumes "undisturbed env (pr_td p)" and "intact env f content" and "stop < fl_size f"
    and "can_send f i p stop (pos - 1) (tr_ledger t)" and "short_block content blk pos"
    and "0 \<le> start" and "start \<le> pos" and "pos \<le> stop + 1" and "tr_body t = slice content start pos"
  shows "\<exists>L'. serve_loop env f i stop k blk pos t = t\<lparr>tr_ledger := L',
      tr_body := slice content start (stop + 1), tr_committed := tr_committed t \<or> pos \<le> stop\<rparr>
    \<and> can_send f i p stop stop L'"
  using assms
proof (induction env f i stop k blk pos t rule: serve_loop.induct)
  case (1 env f i stop k blk pos t)
  note unfolded = serve_loop.simps [of env f i stop k blk pos t]
  show ?case
  proof (cases "pos > stop")
    case True
    then have "pos = stop + 1" using "1.prems"(8) by simp
    then have body: "slice content start (stop + 1) = tr_body t" "can_send f i p stop stop (tr_ledger t)"
      using "1.prems"(4,9) by simp_all
    have "serve_loop env f i stop k blk pos t = t" using True by (simp add: unfolded)
    with True body show ?thesis by (intro exI [of _ "tr_ledger t"]) simp
  next
    case False
    have pos0: "0 \<le> pos" "pos < fl_size f" using "1.prems"(3,6,7) False by auto
    obtain blk' where b: "current_block env f k blk pos = Some blk'" "short_block content blk' pos"
        "pos < fst blk' + int (length (snd blk'))"
      using read_block_intact [OF "1.prems"(2) pos0, of k] "1.prems"(5)
      by (cases "pos \<ge> fst blk + int (length (snd blk))") (auto simp: current_block_def)
    let ?data = "chunk_of blk' pos stop"
    let ?e = "min (fst blk' + int (length (snd blk'))) (stop + 1)"
    have h: "held_block content blk'" "fst blk' \<le> pos" "int (length (snd blk')) \<le> window" using b(2) by (auto simp: short_block_def)
    have ps: "pos \<le> stop" using False by simp
    note c = chunk_of_held [OF h(1,2) b(3) ps]
    have len: "int (length ?data) = ?e - pos" "0 < int (length ?data)" "int (length ?data) \<le> window"
      using c b(3) ps h(2,3) by auto
    have und: "always_signs (dr_sign env)" "takes_all (dr_net env k)" "clock_before (pr_td p) (dr_wclock env k)"
      "snd (dr_wtx env k) = (None, None)" using "1.prems"(1) by (auto simp: undisturbed_def)
    have room: "?data \<noteq> []" "pos - 1 + int (length ?data) \<le> stop" "0 \<le> stop" using len pos0 ps by auto
    obtain L' where L': "write_chunk (dr_sign env) (dr_stamp env (k + 4)) (dr_net env k) (dr_wclock env k)
          (fst (dr_wtx env k)) (None, None) i ?data (tr_ledger t) = ((int (length ?data), None), L')"
        "can_send f i p stop (pos - 1 + int (length ?data)) L'"
        "reaches_network (dr_stamp env (k + 4)) (dr_wclock env k) i ?data (tr_ledger t)"
      using write_chunk_all [OF "1.prems"(4) und(1-3) room(1) len(3) room(2) "1.prems"(3) room(3)] by blast
    let ?t = "t\<lparr>tr_ledger := L', tr_body := slice content start ?e, tr_committed := True\<rparr>"
    have "tr_body t @ ?data = slice content start ?e"
      using c ps b(3) "1.prems"(6,7,9) by (simp add: slice_append)
    then have s: "send_chunk env i stop k blk' pos t = ((?e - pos, None), ?t)"
      using L' und(4) len(1) by (simp add: send_chunk_def Let_def is_err_def is_progress_def)
    have n: "\<not> ((None :: gw_error option) \<noteq> None \<or> ?e - pos = 0)" using b(3) ps by auto
    have e: "pos + (?e - pos) = ?e" "pos - 1 + int (length ?data) = ?e - 1" using len(1) by simp_all
    have sb: "short_block content blk' ?e" using h b(3) ps by (simp add: short_block_def)
    have cs: "can_send f i p stop (?e - 1) (tr_ledger ?t)" using L'(2) e(2) by simp
    have "\<exists>M. serve_loop env f i stop (k + 1) blk' ?e ?t = ?t\<lparr>tr_ledger := M,
        tr_body := slice content start (stop + 1), tr_committed := tr_committed ?t \<or> ?e \<le> stop\<rparr> \<and> can_send f i p stop stop M"
      using "1.IH" [OF False b(1) s [symmetric] refl n "1.prems"(1-3), unfolded e(1), OF cs sb "1.prems"(6)] "1.prems"(7) len
      by simp
    then obtain M where M: "serve_loop env f i stop (k + 1) blk' ?e ?t = ?t\<lparr>tr_ledger := M,
        tr_body := slice content start (stop + 1), tr_committed := tr_committed ?t \<or> ?e \<le> stop\<rparr>" "can_send f i p stop stop M"
      by blast
    have "serve_loop env f i stop k blk pos t = serve_loop env f i stop (k + 1) blk' ?e ?t"
      using False b(1) s n e(1) by (simp add: unfolded)
    with M ps show ?thesis by (intro exI [of _ M]) simp
  qed
qed

subsection \<open>From the request to the answer\<close>

lemma bind_permission_bound:
  assumes "bind_permission at p L = Inr L1" and "reserve_refusal clk p L = None"
  shows "\<exists>q. permission_of (p_jti p) L1 = Some q \<and> pr_state q = ''bound'' \<and> row_matches p q"
proof (cases "permission_of (p_jti p) L")
  case None
  then show ?thesis using assms(1)
    by (auto simp: bind_permission_def Let_def row_state_def permission_of_def new_perm_row_def row_matches_def
        select_row_append split: if_splits)
next
  case (Some q)
  with assms(2) have m: "row_matches p q" by (auto simp: reserve_refusal_def Let_def split: if_splits)
  have sel: "select_row (\<lambda>r. pr_jti r = p_jti p) (lg_perms L) = Some q" "pr_jti q = p_jti p"
    using Some select_row_Some [of "\<lambda>r. pr_jti r = p_jti p"] by (auto simp: permission_of_def)
  show ?thesis
  proof (cases "pr_state q = ''bound''")
    case True
    then have "L1 = L" using assms(1) Some by (simp add: bind_permission_def Let_def row_state_def)
    with True Some m show ?thesis by simp
  next
    case False
    then have "L1 = L\<lparr>lg_perms := update_rows (\<lambda>r. pr_jti r = p_jti p)
        (\<lambda>r. r\<lparr>pr_state := ''bound'', pr_bound_at := Some at\<rparr>) (lg_perms L)\<rparr>"
      using assms(1) Some by (auto simp: bind_permission_def Let_def row_state_def split: if_splits)
    then show ?thesis using sel m by (simp add: permission_of_def select_update_rows row_matches_def)
  qed
qed

lemma bind_permission_fields:
  "bind_permission at p L = Inr L1 \<Longrightarrow> lg_files L1 = lg_files L \<and> lg_completed L1 = lg_completed L"
  by (auto simp: bind_permission_def Let_def split: if_splits option.splits)

lemma reserve_can_send:
  assumes "xfer_reach L g" and "reserve be ce clk at p a b L = (Inr rs, L1)" and "file_of (p_fid p) L = Some f"
    and "seg_count (segments Transmitted (p_oid p) (p_fid p) L) (rs_end rs) = 0"
  shows "\<exists>q. can_send f (rs_id rs) q (rs_end rs) (a - 1) L1 \<and> pr_td q = p_td p"
proof -
  have inv: "inv_cov L" using xfer_reach_inv [OF assms(1)] by (simp add: xfer_inv_def)
  have "reserve_body clk at p a b L = Inr (rs, L1)" using assms(2) unfolding reserve_def by (rule tx_ok)
  then obtain M e1 isol where m: "reserve_refusal clk p L = None" "bind_permission at p L = Inr M"
    "L1 = insert_request (p_jti p) a e1 isol (rewritten Serves (p_oid p) (p_fid p)
        (transform (segments Serves (p_oid p) (p_fid p) L) a e1 1) M)"
    by (rule reserve_body_InrE [OF _ inv])
  let ?s = "transform (segments Serves (p_oid p) (p_fid p) L) a e1 1"
  have wf: "seg_wf ?s" using inv by (simp add: inv_cov_def seg_wf_transform)
  obtain q where q: "permission_of (p_jti p) M = Some q" "pr_state q = ''bound''" "row_matches p q"
    using bind_permission_bound [OF m(2,1)] by blast
  have perms: "lg_perms L1 = lg_perms M" by (simp add: m(3) lg_insert_request)
  have fields: "lg_files L1 = lg_files L" "lg_completed L1 = lg_completed L"
    using bind_permission_fields [OF m(2)] by (simp_all add: m(3) insert_request_def)
  have seg: "segments Transmitted (p_oid p) (p_fid p) L1 = segments Transmitted (p_oid p) (p_fid p) L"
    by (simp add: m(3) lg_insert_request segments_rewritten [OF wf] segments_frame [OF bind_permission_frame [OF m(2)]])
  have done': "\<not> is_completed (p_oid p) (p_fid p) L" using m(1) by (auto simp: reserve_refusal_def Let_def split: if_splits)
  obtain isol' where req: "request_of (rs_id rs) L1 = Some \<lparr>rq_id = rs_id rs, rq_jti = p_jti p, rq_start = a,
      rq_end = rs_end rs, rq_written = a - 1, rq_open = True, rq_isolated = isol'\<rparr>"
    using reserve_facts(8) [OF assms(1,2)] by blast
  have key: "pr_oid q = p_oid p" "pr_fid q = p_fid p" "pr_td q = p_td p" using q(3) by (auto simp: row_matches_def)
  have "can_send f (rs_id rs) q (rs_end rs) (a - 1) L1"
    using req q(1,2) assms(3,4) done' inv
    by (simp add: can_send_def key seg permission_of_def perms file_of_def fields is_completed_def inv_cov_def)
  with key(3) show ?thesis by blast
qed



end
