(* ===== verification/Outbox.thy ===== *)
theory Outbox
  imports AuditProps LedgerHistory LedgerVerify Wire "HOL-Library.AList"
begin

text \<open>
  The receipts of internal/gateway/gateway.go on their way from the ledger's outbox to the
  audit log: Poll, the walk over the log that Open makes, Delivered and Reconcile. Poll is
  written over the function that appends to the log, as the code calls it; the interface it
  relies on is the locale \<open>receipt_sink\<close>, which the audit log of internal/audit provides.
\<close>

subsection \<open>Receipts as documents\<close>

definition receipt_json :: "receipt \<Rightarrow> json" where
  "receipt_json r = JObj [(''op'', JStr (rc_op r)), (''oid'', JStr (rc_oid r)), (''fid'', JStr (rc_fid r)),
     (''sha256'', JStr (rc_sha r)), (''size_bytes'', JNum (int_text (rc_size r))),
     (''jtis'', JArr (map JStr (rc_jtis r))),
     (''transmitted'', JArr (map (\<lambda>(a, b). JArr [JNum (int_text a), JNum (int_text b)]) (rc_transmitted r))),
     (''transmitted_bytes'', JNum (int_text (rc_transmitted_bytes r))),
     (''max_serves_reached_bytes'', JNum (int_text (rc_max_serves_bytes r))),
     (''outcome'', JStr (rc_outcome r)), (''blocks_verified'', JBool (rc_blocks_verified r)),
     (''first_byte_at'', JStr (rc_first_byte_at r)), (''last_byte_at'', JStr (rc_last_byte_at r)),
     (''seq'', JNum (dec_text (rc_seq r)))]"

subsection \<open>Poll\<close>

text \<open>The state Poll works on: the ledger, the log, and the receipt that is in the log but not
  yet marked (its outbox and its audit number; zero when there is none).\<close>

record 'l outbox =
  os_ledger :: ledger
  os_log :: 'l
  os_receipt :: nat
  os_audit :: nat

definition mark :: "nat \<Rightarrow> nat \<Rightarrow> 'l outbox \<Rightarrow> 'l outbox" where
  "mark s a st = st\<lparr>os_ledger := mark_receipt_audited s a (os_ledger st), os_receipt := 0\<rparr>"

text \<open>
  One receipt: one already appended is only marked; any other is verified, its number compared
  and appended, and remembered as appended before it is marked. \<open>add k\<close> is the k-th append of
  the call and \<open>fault k\<close> the storage fault of its k-th marking.
\<close>

definition poll_one :: "(nat \<Rightarrow> receipt \<Rightarrow> 'l \<Rightarrow> (gw_error + nat) \<times> 'l) \<Rightarrow> (nat \<Rightarrow> gw_error option)
    \<Rightarrow> (string \<Rightarrow> gw_error + receipt) \<Rightarrow> nat \<Rightarrow> nat \<times> string \<Rightarrow> 'l outbox \<Rightarrow> gw_error option \<times> 'l outbox" where
  "poll_one add fault verify k q st =
     (case q of (s, body) \<Rightarrow>
      if os_receipt st = s then
        (case fault k of Some e \<Rightarrow> (Some e, st) | None \<Rightarrow> (None, mark s (os_audit st) st))
      else case verify body of Inl e \<Rightarrow> (Some e, st)
        | Inr r \<Rightarrow>
          if rc_seq r \<noteq> s then (Some (ErrMsg ''receipt outbox sequence mismatch''), st)
          else (case add k r (os_log st) of
              (Inl e, l') \<Rightarrow> (Some e, st\<lparr>os_log := l'\<rparr>)
            | (Inr a, l') \<Rightarrow>
                (let st' = st\<lparr>os_log := l', os_receipt := s, os_audit := a\<rparr> in
                 case fault k of Some e \<Rightarrow> (Some e, st') | None \<Rightarrow> (None, mark s a st'))))"

fun poll_loop :: "(nat \<Rightarrow> receipt \<Rightarrow> 'l \<Rightarrow> (gw_error + nat) \<times> 'l) \<Rightarrow> (nat \<Rightarrow> gw_error option)
    \<Rightarrow> (string \<Rightarrow> gw_error + receipt) \<Rightarrow> nat \<Rightarrow> (nat \<times> string) list \<Rightarrow> 'l outbox \<Rightarrow> gw_error option \<times> 'l outbox" where
  "poll_loop add fault verify k [] st = (None, st)"
| "poll_loop add fault verify k (q # qs) st =
     (case poll_one add fault verify k q st of
        (Some e, st') \<Rightarrow> (Some e, st')
      | (None, st') \<Rightarrow> poll_loop add fault verify (k + 1) qs st')"

definition poll_with :: "(nat \<Rightarrow> receipt \<Rightarrow> 'l \<Rightarrow> (gw_error + nat) \<times> 'l) \<Rightarrow> (nat \<Rightarrow> gw_error option)
    \<Rightarrow> (string \<Rightarrow> gw_error + receipt) \<Rightarrow> gw_error option \<Rightarrow> 'l outbox \<Rightarrow> gw_error option \<times> 'l outbox" where
  "poll_with add fault verify list_fault st =
     (case list_fault of Some e \<Rightarrow> (Some e, st)
      | None \<Rightarrow> poll_loop add fault verify 0 (pending_receipts (os_ledger st)) st)"

subsection \<open>The interface of the log\<close>

text \<open>
  What Poll needs of the log it appends to: a receipt that is reported as appended is in it,
  after the ones before, when the receipt is one it can take (\<open>good\<close>); a failing append leaves it as it was or ends it (\<open>broken\<close>), with or
  without the receipt in it; and a log that has ended takes nothing more.
\<close>

locale receipt_sink =
  fixes add :: "nat \<Rightarrow> receipt \<Rightarrow> 'l \<Rightarrow> (gw_error + nat) \<times> 'l"
    and good :: "receipt \<Rightarrow> bool"
    and logged :: "'l \<Rightarrow> nat list"
    and sound :: "'l \<Rightarrow> bool"
    and broken :: "'l \<Rightarrow> bool"
  assumes add_ok: "sound l \<Longrightarrow> good r \<Longrightarrow> add k r l = (Inr a, l') \<Longrightarrow>
      sound l' \<and> \<not> broken l' \<and> logged l' = logged l @ [rc_seq r]"
    and add_error: "sound l \<Longrightarrow> good r \<Longrightarrow> add k r l = (Inl e, l') \<Longrightarrow>
      sound l' \<and> (logged l' = logged l \<or> (broken l' \<and> logged l' = logged l @ [rc_seq r]))"
    and add_broken: "broken l \<Longrightarrow> \<exists>e. add k r l = (Inl e, l)"

subsection \<open>In step\<close>

text \<open>
  How far the log and the marks have come: the log holds the first \<open>n\<close> receipts of the outbox,
  the marks cover the first \<open>m\<close>, at most one fewer; the one between is remembered by the
  gateway unless its log has ended.
\<close>

definition in_step_at :: "('l \<Rightarrow> nat list) \<Rightarrow> ('l \<Rightarrow> bool) \<Rightarrow> 'l outbox \<Rightarrow> nat \<Rightarrow> nat \<Rightarrow> bool" where
  "in_step_at logged broken st m n \<longleftrightarrow>
     (let seqs = map ob_seq (lg_outbox (os_ledger st)) in
      sorted_wrt (<) seqs \<and> 0 \<notin> set seqs \<and> n \<le> length seqs \<and> m \<le> n \<and> n \<le> m + 1
      \<and> logged (os_log st) = take n seqs \<and> max_nat (map fst (lg_audited (os_ledger st))) = max_nat (take m seqs)
      \<and> (n = m + 1 \<longrightarrow> broken (os_log st) \<or> os_receipt st = seqs ! m)
      \<and> (os_receipt st = 0 \<or> os_receipt st \<in> set (take n seqs)))"

definition in_step :: "('l \<Rightarrow> nat list) \<Rightarrow> ('l \<Rightarrow> bool) \<Rightarrow> 'l outbox \<Rightarrow> bool" where
  "in_step logged broken st \<longleftrightarrow> (\<exists>m n. in_step_at logged broken st m n)"

lemma max_nat_in: "xs \<noteq> [] \<Longrightarrow> max_nat xs \<in> set xs"
proof (induction xs)
  case (Cons x xs)
  then show ?case by (cases xs) (auto simp: max_nat_def max_def)
qed simp

lemma max_nat_take:
  assumes "sorted_wrt (<) xs" and "m < length xs"
  shows "max_nat (take (Suc m) xs) = xs ! m" and "0 \<notin> set xs \<Longrightarrow> max_nat (take m xs) < xs ! m"
proof -
  have less: "y < xs ! m" if y: "y \<in> set (take m xs)" for y
  proof -
    obtain j where "j < m" "y = xs ! j" using y by (auto simp: in_set_conv_nth)
    then show ?thesis using assms by (simp add: sorted_wrt_iff_nth_less)
  qed
  have "max_nat (take m xs) \<le> xs ! m" using less by (intro max_nat_le) force
  then show "max_nat (take (Suc m) xs) = xs ! m" using assms(2) by (simp add: take_Suc_conv_app_nth)
  show "max_nat (take m xs) < xs ! m" if "0 \<notin> set xs"
  proof (cases "take m xs = []")
    case True
    have "xs ! m \<noteq> 0" using that assms(2) nth_mem by metis
    with True show ?thesis unfolding True by (simp add: max_nat_def)
  next
    case False
    then show ?thesis using less max_nat_in by blast
  qed
qed

lemma filter_above:
  assumes "sorted_wrt (<) (map f rows)" and "\<forall>r \<in> set (take m rows). f r \<le> (x :: nat)" and "m < length rows \<Longrightarrow> x < f (rows ! m)"
  shows "filter (\<lambda>r. f r > x) rows = drop m rows"
proof -
  have "filter (\<lambda>r. f r > x) (take m rows) = []" using assms(2) by (auto simp: filter_empty_conv)
  moreover have "\<forall>r \<in> set (drop m rows). f r > x"
  proof
    fix r assume "r \<in> set (drop m rows)"
    then obtain j where j: "j < length rows - m" "r = rows ! (m + j)" by (auto simp: in_set_conv_nth)
    then have "m < length rows" by simp
    moreover have "f (rows ! m) \<le> f (rows ! (m + j))"
      using assms(1) j(1) by (cases "j = 0") (auto simp: sorted_wrt_iff_nth_less less_imp_le)
    ultimately show "f r > x" using assms(3) j(2) by simp
  qed
  ultimately have "filter (\<lambda>r. f r > x) (take m rows @ drop m rows) = drop m rows"
    by (simp only: filter_append) (simp add: filter_id_conv)
  then show ?thesis by simp
qed

lemma in_step_pending:
  assumes "in_step_at logged broken st m n"
  shows "pending_receipts (os_ledger st) = map (\<lambda>r. (ob_seq r, ob_body r)) (drop m (lg_outbox (os_ledger st)))"
proof -
  let ?rows = "lg_outbox (os_ledger st)"
  let ?M = "max_nat (map fst (lg_audited (os_ledger st)))"
  have st: "sorted_wrt (<) (map ob_seq ?rows)" "0 \<notin> set (map ob_seq ?rows)"
    "?M = max_nat (take m (map ob_seq ?rows))"
    using assms by (simp_all add: in_step_at_def Let_def)
  have f: "filter (\<lambda>r. ob_seq r > ?M) ?rows = drop m ?rows"
  proof (rule filter_above [OF st(1)])
    show "\<forall>r \<in> set (take m ?rows). ob_seq r \<le> ?M"
      unfolding st(3) by (auto intro: max_nat_ge simp: take_map)
    show "?M < ob_seq (?rows ! m)" if "m < length ?rows"
      using max_nat_take(2) [OF st(1), of m] st(2,3) that by simp
  qed
  have "sorted_wrt (<) (map ob_seq (drop m ?rows))" using st(1) by (simp add: drop_map [symmetric] sorted_wrt_drop)
  then show ?thesis unfolding pending_receipts_def f by (simp add: sort_key_strict)
qed

lemma in_step_mark:
  assumes "in_step_at logged broken st m n" and "m < n" and "s = ob_seq (lg_outbox (os_ledger st) ! m)"
  shows "in_step_at logged broken (mark s a st) (m + 1) n"
proof -
  let ?seqs = "map ob_seq (lg_outbox (os_ledger st))"
  let ?aud = "lg_audited (os_ledger st)"
  have i: "sorted_wrt (<) ?seqs" "0 \<notin> set ?seqs" "n \<le> length ?seqs" "m \<le> n" "n \<le> m + 1"
    "logged (os_log st) = take n ?seqs" "max_nat (map fst ?aud) = max_nat (take m ?seqs)"
    using assms(1) by (simp_all add: in_step_at_def Let_def)
  have s: "s = ?seqs ! m" using assms(2,3) i(3) by simp
  have gt: "max_nat (map fst ?aud) < s" using max_nat_take(2) [OF i(1) _ i(2), of m] assms(2) i(3,7) s by simp
  have "s \<notin> fst ` set ?aud"
  proof
    assume "s \<in> fst ` set ?aud"
    then have "s \<le> max_nat (map fst ?aud)" by (intro max_nat_ge) simp
    with gt show False by simp
  qed
  then have "max_nat (map fst (lg_audited (os_ledger (mark s a st)))) = s"
    using gt by (simp add: mark_def mark_receipt_audited_def max_def)
  moreover have "max_nat (take (Suc m) ?seqs) = s" using max_nat_take(1) [OF i(1)] assms(2) i(3) s by simp
  moreover have "lg_outbox (os_ledger (mark s a st)) = lg_outbox (os_ledger st)" "os_log (mark s a st) = os_log st"
    "os_receipt (mark s a st) = 0"
    by (simp_all add: mark_def mark_receipt_audited_def)
  ultimately show ?thesis using i assms(2) by (simp add: in_step_at_def Let_def)
qed

subsection \<open>Poll over any such log\<close>

text \<open>A poll that fails may stop anywhere; one that does not has marked everything it was given.\<close>

context receipt_sink
begin

lemma poll_one_in_step:
  assumes "in_step_at logged broken st m n" and "sound (os_log st)" and "m < length (lg_outbox (os_ledger st))"
    and "q = (ob_seq (lg_outbox (os_ledger st) ! m), ob_body (lg_outbox (os_ledger st) ! m))"
    and "poll_one add fault verify k q st = (res, st')" and "\<forall>b r. verify b = Inr r \<longrightarrow> good r"
  shows "sound (os_log st') \<and> lg_outbox (os_ledger st') = lg_outbox (os_ledger st)
    \<and> (res = None \<longrightarrow> (\<exists>n'. in_step_at logged broken st' (m + 1) n'))
    \<and> (\<exists>m' n'. in_step_at logged broken st' m' n')"
proof -
  let ?seqs = "map ob_seq (lg_outbox (os_ledger st))"
  let ?s = "ob_seq (lg_outbox (os_ledger st) ! m)"
  have i: "sorted_wrt (<) ?seqs" "0 \<notin> set ?seqs" "n \<le> length ?seqs" "m \<le> n" "n \<le> m + 1"
    "logged (os_log st) = take n ?seqs" "max_nat (map fst (lg_audited (os_ledger st))) = max_nat (take m ?seqs)"
    "n = m + 1 \<longrightarrow> broken (os_log st) \<or> os_receipt st = ?seqs ! m"
    "os_receipt st = 0 \<or> os_receipt st \<in> set (take n ?seqs)"
    using assms(1) unfolding in_step_at_def Let_def by blast+
  have same: "lg_outbox (os_ledger (mark s a st)) = lg_outbox (os_ledger st)" "os_log (mark s a st) = os_log st" for s a
    and st :: "'a outbox"
    by (simp_all add: mark_def mark_receipt_audited_def)
  show ?thesis
  proof (cases "os_receipt st = ?s")
    case True
    have "?s \<in> set ?seqs" using assms(3) by simp
    then have "os_receipt st \<noteq> 0" using True i(2) by metis
    then have "?seqs ! m \<in> set (take n ?seqs)" using True i(9) assms(3) by simp
    then obtain j where j: "j < n" "?seqs ! j = ?seqs ! m" using i(3) by (auto simp: in_set_conv_nth)
    have mn: "m < n"
    proof (rule ccontr)
      assume "\<not> m < n"
      then have "?seqs ! j < ?seqs ! m" using i(1) j(1) assms(3) by (simp add: sorted_wrt_iff_nth_less)
      with j(2) show False by simp
    qed
    note marked = in_step_mark [OF assms(1) mn refl]
    show ?thesis
      using True assms(1,2,4,5) marked [of "os_audit st"] same [of "?s" "os_audit st" st]
      by (auto simp: poll_one_def split: option.splits)
  next
    case False
    note no = False
    show ?thesis
    proof (cases "\<exists>r. verify (ob_body (lg_outbox (os_ledger st) ! m)) = Inr r \<and> rc_seq r = ?s")
      case False
      then have "res \<noteq> None \<and> st' = st"
        using no assms(4,5) by (auto simp: poll_one_def split: sum.splits if_splits)
      with assms(1,2) show ?thesis by auto
    next
      case True
      then obtain r where r: "verify (ob_body (lg_outbox (os_ledger st) ! m)) = Inr r" "rc_seq r = ?s" by blast
      obtain ar l' where ar: "add k r (os_log st) = (ar, l')" by (metis surj_pair)
      have good: "good r" using assms(6) r(1) by blast
      have not_marked: "os_receipt st \<noteq> ?seqs ! m" using no assms(3) by simp
      show ?thesis
      proof (cases ar)
        case (Inl e)
        then have st': "res = Some e" "st' = st\<lparr>os_log := l'\<rparr>"
          using no r ar assms(4,5) by (auto simp: poll_one_def)
        have a: "sound l'" "logged l' = logged (os_log st) \<or> (broken l' \<and> logged l' = logged (os_log st) @ [rc_seq r])"
          using add_error [OF assms(2) good ar [unfolded Inl]] by auto
        show ?thesis
        proof (cases "broken (os_log st)")
          case True
          then have "l' = os_log st" using add_broken [OF True, of k r] ar by auto
          then show ?thesis using st' assms(1,2) by auto
        next
          case False
          then have "n = m" using i(4,5,8) not_marked by (metis Suc_eq_plus1 le_SucE le_antisym)
          have "in_step_at logged broken st' m (if logged l' = logged (os_log st) then m else m + 1)"
            using i a(2) \<open>n = m\<close> assms(3) r(2) not_marked
            by (auto simp: in_step_at_def Let_def st'(2) take_Suc_conv_app_nth)
          then show ?thesis using st' a(1) by auto
        qed
      next
        case (Inr a)
        have ok: "sound l'" "\<not> broken l'" "logged l' = logged (os_log st) @ [rc_seq r]"
          using add_ok [OF assms(2) good ar [unfolded Inr]] by auto
        have nb: "\<not> broken (os_log st)" using add_broken [of "os_log st" k r] ar Inr by auto
        then have "n = m" using i(4,5,8) not_marked by (metis Suc_eq_plus1 le_SucE le_antisym)
        let ?st = "st\<lparr>os_log := l', os_receipt := ?s, os_audit := a\<rparr>"
        have step: "in_step_at logged broken ?st m (m + 1)"
          using i ok \<open>n = m\<close> assms(3) r(2) by (simp add: in_step_at_def Let_def take_Suc_conv_app_nth)
        have marked: "in_step_at logged broken (mark ?s a ?st) (m + 1) (m + 1)"
          by (rule in_step_mark [OF step]) simp_all
        have st': "res = None \<and> st' = mark ?s a ?st \<or> (\<exists>e. res = Some e) \<and> st' = ?st"
          using no r ar Inr assms(4,5) by (auto simp: poll_one_def Let_def split: option.splits)
        then show ?thesis using step marked ok(1) same [of ?s a ?st] by auto
      qed
    qed
  qed
qed

lemma poll_loop_in_step:
  assumes "in_step_at logged broken st m n" and "sound (os_log st)"
    and "qs = map (\<lambda>r. (ob_seq r, ob_body r)) (drop m (lg_outbox (os_ledger st)))"
    and "poll_loop add fault verify k qs st = (res, st')" and "\<forall>b r. verify b = Inr r \<longrightarrow> good r"
  shows "sound (os_log st') \<and> in_step logged broken st' \<and> lg_outbox (os_ledger st') = lg_outbox (os_ledger st)
    \<and> (res = None \<longrightarrow> logged (os_log st') = map ob_seq (lg_outbox (os_ledger st)) \<and> pending_receipts (os_ledger st') = [])"
  using assms
proof (induction qs arbitrary: st m n k)
  case Nil
  then have "length (lg_outbox (os_ledger st)) \<le> m" by simp
  then have "logged (os_log st) = map ob_seq (lg_outbox (os_ledger st))"
    using Nil.prems(1) by (simp add: in_step_at_def Let_def)
  moreover have "pending_receipts (os_ledger st) = []"
    using in_step_pending [OF Nil.prems(1)] \<open>length (lg_outbox (os_ledger st)) \<le> m\<close> by simp
  ultimately show ?case using Nil.prems by (auto simp: in_step_def)
next
  case (Cons q qs)
  have m: "m < length (lg_outbox (os_ledger st))" using Cons.prems(3) by (metis drop_eq_Nil list.simps(3) list.simps(8) not_le)
  then have d: "drop m (lg_outbox (os_ledger st)) = (lg_outbox (os_ledger st) ! m) # drop (m + 1) (lg_outbox (os_ledger st))"
    by (simp add: Cons_nth_drop_Suc)
  have q: "q = (ob_seq (lg_outbox (os_ledger st) ! m), ob_body (lg_outbox (os_ledger st) ! m))"
    and qs: "qs = map (\<lambda>r. (ob_seq r, ob_body r)) (drop (m + 1) (lg_outbox (os_ledger st)))"
    using Cons.prems(3) unfolding d by auto
  obtain res1 st1 where one: "poll_one add fault verify k q st = (res1, st1)" by (metis surj_pair)
  note p = poll_one_in_step [OF Cons.prems(1,2) m q one Cons.prems(5)]
  show ?case
  proof (cases res1)
    case (Some e)
    then have "res = Some e" "st' = st1" using Cons.prems(4) one by simp_all
    with p show ?thesis by (auto simp: in_step_def)
  next
    case None
    then obtain n' where n': "in_step_at logged broken st1 (m + 1) n'" using p by blast
    have loop: "poll_loop add fault verify (k + 1) qs st1 = (res, st')" using Cons.prems(4) one None by simp
    have o: "lg_outbox (os_ledger st1) = lg_outbox (os_ledger st)" using p by blast
    show ?thesis using Cons.IH [OF n' _ _ loop Cons.prems(5)] p qs unfolding o by blast
  qed
qed

lemma poll_in_step:
  assumes "in_step logged broken st" and "sound (os_log st)" and "poll_with add fault verify lf st = (res, st')"
    and "\<forall>b r. verify b = Inr r \<longrightarrow> good r"
  shows "sound (os_log st') \<and> in_step logged broken st'
    \<and> (res = None \<longrightarrow> logged (os_log st') = map ob_seq (lg_outbox (os_ledger st')) \<and> pending_receipts (os_ledger st') = [])"
proof (cases lf)
  case (Some e)
  with assms show ?thesis by (auto simp: poll_with_def)
next
  case None
  obtain m n where mn: "in_step_at logged broken st m n" using assms(1) by (auto simp: in_step_def)
  have "poll_loop add fault verify 0 (pending_receipts (os_ledger st)) st = (res, st')"
    using assms(3) None by (simp add: poll_with_def)
  from poll_loop_in_step [OF mn assms(2) in_step_pending [OF mn] this assms(4)] show ?thesis by metis
qed

end

subsection \<open>The audit log is such a log\<close>

text \<open>The whole lines of a file and of a directory; a torn tail is none.\<close>

definition whole_lines :: "string \<Rightarrow> string list" where
  "whole_lines c = butlast (split_on nl c)"

definition disk_lines :: "disk \<Rightarrow> string list" where
  "disk_lines D = concat (map (\<lambda>(i, c). whole_lines c) D)"

lemma whole_lines_content: "\<forall>l \<in> set ls. nl \<notin> set l \<Longrightarrow> nl \<notin> set t \<Longrightarrow> whole_lines (content_of ls @ t) = ls"
  by (induction ls) (auto simp: whole_lines_def split_on_single split_on_append)

lemma disk_lines_tear:
  assumes "\<forall>l \<in> set (lines_of ps). nl \<notin> set l" and "nl \<notin> set t"
  shows "disk_lines (tear t (disk_of ps)) = lines_of ps"
  using assms
proof (induction ps)
  case Nil
  then show ?case by (simp add: disk_lines_def disk_of_def lines_of_def)
next
  case (Cons p ps)
  obtain i ls where p: "p = (i, ls)" by fastforce
  have nls: "\<forall>l \<in> set ls. nl \<notin> set l" "\<forall>l \<in> set (lines_of ps). nl \<notin> set l"
    using Cons.prems(1) by (auto simp: p lines_of_def)
  note IH = Cons.IH [OF nls(2) Cons.prems(2)]
  have w: "whole_lines (content_of ls) = ls" using whole_lines_content [OF nls(1), of "[]"] by simp
  show ?case
  proof (cases ps)
    case Nil
    then show ?thesis using whole_lines_content [OF nls(1) Cons.prems(2)]
      by (simp add: p disk_of_def disk_lines_def lines_of_def)
  next
    case (Cons q qs)
    then have "tear t (disk_of (p # ps)) = (i, content_of ls) # tear t (disk_of ps)"
      by (simp add: p disk_of_def split: prod.splits)
    then have "disk_lines (tear t (disk_of (p # ps))) = ls @ disk_lines (tear t (disk_of ps))"
      by (simp add: disk_lines_def w)
    then show ?thesis unfolding IH by (simp add: p lines_of_def)
  qed
qed

text \<open>A log that stands for some directory of whole lines, or that failed over a torn one.\<close>

definition log_sound :: "audit_env \<Rightarrow> audit_log \<times> disk \<Rightarrow> bool" where
  "log_sound env LD \<longleftrightarrow> (\<exists>ps t. snd LD = tear t (disk_of ps) \<and> nl \<notin> set t \<and> length t < max_line \<and> parts_ok env ps
     \<and> (al_failed (fst LD) = None \<longrightarrow> t = [] \<and> log_ok env (fst LD) ps))"

lemma log_sound_whole:
  "parts_ok env ps \<Longrightarrow> al_failed L = None \<longrightarrow> log_ok env L ps \<Longrightarrow> log_sound env (L, disk_of ps)"
  unfolding log_sound_def by (intro exI [of _ ps] exI [of _ "[]"]) (simp add: tear_nil max_line_def)

definition log_broken :: "audit_log \<times> disk \<Rightarrow> bool" where
  "log_broken LD \<longleftrightarrow> al_failed (fst LD) \<noteq> None"

text \<open>json.Unmarshal reads back the line that Append writes, which has no newline and is shorter
  than two mebibytes.\<close>

definition reads_back :: "audit_env \<Rightarrow> string \<Rightarrow> string \<Rightarrow> json \<Rightarrow> audit_log \<Rightarrow> bool" where
  "reads_back env time ty body L \<longleftrightarrow> (case prepare_entry env time ty body L of Inl e \<Rightarrow> True
     | Inr (en, line) \<Rightarrow> ae_unmarshal env line = Inr en \<and> line_ok line)"

lemma parts_ok_no_nl: "parts_ok env ps \<Longrightarrow> \<forall>l \<in> set (lines_of ps). nl \<notin> set l"
  by (auto simp: parts_ok_def line_ok_def)

lemma append_failed: "al_failed L \<noteq> None \<Longrightarrow> \<exists>e. AuditLog.append env io time ty body (L, D) = (Inl e, L, D)"
  by (auto simp: append_def prepare_entry_def)

lemma append_sound:
  assumes "log_sound env (L, D)" and "reads_back env time ty body L"
    and "AuditLog.append env io time ty body (L, D) = (res, L', D')"
  shows "log_sound env (L', D') \<and> (case res of
      Inr en \<Rightarrow> al_failed L' = None \<and> (\<exists>line. prepare_entry env time ty body L = Inr (en, line) \<and> disk_lines D' = disk_lines D @ [line])
    | Inl e \<Rightarrow> disk_lines D' = disk_lines D \<or> (al_failed L' \<noteq> None
        \<and> (\<exists>en line. prepare_entry env time ty body L = Inr (en, line) \<and> disk_lines D' = disk_lines D @ [line])))"
proof (cases "al_failed L = None")
  case False
  then show ?thesis using append_failed [of L env io time ty body D] assms(1,3) by auto
next
  case True
  then obtain ps where ps: "D = disk_of ps" "parts_ok env ps" "log_ok env L ps"
    using assms(1) by (auto simp: log_sound_def tear_nil)
  have Dl: "disk_lines D = lines_of ps"
    using disk_lines_tear [OF parts_ok_no_nl [OF ps(2)], of "[]"] ps(1) by (simp add: tear_nil)
  show ?thesis
  proof (cases "prepare_entry env time ty body L")
    case (Inl e)
    then show ?thesis using assms(1,3) by (auto simp: append_def)
  next
    case (Inr el)
    obtain en line where el: "el = (en, line)" by fastforce
    have p: "prepare_entry env time ty body L = Inr (en, line)" using Inr el by simp
    have um: "ae_unmarshal env line = Inr en" "line_ok line" using assms(2) p by (simp_all add: reads_back_def)
    let ?M = "rotate (length line) L"
    let ?i = "al_index ?M"
    have M: "log_ok env ?M ps" using ps(3) by (rule rotate_log_ok)
    then have fit: "fits ?i ps" by (auto simp: log_ok_def at_end_fits)
    have v: "validate_raw env line = Inr en" "en_seq en = al_seq L + 1" "en_prev en = al_prev L"
      using prepare_entry_valid [OF p um(1)] by simp_all
    let ?qs = "AuditProps.extend ?i [line] ps"
    have q: "parts_ok env ?qs"
      by (rule parts_ok_extend [OF ps(2) fit um(2) v(1)]) (use ps(3) v in \<open>simp_all add: log_ok_def\<close>)
    have full: "append_disk ?i (line @ [nl]) (disk_of ps) = disk_of ?qs"
      using disk_of_extend [OF fit, of "[line]" "[]"] by (simp add: tear_nil)
    have ql: "disk_lines (disk_of ?qs) = disk_lines D @ [line]"
      using disk_lines_tear [OF parts_ok_no_nl [OF q], of "[]"] Dl lines_of_extend [OF fit] by (simp add: tear_nil)
    have whole: "log_sound env (K, disk_of ?qs)" if "al_failed K \<noteq> None" for K
      using that by (intro log_sound_whole [OF q]) auto
    show ?thesis
    proof (cases res)
      case (Inr en')
      have "en' = en" using assms(3) p Inr by (auto simp: append_def Let_def split: option.splits if_splits)
      then have app: "AuditLog.append env io time ty body (L, disk_of ps) = (Inr en, L', D')" using assms(3) Inr ps(1) by simp
      have c: "line = canonical (entry_json en)" using prepare_entryD [OF p] by simp
      obtain j where j: "D' = disk_of (AuditProps.extend j [line] ps)" "log_ok env L' (AuditProps.extend j [line] ps)"
        "lines_of (AuditProps.extend j [line] ps) = lines_of ps @ [line]"
        using append_log_ok [OF ps(3) app] um unfolding c by blast
      have "parts_ok env (AuditProps.extend j [line] ps)" using j(2) by (simp add: log_ok_def)
      then have "log_sound env (L', D')" "disk_lines D' = disk_lines D @ [line]"
        using j Dl disk_lines_tear [OF parts_ok_no_nl, of env "AuditProps.extend j [line] ps" "[]"]
        by (simp_all add: log_sound_whole tear_nil)
      moreover have "al_failed L' = None" using app True by (auto simp: append_def p Let_def rotate_def split: option.splits if_splits)
      ultimately show ?thesis using p \<open>en' = en\<close> Inr by simp
    next
      case (Inl e)
      show ?thesis
      proof (cases "io_open io")
        case (Some x)
        then have "L' = ?M" "D' = D" using assms(3) p by (auto simp: append_def Let_def)
        moreover have "log_sound env (?M, D)" unfolding ps(1) using M ps(2) by (intro log_sound_whole) simp_all
        ultimately show ?thesis using Inl by simp
      next
        case no: None
        show ?thesis
        proof (cases "io_write io")
          case (Some ne)
          obtain n x where ne: "ne = (n, x)" by fastforce
          have L': "al_failed L' \<noteq> None" "D' = append_disk ?i (take n (line @ [nl])) (disk_of ps)"
            using assms(3) p no Some ne ps(1) by (auto simp: append_def Let_def)
          show ?thesis
          proof (cases "n > length line")
            case True
            then have "D' = disk_of ?qs" using L'(2) full by simp
            then show ?thesis using whole [OF L'(1)] L'(1) ql p Inl by auto
          next
            case False
            let ?os = "AuditProps.extend ?i [] ps"
            have o: "parts_ok env ?os" by (rule parts_ok_touch [OF ps(2) fit])
            have nt: "nl \<notin> set (take n line)" "length (take n line) < max_line"
              using um(2) by (auto simp: line_ok_def dest: in_set_takeD)
            have D': "D' = tear (take n line) (disk_of ?os)"
              using L'(2) torn_disk [OF fit, of line n] um(2) False by (simp add: line_ok_def)
            then have "log_sound env (L', D')" using o nt L'(1) unfolding log_sound_def fst_conv snd_conv
              by (intro exI [of _ ?os] exI [of _ "take n line"]) auto
            moreover have "disk_lines D' = disk_lines D"
              unfolding D' disk_lines_tear [OF parts_ok_no_nl [OF o] nt(1)] using Dl lines_of_extend [OF fit, of "[]"] by simp
            ultimately show ?thesis using Inl by simp
          qed
        next
          case None
          then have "D' = disk_of ?qs" "al_failed L' \<noteq> None"
            using assms(3) p no Inl ps(1) full by (auto simp: append_def Let_def split: option.splits if_splits)
          then show ?thesis using whole ql p Inl by auto
        qed
      qed
    qed
  qed
qed

subsection \<open>The gateway's own poll\<close>

record 'k outbox_env =
  ox_crypto :: "'k crypto"
  ox_decoders :: decoders
  ox_answer :: "bytes \<Rightarrow> gw_error + answer"
  ox_keys :: "(string \<times> bytes) list"
  ox_audit :: audit_env
  ox_decode :: "json \<Rightarrow> gw_error + receipt"
  ox_io :: "nat \<Rightarrow> append_io"
  ox_time :: "nat \<Rightarrow> string"
  ox_list :: "gw_error option"
  ox_mark :: "nat \<Rightarrow> gw_error option"

text \<open>A queued receipt must verify under the gateway's own key.\<close>

definition own_receipt :: "'k outbox_env \<Rightarrow> string \<Rightarrow> gw_error + receipt" where
  "own_receipt env body =
     (case verify_gateway_answer (ox_crypto env) (ox_decoders env) (ox_answer env) body ''receipt'' (ox_keys env) of
        Inr (AnsReceipt r) \<Rightarrow> Inr r
      | Inr _ \<Rightarrow> Inl (ErrMsg ''invalid receipt'')
      | Inl e \<Rightarrow> Inl e)"

definition append_receipt :: "'k outbox_env \<Rightarrow> nat \<Rightarrow> receipt \<Rightarrow> audit_log \<times> disk \<Rightarrow> (gw_error + nat) \<times> (audit_log \<times> disk)" where
  "append_receipt env k r LD =
     (case AuditLog.append (ox_audit env) (ox_io env k) (ox_time env k) ''receipt'' (receipt_json r) LD of
        (Inl e, LD') \<Rightarrow> (Inl e, LD') | (Inr en, LD') \<Rightarrow> (Inr (en_seq en), LD'))"

definition poll :: "'k outbox_env \<Rightarrow> (audit_log \<times> disk) outbox \<Rightarrow> gw_error option \<times> (audit_log \<times> disk) outbox" where
  "poll env st = poll_with (append_receipt env) (ox_mark env) (own_receipt env) (ox_list env) st"

text \<open>The receipt number of a line, as json.Unmarshal reads entry and body.\<close>

definition line_receipt :: "audit_env \<Rightarrow> (json \<Rightarrow> gw_error + receipt) \<Rightarrow> string \<Rightarrow> nat list" where
  "line_receipt ae dec line = (case ae_unmarshal ae line of Inl e \<Rightarrow> []
     | Inr en \<Rightarrow> if en_type en = ''receipt''
         then (case dec (en_body en) of Inl e \<Rightarrow> [] | Inr r \<Rightarrow> [rc_seq r]) else [])"

definition logged_receipts :: "audit_env \<Rightarrow> (json \<Rightarrow> gw_error + receipt) \<Rightarrow> audit_log \<times> disk \<Rightarrow> nat list" where
  "logged_receipts ae dec LD = concat (map (line_receipt ae dec) (disk_lines (snd LD)))"

text \<open>What the code relies on of encoding/json, for one receipt: the entry that a sound log makes
  of it is read back as written, and so is the number in its body.\<close>

definition receipt_good :: "'k outbox_env \<Rightarrow> receipt \<Rightarrow> bool" where
  "receipt_good env r \<longleftrightarrow> (\<forall>k L D. log_sound (ox_audit env) (L, D) \<longrightarrow>
       reads_back (ox_audit env) (ox_time env k) ''receipt'' (receipt_json r) L)
     \<and> (\<exists>r'. ox_decode env (receipt_json r) = Inr r' \<and> rc_seq r' = rc_seq r)"

lemma prepared_receipt:
  assumes "receipt_good env r" and "log_sound (ox_audit env) (L, D)"
    and "prepare_entry (ox_audit env) (ox_time env k) ''receipt'' (receipt_json r) L = Inr (en, line)"
  shows "line_receipt (ox_audit env) (ox_decode env) line = [rc_seq r]"
proof -
  have "reads_back (ox_audit env) (ox_time env k) ''receipt'' (receipt_json r) L"
    using assms(1,2) unfolding receipt_good_def by blast
  then have "ae_unmarshal (ox_audit env) line = Inr en" using assms(3) by (simp add: reads_back_def)
  moreover have "en_type en = ''receipt''" "en_body en = receipt_json r"
    using prepare_entryD [OF assms(3)] by (simp_all add: next_entry_def Let_def)
  moreover obtain r' where "ox_decode env (receipt_json r) = Inr r'" "rc_seq r' = rc_seq r"
    using assms(1) unfolding receipt_good_def by blast
  ultimately show ?thesis by (simp add: line_receipt_def)
qed

interpretation audit_sink: receipt_sink "append_receipt env" "receipt_good env"
    "logged_receipts (ox_audit env) (ox_decode env)" "log_sound (ox_audit env)" log_broken
  for env :: "'k outbox_env"
proof
  fix l :: "audit_log \<times> disk" and k r and a l'
  assume s: "log_sound (ox_audit env) l" and g: "receipt_good env r" and ap: "append_receipt env k r l = (Inr a, l')"
  obtain L D L' D' where l: "l = (L, D)" "l' = (L', D')" by (metis surj_pair)
  obtain en where app: "AuditLog.append (ox_audit env) (ox_io env k) (ox_time env k) ''receipt'' (receipt_json r) (L, D)
      = (Inr en, L', D')"
    using ap by (auto simp: append_receipt_def l split: prod.splits sum.splits)
  have j: "log_sound (ox_audit env) (L, D)" using s by (simp add: l)
  then have "reads_back (ox_audit env) (ox_time env k) ''receipt'' (receipt_json r) L"
    using g unfolding receipt_good_def by blast
  note as = append_sound [OF j this app]
  then show "log_sound (ox_audit env) l' \<and> \<not> log_broken l'
      \<and> logged_receipts (ox_audit env) (ox_decode env) l' = logged_receipts (ox_audit env) (ox_decode env) l @ [rc_seq r]"
    using prepared_receipt [OF g j] by (auto simp: log_broken_def logged_receipts_def l)
next
  fix l :: "audit_log \<times> disk" and k r and e l'
  assume s: "log_sound (ox_audit env) l" and g: "receipt_good env r" and ap: "append_receipt env k r l = (Inl e, l')"
  obtain L D L' D' where l: "l = (L, D)" "l' = (L', D')" by (metis surj_pair)
  have app: "AuditLog.append (ox_audit env) (ox_io env k) (ox_time env k) ''receipt'' (receipt_json r) (L, D)
      = (Inl e, L', D')"
    using ap by (auto simp: append_receipt_def l split: prod.splits sum.splits)
  have j: "log_sound (ox_audit env) (L, D)" using s by (simp add: l)
  then have "reads_back (ox_audit env) (ox_time env k) ''receipt'' (receipt_json r) L"
    using g unfolding receipt_good_def by blast
  note as = append_sound [OF j this app]
  then show "log_sound (ox_audit env) l'
      \<and> (logged_receipts (ox_audit env) (ox_decode env) l' = logged_receipts (ox_audit env) (ox_decode env) l
        \<or> (log_broken l' \<and> logged_receipts (ox_audit env) (ox_decode env) l'
            = logged_receipts (ox_audit env) (ox_decode env) l @ [rc_seq r]))"
    using prepared_receipt [OF g j] by (auto simp: log_broken_def logged_receipts_def l)
next
  fix l :: "audit_log \<times> disk" and k r
  assume "log_broken l"
  then show "\<exists>e. append_receipt env k r l = (Inl e, l)"
    using append_failed [of "fst l" "ox_audit env" "ox_io env k" "ox_time env k" "''receipt''" "receipt_json r" "snd l"]
    by (auto simp: log_broken_def append_receipt_def)
qed

subsection \<open>Opening the gateway\<close>

text \<open>bufio.Scanner over a file: the lines without their ending, a last unterminated one included.\<close>

definition trim_cr :: "string \<Rightarrow> string" where
  "trim_cr l = trim_suffix [CHR 0x0D] l"

definition scanner_lines :: "string \<Rightarrow> string list" where
  "scanner_lines c = (let ls = split_on nl c in map trim_cr (if last ls = [] then butlast ls else ls))"

text \<open>Walk: every entry in order is handed to the visitor, until the first error.\<close>

fun walk_lines :: "audit_env \<Rightarrow> (entry \<Rightarrow> 's \<Rightarrow> gw_error option \<times> 's) \<Rightarrow> string list \<Rightarrow> 's \<Rightarrow> gw_error option \<times> 's" where
  "walk_lines ae visit [] s = (None, s)"
| "walk_lines ae visit (l # ls) s =
     (if length l \<ge> max_line then (Some (ErrMsg ''token too long''), s)
      else case ae_unmarshal ae l of Inl e \<Rightarrow> (Some e, s)
        | Inr en \<Rightarrow> (case visit en s of (Some e, s') \<Rightarrow> (Some e, s')
            | (None, s') \<Rightarrow> walk_lines ae visit ls s'))"

definition walk :: "audit_env \<Rightarrow> (entry \<Rightarrow> 's \<Rightarrow> gw_error option \<times> 's) \<Rightarrow> disk \<Rightarrow> 's \<Rightarrow> gw_error option \<times> 's" where
  "walk ae visit D s = walk_lines ae visit (concat (map (\<lambda>(i, c). scanner_lines c) D)) s"

text \<open>What Open rebuilds from the log: the marks, the inventory generation and the files present.\<close>

record reopened =
  op_ledger :: ledger
  op_generation :: nat
  op_active :: "(string \<times> phase1) list"

fun visit_files :: "phase1 list \<Rightarrow> (string \<times> phase1) list \<Rightarrow> (string \<times> phase1) list" where
  "visit_files [] m = m"
| "visit_files (f # fs) m =
     visit_files fs (if ph_present f then AList.update (ph_fid f) f m else AList.delete (ph_fid f) m)"

definition visit_entry :: "(json \<Rightarrow> gw_error + receipt) \<Rightarrow> (json \<Rightarrow> gw_error + (nat \<times> phase1 list))
    \<Rightarrow> (nat \<Rightarrow> gw_error option) \<Rightarrow> entry \<Rightarrow> reopened \<Rightarrow> gw_error option \<times> reopened" where
  "visit_entry dec batch fault en w =
     (if en_type en = ''receipt'' then
        (case dec (en_body en) of Inl e \<Rightarrow> (Some e, w)
         | Inr r \<Rightarrow> (case fault (en_seq en) of Some e \<Rightarrow> (Some e, w)
             | None \<Rightarrow> (None, w\<lparr>op_ledger := mark_receipt_audited (rc_seq r) (en_seq en) (op_ledger w)\<rparr>)))
      else if en_type en \<noteq> ''inventory'' then (None, w)
      else case batch (en_body en) of Inl e \<Rightarrow> (Some e, w)
        | Inr (gen, files) \<Rightarrow> (None, w\<lparr>op_generation := max gen (op_generation w),
            op_active := visit_files files (op_active w)\<rparr>))"

text \<open>Open: the log is opened, then walked; the marks of a failed walk stay.\<close>

definition open_gateway :: "audit_env \<Rightarrow> (json \<Rightarrow> gw_error + receipt) \<Rightarrow> (json \<Rightarrow> gw_error + (nat \<times> phase1 list))
    \<Rightarrow> (nat \<Rightarrow> gw_error option) \<Rightarrow> disk \<Rightarrow> ledger \<Rightarrow> (gw_error + ((audit_log \<times> disk) \<times> reopened)) \<times> ledger" where
  "open_gateway ae dec batch fault D L =
     (case open_log ae no_fault None D of Inl e \<Rightarrow> (Inl e, L)
      | Inr (al, D') \<Rightarrow>
        (case walk ae (visit_entry dec batch fault) D' \<lparr>op_ledger = L, op_generation = 0, op_active = []\<rparr> of
           (Some e, w) \<Rightarrow> (Inl e, op_ledger w)
         | (None, w) \<Rightarrow> (Inr ((al, D'), w), op_ledger w)))"

subsection \<open>Every receipt reaches the log once, in order\<close>

text \<open>
  The steps of the outbox: the ledger queues receipts (or does anything else that keeps them),
  a poll with any faults, an append of any other message, and a restart, which may come at any
  point and whose walk may fail.
\<close>

inductive outbox_step :: "'k outbox_env \<Rightarrow> (audit_log \<times> disk) outbox \<Rightarrow> (audit_log \<times> disk) outbox \<Rightarrow> bool"
  for e0 :: "'k outbox_env" where
  os_queue: "grows (os_ledger st) L' \<Longrightarrow> lg_audited L' = lg_audited (os_ledger st) \<Longrightarrow> 0 \<notin> set (map ob_seq (lg_outbox L'))
     \<Longrightarrow> outbox_step e0 st (st\<lparr>os_ledger := L'\<rparr>)"
| os_poll: "ox_audit (env :: 'k outbox_env) = ox_audit e0 \<Longrightarrow> ox_decode env = ox_decode e0
     \<Longrightarrow> \<forall>b r. own_receipt env b = Inr r \<longrightarrow> receipt_good env r \<Longrightarrow> poll env st = (res, st')
     \<Longrightarrow> outbox_step e0 st st'"
| os_append: "ty \<noteq> ''receipt'' \<Longrightarrow> reads_back (ox_audit e0) time ty body (fst (os_log st))
     \<Longrightarrow> AuditLog.append (ox_audit e0) io time ty body (os_log st) = (ar, LD)
     \<Longrightarrow> outbox_step e0 st (st\<lparr>os_log := LD\<rparr>)"
| os_restart: "open_gateway (ox_audit e0) (ox_decode e0) batch fault (snd (os_log st)) (os_ledger st) = (Inr (LD, w), L')
     \<Longrightarrow> outbox_step e0 st \<lparr>os_ledger = L', os_log = LD, os_receipt = 0, os_audit = 0\<rparr>"
| os_restart_failed: "open_gateway (ox_audit e0) (ox_decode e0) batch fault (snd (os_log st)) (os_ledger st) = (Inl e, L')
     \<Longrightarrow> outbox_step e0 st (st\<lparr>os_ledger := L'\<rparr>)"

inductive outbox_reach :: "'k outbox_env \<Rightarrow> (audit_log \<times> disk) outbox \<Rightarrow> bool" for e0 :: "'k outbox_env" where
  or_start: "log_sound (ox_audit e0) LD \<Longrightarrow> snd LD = []
     \<Longrightarrow> outbox_reach e0 \<lparr>os_ledger = empty_ledger, os_log = LD, os_receipt = 0, os_audit = 0\<rparr>"
| or_step: "outbox_reach e0 st \<Longrightarrow> outbox_step e0 st st' \<Longrightarrow> outbox_reach e0 st'"

text \<open>Walking the lines of a sound log marks the receipts in it, all of them unless it fails.\<close>

lemma valid_line_end: "validate_raw ae l = Inr en \<Longrightarrow> trim_cr l = l"
proof -
  assume "validate_raw ae l = Inr en"
  then obtain m where "l = canonical (JObj m)"
    unfolding validate_raw_def by (auto simp: six_fields_def split: option.splits if_splits json.splits)
  then have "\<exists>a. l = a @ ''}''" by (auto simp: canonical_def)
  then show "trim_cr l = l" by (auto simp: trim_cr_def trim_suffix_def has_suffix_def)
qed

lemma chained_valid: "chained ae n prev ls \<Longrightarrow> l \<in> set ls \<Longrightarrow> \<exists>en. validate_raw ae l = Inr en"
  by (induction ls arbitrary: n prev) (auto split: sum.splits)

lemma scanner_lines_content:
  assumes "\<forall>l \<in> set ls. nl \<notin> set l \<and> trim_cr l = l"
  shows "scanner_lines (content_of ls) = ls"
proof -
  have s: "split_on nl (content_of ls) = ls @ [[]]"
    using assms by (induction ls) (auto simp: split_on_append)
  have "map trim_cr ls = ls" using assms by (simp add: map_idI)
  then show ?thesis by (simp add: scanner_lines_def s)
qed

lemma scanner_lines_disk:
  assumes "parts_ok ae ps"
  shows "concat (map (\<lambda>(i, c). scanner_lines c) (disk_of ps)) = lines_of ps"
proof -
  have "\<forall>l \<in> set (lines_of ps). nl \<notin> set l \<and> trim_cr l = l"
    using assms chained_valid valid_line_end unfolding parts_ok_def line_ok_def by metis
  then show ?thesis
  proof (induction ps)
    case (Cons p ps)
    obtain i ls where p: "p = (i, ls)" by fastforce
    have "scanner_lines (content_of ls) = ls" using Cons.prems by (intro scanner_lines_content) (auto simp: p lines_of_def)
    moreover have "concat (map (\<lambda>(i, c). scanner_lines c) (disk_of ps)) = lines_of ps"
      using Cons.prems by (intro Cons.IH) (auto simp: p lines_of_def)
    ultimately show ?case by (simp add: p disk_of_def lines_of_def)
  qed (simp add: disk_of_def lines_of_def)
qed

definition marks :: "ledger \<Rightarrow> nat" where
  "marks L = max_nat (map fst (lg_audited L))"

lemma marks_mark: "marks (mark_receipt_audited s a L) = max (marks L) s"
proof (cases "s \<in> fst ` set (lg_audited L)")
  case True
  then have "s \<le> marks L" unfolding marks_def by (intro max_nat_ge) auto
  moreover have "map fst (update_rows (\<lambda>r. fst r = s \<and> snd r \<noteq> a) (\<lambda>r. (s, a)) (lg_audited L)) = map fst (lg_audited L)"
    by (auto simp: update_rows_def)
  ultimately show ?thesis using True by (simp add: marks_def mark_receipt_audited_def max_def)
next
  case False
  then show ?thesis by (simp add: marks_def mark_receipt_audited_def max.commute)
qed

lemma mark_outbox [simp]: "lg_outbox (mark_receipt_audited s a L) = lg_outbox L"
  by (simp add: mark_receipt_audited_def)

lemma walk_marks:
  assumes "walk_lines ae (visit_entry dec batch fault) ls w = (res, w')"
  shows "lg_outbox (op_ledger w') = lg_outbox (op_ledger w)
    \<and> (\<exists>j. j \<le> length (concat (map (line_receipt ae dec) ls))
      \<and> (res = None \<longrightarrow> j = length (concat (map (line_receipt ae dec) ls)))
      \<and> marks (op_ledger w') = max (marks (op_ledger w)) (max_nat (take j (concat (map (line_receipt ae dec) ls)))))"
  using assms
proof (induction ls arbitrary: w)
  case Nil
  then show ?case by (simp add: max_nat_def)
next
  case (Cons l ls)
  let ?rest = "concat (map (line_receipt ae dec) ls)"
  have stop: ?case if "w' = w" "res \<noteq> None"
    using that by (intro conjI exI [of _ 0]) (auto simp: max_nat_def)
  show ?case
  proof (cases "length l \<ge> max_line")
    case True
    then show ?thesis using Cons.prems stop by auto
  next
    case short: False
    show ?thesis
    proof (cases "ae_unmarshal ae l")
      case (Inl e)
      then show ?thesis using Cons.prems short stop by auto
    next
      case (Inr en)
      obtain v w1 where v: "visit_entry dec batch fault en w = (v, w1)" by (metis surj_pair)
      show ?thesis
      proof (cases v)
        case (Some e)
        then have "w1 = w" using v by (auto simp: visit_entry_def split: if_splits sum.splits option.splits)
        then show ?thesis using Cons.prems short Inr v Some stop by auto
      next
        case None
        have loop: "walk_lines ae (visit_entry dec batch fault) ls w1 = (res, w')"
          using Cons.prems short Inr v None by auto
        from Cons.IH [OF this] obtain j where j: "lg_outbox (op_ledger w') = lg_outbox (op_ledger w1)"
          "j \<le> length ?rest" "res = None \<longrightarrow> j = length ?rest"
          "marks (op_ledger w') = max (marks (op_ledger w1)) (max_nat (take j ?rest))" by blast
        show ?thesis
        proof (cases "en_type en = ''receipt''")
          case True
          then obtain r where r: "dec (en_body en) = Inr r"
            "w1 = w\<lparr>op_ledger := mark_receipt_audited (rc_seq r) (en_seq en) (op_ledger w)\<rparr>"
            using v None by (auto simp: visit_entry_def split: sum.splits option.splits)
          have lr: "line_receipt ae dec l = [rc_seq r]" using Inr True r(1) by (simp add: line_receipt_def)
          show ?thesis using j r(2)
            by (intro conjI exI [of _ "Suc j"]) (auto simp: lr marks_mark max_nat_def max.assoc)
        next
          case False
          then have lr: "line_receipt ae dec l = []" using Inr by (simp add: line_receipt_def)
          have "op_ledger w1 = op_ledger w"
            using v None False by (auto simp: visit_entry_def split: if_splits sum.splits)
          with j show ?thesis by (intro conjI exI [of _ j]) (auto simp: lr)
        qed
      qed
    qed
  qed
qed

lemma in_step_queue:
  assumes "in_step logged broken st" and "grows (os_ledger st) L'" and "lg_audited L' = lg_audited (os_ledger st)"
    and "0 \<notin> set (map ob_seq (lg_outbox L'))"
  shows "in_step logged broken (st\<lparr>os_ledger := L'\<rparr>)"
proof -
  let ?seqs = "map ob_seq (lg_outbox (os_ledger st))"
  obtain m n where i: "in_step_at logged broken st m n" using assms(1) by (auto simp: in_step_def)
  obtain more where "queued L' = queued (os_ledger st) @ more" using assms(2) by (auto simp: grows_def)
  then have "map fst (queued L') = map fst (queued (os_ledger st)) @ map fst more" by simp
  then have seqs: "map ob_seq (lg_outbox L') = ?seqs @ map fst more" by (simp add: queued_def comp_def)
  have "outbox_ordered (os_ledger st)" using i by (simp add: in_step_at_def Let_def outbox_ordered_def)
  then have o: "sorted_wrt (<) (map ob_seq (lg_outbox L'))" using assms(2) by (simp add: grows_def outbox_ordered_def)
  have "in_step_at logged broken (st\<lparr>os_ledger := L'\<rparr>) m n"
    using i o assms(3,4) unfolding in_step_at_def Let_def
    by (auto simp: seqs nth_append)
  then show ?thesis by (auto simp: in_step_def)
qed

lemma in_step_log:
  assumes "in_step logged broken st" and "logged l' = logged (os_log st)" and "broken (os_log st) \<longrightarrow> broken l'"
  shows "in_step logged broken (st\<lparr>os_log := l'\<rparr>)"
proof -
  obtain m n where "in_step_at logged broken st m n" using assms(1) by (auto simp: in_step_def)
  then have "in_step_at logged broken (st\<lparr>os_log := l'\<rparr>) m n"
    using assms(3) unfolding in_step_at_def Let_def by (simp add: assms(2) del: nth_map) blast
  then show ?thesis by (auto simp: in_step_def)
qed

lemma take_max: "max_nat (take a xs) \<le> max_nat (take b xs)" if "a \<le> b"
proof (rule max_nat_le)
  fix x assume "x \<in> set (take a xs)"
  moreover have "set (take a xs) \<subseteq> set (take b xs)" using that by (rule set_take_subset_set_take)
  ultimately have "x \<in> set (take b xs)" by blast
  then show "x \<le> max_nat (take b xs)" by (rule max_nat_ge)
qed

text \<open>Marks taken from the log itself never go past it.\<close>

lemma in_step_walked:
  assumes "in_step_at logged broken st m n" and "lg_outbox L' = lg_outbox (os_ledger st)"
    and "marks L' = max (marks (os_ledger st)) (max_nat (take j (logged (os_log st))))"
    and "logged l' = logged (os_log st)" and "broken (os_log st) \<longrightarrow> broken l' \<or> n \<le> j"
    and "r = os_receipt st \<or> (r = 0 \<and> n \<le> j)"
  shows "in_step logged broken \<lparr>os_ledger = L', os_log = l', os_receipt = r, os_audit = a\<rparr>"
proof -
  let ?seqs = "map ob_seq (lg_outbox (os_ledger st))"
  have i: "sorted_wrt (<) ?seqs" "0 \<notin> set ?seqs" "n \<le> length ?seqs" "m \<le> n" "n \<le> m + 1"
    "logged (os_log st) = take n ?seqs" "marks (os_ledger st) = max_nat (take m ?seqs)"
    "n = m + 1 \<longrightarrow> broken (os_log st) \<or> os_receipt st = ?seqs ! m"
    "os_receipt st = 0 \<or> os_receipt st \<in> set (take n ?seqs)"
    using assms(1) unfolding in_step_at_def Let_def marks_def by blast+
  have "take j (logged (os_log st)) = take (min j n) ?seqs" by (simp add: i(6))
  then have m': "marks L' = max_nat (take (max m (min j n)) ?seqs)"
    using assms(3) i(7) take_max [of m "min j n" ?seqs] take_max [of "min j n" m ?seqs] by (auto simp: max_def)
  let ?m = "max m (min j n)"
  have b: "n = ?m + 1 \<longrightarrow> broken l' \<or> r = ?seqs ! ?m"
  proof
    assume n: "n = ?m + 1"
    then have "?m = m" "\<not> n \<le> j" using i(4,5) by auto
    then show "broken l' \<or> r = ?seqs ! ?m" using n i(8) assms(5,6) by auto
  qed
  have "in_step_at logged broken \<lparr>os_ledger = L', os_log = l', os_receipt = r, os_audit = a\<rparr> ?m n"
    unfolding in_step_at_def Let_def
    using i assms(2,4,6) m' [unfolded marks_def] b by auto
  then show ?thesis by (auto simp: in_step_def)
qed

lemma open_gateway_cases:
  assumes "log_sound ae LD" and "open_gateway ae dec batch fault (snd LD) L = (res, L')"
  obtains j al D' where "lg_outbox L' = lg_outbox L" "marks L' = max (marks L) (max_nat (take j (logged_receipts ae dec LD)))"
    "logged_receipts ae dec (al, D') = logged_receipts ae dec LD" "log_sound ae (al, D')" "al_failed al = None"
    "\<forall>LD2 w. res = Inr (LD2, w) \<longrightarrow> LD2 = (al, D') \<and> j = length (logged_receipts ae dec LD)"
proof -
  obtain ps t where ps: "snd LD = tear t (disk_of ps)" "nl \<notin> set t" "length t < max_line" "parts_ok ae ps"
    using assms(1) by (auto simp: log_sound_def)
  obtain al where al: "open_log ae no_fault None (snd LD) = Inr (al, disk_of ps)" "log_ok ae al ps" "al_failed al = None"
    using open_log_parts [OF ps(4,2,3)] ps(1) by auto
  have lines: "disk_lines (snd LD) = lines_of ps" "disk_lines (disk_of ps) = lines_of ps"
    using disk_lines_tear [OF parts_ok_no_nl [OF ps(4)] ps(2)] disk_lines_tear [OF parts_ok_no_nl [OF ps(4)], of "[]"] ps(1)
    by (simp_all add: tear_nil)
  let ?w0 = "\<lparr>op_ledger = L, op_generation = 0, op_active = []\<rparr>"
  obtain r w where wk: "walk ae (visit_entry dec batch fault) (disk_of ps) ?w0 = (r, w)" by (metis surj_pair)
  have wl: "walk_lines ae (visit_entry dec batch fault) (lines_of ps) ?w0 = (r, w)"
    using wk by (simp add: walk_def scanner_lines_disk [OF ps(4)])
  have lg: "logged_receipts ae dec LD = concat (map (line_receipt ae dec) (lines_of ps))"
    by (simp add: logged_receipts_def lines)
  obtain j where j: "lg_outbox (op_ledger w) = lg_outbox L"
    "r = None \<longrightarrow> j = length (logged_receipts ae dec LD)"
    "marks (op_ledger w) = max (marks L) (max_nat (take j (logged_receipts ae dec LD)))"
    using walk_marks [OF wl] unfolding lg by auto
  have L': "L' = op_ledger w" "\<forall>LD2 v. res = Inr (LD2, v) \<longrightarrow> LD2 = (al, disk_of ps) \<and> r = None"
    using assms(2) al(1) wk by (auto simp: open_gateway_def split: option.splits)
  have "logged_receipts ae dec (al, disk_of ps) = logged_receipts ae dec LD" by (simp add: logged_receipts_def lines)
  moreover have "log_sound ae (al, disk_of ps)" using al(2) ps(4) by (simp add: log_sound_whole)
  ultimately show thesis using that j L' al(3) by blast
qed

lemma outbox_step_inv:
  assumes "outbox_step e0 st st'" and "in_step (logged_receipts (ox_audit e0) (ox_decode e0)) log_broken st"
    and "log_sound (ox_audit e0) (os_log st)"
  shows "in_step (logged_receipts (ox_audit e0) (ox_decode e0)) log_broken st' \<and> log_sound (ox_audit e0) (os_log st')"
  using assms(1)
proof cases
  case (os_queue L')
  then show ?thesis using assms(2,3) in_step_queue by auto
next
  case (os_poll env res)
  have st: "in_step (logged_receipts (ox_audit env) (ox_decode env)) log_broken st"
    "log_sound (ox_audit env) (os_log st)" using assms(2,3) os_poll(1,2) by simp_all
  have "poll_with (append_receipt env) (ox_mark env) (own_receipt env) (ox_list env) st = (res, st')"
    using os_poll(4) by (simp add: poll_def)
  from audit_sink.poll_in_step [OF st this os_poll(3)] show ?thesis using os_poll(1,2) by simp
next
  case (os_append ty time body io ar LD)
  obtain L D L' D' where l: "os_log st = (L, D)" "LD = (L', D')" by (metis surj_pair)
  have sound: "log_sound (ox_audit e0) (L, D)" using assms(3) by (simp add: l)
  have rb: "reads_back (ox_audit e0) time ty body L" using os_append(3) by (simp add: l)
  have app: "AuditLog.append (ox_audit e0) io time ty body (L, D) = (ar, L', D')" using os_append(4) by (simp add: l)
  have none: "line_receipt (ox_audit e0) (ox_decode e0) line = []"
    if "prepare_entry (ox_audit e0) time ty body L = Inr (en, line)" for en line
    using that rb prepare_entryD [OF that] os_append(2)
    by (auto simp: line_receipt_def reads_back_def next_entry_def Let_def)
  note as = append_sound [OF sound rb app]
  have lines: "disk_lines D' = disk_lines D \<or> (\<exists>en line. prepare_entry (ox_audit e0) time ty body L = Inr (en, line)
      \<and> disk_lines D' = disk_lines D @ [line])"
    using as by (cases ar) auto
  then have "logged_receipts (ox_audit e0) (ox_decode e0) (L', D') = logged_receipts (ox_audit e0) (ox_decode e0) (L, D)"
    using none by (auto simp: logged_receipts_def)
  moreover have "log_broken (L, D) \<longrightarrow> log_broken (L', D')"
    using append_failed [of L "ox_audit e0" io time ty body D] app by (auto simp: log_broken_def)
  ultimately show ?thesis
    using in_step_log [OF assms(2), of "(L', D')"] as assms(3) os_append(1) by (simp add: l)
next
  case (os_restart batch fault LD w L')
  note sound = assms(3)
  obtain m n where mn: "in_step_at (logged_receipts (ox_audit e0) (ox_decode e0)) log_broken st m n"
    using assms(2) by (auto simp: in_step_def)
  have n: "n = length (logged_receipts (ox_audit e0) (ox_decode e0) (os_log st))"
    using mn by (simp add: in_step_at_def Let_def)
  from open_gateway_cases [OF sound os_restart(2)] obtain j al D' where o: "lg_outbox L' = lg_outbox (os_ledger st)"
    "marks L' = max (marks (os_ledger st)) (max_nat (take j (logged_receipts (ox_audit e0) (ox_decode e0) (os_log st))))"
    "logged_receipts (ox_audit e0) (ox_decode e0) (al, D') = logged_receipts (ox_audit e0) (ox_decode e0) (os_log st)"
    "log_sound (ox_audit e0) (al, D')" "LD = (al, D')" "j = length (logged_receipts (ox_audit e0) (ox_decode e0) (os_log st))"
    by metis
  show ?thesis
    using in_step_walked [OF mn o(1,2,3), of 0 0] o(4-6) n os_restart(1) by simp
next
  case (os_restart_failed batch fault e L')
  note sound = assms(3)
  obtain m n where mn: "in_step_at (logged_receipts (ox_audit e0) (ox_decode e0)) log_broken st m n"
    using assms(2) by (auto simp: in_step_def)
  from open_gateway_cases [OF sound os_restart_failed(2)] obtain j where o: "lg_outbox L' = lg_outbox (os_ledger st)"
    "marks L' = max (marks (os_ledger st)) (max_nat (take j (logged_receipts (ox_audit e0) (ox_decode e0) (os_log st))))"
    by metis
  have eq: "st\<lparr>os_ledger := L'\<rparr> = \<lparr>os_ledger = L', os_log = os_log st, os_receipt = os_receipt st, os_audit = os_audit st\<rparr>"
    by (cases st) simp
  have "in_step (logged_receipts (ox_audit e0) (ox_decode e0)) log_broken (st\<lparr>os_ledger := L'\<rparr>)"
    unfolding eq by (rule in_step_walked [OF mn o(1,2) refl]) simp_all
  then show ?thesis using os_restart_failed(1) assms(3) by simp
qed

lemma outbox_reach_inv:
  assumes "outbox_reach e0 st"
  shows "in_step (logged_receipts (ox_audit e0) (ox_decode e0)) log_broken st \<and> log_sound (ox_audit e0) (os_log st)"
  using assms
proof induction
  case (or_start LD)
  have "in_step_at (logged_receipts (ox_audit e0) (ox_decode e0)) log_broken
      \<lparr>os_ledger = empty_ledger, os_log = LD, os_receipt = 0, os_audit = 0\<rparr> 0 0"
    using or_start(2) by (simp add: in_step_at_def Let_def empty_ledger_def logged_receipts_def disk_lines_def)
  with or_start(1) show ?case by (auto simp: in_step_def)
next
  case (or_step st st')
  then show ?case using outbox_step_inv by blast
qed

text \<open>C12: Whatever order receipts are queued, polled, appended and marked in, with any storage
  or write fault, a crash at any point and any number of restarts, the audit log holds the
  receipts of the outbox in their order, none twice and none skipped.\<close>

theorem receipts_logged_once:
  assumes "outbox_reach e0 st"
  shows "\<exists>n \<le> length (lg_outbox (os_ledger st)).
      logged_receipts (ox_audit e0) (ox_decode e0) (os_log st) = take n (map ob_seq (lg_outbox (os_ledger st)))
    \<and> distinct (logged_receipts (ox_audit e0) (ox_decode e0) (os_log st))"
proof -
  obtain m n where i: "in_step_at (logged_receipts (ox_audit e0) (ox_decode e0)) log_broken st m n"
    using outbox_reach_inv [OF assms] by (auto simp: in_step_def)
  then have "distinct (map ob_seq (lg_outbox (os_ledger st)))"
    by (simp add: in_step_at_def Let_def strict_sorted_iff)
  with i show ?thesis by (intro exI [of _ n]) (simp add: in_step_at_def Let_def)
qed

text \<open>A poll that returns without an error has put every queued receipt into the log, the
  ones of earlier failed polls included, and leaves none waiting.\<close>

theorem poll_logs_all:
  assumes "outbox_reach e0 st" and "ox_audit env = ox_audit e0" and "ox_decode env = ox_decode e0"
    and "\<forall>b r. own_receipt env b = Inr r \<longrightarrow> receipt_good env r" and "poll env st = (None, st')"
  shows "logged_receipts (ox_audit e0) (ox_decode e0) (os_log st') = map ob_seq (lg_outbox (os_ledger st'))
    \<and> pending_receipts (os_ledger st') = []"
proof -
  have st: "in_step (logged_receipts (ox_audit env) (ox_decode env)) log_broken st" "log_sound (ox_audit env) (os_log st)"
    using outbox_reach_inv [OF assms(1)] assms(2,3) by simp_all
  have "poll_with (append_receipt env) (ox_mark env) (own_receipt env) (ox_list env) st = (None, st')"
    using assms(5) by (simp add: poll_def)
  from audit_sink.poll_in_step [OF st this assms(4)] show ?thesis using assms(2,3) by simp
qed

subsection \<open>A concrete outbox\<close>

fun json_tokens :: "json \<Rightarrow> token list" where
  "json_tokens JNull = [TNull]"
| "json_tokens (JBool b) = [TBool b]"
| "json_tokens (JNum s) = [TNum s]"
| "json_tokens (JStr s) = [TStr s]"
| "json_tokens (JArr vs) = TOpenArr # concat (map json_tokens vs) @ [TCloseArr]"
| "json_tokens (JObj kvs) = TOpenObj # concat (map (\<lambda>(k, v). TStr k # json_tokens v) kvs) @ [TCloseObj]"

definition ox_receipt :: receipt where
  "ox_receipt = \<lparr>rc_op = ''receipt'', rc_oid = toy_uuid, rc_fid = replicate 32 CHR ''0'',
     rc_sha = replicate 64 CHR ''0'', rc_size = 10, rc_jtis = [''j''], rc_transmitted = [(0, 9)],
     rc_transmitted_bytes = 10, rc_max_serves_bytes = 0, rc_outcome = ''complete'', rc_blocks_verified = True,
     rc_first_byte_at = ''t'', rc_last_byte_at = ''t'', rc_seq = 1\<rparr>"

definition ox_entry :: entry where
  "ox_entry = \<lparr>en_seq = 1, en_time = ''t'', en_type = ''receipt'', en_body = receipt_json ox_receipt,
     en_prev = '''', en_sig = ''s''\<rparr>"

definition ox_line :: string where
  "ox_line = canonical (entry_json ox_entry)"

definition ox_chain :: audit_env where
  "ox_chain = \<lparr>ae_lex = (\<lambda>_. (json_tokens (entry_json ox_entry), True)), ae_unmarshal = (\<lambda>_. Inr ox_entry),
     ae_sha = (\<lambda>_. ''h''), ae_sign = (\<lambda>_. ''s''), ae_verify = (\<lambda>_ _. True), ae_scan = (\<lambda>_. None)\<rparr>"

definition ox_demo :: "unit outbox_env" where
  "ox_demo = \<lparr>ox_crypto = \<lparr>cr_sign = (\<lambda>_ m. m), cr_private_ok = (\<lambda>_. True), cr_verify = (\<lambda>k m s. True)\<rparr>,
     ox_decoders = \<lparr>dc_header = (\<lambda>_. Inr \<lparr>hd_alg = ''EdDSA'', hd_typ = ''aim-receipt+jwt'', hd_kid = ''k''\<rparr>),
       dc_fields = (\<lambda>_. Inr (map (\<lambda>n. (n, ''1'')) [''op'', ''oid'', ''fid'', ''sha256'', ''size_bytes'', ''jtis'',
         ''transmitted'', ''transmitted_bytes'', ''max_serves_reached_bytes'', ''outcome'', ''blocks_verified'',
         ''first_byte_at'', ''last_byte_at'', ''seq''])),
       dc_permission = (\<lambda>_. Inl ErrStorage), dc_instruction = (\<lambda>_. Inl ErrStorage)\<rparr>,
     ox_answer = (\<lambda>_. Inr (AnsReceipt ox_receipt)), ox_keys = [(''k'', replicate 32 CHR ''k'')],
     ox_audit = ox_chain, ox_decode = (\<lambda>_. Inr ox_receipt), ox_io = (\<lambda>_. no_io), ox_time = (\<lambda>_. ''t''),
     ox_list = None, ox_mark = (\<lambda>_. None)\<rparr>"

definition ox_log :: audit_log where
  "ox_log = \<lparr>al_seq = 0, al_prev = '''', al_index = 0, al_size = 0, al_rotations = [], al_cursor = (0, 0, 0),
     al_last = None, al_failed = None\<rparr>"

definition ox_queue :: ledger where
  "ox_queue = empty_ledger\<lparr>lg_outbox := [\<lparr>ob_seq = 1, ob_body = ''e30.e30.e30'', ob_sent_at = None\<rparr>]\<rparr>"

definition ox_start :: "(audit_log \<times> disk) outbox" where
  "ox_start = \<lparr>os_ledger = ox_queue, os_log = (ox_log, []), os_receipt = 0, os_audit = 0\<rparr>"

lemma ox_own: "own_receipt ox_demo ''e30.e30.e30'' = Inr ox_receipt"
  by code_simp

lemma ox_fields: "six_fields (entry_json ox_entry)"
  by code_simp

lemma ox_document: "document_of (ae_lex ox_chain) raw = Some (entry_json ox_entry)"
proof -
  have "document_of (\<lambda>_. (json_tokens (entry_json ox_entry), True)) [] = Some (entry_json ox_entry)" by code_simp
  then show ?thesis by (simp add: document_of_def ox_chain_def)
qed

lemma ox_valid: "validate_raw ox_chain raw = (if raw = ox_line then Inr ox_entry else Inl (ErrMsg ''noncanonical audit JSON''))"
  unfolding validate_raw_def ox_document
  by (simp add: ox_fields ox_line_def ox_chain_def) (simp add: ox_entry_def)

lemma ox_line_ok: "line_ok ox_line"
proof -
  have "nl \<notin> set ox_line \<and> length ox_line < 1000" by code_simp
  then show ?thesis by (simp add: line_ok_def max_line_def)
qed

lemma entry_text: "canonical (entry_json e) = CHR ''{'' # quote ''body'' @ CHR '':'' # canonical (en_body e) @ CHR '','' #
    quote ''message_type'' @ CHR '':'' # quote (en_type e) @ CHR '','' # quote ''prev_hash'' @ CHR '':'' # quote (en_prev e) @ CHR '','' #
    quote ''seq'' @ CHR '':'' # dec_text (en_seq e) @ CHR '','' # quote ''sig'' @ CHR '':'' # quote (en_sig e) @ CHR '','' #
    quote ''time'' @ CHR '':'' # quote (en_time e) @ ''}''"
proof -
  have "sorted [''body'', ''message_type'', ''prev_hash'', ''seq'', ''sig'', ''time'']" by code_simp
  then show ?thesis by (simp add: canonical_def entry_json_def sort_key_id_if_sorted del: sorted_wrt.simps)
qed

lemma ox_next: "en_seq e = 1 \<Longrightarrow> en_prev e = '''' \<Longrightarrow> e = next_entry ox_chain ''t'' ''receipt'' (receipt_json ox_receipt) L \<Longrightarrow> e = ox_entry"
  by (simp add: next_entry_def ox_entry_def ox_chain_def Let_def)

lemma ox_first: "prepare_entry ox_chain ''t'' ''receipt'' (receipt_json ox_receipt) ox_log = Inr (ox_entry, ox_line)"
proof -
  have "next_entry ox_chain ''t'' ''receipt'' (receipt_json ox_receipt) ox_log = ox_entry"
    by (simp add: next_entry_def ox_log_def ox_entry_def ox_chain_def Let_def)
  moreover have "allowed_type ''receipt''" by code_simp
  ultimately show ?thesis by (simp add: prepare_entry_def ox_log_def ox_valid ox_line_def Let_def)
qed

lemma ox_append: "AuditLog.append ox_chain no_io ''t'' ''receipt'' (receipt_json ox_receipt) (ox_log, [])
    = (Inr ox_entry, ox_log\<lparr>al_rotations := [(1, 0)], al_size := length ox_line + 1, al_seq := 1,
         al_prev := ''h'', al_last := Some ox_entry\<rparr>, [(0, ox_line @ [nl])])"
proof -
  have r: "AuditLog.rotate n ox_log = ox_log" for n by (simp add: rotate_def ox_log_def)
  show ?thesis
    by (simp only: append_def prod.case ox_first sum.case option.case Let_def r)
      (simp add: ox_log_def no_io_def ox_chain_def)
qed

lemma ox_second:
  assumes "en_prev e = ''h''" and "en_type e = ''receipt''" and "en_body e = receipt_json ox_receipt"
  shows "canonical (entry_json e) \<noteq> ox_line"
proof
  assume "canonical (entry_json e) = ox_line"
  moreover have "quote ''h'' = [CHR 0x22, CHR ''h'', CHR 0x22]" "quote '''' = [CHR 0x22, CHR 0x22]" by code_simp+
  ultimately show False using assms by (simp add: ox_line_def entry_text) (simp add: ox_entry_def)
qed

lemma ox_lines:
  assumes "chained ox_chain n prev ls"
  shows "ls = [] \<or> n = 0 \<and> ls = [ox_line]"
  using assms
proof (induction ls arbitrary: n prev)
  case (Cons l ls)
  then have l: "l = ox_line" "n = 0" by (auto simp: ox_valid ox_entry_def split: if_splits)
  from Cons.IH [of "n + 1" "ae_sha ox_chain l"] Cons.prems have "ls = []" by simp
  with l show ?case by simp
qed simp

lemma ox_reads_back:
  assumes "log_sound ox_chain (L, D)"
  shows "reads_back ox_chain ''t'' ''receipt'' (receipt_json ox_receipt) L"
proof (cases "prepare_entry ox_chain ''t'' ''receipt'' (receipt_json ox_receipt) L")
  case (Inr q)
  obtain en line where q: "q = (en, line)" by fastforce
  note p = prepare_entryD [OF Inr [unfolded q], of "ErrMsg ''noncanonical audit JSON''"]
  then have line: "line = ox_line" by (auto simp: ox_valid split: if_splits)
  obtain ps where "log_ok ox_chain L ps" using assms p by (auto simp: log_sound_def)
  then have ok: "chained ox_chain 0 '''' (lines_of ps)" "al_seq L = length (lines_of ps)"
    "al_prev L = last_hash ox_chain '''' (lines_of ps)" by (simp_all add: log_ok_def parts_ok_def)
  have en: "en_seq en = al_seq L + 1" "en_prev en = al_prev L" "en_type en = ''receipt''" "en_body en = receipt_json ox_receipt"
    using p by (simp_all add: next_entry_def Let_def)
  have "lines_of ps \<noteq> [ox_line]"
    using ox_second [of en] en ok(3) p line by (auto simp: ox_chain_def)
  with ox_lines [OF ok(1)] have "lines_of ps = []" by blast
  with ok en have "en_seq en = 1" "en_prev en = ''''" by simp_all
  with p have "en = ox_entry" by (intro ox_next) simp_all
  then show ?thesis using Inr q line ox_line_ok by (simp add: reads_back_def ox_chain_def)
qed (simp add: reads_back_def)

lemma ox_good: "receipt_good ox_demo ox_receipt"
  unfolding receipt_good_def using ox_reads_back by (simp add: ox_demo_def)

definition ox_end :: "(audit_log \<times> disk) outbox" where
  "ox_end = \<lparr>os_ledger = mark_receipt_audited 1 1 ox_queue, os_log = (ox_log\<lparr>al_rotations := [(1, 0)],
     al_size := length ox_line + 1, al_seq := 1, al_prev := ''h'', al_last := Some ox_entry\<rparr>, [(0, ox_line @ [nl])]),
     os_receipt = 0, os_audit = 1\<rparr>"

lemma ox_poll: "poll ox_demo ox_start = (None, ox_end)"
proof -
  have q: "pending_receipts ox_queue = [(1, ''e30.e30.e30'')]" by code_simp
  have e: "en_seq ox_entry = 1" by (simp add: ox_entry_def)
  have ap: "append_receipt ox_demo 0 ox_receipt (ox_log, []) = (Inr 1, os_log ox_end)"
    using ox_append by (simp add: append_receipt_def ox_demo_def ox_end_def e)
  have "poll_one (append_receipt ox_demo) (ox_mark ox_demo) (own_receipt ox_demo) 0 (1, ''e30.e30.e30'') ox_start = (None, ox_end)"
    by (simp add: poll_one_def ox_start_def ox_own ap Let_def) (simp add: ox_receipt_def ox_demo_def mark_def ox_end_def)
  moreover have "ox_list ox_demo = None" by (simp add: ox_demo_def)
  ultimately show ?thesis by (simp add: poll_def poll_with_def ox_start_def q)
qed

lemma ox_answers: "\<forall>b r. own_receipt ox_demo b = Inr r \<longrightarrow> receipt_good ox_demo r"
proof (intro allI impI)
  fix b r
  assume "own_receipt ox_demo b = Inr r"
  then have "r = ox_receipt"
    by (auto simp: own_receipt_def verify_gateway_answer_def verify_token_def ox_demo_def bind_res_Inr split: sum.splits if_splits)
  then show "receipt_good ox_demo r" by (simp add: ox_good)
qed

lemma ox_reach_start: "outbox_reach ox_demo ox_start"
proof -
  have "log_sound ox_chain (ox_log, disk_of [])"
    by (rule log_sound_whole)
      (simp_all add: parts_ok_def log_ok_def at_end_def ox_log_def lines_of_def last_entry_def)
  then have "outbox_reach ox_demo \<lparr>os_ledger = empty_ledger, os_log = (ox_log, []), os_receipt = 0, os_audit = 0\<rparr>"
    by (intro or_start) (simp_all add: ox_demo_def disk_of_def)
  moreover have "grows empty_ledger ox_queue"
    by (auto simp: grows_def ox_queue_def empty_ledger_def is_revoked_def is_completed_def was_seen_def queued_def outbox_ordered_def)
  ultimately have "outbox_reach ox_demo (\<lparr>os_ledger = empty_ledger, os_log = (ox_log, []), os_receipt = 0, os_audit = 0\<rparr>\<lparr>os_ledger := ox_queue\<rparr>)"
    by (intro or_step [OF _ os_queue]) (simp_all add: ox_queue_def empty_ledger_def)
  then show ?thesis by (simp add: ox_start_def)
qed

lemma ox_reach_end: "outbox_reach ox_demo ox_end"
  by (rule or_step [OF ox_reach_start os_poll [OF _ _ ox_answers ox_poll]]) simp_all

theorem receipts_logged_once_witness:
  "logged_receipts ox_chain (\<lambda>_. Inr ox_receipt) (os_log ox_end) = [1] \<and> distinct [1 :: nat]"
proof -
  have d: "disk_lines [(0, ox_line @ [nl])] = [ox_line]"
    using ox_line_ok whole_lines_content [of "[ox_line]" "[]"] by (simp add: disk_lines_def line_ok_def content_of_def)
  have "logged_receipts ox_chain (\<lambda>_. Inr ox_receipt) (os_log ox_end) \<noteq> []"
    by (simp add: logged_receipts_def ox_end_def d line_receipt_def ox_chain_def) (simp add: ox_entry_def)
  moreover have q: "map ob_seq (lg_outbox (os_ledger ox_end)) = [1]" by (simp add: ox_end_def ox_queue_def)
  moreover have "take n [1 :: nat] = [] \<or> take n [1 :: nat] = [1]" for n by (cases n) simp_all
  ultimately show ?thesis using receipts_logged_once [OF ox_reach_end, unfolded q]
    by (auto simp: ox_demo_def)
qed

theorem poll_logs_all_witness:
  "logged_receipts ox_chain (\<lambda>_. Inr ox_receipt) (os_log ox_end) = [1] \<and> pending_receipts (os_ledger ox_end) = []"
proof -
  have "map ob_seq (lg_outbox (os_ledger ox_end)) = [1]" by (simp add: ox_end_def ox_queue_def)
  with poll_logs_all [OF ox_reach_start refl refl ox_answers ox_poll] show ?thesis by (simp add: ox_demo_def)
qed
end
