(* ===== verification/Pins.thy ===== *)
theory Pins
  imports Control
begin

text \<open>
  The keys a gateway trusts: the pins of internal/pairing/pairing.go, their key maps and
  expiries, and the two ways they change, key rotation and the bootstrap of the scan keys
  (Handle and VerificationControl of internal/gateway/gateway.go), with the file pins.json
  they are saved in. internal/channel/channel.go, verify: an instruction is accepted under
  these keys. The texts of instants are written and read by the functions of \<open>timestamps\<close>.
\<close>

subsection \<open>Pins\<close>

record pins =
  pn_gateway :: string
  pn_permission :: "wire_key list"
  pn_scan :: "wire_key list"
  pn_listing :: "wire_key list"
  pn_minimum :: string
  pn_canary_host :: string
  pn_canary_zone :: string
  pn_expires :: "(string \<times> string) list"

type_synonym named_keys = "(string \<times> bytes) list"

text \<open>Instants are nanoseconds; \<open>time.Parse\<close> may fail on a text.\<close>

record timestamps =
  ts_parse :: "string \<Rightarrow> int option"
  ts_format :: "int \<Rightarrow> string"

definition expiry :: "pins \<Rightarrow> string \<Rightarrow> string" where
  "expiry p kid = (case map_of (pn_expires p) kid of None \<Rightarrow> '''' | Some at \<Rightarrow> at)"

text \<open>A key without an expiry, or before it; one with an unreadable expiry is dead.\<close>

definition alive :: "timestamps \<Rightarrow> int \<Rightarrow> pins \<Rightarrow> string \<Rightarrow> bool" where
  "alive ts now p kid \<longleftrightarrow> expiry p kid = '''' \<or> (case ts_parse ts (expiry p kid) of None \<Rightarrow> False | Some d \<Rightarrow> now < d)"

definition class_keys :: "string \<Rightarrow> pins \<Rightarrow> wire_key list" where
  "class_keys cls p = (if cls = ''scan'' then pn_scan p else if cls = ''permission'' then pn_permission p else pn_listing p)"

subsection \<open>Key maps\<close>

text \<open>keyMap: every key of the list, the last one of a name.\<close>

fun key_map_loop :: "wire_key list \<Rightarrow> named_keys \<Rightarrow> gw_error + named_keys" where
  "key_map_loop [] m = Inr m"
| "key_map_loop (k # ks) m =
     (case b64_decode (k_key k) of None \<Rightarrow> Inl (ErrMsg ''invalid key'')
      | Some b \<Rightarrow>
        if k_alg k \<noteq> ''EdDSA'' \<or> k_kid k = '''' \<or> length b \<noteq> 32 then Inl (ErrMsg ''invalid key'')
        else key_map_loop ks (AList.update (k_kid k) b m))"

definition key_map :: "wire_key list \<Rightarrow> gw_error + named_keys" where
  "key_map ks = key_map_loop ks []"

text \<open>keys of the channel: the keys of a class that are alive; the clock is read for each.\<close>

fun live_keys_loop :: "timestamps \<Rightarrow> (nat \<Rightarrow> int) \<Rightarrow> pins \<Rightarrow> nat \<Rightarrow> wire_key list \<Rightarrow> named_keys \<Rightarrow> gw_error + named_keys" where
  "live_keys_loop ts clk p n [] m = Inr m"
| "live_keys_loop ts clk p n (k # ks) m =
     (if \<not> alive ts (clk n) p (k_kid k) then live_keys_loop ts clk p (n + 1) ks m
      else case b64_decode (k_key k) of None \<Rightarrow> Inl (ErrMsg ''invalid pinned key'')
      | Some b \<Rightarrow>
        if k_alg k \<noteq> ''EdDSA'' \<or> length b \<noteq> 32 then Inl (ErrMsg ''invalid pinned key'')
        else live_keys_loop ts clk p (n + 1) ks (AList.update (k_kid k) b m))"

definition live_keys :: "timestamps \<Rightarrow> (nat \<Rightarrow> int) \<Rightarrow> string \<Rightarrow> pins \<Rightarrow> gw_error + named_keys" where
  "live_keys ts clk cls p = live_keys_loop ts clk p 0 (class_keys cls p) []"

text \<open>The keys the door uses: those of the map that are alive.\<close>

definition door_keys :: "timestamps \<Rightarrow> int \<Rightarrow> pins \<Rightarrow> named_keys \<Rightarrow> named_keys" where
  "door_keys ts now p m = filter (\<lambda>(kid, _). alive ts now p kid) m"

text \<open>Dropping the keys whose expiry has passed or cannot be read.\<close>

definition drop_expired :: "timestamps \<Rightarrow> int \<Rightarrow> pins \<Rightarrow> named_keys \<Rightarrow> named_keys" where
  "drop_expired ts now p m = filter (\<lambda>(kid, _). case map_of (pn_expires p) kid of None \<Rightarrow> True
     | Some at \<Rightarrow> (case ts_parse ts at of None \<Rightarrow> False | Some d \<Rightarrow> now < d)) m"

definition active_scan_keys :: "timestamps \<Rightarrow> int \<Rightarrow> pins \<Rightarrow> named_keys" where
  "active_scan_keys ts now p = (case key_map (pn_scan p) of Inl e \<Rightarrow> [] | Inr m \<Rightarrow> drop_expired ts now p m)"

subsection \<open>Saving\<close>

text \<open>savePins: the faults of its steps. The file is replaced by the rename; the only trace of
  an earlier failure is the temporary file, which nothing reads.\<close>

record save_io =
  sv_marshal :: "gw_error option"
  sv_open :: "gw_error option"
  sv_write :: "gw_error option"
  sv_sync :: "gw_error option"
  sv_close :: "gw_error option"
  sv_rename :: "gw_error option"
  sv_dir :: "gw_error option"
  sv_dirsync :: "gw_error option"

definition save_pins :: "save_io \<Rightarrow> pins \<Rightarrow> pins \<Rightarrow> gw_error option \<times> pins" where
  "save_pins io p saved =
     (case first_error [sv_marshal io, sv_open io, sv_write io, sv_sync io, sv_close io, sv_rename io] of
        Some e \<Rightarrow> (Some e, saved)
      | None \<Rightarrow> (first_error [sv_dir io, sv_dirsync io], p))"

subsection \<open>Rotation\<close>

fun append_unique_keys :: "wire_key list \<Rightarrow> wire_key list \<Rightarrow> wire_key list" where
  "append_unique_keys old [] = old"
| "append_unique_keys old (k # ks) =
     append_unique_keys (if list_ex (\<lambda>o'. k_kid o' = k_kid k) old then old else old @ [k]) ks"

text \<open>The keys in memory, the saved pins and the key map of the door.\<close>

record key_state =
  ks_pins :: pins
  ks_saved :: pins
  ks_keys :: named_keys

text \<open>A scan key never shares its name with a key of another class.\<close>

definition rotation_conflict :: "string \<Rightarrow> wire_key list \<Rightarrow> pins \<Rightarrow> bool" where
  "rotation_conflict cls added p \<longleftrightarrow>
     list_ex (\<lambda>a. (cls \<noteq> ''scan'' \<and> list_ex (\<lambda>k. k_kid a = k_kid k) (pn_scan p))
       \<or> (cls = ''scan'' \<and> list_ex (\<lambda>k. k_kid a = k_kid k) (pn_permission p @ pn_listing p))) added"

definition seven_days :: int where "seven_days = 7 * 24 * 3600 * 1000000000"

definition rotated :: "timestamps \<Rightarrow> int \<Rightarrow> string \<Rightarrow> string \<Rightarrow> wire_key list \<Rightarrow> pins \<Rightarrow> pins" where
  "rotated ts now cls signer added p =
     (let p1 = (if expiry p signer = ''''
          then p\<lparr>pn_expires := AList.update signer (ts_format ts (now + seven_days)) (pn_expires p)\<rparr> else p) in
      if cls = ''permission'' then p1\<lparr>pn_permission := append_unique_keys (pn_permission p1) added\<rparr>
      else if cls = ''scan'' then p1\<lparr>pn_scan := append_unique_keys (pn_scan p1) added\<rparr>
      else p1\<lparr>pn_listing := append_unique_keys (pn_listing p1) added\<rparr>)"

text \<open>The part of a rotation under the lock, after the check for conflicts.\<close>

definition update_keys :: "timestamps \<Rightarrow> save_io \<Rightarrow> int \<Rightarrow> string \<Rightarrow> string \<Rightarrow> wire_key list \<Rightarrow> key_state
    \<Rightarrow> gw_error option \<times> key_state" where
  "update_keys ts io now cls signer added st =
     (let p = rotated ts now cls signer added (ks_pins st) in
      case (if cls = ''permission'' then key_map (pn_permission p) else Inr (ks_keys st)) of
        Inl e \<Rightarrow> (Some e, st)
      | Inr m \<Rightarrow>
        (case save_pins io p (ks_saved st) of
           (Some e, d) \<Rightarrow> (Some e, st\<lparr>ks_saved := d\<rparr>)
         | (None, d) \<Rightarrow> (None, \<lparr>ks_pins = p, ks_saved = d, ks_keys = m\<rparr>)))"

definition err_verification :: gw_error where "err_verification = ErrMsg ''invalid_verification''"

definition rotate_keys :: "timestamps \<Rightarrow> save_io \<Rightarrow> int \<Rightarrow> string \<Rightarrow> string \<Rightarrow> wire_key list \<Rightarrow> key_state
    \<Rightarrow> gw_error option \<times> key_state" where
  "rotate_keys ts io now cls signer added st =
     (if rotation_conflict cls added (ks_pins st) then (Some err_verification, st)
      else update_keys ts io now cls signer added st)"

text \<open>Replacing the pins: the memory changes only when the save reports no error.\<close>

definition replace_pins :: "save_io \<Rightarrow> pins \<Rightarrow> key_state \<Rightarrow> gw_error option \<times> key_state" where
  "replace_pins io p st =
     (case save_pins io p (ks_saved st) of
        (Some e, d) \<Rightarrow> (Some e, st\<lparr>ks_saved := d\<rparr>)
      | (None, d) \<Rightarrow> (None, st\<lparr>ks_pins := p, ks_saved := d\<rparr>))"

definition set_minimum :: "save_io \<Rightarrow> string \<Rightarrow> key_state \<Rightarrow> gw_error option \<times> key_state" where
  "set_minimum io v st = replace_pins io ((ks_pins st)\<lparr>pn_minimum := v\<rparr>) st"

subsection \<open>The gateway's environment of keys\<close>

record 'k key_env =
  ke_crypto :: "'k crypto"
  ke_strict :: decoders
  ke_header :: "bytes \<Rightarrow> gw_error + jws_header"
  ke_instruction :: "bytes \<Rightarrow> gw_error + instruction"
  ke_bootstrap :: "bytes \<Rightarrow> gw_error + scan_bootstrap"
  ke_docs :: documents
  ke_time :: timestamps

text \<open>The bootstrap branch of VerificationControl: once, by a live listing key. The clock is
  read for the expiries and for the token.\<close>

definition bootstrap_scan_keys :: "'k key_env \<Rightarrow> save_io \<Rightarrow> int \<Rightarrow> int \<Rightarrow> string \<Rightarrow> key_state
    \<Rightarrow> gw_error option \<times> key_state" where
  "bootstrap_scan_keys env io now at token st =
     (let p = ks_pins st in
      if pn_scan p \<noteq> [] then (Some err_verification, st)
      else case key_map (pn_listing p) of Inl e \<Rightarrow> (Some e, st)
      | Inr m \<Rightarrow>
        (case verify_scan_bootstrap (ke_crypto env) (ke_strict env) (ke_docs env) (ke_bootstrap env) token
            (drop_expired (ke_time env) now p m) (pn_gateway p) at of
           None \<Rightarrow> (Some err_verification, st)
         | Some b \<Rightarrow>
           if \<not> validate_key_set [pn_permission p, pn_listing p, sb_keys b] then (Some err_verification, st)
           else replace_pins io (p\<lparr>pn_scan := sb_keys b\<rparr>) st))"

text \<open>Run: the pins as saved, and the key map of the door.\<close>

definition start_keys :: "pins \<Rightarrow> gw_error + key_state" where
  "start_keys saved = (case key_map (pn_permission saved) of Inl e \<Rightarrow> Inl e
     | Inr m \<Rightarrow> Inr \<lparr>ks_pins = saved, ks_saved = saved, ks_keys = m\<rparr>)"

subsection \<open>Accepting an instruction\<close>

text \<open>A rotation may be signed by a key of any class; an attempt whose keys cannot be built is
  passed over. The clock is read per attempt and key, and once per verification.\<close>

fun try_classes :: "'k key_env \<Rightarrow> (string \<Rightarrow> nat \<Rightarrow> int) \<Rightarrow> (string \<Rightarrow> int) \<Rightarrow> pins \<Rightarrow> string \<Rightarrow> string list
    \<Rightarrow> instruction \<times> string \<times> gw_error option \<Rightarrow> instruction \<times> string \<times> gw_error option" where
  "try_classes env clk now p token [] r = r"
| "try_classes env clk now p token (cls # rest) (i, c, err) =
     (case live_keys (ke_time env) (clk cls) cls p of
        Inl _ \<Rightarrow> try_classes env clk now p token rest (i, c, err)
      | Inr m \<Rightarrow>
        (case (if cls = ''scan''
               then (case verify_scan_rotation (ke_crypto env) (ke_strict env) (ke_docs env) token m of
                  None \<Rightarrow> Inl err_verification | Some j \<Rightarrow> Inr j)
               else verify_instruction (ke_crypto env) (ke_strict env) (now cls) token m) of
           Inr j \<Rightarrow> (j, cls, None)
         | Inl e \<Rightarrow> try_classes env clk now p token rest (i, c, Some e)))"

definition accept_instruction :: "'k key_env \<Rightarrow> (string \<Rightarrow> nat \<Rightarrow> int) \<Rightarrow> (string \<Rightarrow> int) \<Rightarrow> pins \<Rightarrow> string
    \<Rightarrow> gw_error + (instruction \<times> string \<times> string)" where
  "accept_instruction env clk now p token =
     (case split_on CHR ''.'' token of
        [p0, p1, p2] \<Rightarrow>
          bind_res (b64_res p0) (\<lambda>h.
          bind_res (ke_header env h) (\<lambda>header.
          bind_res (b64_res p1) (\<lambda>b.
          bind_res (ke_instruction env b) (\<lambda>i0.
          bind_res (kind i0) (\<lambda>(_, cls).
            (case (if cls = ''outgoing''
                   then try_classes env clk now p token [''listing'', ''permission'', ''scan''] (i0, cls, None)
                   else (case live_keys (ke_time env) (clk cls) cls p of
                       Inl e \<Rightarrow> (i0, cls, Some e)
                     | Inr m \<Rightarrow> (case verify_instruction (ke_crypto env) (ke_strict env) (now cls) token m of
                         Inl e \<Rightarrow> (i0, cls, Some e) | Inr i \<Rightarrow> (i, cls, None)))) of
               (i, c, Some e) \<Rightarrow> Inl e
             | (i, c, None) \<Rightarrow>
               if i_aud i \<noteq> pn_gateway p then Inl (ErrMsg ''wrong instruction audience'')
               else Inr (i, c, hd_kid header)))))))
      | _ \<Rightarrow> Inl (ErrMsg ''invalid instruction''))"

end
