(* ===== verification/PinsProps.thy ===== *)
theory PinsProps
  imports Pins
begin

text \<open>
  What the trusted keys promise: pins only grow and an expiry never moves, the saved pins are
  never behind the ones in memory, scan keys stay apart from the others, an instruction is
  accepted only from a live pinned key, and an expired key stays dead across restarts.
\<close>

subsection \<open>Pins grow\<close>

definition extends :: "pins \<Rightarrow> pins \<Rightarrow> bool" where
  "extends p q \<longleftrightarrow> pn_gateway q = pn_gateway p
     \<and> (\<exists>xs. pn_permission q = pn_permission p @ xs) \<and> (\<exists>xs. pn_listing q = pn_listing p @ xs)
     \<and> (\<exists>xs. pn_scan q = pn_scan p @ xs)
     \<and> (\<forall>kid. expiry p kid \<noteq> '''' \<longrightarrow> expiry q kid = expiry p kid)"

lemma extends_refl [simp]: "extends p p"
  by (simp add: extends_def)

lemma append_trans: "\<exists>xs. b = a @ xs \<Longrightarrow> \<exists>xs. c = b @ xs \<Longrightarrow> \<exists>xs. c = a @ xs"
  by (metis append_assoc)

lemma extends_trans:
  assumes "extends p q" and "extends q r"
  shows "extends p r"
  unfolding extends_def
proof (intro conjI allI impI)
  fix kid
  assume "expiry p kid \<noteq> ''''"
  with assms have "expiry q kid = expiry p kid" by (simp add: extends_def)
  with \<open>expiry p kid \<noteq> ''''\<close> assms(2) show "expiry r kid = expiry p kid" by (simp add: extends_def)
next
  show "pn_gateway r = pn_gateway p" using assms by (simp add: extends_def)
next
  show "\<exists>xs. pn_permission r = pn_permission p @ xs"
    by (rule append_trans [of "pn_permission q"]) (use assms in \<open>simp_all add: extends_def\<close>)
next
  show "\<exists>xs. pn_listing r = pn_listing p @ xs"
    by (rule append_trans [of "pn_listing q"]) (use assms in \<open>simp_all add: extends_def\<close>)
next
  show "\<exists>xs. pn_scan r = pn_scan p @ xs"
    by (rule append_trans [of "pn_scan q"]) (use assms in \<open>simp_all add: extends_def\<close>)
qed

lemma append_unique_keys_extends: "\<exists>xs. append_unique_keys old ks = old @ xs"
proof (induction ks arbitrary: old)
  case (Cons k ks)
  from Cons.IH [of "old @ [k]"] Cons.IH [of old] show ?case by auto
qed simp

lemma rotated_extends: "extends p (rotated ts now cls signer added p)"
  using append_unique_keys_extends [of "pn_permission p" added] append_unique_keys_extends [of "pn_scan p" added]
    append_unique_keys_extends [of "pn_listing p" added]
  by (auto simp: extends_def rotated_def Let_def expiry_def update_conv' split: option.splits)

subsection \<open>Names\<close>

definition names :: "wire_key list \<Rightarrow> string list" where
  "names ks = map k_kid ks"

text \<open>Names are distinct within a class, scan keys are apart from the rest, and the permission
  keys make a key map.\<close>

definition separated :: "pins \<Rightarrow> bool" where
  "separated p \<longleftrightarrow> distinct (names (pn_permission p)) \<and> distinct (names (pn_listing p)) \<and> distinct (names (pn_scan p))
     \<and> set (names (pn_scan p)) \<inter> set (names (pn_permission p @ pn_listing p)) = {}"

definition usable :: "pins \<Rightarrow> bool" where
  "usable p \<longleftrightarrow> (\<exists>m. key_map (pn_permission p) = Inr m)"

lemma append_unique_keys_names:
  assumes "distinct (names old)"
  shows "distinct (names (append_unique_keys old ks)) \<and> set (names (append_unique_keys old ks)) = set (names old) \<union> set (names ks)"
  using assms
proof (induction ks arbitrary: old)
  case (Cons k ks)
  let ?old = "if list_ex (\<lambda>o'. k_kid o' = k_kid k) old then old else old @ [k]"
  have "distinct (names ?old)" using Cons.prems by (auto simp: names_def list_ex_iff)
  note IH = Cons.IH [OF this]
  have "set (names ?old) = insert (k_kid k) (set (names old))"
    by (auto simp: names_def list_ex_iff intro: rev_image_eqI)
  with IH show ?case by (simp add: names_def)
qed (simp add: names_def)

lemma rotated_separated:
  assumes "separated p" and "\<not> rotation_conflict cls added p"
  shows "separated (rotated ts now cls signer added p)"
proof -
  have d: "distinct (names (pn_permission p))" "distinct (names (pn_listing p))" "distinct (names (pn_scan p))"
    using assms(1) by (simp_all add: separated_def)
  have c: "cls = ''scan'' \<Longrightarrow> set (names added) \<inter> set (names (pn_permission p @ pn_listing p)) = {}"
    "cls \<noteq> ''scan'' \<Longrightarrow> set (names added) \<inter> set (names (pn_scan p)) = {}"
    using assms(2) by (auto simp: rotation_conflict_def list_ex_iff names_def)
  have same: "names (xs @ ys) = names xs @ names ys" for xs ys by (simp add: names_def)
  note new = append_unique_keys_names [OF d(1), of added] append_unique_keys_names [OF d(2), of added]
    append_unique_keys_names [OF d(3), of added]
  consider "cls = ''permission''" | "cls = ''scan''" | "cls \<noteq> ''permission''" "cls \<noteq> ''scan''" by blast
  then show ?thesis
  proof cases
    case 1
    with assms(1) c(2) new(1) show ?thesis by (auto simp: separated_def rotated_def Let_def same)
  next
    case 2
    with assms(1) c(1) new(3) show ?thesis by (auto simp: separated_def rotated_def Let_def same)
  next
    case 3
    with assms(1) c(2) new(2) show ?thesis by (auto simp: separated_def rotated_def Let_def same)
  qed
qed

subsection \<open>Steps of the keys\<close>

text \<open>A rotation with any keys, a minimum version, a bootstrap, each with any faults of the
  save, and a restart from the saved pins.\<close>

inductive key_step :: "'k key_env \<Rightarrow> key_state \<Rightarrow> key_state \<Rightarrow> bool" for env :: "'k key_env" where
  kt_rotate: "rotate_keys (ke_time env) io now cls signer added st = (res, st') \<Longrightarrow> key_step env st st'"
| kt_minimum: "set_minimum io v st = (res, st') \<Longrightarrow> key_step env st st'"
| kt_bootstrap: "bootstrap_scan_keys env io now at token st = (res, st') \<Longrightarrow> key_step env st st'"
| kt_restart: "start_keys (ks_saved st) = Inr st' \<Longrightarrow> key_step env st st'"

inductive key_steps :: "'k key_env \<Rightarrow> key_state \<Rightarrow> key_state \<Rightarrow> bool" for env :: "'k key_env" where
  ky_here: "key_steps env st st"
| ky_step: "key_steps env st st' \<Longrightarrow> key_step env st' st'' \<Longrightarrow> key_steps env st st''"

text \<open>What holds of the state between steps.\<close>

definition keys_inv :: "key_state \<Rightarrow> bool" where
  "keys_inv st \<longleftrightarrow> separated (ks_pins st) \<and> separated (ks_saved st) \<and> usable (ks_saved st)
     \<and> extends (ks_pins st) (ks_saved st) \<and> key_map (pn_permission (ks_pins st)) = Inr (ks_keys st)"

lemma save_pins_cases: "save_pins io p saved = (e, d) \<Longrightarrow> d = p \<or> (d = saved \<and> e \<noteq> None)"
  by (auto simp: save_pins_def split: option.splits)

lemma update_keys_cases:
  assumes "update_keys ts io now cls signer added st = (res, st')"
  shows "st' = st \<or> (\<exists>m. (if cls = ''permission'' then key_map (pn_permission (rotated ts now cls signer added (ks_pins st))) = Inr m
       else m = ks_keys st)
     \<and> (st' = st\<lparr>ks_saved := rotated ts now cls signer added (ks_pins st)\<rparr>
       \<or> st' = \<lparr>ks_pins = rotated ts now cls signer added (ks_pins st),
            ks_saved = rotated ts now cls signer added (ks_pins st), ks_keys = m\<rparr>))"
  using assms unfolding update_keys_def Let_def
  by (auto split: sum.splits prod.splits option.splits if_splits dest!: save_pins_cases)

lemma rotated_permission: "cls \<noteq> ''permission'' \<Longrightarrow> pn_permission (rotated ts now cls signer added p) = pn_permission p"
  by (simp add: rotated_def Let_def)

lemma rotate_keys_inv:
  assumes "rotate_keys ts io now cls signer added st = (res, st')" and "keys_inv st"
  shows "keys_inv st' \<and> extends (ks_pins st) (ks_pins st')"
proof (cases "rotation_conflict cls added (ks_pins st) \<or> st' = st")
  case True
  then show ?thesis using assms by (auto simp: rotate_keys_def)
next
  case False
  let ?p = "rotated ts now cls signer added (ks_pins st)"
  obtain m where m: "if cls = ''permission'' then key_map (pn_permission ?p) = Inr m else m = ks_keys st"
    and st': "st' = st\<lparr>ks_saved := ?p\<rparr> \<or> st' = \<lparr>ks_pins = ?p, ks_saved = ?p, ks_keys = m\<rparr>"
    using update_keys_cases [of ts io now cls signer added st res st'] assms(1) False
    by (auto simp: rotate_keys_def)
  have "separated ?p" using rotated_separated assms(2) False by (simp add: keys_inv_def)
  moreover have "key_map (pn_permission ?p) = Inr m"
    using m assms(2) rotated_permission [of cls ts now signer added "ks_pins st"]
    by (auto simp: keys_inv_def split: if_splits)
  ultimately show ?thesis using st' assms(2) rotated_extends by (auto simp: keys_inv_def usable_def)
qed

lemma replace_pins_inv:
  assumes "replace_pins io p st = (res, st')" and "keys_inv st" and "extends (ks_pins st) p" and "separated p"
    and "pn_permission p = pn_permission (ks_pins st)"
  shows "keys_inv st' \<and> extends (ks_pins st) (ks_pins st')"
  using assms unfolding replace_pins_def
  by (auto split: prod.splits option.splits dest!: save_pins_cases simp: keys_inv_def usable_def)

lemma key_set_names: "validate_key_set [a, b, c] \<Longrightarrow> distinct (names (a @ b @ c))"
  by (simp add: validate_key_set_def key_set_loop_iff names_def)

lemma key_step_inv:
  assumes "key_step env st st'" and "keys_inv st"
  shows "keys_inv st' \<and> extends (ks_pins st) (ks_pins st')"
  using assms
proof (induction rule: key_step.induct)
  case (kt_rotate io now cls signer added st res st')
  then show ?case by (rule rotate_keys_inv)
next
  case (kt_minimum io v st res st')
  show ?case
    by (rule replace_pins_inv [OF kt_minimum(1) [unfolded set_minimum_def] kt_minimum(2)])
      (use kt_minimum(2) in \<open>simp_all add: extends_def expiry_def keys_inv_def separated_def\<close>)
next
  case (kt_bootstrap io now at token st res st')
  show ?case
  proof (cases "st' = st")
    case False
    then obtain b :: scan_bootstrap where b: "pn_scan (ks_pins st) = []"
      "validate_key_set [pn_permission (ks_pins st), pn_listing (ks_pins st), sb_keys b]"
      "replace_pins io ((ks_pins st)\<lparr>pn_scan := sb_keys b\<rparr>) st = (res, st')"
      using kt_bootstrap(1) unfolding bootstrap_scan_keys_def Let_def
      by (auto split: if_splits sum.splits option.splits)
    from replace_pins_inv [OF b(3) kt_bootstrap(2)] key_set_names [OF b(2)] b(1)
    show ?thesis by (simp add: extends_def expiry_def separated_def names_def Int_Un_distrib Int_commute)
  qed (use kt_bootstrap(2) in simp)
next
  case (kt_restart st st')
  then show ?case by (auto simp: start_keys_def keys_inv_def usable_def split: sum.splits)
qed

lemma key_steps_inv:
  assumes "key_steps env st st'" and "keys_inv st"
  shows "keys_inv st' \<and> extends (ks_pins st) (ks_pins st')"
  using assms
proof (induction rule: key_steps.induct)
  case (ky_step st st' st'')
  then show ?case using key_step_inv extends_trans by blast
qed simp

subsection \<open>Accepted instructions\<close>

lemma live_keys_loopD:
  "live_keys_loop ts clk p n ks m = Inr m' \<Longrightarrow> map_of m' kid = Some b \<Longrightarrow>
     map_of m kid = Some b \<or> (\<exists>k \<in> set ks. k_kid k = kid \<and> b64_decode (k_key k) = Some b \<and> (\<exists>j. alive ts (clk j) p kid))"
proof (induction ks arbitrary: n m)
  case (Cons k ks)
  show ?case
  proof (cases "alive ts (clk n) p (k_kid k)")
    case True
    then obtain b' where b': "b64_decode (k_key k) = Some b'"
      "live_keys_loop ts clk p (n + 1) ks (AList.update (k_kid k) b' m) = Inr m'"
      using Cons.prems(1) by (auto split: option.splits if_splits)
    from Cons.IH [OF this(2) Cons.prems(2)] True b'(1) show ?thesis
      by (auto simp: update_conv' split: if_splits)
  next
    case False
    then have "live_keys_loop ts clk p (n + 1) ks m = Inr m'" using Cons.prems(1) by simp
    from Cons.IH [OF this Cons.prems(2)] show ?thesis by auto
  qed
qed simp

lemma live_keysD:
  assumes "live_keys ts clk cls p = Inr m" and "map_of m kid = Some b"
  shows "\<exists>k \<in> set (class_keys cls p). k_kid k = kid \<and> b64_decode (k_key k) = Some b \<and> (\<exists>j. alive ts (clk j) p kid)"
  using live_keys_loopD [OF assms(1) [unfolded live_keys_def] assms(2)] by auto

lemma live_keys_usable:
  "key_map_loop ks m = Inr m' \<Longrightarrow> \<exists>r. live_keys_loop ts clk p n ks m2 = Inr r"
  by (induction ks arbitrary: m n m2) (auto split: option.splits if_splits)

lemma signed_by_key:
  assumes "signed_by cr dc token ty m payload"
  obtains kid b where "map_of m kid = Some b" "signed_by cr dc token ty [(kid, b)] payload"
proof -
  obtain p0 p1 p2 h header sig where s: "split_on CHR ''.'' token = [p0, p1, p2]" "b64_decode p0 = Some h"
    "dc_header dc h = Inr header" "hd_alg header = ''EdDSA''" "hd_typ header = ty" "length (key_of m (hd_kid header)) = 32"
    "b64_decode p2 = Some sig" "cr_verify cr (key_of m (hd_kid header)) (p0 @ CHR ''.'' # p1) sig" "b64_decode p1 = Some payload"
    using assms by (auto simp: signed_by_def)
  from s(6) obtain b where b: "map_of m (hd_kid header) = Some b" by (cases "map_of m (hd_kid header)") (auto simp: key_of_def)
  then have "key_of m (hd_kid header) = key_of [(hd_kid header, b)] (hd_kid header)" by (simp add: key_of_def)
  with s have "signed_by cr dc token ty [(hd_kid header, b)] payload" unfolding signed_by_def by metis
  with b that show ?thesis by blast
qed

lemma signed_by_header:
  assumes "signed_by cr dc token ty [(kid, b)] payload" and "split_on CHR ''.'' token = [p0, p1, p2]"
    and "b64_decode p0 = Some h" and "dc_header dc h = Inr header"
  shows "hd_kid header = kid"
proof -
  have "length (key_of [(kid, b)] (hd_kid header)) = 32" using assms by (auto simp: signed_by_def)
  then show ?thesis by (auto simp: key_of_def split: if_splits)
qed

lemma verify_scan_rotationD:
  assumes "verify_scan_rotation cr dc dm token keys = Some i"
  shows "i_op i = ''key_rotation'' \<and> (\<exists>payload. signed_by cr dc token ''aim-keys+jwt'' keys payload \<and> dc_instruction dc payload = Inr i)"
proof -
  obtain kid where c: "verify_control cr dc dm (dc_instruction dc) token ''aim-keys+jwt''
      [''op'', ''aud'', ''iid'', ''iat'', ''keys''] keys 4096 = Some (kid, i)" "i_op i = ''key_rotation''"
    using assms by (auto simp: verify_scan_rotation_def split: option.splits if_splits)
  from c(1) have "verify_token cr dc (dc_instruction dc) token ''aim-keys+jwt'' keys = Inr i" by (rule verify_controlE)
  with c(2) show ?thesis by (auto simp: verify_token_def bind_res_Inr verify_payload_Inr)
qed

lemma try_classes_accepts:
  "try_classes env clk now p token cs (i0, c0, e0) = (i, c, None) \<Longrightarrow>
     (\<forall>cls \<in> set cs. \<exists>e. live_keys (ke_time env) (clk cls) cls p = Inl e)
     \<or> (c \<in> set cs \<and> (\<exists>m. live_keys (ke_time env) (clk c) c p = Inr m
         \<and> (if c = ''scan'' then verify_scan_rotation (ke_crypto env) (ke_strict env) (ke_docs env) token m = Some i
            else verify_instruction (ke_crypto env) (ke_strict env) (now c) token m = Inr i)))"
proof (induction cs arbitrary: i0 c0 e0)
  case (Cons cls cs)
  show ?case
  proof (cases "live_keys (ke_time env) (clk cls) cls p")
    case (Inl e)
    with Cons.prems have "try_classes env clk now p token cs (i0, c0, e0) = (i, c, None)" by simp
    from Cons.IH [OF this] Inl show ?thesis by auto
  next
    case (Inr m)
    note live = Inr
    let ?r = "if cls = ''scan'' then (case verify_scan_rotation (ke_crypto env) (ke_strict env) (ke_docs env) token m of
        None \<Rightarrow> Inl err_verification | Some j \<Rightarrow> Inr j)
      else verify_instruction (ke_crypto env) (ke_strict env) (now cls) token m"
    show ?thesis
    proof (cases ?r)
      case (Inr j)
      then have "j = i" "cls = c" using Cons.prems live by simp_all
      then show ?thesis using live Inr by (auto split: option.splits if_splits)
    next
      case (Inl e)
      then have t: "try_classes env clk now p token cs (i0, c0, Some e) = (i, c, None)"
        using Cons.prems live by simp
      have "\<not> (\<forall>cls \<in> set cs. \<exists>e. live_keys (ke_time env) (clk cls) cls p = Inl e)"
      proof
        assume "\<forall>cls \<in> set cs. \<exists>e. live_keys (ke_time env) (clk cls) cls p = Inl e"
        then have "try_classes env clk now p token cs (i0, c0, Some e) = (i0, c0, Some e)"
          by (induction cs) auto
        with t show False by simp
      qed
      with Cons.IH [OF t] show ?thesis by auto
    qed
  qed
qed simp

text \<open>The lenient decoder of the standard library agrees with the strict one where that
  succeeds: refusing unknown fields is all that the strict one adds.\<close>

definition lenient_decoding :: "'k key_env \<Rightarrow> bool" where
  "lenient_decoding env \<longleftrightarrow> (\<forall>b x. dc_instruction (ke_strict env) b = Inr x \<longrightarrow> ke_instruction env b = Inr x)
     \<and> (\<forall>b x. dc_header (ke_strict env) b = Inr x \<longrightarrow> ke_header env b = Inr x)"

definition trusted :: "'k key_env \<Rightarrow> (nat \<Rightarrow> int) \<Rightarrow> pins \<Rightarrow> string \<Rightarrow> string \<Rightarrow> string \<Rightarrow> instruction \<Rightarrow> bool" where
  "trusted env clk p token cls kid i \<longleftrightarrow> (\<exists>k \<in> set (class_keys cls p). \<exists>b ty payload. k_kid k = kid
     \<and> b64_decode (k_key k) = Some b \<and> (\<exists>j. alive (ke_time env) (clk j) p kid)
     \<and> signed_by (ke_crypto env) (ke_strict env) token ty [(kid, b)] payload
     \<and> dc_instruction (ke_strict env) payload = Inr i
     \<and> kind i = Inr (ty, if i_op i = ''key_rotation'' then ''outgoing'' else cls))"

lemma verified_trusted:
  assumes "live_keys (ke_time env) (clk cls) cls p = Inr m"
    and "if cls = ''scan'' \<and> outgoing then verify_scan_rotation (ke_crypto env) (ke_strict env) (ke_docs env) token m = Some i
      else verify_instruction (ke_crypto env) (ke_strict env) (now cls) token m = Inr i"
    and "kind i = Inr (ty, c)" and "i_op i \<noteq> ''key_rotation'' \<Longrightarrow> c = cls"
  shows "\<exists>kid. trusted env (clk cls) p token cls kid i"
proof -
  have "\<exists>payload. signed_by (ke_crypto env) (ke_strict env) token ty m payload \<and> dc_instruction (ke_strict env) payload = Inr i"
  proof (cases "cls = ''scan'' \<and> outgoing")
    case True
    with assms(2) verify_scan_rotationD assms(3) show ?thesis by (fastforce simp: kind_def)
  next
    case False
    with assms(2) have "verify_instruction (ke_crypto env) (ke_strict env) (now cls) token m = Inr i" by auto
    from verify_instructionD [OF this] assms(3) show ?thesis by auto
  qed
  then obtain payload where s: "signed_by (ke_crypto env) (ke_strict env) token ty m payload"
    "dc_instruction (ke_strict env) payload = Inr i" by blast
  from s(1) obtain kid b where k: "map_of m kid = Some b" "signed_by (ke_crypto env) (ke_strict env) token ty [(kid, b)] payload"
    by (rule signed_by_key)
  from live_keysD [OF assms(1) k(1)] k(2) s(2) assms(3,4) have "trusted env (clk cls) p token cls kid i"
    by (fastforce simp: trusted_def kind_def split: if_splits)
  then show ?thesis ..
qed

lemma trusted_signer:
  assumes "trusted env clk p token cls kid i" and "split_on CHR ''.'' token = [p0, p1, p2]"
    and "b64_decode p0 = Some h" and "ke_header env h = Inr header" and "lenient_decoding env"
  shows "kid = hd_kid header"
proof -
  obtain b ty payload where s: "signed_by (ke_crypto env) (ke_strict env) token ty [(kid, b)] payload"
    using assms(1) by (auto simp: trusted_def)
  then obtain header' where h: "dc_header (ke_strict env) h = Inr header'"
    using assms(2,3) by (auto simp: signed_by_def)
  then have "header' = header" using assms(4,5) by (auto simp: lenient_decoding_def)
  with signed_by_header [OF s assms(2,3) h] show ?thesis by simp
qed

lemma accept_instructionD:
  assumes "accept_instruction env clk now p token = Inr (i, cls, signer)" and "usable p" and "lenient_decoding env"
  shows "i_aud i = pn_gateway p \<and> cls \<in> {''listing'', ''permission'', ''scan''} \<and> trusted env (clk cls) p token cls signer i"
proof -
  obtain p0 p1 p2 where t: "split_on CHR ''.'' token = [p0, p1, p2]"
    using assms(1) by (auto simp: accept_instruction_def split: list.splits)
  then obtain h header b i0 ty0 c0 where d: "b64_decode p0 = Some h" "ke_header env h = Inr header"
    "b64_decode p1 = Some b" "ke_instruction env b = Inr i0" "kind i0 = Inr (ty0, c0)"
    using assms(1) by (auto simp: accept_instruction_def bind_res_Inr b64_res_def split: option.splits)
  let ?r = "if c0 = ''outgoing'' then try_classes env clk now p token [''listing'', ''permission'', ''scan''] (i0, c0, None)
      else (case live_keys (ke_time env) (clk c0) c0 p of Inl e \<Rightarrow> (i0, c0, Some e)
        | Inr m \<Rightarrow> (case verify_instruction (ke_crypto env) (ke_strict env) (now c0) token m of
            Inl e \<Rightarrow> (i0, c0, Some e) | Inr i \<Rightarrow> (i, c0, None)))"
  have r: "?r = (i, cls, None)" "i_aud i = pn_gateway p" "signer = hd_kid header"
    using assms(1) t d by (auto simp: accept_instruction_def b64_res_def split: prod.splits option.splits if_splits)
  have "\<exists>kid. cls \<in> {''listing'', ''permission'', ''scan''} \<and> trusted env (clk cls) p token cls kid i"
  proof (cases "c0 = ''outgoing''")
    case True
    obtain m0 where "key_map_loop (pn_permission p) [] = Inr m0" using assms(2) by (auto simp: usable_def key_map_def)
    from live_keys_usable [OF this, of "ke_time env" "clk ''permission''" p 0 "[]"] have "\<not> (\<exists>e. live_keys (ke_time env) (clk ''permission'') ''permission'' p = Inl e)"
      by (auto simp: live_keys_def class_keys_def)
    then have "cls \<in> {''listing'', ''permission'', ''scan''} \<and> (\<exists>m. live_keys (ke_time env) (clk cls) cls p = Inr m
         \<and> (if cls = ''scan'' then verify_scan_rotation (ke_crypto env) (ke_strict env) (ke_docs env) token m = Some i
            else verify_instruction (ke_crypto env) (ke_strict env) (now cls) token m = Inr i))"
      using try_classes_accepts [of env clk now p token "[''listing'', ''permission'', ''scan'']" i0 c0 None i cls] r(1) True
      by auto
    then obtain m where m: "cls \<in> {''listing'', ''permission'', ''scan''}" "live_keys (ke_time env) (clk cls) cls p = Inr m"
      "if cls = ''scan'' \<and> True then verify_scan_rotation (ke_crypto env) (ke_strict env) (ke_docs env) token m = Some i
            else verify_instruction (ke_crypto env) (ke_strict env) (now cls) token m = Inr i" by auto
    have op: "i_op i = ''key_rotation''"
    proof (cases "cls = ''scan''")
      case True
      with m(3) verify_scan_rotationD show ?thesis by fastforce
    next
      case False
      with m(3) have "verify_instruction (ke_crypto env) (ke_strict env) (now cls) token m = Inr i" by simp
      from verify_instructionD [OF this] obtain payload where "signed_by (ke_crypto env) (ke_strict env) token (fst (projr (kind i))) m payload"
        "dc_instruction (ke_strict env) payload = Inr i" by auto
      then have "ke_instruction env b = Inr i" using t d(3) assms(3) by (auto simp: signed_by_def lenient_decoding_def)
      with d(4,5) True show ?thesis by (auto simp: kind_def split: if_splits)
    qed
    then have "kind i = Inr (''aim-keys+jwt'', ''outgoing'')" by (simp add: kind_def)
    from verified_trusted [of env clk cls p m True token i now "''aim-keys+jwt''" "''outgoing''", OF m(2,3) this] op m(1)
    show ?thesis by blast
  next
    case False
    then obtain m where m: "live_keys (ke_time env) (clk c0) c0 p = Inr m" "cls = c0"
      "verify_instruction (ke_crypto env) (ke_strict env) (now c0) token m = Inr i"
      using r(1) by (auto split: sum.splits)
    from verify_instructionD [OF m(3)] obtain payload ty c where k: "kind i = Inr (ty, c)"
      "signed_by (ke_crypto env) (ke_strict env) token ty m payload" "dc_instruction (ke_strict env) payload = Inr i" by blast
    then have "ke_instruction env b = Inr i" using t d(3) assms(3) by (auto simp: signed_by_def lenient_decoding_def)
    with d(4,5) k(1) have c: "c = c0" by simp
    have "cls \<in> {''listing'', ''permission'', ''scan''}" using False d(5) m(2) by (auto simp: kind_def split: if_splits)
    moreover have "\<exists>kid. trusted env (clk c0) p token c0 kid i"
      by (rule verified_trusted [of env clk c0 p m False token i now ty c, OF m(1) _ k(1)]) (use m(3) c in simp_all)
    ultimately show ?thesis using m(2) by blast
  qed
  then obtain kid where "cls \<in> {''listing'', ''permission'', ''scan''}" "trusted env (clk cls) p token cls kid i" by blast
  with trusted_signer [OF this(2) t d(1,2) assms(3)] r(2,3) show ?thesis by simp
qed

subsection \<open>Properties\<close>


text \<open>C33: An instruction is accepted only when it is signed, with the type of its own operation,
  by the key that its header names, pinned in the class that operation needs (any class for a
  rotation) and alive when it was looked up, and is addressed to this gateway; its signer is
  reported as that key.\<close>

theorem accepted_instruction_trusted:
  assumes "keys_inv st0" and "key_steps env st0 st" and "lenient_decoding env"
    and "accept_instruction env clk now (ks_pins st) token = Inr (i, cls, signer)"
  shows "i_aud i = pn_gateway (ks_pins st) \<and> cls \<in> {''listing'', ''permission'', ''scan''}
    \<and> trusted env (clk cls) (ks_pins st) token cls signer i"
proof -
  have "usable (ks_pins st)" using key_steps_inv [OF assms(2,1)] by (simp add: keys_inv_def usable_def)
  from accept_instructionD [OF assms(4) this assms(3)] show ?thesis .
qed

text \<open>Once a key has an expiry, it is dead from that instant on, whatever rotations, faulty
  saves and restarts come after: no instruction it signed is accepted and the door does not
  use it.\<close>

theorem expired_key_is_dead:
  assumes "keys_inv st0" and "key_steps env st0 st" and "lenient_decoding env"
    and "expiry (ks_pins st0) kid \<noteq> ''''" and "ts_parse (ke_time env) (expiry (ks_pins st0) kid) = Some d"
    and "\<forall>cls j. d \<le> clk cls j" and "d \<le> t"
  shows "accept_instruction env clk now (ks_pins st) token \<noteq> Inr (i, cls, kid)
    \<and> map_of (door_keys (ke_time env) t (ks_pins st) (ks_keys st)) kid = None"
proof -
  have e: "expiry (ks_pins st) kid = expiry (ks_pins st0) kid"
    using key_steps_inv [OF assms(2,1)] assms(4) by (simp add: extends_def)
  then have dead: "\<not> alive (ke_time env) n (ks_pins st) kid" if "d \<le> n" for n
    using assms(4,5) that by (simp add: alive_def)
  have "usable (ks_pins st)" using key_steps_inv [OF assms(2,1)] by (simp add: keys_inv_def usable_def)
  from accept_instructionD [OF _ this assms(3)] dead assms(6)
  have "accept_instruction env clk now (ks_pins st) token \<noteq> Inr (i, cls, kid)"
    by (fastforce simp: trusted_def)
  moreover have "kid \<notin> fst ` set (door_keys (ke_time env) t (ks_pins st) (ks_keys st))"
    using dead [OF assms(7)] by (auto simp: door_keys_def)
  ultimately show ?thesis by (simp add: map_of_eq_None_iff)
qed

subsection \<open>A concrete gateway\<close>

definition pinned_key :: wire_key where
  "pinned_key = \<lparr>k_kid = ''k'', k_alg = ''EdDSA'', k_key = b64_encode toy_key\<rparr>"

definition next_key :: wire_key where
  "next_key = \<lparr>k_kid = ''n'', k_alg = ''EdDSA'', k_key = b64_encode toy_key\<rparr>"

definition demo_pins :: pins where
  "demo_pins = \<lparr>pn_gateway = toy_uuid, pn_permission = [pinned_key], pn_scan = [], pn_listing = [], pn_minimum = ''1'',
     pn_canary_host = ''h'', pn_canary_zone = ''z'', pn_expires = []\<rparr>"

definition save_ok :: save_io where
  "save_ok = \<lparr>sv_marshal = None, sv_open = None, sv_write = None, sv_sync = None, sv_close = None,
     sv_rename = None, sv_dir = None, sv_dirsync = None\<rparr>"

definition demo_keys_env :: "unit key_env" where
  "demo_keys_env = \<lparr>ke_crypto = toy_crypto, ke_strict = toy_decoders, ke_header = dc_header toy_decoders,
     ke_instruction = dc_instruction toy_decoders, ke_bootstrap = (\<lambda>_. Inl ErrStorage),
     ke_docs = \<lparr>dm_lex = (\<lambda>_. ([], False)), dm_float = (\<lambda>_. None), dm_sha = (\<lambda>_. '''')\<rparr>,
     ke_time = \<lparr>ts_parse = (\<lambda>_. Some 5), ts_format = (\<lambda>_. ''t'')\<rparr>\<rparr>"

definition demo_start :: key_state where
  "demo_start = \<lparr>ks_pins = demo_pins, ks_saved = demo_pins, ks_keys = [(''k'', toy_key)]\<rparr>"

definition demo_rotated :: key_state where
  "demo_rotated = snd (rotate_keys (ke_time demo_keys_env) save_ok 0 ''permission'' ''k'' [next_key] demo_start)"

lemma demo_key_map: "key_map [pinned_key] = Inr [(''k'', toy_key)]"
  by code_simp

lemma demo_started: "start_keys demo_pins = Inr demo_start"
  by (simp add: start_keys_def demo_pins_def demo_start_def demo_key_map)

lemma demo_key_set: "validate_key_set [pn_permission demo_pins, pn_listing demo_pins, pn_scan demo_pins]"
  by code_simp

lemma demo_step: "key_steps demo_keys_env demo_start demo_rotated"
  by (rule ky_step [OF ky_here kt_rotate]) (simp add: demo_rotated_def prod_eq_iff)

lemma demo_lenient: "lenient_decoding demo_keys_env"
  by (simp add: lenient_decoding_def demo_keys_env_def)

lemma demo_inv: "keys_inv demo_start" "keys_inv demo_rotated"
proof -
  have "separated demo_pins" using key_set_names [OF demo_key_set] by (auto simp: separated_def names_def)
  then show "keys_inv demo_start" by (simp add: keys_inv_def usable_def demo_start_def demo_pins_def demo_key_map)
  from key_steps_inv [OF demo_step this] show "keys_inv demo_rotated" by simp
qed


theorem accepted_instruction_trusted_witness:
  "trusted demo_keys_env (\<lambda>_. 0) (ks_pins demo_start) toy_revoke ''permission'' ''k'' toy_instruction"
proof -
  have "accept_instruction demo_keys_env (\<lambda>_ _. 0) (\<lambda>_. 5) (ks_pins demo_start) toy_revoke = Inr (toy_instruction, ''permission'', ''k'')"
    by code_simp
  from accepted_instruction_trusted [OF demo_inv(1) ky_here demo_lenient this] show ?thesis by simp
qed

theorem expired_key_is_dead_witness:
  "map_of (door_keys (ke_time demo_keys_env) 7 (ks_pins demo_rotated) (ks_keys demo_rotated)) ''k'' = None
    \<and> accept_instruction demo_keys_env (\<lambda>_ _. 7) (\<lambda>_. 5) (ks_pins demo_rotated) toy_revoke \<noteq> Inr (toy_instruction, ''permission'', ''k'')"
proof -
  have e: "expiry (ks_pins demo_rotated) ''k'' \<noteq> ''''" by code_simp
  have "ts_parse (ke_time demo_keys_env) (expiry (ks_pins demo_rotated) ''k'') = Some 5" by (simp add: demo_keys_env_def)
  from expired_key_is_dead [OF demo_inv(2) ky_here demo_lenient e this, of "\<lambda>_ _. 7" 7 "\<lambda>_. 5" toy_revoke toy_instruction]
  show ?thesis by simp
qed

subsection \<open>Two weak spots\<close>

text \<open>
  A rotation passes over every class whose keys cannot be built. With a malformed key in all
  three classes no signature is ever checked and the instruction is accepted as it stands; the
  theorem above needs the permission keys to be usable, which start and every rotation ensure.
\<close>

definition broken_key :: wire_key where
  "broken_key = \<lparr>k_kid = ''b'', k_alg = ''EdDSA'', k_key = ''?''\<rparr>"

definition broken_pins :: pins where
  "broken_pins = demo_pins\<lparr>pn_permission := [broken_key], pn_listing := [broken_key], pn_scan := [broken_key]\<rparr>"

definition forged_rotation :: instruction where
  "forged_rotation = toy_instruction\<lparr>i_op := ''key_rotation'', i_keys := [next_key]\<rparr>"

lemma unusable_keys_accept_anything:
  "accept_instruction (demo_keys_env\<lparr>ke_instruction := (\<lambda>_. Inr forged_rotation), ke_crypto := toy_crypto\<lparr>cr_verify := (\<lambda>_ _ _. False)\<rparr>\<rparr>)
     (\<lambda>_ _. 0) (\<lambda>_. 5) broken_pins toy_revoke = Inr (forged_rotation, ''outgoing'', ''k'')"
  by code_simp

text \<open>
  The conflict check of a rotation reads the pins before it takes the lock. When the scan keys
  are bootstrapped in between, a listing key may end up with the name of a scan key.
\<close>

lemma rotation_races_bootstrap:
  "\<not> rotation_conflict ''listing'' [next_key] (ks_pins demo_start)
   \<and> (let st = snd (replace_pins save_ok (demo_pins\<lparr>pn_scan := [next_key]\<rparr>) demo_start);
          st' = snd (update_keys (ke_time demo_keys_env) save_ok 0 ''listing'' ''k'' [next_key] st) in
      names (pn_scan (ks_pins st')) = [''n''] \<and> names (pn_listing (ks_pins st')) = [''n''])"
  by code_simp

end
