(* ===== verification/Inventory.thy ===== *)
theory Inventory
  imports Config LedgerState Text "HOL-Library.AList" "HOL-Library.List_Lexorder"
begin

text \<open>
  internal/ids/ids.go and internal/inventory/inventory.go: the names of files, the scan of the
  configured sources with the previous scan as a cache, the detection of media types and the
  batches that go into the log. The file system is an argument: what a walk of a root reports
  in its order, and what reading a file gives. SHA-256, HMAC, HKDF and \<open>json.Valid\<close> are
  arguments too.
\<close>

subsection \<open>Names of files\<close>

definition hex_of :: "bytes \<Rightarrow> string" where
  "hex_of b = concat (map (\<lambda>c. [hex_digit (of_char c div 16), hex_digit (of_char c mod 16)]) b)"

record id_keys =
  ik_id :: bytes
  ik_commitment :: bytes

definition derive_keys :: "(bytes \<Rightarrow> string \<Rightarrow> gw_error + bytes) \<Rightarrow> bytes \<Rightarrow> gw_error + id_keys" where
  "derive_keys hkdf secret =
     (if length secret \<noteq> 32 then Inl (ErrMsg ''volume secret must be 32 bytes'')
      else case hkdf secret ''aim-gateway/file-id/v1'' of Inl e \<Rightarrow> Inl e
      | Inr a \<Rightarrow> (case hkdf secret ''aim-gateway/content-commitment/v1'' of Inl e \<Rightarrow> Inl e
        | Inr b \<Rightarrow> Inr \<lparr>ik_id = a, ik_commitment = b\<rparr>))"

definition file_id :: "(bytes \<Rightarrow> bytes \<Rightarrow> bytes) \<Rightarrow> id_keys \<Rightarrow> string \<Rightarrow> string \<Rightarrow> string" where
  "file_id hmac k source rel = take 32 (hex_of (hmac (ik_id k) (source @ CHR 0x00 # rel)))"

definition content_commitment :: "(bytes \<Rightarrow> bytes \<Rightarrow> bytes) \<Rightarrow> id_keys \<Rightarrow> bytes \<Rightarrow> string" where
  "content_commitment hmac k sha = hex_of (hmac (ik_commitment k) sha)"

definition extension_of :: "string \<Rightarrow> string" where
  "extension_of media =
     (if media = ''text/csv'' then ''csv'' else if media = ''text/tab-separated-values'' then ''tsv''
      else if media = ''application/x-ndjson'' then ''jsonl''
      else if media = ''application/vnd.apache.parquet'' then ''parquet'' else ''bin'')"

definition default_name :: "string \<Rightarrow> string \<Rightarrow> string" where
  "default_name i media = (if length i < 8 then ''''
     else ''file-'' @ to_lower (take 8 i) @ CHR ''.'' # extension_of media)"

subsection \<open>Media types\<close>

definition byte_order_mark :: bytes where
  "byte_order_mark = [CHR 0xEF, CHR 0xBB, CHR 0xBF]"

text \<open>Leading white space of a valid JSON text.\<close>

definition trim_left :: "string \<Rightarrow> string" where
  "trim_left s = dropWhile (\<lambda>c. c = CHR '' '' \<or> c = CHR 0x09 \<or> c = CHR 0x0A \<or> c = CHR 0x0D) s"

definition detect :: "(string \<Rightarrow> bool) \<Rightarrow> bytes \<Rightarrow> string" where
  "detect json_valid b =
     (if has_prefix ''PAR1'' b then ''application/vnd.apache.parquet''
      else let line = trim_suffix [CHR 0x0D] (fst (cut CHR 0x0A (trim_prefix byte_order_mark b))) in
        if line = '''' \<or> CHR 0x00 \<in> set b then ''application/octet-stream''
        else if json_valid line \<and> (has_prefix ''{'' (trim_left line) \<or> has_prefix ''['' (trim_left line))
          then ''application/x-ndjson''
        else if CHR 0x09 \<in> set line then ''text/tab-separated-values''
        else if CHR '','' \<in> set line then ''text/csv''
        else ''application/octet-stream'')"

subsection \<open>Reading a file\<close>

text \<open>The hashes of the blocks of a content, the last one as short as it comes.\<close>

function block_hashes :: "(bytes \<Rightarrow> bytes) \<Rightarrow> nat \<Rightarrow> bytes \<Rightarrow> bytes list" where
  "block_hashes sha n b = (if b = [] \<or> n = 0 then [] else sha (take n b) # block_hashes sha n (drop n b))"
  by auto
termination
  by (relation "measure (\<lambda>(sha, n, b). length b)") auto

declare block_hashes.simps [simp del]

record inv_record =
  ir_phase :: phase1
  ir_source :: string
  ir_rel :: string
  ir_path :: string
  ir_root :: string
  ir_sha :: bytes
  ir_hashes :: "bytes list"
  ir_mtime :: int

text \<open>What opening and reading a file gives: a failing Stat, its kind, the bytes up to the end
  or up to an error (a cancelled context is one).\<close>

record file_read =
  fr_stat :: "gw_error option"
  fr_regular :: bool
  fr_bytes :: bytes
  fr_error :: "gw_error option"

definition block_size :: nat where "block_size = nat window"

definition blank_phase :: phase1 where
  "blank_phase = \<lparr>ph_fid = '''', ph_name = '''', ph_size = 0, ph_media = '''', ph_commitment = '''',
     ph_first_seen = '''', ph_changed_at = '''', ph_present = False\<rparr>"

definition blank_record :: inv_record where
  "blank_record = \<lparr>ir_phase = blank_phase, ir_source = '''', ir_rel = '''', ir_path = '''', ir_root = '''',
     ir_sha = [], ir_hashes = [], ir_mtime = 0\<rparr>"

definition read_content :: "(bytes \<Rightarrow> bytes) \<Rightarrow> (string \<Rightarrow> bool) \<Rightarrow> file_read \<Rightarrow> gw_error + inv_record" where
  "read_content sha json_valid f =
     (case fr_stat f of Some e \<Rightarrow> Inl e
      | None \<Rightarrow>
        if \<not> fr_regular f then Inl (ErrMsg ''not a regular file'')
        else case fr_error f of Some e \<Rightarrow> Inl e
        | None \<Rightarrow> Inr (blank_record\<lparr>ir_sha := sha (fr_bytes f), ir_hashes := block_hashes sha block_size (fr_bytes f),
            ir_phase := blank_phase\<lparr>ph_size := int (length (fr_bytes f)),
              ph_media := detect json_valid (take 4096 (fr_bytes f))\<rparr>\<rparr>))"

subsection \<open>Scanning\<close>

record walk_info =
  wi_size :: int
  wi_mtime :: int
  wi_regular :: bool

record walk_entry =
  we_path :: string
  we_error :: "gw_error option"
  we_link :: bool
  we_dir :: bool
  we_info :: "gw_error + walk_info"
  we_rel :: "gw_error + string"

record inv_env =
  iv_sha :: "bytes \<Rightarrow> bytes"
  iv_hmac :: "bytes \<Rightarrow> bytes \<Rightarrow> bytes"
  iv_json_valid :: "string \<Rightarrow> bool"
  iv_real :: "string \<Rightarrow> gw_error + string"
  iv_open_root :: "string \<Rightarrow> gw_error option"
  iv_walk :: "string \<Rightarrow> walk_entry list"
  iv_open :: "string \<Rightarrow> string \<Rightarrow> gw_error + file_read"
  iv_now :: "nat \<Rightarrow> string"
  iv_cancelled :: "nat \<Rightarrow> gw_error option"

type_synonym prior = "(string \<times> inv_record) list"

text \<open>The records still present, by their identifier, the last one of a name.\<close>

definition prior_of :: "inv_record list \<Rightarrow> prior" where
  "prior_of previous = fold (\<lambda>r m. if ph_present (ir_phase r) then AList.update (ph_fid (ir_phase r)) r m else m) previous []"

text \<open>An unchanged file: same place, size and modification time.\<close>

definition unchanged :: "string \<Rightarrow> string \<Rightarrow> walk_info \<Rightarrow> inv_record \<Rightarrow> bool" where
  "unchanged source rel info old \<longleftrightarrow> ir_source old = source \<and> ir_rel old = rel
     \<and> ph_size (ir_phase old) = wi_size info \<and> ir_mtime old = wi_mtime info"

definition fill_record :: "inv_env \<Rightarrow> config \<Rightarrow> id_keys \<Rightarrow> string \<Rightarrow> string \<Rightarrow> string \<Rightarrow> walk_entry \<Rightarrow> walk_info
    \<Rightarrow> inv_record option \<Rightarrow> bool \<Rightarrow> string \<Rightarrow> inv_record \<Rightarrow> inv_record" where
  "fill_record env c keys source root rel en info old same now r =
     (let i = file_id (iv_hmac env) keys source rel; ph = ir_phase r; a = alias_of c source rel;
          nm = (if a = '''' then default_name i (ph_media ph) else a) in
      r\<lparr>ir_source := source, ir_rel := rel, ir_path := we_path en, ir_root := root, ir_mtime := wi_mtime info,
        ir_phase := ph\<lparr>ph_fid := i, ph_name := nm,
          ph_commitment := content_commitment (iv_hmac env) keys (ir_sha r),
          ph_first_seen := (case old of Some o' \<Rightarrow> ph_first_seen (ir_phase o') | None \<Rightarrow> now),
          ph_changed_at := (if same then ph_changed_at ph else now), ph_present := True\<rparr>\<rparr>)"

text \<open>One callback of the walk: nothing for links, directories and special files; an error ends
  the scan; \<open>n\<close> files were found so far and \<open>k\<close> callbacks made.\<close>

definition scan_entry :: "inv_env \<Rightarrow> config \<Rightarrow> id_keys \<Rightarrow> nat \<Rightarrow> prior \<Rightarrow> string \<Rightarrow> string \<Rightarrow> nat \<Rightarrow> nat \<Rightarrow> walk_entry
    \<Rightarrow> gw_error + inv_record option" where
  "scan_entry env c keys limit prior source root k n en =
     (case iv_cancelled env k of Some e \<Rightarrow> Inl e
      | None \<Rightarrow> (case we_error en of Some e \<Rightarrow> Inl e
      | None \<Rightarrow>
        if we_link en \<or> we_dir en then Inr None
        else case we_info en of Inl e \<Rightarrow> Inl e
        | Inr info \<Rightarrow>
          if \<not> wi_regular info then Inr None
          else if n \<ge> limit then Inl (ErrMsg ''inventory_too_large'')
          else case we_rel en of Inl e \<Rightarrow> Inl e
          | Inr rel \<Rightarrow>
            (let old = map_of prior (file_id (iv_hmac env) keys source rel);
                 same = (case old of None \<Rightarrow> False | Some o' \<Rightarrow> unchanged source rel info o') in
             case (if same then Inr (the old)
                   else case iv_open env root rel of Inl e \<Rightarrow> Inl e
                     | Inr f \<Rightarrow> read_content (iv_sha env) (iv_json_valid env) f) of
               Inl e \<Rightarrow> Inl e
             | Inr r \<Rightarrow> Inr (Some (fill_record env c keys source root rel en info old same (iv_now env k) r)))))"

fun scan_entries :: "inv_env \<Rightarrow> config \<Rightarrow> id_keys \<Rightarrow> nat \<Rightarrow> prior \<Rightarrow> string \<Rightarrow> string \<Rightarrow> nat \<Rightarrow> walk_entry list
    \<Rightarrow> inv_record list \<Rightarrow> gw_error + (nat \<times> inv_record list)" where
  "scan_entries env c keys limit prior source root k [] out = Inr (k, out)"
| "scan_entries env c keys limit prior source root k (en # ens) out =
     (case scan_entry env c keys limit prior source root k (length out) en of
        Inl e \<Rightarrow> Inl e
      | Inr None \<Rightarrow> scan_entries env c keys limit prior source root (k + 1) ens out
      | Inr (Some r) \<Rightarrow> scan_entries env c keys limit prior source root (k + 1) ens (out @ [r]))"

fun scan_sources :: "inv_env \<Rightarrow> config \<Rightarrow> id_keys \<Rightarrow> nat \<Rightarrow> prior \<Rightarrow> nat \<Rightarrow> source_cfg list \<Rightarrow> inv_record list
    \<Rightarrow> gw_error + inv_record list" where
  "scan_sources env c keys limit prior k [] out = Inr out"
| "scan_sources env c keys limit prior k (s # ss) out =
     (case iv_real env (src_path s) of Inl e \<Rightarrow> Inl e
      | Inr root \<Rightarrow> (case iv_open_root env root of Some e \<Rightarrow> Inl e
        | None \<Rightarrow> (case scan_entries env c keys limit prior (src_name s) root k (iv_walk env root) out of
            Inl e \<Rightarrow> Inl e
          | Inr (k', out') \<Rightarrow> scan_sources env c keys limit prior k' ss out')))"

definition gone_record :: "inv_record \<Rightarrow> inv_record" where
  "gone_record r = r\<lparr>ir_phase := (ir_phase r)\<lparr>ph_present := False\<rparr>\<rparr>"

text \<open>scan: the files found, then the ones of the previous scan that are gone, by identifier.\<close>

definition scan :: "inv_env \<Rightarrow> config \<Rightarrow> id_keys \<Rightarrow> nat \<Rightarrow> inv_record list \<Rightarrow> gw_error + inv_record list" where
  "scan env c keys limit previous =
     (let prior = prior_of previous in
      case scan_sources env c keys limit prior 0 (cfg_sources c) [] of Inl e \<Rightarrow> Inl e
      | Inr out \<Rightarrow>
        (let seen = map (\<lambda>r. ph_fid (ir_phase r)) out; gone = sort (filter (\<lambda>i. i \<notin> set seen) (map fst prior)) in
         Inr (out @ map (\<lambda>i. gone_record (the (map_of prior i))) gone)))"

definition max_files :: nat where "max_files = 100000"

subsection \<open>Batches and ledger rows\<close>

record batch =
  ba_generation :: nat
  ba_files :: "phase1 list"

definition batch_size :: nat where "batch_size = 1000"

function batch_loop :: "inv_record list \<Rightarrow> nat \<Rightarrow> batch list" where
  "batch_loop rs g = (if rs = [] then []
     else \<lparr>ba_generation = g, ba_files = map ir_phase (take batch_size rs)\<rparr> # batch_loop (drop batch_size rs) g)"
  by auto
termination
  by (relation "measure (\<lambda>(rs, g). length rs)") (auto simp: batch_size_def)

declare batch_loop.simps [simp del]

definition batches :: "inv_record list \<Rightarrow> nat \<Rightarrow> batch list" where
  "batches rs g = (if rs = [] then [\<lparr>ba_generation = g, ba_files = []\<rparr>] else batch_loop rs g)"

text \<open>The row PutFile writes for a record.\<close>

definition row_of :: "(int \<Rightarrow> string) \<Rightarrow> inv_record \<Rightarrow> file_row" where
  "row_of fmt r = \<lparr>fl_fid = ph_fid (ir_phase r), fl_source = ir_source r, fl_path = ir_rel r,
     fl_size = ph_size (ir_phase r), fl_mtime = fmt (ir_mtime r), fl_sha = hex_of (ir_sha r), fl_block_size = window,
     fl_hashes = ir_hashes r, fl_name = ph_name (ir_phase r), fl_root = ir_root r, fl_changed = 0\<rparr>"

end
