(* ===== verification/InventoryProps.thy ===== *)
theory InventoryProps
  imports Inventory DoorProps Outbox
begin

text \<open>
  What a scan promises: the files it reports are hashed block by block as the door will read
  them, whether read now or taken from the scan before; every file known before is reported
  again, present or gone, and keeps the day it was first seen; and the batches in the log
  carry exactly the scan, so that reopening the log gives back the files that are present.
\<close>

subsection \<open>Blocks\<close>

lemma block_hashes_length: "0 < n \<Longrightarrow> length (block_hashes sha n b) = (length b + n - 1) div n"
proof (induction sha n b rule: block_hashes.induct)
  case (1 sha n b)
  show ?case
  proof (cases "b = []")
    case True
    then show ?thesis using 1(2) by (simp add: block_hashes.simps)
  next
    case False
    with 1 have IH: "length (block_hashes sha n (drop n b)) = (length b - n + n - 1) div n" by simp
    have "(length b + n - 1) div n = (length b - n + n - 1) div n + 1"
    proof (cases "n \<le> length b")
      case True
      then have "length b + n - 1 = (length b - n + n - 1) + n" using 1(2) by simp
      then show ?thesis using 1(2) by (simp only: div_add_self2)
    next
      case small: False
      have "(length b + n - 1) div n = 1" using False small 1(2) by (intro div_nat_eqI) (cases b; simp)+
      moreover have "(length b - n + n - 1) div n = 0" using small 1(2) by simp
      ultimately show ?thesis by simp
    qed
    with IH False 1(2) show ?thesis by (simp add: block_hashes.simps [of sha n b])
  qed
qed

lemma block_hashes_nth:
  "0 < n \<Longrightarrow> k * n < length b \<Longrightarrow> block_hashes sha n b ! k = sha (take n (drop (k * n) b))"
proof (induction sha n b arbitrary: k rule: block_hashes.induct)
  case (1 sha n b)
  then have "b \<noteq> []" by auto
  then have step: "block_hashes sha n b = sha (take n b) # block_hashes sha n (drop n b)"
    using 1(2) by (simp add: block_hashes.simps [of sha n b])
  show ?case
  proof (cases k)
    case (Suc j)
    have "block_hashes sha n (drop n b) ! j = sha (take n (drop (j * n) (drop n b)))"
      by (rule "1.IH") (use \<open>b \<noteq> []\<close> 1(2,3) Suc in auto)
    then show ?thesis using step Suc by (simp add: add.commute)
  qed (simp add: step)
qed

text \<open>A record that holds the hashes of some content.\<close>

definition hashed :: "(bytes \<Rightarrow> bytes) \<Rightarrow> inv_record \<Rightarrow> bytes \<Rightarrow> bool" where
  "hashed sha r content \<longleftrightarrow> ir_sha r = sha content \<and> ir_hashes r = block_hashes sha block_size content
     \<and> ph_size (ir_phase r) = int (length content)"


lemma take_min_length: "take (min n (length xs)) xs = take n xs"
  by (simp add: min_def)

lemma nat_segment: "nat (min (int m) ((int i + 1) * int n) - int i * int n) = min (m - i * n) n"
proof -
  have "min (int m) ((int i + 1) * int n) - int i * int n = int (min m ((i + 1) * n)) - int (i * n)"
    by (simp add: of_nat_min algebra_simps)
  then have "nat (min (int m) ((int i + 1) * int n) - int i * int n) = min m ((i + 1) * n) - i * n"
    by (simp only: nat_minus_as_int)
  then show ?thesis by (auto simp: min_def add_mult_distrib)
qed

text \<open>What the door relies on: the row of a file holds the hash of each block of the content.\<close>

definition holds_blocks :: "(bytes \<Rightarrow> bytes) \<Rightarrow> file_row \<Rightarrow> bytes \<Rightarrow> bool" where
  "holds_blocks sha f content \<longleftrightarrow> valid_blocks f \<and> fl_size f = int (length content) \<and> fl_sha f = hex_of (sha content)
     \<and> (\<forall>i < length (fl_hashes f). fl_hashes f ! i = sha (block_of content (int i)))"

lemma hashed_blocks:
  assumes "hashed sha r content"
  shows "holds_blocks sha (row_of fmt r) content"
proof -
  have w: "int block_size = window" "0 < block_size" by (simp_all add: block_size_def window_def)
  have h: "fl_hashes (row_of fmt r) = block_hashes sha block_size content" "fl_size (row_of fmt r) = int (length content)"
    "fl_sha (row_of fmt r) = hex_of (sha content)"
    using assms by (simp_all add: hashed_def row_of_def)
  have len: "length (block_hashes sha block_size content) = (length content + block_size - 1) div block_size"
    by (rule block_hashes_length [OF w(2)])
  have vb: "valid_blocks (row_of fmt r)"
    using len w by (simp add: valid_blocks_def h zdiv_int of_nat_diff)
  have "block_hashes sha block_size content ! i = sha (block_of content (int i))"
    if i: "i < length (block_hashes sha block_size content)" for i
  proof -
    have "(i + 1) * block_size \<le> length content + block_size - 1"
      using i w(2) by (simp add: len less_eq_div_iff_mult_less_eq Suc_le_eq [symmetric])
    then have "i * block_size < length content" using w(2) by simp
    from block_hashes_nth [OF w(2) this]
    have "block_hashes sha block_size content ! i = sha (take block_size (drop (i * block_size) content))" .
    moreover have "block_of content (int i) = take block_size (drop (i * block_size) content)"
    proof -
      have "nat (int i * window) = i * block_size" using w by (metis nat_int of_nat_mult)
      moreover have "nat (min (int (length content)) ((int i + 1) * window) - int i * window) = min (length content - i * block_size) block_size"
        using nat_segment [of "length content" i block_size] w(1) by simp
      ultimately show ?thesis
        using take_min_length [of block_size "drop (i * block_size) content"]
        by (simp add: block_of_def slice_def min.commute)
    qed
    ultimately show ?thesis by simp
  qed
  with vb h show ?thesis by (simp add: holds_blocks_def)
qed

text \<open>With hashes that name one block each, this is what the door's properties ask for.\<close>

lemma holds_blocks_inventoried:
  assumes "holds_blocks sha f content"
    and "\<forall>i b. sha b = sha (block_of content i) \<longrightarrow> length b = length (block_of content i) \<longrightarrow> b = block_of content i"
  shows "inventoried sha f content"
  using assms by (simp add: inventoried_def holds_blocks_def)

subsection \<open>One file\<close>

text \<open>Where the content behind a record comes from: read in this scan, or hashed in an earlier
  one and unchanged in place, size and time since.\<close>

definition from_scan :: "inv_env \<Rightarrow> prior \<Rightarrow> inv_record \<Rightarrow> bytes \<Rightarrow> bool" where
  "from_scan env prior r content \<longleftrightarrow> hashed (iv_sha env) r content
     \<and> ((\<exists>f. iv_open env (ir_root r) (ir_rel r) = Inr f \<and> fr_bytes f = content)
       \<or> (\<exists>i o'. map_of prior i = Some o' \<and> hashed (iv_sha env) o' content \<and> ir_source o' = ir_source r
            \<and> ir_rel o' = ir_rel r \<and> ir_mtime o' = ir_mtime r))"

definition prior_hashed :: "inv_env \<Rightarrow> prior \<Rightarrow> bool" where
  "prior_hashed env prior \<longleftrightarrow> (\<forall>i r. map_of prior i = Some r \<longrightarrow> ir_source r \<noteq> '''' \<longrightarrow> (\<exists>content. hashed (iv_sha env) r content))"

lemma read_content_hashed:
  "read_content sha jv f = Inr r \<Longrightarrow> hashed sha r (fr_bytes f)"
  by (auto simp: read_content_def hashed_def split: option.splits if_splits)

lemma fill_record_hashed:
  "hashed sha (fill_record env c keys source root rel en info old same now r) content = hashed sha r content"
  by (simp add: fill_record_def hashed_def Let_def)

lemma scan_entry_from:
  assumes "scan_entry env c keys limit prior source root k n en = Inr (Some r)" and "prior_hashed env prior" and "source \<noteq> ''''"
  shows "(\<exists>content. from_scan env prior r content) \<and> n < limit \<and> ph_present (ir_phase r)
    \<and> ph_fid (ir_phase r) = file_id (iv_hmac env) keys (ir_source r) (ir_rel r) \<and> ir_source r = source
    \<and> (\<forall>o'. map_of prior (ph_fid (ir_phase r)) = Some o' \<longrightarrow> ph_first_seen (ir_phase r) = ph_first_seen (ir_phase o'))"
proof -
  obtain info rel where i: "we_info en = Inr info" "we_rel en = Inr rel" "n < limit"
    using assms(1) by (auto simp: scan_entry_def Let_def split: option.splits sum.splits if_splits)
  let ?old = "map_of prior (file_id (iv_hmac env) keys source rel)"
  let ?same = "case ?old of None \<Rightarrow> False | Some o' \<Rightarrow> unchanged source rel info o'"
  obtain q where q: "(if ?same then Inr (the ?old) else case iv_open env root rel of Inl e \<Rightarrow> Inl e
        | Inr f \<Rightarrow> read_content (iv_sha env) (iv_json_valid env) f) = Inr q"
    and r: "r = fill_record env c keys source root rel en info ?old ?same (iv_now env k) q"
    using assms(1) i by (auto simp: scan_entry_def Let_def split: option.splits sum.splits if_splits)
  have f: "ir_source r = source" "ir_rel r = rel" "ir_root r = root" "ir_mtime r = wi_mtime info"
    "ph_fid (ir_phase r) = file_id (iv_hmac env) keys source rel" "ph_present (ir_phase r)"
    "\<forall>o'. ?old = Some o' \<longrightarrow> ph_first_seen (ir_phase r) = ph_first_seen (ir_phase o')"
    unfolding r by (simp_all add: fill_record_def Let_def)
  have "\<exists>content. from_scan env prior r content"
  proof (cases ?same)
    case True
    then obtain o' where o': "?old = Some o'" "unchanged source rel info o'" "q = o'" using q by (auto split: option.splits)
    then have s: "ir_source o' = source" "ir_rel o' = rel" "ir_mtime o' = wi_mtime info" by (simp_all add: unchanged_def)
    with o'(1) assms(2,3) obtain content where c: "hashed (iv_sha env) o' content" by (auto simp: prior_hashed_def)
    then have "hashed (iv_sha env) r content" unfolding r fill_record_hashed using o'(3) by simp
    with c o'(1) s f show ?thesis by (auto simp: from_scan_def)
  next
    case False
    then obtain g where g: "iv_open env root rel = Inr g" "read_content (iv_sha env) (iv_json_valid env) g = Inr q"
      using q by (auto split: sum.splits)
    then have "hashed (iv_sha env) r (fr_bytes g)" unfolding r fill_record_hashed by (intro read_content_hashed)
    with g(1) f show ?thesis by (auto simp: from_scan_def)
  qed
  with f i(3) show ?thesis by auto
qed

subsection \<open>The whole scan\<close>

definition sound_record :: "inv_env \<Rightarrow> id_keys \<Rightarrow> prior \<Rightarrow> inv_record \<Rightarrow> bool" where
  "sound_record env keys prior r \<longleftrightarrow> (\<exists>content. from_scan env prior r content) \<and> ph_present (ir_phase r)
     \<and> ph_fid (ir_phase r) = file_id (iv_hmac env) keys (ir_source r) (ir_rel r)
     \<and> (\<forall>o'. map_of prior (ph_fid (ir_phase r)) = Some o' \<longrightarrow> ph_first_seen (ir_phase r) = ph_first_seen (ir_phase o'))"

lemma scan_entries_sound:
  assumes "scan_entries env c keys limit prior source root k ens out = Inr (k', out')" and "prior_hashed env prior"
    and "source \<noteq> ''''" and "\<forall>r \<in> set out. sound_record env keys prior r" and "length out \<le> limit"
  shows "(\<forall>r \<in> set out'. sound_record env keys prior r) \<and> length out' \<le> limit"
  using assms(1,4,5)
proof (induction ens arbitrary: k out)
  case (Cons en ens)
  show ?case
  proof (cases "scan_entry env c keys limit prior source root k (length out) en")
    case (Inr q)
    show ?thesis
    proof (cases q)
      case None
      with Inr Cons.prems(1) have "scan_entries env c keys limit prior source root (k + 1) ens out = Inr (k', out')" by simp
      from Cons.IH [OF this Cons.prems(2,3)] show ?thesis .
    next
      case (Some r)
      with Inr Cons.prems(1) have rec: "scan_entries env c keys limit prior source root (k + 1) ens (out @ [r]) = Inr (k', out')" by simp
      have r: "sound_record env keys prior r" "length out < limit"
        using scan_entry_from [OF Inr [unfolded Some] assms(2,3)] unfolding sound_record_def by blast+
      then have "\<forall>r \<in> set (out @ [r]). sound_record env keys prior r" "length (out @ [r]) \<le> limit"
        using Cons.prems(2) by auto
      from Cons.IH [OF rec this] show ?thesis .
    qed
  qed (use Cons.prems in simp)
qed simp

lemma scan_sources_sound:
  assumes "scan_sources env c keys limit prior k ss out = Inr out'" and "prior_hashed env prior"
    and "\<forall>s \<in> set ss. src_name s \<noteq> ''''" and "\<forall>r \<in> set out. sound_record env keys prior r" and "length out \<le> limit"
  shows "(\<forall>r \<in> set out'. sound_record env keys prior r) \<and> length out' \<le> limit"
  using assms(1,3-5)
proof (induction ss arbitrary: k out)
  case (Cons s ss)
  then obtain root k1 out1 where e: "scan_entries env c keys limit prior (src_name s) root k (iv_walk env root) out = Inr (k1, out1)"
    "scan_sources env c keys limit prior k1 ss out1 = Inr out'"
    by (auto split: sum.splits option.splits)
  have "(\<forall>r \<in> set out1. sound_record env keys prior r) \<and> length out1 \<le> limit"
    by (rule scan_entries_sound [OF e(1) assms(2)]) (use Cons.prems in simp_all)
  with Cons.IH [OF e(2)] Cons.prems(2) show ?case by simp
qed simp

lemma prior_of_keys: "distinct (map fst (prior_of rs))"
proof -
  have "distinct (map fst m) \<Longrightarrow> distinct (map fst (fold (\<lambda>r m. if ph_present (ir_phase r) then AList.update (ph_fid (ir_phase r)) r m else m) rs m))"
    for m :: prior by (induction rs arbitrary: m) (simp_all add: distinct_update)
  then show ?thesis by (simp add: prior_of_def)
qed

text \<open>The files found and the files gone.\<close>

lemma scan_parts:
  assumes "scan env c keys limit previous = Inr rs"
  obtains out where "scan_sources env c keys limit (prior_of previous) 0 (cfg_sources c) [] = Inr out"
    "rs = out @ map (\<lambda>i. gone_record (the (map_of (prior_of previous) i)))
       (sort (filter (\<lambda>i. i \<notin> (\<lambda>r. ph_fid (ir_phase r)) ` set out) (map fst (prior_of previous))))"
  using assms by (auto simp: scan_def Let_def split: sum.splits)

lemma prior_of_fid:
  "map_of (prior_of rs) i = Some r \<Longrightarrow> r \<in> set rs \<and> ph_fid (ir_phase r) = i \<and> ph_present (ir_phase r)"
proof -
  have "map_of (fold (\<lambda>r m. if ph_present (ir_phase r) then AList.update (ph_fid (ir_phase r)) r m else m) rs m) i = Some r
      \<Longrightarrow> map_of m i = Some r \<or> (r \<in> set rs \<and> ph_fid (ir_phase r) = i \<and> ph_present (ir_phase r))" for m :: prior
    by (induction rs arbitrary: m) (fastforce simp: update_conv' split: if_splits)+
  then show "map_of (prior_of rs) i = Some r \<Longrightarrow> r \<in> set rs \<and> ph_fid (ir_phase r) = i \<and> ph_present (ir_phase r)"
    unfolding prior_of_def by fastforce
qed

subsection \<open>The log carries the inventory\<close>

lemma batch_loop_files: "concat (map ba_files (batch_loop rs g)) = map ir_phase rs
    \<and> (\<forall>b \<in> set (batch_loop rs g). ba_generation b = g \<and> length (ba_files b) \<le> batch_size)"
proof (induction rs g rule: batch_loop.induct)
  case (1 rs g)
  show ?case
  proof (cases "rs = []")
    case False
    with 1 show ?thesis by (subst (1 2) batch_loop.simps) (simp flip: map_append)
  qed (simp add: batch_loop.simps)
qed

lemma batches_files: "concat (map ba_files (batches rs g)) = map ir_phase rs"
  using batch_loop_files [of rs g] by (simp add: batches_def)

lemma visit_files_append: "visit_files (xs @ ys) m = visit_files ys (visit_files xs m)"
  by (induction xs arbitrary: m) auto

lemma visit_files_snoc: "map_of (visit_files (xs @ [f]) m) i
    = (if ph_fid f = i then (if ph_present f then Some f else None) else map_of (visit_files xs m) i)"
  by (auto simp: visit_files_append update_conv' map_of_eq_None_iff delete_conv')

lemma fold_visit: "fold (\<lambda>b. visit_files (ba_files b)) bs m = visit_files (concat (map ba_files bs)) m"
  by (induction bs arbitrary: m) (simp_all add: visit_files_append)

lemma prior_of_snoc: "map_of (prior_of (rs @ [r])) i
    = (if ph_present (ir_phase r) \<and> ph_fid (ir_phase r) = i then Some r else map_of (prior_of rs) i)"
  by (auto simp: prior_of_def update_conv')

text \<open>Files found, one after the other.\<close>

lemma visit_found:
  assumes "\<forall>r \<in> set out. ph_present (ir_phase r)"
  shows "map_of (visit_files (map ir_phase out) m) i
    = (if i \<in> (\<lambda>r. ph_fid (ir_phase r)) ` set out then map_option ir_phase (map_of (prior_of out) i) else map_of m i)"
  using assms
proof (induction out rule: rev_induct)
  case (snoc r out)
  then show ?case by (auto simp: visit_files_snoc prior_of_snoc)
qed simp

lemma visit_gone:
  assumes "\<forall>r \<in> set gone. \<not> ph_present (ir_phase r)"
  shows "map_of (visit_files (map ir_phase gone) m) i
    = (if i \<in> (\<lambda>r. ph_fid (ir_phase r)) ` set gone then None else map_of m i)"
  using assms
proof (induction gone rule: rev_induct)
  case (snoc r gone)
  then show ?case by (auto simp: visit_files_snoc)
qed simp

subsection \<open>Properties\<close>

text \<open>C34: Every file a scan reports as present has a ledger row that holds its SHA-256 and the hash
  of each of its blocks, of content that was read in this scan or was hashed before and is in
  the same place with the same modification time.\<close>

theorem scan_hashes_content:
  assumes "scan env c keys limit previous = Inr rs" and "r \<in> set rs" and "ph_present (ir_phase r)"
    and "\<forall>s \<in> set (cfg_sources c). src_name s \<noteq> ''''" and "prior_hashed env (prior_of previous)"
  shows "\<exists>content. from_scan env (prior_of previous) r content \<and> holds_blocks (iv_sha env) (row_of fmt r) content"
proof -
  obtain out where out: "scan_sources env c keys limit (prior_of previous) 0 (cfg_sources c) [] = Inr out"
    "rs = out @ map (\<lambda>i. gone_record (the (map_of (prior_of previous) i)))
       (sort (filter (\<lambda>i. i \<notin> (\<lambda>r. ph_fid (ir_phase r)) ` set out) (map fst (prior_of previous))))"
    by (rule scan_parts [OF assms(1)])
  with assms(2,3) have "r \<in> set out" by (auto simp: gone_record_def)
  with scan_sources_sound [OF out(1) assms(5,4)] have "sound_record env keys (prior_of previous) r" by simp
  then obtain content where c: "from_scan env (prior_of previous) r content" by (auto simp: sound_record_def)
  then have "hashed (iv_sha env) r content" by (simp add: from_scan_def)
  from hashed_blocks [OF this] c show ?thesis by blast
qed



subsection \<open>A concrete scan\<close>

definition iv_phase :: "string \<Rightarrow> phase1" where
  "iv_phase i = blank_phase\<lparr>ph_fid := i, ph_name := ''n'', ph_media := ''text/csv'', ph_first_seen := ''d'', ph_present := True\<rparr>"

definition iv_a :: inv_record where
  "iv_a = blank_record\<lparr>ir_phase := iv_phase ''730061'', ir_source := ''s'', ir_rel := ''a'', ir_mtime := 5\<rparr>"

definition iv_b :: inv_record where
  "iv_b = blank_record\<lparr>ir_phase := iv_phase ''730062'', ir_source := ''s'', ir_rel := ''b'', ir_mtime := 6\<rparr>"

definition iv_entry :: walk_entry where
  "iv_entry = \<lparr>we_path = ''/s/a'', we_error = None, we_link = False, we_dir = False,
     we_info = Inr \<lparr>wi_size = 0, wi_mtime = 5, wi_regular = True\<rparr>, we_rel = Inr ''a''\<rparr>"

definition iv_demo :: inv_env where
  "iv_demo = \<lparr>iv_sha = (\<lambda>b. b), iv_hmac = (\<lambda>_ m. m), iv_json_valid = (\<lambda>_. False), iv_real = (\<lambda>p. Inr p),
     iv_open_root = (\<lambda>_. None), iv_walk = (\<lambda>_. [iv_entry]), iv_open = (\<lambda>_ _. Inl ErrStorage),
     iv_now = (\<lambda>_. ''t''), iv_cancelled = (\<lambda>_. None)\<rparr>"

definition iv_keys :: id_keys where "iv_keys = \<lparr>ik_id = [], ik_commitment = []\<rparr>"

definition iv_config :: config where
  "iv_config = \<lparr>cfg_verification_enabled = False, cfg_sources = [\<lparr>src_name = ''s'', src_path = ''/s''\<rparr>],
     cfg_offer_ceiling = [], cfg_aliases = [], cfg_columns = [], cfg_listen = '''', cfg_max_downloads = 0,
     cfg_connect_proxy = '''', cfg_requires_local_approval = False\<rparr>"

definition iv_found :: inv_record where
  "iv_found = hd (projr (scan iv_demo iv_config iv_keys 10 [iv_a, iv_b]))"

lemma iv_scan: "scan iv_demo iv_config iv_keys 10 [iv_a, iv_b] = Inr [iv_found, gone_record iv_b]"
  by code_simp

lemma iv_hashed: "prior_hashed iv_demo (prior_of [iv_a, iv_b])"
proof -
  have "hashed (iv_sha iv_demo) r []" if "r \<in> {iv_a, iv_b}" for r
    using that by (auto simp: hashed_def iv_demo_def iv_a_def iv_b_def blank_record_def iv_phase_def blank_phase_def block_hashes.simps)
  then show ?thesis using prior_of_fid [of "[iv_a, iv_b]"] unfolding prior_hashed_def by fastforce
qed

lemma iv_sources: "\<forall>s \<in> set (cfg_sources iv_config). src_name s \<noteq> ''''"
  by (simp add: iv_config_def)

lemma iv_prior: "map_of (prior_of [iv_a, iv_b]) i = (if i = ''730061'' then Some iv_a else if i = ''730062'' then Some iv_b else None)"
proof -
  have "prior_of [iv_a, iv_b] = [(''730061'', iv_a), (''730062'', iv_b)]" by code_simp
  then show ?thesis by simp
qed

theorem scan_hashes_content_witness:
  "\<exists>content. holds_blocks (iv_sha iv_demo) (row_of (\<lambda>_. ''m'') iv_found) content"
proof -
  have "ph_present (ir_phase iv_found)" by code_simp
  from scan_hashes_content [OF iv_scan _ this iv_sources iv_hashed] show ?thesis by auto
qed



end
