(* ===== verification/Gateway.thy ===== *)
theory Gateway
  imports Outbox Pins Inventory LedgerPrepare LedgerVerify
begin

text \<open>
  internal/gateway/gateway.go: the gateway as a whole, its ledger, its log, its keys and its
  inventory, and the operations the channel calls: Handle for an instruction, Scan, Poll,
  Delivered, Reconcile and VerificationControl. Profiling of files and the verification runner
  are arguments.
\<close>

subsection \<open>State\<close>

record gateway =
  gt_config :: config
  gt_ledger :: ledger
  gt_admissions :: vledger
  gt_log :: "audit_log \<times> disk"
  gt_keys :: key_state
  gt_previous :: "inv_record list"
  gt_generation :: nat
  gt_receipt :: nat
  gt_audit :: nat

text \<open>Poll works on the ledger, the log and the receipt not yet marked.\<close>

definition gateway_poll :: "'k outbox_env \<Rightarrow> gateway \<Rightarrow> gw_error option \<times> gateway" where
  "gateway_poll env g =
     (case poll env \<lparr>os_ledger = gt_ledger g, os_log = gt_log g, os_receipt = gt_receipt g, os_audit = gt_audit g\<rparr> of
        (e, st) \<Rightarrow> (e, g\<lparr>gt_ledger := os_ledger st, gt_log := os_log st, gt_receipt := os_receipt st, gt_audit := os_audit st\<rparr>))"

subsection \<open>Instructions\<close>

text \<open>What a profile reports of a file.\<close>

record profile =
  pf_sha :: string
  pf_rows :: int
  pf_columns :: "column list"

text \<open>The environment of one instruction: the paths and globs of the ceiling, the profiler and
  its deadline, the clocks, and the faults of the storage.\<close>

record handle_env =
  hv_glob :: "string \<Rightarrow> string \<Rightarrow> bool"
  hv_real :: "string \<Rightarrow> string option"
  hv_profile :: "inv_record \<Rightarrow> column_rule \<Rightarrow> gw_error + profile"
  hv_timed_out :: bool
  hv_seconds :: int
  hv_stamp :: string
  hv_nanos :: int
  hv_time :: timestamps
  hv_seen_fault :: "gw_error option"
  hv_file_fault :: "gw_error option"
  hv_offer_fault :: "gw_error option"
  hv_tx :: "gw_error option \<times> gw_error option"
  hv_prepare_fault :: "gw_error option"
  hv_save :: save_io

text \<open>The refusal of an offer: the file missing, changed or outside the ceiling; empty if none.\<close>

definition offer_decision :: "handle_env \<Rightarrow> instruction \<Rightarrow> gateway \<Rightarrow> string" where
  "offer_decision h i g =
     (case (case hv_file_fault h of Some e \<Rightarrow> None | None \<Rightarrow> file_of (i_fid i) (gt_ledger g)) of
        None \<Rightarrow> ''file_missing''
      | Some f \<Rightarrow>
        if \<not> file_present f then ''file_missing''
        else if fl_sha f \<noteq> i_sha i \<or> file_changed f \<or> \<not> valid_blocks f then ''file_changed''
        else if \<not> within_ceiling (hv_glob h) (hv_real h) (gt_config g) f then ''outside_ceiling''
        else '''')"

definition offer_from :: "instruction \<Rightarrow> offer_row" where
  "offer_from i = \<lparr>of_fid = i_fid i, of_sha = i_sha i, of_lvid = i_lvid i, of_iid = i_iid i,
     of_state = (if i_op i = ''offer'' then ''offered'' else ''withdrawn''), of_approved_at = None, of_key_class = ''listing''\<rparr>"

definition handle_offer :: "handle_env \<Rightarrow> instruction \<Rightarrow> gateway \<Rightarrow> (gw_error + string \<times> answer option) \<times> gateway" where
  "handle_offer h i g =
     (let ack = \<lparr>oa_iid = i_iid i, oa_fid = i_fid i, oa_ready = False, oa_refusal = None\<rparr>;
          refusal = (if i_op i = ''offer'' then offer_decision h i g else '''') in
      if refusal \<noteq> '''' then (Inr (''offer_ack'', Some (AnsOffer (ack\<lparr>oa_refusal := Some refusal\<rparr>))), g)
      else case hv_offer_fault h of Some e \<Rightarrow> (Inl e, g)
      | None \<Rightarrow> (Inr (''offer_ack'', Some (AnsOffer (ack\<lparr>oa_ready := True\<rparr>))),
          g\<lparr>gt_ledger := put_offer (offer_from i) (gt_ledger g)\<rparr>))"

text \<open>The first record of the inventory with the identifier is profiled; none is an error.\<close>

definition handle_describe :: "handle_env \<Rightarrow> instruction \<Rightarrow> gateway \<Rightarrow> gw_error + string \<times> answer option" where
  "handle_describe h i g =
     (case find (\<lambda>r. ph_fid (ir_phase r) = i_fid i) (gt_previous g) of
        None \<Rightarrow> Inl (ErrMsg ''file_missing'')
      | Some r \<Rightarrow>
        if hv_timed_out h then Inl (ErrMsg ''gateway_timeout'')
        else case hv_profile h r (find_column_rule (gt_config g) (ir_source r) (ir_rel r)) of Inl e \<Rightarrow> Inl e
        | Inr d \<Rightarrow> Inr (''description'', Some (AnsDescription \<lparr>de_fid = i_fid i, de_sha = pf_sha d, de_rows = pf_rows d,
            de_columns = Some (pf_columns d)\<rparr>)))"

definition keys_result :: "gw_error option \<times> key_state \<Rightarrow> gateway \<Rightarrow> (gw_error + string \<times> answer option) \<times> gateway" where
  "keys_result r g = (case r of (Some e, ks) \<Rightarrow> (Inl e, g\<lparr>gt_keys := ks\<rparr>) | (None, ks) \<Rightarrow> (Inr ('''', None), g\<lparr>gt_keys := ks\<rparr>))"

text \<open>Handle: nothing for an instruction seen before; an answer of empty type is none.\<close>

definition handle :: "handle_env \<Rightarrow> instruction \<Rightarrow> string \<Rightarrow> string \<Rightarrow> gateway
    \<Rightarrow> (gw_error + string \<times> answer option) \<times> gateway" where
  "handle h i cls signer g =
     (case hv_seen_fault h of Some e \<Rightarrow> (Inl e, g)
      | None \<Rightarrow>
        if was_seen (i_iid i) (gt_ledger g) then (Inr ('''', None), g)
        else if i_op i = ''offer'' \<or> i_op i = ''unoffer'' then handle_offer h i g
        else if i_op i = ''describe'' then (handle_describe h i g, g)
        else if i_op i = ''revoke'' then
          (case revoke_instruction (fst (hv_tx h)) (snd (hv_tx h)) (hv_seconds h) (hv_stamp h) (i_iid i) (i_jti i) (gt_ledger g) of
             (Inl e, L) \<Rightarrow> (Inl e, g\<lparr>gt_ledger := L\<rparr>)
           | (Inr a, L) \<Rightarrow> (Inr (''revocation_ack'', Some (AnsRevoke a)), g\<lparr>gt_ledger := L\<rparr>))
        else if i_op i = ''prepare'' then
          (case hv_prepare_fault h of Some e \<Rightarrow> (Inl e, g)
           | None \<Rightarrow> (Inr (''prepare_ack'', Some (AnsPrepare (prepare (hv_glob h) (hv_real h) i (gt_config g) (gt_ledger g)))), g))
        else if i_op i = ''key_rotation'' then
          keys_result (rotate_keys (hv_time h) (hv_save h) (hv_nanos h) cls signer (i_keys i) (gt_keys g)) g
        else if i_op i = ''minimum_version'' then keys_result (set_minimum (hv_save h) (i_version i) (gt_keys g)) g
        else (Inl (ErrMsg ''unknown instruction''), g))"

subsection \<open>Delivery\<close>

text \<open>Delivered, for an entry the server has acknowledged: the decoder of receipts, the stamp and
  the fault of the storage are arguments.\<close>

definition delivered :: "(json \<Rightarrow> gw_error + receipt) \<Rightarrow> string \<Rightarrow> gw_error option \<Rightarrow> entry \<Rightarrow> gateway
    \<Rightarrow> gw_error option \<times> gateway" where
  "delivered dec stamp fault en g =
     (if en_type en = ''scan_report'' then
        (case fault of Some e \<Rightarrow> (Some e, g)
         | None \<Rightarrow> (None, g\<lparr>gt_admissions := reconcile_verification (en_seq en) (gt_admissions g)\<rparr>))
      else if en_type en \<noteq> ''receipt'' then (None, g)
      else case dec (en_body en) of Inl e \<Rightarrow> (Some e, g)
      | Inr r \<Rightarrow> (case fault of Some e \<Rightarrow> (Some e, g)
          | None \<Rightarrow> (None, g\<lparr>gt_ledger := mark_receipt_delivered stamp (rc_seq r) (gt_ledger g)\<rparr>)))"

text \<open>Reconcile at a resume: the runs and the receipts up to the position the server has.\<close>

definition reconcile :: "string \<Rightarrow> gw_error option \<Rightarrow> gw_error option \<Rightarrow> nat \<Rightarrow> gateway \<Rightarrow> gw_error option \<times> gateway" where
  "reconcile stamp vfault rfault seq g =
     (case vfault of Some e \<Rightarrow> (Some e, g)
      | None \<Rightarrow>
        (let g' = g\<lparr>gt_admissions := reconcile_verification seq (gt_admissions g)\<rparr> in
         case rfault of Some e \<Rightarrow> (Some e, g')
         | None \<Rightarrow> (None, g'\<lparr>gt_ledger := reconcile_receipts stamp seq (gt_ledger g')\<rparr>)))"

subsection \<open>Scan\<close>

definition phase_json :: "phase1 \<Rightarrow> json" where
  "phase_json f = JObj [(''file_id'', JStr (ph_fid f)), (''display_name'', JStr (ph_name f)),
     (''size_bytes'', JNum (int_text (ph_size f))), (''media_type'', JStr (ph_media f)),
     (''content_commitment'', JStr (ph_commitment f)), (''first_seen_at'', JStr (ph_first_seen f)),
     (''changed_at'', JStr (ph_changed_at f)), (''present'', JBool (ph_present f))]"

definition batch_json :: "batch \<Rightarrow> json" where
  "batch_json b = JObj [(''generation'', JNum (dec_text (ba_generation b))), (''files'', JArr (map phase_json (ba_files b)))]"

text \<open>The rows of the ledger follow the records; the first storage fault ends the scan.\<close>

fun store_records :: "(int \<Rightarrow> string) \<Rightarrow> (nat \<Rightarrow> gw_error option) \<Rightarrow> nat \<Rightarrow> inv_record list \<Rightarrow> ledger
    \<Rightarrow> gw_error option \<times> ledger" where
  "store_records fmt fault k [] L = (None, L)"
| "store_records fmt fault k (r # rs) L =
     (case fault k of Some e \<Rightarrow> (Some e, L)
      | None \<Rightarrow> store_records fmt fault (k + 1) rs
          (if ph_present (ir_phase r) then put_file (row_of fmt r) L else mark_missing (ph_fid (ir_phase r)) L))"

fun append_batches :: "audit_env \<Rightarrow> (nat \<Rightarrow> append_io) \<Rightarrow> (nat \<Rightarrow> string) \<Rightarrow> nat \<Rightarrow> batch list \<Rightarrow> audit_log \<times> disk
    \<Rightarrow> gw_error option \<times> (audit_log \<times> disk)" where
  "append_batches ae io time k [] LD = (None, LD)"
| "append_batches ae io time k (b # bs) LD =
     (case AuditLog.append ae (io k) (time k) ''inventory'' (batch_json b) LD of
        (Inl e, LD') \<Rightarrow> (Some e, LD')
      | (Inr en, LD') \<Rightarrow> append_batches ae io time (k + 1) bs LD')"

record scan_env =
  sn_secret :: bytes
  sn_hkdf :: "bytes \<Rightarrow> string \<Rightarrow> gw_error + bytes"
  sn_inv :: inv_env
  sn_format :: "int \<Rightarrow> string"
  sn_fault :: "nat \<Rightarrow> gw_error option"
  sn_audit :: audit_env
  sn_io :: "nat \<Rightarrow> append_io"
  sn_time :: "nat \<Rightarrow> string"

text \<open>Scan: the generation counts even when an append fails; the inventory that describe uses is
  replaced only at the end.\<close>

definition gateway_scan :: "scan_env \<Rightarrow> gateway \<Rightarrow> gw_error option \<times> gateway" where
  "gateway_scan s g =
     (case derive_keys (sn_hkdf s) (sn_secret s) of Inl e \<Rightarrow> (Some e, g)
      | Inr keys \<Rightarrow>
        (case scan (sn_inv s) (gt_config g) keys max_files (gt_previous g) of Inl e \<Rightarrow> (Some e, g)
         | Inr rs \<Rightarrow>
           (case store_records (sn_format s) (sn_fault s) 0 rs (gt_ledger g) of
              (Some e, L) \<Rightarrow> (Some e, g\<lparr>gt_ledger := L\<rparr>)
            | (None, L) \<Rightarrow>
              (let gen = gt_generation g + 1; g1 = g\<lparr>gt_ledger := L, gt_generation := gen\<rparr> in
               (case append_batches (sn_audit s) (sn_io s) (sn_time s) 0 (batches rs gen) (gt_log g) of
                  (Some e, LD) \<Rightarrow> (Some e, g1\<lparr>gt_log := LD\<rparr>)
                | (None, LD) \<Rightarrow> (None, g1\<lparr>gt_log := LD,
                    gt_previous := filter (\<lambda>r. ph_present (ir_phase r)) rs\<rparr>))))))"

subsection \<open>Control tokens of the verification\<close>

text \<open>VerificationControl: by the type in the header, to the runner (\<open>submit\<close>), to its keys
  (\<open>acknowledge\<close>), or the bootstrap of the scan keys.\<close>

definition verification_control :: "'k key_env \<Rightarrow> save_io \<Rightarrow> int \<Rightarrow> int \<Rightarrow> (string \<Rightarrow> gateway \<Rightarrow> gw_error option \<times> gateway)
    \<Rightarrow> (string \<Rightarrow> gateway \<Rightarrow> gw_error option \<times> gateway) \<Rightarrow> string \<Rightarrow> gateway \<Rightarrow> gw_error option \<times> gateway" where
  "verification_control env io now at submit acknowledge token g =
     (case split_on CHR ''.'' token of
        [p0, p1, p2] \<Rightarrow>
          (case b64_decode p0 of None \<Rightarrow> (Some err_verification, g)
           | Some raw \<Rightarrow>
             (case ke_header env raw of Inl e \<Rightarrow> (Some err_verification, g)
              | Inr h \<Rightarrow>
                if hd_typ h = ''aim-scan-spec+jwt'' then submit token g
                else if hd_typ h = ''aim-scan-runner-ack+jwt'' then acknowledge token g
                else if hd_typ h \<noteq> ''aim-scan-key-bootstrap+jwt'' then (Some err_verification, g)
                else (case bootstrap_scan_keys env io now at token (gt_keys g) of
                    (e, ks) \<Rightarrow> (e, g\<lparr>gt_keys := ks\<rparr>))))
      | _ \<Rightarrow> (Some err_verification, g))"

end
