(* ===== verification/Channel.thy ===== *)
theory Channel
  imports Gateway
begin

text \<open>
  internal/channel/channel.go: the connection to the server. Control messages, the handshake
  with its resume position, the sending of the log, the handling of instructions with their
  answers, the sorting of incoming messages and the pause between connections. The lexer, the
  decoders and the network are arguments; lanes and tickers appear as the operations that
  they run.
\<close>

subsection \<open>Control messages\<close>

definition max_message :: nat where "max_message = 1048576"

datatype control = CNone | CNonce string | CResume nat string | CAck nat

text \<open>\<open>json.Unmarshal\<close> into a string or an unsigned integer: null leaves the zero value.\<close>

definition as_text :: "json \<Rightarrow> string option" where
  "as_text v = (case v of JStr s \<Rightarrow> Some s | JNull \<Rightarrow> Some '''' | _ \<Rightarrow> None)"

definition as_uint :: "json \<Rightarrow> nat option" where
  "as_uint v = (case v of JNum s \<Rightarrow> if s \<noteq> '''' \<and> list_all is_digit s \<and> dec_val s < 2 ^ 64 then Some (nat (dec_val s)) else None
     | JNull \<Rightarrow> Some 0 | _ \<Rightarrow> None)"

text \<open>
  uniqueObject: an object without repeated keys and with nothing after it. Repeated keys and deep
  nesting below the fields read make no difference, since those fields are no objects.
\<close>

definition unique_object :: "(string \<Rightarrow> token list \<times> bool) \<Rightarrow> string \<Rightarrow> (string \<times> json) list option" where
  "unique_object lexer raw = (case lexer raw of (ts, ok) \<Rightarrow>
     (case json_value (2 * length ts + 2) 0 ts of Some (JObj m, []) \<Rightarrow> if ok then Some m else None | _ \<Rightarrow> None))"

definition parse_resume :: "json \<Rightarrow> control" where
  "parse_resume v = (case v of
     JObj fs \<Rightarrow>
       if length fs \<noteq> 2 then CNone
       else (case (map_of fs ''seq'', map_of fs ''entry_hash'') of
           (Some a, Some b) \<Rightarrow>
             (case (as_uint a, as_text b) of
                (Some n, Some h) \<Rightarrow> if (n = 0 \<and> h = '''') \<or> (n > 0 \<and> lower_hex 64 h) then CResume n h else CNone
              | _ \<Rightarrow> CNone)
         | _ \<Rightarrow> CNone)
   | _ \<Rightarrow> CNone)"

definition parse_control :: "(string \<Rightarrow> token list \<times> bool) \<Rightarrow> string \<Rightarrow> control" where
  "parse_control lexer raw =
     (case unique_object lexer raw of
        Some [(k, v)] \<Rightarrow>
          if k = ''nonce'' then (case as_text v of Some n \<Rightarrow> if lower_hex 64 n then CNonce n else CNone | None \<Rightarrow> CNone)
          else if k = ''resume'' then parse_resume v
          else if k = ''ack'' then (case as_uint v of Some n \<Rightarrow> if n > 0 then CAck n else CNone | None \<Rightarrow> CNone)
          else CNone
      | _ \<Rightarrow> CNone)"

subsection \<open>Sending the log\<close>

text \<open>sendNew: one entry after the other, as long as there is one not yet sent. What the network
  took is kept in order; a failing write takes nothing.\<close>

fun send_loop :: "audit_env \<Rightarrow> (nat \<Rightarrow> gw_error option) \<Rightarrow> nat \<Rightarrow> nat \<Rightarrow> audit_log \<times> disk \<Rightarrow> string list
    \<Rightarrow> gw_error option \<times> nat \<times> (audit_log \<times> disk) \<times> string list" where
  "send_loop ae fault 0 sent LD out = (None, sent, LD, out)"
| "send_loop ae fault (Suc n) sent LD out =
     (case read_entry ae (sent + 1) LD of
        (Inl e, L') \<Rightarrow> (Some e, sent, (L', snd LD), out)
      | (Inr en, L') \<Rightarrow>
        (let b = canonical (entry_json en) in
         if length b > max_message then (Some (ErrMsg ''audit entry exceeds 1 MiB''), sent, (L', snd LD), out)
         else case fault sent of Some e \<Rightarrow> (Some e, sent, (L', snd LD), out)
         | None \<Rightarrow> send_loop ae fault n (sent + 1) (L', snd LD) (out @ [b])))"

definition send_new :: "audit_env \<Rightarrow> (nat \<Rightarrow> gw_error option) \<Rightarrow> nat \<Rightarrow> audit_log \<times> disk
    \<Rightarrow> gw_error option \<times> nat \<times> (audit_log \<times> disk) \<times> string list" where
  "send_new ae fault sent LD = send_loop ae fault (al_seq (fst LD) - sent) sent LD []"

subsection \<open>Resuming\<close>

text \<open>The hash of the local entry at the server's position: none at zero or beyond the end.\<close>

definition local_hash :: "audit_env \<Rightarrow> nat \<Rightarrow> audit_log \<times> disk \<Rightarrow> (gw_error + string) \<times> audit_log" where
  "local_hash ae seq LD =
     (if seq > 0 \<and> seq \<le> al_seq (fst LD) then
        (case read_entry ae seq LD of (Inl e, L') \<Rightarrow> (Inl e, L') | (Inr en, L') \<Rightarrow> (Inr (hash_entry ae en), L'))
      else (Inr '''', fst LD))"

definition accept_resume :: "audit_env \<Rightarrow> nat \<Rightarrow> string \<Rightarrow> audit_log \<times> disk \<Rightarrow> gw_error option \<times> audit_log" where
  "accept_resume ae seq hash LD =
     (case local_hash ae seq LD of (Inl e, L') \<Rightarrow> (Some e, L')
      | (Inr h, L') \<Rightarrow> if seq > al_seq L' \<or> h \<noteq> hash then (Some (ErrMsg ''audit_divergence''), L') else (None, L'))"

fun await_nonce :: "(string \<Rightarrow> token list \<times> bool) \<Rightarrow> string list \<Rightarrow> (string \<times> string list) option" where
  "await_nonce lexer [] = None"
| "await_nonce lexer (m # ms) = (case parse_control lexer m of CNonce n \<Rightarrow> Some (n, ms) | _ \<Rightarrow> await_nonce lexer ms)"

fun await_resume :: "(string \<Rightarrow> token list \<times> bool) \<Rightarrow> string list \<Rightarrow> (nat \<times> string \<times> string list) option" where
  "await_resume lexer [] = None"
| "await_resume lexer (m # ms) = (case parse_control lexer m of CResume n h \<Rightarrow> Some (n, h, ms) | _ \<Rightarrow> await_resume lexer ms)"

definition hello_json :: "hello \<Rightarrow> json" where
  "hello_json h = JObj [(''gid'', JStr (he_gid h)), (''nonce'', JStr (he_nonce h)), (''version'', JStr (he_version h)),
     (''ts'', JStr (he_ts h))]"

record 'k channel_env =
  cx_lex :: "string \<Rightarrow> token list \<times> bool"
  cx_crypto :: "'k crypto"
  cx_private :: 'k
  cx_version :: string
  cx_time :: string
  cx_audit :: audit_env
  cx_stamp :: string
  cx_hello_fault :: "gw_error option"
  cx_vfault :: "gw_error option"
  cx_rfault :: "gw_error option"
  cx_send :: "nat \<Rightarrow> gw_error option"

text \<open>The handshake over the messages the server sends in it, up to the first sending of the log:
  the token that was sent, the position it starts from and how far it came.\<close>

record connection =
  cn_hello :: string
  cn_resume :: nat
  cn_sent :: nat
  cn_out :: "string list"

definition err_read :: gw_error where "err_read = ErrMsg ''read failed''"

definition handshake :: "'k channel_env \<Rightarrow> string list \<Rightarrow> gateway \<Rightarrow> (gw_error + connection) \<times> gateway" where
  "handshake env msgs g =
     (case await_nonce (cx_lex env) msgs of None \<Rightarrow> (Inl err_read, g)
      | Some (nonce, rest) \<Rightarrow>
        (case sign_token (cx_crypto env) ''aim-hello+jwt'' ''gateway''
            (hello_json \<lparr>he_gid = pn_gateway (ks_pins (gt_keys g)), he_nonce = nonce, he_version = cx_version env,
               he_ts = cx_time env\<rparr>) (cx_private env) of
           Inl e \<Rightarrow> (Inl e, g)
         | Inr hello \<Rightarrow>
           (case cx_hello_fault env of Some e \<Rightarrow> (Inl e, g)
            | None \<Rightarrow>
              (case await_resume (cx_lex env) rest of None \<Rightarrow> (Inl err_read, g)
               | Some (seq, hash, _) \<Rightarrow>
                 (case accept_resume (cx_audit env) seq hash (gt_log g) of
                    (Some e, L) \<Rightarrow> (Inl e, g\<lparr>gt_log := (L, snd (gt_log g))\<rparr>)
                  | (None, L) \<Rightarrow>
                    (case reconcile (cx_stamp env) (cx_vfault env) (cx_rfault env) seq (g\<lparr>gt_log := (L, snd (gt_log g))\<rparr>) of
                       (Some e, g1) \<Rightarrow> (Inl e, g1)
                     | (None, g1) \<Rightarrow>
                       (case send_new (cx_audit env) (cx_send env) seq (gt_log g1) of
                          (Some e, sent, LD, out) \<Rightarrow> (Inl e, g1\<lparr>gt_log := LD\<rparr>)
                        | (None, sent, LD, out) \<Rightarrow>
                          (Inr \<lparr>cn_hello = hello, cn_resume = seq, cn_sent = sent, cn_out = out\<rparr>, g1\<lparr>gt_log := LD\<rparr>))))))))"

subsection \<open>Instructions\<close>

definition opt_json :: "('a \<Rightarrow> json) \<Rightarrow> 'a option \<Rightarrow> json" where
  "opt_json f x = (case x of None \<Rightarrow> JNull | Some y \<Rightarrow> f y)"

definition column_json :: "column \<Rightarrow> json" where
  "column_json c = JObj [(''name'', JStr (co_name c)), (''type'', JStr (co_type c)),
     (''null_rate_pct'', opt_json (\<lambda>n. JNum (int_text n)) (co_null_rate c)), (''distinct_bucket'', JStr (co_distinct c))]"

text \<open>The answers of instructions as documents.\<close>

definition answer_json :: "answer \<Rightarrow> json" where
  "answer_json a = (case a of
     AnsRevoke v \<Rightarrow> JObj [(''op'', JStr (ra_op v)), (''jti'', JStr (ra_jti v)), (''state_before'', JStr (ra_state_before v))]
   | AnsPrepare v \<Rightarrow> JObj [(''op'', JStr (pa_op v)), (''iid'', JStr (pa_iid v)), (''oid'', JStr (pa_oid v)),
       (''fid'', JStr (pa_fid v)), (''ready'', JBool (pa_ready v)), (''refusal'', opt_json JStr (pa_refusal v)),
       (''resume_offset'', JNum (int_text (pa_resume_offset v))), (''transmitted_bytes'', JNum (int_text (pa_transmitted_bytes v))),
       (''interval_count'', JNum (int_text (pa_interval_count v))), (''max_serve_count'', JNum (int_text (pa_max_serve_count v)))]
   | AnsDescription d \<Rightarrow> JObj [(''file_id'', JStr (de_fid d)), (''sha256'', JStr (de_sha d)),
       (''row_count'', JNum (int_text (de_rows d))), (''columns'', opt_json (\<lambda>cs. JArr (map column_json cs)) (de_columns d))]
   | AnsFailure fid code \<Rightarrow> JObj [(''file_id'', JStr fid), (''failure_code'', JStr code)]
   | AnsOffer v \<Rightarrow> JObj [(''iid'', JStr (oa_iid v)), (''fid'', JStr (oa_fid v)), (''ready'', JBool (oa_ready v)),
       (''refusal'', opt_json JStr (oa_refusal v))]
   | AnsError code msg \<Rightarrow> JObj [(''code'', JStr code), (''message'', JStr msg)]
   | _ \<Rightarrow> JNull)"

text \<open>The code of a failed instruction; only a description names its file.\<close>

definition failure_code :: "instruction \<Rightarrow> gw_error \<Rightarrow> string" where
  "failure_code i e = (if i_op i \<noteq> ''describe'' then ''instruction_failed''
     else if e = ErrMsg ''gateway_timeout'' then ''gateway_timeout'' else ''read_error'')"

definition failure_answer :: "instruction \<Rightarrow> gw_error \<Rightarrow> string \<times> answer option" where
  "failure_answer i e = (let code = failure_code i e in
     if i_op i = ''describe'' then (''description'', Some (AnsFailure (i_fid i) code))
     else (''error'', Some (AnsError code code)))"

record process_env =
  pe_handle :: handle_env
  pe_cancelled :: "gw_error option"
  pe_audit :: audit_env
  pe_io :: append_io
  pe_time :: string
  pe_complete_fault :: "gw_error option"

text \<open>process: handle, log the answer, and mark the instruction as done unless it failed.\<close>

definition process :: "process_env \<Rightarrow> instruction \<Rightarrow> string \<Rightarrow> string \<Rightarrow> gateway \<Rightarrow> gw_error option \<times> gateway" where
  "process p i cls signer g =
     (case handle (pe_handle p) i cls signer g of (r, g1) \<Rightarrow>
      (case pe_cancelled p of Some e \<Rightarrow> (Some e, g1)
       | None \<Rightarrow>
         (let (typ, body) = (case r of Inl e \<Rightarrow> failure_answer i e | Inr a \<Rightarrow> a) in
          case (if typ = '''' then (Inr (), gt_log g1)
                else (case AuditLog.append (pe_audit p) (pe_io p) (pe_time p) typ (opt_json answer_json body) (gt_log g1) of
                    (Inl e, LD) \<Rightarrow> (Inl e, LD) | (Inr en, LD) \<Rightarrow> (Inr (), LD))) of
            (Inl e, LD) \<Rightarrow> (Some e, g1\<lparr>gt_log := LD\<rparr>)
          | (Inr _, LD) \<Rightarrow>
            (let g2 = g1\<lparr>gt_log := LD\<rparr> in
             case r of Inl _ \<Rightarrow> (None, g2)
             | Inr _ \<Rightarrow>
               (case pe_complete_fault p of Some e \<Rightarrow> (Some e, g2)
                | None \<Rightarrow> (None, g2\<lparr>gt_ledger := snd (seen (i_iid i) (gt_ledger g2))\<rparr>))))))"

subsection \<open>Incoming messages\<close>

datatype action = ActDelivered nat | ActIgnore | ActVerification string | ActInstruction string

text \<open>What the main loop does with a message; tokens of the verification go to its own lane when
  there is a runner.\<close>

definition verification_types :: "string list" where
  "verification_types = [''aim-scan-spec+jwt'', ''aim-scan-key-bootstrap+jwt'', ''aim-scan-runner-ack+jwt'']"

definition classify :: "(string \<Rightarrow> token list \<times> bool) \<Rightarrow> (bytes \<Rightarrow> gw_error + jws_header) \<Rightarrow> bool \<Rightarrow> nat \<Rightarrow> string \<Rightarrow> action" where
  "classify lexer header runner sent raw =
     (case parse_control lexer raw of
        CAck seq \<Rightarrow> if seq \<le> sent then ActDelivered seq else ActIgnore
      | _ \<Rightarrow>
        if raw = '''' \<or> hd raw = CHR ''{'' then ActIgnore
        else if runner \<and> (case b64_decode (hd (split_on CHR ''.'' raw)) of None \<Rightarrow> False
            | Some h \<Rightarrow> (case header h of Inl _ \<Rightarrow> False | Inr jh \<Rightarrow> hd_typ jh \<in> set verification_types))
          then ActVerification raw
        else ActInstruction raw)"

text \<open>A lane holds at most 64 jobs; a full one ends the connection.\<close>

definition lane_capacity :: nat where "lane_capacity = 64"

definition enqueue :: "'a list \<Rightarrow> 'a \<Rightarrow> gw_error + 'a list" where
  "enqueue lane x = (if length lane < lane_capacity then Inr (lane @ [x]) else Inl (ErrMsg ''channel work queue full''))"

text \<open>The acknowledgement of an entry: it is read back and handed to Delivered.\<close>

definition acknowledge_entry :: "audit_env \<Rightarrow> (json \<Rightarrow> gw_error + receipt) \<Rightarrow> string \<Rightarrow> gw_error option \<Rightarrow> nat \<Rightarrow> gateway
    \<Rightarrow> gw_error option \<times> gateway" where
  "acknowledge_entry ae dec stamp fault seq g =
     (case read_entry ae seq (gt_log g) of
        (Inl e, L) \<Rightarrow> (Some e, g\<lparr>gt_log := (L, snd (gt_log g))\<rparr>)
      | (Inr en, L) \<Rightarrow> delivered dec stamp fault en (g\<lparr>gt_log := (L, snd (gt_log g))\<rparr>))"

subsection \<open>The pause between connections\<close>

text \<open>Nanoseconds; the jitter is a random number below the backoff.\<close>

definition second :: int where "second = 1000000000"

definition reconnect_delay :: "int \<Rightarrow> int \<Rightarrow> int" where
  "reconnect_delay backoff jitter = max second (min (backoff div 2 + jitter) (60 * second))"

definition next_backoff :: "int \<Rightarrow> int" where
  "next_backoff backoff = min (backoff * 2) (60 * second)"

end
