(* ===== verification/ChannelProps.thy ===== *)
theory ChannelProps
  imports Channel
begin

text \<open>
  What the channel promises: a resume is accepted exactly when the server's log is a prefix of
  the local one, what is sent after it continues the server's log without gap or repetition,
  an instruction that is done is never done again, and its answer is in the log before it is
  marked as done.
\<close>

subsection \<open>Sending\<close>

text \<open>A line that is the canonical text of the entry it decodes to, as Append writes it.\<close>

definition own_line :: "audit_env \<Rightarrow> string \<Rightarrow> bool" where
  "own_line ae l \<longleftrightarrow> (case validate_raw ae l of Inl e \<Rightarrow> False | Inr en \<Rightarrow> canonical (entry_json en) = l)"

definition log_state :: "audit_env \<Rightarrow> audit_log \<Rightarrow> parts \<Rightarrow> bool" where
  "log_state ae L ps \<longleftrightarrow> log_ok ae L ps \<and> cursor_ok L ps \<and> (\<forall>l \<in> set (lines_of ps). own_line ae l)"

lemma entry_at_line:
  assumes "log_state ae L ps" and "0 < seq" and "seq \<le> al_seq L"
  shows "canonical (entry_json (entry_at ae ps seq)) = lines_of ps ! (seq - 1)"
proof -
  have "seq - 1 < length (lines_of ps)" using assms by (auto simp: log_state_def log_ok_def)
  then have "own_line ae (lines_of ps ! (seq - 1))" using assms(1) by (simp add: log_state_def)
  then show ?thesis by (simp add: own_line_def entry_at_def split: sum.splits)
qed

lemma read_line_at:
  assumes "log_state ae L ps" and "0 < seq" and "seq \<le> al_seq L"
  obtains L' where "read_entry ae seq (L, disk_of ps) = (Inr (entry_at ae ps seq), L')" "log_state ae L' ps" "al_seq L' = al_seq L"
proof -
  obtain L' where r: "read_entry ae seq (L, disk_of ps) = (Inr (entry_at ae ps seq), L')" "log_ok ae L' ps" "cursor_ok L' ps"
    using read_refines [of ae L ps seq] assms by (auto simp: log_state_def)
  moreover have "log_state ae L' ps" using r assms(1) by (simp add: log_state_def)
  moreover have "al_seq L' = al_seq L" using r(2) assms(1) by (simp add: log_state_def log_ok_def)
  ultimately show ?thesis using that by blast
qed

lemma send_loop_lines:
  assumes "log_state ae L ps" and "n + sent \<le> al_seq L"
    and "send_loop ae fault n sent (L, disk_of ps) out = (e, sent', LD, out')"
  shows "\<exists>k L'. k \<le> n \<and> sent' = sent + k \<and> out' = out @ take k (drop sent (lines_of ps)) \<and> LD = (L', disk_of ps)
    \<and> log_state ae L' ps \<and> al_seq L' = al_seq L \<and> (e = None \<longrightarrow> k = n)"
  using assms
proof (induction n arbitrary: L sent out)
  case 0
  then show ?case by auto
next
  case (Suc n)
  obtain L1 where r: "read_entry ae (sent + 1) (L, disk_of ps) = (Inr (entry_at ae ps (sent + 1)), L1)"
    "log_state ae L1 ps" "al_seq L1 = al_seq L"
    by (rule read_line_at [OF Suc.prems(1), of "sent + 1"]) (use Suc.prems(2) in simp_all)
  have line: "canonical (entry_json (entry_at ae ps (sent + 1))) = lines_of ps ! sent"
    using entry_at_line [OF Suc.prems(1), of "sent + 1"] Suc.prems(2) by simp
  have len: "sent < length (lines_of ps)" using Suc.prems(1,2) by (simp add: log_state_def log_ok_def)
  show ?case
  proof (cases "length (lines_of ps ! sent) > max_message \<or> fault sent \<noteq> None")
    case True
    then have "LD = (L1, disk_of ps) \<and> sent' = sent \<and> out' = out \<and> e \<noteq> None"
      using Suc.prems(3) r(1) line by (cases "fault sent") (auto simp: Let_def split: if_splits, metis)
    with r(2,3) show ?thesis by (intro exI [of _ 0] exI [of _ L1]) simp
  next
    case False
    then have "send_loop ae fault n (sent + 1) (L1, disk_of ps) (out @ [lines_of ps ! sent]) = (e, sent', LD, out')"
      using Suc.prems(3) r(1) line by (auto simp: Let_def split: if_splits)
    from Suc.IH [OF r(2) _ this] Suc.prems(2) r(3) obtain k L' where k: "k \<le> n" "sent' = sent + 1 + k"
      "out' = (out @ [lines_of ps ! sent]) @ take k (drop (sent + 1) (lines_of ps))" "LD = (L', disk_of ps)"
      "log_state ae L' ps" "al_seq L' = al_seq L" "e = None \<longrightarrow> k = n"
      by auto
    have "take (Suc k) (drop sent (lines_of ps)) = lines_of ps ! sent # take k (drop (sent + 1) (lines_of ps))"
      using len by (simp add: Cons_nth_drop_Suc [symmetric])
    with k show ?thesis by (intro exI [of _ "Suc k"] exI [of _ L']) auto
  qed
qed

lemma send_new_lines:
  assumes "log_state ae L ps" and "sent \<le> al_seq L" and "send_new ae fault sent (L, disk_of ps) = (e, sent', LD, out)"
  shows "\<exists>L'. take sent (lines_of ps) @ out = take sent' (lines_of ps) \<and> sent \<le> sent' \<and> sent' \<le> al_seq L'
    \<and> LD = (L', disk_of ps) \<and> log_state ae L' ps \<and> al_seq L' = al_seq L \<and> (e = None \<longrightarrow> sent' = al_seq L)"
proof -
  have "al_seq L - sent + sent \<le> al_seq L" using assms(2) by simp
  from send_loop_lines [OF assms(1) this, of fault "[]" e sent' LD out] assms(3) obtain k L' where
    "k \<le> al_seq L - sent" "sent' = sent + k" "out = take k (drop sent (lines_of ps))" "LD = (L', disk_of ps)"
    "log_state ae L' ps" "al_seq L' = al_seq L" "e = None \<longrightarrow> k = al_seq L - sent"
    by (auto simp: send_new_def)
  then show ?thesis using assms(2) by (intro exI [of _ L']) (auto simp: take_add)
qed

subsection \<open>Resuming\<close>

lemma local_hash_is:
  assumes "log_state ae L ps"
  shows "\<exists>L'. local_hash ae seq (L, disk_of ps) = (Inr (if seq \<le> al_seq L then last_hash ae '''' (take seq (lines_of ps)) else ''''), L')
    \<and> log_state ae L' ps \<and> al_seq L' = al_seq L"
proof (cases "seq > 0 \<and> seq \<le> al_seq L")
  case True
  then obtain L' where r: "read_entry ae seq (L, disk_of ps) = (Inr (entry_at ae ps seq), L')" "log_state ae L' ps" "al_seq L' = al_seq L"
    using read_line_at [OF assms] by metis
  have len: "seq \<le> length (lines_of ps)" using True assms by (simp add: log_state_def log_ok_def)
  then have "take seq (lines_of ps) = take (seq - 1) (lines_of ps) @ [lines_of ps ! (seq - 1)]"
    using True by (cases seq) (simp_all add: take_Suc_conv_app_nth)
  then have "last_hash ae '''' (take seq (lines_of ps)) = ae_sha ae (lines_of ps ! (seq - 1))"
    by (simp add: last_hash_append)
  then show ?thesis using r True entry_at_line [OF assms] by (simp add: local_hash_def hash_entry_def)
next
  case False
  then show ?thesis using assms by (auto simp: local_hash_def)
qed

lemma accept_resume_cases:
  assumes "log_state ae L ps"
  shows "\<exists>e L'. accept_resume ae seq hash (L, disk_of ps) = (e, L') \<and> log_state ae L' ps \<and> al_seq L' = al_seq L
    \<and> (e = None \<longleftrightarrow> seq \<le> al_seq L \<and> hash = last_hash ae '''' (take seq (lines_of ps)))"
proof -
  obtain L' where "local_hash ae seq (L, disk_of ps)
      = (Inr (if seq \<le> al_seq L then last_hash ae '''' (take seq (lines_of ps)) else ''''), L')"
    "log_state ae L' ps" "al_seq L' = al_seq L"
    using local_hash_is [OF assms, of seq] by blast
  then show ?thesis by (auto simp: accept_resume_def)
qed

lemma chained_take: "chained ae n prev ls \<Longrightarrow> chained ae n prev (take k ls)"
proof (induction ae n prev ls arbitrary: k rule: chained.induct)
  case (2 env n prev l ls)
  then show ?case by (cases k) auto
qed simp

text \<open>The server's lines as a chain, against the local ones.\<close>

lemma resume_prefix:
  assumes "log_state ae L ps" and "chained ae 0 '''' srv" and "\<forall>x y. ae_sha ae x = ae_sha ae y \<longrightarrow> x = y"
  shows "length srv \<le> al_seq L \<and> last_hash ae '''' srv = last_hash ae '''' (take (length srv) (lines_of ps))
    \<longleftrightarrow> srv = take (length srv) (lines_of ps)"
proof
  assume a: "length srv \<le> al_seq L \<and> last_hash ae '''' srv = last_hash ae '''' (take (length srv) (lines_of ps))"
  have ok: "chained ae 0 '''' (lines_of ps)" "al_seq L = length (lines_of ps)"
    using assms(1) by (simp_all add: log_state_def log_ok_def parts_ok_def)
  show "srv = take (length srv) (lines_of ps)"
    by (rule last_hash_commits [OF assms(3) assms(2) chained_take [OF ok(1)]]) (use a ok(2) in simp_all)
next
  assume srv: "srv = take (length srv) (lines_of ps)"
  then have "length srv \<le> length (lines_of ps)" by (metis length_take min.absorb_iff2 min.commute nat_le_linear)
  with srv assms(1) show "length srv \<le> al_seq L \<and> last_hash ae '''' srv = last_hash ae '''' (take (length srv) (lines_of ps))"
    by (simp add: log_state_def log_ok_def)
qed

subsection \<open>A connection\<close>

text \<open>After the handshake: entries are appended and what is new is sent, in any order; a failed
  sending ends the connection.\<close>

inductive conn_step :: "audit_env \<Rightarrow> (audit_log \<times> disk) \<times> nat \<times> string list \<Rightarrow> (audit_log \<times> disk) \<times> nat \<times> string list \<Rightarrow> bool"
  for ae :: audit_env where
  ct_append: "AuditLog.append ae io time ty body LD = (Inr en, LD')
     \<Longrightarrow> ae_unmarshal ae (canonical (entry_json en)) = Inr en \<Longrightarrow> line_ok (canonical (entry_json en))
     \<Longrightarrow> conn_step ae (LD, sent, out) (LD', sent, out)"
| ct_send: "send_new ae fault sent LD = (e, sent', LD', new) \<Longrightarrow> conn_step ae (LD, sent, out) (LD', sent', out @ new)"

inductive conn_steps :: "audit_env \<Rightarrow> (audit_log \<times> disk) \<times> nat \<times> string list \<Rightarrow> (audit_log \<times> disk) \<times> nat \<times> string list \<Rightarrow> bool"
  for ae :: audit_env where
  cy_here: "conn_steps ae c c"
| cy_step: "conn_steps ae c c' \<Longrightarrow> conn_step ae c' c'' \<Longrightarrow> conn_steps ae c c''"

definition in_step_with :: "audit_env \<Rightarrow> string list \<Rightarrow> parts \<Rightarrow> (audit_log \<times> disk) \<times> nat \<times> string list \<Rightarrow> bool" where
  "in_step_with ae srv ps c \<longleftrightarrow> (case c of ((L, D), sent, out) \<Rightarrow>
     D = disk_of ps \<and> log_state ae L ps \<and> sent \<le> al_seq L \<and> srv @ out = take sent (lines_of ps))"

lemma append_disk_parts:
  assumes "log_state ae L ps" and "AuditLog.append ae io time ty body (L, disk_of ps) = (Inr en, L', D')"
    and "ae_unmarshal ae (canonical (entry_json en)) = Inr en" and "line_ok (canonical (entry_json en))"
  shows "\<exists>qs. D' = disk_of qs \<and> log_state ae L' qs \<and> lines_of qs = lines_of ps @ [canonical (entry_json en)] \<and> al_seq L' = al_seq L + 1"
proof -
  let ?l = "canonical (entry_json en)"
  have ok: "log_ok ae L ps" "cursor_ok L ps" using assms(1) by (simp_all add: log_state_def)
  obtain i where i: "D' = disk_of (AuditProps.extend i [?l] ps)" "log_ok ae L' (AuditProps.extend i [?l] ps)"
    "lines_of (AuditProps.extend i [?l] ps) = lines_of ps @ [?l]" "al_cursor L' = al_cursor L"
    using append_log_ok [OF ok(1) assms(2-4)] by blast
  have "validate_raw ae ?l = Inr en"
  proof -
    obtain line where "prepare_entry ae time ty body L = Inr (en, line)"
      using assms(2) by (auto simp: append_def Let_def split: sum.splits prod.splits option.splits if_splits)
    with prepare_entryD [OF this] prepare_entry_valid [OF this] assms(3) show ?thesis by simp
  qed
  then have "own_line ae ?l" by (simp add: own_line_def)
  then have "log_state ae L' (AuditProps.extend i [?l] ps)"
    using i(2,3) cursor_ok_extend [OF ok(2) i(4)] assms(1) by (auto simp: log_state_def)
  then show ?thesis using i ok(1) by (auto simp: log_ok_def)
qed

lemma conn_step_in_step:
  assumes "conn_step ae c c'" and "in_step_with ae srv ps c"
  shows "\<exists>qs more. in_step_with ae srv qs c' \<and> lines_of qs = lines_of ps @ more"
  using assms
proof (induction rule: conn_step.induct)
  case (ct_append io time ty body LD en LD' sent out)
  obtain L D L' D' where LD: "LD = (L, D)" "LD' = (L', D')" by fastforce
  have i: "D = disk_of ps" "log_state ae L ps" "sent \<le> al_seq L" "srv @ out = take sent (lines_of ps)"
    using ct_append(4) by (simp_all add: in_step_with_def LD)
  obtain qs where q: "D' = disk_of qs" "log_state ae L' qs" "lines_of qs = lines_of ps @ [canonical (entry_json en)]" "al_seq L' = al_seq L + 1"
    using append_disk_parts [OF i(2) ct_append(1) [unfolded LD i(1)] ct_append(2,3)] by blast
  have "al_seq L = length (lines_of ps)" using i(2) by (simp add: log_state_def log_ok_def)
  then show ?case using i q by (intro exI [of _ qs]) (simp add: in_step_with_def LD)
next
  case (ct_send fault sent LD e sent' LD' new out)
  obtain L D where LD: "LD = (L, D)" by fastforce
  have i: "D = disk_of ps" "log_state ae L ps" "sent \<le> al_seq L" "srv @ out = take sent (lines_of ps)"
    using ct_send(2) by (simp_all add: in_step_with_def LD)
  obtain L' where "take sent (lines_of ps) @ new = take sent' (lines_of ps)" "sent' \<le> al_seq L'" "LD' = (L', disk_of ps)"
    "log_state ae L' ps" "al_seq L' = al_seq L"
    using send_new_lines [OF i(2,3) ct_send(1) [unfolded LD i(1)]] by blast
  then show ?case using i(4) by (intro exI [of _ ps]) (simp add: in_step_with_def flip: append_assoc)
qed

lemma conn_steps_in_step:
  assumes "conn_steps ae c c'" and "in_step_with ae srv ps c"
  shows "\<exists>qs more. in_step_with ae srv qs c' \<and> lines_of qs = lines_of ps @ more"
  using assms
proof (induction rule: conn_steps.induct)
  case (cy_here c)
  then show ?case by auto
next
  case (cy_step c c' c'')
  then obtain qs more where q: "in_step_with ae srv qs c'" "lines_of qs = lines_of ps @ more" by blast
  with conn_step_in_step [OF cy_step(2) q(1)] show ?case by fastforce
qed

subsection \<open>Properties of a connection\<close>

text \<open>C37: The position a server names is accepted exactly when its log is a prefix of the local
  one, and every other server is turned away as diverged, by the length and one hash alone.\<close>

theorem resume_accepts_prefixes:
  assumes "log_state ae L ps" and "chained ae 0 '''' srv" and "\<forall>x y. ae_sha ae x = ae_sha ae y \<longrightarrow> x = y"
  shows "fst (accept_resume ae (length srv) (last_hash ae '''' srv) (L, disk_of ps))
    = (if srv = take (length srv) (lines_of ps) then None else Some (ErrMsg ''audit_divergence''))"
proof -
  obtain e L' where e: "accept_resume ae (length srv) (last_hash ae '''' srv) (L, disk_of ps) = (e, L')"
    "e = None \<longleftrightarrow> length srv \<le> al_seq L \<and> last_hash ae '''' srv = last_hash ae '''' (take (length srv) (lines_of ps))"
    using accept_resume_cases [OF assms(1)] by metis
  have "e = None \<or> e = Some (ErrMsg ''audit_divergence'')"
    using e(1) local_hash_is [OF assms(1), of "length srv"] by (auto simp: accept_resume_def split: if_splits)
  then show ?thesis using e resume_prefix [OF assms] by auto
qed

text \<open>C38: After an accepted resume, through any appends and sendings with any write errors, what the
  server had and what was sent to it are together the first lines of the local log, in order and
  each once; and a sending that reports no error has brought it to the end of the log.\<close>

theorem server_follows_log:
  assumes "log_state ae L ps" and "chained ae 0 '''' srv" and "\<forall>x y. ae_sha ae x = ae_sha ae y \<longrightarrow> x = y"
    and "accept_resume ae (length srv) (last_hash ae '''' srv) (L, disk_of ps) = (None, L1)"
    and "conn_steps ae ((L1, disk_of ps), length srv, []) ((L2, D2), sent, out)"
    and "send_new ae fault sent (L2, D2) = (e, sent', LD3, new)"
  shows "\<exists>qs added. D2 = disk_of qs \<and> lines_of qs = lines_of ps @ added \<and> srv @ out @ new = take sent' (lines_of qs)
    \<and> sent' = length (srv @ out @ new) \<and> (e = None \<longrightarrow> srv @ out @ new = lines_of qs)"
proof -
  obtain e' L' where a: "accept_resume ae (length srv) (last_hash ae '''' srv) (L, disk_of ps) = (e', L')" "log_state ae L' ps"
    "al_seq L' = al_seq L" "e' = None \<longleftrightarrow> length srv \<le> al_seq L \<and> last_hash ae '''' srv = last_hash ae '''' (take (length srv) (lines_of ps))"
    using accept_resume_cases [OF assms(1)] by metis
  then have L1: "L' = L1" "length srv \<le> al_seq L" using assms(4) by auto
  have srv: "srv = take (length srv) (lines_of ps)" using resume_prefix [OF assms(1-3)] a(1,4) assms(4) by simp
  have "in_step_with ae srv ps ((L1, disk_of ps), length srv, [])"
    using a(2,3) L1 srv by (simp add: in_step_with_def)
  from conn_steps_in_step [OF assms(5) this] obtain qs added where q: "in_step_with ae srv qs ((L2, D2), sent, out)"
    "lines_of qs = lines_of ps @ added" by blast
  then have i: "D2 = disk_of qs" "log_state ae L2 qs" "sent \<le> al_seq L2" "srv @ out = take sent (lines_of qs)"
    by (simp_all add: in_step_with_def)
  obtain L3 where s: "take sent (lines_of qs) @ new = take sent' (lines_of qs)" "sent' \<le> al_seq L3"
    "log_state ae L3 qs" "al_seq L3 = al_seq L2" "e = None \<longrightarrow> sent' = al_seq L2"
    using send_new_lines [OF i(2,3) assms(6) [unfolded i(1)]] by blast
  have len: "al_seq L2 = length (lines_of qs)" using i(2) by (simp add: log_state_def log_ok_def)
  have all: "srv @ out @ new = take sent' (lines_of qs)" using s(1) i(4) by (metis append_assoc)
  moreover have "sent' = length (srv @ out @ new)" using all s(2,4) len by simp
  moreover have "e = None \<longrightarrow> srv @ out @ new = lines_of qs" using all s(5) len by simp
  ultimately show ?thesis using i(1) q(2) by blast
qed

subsection \<open>Examples\<close>

lemma demo_own: "own_line demo_env demo_line"
  using demo_valid by (simp add: own_line_def demo_line_def)

lemma demo_log_state: "log_state demo_env demo_log1 [(0, [demo_line])]"
  using demo_log1_ok demo_own by (simp add: log_state_def cursor_ok_def demo_log1_def)

lemma demo_sha_inj: "\<forall>x y. ae_sha demo_env x = ae_sha demo_env y \<longrightarrow> x = y"
  by (simp add: demo_env_def)

lemma demo_resume: "accept_resume demo_env 0 '''' (demo_log1, disk_of [(0, [demo_line])]) = (None, demo_log1)"
  by (simp add: accept_resume_def local_hash_def)

lemma demo_send: "send_new demo_env (\<lambda>i. None) 0 (demo_log1, disk_of [(0, [demo_line])])
    = (None, 1, (demo_log1, disk_of [(0, [demo_line])]), [demo_line])"
  using demo_line_facts
  by (simp add: send_new_def demo_log1_def read_entry_def max_message_def Let_def flip: demo_line_def)

theorem resume_accepts_prefixes_witness:
  "fst (accept_resume demo_env 0 '''' (demo_log1, disk_of [(0, [demo_line])])) = None"
  using resume_accepts_prefixes [OF demo_log_state _ demo_sha_inj, of "[]"] by simp

theorem server_follows_log_witness:
  "send_new demo_env (\<lambda>i. None) 0 (demo_log1, disk_of [(0, [demo_line])])
     = (None, 1, (demo_log1, disk_of [(0, [demo_line])]), [demo_line])
   \<and> (\<exists>qs added. disk_of [(0, [demo_line])] = disk_of qs \<and> lines_of qs = demo_line # added \<and> [demo_line] = lines_of qs)"
  using server_follows_log [of demo_env demo_log1 "[(0, [demo_line])]" "[]", OF demo_log_state _ demo_sha_inj _ cy_here,
      of demo_log1 "\<lambda>i. None"] demo_resume demo_send
  by (simp, blast)

end
