(* ===== verification/InstructionProps.thy ===== *)
theory InstructionProps
  imports ChannelProps PinsProps LedgerHistory DoorProps
begin

text \<open>
  What the handling of instructions promises: an answer is in the log before its instruction is
  marked as done, a done instruction is never done again whatever happens in between, and an
  offer is answered ready exactly when the file can be offered. Also the bounds of the pause
  between connections.
\<close>

subsection \<open>Handling\<close>

lemma handle_seen:
  assumes "was_seen (i_iid i) (gt_ledger g)" and "hv_seen_fault h = None"
  shows "handle h i cls signer g = (Inr ('''', None), g)"
  using assms by (simp add: handle_def)

lemma tx_lg_seen:
  assumes "tx be ce f L = (r, L')" and "\<And>x L1. f L = Inr (x, L1) \<Longrightarrow> lg_seen L1 = lg_seen L"
  shows "lg_seen L' = lg_seen L"
  using assms by (auto simp: tx_def split: option.splits sum.splits)

lemma put_offer_seen [simp]: "lg_seen (put_offer r L) = lg_seen L"
  by (simp add: put_offer_def Let_def)

lemma revoke_body_seen: "revoke_body t at jti L = (a, L') \<Longrightarrow> lg_seen L' = lg_seen L"
  by (auto simp: revoke_body_def Let_def split: option.splits if_splits)

lemma revoke_instruction_seen: "revoke_instruction be ce t at iid jti L = (r, L') \<Longrightarrow> lg_seen L' = lg_seen L"
  unfolding revoke_instruction_def
  by (erule tx_lg_seen) (auto simp: revoke_instruction_body_def split: option.splits prod.splits dest: revoke_body_seen)

text \<open>Handling writes neither the log nor the list of done instructions.\<close>

lemma keys_result_frame: "keys_result r g = (x, g') \<Longrightarrow> gt_log g' = gt_log g \<and> gt_ledger g' = gt_ledger g"
  by (auto simp: keys_result_def split: prod.splits option.splits)

lemma handle_offer_frame: "handle_offer h i g = (x, g') \<Longrightarrow> gt_log g' = gt_log g \<and> lg_seen (gt_ledger g') = lg_seen (gt_ledger g)"
  by (auto simp: handle_offer_def Let_def split: option.splits if_splits)

lemma handle_frame:
  assumes "handle h i cls signer g = (r, g')"
  shows "gt_log g' = gt_log g \<and> lg_seen (gt_ledger g') = lg_seen (gt_ledger g)"
  using assms
  by (auto simp: handle_def split: option.splits if_splits prod.splits sum.splits
      dest: handle_offer_frame keys_result_frame revoke_instruction_seen)

subsection \<open>Done once, answered before\<close>

text \<open>C39: An instruction that has been handled and completed is never done again: after any further
  operations on the ledger, a message with its identifier, whatever else it says, changes nothing.\<close>

theorem done_never_again:
  assumes "process p i cls signer g = (None, g1)" and "fst (handle (pe_handle p) i cls signer g) = Inr a"
    and "gt_ledger g2 = run_ops sg ops (gt_ledger g1)" and "i_iid j = i_iid i"
    and "hv_seen_fault (pe_handle q) = None" and "pe_cancelled q = None" and "pe_complete_fault q = None"
  shows "process q j cls' signer' g2 = (None, g2)"
proof -
  have "was_seen (i_iid i) (gt_ledger g1)"
    using assms(1,2) by (auto simp: process_def Let_def was_seen_after_seen split: prod.splits option.splits sum.splits if_splits)
  then have "was_seen (i_iid j) (gt_ledger g2)"
    using run_ops_grows [of "gt_ledger g1" sg ops] assms(3,4) by (simp add: grows_def)
  then show ?thesis
    using assms(5-7) handle_seen [of j g2 "pe_handle q"] by (simp add: process_def seen_def was_seen_iff)
qed

text \<open>C40: An instruction is marked as done only after it was handled without an error and its answer,
  when it has one, was appended to the log; a failed one is answered and stays open.\<close>

theorem done_after_answer:
  assumes "process p i cls signer g = (e, g')" and "\<not> was_seen (i_iid i) (gt_ledger g)"
  shows "case fst (handle (pe_handle p) i cls signer g) of
      Inl f \<Rightarrow> \<not> was_seen (i_iid i) (gt_ledger g') \<and> (e = None \<longrightarrow> (\<exists>en. AuditLog.append (pe_audit p) (pe_io p) (pe_time p)
          (fst (failure_answer i f)) (opt_json answer_json (snd (failure_answer i f))) (gt_log g) = (Inr en, gt_log g')))
    | Inr (typ, body) \<Rightarrow> (was_seen (i_iid i) (gt_ledger g') \<longleftrightarrow> e = None)
        \<and> (e = None \<longrightarrow> (if typ = '''' then gt_log g' = gt_log g
           else \<exists>en. AuditLog.append (pe_audit p) (pe_io p) (pe_time p) typ (opt_json answer_json body) (gt_log g) = (Inr en, gt_log g')))"
proof -
  obtain r g1 where h: "handle (pe_handle p) i cls signer g = (r, g1)" by fastforce
  have f: "gt_log g1 = gt_log g" "\<not> was_seen (i_iid i) (gt_ledger g1)"
    using handle_frame [OF h] assms(2) by (simp_all add: was_seen_iff)
  show ?thesis
  proof (cases r)
    case (Inl x)
    moreover have "fst (failure_answer i x) \<noteq> ''''" by (simp add: failure_answer_def Let_def)
    ultimately show ?thesis using assms(1) h f
      by (auto simp: process_def Let_def split: prod.splits option.splits sum.splits if_splits)
  next
    case (Inr a)
    then show ?thesis using assms(1) h f
      by ((auto simp: process_def Let_def was_seen_after_seen split: prod.splits option.splits sum.splits if_splits), metis)
  qed
qed

subsection \<open>Offers\<close>

text \<open>An offer is answered ready, and stored, exactly when its file is present with the offered
  hash, unchanged, with a hash for every block and inside the ceiling; otherwise it is refused with
  the first reason that applies and the ledger is as before. Withdrawing is always accepted.\<close>

theorem offer_ready_iff:
  assumes "hv_seen_fault h = None" and "hv_file_fault h = None" and "hv_offer_fault h = None"
    and "\<not> was_seen (i_iid i) (gt_ledger g)" and "i_op i = ''offer'' \<or> i_op i = ''unoffer''"
  shows "\<exists>v. handle h i cls signer g
      = (Inr (''offer_ack'', Some (AnsOffer v)), if oa_ready v then g\<lparr>gt_ledger := put_offer (offer_from i) (gt_ledger g)\<rparr> else g)
    \<and> (oa_ready v \<longleftrightarrow> i_op i = ''unoffer'' \<or> (\<exists>f. file_of (i_fid i) (gt_ledger g) = Some f \<and> file_present f \<and> fl_sha f = i_sha i
        \<and> \<not> file_changed f \<and> valid_blocks f \<and> within_ceiling (hv_glob h) (hv_real h) (gt_config g) f))
    \<and> (oa_ready v \<longleftrightarrow> oa_refusal v = None) \<and> oa_iid v = i_iid i \<and> oa_fid v = i_fid i
    \<and> (\<forall>r. oa_refusal v = Some r \<longrightarrow> r \<in> {''file_missing'', ''file_changed'', ''outside_ceiling''})"
proof -
  let ?d = "offer_decision h i g"
  have d: "?d = '''' \<longleftrightarrow> (\<exists>f. file_of (i_fid i) (gt_ledger g) = Some f \<and> file_present f \<and> fl_sha f = i_sha i
        \<and> \<not> file_changed f \<and> valid_blocks f \<and> within_ceiling (hv_glob h) (hv_real h) (gt_config g) f)"
    "?d \<in> {'''', ''file_missing'', ''file_changed'', ''outside_ceiling''}"
    using assms(2) by (auto simp: offer_decision_def split: option.splits)
  have "handle h i cls signer g = handle_offer h i g" using assms(1,4,5) by (simp add: handle_def)
  then show ?thesis using assms(3,5) d
    by (cases "i_op i = ''offer''") (auto simp: handle_offer_def Let_def)
qed

subsection \<open>The pause between connections\<close>

lemma backoff_range: "second \<le> b \<Longrightarrow> b \<le> 60 * second \<Longrightarrow> second \<le> next_backoff b \<and> next_backoff b \<le> 60 * second"
  by (auto simp: next_backoff_def second_def)

lemma reconnect_delay_range: "second \<le> reconnect_delay b j \<and> reconnect_delay b j \<le> 60 * second"
  by (auto simp: reconnect_delay_def second_def)

subsection \<open>An entry the server cannot take\<close>

text \<open>Append takes any size for entries other than scan reports, but an entry of more than one MiB is
  never sent: every connection ends at it, so nothing after it reaches the server.\<close>

lemma oversized_entry_blocks:
  assumes "log_state ae L ps" and "big < length (lines_of ps)" and "max_message < length (lines_of ps ! big)" and "sent \<le> big"
    and "send_new ae fault sent (L, disk_of ps) = (e, sent', LD, out)"
  shows "e \<noteq> None \<and> sent' \<le> big"
proof -
  have lt: "big < al_seq L" using assms(1,2) by (simp add: log_state_def log_ok_def)
  have "e \<noteq> None \<and> sent' \<le> big" if "log_state ae L ps" "al_seq L = al_seq L0" "big < n + sent" "n + sent \<le> al_seq L" "sent \<le> big"
      "send_loop ae fault n sent (L, disk_of ps) out0 = (e, sent', LD, out)" for n L L0 sent out0
    using that
  proof (induction n arbitrary: L sent out0)
    case 0
    then show ?case by simp
  next
    case (Suc n)
    obtain L1 where r: "read_entry ae (sent + 1) (L, disk_of ps) = (Inr (entry_at ae ps (sent + 1)), L1)"
      "log_state ae L1 ps" "al_seq L1 = al_seq L"
      by (rule read_line_at [OF Suc.prems(1), of "sent + 1"]) (use Suc.prems(4) in simp_all)
    have line: "canonical (entry_json (entry_at ae ps (sent + 1))) = lines_of ps ! sent"
      using entry_at_line [OF Suc.prems(1), of "sent + 1"] Suc.prems(4) by simp
    show ?case
    proof (cases "length (lines_of ps ! sent) > max_message \<or> fault sent \<noteq> None")
      case True
      then have "sent' = sent \<and> e \<noteq> None"
        using Suc.prems(6) r(1) line by (cases "fault sent") (auto simp: Let_def split: if_splits, metis)
      with Suc.prems(5) show ?thesis by simp
    next
      case False
      then have "send_loop ae fault n (sent + 1) (L1, disk_of ps) (out0 @ [lines_of ps ! sent]) = (e, sent', LD, out)" "sent \<noteq> big"
        using Suc.prems(6) r(1) line assms(3) by (auto simp: Let_def split: if_splits)
      from Suc.IH [OF r(2) _ _ _ _ this(1)] this(2) Suc.prems(2-5) r(3) show ?thesis by simp
    qed
  qed
  from this [of L L "al_seq L - sent" sent "[]"] show ?thesis
    using assms(1,4,5) lt by (simp add: send_new_def)
qed

subsection \<open>Examples\<close>

definition demo_gateway :: gateway where
  "demo_gateway = \<lparr>gt_config = demo_config, gt_ledger = door_ledger, gt_admissions = empty_vledger,
     gt_log = (demo_log1, disk_of [(0, [demo_line])]), gt_keys = demo_start, gt_previous = [], gt_generation = 0,
     gt_receipt = 0, gt_audit = 0\<rparr>"

definition demo_handle :: handle_env where
  "demo_handle = \<lparr>hv_glob = (\<lambda>_ _. False), hv_real = (\<lambda>_. Some ''r''), hv_profile = (\<lambda>_ _. Inl (ErrMsg ''no profile'')),
     hv_timed_out = False, hv_seconds = 0, hv_stamp = ''t'', hv_nanos = 0, hv_time = ke_time demo_keys_env,
     hv_seen_fault = None, hv_file_fault = None, hv_offer_fault = None, hv_tx = (None, None), hv_prepare_fault = None,
     hv_save = save_ok\<rparr>"

definition demo_process :: process_env where
  "demo_process = \<lparr>pe_handle = demo_handle, pe_cancelled = None, pe_audit = demo_env, pe_io = no_io, pe_time = ''t'',
     pe_complete_fault = None\<rparr>"

definition version_instruction :: instruction where
  "version_instruction = demo_instruction\<lparr>i_op := ''minimum_version'', i_version := ''2''\<rparr>"

definition offer_instruction :: instruction where
  "offer_instruction = demo_instruction\<lparr>i_op := ''offer'', i_fid := door_fid, i_sha := door_fid @ door_fid\<rparr>"

definition after_version :: gateway where
  "after_version = snd (process demo_process version_instruction ''listing'' ''k'' demo_gateway)"

lemma demo_not_seen: "\<not> was_seen i (gt_ledger demo_gateway)"
  by (simp add: was_seen_iff demo_gateway_def door_ledger_def empty_ledger_def)

lemma demo_handled: "fst (handle demo_handle version_instruction ''listing'' ''k'' demo_gateway) = Inr ('''', None)"
  by code_simp

lemma demo_processed: "process demo_process version_instruction ''listing'' ''k'' demo_gateway = (None, after_version)"
proof -
  have "fst (process demo_process version_instruction ''listing'' ''k'' demo_gateway) = None"
    using demo_handled by (auto simp: process_def demo_process_def split: prod.splits)
  then show ?thesis by (simp add: after_version_def prod_eq_iff)
qed

theorem done_never_again_witness:
  "process demo_process version_instruction ''scan'' ''other'' after_version = (None, after_version)"
  using done_never_again [OF demo_processed, of "('''', None)" after_version demo_sign "[]" version_instruction demo_process] demo_handled
  by (simp add: run_ops_def demo_process_def demo_handle_def)

theorem done_after_answer_witness:
  "was_seen (i_iid version_instruction) (gt_ledger after_version) \<and> gt_log after_version = gt_log demo_gateway"
  using done_after_answer [OF demo_processed demo_not_seen] demo_handled
  by (simp add: demo_process_def)

theorem offer_ready_iff_witness:
  "snd (handle demo_handle offer_instruction ''listing'' ''k'' demo_gateway)
   = demo_gateway\<lparr>gt_ledger := put_offer (offer_from offer_instruction) door_ledger\<rparr>"
proof -
  have f: "file_of (i_fid offer_instruction) (gt_ledger demo_gateway) = Some door_file \<and> file_present door_file
      \<and> fl_sha door_file = i_sha offer_instruction \<and> \<not> file_changed door_file \<and> valid_blocks door_file
      \<and> within_ceiling (hv_glob demo_handle) (hv_real demo_handle) (gt_config demo_gateway) door_file"
    by code_simp
  obtain v where "handle demo_handle offer_instruction ''listing'' ''k'' demo_gateway
      = (Inr (''offer_ack'', Some (AnsOffer v)), if oa_ready v
          then demo_gateway\<lparr>gt_ledger := put_offer (offer_from offer_instruction) (gt_ledger demo_gateway)\<rparr> else demo_gateway)" "oa_ready v"

    using offer_ready_iff [of demo_handle offer_instruction demo_gateway "''listing''" "''k''"] demo_not_seen f
    by (auto simp: demo_handle_def offer_instruction_def)
  then show ?thesis by (simp add: demo_gateway_def)
qed

end
