(* ===== verification/ScanSpec.thy ===== *)
theory ScanSpec
  imports Control
begin

text \<open>
  internal/wire/verification.go, the scan part: the signed specification of a scan or a probe,
  the description D6, the snapshot of the source and the body of a scan report. The decoders of
  encoding/json and \<open>time.Parse\<close> come in \<open>scan_decoders\<close>; instants are nanoseconds. Every refusal
  is ErrVerification: None here.
\<close>

subsection \<open>Words and instants\<close>

text \<open>\<open>strings.Fields\<close> on names separated by blanks.\<close>

definition words :: "string \<Rightarrow> string list" where
  "words s = filter (\<lambda>w. w \<noteq> []) (split_on CHR '' '' s)"

text \<open>\<open>strings.Contains\<close>.\<close>

fun contains :: "string \<Rightarrow> string \<Rightarrow> bool" where
  "contains sub [] \<longleftrightarrow> sub = []"
| "contains sub (c # s) \<longleftrightarrow> has_prefix sub (c # s) \<or> contains sub s"

record scan_envelope =
  se_op :: string
  se_aud :: string
  se_iid :: string
  se_iat :: int
  se_runner :: string
  se_variant :: string
  se_spec_hash :: string
  se_payload :: string
  se_d6 :: string
  se_d6_hash :: string

record snapshot_member =
  sm_fid :: string
  sm_sha :: string
  sm_size :: int

record snapshot =
  sn_version :: string
  sn_kind :: string
  sn_gateway :: string
  sn_listing :: string
  sn_lvid :: string
  sn_source :: string
  sn_members :: "snapshot_member list"

record snapshot_wrapper =
  sw_aud :: string
  sw_runner :: string
  sw_hash :: string
  sw_payload :: string

record scan_decoders =
  sd_variant :: "bytes \<Rightarrow> gw_error + string"
  sd_envelope :: "bytes \<Rightarrow> gw_error + scan_envelope"
  sd_wrapper :: "bytes \<Rightarrow> gw_error + snapshot_wrapper"
  sd_snapshot :: "bytes \<Rightarrow> gw_error + snapshot"
  sd_time :: "string \<Rightarrow> int option"

text \<open>utc: an instant in UTC with whole microseconds.\<close>

definition utc :: "scan_decoders \<Rightarrow> string \<Rightarrow> int option" where
  "utc sd s = (case sd_time sd s of None \<Rightarrow> None
     | Some t \<Rightarrow> if \<not> has_suffix ''Z'' s \<or> t mod 1000 \<noteq> 0 then None else Some t)"

subsection \<open>The description D6\<close>

definition d6_fields :: "string list" where
  "d6_fields = words ''domain_class record_granularity temporal_scope update_cadence intended_use_tags known_limitation_tags''"

definition d6_enums :: "(string \<times> string) list" where
  "d6_enums =
    [(''domain_class'', ''education_learning software_technology business_finance health_life_sciences public_social physical_environment''),
     (''record_granularity'', ''entity event measurement document relationship aggregate''),
     (''temporal_scope'', ''current_snapshot historical_period time_series mixed_periods not_time_based''),
     (''update_cadence'', ''one_time irregular continuous daily weekly monthly quarterly yearly''),
     (''intended_use_tags'', ''analysis_reporting research_education machine_learning benchmarking reference_lookup operations_planning''),
     (''known_limitation_tags'', ''incomplete_coverage missing_values estimated_fields historical_cutoff sampled_source known_duplicates source_defined_categories'')]"

text \<open>A value is accepted when it occurs between blanks in the text of the allowed ones.\<close>

definition enum_value :: "string \<Rightarrow> string \<Rightarrow> bool" where
  "enum_value allowed s \<longleftrightarrow> contains ('' '' @ s @ '' '') ('' '' @ allowed @ '' '') \<and> s \<noteq> ''''"

text \<open>Tags are in strictly rising byte order.\<close>

fun tags_ok :: "string \<Rightarrow> string \<Rightarrow> json list \<Rightarrow> bool" where
  "tags_ok allowed prev [] \<longleftrightarrow> True"
| "tags_ok allowed prev (v # vs) \<longleftrightarrow> (case v of
      JStr s \<Rightarrow> enum_value allowed s \<and> ord_class.lexordp prev s \<and> tags_ok allowed s vs
    | _ \<Rightarrow> False)"

definition d6_field_ok :: "(string \<times> json) list \<Rightarrow> string \<times> string \<Rightarrow> bool" where
  "d6_field_ok m kv = (case kv of (k, allowed) \<Rightarrow>
     if has_suffix ''_tags'' k then
       (case map_of m k of Some (JArr vs) \<Rightarrow> length vs \<le> 5 \<and> tags_ok allowed '''' vs | _ \<Rightarrow> False)
     else (case map_of m k of Some (JStr s) \<Rightarrow> enum_value allowed s | _ \<Rightarrow> False))"

definition validate_d6 :: "documents \<Rightarrow> bytes \<Rightarrow> (string \<times> json) list option" where
  "validate_d6 dm raw =
     (case closed_object dm raw d6_fields of None \<Rightarrow> None
      | Some m \<Rightarrow> if length raw > 2048 then None
          else if list_all (d6_field_ok m) d6_enums then Some m else None)"

subsection \<open>The specification of a scan\<close>

definition probe_fields :: "string list" where
  "probe_fields = words ''spec_id spec_version probe_id listing_id source_handle_id listing_version_id runner_id source_kind manifest_hash owner_authorization_id accepted_at_utc issued_at_utc expires_at_utc nonce platform_key_id connector_type connector_version preview_requested''"

definition scan_fields :: "string list" where
  "scan_fields = words ''spec_id spec_version verification_id listing_id source_handle_id listing_version_id runner_id source_kind manifest_hash owner_authorization_id accepted_at_utc issued_at_utc expires_at_utc nonce platform_key_id connector_type connector_version preview_requested quote_id idempotency_key deterministic_seed requested_action wire_manifest_version corpus_disclosure_version payment_disclosure_version traversal_root traversal_order fingerprint_algorithm canonicalization_version approximate_distinct_algorithm output_contract depth_class field_contract bucket_definitions minimum_aggregate_occupancy low_occupancy_behavior row_count_algorithm_version histogram_version numeric_bucket_version d6_schema_version d6_sanitizer_policy_version hard_inference_budget cancellation_signal''"

definition envelope_fields :: "string \<Rightarrow> string list" where
  "envelope_fields variant = words ''op aud iid iat runner_id variant spec_hash payload_b64''
     @ (if variant = ''scan'' then [''d6_b64'', ''d6_hash''] else [])"

definition fixed_texts :: "(string \<times> string) list" where
  "fixed_texts = [(''requested_action'', ''start''), (''wire_manifest_version'', ''data-verification-wire-v1''),
     (''corpus_disclosure_version'', ''s1396-disclosure-v1''), (''payment_disclosure_version'', ''payment-disclosure-v1''),
     (''traversal_root'', ''registered_source_artifact''), (''traversal_order'', ''canonical_object_identity_ascending''),
     (''fingerprint_algorithm'', ''sha256''), (''canonicalization_version'', ''python-json-sort-compact-v1''),
     (''approximate_distinct_algorithm'', ''hll-sha256-v1''), (''output_contract'', ''data-verification-report-v1''),
     (''depth_class'', ''complete_standard_v1''), (''low_occupancy_behavior'', ''suppressed_low_occupancy''),
     (''row_count_algorithm_version'', ''exact-v1''), (''histogram_version'', ''fixed-buckets-v1''),
     (''numeric_bucket_version'', ''fixed-buckets-v1''), (''d6_schema_version'', ''d6-v1''),
     (''d6_sanitizer_policy_version'', ''nfkc-fixed-enum-v1'')]"

definition fixed_documents :: "(string \<times> string) list" where
  \<open>fixed_documents = [(''minimum_aggregate_occupancy'', ''10''),
     (''field_contract'', ''["coverage","objects.object_id","objects.column_names","objects.column_types","objects.null_rate","objects.approx_distinct_count","objects.length_histograms","objects.numeric_range_buckets","objects.row_count","objects.row_count_method","fingerprint_hash"]''),
     (''bucket_definitions'', ''{"numeric_boundaries":[-1000.0,-100.0,-10.0,0.0,10.0,100.0,1000.0],"string_length_upper_bounds":[0,1,4,8,16,32,64,128,256]}''),
     (''hard_inference_budget'', ''{"max_input_tokens":8192,"max_output_tokens":1024,"model_request_count":1}''),
     (''cancellation_signal'', ''{"cancelled":false,"kind":"signed_spec_flag"}'')]\<close>

record scan_job =
  sj_env :: scan_envelope
  sj_payload :: "(string \<times> json) list"
  sj_raw :: bytes
  sj_d6 :: "(string \<times> json) list option"
  sj_token :: string
  sj_kid :: string
  sj_accepted :: int
  sj_issued :: int
  sj_expires :: int

definition job_text :: "scan_job \<Rightarrow> string \<Rightarrow> string" where
  "job_text j k = text_field (sj_payload j) k"

text \<open>The window: accepted, then issued, then expiring within a day, all near now.\<close>

definition sec :: "int \<Rightarrow> int" where "sec n = n * 1000000000"

definition spec_window :: "scan_envelope \<Rightarrow> int \<Rightarrow> int \<Rightarrow> int \<Rightarrow> int \<Rightarrow> bool" where
  "spec_window a acc iss ex now \<longleftrightarrow> iss div 1000000000 = se_iat a \<and> acc \<le> iss \<and> iss < ex \<and> ex - iss \<le> sec 86400
     \<and> iss \<le> now + sec 300 \<and> now - sec 86400 - sec 300 \<le> iss \<and> now - sec 86400 - sec 300 \<le> acc \<and> now - sec 300 \<le> ex"

definition envelope_ok :: "scan_envelope \<Rightarrow> string \<Rightarrow> string \<Rightarrow> bool" where
  "envelope_ok a gateway runner \<longleftrightarrow> se_op a = ''scan_spec'' \<and> se_aud a = gateway \<and> valid_uuid (se_iid a)
     \<and> se_runner a = runner \<and> valid_uuid runner \<and> lower_hex 64 (se_spec_hash a)"

definition payload_ok :: "(string \<times> json) list \<Rightarrow> string \<Rightarrow> string \<Rightarrow> bool" where
  "payload_ok m runner kid \<longleftrightarrow>
     list_all (\<lambda>k. valid_uuid (text_field m k)) (words ''listing_id source_handle_id listing_version_id runner_id'')
     \<and> list_all (\<lambda>k. is_identifier (text_field m k)) (words ''spec_id owner_authorization_id platform_key_id nonce'')
     \<and> text_field m ''runner_id'' = runner \<and> text_field m ''platform_key_id'' = kid
     \<and> text_field m ''spec_version'' = ''1'' \<and> text_field m ''source_kind'' = ''gateway_listing''
     \<and> text_field m ''connector_type'' = ''aim_gateway'' \<and> text_field m ''connector_version'' = ''aim_gateway-v1''
     \<and> lower_hex 64 (text_field m ''manifest_hash'')
     \<and> (case map_of m ''preview_requested'' of Some (JBool b) \<Rightarrow> True | _ \<Rightarrow> False)
     \<and> (case decode_document (text_field m ''nonce'') 32 of None \<Rightarrow> False | Some b \<Rightarrow> length b = 32)"

definition scan_payload_ok :: "documents \<Rightarrow> (string \<times> json) list \<Rightarrow> string \<Rightarrow> bool" where
  "scan_payload_ok dm m version \<longleftrightarrow> valid_uuid (text_field m ''verification_id'') \<and> is_identifier (text_field m ''quote_id'')
     \<and> is_identifier (text_field m ''idempotency_key'') \<and> lower_hex 64 (text_field m ''deterministic_seed'')
     \<and> is_identifier version
     \<and> list_all (\<lambda>(k, v). text_field m k = v) fixed_texts
     \<and> list_all (\<lambda>(k, want). py_encode (dm_float dm) (case map_of m k of None \<Rightarrow> JNull | Some v \<Rightarrow> v) = Some want) fixed_documents"

definition spec_times :: "scan_decoders \<Rightarrow> (string \<times> json) list \<Rightarrow> (int \<times> int \<times> int) option" where
  "spec_times sd m =
     (case utc sd (text_field m ''accepted_at_utc'') of None \<Rightarrow> None
      | Some acc \<Rightarrow>
        (case utc sd (text_field m ''issued_at_utc'') of None \<Rightarrow> None
         | Some iss \<Rightarrow> (case utc sd (text_field m ''expires_at_utc'') of None \<Rightarrow> None | Some ex \<Rightarrow> Some (acc, iss, ex))))"

text \<open>What a scan needs beyond a probe: its fixed algorithms and the description.\<close>

definition spec_details :: "documents \<Rightarrow> string \<Rightarrow> scan_job \<Rightarrow> scan_job option" where
  "spec_details dm version j =
     (if se_variant (sj_env j) = ''probe'' then (if valid_uuid (job_text j ''probe_id'') then Some j else None)
      else if \<not> scan_payload_ok dm (sj_payload j) version then None
      else case decode_document (se_d6 (sj_env j)) 2048 of None \<Rightarrow> None
      | Some d6 \<Rightarrow>
        if dm_sha dm d6 \<noteq> se_d6_hash (sj_env j) then None
        else (case validate_d6 dm d6 of None \<Rightarrow> None | Some d \<Rightarrow> Some (j\<lparr>sj_d6 := Some d\<rparr>)))"

text \<open>The signed envelope and its payload.\<close>

definition spec_payload :: "documents \<Rightarrow> string \<Rightarrow> scan_envelope \<Rightarrow> (bytes \<times> (string \<times> json) list) option" where
  "spec_payload dm variant a =
     (case decode_document (se_payload a) 40960 of None \<Rightarrow> None
      | Some raw \<Rightarrow>
        if dm_sha dm raw \<noteq> se_spec_hash a then None
        else case closed_object dm raw (if variant = ''scan'' then scan_fields else probe_fields) of None \<Rightarrow> None
        | Some m \<Rightarrow> Some (raw, m))"

definition spec_envelope :: "'k crypto \<Rightarrow> decoders \<Rightarrow> documents \<Rightarrow> scan_decoders \<Rightarrow> string \<Rightarrow> (string \<times> bytes) list
    \<Rightarrow> (string \<times> string \<times> scan_envelope) option" where
  "spec_envelope cr dc dm sd token keys =
     (if length token > 65536 then None
      else case split_on CHR ''.'' token of
        [p0, p1, p2] \<Rightarrow>
          (case decode_document p1 65536 of None \<Rightarrow> None
           | Some outer \<Rightarrow>
             (case sd_variant sd outer of Inl _ \<Rightarrow> None
              | Inr variant \<Rightarrow>
                if variant \<noteq> ''scan'' \<and> variant \<noteq> ''probe'' then None
                else case verify_control cr dc dm (sd_envelope sd) token ''aim-scan-spec+jwt'' (envelope_fields variant) keys 65536 of
                  None \<Rightarrow> None | Some (kid, a) \<Rightarrow> Some (variant, kid, a)))
      | _ \<Rightarrow> None)"

text \<open>VerifyScan: the variant in the unverified payload only chooses the exact schema.\<close>

definition verify_scan :: "'k crypto \<Rightarrow> decoders \<Rightarrow> documents \<Rightarrow> scan_decoders \<Rightarrow> string \<Rightarrow> (string \<times> bytes) list
    \<Rightarrow> string \<Rightarrow> string \<Rightarrow> string \<Rightarrow> int \<Rightarrow> scan_job option" where
  "verify_scan cr dc dm sd token keys gateway runner version now =
     (case spec_envelope cr dc dm sd token keys of None \<Rightarrow> None
      | Some (variant, kid, a) \<Rightarrow>
        if \<not> envelope_ok a gateway runner then None
        else case spec_payload dm variant a of None \<Rightarrow> None
        | Some (raw, m) \<Rightarrow>
          if \<not> payload_ok m runner kid then None
          else case spec_times sd m of None \<Rightarrow> None
          | Some (acc, iss, ex) \<Rightarrow>
            if \<not> spec_window a acc iss ex now then None
            else spec_details dm version \<lparr>sj_env = a, sj_payload = m, sj_raw = raw, sj_d6 = None, sj_token = token,
                sj_kid = kid, sj_accepted = acc, sj_issued = iss, sj_expires = ex\<rparr>)"

subsection \<open>The snapshot of the source\<close>

definition max_snapshot :: nat where "max_snapshot = 16777216"

definition member_closed :: "documents \<Rightarrow> json \<Rightarrow> bool" where
  "member_closed dm v = (case py_encode (dm_float dm) v of None \<Rightarrow> False
     | Some b \<Rightarrow> closed_object dm b [''file_id'', ''sha256'', ''size_bytes''] \<noteq> None)"

fun members_rising :: "string \<Rightarrow> snapshot_member list \<Rightarrow> bool" where
  "members_rising prev [] \<longleftrightarrow> True"
| "members_rising prev (m # ms) \<longleftrightarrow> lower_hex 32 (sm_fid m) \<and> lower_hex 64 (sm_sha m) \<and> 0 \<le> sm_size m
     \<and> ord_class.lexordp prev (sm_fid m) \<and> members_rising (sm_fid m) ms"

definition verify_snapshot :: "'k crypto \<Rightarrow> decoders \<Rightarrow> documents \<Rightarrow> scan_decoders \<Rightarrow> string \<Rightarrow> (string \<times> bytes) list
    \<Rightarrow> scan_job \<Rightarrow> snapshot option" where
  "verify_snapshot cr dc dm sd token keys j =
     (case verify_control cr dc dm (sd_wrapper sd) token ''aim-scan-snapshot+jwt''
         [''aud'', ''runner_id'', ''manifest_hash'', ''payload_b64''] keys max_snapshot of
        None \<Rightarrow> None
      | Some (_, w) \<Rightarrow>
        if sw_aud w \<noteq> se_aud (sj_env j) \<or> sw_runner w \<noteq> se_runner (sj_env j) \<or> sw_hash w \<noteq> job_text j ''manifest_hash'' then None
        else case decode_document (sw_payload w) max_snapshot of None \<Rightarrow> None
        | Some raw \<Rightarrow>
          if dm_sha dm raw \<noteq> sw_hash w then None
          else case closed_object dm raw (words ''snapshot_version source_kind gateway_id listing_id listing_version_id source_handle_id members'') of
            None \<Rightarrow> None
          | Some m \<Rightarrow>
            (case map_of m ''members'' of
               Some (JArr vs) \<Rightarrow>
                 if vs = [] \<or> length vs > 100000 \<or> \<not> list_all (member_closed dm) vs then None
                 else (case sd_snapshot sd raw of Inl _ \<Rightarrow> None
                   | Inr s \<Rightarrow>
                     if sn_version s = ''verification-source-snapshot-v1'' \<and> sn_kind s = ''gateway_listing''
                       \<and> sn_gateway s = se_aud (sj_env j) \<and> sn_listing s = job_text j ''listing_id''
                       \<and> sn_lvid s = job_text j ''listing_version_id'' \<and> sn_source s = job_text j ''source_handle_id''
                       \<and> members_rising '''' (sn_members s) then Some s else None)
             | _ \<Rightarrow> None))"

subsection \<open>The body of a scan report\<close>

definition max_scan_document :: nat where "max_scan_document = 716800"

definition register_fields :: "string list" where
  "register_fields = words ''op variant gateway_id scanner_version image_digest receipt_public_key registration_nonce registered_at_utc key_proof''"

definition report_fields :: "string list" where
  "report_fields = words ''op variant runner_id iid document_b64''"

definition exact_document :: "(string \<times> json) list \<Rightarrow> string \<times> nat \<Rightarrow> bool" where
  "exact_document m kn = (case decode_document (text_field m (fst kn)) (snd kn) of None \<Rightarrow> False
     | Some b \<Rightarrow> length b = snd kn)"

definition register_ok :: "scan_decoders \<Rightarrow> (string \<times> json) list \<Rightarrow> bool" where
  "register_ok sd m \<longleftrightarrow> valid_uuid (text_field m ''gateway_id'') \<and> is_identifier (text_field m ''scanner_version'')
     \<and> has_prefix ''sha256:'' (text_field m ''image_digest'')
     \<and> lower_hex 64 (trim_prefix ''sha256:'' (text_field m ''image_digest''))
     \<and> list_all (exact_document m) [(''receipt_public_key'', 32), (''registration_nonce'', 32), (''key_proof'', 64)]
     \<and> utc sd (text_field m ''registered_at_utc'') \<noteq> None"

definition validate_scan_report :: "documents \<Rightarrow> scan_decoders \<Rightarrow> bytes \<Rightarrow> bool" where
  "validate_scan_report dm sd raw =
     (case sd_variant sd raw of Inl _ \<Rightarrow> False
      | Inr variant \<Rightarrow>
        (case closed_object dm raw (if variant = ''register'' then register_fields else report_fields) of None \<Rightarrow> False
         | Some m \<Rightarrow>
           map_of m ''op'' = Some (JStr ''scan_report'')
           \<and> (if variant = ''register'' then register_ok sd m
              else variant \<in> {''scan'', ''probe'', ''terminal''} \<and> valid_uuid (text_field m ''runner_id'')
                \<and> valid_uuid (text_field m ''iid'')
                \<and> (case decode_document (text_field m ''document_b64'') max_scan_document of None \<Rightarrow> False
                   | Some b \<Rightarrow> parse_canonical (dm_lex dm) (dm_float dm) b \<noteq> None))))"

end
