(* ===== verification/ScanProps.thy ===== *)
theory ScanProps
  imports ScanSpec PyProps
begin

text \<open>
  What an accepted scan specification and an accepted snapshot are: signed, addressed to this
  gateway and runner, within their window, with exactly the fields of their variant; and the
  members of the source are fixed by the hash in the specification.
\<close>

subsection \<open>Closed objects\<close>

text \<open>A closed object has exactly the named fields.\<close>

lemma closed_objectD:
  assumes "closed_object dm raw names = Some m"
  shows "parse_canonical (dm_lex dm) (dm_float dm) raw = Some (JObj m)" and "length m = length names"
    and "\<And>n. n \<in> set names \<Longrightarrow> field m n \<noteq> None"
  using assms by (auto simp: closed_object_def list_all_iff split: option.splits json.splits if_splits)

lemma closed_fields:
  assumes "closed_object dm raw names = Some m" and "distinct names"
  shows "set (map fst m) = set names"
proof -
  note c = closed_objectD [OF assms(1)]
  have sub: "set names \<subseteq> set (map fst m)"
  proof
    fix n assume "n \<in> set names"
    then have "map_of m n \<noteq> None" using c(3) [of n] by (auto simp: field_def split: option.splits)
    then show "n \<in> set (map fst m)" by (simp add: map_of_eq_None_iff)
  qed
  have "card (set (map fst m)) \<le> card (set names)"
    using card_length [of "map fst m"] c(2) assms(2) by (simp add: distinct_card)
  with sub show ?thesis by (metis card_seteq List.finite_set)
qed

lemma parse_canonical_inj:
  "parse_canonical lx fl x = Some v \<Longrightarrow> parse_canonical lx fl y = Some v \<Longrightarrow> x = y"
  by (auto simp: parse_canonical_def split: option.splits if_splits)

lemma field_names_distinct: "distinct scan_fields" "distinct probe_fields"
  by code_simp+

subsection \<open>Specifications\<close>

lemma spec_envelopeE:
  assumes "spec_envelope cr dc dm sd token keys = Some (variant, kid, a)"
  obtains p0 p1 p2 outer where "split_on CHR ''.'' token = [p0, p1, p2]" "decode_document p1 65536 = Some outer"
    "sd_variant sd outer = Inr variant" "variant = ''scan'' \<or> variant = ''probe''"
    "verify_control cr dc dm (sd_envelope sd) token ''aim-scan-spec+jwt'' (envelope_fields variant) keys 65536 = Some (kid, a)"
  using assms unfolding spec_envelope_def
  by (auto split: if_splits list.splits option.splits sum.splits)

lemma spec_payloadD:
  assumes "spec_payload dm variant a = Some (raw, m)"
  shows "dm_sha dm raw = se_spec_hash a \<and> closed_object dm raw (if variant = ''scan'' then scan_fields else probe_fields) = Some m"
  using assms unfolding spec_payload_def by (simp split: option.splits if_splits)

lemma spec_detailsD:
  "spec_details dm version j = Some j' \<Longrightarrow> sj_env j' = sj_env j \<and> sj_payload j' = sj_payload j \<and> sj_raw j' = sj_raw j
    \<and> sj_token j' = sj_token j \<and> sj_kid j' = sj_kid j \<and> sj_accepted j' = sj_accepted j \<and> sj_issued j' = sj_issued j
    \<and> sj_expires j' = sj_expires j"
  by (auto simp: spec_details_def split: if_splits option.splits)

lemma verify_scanE:
  assumes "verify_scan cr dc dm sd token keys gateway runner version now = Some j"
  obtains variant where "spec_envelope cr dc dm sd token keys = Some (variant, sj_kid j, sj_env j)"
    "envelope_ok (sj_env j) gateway runner" "spec_payload dm variant (sj_env j) = Some (sj_raw j, sj_payload j)"
    "payload_ok (sj_payload j) runner (sj_kid j)" "spec_window (sj_env j) (sj_accepted j) (sj_issued j) (sj_expires j) now"
    "sj_token j = token"
proof -
  obtain variant kid a raw m acc iss ex where s: "spec_envelope cr dc dm sd token keys = Some (variant, kid, a)"
    "envelope_ok a gateway runner" "spec_payload dm variant a = Some (raw, m)" "payload_ok m runner kid"
    "spec_window a acc iss ex now"
    "spec_details dm version \<lparr>sj_env = a, sj_payload = m, sj_raw = raw, sj_d6 = None, sj_token = token,
        sj_kid = kid, sj_accepted = acc, sj_issued = iss, sj_expires = ex\<rparr> = Some j"
    using assms unfolding verify_scan_def by (auto split: option.splits if_splits)
  from spec_detailsD [OF s(6)] s(1-5) that show thesis by simp
qed

text \<open>Decoding the claims gives the variant that decoding it alone gives.\<close>

definition decodes_variant :: "scan_decoders \<Rightarrow> bool" where
  "decodes_variant sd \<longleftrightarrow> (\<forall>raw a. sd_envelope sd raw = Inr a \<longrightarrow> sd_variant sd raw = Inr (se_variant a))"

lemma verify_token_payload:
  assumes "verify_token cr dc dec token typ keys = Inr x" and "split_on CHR ''.'' token = [p0, p1, p2]"
  shows "\<exists>raw. b64_decode p1 = Some raw \<and> dec raw = Inr x"
  using assms by (auto simp: verify_token_def verify_payload_def b64_res_def bind_res_Inr Let_def split: if_splits option.splits)

text \<open>C23: An accepted specification is signed as one, names this gateway and this runner and the key
  that signed it, carries the document its hash commits to, with exactly the fields of its variant,
  and is used between its issue and its expiry, at most a day apart, give or take five minutes.\<close>

theorem accepted_scan_sound:
  assumes "verify_scan cr dc dm sd token keys gateway runner version now = Some j" and "decodes_variant sd"
  shows "verify_token cr dc (sd_envelope sd) token ''aim-scan-spec+jwt'' keys = Inr (sj_env j)
    \<and> se_aud (sj_env j) = gateway \<and> se_runner (sj_env j) = runner \<and> job_text j ''runner_id'' = runner
    \<and> job_text j ''platform_key_id'' = sj_kid j \<and> dm_sha dm (sj_raw j) = se_spec_hash (sj_env j)
    \<and> se_variant (sj_env j) \<in> {''scan'', ''probe''}
    \<and> set (map fst (sj_payload j)) = set (if se_variant (sj_env j) = ''scan'' then scan_fields else probe_fields)
    \<and> sj_accepted j \<le> sj_issued j \<and> sj_issued j < sj_expires j \<and> sj_expires j \<le> sj_issued j + sec 86400
    \<and> sj_issued j \<le> now + sec 300 \<and> now \<le> sj_expires j + sec 300"
proof -
  obtain variant where s: "spec_envelope cr dc dm sd token keys = Some (variant, sj_kid j, sj_env j)"
    "envelope_ok (sj_env j) gateway runner" "spec_payload dm variant (sj_env j) = Some (sj_raw j, sj_payload j)"
    "payload_ok (sj_payload j) runner (sj_kid j)" "spec_window (sj_env j) (sj_accepted j) (sj_issued j) (sj_expires j) now"
    by (rule verify_scanE [OF assms(1)])
  obtain p0 p1 p2 outer where v: "split_on CHR ''.'' token = [p0, p1, p2]" "decode_document p1 65536 = Some outer"
    "sd_variant sd outer = Inr variant" "variant = ''scan'' \<or> variant = ''probe''"
    "verify_control cr dc dm (sd_envelope sd) token ''aim-scan-spec+jwt'' (envelope_fields variant) keys 65536 = Some (sj_kid j, sj_env j)"
    by (rule spec_envelopeE [OF s(1)])
  note p = spec_payloadD [OF s(3)]
  have tok: "verify_token cr dc (sd_envelope sd) token ''aim-scan-spec+jwt'' keys = Inr (sj_env j)"
    using verify_controlE [OF v(5)] by metis
  have "sd_envelope sd outer = Inr (sj_env j)"
    using verify_token_payload [OF tok v(1)] decode_documentD [OF v(2)] by simp
  then have variant: "se_variant (sj_env j) = variant" using assms(2) v(3) by (simp add: decodes_variant_def)
  have "distinct (if variant = ''scan'' then scan_fields else probe_fields)" using field_names_distinct by simp
  then have fields: "set (map fst (sj_payload j)) = set (if variant = ''scan'' then scan_fields else probe_fields)"
    using closed_fields p by blast
  show ?thesis
    using tok variant fields v(4) p s(2,4,5)
    by (auto simp: envelope_ok_def payload_ok_def spec_window_def job_text_def)
qed

subsection \<open>Snapshots\<close>

lemma verify_snapshotE:
  assumes "verify_snapshot cr dc dm sd token keys j = Some s"
  obtains kid w raw where "verify_control cr dc dm (sd_wrapper sd) token ''aim-scan-snapshot+jwt''
      [''aud'', ''runner_id'', ''manifest_hash'', ''payload_b64''] keys max_snapshot = Some (kid, w)"
    "dm_sha dm raw = job_text j ''manifest_hash''" "sd_snapshot sd raw = Inr s" "members_rising '''' (sn_members s)"
    "sn_gateway s = se_aud (sj_env j)" "sn_listing s = job_text j ''listing_id''" "sn_lvid s = job_text j ''listing_version_id''"
  using assms unfolding verify_snapshot_def
  by (auto split: if_splits list.splits option.splits sum.splits json.splits prod.splits)

lemma lexordp_trans_str: "ord_class.lexordp x y \<Longrightarrow> ord_class.lexordp y z \<Longrightarrow> ord_class.lexordp x (z :: string)"
  by (rule lexordp_trans)

lemma members_rising_sorted:
  "members_rising prev ms \<Longrightarrow> sorted_wrt (\<lambda>a b. ord_class.lexordp (sm_fid a) (sm_fid b)) ms
    \<and> (\<forall>m \<in> set ms. ord_class.lexordp prev (sm_fid m) \<and> lower_hex 32 (sm_fid m) \<and> lower_hex 64 (sm_sha m) \<and> 0 \<le> sm_size m)"
  by (induction prev ms rule: members_rising.induct) (auto intro: lexordp_trans_str)

lemma lexordp_irrefl_str: "\<not> ord_class.lexordp x (x :: string)"
  by (rule lexordp_irreflexive) simp

lemma rising_distinct:
  assumes "sorted_wrt (\<lambda>a b. ord_class.lexordp (sm_fid a) (sm_fid b)) ms"
  shows "distinct (map sm_fid ms)"
proof -
  have "sorted_wrt (\<lambda>a b. sm_fid a \<noteq> sm_fid b) ms"
    by (rule sorted_wrt_mono_rel [OF _ assms]) (auto simp: lexordp_irrefl_str)
  then show ?thesis by (simp add: distinct_conv_nth sorted_wrt_iff_nth_less) (metis linorder_neqE_nat)
qed

text \<open>C24: The snapshot of a specification is unique: whatever tokens, keys and moments, two accepted
  snapshots for one job are the same, if no two documents collide under the hash. Its members are
  listed once each in byte order of their identifiers, with well-formed hashes and sizes.\<close>

theorem snapshot_commits:
  assumes "verify_snapshot cr dc dm sd token keys j = Some s" and "verify_snapshot cr dc dm sd token' keys' j = Some s'"
    and "\<forall>x y. dm_sha dm x = dm_sha dm y \<longrightarrow> x = y"
  shows "s = s' \<and> distinct (map sm_fid (sn_members s))
    \<and> sorted_wrt (\<lambda>a b. ord_class.lexordp (sm_fid a) (sm_fid b)) (sn_members s)
    \<and> (\<forall>m \<in> set (sn_members s). lower_hex 32 (sm_fid m) \<and> lower_hex 64 (sm_sha m) \<and> 0 \<le> sm_size m)"
proof -
  obtain raw where r: "dm_sha dm raw = job_text j ''manifest_hash''" "sd_snapshot sd raw = Inr s" "members_rising '''' (sn_members s)"
    using verify_snapshotE [OF assms(1)] by metis
  obtain raw' where r': "dm_sha dm raw' = job_text j ''manifest_hash''" "sd_snapshot sd raw' = Inr s'"
    using verify_snapshotE [OF assms(2)] by metis
  have "raw = raw'" using assms(3) r(1) r'(1) by metis
  then have "s = s'" using r(2) r'(2) by simp
  moreover note members_rising_sorted [OF r(3)] rising_distinct
  ultimately show ?thesis by blast
qed

subsection \<open>The description D6\<close>

text \<open>A value is looked up in the text of the allowed ones, so neighbours joined by a blank pass
  for one value.\<close>

lemma d6_accepts_neighbours:
  "enum_value ''entity event measurement document relationship aggregate'' ''entity event''
   \<and> enum_value ''one_time irregular continuous daily weekly monthly quarterly yearly'' ''daily weekly monthly''"
  by code_simp

subsection \<open>Examples\<close>

definition zeros :: "nat \<Rightarrow> string" where "zeros n = replicate n CHR ''0''"

definition demo_id :: string where "demo_id = ''01234567-89ab-cdef-0123-456789abcdef''"

definition demo_nonce :: string where "demo_nonce = b64_encode (zeros 32)"

definition probe_payload :: "(string \<times> json) list" where
  "probe_payload = [(''accepted_at_utc'', JStr ''1Z''), (''connector_type'', JStr ''aim_gateway''),
     (''connector_version'', JStr ''aim_gateway-v1''), (''expires_at_utc'', JStr ''3Z''), (''issued_at_utc'', JStr ''2Z''),
     (''listing_id'', JStr demo_id), (''listing_version_id'', JStr demo_id), (''manifest_hash'', JStr (zeros 64)),
     (''nonce'', JStr demo_nonce), (''owner_authorization_id'', JStr ''a1''), (''platform_key_id'', JStr ''k1''),
     (''preview_requested'', JBool False), (''probe_id'', JStr demo_id), (''runner_id'', JStr demo_id),
     (''source_handle_id'', JStr demo_id), (''source_kind'', JStr ''gateway_listing''), (''spec_id'', JStr ''s1''),
     (''spec_version'', JStr ''1'')]"

definition probe_envelope :: scan_envelope where
  "probe_envelope = \<lparr>se_op = ''scan_spec'', se_aud = demo_id, se_iid = demo_id, se_iat = 2, se_runner = demo_id, se_variant = ''probe'',
     se_spec_hash = zeros 64, se_payload = b64_encode (canonical (JObj probe_payload)), se_d6 = '''', se_d6_hash = ''''\<rparr>"

definition probe_claims :: "(string \<times> json) list" where
  "probe_claims = [(''aud'', JStr demo_id), (''iat'', JNum ''2''), (''iid'', JStr demo_id), (''op'', JStr ''scan_spec''),
     (''payload_b64'', JStr (se_payload probe_envelope)), (''runner_id'', JStr demo_id), (''spec_hash'', JStr (zeros 64)),
     (''variant'', JStr ''probe'')]"

definition envelope_keys :: "string list" where
  "envelope_keys = [''aud'', ''iat'', ''iid'', ''op'', ''payload_b64'', ''runner_id'', ''spec_hash'', ''variant'']"

definition probe_decoders :: scan_decoders where
  "probe_decoders = \<lparr>sd_variant = (\<lambda>_. Inr ''probe''), sd_envelope = (\<lambda>_. Inr probe_envelope), sd_wrapper = (\<lambda>_. Inl ErrStorage),
     sd_snapshot = (\<lambda>_. Inl ErrStorage), sd_time = map_of [(''1Z'', sec 1), (''2Z'', sec 2), (''3Z'', sec 3)]\<rparr>"

definition probe_documents :: documents where
  "probe_documents = plain_documents (\<lambda>_. zeros 64)"

definition probe_token :: string where
  "probe_token = made_token ''aim-scan-spec+jwt'' (JObj probe_claims)"

definition probe_job :: scan_job where
  "probe_job = \<lparr>sj_env = probe_envelope, sj_payload = probe_payload, sj_raw = canonical (JObj probe_payload), sj_d6 = None,
     sj_token = probe_token, sj_kid = ''k1'', sj_accepted = sec 1, sj_issued = sec 2, sj_expires = sec 3\<rparr>"

lemma demo_texts: "plain demo_id \<and> valid_uuid demo_id \<and> plain (zeros 64) \<and> lower_hex 64 (zeros 64)"
  by code_simp

lemma demo_nonce_facts: "plain demo_nonce" "is_identifier demo_nonce" "decode_document demo_nonce 32 = Some (zeros 32)" "length demo_nonce = 43"
proof -
  show "length demo_nonce = 43" by (simp add: demo_nonce_def b64_encode_length zeros_def encoded_len_def)
  then show "is_identifier demo_nonce" using b64_identifier_chars by (simp add: is_identifier_def demo_nonce_def)
  show "plain demo_nonce" by (simp add: demo_nonce_def b64_plain)
  show "decode_document demo_nonce 32 = Some (zeros 32)" by (simp add: demo_nonce_def decode_document_encode zeros_def)
qed

lemma probe_keys: "sorted (map fst probe_payload) \<and> distinct (map fst probe_payload)
    \<and> list_all (\<lambda>(k, v). plain k) probe_payload \<and> list_all (\<lambda>n. n \<in> fst ` set probe_payload) probe_fields
    \<and> length probe_payload = length probe_fields"
  by code_simp

lemma probe_plain: "plain_json (JObj probe_payload)"
proof -
  have "list_all (\<lambda>(k, v). plain k \<and> plain_json v) probe_payload"
    using demo_texts demo_nonce_facts by (simp add: probe_payload_def plain_def plain_char_def)
  then show ?thesis using probe_keys by simp
qed

lemma demo_sizes: "length demo_id = 36" "length (zeros n) = n"
  by (simp_all add: demo_id_def zeros_def)

lemma probe_payload_size: "length (canonical (JObj probe_payload)) \<le> 900"
  using length_canonical [OF probe_plain] demo_nonce_facts(4) by (simp add: probe_payload_def demo_sizes)

lemma fields_present:
  assumes "list_all (\<lambda>n. n \<in> set (map fst m)) names" and "list_all (\<lambda>kv. snd kv \<noteq> JNull) m"
  shows "list_all (\<lambda>n. field m n \<noteq> None) names"
proof -
  have "field m n \<noteq> None" if "n \<in> set names" for n
  proof -
    have "map_of m n \<noteq> None" using assms(1) that by (auto simp: list_all_iff map_of_eq_None_iff)
    then obtain v where v: "map_of m n = Some v" by blast
    then have "v \<noteq> JNull" using assms(2) by (auto simp: list_all_iff dest!: map_of_SomeD)
    with v show ?thesis by (simp add: field_def split: json.splits)
  qed
  then show ?thesis by (simp add: list_all_iff)
qed

lemma probe_claims_keys: "map fst probe_claims = envelope_keys"
  by (simp add: probe_claims_def envelope_keys_def)

lemma envelope_keys_facts: "sorted envelope_keys \<and> distinct envelope_keys \<and> list_all plain envelope_keys
    \<and> length envelope_keys = length (envelope_fields ''probe'') \<and> list_all (\<lambda>n. n \<in> set envelope_keys) (envelope_fields ''probe'')"
  by code_simp

lemma probe_claims_plain: "plain_json (JObj probe_claims)"
proof -
  have "plain_number ''2'' \<and> plain ''scan_spec'' \<and> plain ''probe''" by code_simp
  moreover have "plain (se_payload probe_envelope)" by (simp add: probe_envelope_def b64_plain)
  ultimately have "list_all (\<lambda>kv. plain_json (snd kv)) probe_claims" using demo_texts by (simp add: probe_claims_def)
  moreover have "list_all (\<lambda>kv. plain (fst kv)) probe_claims"
    using envelope_keys_facts unfolding probe_claims_keys [symmetric] by (simp add: list_all_iff)
  ultimately have "list_all (\<lambda>(k, v). plain k \<and> plain_json v) probe_claims" by (auto simp: list_all_iff)
  then show ?thesis using envelope_keys_facts by (simp add: probe_claims_keys)
qed

lemma probe_claims_size: "length (canonical (JObj probe_claims)) \<le> 1600"
proof -
  have "encoded_len (length (canonical (JObj probe_payload))) \<le> encoded_len 900"
    using probe_payload_size unfolding encoded_len_def by (intro div_le_mono) simp
  then show ?thesis
    using length_canonical [OF probe_claims_plain]
    by (simp add: probe_claims_def probe_envelope_def demo_sizes b64_encode_length encoded_len_def)
qed

lemma spec_typ: "plain ''aim-scan-spec+jwt''"
  by code_simp

lemma probe_token_size: "length probe_token \<le> 4096"
proof -
  have "encoded_len (length (canonical (JObj probe_claims))) \<le> encoded_len 1600"
    using probe_claims_size unfolding encoded_len_def by (intro div_le_mono) simp
  then show ?thesis using made_token_length [OF spec_typ, of "JObj probe_claims"] by (simp add: probe_token_def encoded_len_def)
qed

lemma probe_envelope_read:
  "spec_envelope fixed_crypto (header_decoders ''aim-scan-spec+jwt'') probe_documents probe_decoders probe_token [(''k1'', fixed_key)]
    = Some (''probe'', ''k1'', probe_envelope)"
proof -
  have present: "list_all (\<lambda>n. field probe_claims n \<noteq> None) (envelope_fields ''probe'')"
    by (rule fields_present) (use envelope_keys_facts in \<open>simp add: probe_claims_keys\<close>, simp add: probe_claims_def)
  have fields: "length probe_claims = length (envelope_fields ''probe'')"
    using envelope_keys_facts by (simp flip: probe_claims_keys)
  have nesting: "nesting (JObj probe_claims) \<le> 32" by (simp add: probe_claims_def)
  have "verify_control fixed_crypto (header_decoders ''aim-scan-spec+jwt'') probe_documents (sd_envelope probe_decoders) probe_token
      ''aim-scan-spec+jwt'' (envelope_fields ''probe'') [(''k1'', fixed_key)] 65536 = Some (''k1'', probe_envelope)"
    unfolding probe_token_def
    by (rule made_token_accepted [OF spec_typ])
      (use fields present probe_claims_plain probe_token_size probe_claims_size nesting in
        \<open>simp_all add: probe_decoders_def probe_documents_def plain_documents_def probe_token_def\<close>)
  then show ?thesis
    using probe_token_size probe_claims_size decode_document_encode [of "canonical (JObj probe_claims)" 65536]
      made_token_parts [of "''aim-scan-spec+jwt''" "JObj probe_claims"]
    by (simp add: spec_envelope_def probe_token_def probe_decoders_def)
qed

lemma probe_accepted:
  "verify_scan fixed_crypto (header_decoders ''aim-scan-spec+jwt'') probe_documents probe_decoders probe_token [(''k1'', fixed_key)]
     demo_id demo_id ''1.0'' (sec 2) = Some probe_job"
proof -
  have env: "envelope_ok probe_envelope demo_id demo_id" using demo_texts by (simp add: envelope_ok_def probe_envelope_def)
  have present: "list_all (\<lambda>n. field probe_payload n \<noteq> None) probe_fields"
    by (rule fields_present) (use probe_keys in simp, simp add: probe_payload_def)
  have nesting: "nesting (JObj probe_payload) \<le> 32" by (simp add: probe_payload_def)
  have "closed_object probe_documents (canonical (JObj probe_payload)) probe_fields = Some probe_payload"
    by (rule closed_plain [OF probe_plain])
      (use present probe_keys plain_lexer_reads nesting in \<open>simp_all add: probe_documents_def plain_documents_def list_all_iff\<close>)
  then have payload: "spec_payload probe_documents ''probe'' probe_envelope = Some (canonical (JObj probe_payload), probe_payload)"
    using decode_document_encode [of "canonical (JObj probe_payload)" 40960] probe_payload_size
    by (simp add: spec_payload_def probe_envelope_def probe_documents_def plain_documents_def)
  have ok: "payload_ok probe_payload demo_id ''k1''"
    using demo_texts demo_nonce_facts
    by (simp add: payload_ok_def words_def probe_payload_def text_field_def is_identifier_def identifier_char_def is_digit_def zeros_def)
  have times: "spec_times probe_decoders probe_payload = Some (sec 1, sec 2, sec 3)"
    by (simp add: spec_times_def utc_def probe_decoders_def probe_payload_def text_field_def sec_def has_suffix_def)
  show ?thesis
    using probe_envelope_read env payload ok times demo_texts
    by (simp add: verify_scan_def spec_window_def spec_details_def probe_envelope_def sec_def probe_job_def job_text_def text_field_def
        probe_payload_def)
qed

theorem accepted_scan_sound_witness:
  "verify_token fixed_crypto (header_decoders ''aim-scan-spec+jwt'') (sd_envelope probe_decoders) probe_token ''aim-scan-spec+jwt''
     [(''k1'', fixed_key)] = Inr probe_envelope \<and> set (map fst probe_payload) = set probe_fields"
proof -
  have "decodes_variant probe_decoders" by (simp add: decodes_variant_def probe_decoders_def probe_envelope_def)
  from accepted_scan_sound [OF probe_accepted this] show ?thesis by (simp add: probe_job_def probe_envelope_def)
qed

definition snap_member :: "(string \<times> json) list" where
  "snap_member = [(''file_id'', JStr (zeros 32)), (''sha256'', JStr (zeros 64)), (''size_bytes'', JNum ''5'')]"

definition snap_doc :: "(string \<times> json) list" where
  "snap_doc = [(''gateway_id'', JStr demo_id), (''listing_id'', JStr demo_id), (''listing_version_id'', JStr demo_id),
     (''members'', JArr [JObj snap_member]), (''snapshot_version'', JStr ''verification-source-snapshot-v1''),
     (''source_handle_id'', JStr demo_id), (''source_kind'', JStr ''gateway_listing'')]"

definition snap :: snapshot where
  "snap = \<lparr>sn_version = ''verification-source-snapshot-v1'', sn_kind = ''gateway_listing'', sn_gateway = demo_id,
     sn_listing = demo_id, sn_lvid = demo_id, sn_source = demo_id,
     sn_members = [\<lparr>sm_fid = zeros 32, sm_sha = zeros 64, sm_size = 5\<rparr>]\<rparr>"

definition snap_text :: bytes where "snap_text = canonical (JObj snap_doc)"

definition snap_claims :: "(string \<times> json) list" where
  "snap_claims = [(''aud'', JStr demo_id), (''manifest_hash'', JStr (b64_encode snap_text)),
     (''payload_b64'', JStr (b64_encode snap_text)), (''runner_id'', JStr demo_id)]"

definition snap_decoders :: scan_decoders where
  "snap_decoders = probe_decoders\<lparr>sd_wrapper := (\<lambda>_. Inr \<lparr>sw_aud = demo_id, sw_runner = demo_id,
     sw_hash = b64_encode snap_text, sw_payload = b64_encode snap_text\<rparr>), sd_snapshot := (\<lambda>_. Inr snap)\<rparr>"

definition snap_job :: scan_job where
  "snap_job = probe_job\<lparr>sj_payload := [(''manifest_hash'', JStr (b64_encode snap_text)), (''listing_id'', JStr demo_id),
     (''listing_version_id'', JStr demo_id), (''source_handle_id'', JStr demo_id)]\<rparr>"

definition snap_documents :: documents where "snap_documents = plain_documents b64_encode"

definition snap_token :: string where "snap_token = made_token ''aim-scan-snapshot+jwt'' (JObj snap_claims)"

definition snap_fields :: "string list" where
  "snap_fields = words ''snapshot_version source_kind gateway_id listing_id listing_version_id source_handle_id members''"

definition snap_keys :: "string list" where
  "snap_keys = [''gateway_id'', ''listing_id'', ''listing_version_id'', ''members'', ''snapshot_version'', ''source_handle_id'', ''source_kind'']"

lemma snap_keys_facts: "map fst snap_doc = snap_keys \<and> sorted snap_keys \<and> distinct snap_keys \<and> list_all plain snap_keys
    \<and> length snap_keys = length snap_fields \<and> list_all (\<lambda>n. n \<in> set snap_keys) snap_fields"
proof -
  have "map fst snap_doc = snap_keys" by (simp add: snap_doc_def snap_keys_def)
  moreover have "sorted snap_keys \<and> distinct snap_keys \<and> list_all plain snap_keys
      \<and> length snap_keys = length snap_fields \<and> list_all (\<lambda>n. n \<in> set snap_keys) snap_fields" by code_simp
  ultimately show ?thesis by blast
qed

lemma snap_values: "plain (zeros 32) \<and> plain_number ''5'' \<and> plain ''verification-source-snapshot-v1'' \<and> plain ''gateway_listing''
    \<and> plain ''aim-scan-snapshot+jwt'' \<and> lower_hex 32 (zeros 32) \<and> ord_class.lexordp '''' (zeros 32)"
  by code_simp

lemma snap_member_plain: "plain_json (JObj snap_member)"
proof -
  have "sorted (map fst snap_member) \<and> distinct (map fst snap_member) \<and> list_all (\<lambda>(k, v). plain k) snap_member" by code_simp
  then show ?thesis using snap_values demo_texts by (simp add: snap_member_def)
qed

lemma snap_doc_plain: "plain_json (JObj snap_doc)"
proof -
  have "list_all (\<lambda>kv. plain_json (snd kv)) snap_doc"
    using snap_values demo_texts snap_member_plain by (simp add: snap_doc_def del: plain_json.simps(6))
  moreover have "list_all (\<lambda>kv. plain (fst kv)) snap_doc"
    using snap_keys_facts by (metis (no_types, lifting) length_map list_all_length nth_map)
  ultimately have "list_all (\<lambda>(k, v). plain k \<and> plain_json v) snap_doc" by (auto simp: list_all_iff)
  then show ?thesis using snap_keys_facts by simp
qed

lemma snap_claims_plain: "plain_json (JObj snap_claims)"
proof -
  have "sorted [''aud'', ''manifest_hash'', ''payload_b64'', ''runner_id''] \<and> distinct [''aud'', ''manifest_hash'', ''payload_b64'', ''runner_id'']
      \<and> list_all plain [''aud'', ''manifest_hash'', ''payload_b64'', ''runner_id'']" by code_simp
  then show ?thesis using demo_texts b64_plain by (simp add: snap_claims_def)
qed

lemma snap_sizes: "length snap_text \<le> 900" "length (canonical (JObj snap_claims)) \<le> 3000" "length snap_token \<le> 10000"
proof -
  show t: "length snap_text \<le> 900"
    using length_canonical [OF snap_doc_plain] by (simp add: snap_text_def snap_doc_def snap_member_def demo_sizes)
  have "encoded_len (length snap_text) \<le> encoded_len 900" using t unfolding encoded_len_def by (intro div_le_mono) simp
  then show c: "length (canonical (JObj snap_claims)) \<le> 3000"
    using length_canonical [OF snap_claims_plain] by (simp add: snap_claims_def demo_sizes b64_encode_length encoded_len_def)
  have "encoded_len (length (canonical (JObj snap_claims))) \<le> encoded_len 3000" using c unfolding encoded_len_def by (intro div_le_mono) simp
  then show "length snap_token \<le> 10000"
    using made_token_length [of "''aim-scan-snapshot+jwt''" "JObj snap_claims"] snap_values by (simp add: snap_token_def encoded_len_def)
qed

lemma snap_member_closed: "member_closed snap_documents (JObj snap_member)"
proof -
  have n: "nesting (JObj snap_member) \<le> 32" by (simp add: snap_member_def)
  have "closed_object snap_documents (canonical (JObj snap_member)) [''file_id'', ''sha256'', ''size_bytes''] = Some snap_member"
    by (rule closed_plain [OF snap_member_plain n]) (simp_all add: snap_documents_def plain_documents_def plain_lexer_reads snap_member_def field_def)
  then show ?thesis by (simp add: member_closed_def plain_encodings_agree [OF snap_member_plain] del: py_encode.simps)
qed

lemma snap_accepted:
  "verify_snapshot fixed_crypto (header_decoders ''aim-scan-snapshot+jwt'') snap_documents snap_decoders snap_token [(''k1'', fixed_key)]
     snap_job = Some snap"
proof -
  have n: "nesting (JObj snap_claims) \<le> 32" "nesting (JObj snap_doc) \<le> 32" by (simp_all add: snap_claims_def snap_doc_def snap_member_def)
  have control: "verify_control fixed_crypto (header_decoders ''aim-scan-snapshot+jwt'') snap_documents (sd_wrapper snap_decoders) snap_token
      ''aim-scan-snapshot+jwt'' [''aud'', ''runner_id'', ''manifest_hash'', ''payload_b64''] [(''k1'', fixed_key)] max_snapshot
    = Some (''k1'', \<lparr>sw_aud = demo_id, sw_runner = demo_id, sw_hash = b64_encode snap_text, sw_payload = b64_encode snap_text\<rparr>)"
    unfolding snap_token_def
    by (rule made_token_accepted)
      (use snap_values snap_claims_plain snap_sizes n in
        \<open>simp_all add: snap_decoders_def snap_documents_def plain_documents_def max_snapshot_def snap_token_def snap_claims_def field_def del: plain_json.simps(6)\<close>)
  have present: "list_all (\<lambda>n. field snap_doc n \<noteq> None) snap_fields"
    by (rule fields_present) (use snap_keys_facts in simp, simp add: snap_doc_def)
  have "closed_object snap_documents snap_text snap_fields = Some snap_doc"
    unfolding snap_text_def
    by (rule closed_plain [OF snap_doc_plain n(2)])
      (use present snap_keys_facts in \<open>simp_all add: snap_documents_def plain_documents_def plain_lexer_reads list_all_iff flip: length_map [of fst]\<close>)
  moreover have "decode_document (b64_encode snap_text) max_snapshot = Some snap_text"
    using snap_sizes(1) by (intro decode_document_encode) (simp add: max_snapshot_def)
  moreover have "dm_sha snap_documents snap_text = b64_encode snap_text" by (simp add: snap_documents_def plain_documents_def)
  moreover have "map_of snap_doc ''members'' = Some (JArr [JObj snap_member])" by (simp add: snap_doc_def)
  ultimately show ?thesis
    using control snap_member_closed snap_values demo_texts
    by (simp add: verify_snapshot_def snap_fields_def [symmetric] snap_job_def probe_job_def probe_envelope_def job_text_def text_field_def
        snap_decoders_def snap_def)
qed

theorem snapshot_commits_witness: "distinct (map sm_fid (sn_members snap))"
proof -
  have "\<forall>x y. dm_sha snap_documents x = dm_sha snap_documents y \<longrightarrow> x = y"
    using b64_encode_inj by (simp add: snap_documents_def plain_documents_def)
  from snapshot_commits [OF snap_accepted snap_accepted this] show ?thesis by simp
qed

end
