(* ===== verification/LocalAudit.thy ===== *)
theory LocalAudit
  imports LedgerVerify AuditLog
begin

text \<open>
  internal/verification/audit.go: the local audit of the verification, a signed hash chain that
  mirrors the events of the ledger. The file is its byte content. The decoder of lines, SHA-256,
  Ed25519 and the text of instants are arguments, as are the faults of the file operations.
\<close>

subsection \<open>Lines\<close>

record local_env =
  le_decode :: "string \<Rightarrow> (string \<times> json) list option"
  le_sha :: "string \<Rightarrow> string"
  le_sign :: "string \<Rightarrow> string"
  le_verify :: "string \<Rightarrow> string \<Rightarrow> bool"
  le_time :: "int \<Rightarrow> string"

text \<open>The body of an event, without and with its signature; canonical text puts keys in order.\<close>

definition event_fields :: "local_env \<Rightarrow> string \<Rightarrow> local_event \<Rightarrow> (string \<times> json) list" where
  "event_fields env prev v =
     [(''event_id'', JNum (dec_text (ev_id v))), (''prev_hash'', JStr prev), (''refusal_code'', JStr (ev_code v)),
      (''result'', JStr (ev_result v)), (''spec_hash'', JStr (ev_spec_hash v)), (''spec_id'', JStr (ev_spec_id v)),
      (''time'', JStr (le_time env (ev_received v)))]"

definition unsigned_event :: "local_env \<Rightarrow> string \<Rightarrow> local_event \<Rightarrow> string" where
  "unsigned_event env prev v = canonical (JObj (event_fields env prev v))"

definition event_line :: "local_env \<Rightarrow> string \<Rightarrow> local_event \<Rightarrow> string" where
  "event_line env prev v = canonical (JObj (event_fields env prev v @ [(''sig'', JStr (le_sign env (unsigned_event env prev v)))]))"

subsection \<open>State\<close>

record local_audit =
  la_last :: int
  la_hash :: string
  la_failed :: "gw_error option"

definition max_audit_line :: nat where "max_audit_line = 16384"

definition err_audit :: gw_error where "err_audit = ErrMsg ''verification_audit_invalid''"

text \<open>\<open>json.Number.Int64\<close>.\<close>

definition event_number :: "(string \<times> json) list \<Rightarrow> int option" where
  "event_number m = (case map_of m ''event_id'' of Some (JNum s) \<Rightarrow> parse_int s | _ \<Rightarrow> None)"

definition field_text :: "(string \<times> json) list \<Rightarrow> string \<Rightarrow> string" where
  "field_text m k = (case map_of m k of Some (JStr s) \<Rightarrow> s | _ \<Rightarrow> '''')"

text \<open>One whole line against the chain so far.\<close>

definition take_event :: "local_env \<Rightarrow> string \<Rightarrow> local_audit \<Rightarrow> gw_error + local_audit" where
  "take_event env raw a =
     (case le_decode env raw of None \<Rightarrow> Inl (ErrMsg ''invalid JSON'')
      | Some m \<Rightarrow>
        if canonical (JObj m) \<noteq> raw then Inl err_audit
        else case event_number m of None \<Rightarrow> Inl err_audit
        | Some n \<Rightarrow>
          if n \<le> la_last a \<or> field_text m ''prev_hash'' \<noteq> la_hash a \<or> length m \<noteq> 8 then Inl err_audit
          else if \<not> le_verify env (canonical (JObj (filter (\<lambda>kv. fst kv \<noteq> ''sig'') m))) (field_text m ''sig'') then Inl err_audit
          else Inr (a\<lparr>la_last := n, la_hash := le_sha env raw\<rparr>))"

text \<open>The lines of the file: what of it is kept, and the torn tail that is set aside. A line does
  not fit the reader when it has 16 KiB without a newline.\<close>

function read_events :: "local_env \<Rightarrow> string \<Rightarrow> local_audit \<Rightarrow> gw_error + local_audit \<times> string \<times> string" where
  "read_events env content a =
     (if content = [] then Inr (a, [], [])
      else case read_line content of (line, rest, terminated) \<Rightarrow>
        if (if terminated then length line > max_audit_line else length line \<ge> max_audit_line) then Inl err_audit
        else if \<not> terminated then Inr (a, [], line)
        else case take_event env (butlast line) a of Inl e \<Rightarrow> Inl e
        | Inr a' \<Rightarrow> (case read_events env rest a' of Inl e \<Rightarrow> Inl e
            | Inr (a'', kept, torn) \<Rightarrow> Inr (a'', line @ kept, torn)))"
  by pat_completeness auto
termination
  by (relation "measure (\<lambda>(env, content, a). length content)") (auto dest: read_line_shorter [OF _ sym])

declare read_events.simps [simp del]

text \<open>OpenLocalAudit: the torn tail is saved elsewhere before the file is cut. The faults are those of
  saving, cutting and the two syncs.\<close>

definition open_local :: "local_env \<Rightarrow> gw_error option \<Rightarrow> gw_error option \<Rightarrow> gw_error option \<Rightarrow> string
    \<Rightarrow> (gw_error + local_audit) \<times> string" where
  "open_local env save cut_fault sync content =
     (case read_events env content \<lparr>la_last = 0, la_hash = '''', la_failed = None\<rparr> of
        Inl e \<Rightarrow> (Inl e, content)
      | Inr (a, kept, torn) \<Rightarrow>
        if torn = [] then (case sync of Some e \<Rightarrow> (Inl e, content) | None \<Rightarrow> (Inr a, content))
        else (case save of Some e \<Rightarrow> (Inl e, content)
          | None \<Rightarrow> (case cut_fault of Some e \<Rightarrow> (Inl e, content)
            | None \<Rightarrow> (case sync of Some e \<Rightarrow> (Inl e, kept) | None \<Rightarrow> (Inr a, kept)))))"

subsection \<open>Mirroring\<close>

text \<open>The faults of one line: opening, or writing, syncing or closing, when only a part of it may be
  in the file.\<close>

record mirror_io =
  mi_open :: "gw_error option"
  mi_write :: "(nat \<times> gw_error) option"

fun mirror_loop :: "local_env \<Rightarrow> (nat \<Rightarrow> mirror_io) \<Rightarrow> nat \<Rightarrow> local_event list \<Rightarrow> local_audit \<times> string
    \<Rightarrow> gw_error option \<times> local_audit \<times> string" where
  "mirror_loop env io k [] (a, f) = (None, a, f)"
| "mirror_loop env io k (v # vs) (a, f) =
     (let raw = event_line env (la_hash a) v; bs = raw @ [nl] in
      case mi_open (io k) of Some e \<Rightarrow> (Some e, a, f)
      | None \<Rightarrow>
        (case mi_write (io k) of Some (n, e) \<Rightarrow> (Some e, a\<lparr>la_failed := Some e\<rparr>, f @ take n bs)
         | None \<Rightarrow> mirror_loop env io (k + 1) vs (a\<lparr>la_last := int (ev_id v), la_hash := le_sha env raw\<rparr>, f @ bs)))"

text \<open>Mirror: nothing more after a failure of the file.\<close>

definition mirror :: "local_env \<Rightarrow> (nat \<Rightarrow> mirror_io) \<Rightarrow> gw_error option \<Rightarrow> vledger \<Rightarrow> local_audit \<times> string
    \<Rightarrow> gw_error option \<times> local_audit \<times> string" where
  "mirror env io read_fault V af =
     (case af of (a, f) \<Rightarrow>
      (case la_failed a of Some e \<Rightarrow> (Some e, a, f)
       | None \<Rightarrow>
         (case read_fault of Some e \<Rightarrow> (Some e, a, f)
          | None \<Rightarrow> mirror_loop env io 0 (verification_events (nat (la_last a)) V) (a, f))))"

end
