(* ===== verification/LocalAuditProps.thy ===== *)
theory LocalAuditProps
  imports LocalAudit PyProps AuditProps "HOL-Library.Multiset" "HOL-Library.Sublist"
begin

text \<open>
  What the local audit promises: through appends, write errors, crashes in the middle of a line
  and restarts, the file is always the signed chain of the first events ever recorded, and after
  a mirroring without an error it has all of them, each once and in order.
\<close>

subsection \<open>The chain of the events\<close>

fun audit_text :: "local_env \<Rightarrow> string \<Rightarrow> local_event list \<Rightarrow> string" where
  "audit_text env prev [] = []"
| "audit_text env prev (v # vs) = event_line env prev v @ nl # audit_text env (le_sha env (event_line env prev v)) vs"

fun audit_head :: "local_env \<Rightarrow> string \<Rightarrow> local_event list \<Rightarrow> string" where
  "audit_head env prev [] = prev"
| "audit_head env prev (v # vs) = audit_head env (le_sha env (event_line env prev v)) vs"

lemma audit_text_append:
  "audit_text env prev (vs @ ws) = audit_text env prev vs @ audit_text env (audit_head env prev vs) ws"
  "audit_head env prev (vs @ ws) = audit_head env (audit_head env prev vs) ws"
  by (induction vs arbitrary: prev) simp_all

text \<open>What is asked of the decoder, of SHA-256 in hexadecimal and of Ed25519: a canonical text of
  plain members is read back as the same members in some order, hashes and signatures are short
  plain texts, and a signature verifies.\<close>

definition local_env_ok :: "local_env \<Rightarrow> bool" where
  "local_env_ok env \<longleftrightarrow>
     (\<forall>m. distinct (map fst m) \<and> list_all (\<lambda>(k, v). plain k \<and> plain_json v) m \<and> nesting (JObj m) \<le> 32 \<longrightarrow>
        (\<exists>m'. le_decode env (canonical (JObj m)) = Some m' \<and> mset m' = mset m))
     \<and> (\<forall>s. plain (le_sha env s) \<and> length (le_sha env s) \<le> 128 \<and> plain (le_sign env s) \<and> length (le_sign env s) \<le> 128
        \<and> le_verify env s (le_sign env s))"

text \<open>An event of plain short texts with a number in range.\<close>

definition event_ok :: "local_env \<Rightarrow> local_event \<Rightarrow> bool" where
  "event_ok env v \<longleftrightarrow> int (ev_id v) \<le> max_int64
     \<and> list_all (\<lambda>s. plain s \<and> length s \<le> 128) [ev_code v, ev_result v, ev_spec_hash v, ev_spec_id v, le_time env (ev_received v)]"

lemma number_plain: "plain_number (dec_text n)"
proof -
  have d: "dec_text n \<noteq> [] \<and> list_all is_digit (dec_text n)" by (rule dec_text_digits)
  then obtain c s where s: "dec_text n = c # s" "is_digit c" by (cases "dec_text n") auto
  have "c \<noteq> CHR ''-''" "c \<noteq> CHR ''+''" using s(2) by (auto simp: is_digit_def)
  moreover have "\<not> (\<exists>c \<in> set (dec_text n). c \<in> set ''.eE'')" using d by (auto simp: list_all_iff is_digit_def)
  moreover have "\<not> dec_val (dec_text n) < 0" by (simp add: dec_val_text)
  ultimately have "py_number (\<lambda>_. None) (dec_text n) = Some (dec_text n)"
    using s d dec_val_text [of n] unfolding py_number_def Let_def by (auto simp: int_text_def)
  then show ?thesis using d by (auto simp: plain_number_def list_all_iff)
qed

lemma canonical_mset:
  assumes "mset m' = mset m" and "distinct (map fst m)"
  shows "canonical (JObj m') = canonical (JObj m)"
proof -
  let ?w = "\<lambda>m. map (\<lambda>(k, v). (k, write_json v)) m"
  have ms: "mset (?w m') = mset (?w m)" by (simp only: mset_map assms(1))
  have d: "distinct (map fst (?w m'))"
  proof -
    have "mset (map fst m') = mset (map fst m)" using assms(1) by (metis mset_map)
    then have "distinct (map fst m')" using assms(2) by (metis mset_eq_imp_distinct_iff)
    moreover have "map fst (?w m') = map fst m'" by (induction m') auto
    ultimately show ?thesis by (simp only:)
  qed
  have "sort_key fst (?w m') = sort_key fst (?w m)"
  proof (rule sort_key_inj_key_eq)
    show "mset (?w m') = mset (sort_key fst (?w m))" using ms by simp
    show "inj_on fst (set (?w m'))" using d by (simp only: distinct_map)
  qed simp
  then show ?thesis by (simp add: canonical_def)
qed

lemma map_of_mset: "mset m' = mset m \<Longrightarrow> distinct (map fst m) \<Longrightarrow> map_of m' k = map_of m k"
proof -
  assume ms: "mset m' = mset m" and d: "distinct (map fst m)"
  have "distinct (map fst m')" using ms d by (metis mset_eq_imp_distinct_iff mset_map)
  moreover have "set m' = set m" using ms by (metis set_mset_mset)
  ultimately show ?thesis using d by (metis map_of_inject_set)
qed

definition signed_fields :: "local_env \<Rightarrow> string \<Rightarrow> local_event \<Rightarrow> (string \<times> json) list" where
  "signed_fields env prev v = event_fields env prev v @ [(''sig'', JStr (le_sign env (unsigned_event env prev v)))]"

lemma event_line_fields: "event_line env prev v = canonical (JObj (signed_fields env prev v))"
  by (simp add: event_line_def signed_fields_def)

lemma signed_fields_facts:
  "map fst (signed_fields env prev v) = [''event_id'', ''prev_hash'', ''refusal_code'', ''result'', ''spec_hash'', ''spec_id'', ''time'', ''sig'']"
  "distinct (map fst (signed_fields env prev v))"
  by (simp_all add: signed_fields_def event_fields_def)

lemma signed_fields_plain:
  assumes "local_env_ok env" and "event_ok env v" and "plain prev"
  shows "list_all (\<lambda>(k, v). plain k \<and> plain_json v) (signed_fields env prev v)"
proof -
  have "list_all plain [''event_id'', ''prev_hash'', ''refusal_code'', ''result'', ''spec_hash'', ''spec_id'', ''time'', ''sig'']" by code_simp
  then show ?thesis using assms by (simp add: signed_fields_def event_fields_def local_env_ok_def event_ok_def number_plain)
qed

text \<open>The line as the document with its keys in order.\<close>

lemma sorted_fields:
  assumes "distinct (map fst m)" and "list_all (\<lambda>(k, v). plain k \<and> plain_json v) m"
  shows "canonical (JObj m) = canonical (JObj (sort_key fst m))" and "plain_json (JObj (sort_key fst m))"
proof -
  show "canonical (JObj m) = canonical (JObj (sort_key fst m))" using canonical_mset [of "sort_key fst m" m] assms(1) by simp
  have "distinct (map fst (sort_key fst m))" using assms(1) by (metis mset_eq_imp_distinct_iff mset_map mset_sort)
  then show "plain_json (JObj (sort_key fst m))" using assms(2) by (simp add: list_all_iff)
qed

lemma event_line_size:
  assumes "local_env_ok env" and "event_ok env v" and "plain prev" and "length prev \<le> 128"
  shows "length (event_line env prev v) < 16000 \<and> nl \<notin> set (event_line env prev v)"
proof -
  let ?m = "signed_fields env prev v"
  note p = signed_fields_plain [OF assms(1-3)] and s = sorted_fields [OF signed_fields_facts(2) signed_fields_plain [OF assms(1-3)]]
  have "mset (map (\<lambda>(k, v). length k + 3 + text_size v) (sort_key fst ?m)) = mset (map (\<lambda>(k, v). length k + 3 + text_size v) ?m)" by simp
  then have sum: "sum_list (map (\<lambda>(k, v). length k + 3 + text_size v) (sort_key fst ?m)) = sum_list (map (\<lambda>(k, v). length k + 3 + text_size v) ?m)"
    by (metis sum_mset_sum_list)
  have num: "length (dec_text (ev_id v)) \<le> 19"
  proof (rule dec_text_length)
    have "int (ev_id v) < 10 ^ 19" using assms(2) by (simp add: event_ok_def max_int64_def)
    then show "ev_id v < 10 ^ 19" by (metis of_nat_less_iff of_nat_numeral of_nat_power)
  qed simp
  have "text_size (JObj (sort_key fst ?m)) = 2 + (length ?m - 1) + sum_list (map (\<lambda>(k, v). length k + 3 + text_size v) ?m)"
    using sum by simp
  also have "\<dots> < 16000"
  proof -
    have "length (le_sign env x) \<le> 128" for x using assms(1) by (simp add: local_env_ok_def)
    from this [of "unsigned_event env prev v"] show ?thesis
      using num assms(2,4) by (simp add: signed_fields_def event_fields_def event_ok_def)
  qed
  finally have "length (event_line env prev v) < 16000" using length_canonical [OF s(2)] s(1) by (simp add: event_line_fields)
  moreover have "nl \<notin> set (event_line env prev v)"
    using plain_text_printable [OF s(2)] s(1) by (auto simp: event_line_fields canonical_def printable_def list_all_iff nl_def)
  ultimately show ?thesis by blast
qed

subsection \<open>Reading the chain back\<close>

fun rising :: "int \<Rightarrow> local_event list \<Rightarrow> bool" where
  "rising n [] \<longleftrightarrow> True"
| "rising n (v # vs) \<longleftrightarrow> n < int (ev_id v) \<and> rising (int (ev_id v)) vs"

fun last_id :: "int \<Rightarrow> local_event list \<Rightarrow> int" where
  "last_id n [] = n"
| "last_id n (v # vs) = last_id (int (ev_id v)) vs"

lemma take_event_line:
  assumes "local_env_ok env" and "event_ok env v" and "plain (la_hash a)" and "la_last a < int (ev_id v)"
  shows "take_event env (event_line env (la_hash a) v) a
    = Inr (a\<lparr>la_last := int (ev_id v), la_hash := le_sha env (event_line env (la_hash a) v)\<rparr>)"
proof -
  let ?m = "signed_fields env (la_hash a) v"
  have d: "distinct (map fst ?m)" by (rule signed_fields_facts)
  have n: "nesting (JObj ?m) \<le> 32" by (simp add: signed_fields_def event_fields_def)
  obtain m' where m': "le_decode env (event_line env (la_hash a) v) = Some m'" "mset m' = mset ?m"
    using assms(1) d n signed_fields_plain [OF assms(1-3)] by (auto simp: local_env_ok_def event_line_fields)
  have c: "canonical (JObj m') = event_line env (la_hash a) v" using canonical_mset [OF m'(2) d] by (simp add: event_line_fields)
  have look: "map_of m' k = map_of ?m k" for k by (rule map_of_mset [OF m'(2) d])
  have fields: "map_of ?m ''event_id'' = Some (JNum (dec_text (ev_id v)))" "map_of ?m ''prev_hash'' = Some (JStr (la_hash a))"
    "map_of ?m ''sig'' = Some (JStr (le_sign env (unsigned_event env (la_hash a) v)))"
    by (simp_all add: signed_fields_def event_fields_def)
  have num: "event_number m' = Some (int (ev_id v))"
    using assms(2) parse_int_text by (simp add: event_number_def look fields event_ok_def)
  have len: "length m' = 8" using mset_eq_length [OF m'(2)] by (simp add: signed_fields_def event_fields_def)
  have "mset (filter (\<lambda>kv. fst kv \<noteq> ''sig'') m') = mset (filter (\<lambda>kv. fst kv \<noteq> ''sig'') ?m)"
    using m'(2) by (simp only: mset_filter)
  also have "filter (\<lambda>kv. fst kv \<noteq> ''sig'') ?m = event_fields env (la_hash a) v" by (simp add: signed_fields_def event_fields_def)
  finally have "mset (filter (\<lambda>kv. fst kv \<noteq> ''sig'') m') = mset (event_fields env (la_hash a) v)" .
  moreover have "distinct (map fst (event_fields env (la_hash a) v))" by (simp add: event_fields_def)
  ultimately have "canonical (JObj (filter (\<lambda>kv. fst kv \<noteq> ''sig'') m')) = unsigned_event env (la_hash a) v"
    unfolding unsigned_event_def by (rule canonical_mset)
  then show ?thesis
    using m'(1) c num len assms(1,4) by (simp add: take_event_def look fields field_text_def local_env_ok_def)
qed

lemma read_events_line:
  assumes "nl \<notin> set l" and "length l + 1 \<le> max_audit_line"
  shows "read_events env (l @ nl # r) a = (case take_event env l a of Inl e \<Rightarrow> Inl e
    | Inr a' \<Rightarrow> (case read_events env r a' of Inl e \<Rightarrow> Inl e | Inr (a'', kept, torn) \<Rightarrow> Inr (a'', l @ nl # kept, torn)))"
  using assms by (subst read_events.simps) (auto simp: read_line_of split: sum.splits prod.splits)

lemma read_events_tail:
  assumes "nl \<notin> set t" and "length t < max_audit_line"
  shows "read_events env t a = Inr (a, [], t)"
proof (cases "t = []")
  case True
  then show ?thesis by (simp add: read_events.simps)
next
  case False
  have "cut nl t = (t, [], False)" using assms(1) by (induction t) auto
  then show ?thesis using assms False by (subst read_events.simps) (simp add: read_line_def)
qed

lemma read_events_text:
  assumes "local_env_ok env" and "\<forall>v \<in> set vs. event_ok env v" and "rising (la_last a) vs"
    and "plain (la_hash a)" and "length (la_hash a) \<le> 128" and "nl \<notin> set t" and "length t < max_audit_line"
  shows "read_events env (audit_text env (la_hash a) vs @ t) a
    = Inr (a\<lparr>la_last := last_id (la_last a) vs, la_hash := audit_head env (la_hash a) vs\<rparr>, audit_text env (la_hash a) vs, t)"
  using assms(2-5)
proof (induction vs arbitrary: a)
  case Nil
  then show ?case using read_events_tail [OF assms(6,7)] by simp
next
  case (Cons v vs)
  let ?l = "event_line env (la_hash a) v" and ?a = "a\<lparr>la_last := int (ev_id v), la_hash := le_sha env (event_line env (la_hash a) v)\<rparr>"
  have l: "length ?l < 16000" "nl \<notin> set ?l"
    using event_line_size [OF assms(1), of v "la_hash a"] Cons.prems by simp_all
  have ta: "take_event env ?l a = Inr ?a"
    by (rule take_event_line [OF assms(1)]) (use Cons.prems in simp_all)
  have "plain (le_sha env ?l)" "length (le_sha env ?l) \<le> 128" using assms(1) by (simp_all add: local_env_ok_def)
  then have "read_events env (audit_text env (la_hash ?a) vs @ t) ?a
      = Inr (?a\<lparr>la_last := last_id (la_last ?a) vs, la_hash := audit_head env (la_hash ?a) vs\<rparr>, audit_text env (la_hash ?a) vs, t)"
    using Cons.IH [of ?a] Cons.prems by simp
  then show ?case using ta l read_events_line [of ?l env "audit_text env (la_hash ?a) vs @ t" a]
    by (simp add: max_audit_line_def)
qed

subsection \<open>Mirroring\<close>

definition mirrored :: "local_env \<Rightarrow> local_event list \<Rightarrow> local_audit \<times> string \<Rightarrow> gw_error option \<times> local_audit \<times> string \<Rightarrow> nat \<Rightarrow> string \<Rightarrow> bool" where
  "mirrored env vs af r j t \<longleftrightarrow> (case (af, r) of ((a, f), (e, a', f')) \<Rightarrow>
     j \<le> length vs \<and> f' = f @ audit_text env (la_hash a) (take j vs) @ t
     \<and> (e = None \<longrightarrow> j = length vs \<and> la_failed a' = None)
     \<and> (la_failed a' = None \<longrightarrow> t = [] \<and> la_hash a' = audit_head env (la_hash a) (take j vs) \<and> la_last a' = last_id (la_last a) (take j vs))
     \<and> (t = [] \<or> j < length vs \<and> (\<exists>i. t = take i (event_line env (audit_head env (la_hash a) (take j vs)) (vs ! j) @ [nl]))))"

lemma mirror_loop_text:
  assumes "la_failed a = None"
  shows "\<exists>j t. mirrored env vs (a, f) (mirror_loop env io k vs (a, f)) j t"
  using assms
proof (induction vs arbitrary: k a f)
  case Nil
  then have "mirrored env [] (a, f) (mirror_loop env io k [] (a, f)) 0 []" by (simp add: mirrored_def)
  then show ?case by blast
next
  case (Cons v vs)
  let ?l = "event_line env (la_hash a) v"
  consider (fails) x where "mi_open (io k) = Some x" | (breaks) n x where "mi_open (io k) = None" "mi_write (io k) = Some (n, x)"
    | (goes) "mi_open (io k) = None" "mi_write (io k) = None" by (cases "mi_open (io k)"; cases "mi_write (io k)") auto
  then show ?case
  proof cases
    case fails
    then have "mirrored env (v # vs) (a, f) (mirror_loop env io k (v # vs) (a, f)) 0 []" by (simp add: mirrored_def Let_def)
    then show ?thesis by blast
  next
    case breaks
    then have e: "mirror_loop env io k (v # vs) (a, f) = (Some x, a\<lparr>la_failed := Some x\<rparr>, f @ take n (?l @ [nl]))" by (simp add: Let_def)
    have "mirrored env (v # vs) (a, f) (mirror_loop env io k (v # vs) (a, f)) 0 (take n (?l @ [nl]))"
      unfolding mirrored_def e by (auto simp del: take_append)
    then show ?thesis by blast
  next
    case goes
    let ?a = "a\<lparr>la_last := int (ev_id v), la_hash := le_sha env ?l\<rparr>"
    have e: "mirror_loop env io k (v # vs) (a, f) = mirror_loop env io (k + 1) vs (?a, f @ ?l @ [nl])" using goes by (simp add: Let_def)
    have "la_failed ?a = None" using Cons.prems by simp
    from Cons.IH [OF this] obtain j t where j: "mirrored env vs (?a, f @ ?l @ [nl]) (mirror_loop env io (k + 1) vs (?a, f @ ?l @ [nl])) j t" by blast
    have "mirrored env (v # vs) (a, f) (mirror_loop env io k (v # vs) (a, f)) (Suc j) t"
      using j unfolding e mirrored_def by (simp split: prod.splits)
    then show ?thesis by blast
  qed
qed

subsection \<open>The life of the file\<close>

text \<open>A state is the history of all events, the ledger, the audit in memory and the file. Pruning
  comes after a complete mirroring; a restart may fail and be tried again; a crash is a write that
  ends early and a restart.\<close>

type_synonym audit_state = "local_event list \<times> vledger \<times> local_audit \<times> string"

inductive local_step :: "local_env \<Rightarrow> audit_state \<Rightarrow> audit_state \<Rightarrow> bool" for env :: local_env where
  ls_op: "(\<And>at. x \<noteq> VPrune at) \<Longrightarrow> V' = run_vop x V \<Longrightarrow> new = drop (length (vl_events V)) (vl_events V')
     \<Longrightarrow> list_all (event_ok env) new \<Longrightarrow> local_step env (H, V, a, f) (H @ new, V', a, f)"
| ls_prune: "la_failed a = None \<Longrightarrow> la_last a = int (vl_last_event V)
     \<Longrightarrow> local_step env (H, V, a, f) (H, run_vop (VPrune at) V, a, f)"
| ls_mirror: "mirror env io rf V (a, f) = (e, a', f') \<Longrightarrow> local_step env (H, V, a, f) (H, V, a', f')"
| ls_restart: "open_local env s c y f = (Inr a', f') \<Longrightarrow> local_step env (H, V, a, f) (H, V, a', f')"
| ls_stop: "open_local env s c y f = (Inl e, f') \<Longrightarrow> local_step env (H, V, a, f) (H, V, a\<lparr>la_failed := Some e\<rparr>, f')"

inductive local_reach :: "local_env \<Rightarrow> audit_state \<Rightarrow> bool" for env :: local_env where
  lr_start: "local_reach env ([], empty_vledger, \<lparr>la_last = 0, la_hash = '''', la_failed = None\<rparr>, '''')"
| lr_step: "local_reach env st \<Longrightarrow> local_step env st st' \<Longrightarrow> local_reach env st'"

inductive_cases local_stepE: "local_step env (H, V, a, f) st'"

text \<open>The history numbers its events from one; of those the file does not have, none is pruned.\<close>

definition numbered :: "local_event list \<Rightarrow> bool" where
  "numbered H \<longleftrightarrow> (\<forall>i < length H. ev_id (H ! i) = i + 1)"

definition torn_after :: "local_env \<Rightarrow> local_event list \<Rightarrow> nat \<Rightarrow> string \<Rightarrow> bool" where
  "torn_after env H n t \<longleftrightarrow> t = [] \<or> n < length H \<and> (\<exists>i. t = take i (event_line env (audit_head env '''' (take n H)) (H ! n) @ [nl]))"

definition local_at :: "local_env \<Rightarrow> audit_state \<Rightarrow> nat \<Rightarrow> string \<Rightarrow> bool" where
  "local_at env st n t \<longleftrightarrow> (case st of (H, V, a, f) \<Rightarrow>
     numbered H \<and> list_all (event_ok env) H \<and> vl_last_event V = length H
     \<and> n \<le> length H \<and> f = audit_text env '''' (take n H) @ t \<and> torn_after env H n t
     \<and> filter (\<lambda>v. n < ev_id v) (vl_events V) = drop n H
     \<and> (la_failed a = None \<longrightarrow> t = [] \<and> la_last a = int n \<and> la_hash a = audit_head env '''' (take n H)))"

lemma numbered_rising: "numbered H \<Longrightarrow> rising 0 (take n H) \<and> (n \<le> length H \<longrightarrow> last_id 0 (take n H) = int n)"
proof -
  assume H: "numbered H"
  have "rising (int k) vs \<and> last_id (int k) vs = int (k + length vs)" if "\<forall>i < length vs. ev_id (vs ! i) = k + i + 1" for k vs
    using that
  proof (induction vs arbitrary: k)
    case (Cons v vs)
    have "ev_id v = k + 1" using Cons.prems by force
    moreover have "\<forall>i < length vs. ev_id (vs ! i) = (k + 1) + i + 1" using Cons.prems by force
    ultimately show ?case using Cons.IH [of "k + 1"] by simp
  qed simp
  from this [of "take n H" 0] H show ?thesis by (simp add: numbered_def min_def)
qed

lemma audit_text_step: "n < length H \<Longrightarrow> audit_text env '''' (take (Suc n) H)
    = audit_text env '''' (take n H) @ event_line env (audit_head env '''' (take n H)) (H ! n) @ [nl]"
  by (simp add: take_Suc_conv_app_nth audit_text_append)

lemma head_ok: "local_env_ok env \<Longrightarrow> plain (audit_head env '''' vs) \<and> length (audit_head env '''' vs) \<le> 128"
proof -
  assume ok: "local_env_ok env"
  have "plain p \<Longrightarrow> length p \<le> 128 \<Longrightarrow> plain (audit_head env p vs) \<and> length (audit_head env p vs) \<le> 128" for p
    by (induction vs arbitrary: p) (use ok in \<open>auto simp: local_env_ok_def\<close>)
  from this [of "''''"] show ?thesis by (simp add: plain_def)
qed

lemma filter_drop:
  assumes "numbered H" and "filter (\<lambda>v. n < ev_id v) vs = drop n H" and "n \<le> m"
  shows "filter (\<lambda>v. m < ev_id v) vs = drop m H"
proof -
  have "filter (\<lambda>v. m < ev_id v) vs = filter (\<lambda>v. m < ev_id v) (filter (\<lambda>v. n < ev_id v) vs)"
    using assms(3) by (simp add: filter_filter) (metis (mono_tags) le_less_trans)
  also have "\<dots> = filter (\<lambda>v. m < ev_id v) (drop n H)" by (simp add: assms(2))
  also have "drop n H = take (m - n) (drop n H) @ drop m H" using assms(3) by (metis append_take_drop_id drop_drop le_add_diff_inverse2)
  also have "filter (\<lambda>v. m < ev_id v) \<dots> = drop m H"
  proof -
    have "\<not> m < ev_id v" if mem: "v \<in> set (take (m - n) (drop n H))" for v
    proof -
      obtain i where i: "i < length (take (m - n) (drop n H))" "v = take (m - n) (drop n H) ! i"
        using mem unfolding in_set_conv_nth by blast
      then have "v = H ! (n + i)" "n + i < length H" "i < m - n" by auto
      with assms(1) show ?thesis by (simp add: numbered_def)
    qed
    moreover have "m < ev_id v" if mem: "v \<in> set (drop m H)" for v
    proof -
      obtain i where i: "i < length (drop m H)" "v = drop m H ! i" using mem unfolding in_set_conv_nth by blast
      with assms(1) show ?thesis by (simp add: numbered_def)
    qed
    ultimately show ?thesis by simp
  qed
  finally show ?thesis .
qed


lemma run_vop_events:
  assumes "\<And>at. x \<noteq> VPrune at"
  shows "\<exists>new. vl_events (run_vop x V) = vl_events V @ new
    \<and> (new = [] \<and> vl_last_event (run_vop x V) = vl_last_event V
      \<or> (\<exists>v. new = [v] \<and> ev_id v = vl_last_event V + 1 \<and> vl_last_event (run_vop x V) = vl_last_event V + 1))"
proof (cases x)
  case (VAdmit be ce a at)
  show ?thesis
  proof (cases rule: admit_cases [of be ce a at V])
    case 1
    then show ?thesis by (simp add: VAdmit)
  next
    case (2 V')
    from admit_True [OF 2] obtain V1 where b: "bump_daily (ad_listing a) (utc_day at) V = Some V1"
      and V': "V' = add_event at a ''accepted'' '''' (raise_clock at (insert_admission at a V1))" by blast
    have "vl_events V1 = vl_events V" "vl_last_event V1 = vl_last_event V"
      using b by (auto simp: bump_daily_def Let_def split: if_splits)
    then show ?thesis using 2 V' by (simp add: VAdmit add_event_def raise_clock_def insert_admission_def)
  qed
qed (use assms in \<open>simp_all add: verification_event_def add_event_def claim_verification_def Let_def on_admission_def
  save_verification_def audit_verification_def reconcile_verification_def interrupt_verifications_def\<close>)

lemma local_at_op:
  assumes "local_at env (H, V, a, f) n t" and "\<And>at. x \<noteq> VPrune at" and "V' = run_vop x V"
    and "new = drop (length (vl_events V)) (vl_events V')" and "list_all (event_ok env) new"
  shows "local_at env (H @ new, V', a, f) n t"
proof -
  note i = assms(1) [unfolded local_at_def prod.case]
  have ev: "vl_events V' = vl_events V @ new" and new: "new = [] \<and> vl_last_event V' = vl_last_event V
      \<or> (\<exists>v. new = [v] \<and> ev_id v = vl_last_event V + 1 \<and> vl_last_event V' = vl_last_event V + 1)"
    using run_vop_events [OF assms(2), of V] assms(3,4) by auto
  have 1: "numbered (H @ new)" using i new by (auto simp: numbered_def nth_append less_Suc_eq)
  have 2: "vl_last_event V' = length (H @ new)" using i new by auto
  have 3: "filter (\<lambda>v. n < ev_id v) (vl_events V') = drop n (H @ new)" using ev i new by auto
  have 4: "torn_after env (H @ new) n t" using i by (auto simp: torn_after_def nth_append)
  from i 1 2 3 4 assms(5) show ?thesis by (simp add: local_at_def)
qed

lemma local_at_prune:
  assumes "local_at env (H, V, a, f) n t" and "la_failed a = None" and "la_last a = int (vl_last_event V)"
  shows "local_at env (H, run_vop (VPrune at) V, a, f) n t"
proof -
  note i = assms(1) [unfolded local_at_def prod.case]
  have n: "n = length H" using i assms(2,3) by simp
  have "\<not> n < ev_id v" if "v \<in> set (vl_events V)" for v
    using i n that by (auto simp: filter_empty_conv)
  then have "filter (\<lambda>v. n < ev_id v) (vl_events (run_vop (VPrune at) V)) = drop n H"
    using n by (auto simp: prune_verification_def Let_def filter_empty_conv)
  moreover have "vl_last_event (run_vop (VPrune at) V) = length H" using i by (simp add: prune_verification_def Let_def)
  ultimately show ?thesis using i by (simp add: local_at_def)
qed

lemma sorted_drop: "numbered H \<Longrightarrow> sorted (map ev_id (drop n H))"
  by (auto simp: sorted_iff_nth_mono numbered_def)

lemma last_id_append: "last_id n (xs @ ys) = last_id (last_id n xs) ys"
  by (induction xs arbitrary: n) simp_all

lemma local_at_mirror:
  assumes "local_at env (H, V, a, f) n t" and "mirror env io rf V (a, f) = (e, a', f')"
  shows "\<exists>n t. local_at env (H, V, a', f') n t \<and> (e = None \<longrightarrow> f' = audit_text env '''' H)"
proof (cases "la_failed a = None \<and> rf = None")
  case False
  then have "mirror env io rf V (a, f) = (if la_failed a \<noteq> None then la_failed a else rf, a, f)"
    by (cases "la_failed a"; cases rf) (simp_all add: mirror_def)
  with False assms(2) have "a' = a \<and> f' = f \<and> e \<noteq> None" by auto
  then show ?thesis using assms(1) by auto
next
  case True
  note i = assms(1) [unfolded local_at_def prod.case]
  have s: "t = []" "la_last a = int n" "la_hash a = audit_head env '''' (take n H)" using i True by simp_all
  have i': "numbered H" "n \<le> length H" "filter (\<lambda>v. n < ev_id v) (vl_events V) = drop n H" using i by simp_all
  have ve: "verification_events n V = drop n H"
    unfolding verification_events_def i'(3) by (rule sort_key_id_if_sorted [OF sorted_drop [OF i'(1)]])
  have "mirror_loop env io 0 (drop n H) (a, f) = (e, a', f')" using assms(2) True s(2) ve by (simp add: mirror_def)
  moreover obtain j u where "mirrored env (drop n H) (a, f) (mirror_loop env io 0 (drop n H) (a, f)) j u"
    using mirror_loop_text True by blast
  ultimately have j: "mirrored env (drop n H) (a, f) (e, a', f') j u" by simp
  note j' = j [unfolded mirrored_def prod.case]
  have tk: "take (n + j) H = take n H @ take j (drop n H)" by (rule take_add)
  have "j \<le> length (drop n H)" using j' by blast
  then have nj: "n + j \<le> length H" using i'(2) by simp
  have f': "f' = audit_text env '''' (take (n + j) H) @ u" using j' i s by (simp add: tk audit_text_append)
  have hd: "audit_head env (la_hash a) (take j (drop n H)) = audit_head env '''' (take (n + j) H)" using s(3) by (simp add: tk audit_text_append)
  have lid: "last_id (la_last a) (take j (drop n H)) = int (n + j)"
    using numbered_rising [OF i'(1), of "n + j"] numbered_rising [OF i'(1), of n] i'(2) nj s(2) by (simp add: tk last_id_append)
  have torn: "torn_after env H (n + j) u" using j' hd unfolding torn_after_def by auto
  have "filter (\<lambda>v. n + j < ev_id v) (vl_events V) = drop (n + j) H" by (rule filter_drop [OF i'(1,3)]) simp
  then have at: "local_at env (H, V, a', f') (n + j) u" using i f' nj hd lid torn j' by (simp add: local_at_def)
  have "f' = audit_text env '''' H" if "e = None"
    using j' that f' i'(2) by simp
  then show ?thesis using at by blast
qed


text \<open>What a restart finds is a number of whole lines and a tail without a newline.\<close>

lemma whole_and_torn:
  assumes "local_env_ok env" and "local_at env (H, V, a, f) n t"
  obtains m u where "m \<le> length H" "n \<le> m" "f = audit_text env '''' (take m H) @ u" "nl \<notin> set u" "length u < max_audit_line" "torn_after env H m u"
proof -
  note i = assms(2) [unfolded local_at_def prod.case]
  show thesis
  proof (cases "t = []")
    case True
    then show ?thesis using i by (intro that [of n "[]"]) (simp_all add: max_audit_line_def)
  next
    case False
    let ?l = "event_line env (audit_head env '''' (take n H)) (H ! n)"
    from False i obtain k where n: "n < length H" and k: "t = take k (?l @ [nl])" by (auto simp: torn_after_def)
    have "event_ok env (H ! n)" using i n by (simp add: list_all_iff)
    then have l: "length ?l < 16000" "nl \<notin> set ?l"
      using event_line_size [OF assms(1)] head_ok [OF assms(1), of "take n H"] by blast+
    show ?thesis
    proof (cases "k \<le> length ?l")
      case True
      then have t: "t = take k ?l" using k by simp
      have "nl \<notin> set t" using l(2) t by (auto dest: in_set_takeD)
      moreover have "length t < max_audit_line" using l(1) t by (simp add: max_audit_line_def)
      ultimately show ?thesis using i by (intro that [of n t]) simp_all
    next
      case False
      then have "t = ?l @ [nl]" using k by simp
      then have "f = audit_text env '''' (take (Suc n) H) @ []" using i audit_text_step [OF n] by simp
      then show ?thesis using n by (intro that [of "Suc n" "[]"]) (simp_all add: max_audit_line_def torn_after_def)
    qed
  qed
qed

lemma open_local_cases:
  assumes "local_env_ok env" and "local_at env (H, V, a, f) n t"
  obtains m u where "n \<le> m" "m \<le> length H" "f = audit_text env '''' (take m H) @ u" "torn_after env H m u"
    "read_events env f \<lparr>la_last = 0, la_hash = '''', la_failed = None\<rparr>
      = Inr (\<lparr>la_last = int m, la_hash = audit_head env '''' (take m H), la_failed = None\<rparr>, audit_text env '''' (take m H), u)"
proof -
  note i = assms(2) [unfolded local_at_def prod.case]
  from whole_and_torn [OF assms] obtain m u where m: "m \<le> length H" "n \<le> m" "f = audit_text env '''' (take m H) @ u" "nl \<notin> set u"
    "length u < max_audit_line" "torn_after env H m u" by blast
  have ok: "\<forall>v \<in> set (take m H). event_ok env v" using i by (auto simp: list_all_iff dest: in_set_takeD)
  have rise: "rising 0 (take m H)" "last_id 0 (take m H) = int m" using numbered_rising [of H m] i m(1) by simp_all
  have "plain ''''" by (simp add: plain_def)
  then have "read_events env f \<lparr>la_last = 0, la_hash = '''', la_failed = None\<rparr>
      = Inr (\<lparr>la_last = int m, la_hash = audit_head env '''' (take m H), la_failed = None\<rparr>, audit_text env '''' (take m H), u)"
    using read_events_text [OF assms(1) ok, of "\<lparr>la_last = 0, la_hash = '''', la_failed = None\<rparr>" u] rise m(3,4,5) by simp
  then show thesis using that m by blast
qed

lemma local_at_drop:
  assumes "local_at env (H, V, a, f) n t" and "n \<le> m" and "m \<le> length H" and "torn_after env H m u"
    and "la_failed b = None \<longrightarrow> u = [] \<and> la_last b = int m \<and> la_hash b = audit_head env '''' (take m H)"
  shows "local_at env (H, V, b, audit_text env '''' (take m H) @ u) m u"
proof -
  note i = assms(1) [unfolded local_at_def prod.case]
  have "filter (\<lambda>v. m < ev_id v) (vl_events V) = drop m H" by (rule filter_drop [of H n]) (use i assms(2) in simp_all)
  then show ?thesis using i assms(3-5) by (simp add: local_at_def)
qed

lemma local_at_open:
  assumes "local_env_ok env" and "local_at env (H, V, a, f) n t" and "open_local env s c y f = (r, f')"
  shows "\<exists>n t. local_at env (H, V, (case r of Inl e \<Rightarrow> a\<lparr>la_failed := Some e\<rparr> | Inr a' \<Rightarrow> a'), f') n t"
proof -
  from open_local_cases [OF assms(1,2)] obtain m u where m: "n \<le> m" "m \<le> length H" "f = audit_text env '''' (take m H) @ u" "torn_after env H m u"
    "read_events env f \<lparr>la_last = 0, la_hash = '''', la_failed = None\<rparr>
      = Inr (\<lparr>la_last = int m, la_hash = audit_head env '''' (take m H), la_failed = None\<rparr>, audit_text env '''' (take m H), u)" by blast
  have none: "torn_after env H m []" by (simp add: torn_after_def)
  consider (keep) e where "r = Inl e" "f' = f" | (cut_only) e where "r = Inl e" "f' = audit_text env '''' (take m H)"
    | (opened) "r = Inr \<lparr>la_last = int m, la_hash = audit_head env '''' (take m H), la_failed = None\<rparr>" "f' = audit_text env '''' (take m H)"
    using assms(3) m(3,5) unfolding open_local_def by (auto split: if_splits option.splits)
  then show ?thesis
  proof cases
    case keep
    then show ?thesis using local_at_drop [OF assms(2) m(1,2,4), of "a\<lparr>la_failed := Some e\<rparr>"] m(3) by auto
  next
    case cut_only
    then show ?thesis using local_at_drop [OF assms(2) m(1,2) none, of "a\<lparr>la_failed := Some e\<rparr>"] by auto
  next
    case opened
    then show ?thesis using local_at_drop [OF assms(2) m(1,2) none, of "\<lparr>la_last = int m, la_hash = audit_head env '''' (take m H), la_failed = None\<rparr>"] by auto
  qed
qed

lemma local_reach_at:
  assumes "local_env_ok env" and "local_reach env st"
  shows "\<exists>n t. local_at env st n t"
  using assms(2)
proof induction
  case lr_start
  have "local_at env ([], empty_vledger, \<lparr>la_last = 0, la_hash = '''', la_failed = None\<rparr>, '''') 0 []"
    by (simp add: local_at_def numbered_def empty_vledger_def torn_after_def)
  then show ?case by blast
next
  case (lr_step st st')
  then obtain n t where at: "local_at env st n t" by blast
  from lr_step(2) at show ?case
  proof cases
    case ls_op
    then show ?thesis using at local_at_op by blast
  next
    case ls_prune
    then show ?thesis using at local_at_prune by blast
  next
    case ls_mirror
    then show ?thesis using at local_at_mirror by blast
  next
    case ls_restart
    then show ?thesis using local_at_open [OF assms(1)] at by fastforce
  next
    case ls_stop
    then show ?thesis using local_at_open [OF assms(1)] at by fastforce
  qed
qed

lemma text_prefix:
  assumes "local_at env (H, V, a, f) n t"
  shows "prefix f (audit_text env '''' H)"
proof -
  note i = assms [unfolded local_at_def prod.case]
  have H: "audit_text env '''' H = audit_text env '''' (take n H) @ audit_text env (audit_head env '''' (take n H)) (drop n H)"
    by (metis append_take_drop_id audit_text_append(1))
  have "prefix t (audit_text env (audit_head env '''' (take n H)) (drop n H))"
  proof (cases "t = []")
    case False
    let ?h = "audit_head env '''' (take n H)"
    from False i obtain k where n: "n < length H" and k: "t = take k (event_line env ?h (H ! n) @ [nl])" by (auto simp: torn_after_def)
    have "drop n H = H ! n # drop (Suc n) H" using n by (simp add: Cons_nth_drop_Suc)
    then have "audit_text env ?h (drop n H)
        = (event_line env ?h (H ! n) @ [nl]) @ audit_text env (le_sha env (event_line env ?h (H ! n))) (drop (Suc n) H)" by simp
    then show ?thesis unfolding k by (metis append_prefixD append_take_drop_id prefixI)
  qed simp
  then show ?thesis using i H by simp
qed

definition no_mirror_fault :: mirror_io where
  "no_mirror_fault = \<lparr>mi_open = None, mi_write = None\<rparr>"

lemma mirror_loop_completes: "fst (mirror_loop env (\<lambda>_. no_mirror_fault) k vs af) = None"
  by (induction vs arbitrary: k af) (auto simp: no_mirror_fault_def Let_def)

text \<open>C14: The local audit survives crashes. After any run of admissions, results, prunings,
  mirrorings with write errors, crashes in the middle of a line and restarts, the file is a beginning
  of the signed chain of all the events ever recorded, a restart without faults opens it, and a
  mirroring without faults then makes it exactly that chain: no event lost, repeated or out of order.\<close>

theorem local_audit_recovers:
  assumes "local_env_ok env" and "local_reach env (H, V, a, f)"
  shows "prefix f (audit_text env '''' H)
    \<and> (\<exists>a' f' a''. open_local env None None None f = (Inr a', f')
        \<and> mirror env (\<lambda>_. no_mirror_fault) None V (a', f') = (None, a'', audit_text env '''' H))"
proof -
  obtain n t where at: "local_at env (H, V, a, f) n t" using local_reach_at [OF assms] by blast
  from open_local_cases [OF assms(1) at] obtain m u where m: "n \<le> m" "m \<le> length H" "torn_after env H m u" "f = audit_text env '''' (take m H) @ u"
    "read_events env f \<lparr>la_last = 0, la_hash = '''', la_failed = None\<rparr>
      = Inr (\<lparr>la_last = int m, la_hash = audit_head env '''' (take m H), la_failed = None\<rparr>, audit_text env '''' (take m H), u)" by blast
  let ?a = "\<lparr>la_last = int m, la_hash = audit_head env '''' (take m H), la_failed = None\<rparr>"
  have o: "open_local env None None None f = (Inr ?a, audit_text env '''' (take m H))"
    using m(4,5) by (simp add: open_local_def)
  obtain n' t' where at': "local_at env (H, V, ?a, audit_text env '''' (take m H)) n' t'"
    using local_at_open [OF assms(1) at o] by auto
  obtain e a'' f'' where r: "mirror env (\<lambda>_. no_mirror_fault) None V (?a, audit_text env '''' (take m H)) = (e, a'', f'')"
    by (metis prod_cases3)
  then have "e = None" using mirror_loop_completes by (simp add: mirror_def) (metis fst_conv)
  then show ?thesis using local_at_mirror [OF at' r] r o text_prefix [OF at] by blast
qed


definition demo_local :: local_env where
  "demo_local = \<lparr>le_decode = (\<lambda>t. case decode_json plain_lexer t of Some (JObj m) \<Rightarrow> Some m | _ \<Rightarrow> None),
     le_sha = (\<lambda>_. ''h''), le_sign = (\<lambda>_. ''s''), le_verify = (\<lambda>_ _. True), le_time = (\<lambda>_. ''t'')\<rparr>"

lemma foldr_max_le: "foldr max xs (0 :: nat) \<le> n \<longleftrightarrow> (\<forall>x \<in> set xs. x \<le> n)"
  by (induction xs) auto

lemma demo_local_ok: "local_env_ok demo_local"
proof -
  have dec: "\<exists>m'. le_decode demo_local (canonical (JObj m)) = Some m' \<and> mset m' = mset m"
    if m: "distinct (map fst m)" "list_all (\<lambda>(k, v). plain k \<and> plain_json v) m" "nesting (JObj m) \<le> 32" for m
  proof -
    let ?s = "JObj (sort_key fst m)"
    note s = sorted_fields [OF m(1,2)]
    have "nesting ?s \<le> 32" using m(3) by (simp add: foldr_max_le del: foldr_map)
    moreover have "plain_lexer (canonical ?s) = (tokens_of ?s, True)" using plain_lexer_reads s(2) by (simp add: reads_plain_def)
    moreover have "valid_utf8 (canonical ?s)" using plain_text_printable [OF s(2)] by (simp add: canonical_def printable_valid)
    ultimately have "decode_json plain_lexer (canonical ?s) = Some ?s" using decode_tokens plain_keys_distinct [OF s(2)] by blast
    then show ?thesis using s(1) by (simp add: demo_local_def)
  qed
  have "plain ''h''" "plain ''s''" by code_simp+
  then show ?thesis using dec unfolding local_env_ok_def by (simp add: demo_local_def)
qed

theorem local_audit_recovers_witness:
  "\<exists>v V a f. local_reach demo_local ([v], V, a, f) \<and> f \<noteq> [] \<and> prefix f (audit_text demo_local '''' [v])
    \<and> (\<exists>a' f' a''. open_local demo_local None None None f = (Inr a', f')
        \<and> mirror demo_local (\<lambda>_. no_mirror_fault) None V (a', f') = (None, a'', audit_text demo_local '''' [v]))"
proof -
  let ?a0 = "\<lparr>la_last = 0, la_hash = '''', la_failed = None\<rparr>" and ?x = "VEvent demo_admission ''refused'' ''c'' 0"
  let ?V = "run_vop ?x empty_vledger"
  obtain v where v: "vl_events ?V = [v]" "ev_id v = 1" "event_ok demo_local v"
  proof
    show "vl_events ?V = [\<lparr>ev_id = 1, ev_received = 0, ev_spec_hash = ''h'', ev_spec_id = ''s'', ev_result = ''refused'', ev_code = ''c'',
       ev_authorization = ''a'', ev_nonce = ''n''\<rparr>]" by code_simp
  qed code_simp+
  have "local_step demo_local ([], empty_vledger, ?a0, '''') ([] @ [v], ?V, ?a0, '''')"
    by (rule ls_op [of ?x]) (use v in \<open>simp_all add: empty_vledger_def\<close>)
  then have 1: "local_reach demo_local ([v], ?V, ?a0, '''')" using lr_step [OF lr_start] by simp
  have ve: "verification_events 0 ?V = [v]" using v(1,2) by (simp add: verification_events_def)
  let ?io = "\<lambda>_ :: nat. \<lparr>mi_open = None, mi_write = Some (5, ErrStorage)\<rparr>"
  let ?f = "take 5 (event_line demo_local '''' v @ [nl])"
  have "mirror demo_local ?io None ?V (?a0, '''') = (Some ErrStorage, ?a0\<lparr>la_failed := Some ErrStorage\<rparr>, ?f)"
    using ve by (simp add: mirror_def Let_def)
  then have 2: "local_reach demo_local ([v], ?V, ?a0\<lparr>la_failed := Some ErrStorage\<rparr>, ?f)" using 1 ls_mirror lr_step by blast
  have "?f \<noteq> []" by simp
  then show ?thesis using 2 local_audit_recovers [OF demo_local_ok 2] by blast
qed

end
