(* ===== verification/RunnerKeys.thy ===== *)
theory RunnerKeys
  imports ScanSpec Pins
begin

text \<open>
  internal/verification/keys.go: the receipt key of the runner, the key of its commitments and
  the binding to a runner of the platform. The state volume is a record of the files the code
  uses; encoding/json, the randomness, the Ed25519 key check and the faults of the files are
  arguments.
\<close>

subsection \<open>Files\<close>

record runner_binding =
  rb_runner :: string
  rb_key_id :: string
  rb_nonce :: string
  rb_version :: string
  rb_digest :: string
  rb_ack :: string

definition no_binding :: runner_binding where
  "no_binding = \<lparr>rb_runner = '''', rb_key_id = '''', rb_nonce = '''', rb_version = '''', rb_digest = '''', rb_ack = ''''\<rparr>"

record runner_files =
  rf_receipt :: "bytes option"
  rf_commitment :: "bytes option"
  rf_binding :: "bytes option"
  rf_registration :: "bytes option"

text \<open>atomicFile: the old content up to the rename, the new one after it; an error of the directory
  sync reports a file that is already there.\<close>

record atomic_io =
  at_before :: "gw_error option"
  at_after :: "gw_error option"

definition atomic_file :: "atomic_io \<Rightarrow> bytes \<Rightarrow> bytes option \<Rightarrow> gw_error option \<times> bytes option" where
  "atomic_file io data old = (case at_before io of Some e \<Rightarrow> (Some e, old) | None \<Rightarrow> (at_after io, Some data))"

subsection \<open>Opening\<close>

record runner_keys =
  rk_private :: bytes
  rk_commitment :: bytes
  rk_binding :: runner_binding

text \<open>The environment of OpenKeys: three random strings, the private key made from a seed, whether
  64 bytes are such a key, whether a file has mode 0600, the codec of bindings, and the faults of
  reading and of the four writes.\<close>

record keys_env =
  kn_seed :: "gw_error + bytes"
  kn_secret :: "gw_error + bytes"
  kn_nonce :: "gw_error + bytes"
  kn_make :: "bytes \<Rightarrow> bytes"
  kn_key_ok :: "bytes \<Rightarrow> bool"
  kn_modes :: bool
  kn_encode :: "runner_binding \<Rightarrow> bytes"
  kn_decode :: "bytes \<Rightarrow> gw_error + runner_binding"
  kn_read :: "string \<Rightarrow> gw_error option"
  kn_write :: "string \<Rightarrow> atomic_io"

text \<open>A file is missing, unreadable or read.\<close>

definition read_file :: "keys_env \<Rightarrow> string \<Rightarrow> bytes option \<Rightarrow> gw_error + bytes option" where
  "read_file env name f = (case f of None \<Rightarrow> Inr None | Some b \<Rightarrow> (case kn_read env name of Some e \<Rightarrow> Inl e | None \<Rightarrow> Inr (Some b)))"

definition create_keys :: "keys_env \<Rightarrow> runner_files \<Rightarrow> (gw_error + bytes) \<times> runner_files" where
  "create_keys env fs =
     (if rf_commitment fs \<noteq> None \<or> rf_binding fs \<noteq> None \<or> rf_registration fs \<noteq> None
      then (Inl (ErrMsg ''verification_key_missing''), fs)
      else case kn_seed env of Inl e \<Rightarrow> (Inl e, fs)
      | Inr seed \<Rightarrow>
        (let raw = kn_make env seed in
         case atomic_file (kn_write env ''receipt'') raw (rf_receipt fs) of
           (Some e, f) \<Rightarrow> (Inl e, fs\<lparr>rf_receipt := f\<rparr>)
         | (None, f) \<Rightarrow>
           (let fs1 = fs\<lparr>rf_receipt := f\<rparr> in
            case kn_secret env of Inl e \<Rightarrow> (Inl e, fs1)
            | Inr c \<Rightarrow>
              (case atomic_file (kn_write env ''commitment'') c (rf_commitment fs1) of
                 (Some e, f2) \<Rightarrow> (Inl e, fs1\<lparr>rf_commitment := f2\<rparr>)
               | (None, f2) \<Rightarrow> (Inr raw, fs1\<lparr>rf_commitment := f2\<rparr>)))))"

definition receipt_key :: "keys_env \<Rightarrow> runner_files \<Rightarrow> (gw_error + bytes) \<times> runner_files" where
  "receipt_key env fs =
     (case read_file env ''receipt'' (rf_receipt fs) of Inl e \<Rightarrow> (Inl e, fs)
      | Inr None \<Rightarrow> create_keys env fs
      | Inr (Some raw) \<Rightarrow> (Inr raw, fs))"

text \<open>An optional binding file; none is the empty binding.\<close>

definition read_binding :: "keys_env \<Rightarrow> string \<Rightarrow> bytes option \<Rightarrow> gw_error + runner_binding" where
  "read_binding env name f =
     (case read_file env name f of Inl e \<Rightarrow> Inl e | Inr None \<Rightarrow> Inr no_binding | Inr (Some b) \<Rightarrow> kn_decode env b)"

definition stale :: "runner_binding \<Rightarrow> string \<Rightarrow> string \<Rightarrow> bool" where
  "stale b version digest \<longleftrightarrow> rb_nonce b = '''' \<or> rb_version b \<noteq> version \<or> rb_digest b \<noteq> digest"

text \<open>A new version registers again, with the identity it has and a nonce that survives restarts.\<close>

definition registration :: "keys_env \<Rightarrow> string \<Rightarrow> string \<Rightarrow> runner_binding \<Rightarrow> runner_files
    \<Rightarrow> (gw_error + runner_binding) \<times> runner_files" where
  "registration env version digest b fs =
     (if \<not> stale b version digest then (Inr b, fs)
      else case read_binding env ''registration'' (rf_registration fs) of Inl e \<Rightarrow> (Inl e, fs)
      | Inr pending \<Rightarrow>
        if \<not> stale pending version digest then (Inr pending, fs)
        else case kn_nonce env of Inl e \<Rightarrow> (Inl e, fs)
        | Inr nonce \<Rightarrow>
          (let p = \<lparr>rb_runner = rb_runner b, rb_key_id = rb_key_id b, rb_nonce = b64_encode nonce, rb_version = version,
                 rb_digest = digest, rb_ack = ''''\<rparr> in
           case atomic_file (kn_write env ''registration'') (kn_encode env p) (rf_registration fs) of
             (Some e, f) \<Rightarrow> (Inl e, fs\<lparr>rf_registration := f\<rparr>)
           | (None, f) \<Rightarrow> (Inr p, fs\<lparr>rf_registration := f\<rparr>)))"

definition open_keys :: "keys_env \<Rightarrow> string \<Rightarrow> string \<Rightarrow> runner_files \<Rightarrow> (gw_error + runner_keys) \<times> runner_files" where
  "open_keys env version digest fs =
     (case receipt_key env fs of (Inl e, fs1) \<Rightarrow> (Inl e, fs1)
      | (Inr raw, fs1) \<Rightarrow>
        if length raw \<noteq> 64 \<or> \<not> kn_key_ok env raw then (Inl (ErrMsg ''verification_key_invalid''), fs1)
        else case read_file env ''commitment'' (rf_commitment fs1) of
          Inr (Some c) \<Rightarrow>
            if length c \<noteq> 32 then (Inl (ErrMsg ''verification_key_missing''), fs1)
            else if \<not> kn_modes env then (Inl (ErrMsg ''verification_key_permissions''), fs1)
            else (case read_binding env ''binding'' (rf_binding fs1) of Inl e \<Rightarrow> (Inl e, fs1)
              | Inr b \<Rightarrow>
                (case registration env version digest b fs1 of (Inl e, fs2) \<Rightarrow> (Inl e, fs2)
                 | (Inr b', fs2) \<Rightarrow> (Inr \<lparr>rk_private = raw, rk_commitment = c, rk_binding = b'\<rparr>, fs2)))
        | _ \<Rightarrow> (Inl (ErrMsg ''verification_key_missing''), fs1))"

text \<open>The preview only reads.\<close>

definition load_preview_keys :: "keys_env \<Rightarrow> runner_files \<Rightarrow> gw_error + runner_keys" where
  "load_preview_keys env fs =
     (case read_file env ''receipt'' (rf_receipt fs) of
        Inr (Some raw) \<Rightarrow>
          if length raw \<noteq> 64 then Inl (ErrMsg ''verification_key_invalid'')
          else (case read_file env ''commitment'' (rf_commitment fs) of
            Inr (Some c) \<Rightarrow>
              if length c \<noteq> 32 then Inl (ErrMsg ''verification_key_missing'')
              else (case read_file env ''binding'' (rf_binding fs) of
                Inr (Some b) \<Rightarrow> (case kn_decode env b of Inl e \<Rightarrow> Inl e
                    | Inr bd \<Rightarrow> Inr \<lparr>rk_private = raw, rk_commitment = c, rk_binding = bd\<rparr>)
              | Inr None \<Rightarrow> Inl ErrStorage | Inl e \<Rightarrow> Inl e)
          | _ \<Rightarrow> Inl (ErrMsg ''verification_key_missing''))
      | Inr None \<Rightarrow> Inl ErrStorage | Inl e \<Rightarrow> Inl e)"

subsection \<open>Registration and its acknowledgement\<close>

text \<open>The registration document: the proof is a signature over the rest.\<close>

definition registration_body :: "(bytes \<Rightarrow> bytes) \<Rightarrow> runner_keys \<Rightarrow> string \<Rightarrow> string \<Rightarrow> (string \<times> json) list" where
  "registration_body public_of k gateway at =
     [(''gateway_id'', JStr gateway), (''image_digest'', JStr (rb_digest (rk_binding k))), (''op'', JStr ''scan_report''),
      (''receipt_public_key'', JStr (b64_encode (public_of (rk_private k)))), (''registered_at_utc'', JStr at),
      (''registration_nonce'', JStr (rb_nonce (rk_binding k))), (''scanner_version'', JStr (rb_version (rk_binding k))),
      (''variant'', JStr ''register'')]"

definition registration_document :: "documents \<Rightarrow> (bytes \<Rightarrow> bytes) \<Rightarrow> (bytes \<Rightarrow> string \<Rightarrow> bytes) \<Rightarrow> runner_keys \<Rightarrow> string \<Rightarrow> string
    \<Rightarrow> (string \<times> json) list option" where
  "registration_document dm public_of sign k gateway at =
     (let body = registration_body public_of k gateway at in
      case py_encode (dm_float dm) (JObj body) of None \<Rightarrow> None
      | Some raw \<Rightarrow> Some (body @ [(''key_proof'', JStr (b64_encode (sign (rk_private k) raw)))]))"

record runner_ack =
  ra2_op :: string
  ra2_variant :: string
  ra2_aud :: string
  ra2_iid :: string
  ra2_issued :: int
  ra2_nonce :: string
  ra2_runner :: string
  ra2_receipt :: string
  ra2_version :: string
  ra2_digest :: string

definition ack_fields :: "string list" where
  "ack_fields = words ''op variant aud iid iat registration_nonce runner_id receipt_key_id scanner_version image_digest''"

definition ack_ok :: "runner_ack \<Rightarrow> runner_binding \<Rightarrow> string \<Rightarrow> int \<Rightarrow> bool" where
  "ack_ok a b gateway at \<longleftrightarrow> ra2_op a = ''scan_spec'' \<and> ra2_variant a = ''registered'' \<and> ra2_aud a = gateway
     \<and> ra2_nonce a = rb_nonce b \<and> ra2_version a = rb_version b \<and> ra2_digest a = rb_digest b
     \<and> \<not> ra2_issued a < at - 300 \<and> \<not> ra2_issued a > at + 300
     \<and> valid_uuid (ra2_runner a) \<and> valid_uuid (ra2_receipt a) \<and> valid_uuid (ra2_iid a)
     \<and> \<not> (rb_runner b \<noteq> '''' \<and> (rb_runner b \<noteq> ra2_runner a \<or> rb_key_id b \<noteq> ra2_receipt a))"

text \<open>Acknowledge: an identity once given is never exchanged. The moment is in Unix seconds.\<close>

definition acknowledge :: "'k crypto \<Rightarrow> decoders \<Rightarrow> documents \<Rightarrow> (bytes \<Rightarrow> gw_error + runner_ack) \<Rightarrow> keys_env \<Rightarrow> string \<Rightarrow> string
    \<Rightarrow> named_keys \<Rightarrow> int \<Rightarrow> runner_keys \<times> runner_files \<Rightarrow> gw_error option \<times> runner_keys \<times> runner_files" where
  "acknowledge cr dc dm dec env token gateway pins at st =
     (case verify_control cr dc dm dec token ''aim-scan-runner-ack+jwt'' ack_fields pins 4096 of
        None \<Rightarrow> (Some err_verification, st)
      | Some (_, a) \<Rightarrow>
        (case st of (k, fs) \<Rightarrow>
          if \<not> ack_ok a (rk_binding k) gateway at then (Some err_verification, st)
          else
            (let b = (rk_binding k)\<lparr>rb_runner := ra2_runner a, rb_key_id := ra2_receipt a, rb_ack := token\<rparr> in
             case atomic_file (kn_write env ''binding'') (kn_encode env b) (rf_binding fs) of
               (Some e, f) \<Rightarrow> (Some e, k, fs\<lparr>rf_binding := f\<rparr>)
             | (None, f) \<Rightarrow> (None, k\<lparr>rk_binding := b\<rparr>, fs\<lparr>rf_binding := f\<rparr>))))"

text \<open>VerifyBinding: the retained acknowledgement at the moment it was issued.\<close>

definition verify_binding :: "'k crypto \<Rightarrow> decoders \<Rightarrow> documents \<Rightarrow> (bytes \<Rightarrow> gw_error + runner_ack) \<Rightarrow> (bytes \<Rightarrow> gw_error + int)
    \<Rightarrow> keys_env \<Rightarrow> string \<Rightarrow> named_keys \<Rightarrow> runner_keys \<times> runner_files \<Rightarrow> gw_error option \<times> runner_keys \<times> runner_files" where
  "verify_binding cr dc dm dec issued env gateway pins st =
     (let ack = rb_ack (rk_binding (fst st)) in
      if ack = '''' then (Some err_verification, st)
      else case split_on CHR ''.'' ack of
        [p0, p1, p2] \<Rightarrow>
          (case decode_document p1 4096 of None \<Rightarrow> (Some err_verification, st)
           | Some raw \<Rightarrow>
             (case issued raw of Inl e \<Rightarrow> (Some e, st)
              | Inr at \<Rightarrow> acknowledge cr dc dm dec env ack gateway pins at st))
      | _ \<Rightarrow> (Some err_verification, st))"

text \<open>timestamp: whole seconds without a fraction, else microseconds.\<close>

definition timestamp_text :: "(int \<Rightarrow> string) \<Rightarrow> (int \<Rightarrow> string) \<Rightarrow> int \<Rightarrow> string" where
  "timestamp_text plain micro t =
     (let u = t - t mod 1000 in if u mod 1000000000 = 0 then plain u else micro u)"

end
