(* ===== verification/KeysProps.thy ===== *)
theory KeysProps
  imports RunnerKeys ScanProps
begin

text \<open>
  The identity of the runner (internal/verification/keys.go): once keys and a binding are on the
  volume no opening, acknowledgement or crash exchanges them. An error of the directory sync of
  an acknowledgement is the exception.
\<close>

subsection \<open>The life of the volume\<close>

text \<open>The volume and the keys of the running process. An opening may be of any version, an
  acknowledgement of any token, and a crash loses the memory. The codec of bindings is fixed.\<close>

type_synonym volume = "runner_files \<times> runner_keys option"

definition codec_of :: "keys_env \<Rightarrow> (runner_binding \<Rightarrow> bytes) \<Rightarrow> (bytes \<Rightarrow> gw_error + runner_binding) \<Rightarrow> bool" where
  "codec_of env enc dec \<longleftrightarrow> kn_encode env = enc \<and> kn_decode env = dec \<and> (\<forall>n. kn_nonce env = Inr n \<longrightarrow> length n = 32)"

inductive keys_step :: "(runner_binding \<Rightarrow> bytes) \<Rightarrow> (bytes \<Rightarrow> gw_error + runner_binding) \<Rightarrow> volume \<Rightarrow> volume \<Rightarrow> bool"
  for enc dec where
  ks_open: "codec_of env enc dec \<Longrightarrow> open_keys env version digest fs = (r, fs')
     \<Longrightarrow> keys_step enc dec (fs, k) (fs', case r of Inl e \<Rightarrow> None | Inr k' \<Rightarrow> Some k')"
| ks_ack: "codec_of env enc dec \<Longrightarrow> at_after (kn_write env ''binding'') = None
     \<Longrightarrow> acknowledge (cr :: unit crypto) dc dm ad env token gateway pins at (k, fs) = (e, k', fs')
     \<Longrightarrow> keys_step enc dec (fs, Some k) (fs', Some k')"
| ks_crash: "keys_step enc dec (fs, k) (fs, None)"

definition no_files :: runner_files where
  "no_files = \<lparr>rf_receipt = None, rf_commitment = None, rf_binding = None, rf_registration = None\<rparr>"

definition identity_of :: "(bytes \<Rightarrow> gw_error + runner_binding) \<Rightarrow> runner_files \<Rightarrow> (string \<times> string) option" where
  "identity_of dec fs = (case rf_binding fs of None \<Rightarrow> None
     | Some b \<Rightarrow> (case dec b of Inl e \<Rightarrow> None | Inr bd \<Rightarrow> Some (rb_runner bd, rb_key_id bd)))"

subsection \<open>The invariant\<close>

definition same_identity :: "runner_binding \<Rightarrow> runner_binding \<Rightarrow> bool" where
  "same_identity a b \<longleftrightarrow> rb_runner a = rb_runner b \<and> rb_key_id a = rb_key_id b"

definition same_release :: "runner_binding \<Rightarrow> runner_binding \<Rightarrow> bool" where
  "same_release a b \<longleftrightarrow> rb_version a = rb_version b \<and> rb_digest a = rb_digest b"

text \<open>The binding and the registration on the volume as they are read; no binding is the empty one. A
  registration has the identity of the binding, or is of the release that was acknowledged, and the
  binding in memory has its identity and the release of one of them.\<close>

definition stored_ok :: "(runner_binding \<Rightarrow> bytes) \<Rightarrow> runner_files \<Rightarrow> runner_binding option \<Rightarrow> runner_binding option \<Rightarrow> bool" where
  "stored_ok enc fs b p \<longleftrightarrow> rf_binding fs = map_option enc b \<and> rf_registration fs = map_option enc p
     \<and> (case b of None \<Rightarrow> (case p of None \<Rightarrow> True | Some pd \<Rightarrow> same_identity pd no_binding)
        | Some bd \<Rightarrow> rb_runner bd \<noteq> [] \<and> rb_nonce bd \<noteq> []
            \<and> (case p of None \<Rightarrow> True | Some pd \<Rightarrow> same_identity pd bd \<or> same_release pd bd))"

definition loaded_ok :: "runner_files \<Rightarrow> runner_binding option \<Rightarrow> runner_binding option \<Rightarrow> runner_keys \<Rightarrow> bool" where
  "loaded_ok fs b p k \<longleftrightarrow> rb_nonce (rk_binding k) \<noteq> []
     \<and> (case b of None \<Rightarrow> same_identity (rk_binding k) no_binding \<and> (\<exists>pd. p = Some pd \<and> same_release (rk_binding k) pd)
        | Some bd \<Rightarrow> same_identity (rk_binding k) bd \<and> (same_release (rk_binding k) bd \<or> (\<exists>pd. p = Some pd \<and> same_release (rk_binding k) pd)))"

definition keys_inv :: "(runner_binding \<Rightarrow> bytes) \<Rightarrow> volume \<Rightarrow> bool" where
  "keys_inv enc st \<longleftrightarrow> (\<exists>b p. stored_ok enc (fst st) b p \<and> (case snd st of None \<Rightarrow> True | Some k \<Rightarrow> loaded_ok (fst st) b p k))"

text \<open>An opening writes the two keys once, both or neither being there before, and the registration.\<close>

definition keys_kept :: "runner_files \<Rightarrow> runner_files \<Rightarrow> bool" where
  "keys_kept fs fs' \<longleftrightarrow> (rf_receipt fs \<noteq> None \<longrightarrow> rf_receipt fs' = rf_receipt fs)
     \<and> (rf_commitment fs \<noteq> None \<longrightarrow> rf_commitment fs' = rf_commitment fs)"

lemma receipt_key_files:
  assumes "receipt_key env fs = (r, fs')"
  shows "keys_kept fs fs' \<and> rf_binding fs' = rf_binding fs \<and> rf_registration fs' = rf_registration fs"
  using assms unfolding receipt_key_def create_keys_def keys_kept_def atomic_file_def read_file_def
  by (auto simp: Let_def split: option.splits sum.splits if_splits prod.splits)

text \<open>The binding an opening goes on with, and the registration it leaves.\<close>

lemma registration_result:
  assumes "registration env version digest b fs = (r, fs')" and "codec_of env enc dec" and "\<forall>x. dec (enc x) = Inr x"
    and "rf_registration fs = map_option enc p"
  obtains p' where "fs' = fs\<lparr>rf_registration := map_option enc p'\<rparr>"
    and "p' = p \<or> (\<exists>q. p' = Some q \<and> same_identity q b)"
    and "\<And>k. r = Inr k \<Longrightarrow> rb_nonce k \<noteq> [] \<and> (k = b \<and> p' = p \<or> p' = Some k \<and> (same_identity k b \<or> p' = p \<and> stale b (rb_version k) (rb_digest k)))"
proof -
  have codec: "kn_encode env = enc" "kn_decode env = dec" using assms(2) by (simp_all add: codec_of_def)
  consider (same) "\<not> stale b version digest" | (unread) e where "stale b version digest" "read_binding env ''registration'' (rf_registration fs) = Inl e"
    | (pending) q where "stale b version digest" "read_binding env ''registration'' (rf_registration fs) = Inr q" "\<not> stale q version digest"
    | (fresh) q where "stale b version digest" "read_binding env ''registration'' (rf_registration fs) = Inr q" "stale q version digest"
    by (cases "read_binding env ''registration'' (rf_registration fs)") blast+
  then show thesis
  proof cases
    case same
    then show thesis using assms(1,4) by (intro that [of p]) (auto simp: registration_def stale_def)
  next
    case unread
    then show thesis using assms(1,4) by (intro that [of p]) (auto simp: registration_def)
  next
    case pending
    then have "q \<noteq> no_binding" by (auto simp: stale_def no_binding_def)
    then have "p = Some q" using pending(2) assms(3,4) codec
      by (auto simp: read_binding_def read_file_def split: option.splits)
    moreover have "r = Inr q" "fs' = fs" using assms(1) pending by (simp_all add: registration_def)
    moreover have "stale b (rb_version q) (rb_digest q)" "rb_nonce q \<noteq> []" using pending by (auto simp: stale_def)
    ultimately show thesis using assms(4) by (intro that [of p]) auto
  next
    case fresh
    show thesis
    proof (cases "kn_nonce env")
      case (Inl e)
      then show thesis using assms(1,4) fresh by (intro that [of p]) (auto simp: registration_def)
    next
      case (Inr nonce)
      let ?q = "\<lparr>rb_runner = rb_runner b, rb_key_id = rb_key_id b, rb_nonce = b64_encode nonce, rb_version = version, rb_digest = digest, rb_ack = []\<rparr>"
      have "length nonce = 32" using assms(2) Inr by (simp add: codec_of_def)
      then have "length (b64_encode nonce) = 43" by (simp add: b64_encode_length encoded_len_def)
      then have n: "b64_encode nonce \<noteq> []" by auto
      have id: "same_identity ?q b" by (simp add: same_identity_def)
      show thesis
      proof (cases "at_before (kn_write env ''registration'')")
        case None
        then show thesis using assms(1) fresh Inr codec n id
          by (intro that [of "Some ?q"]) (auto simp: registration_def atomic_file_def Let_def split: option.splits)
      next
        case (Some e)
        then show thesis using assms(1,4) fresh Inr codec by (intro that [of p]) (auto simp: registration_def atomic_file_def Let_def)
      qed
    qed
  qed
qed


definition read_back :: "runner_binding option \<Rightarrow> runner_binding" where
  "read_back b = (case b of None \<Rightarrow> no_binding | Some bd \<Rightarrow> bd)"

lemma open_keys_steps:
  assumes "open_keys env version digest fs = (r, fs')"
  obtains fs1 rr where "receipt_key env fs = (rr, fs1)"
    and "(\<exists>e. r = Inl e) \<and> fs' = fs1 \<or> (\<exists>raw c bd r2. rf_commitment fs1 = Some c \<and> read_binding env ''binding'' (rf_binding fs1) = Inr bd
      \<and> registration env version digest bd fs1 = (r2, fs')
      \<and> r = (case r2 of Inl e \<Rightarrow> Inl e | Inr b \<Rightarrow> Inr \<lparr>rk_private = raw, rk_commitment = c, rk_binding = b\<rparr>))"
proof -
  obtain rr fs1 where rk: "receipt_key env fs = (rr, fs1)" by fastforce
  have "(\<exists>e. r = Inl e) \<and> fs' = fs1 \<or> (\<exists>raw c bd r2. rf_commitment fs1 = Some c \<and> read_binding env ''binding'' (rf_binding fs1) = Inr bd
      \<and> registration env version digest bd fs1 = (r2, fs')
      \<and> r = (case r2 of Inl e \<Rightarrow> Inl e | Inr b \<Rightarrow> Inr \<lparr>rk_private = raw, rk_commitment = c, rk_binding = b\<rparr>))"
    using assms rk unfolding open_keys_def
    by (auto simp: read_file_def [of env "''commitment''"] split: sum.splits if_splits option.splits prod.splits)
  then show thesis using that rk by blast
qed

lemma read_binding_back:
  assumes "read_binding env name (map_option enc b) = Inr bd" and "codec_of env enc dec" and "\<forall>x. dec (enc x) = Inr x"
  shows "bd = read_back b"
  using assms by (auto simp: read_binding_def read_file_def codec_of_def read_back_def split: option.splits)

lemma keys_inv_open:
  assumes "codec_of env enc dec" and "\<forall>x. dec (enc x) = Inr x" and "keys_inv enc (fs, k)"
    and "open_keys env version digest fs = (r, fs')"
  shows "keys_inv enc (fs', case r of Inl e \<Rightarrow> None | Inr k' \<Rightarrow> Some k') \<and> keys_kept fs fs' \<and> rf_binding fs' = rf_binding fs"
proof -
  from assms(3) obtain b p where st: "stored_ok enc fs b p" by (auto simp: keys_inv_def)
  obtain fs1 rr where rk: "receipt_key env fs = (rr, fs1)" and cs: "(\<exists>e. r = Inl e) \<and> fs' = fs1
      \<or> (\<exists>raw c bd r2. rf_commitment fs1 = Some c \<and> read_binding env ''binding'' (rf_binding fs1) = Inr bd
      \<and> registration env version digest bd fs1 = (r2, fs')
      \<and> r = (case r2 of Inl e \<Rightarrow> Inl e | Inr b \<Rightarrow> Inr \<lparr>rk_private = raw, rk_commitment = c, rk_binding = b\<rparr>))"
    using open_keys_steps [OF assms(4)] .
  note fs1 = receipt_key_files [OF rk]
  then have st1: "stored_ok enc fs1 b p" using st by (simp add: stored_ok_def)
  from cs show ?thesis
  proof
    assume "(\<exists>e. r = Inl e) \<and> fs' = fs1"
    then have "keys_inv enc (fs', case r of Inl e \<Rightarrow> None | Inr k' \<Rightarrow> Some k')" unfolding keys_inv_def using st1
      by (intro exI [of _ b] exI [of _ p]) auto
    then show ?thesis using fs1 \<open>(\<exists>e. r = Inl e) \<and> fs' = fs1\<close> by blast
  next
    assume "\<exists>raw c bd r2. rf_commitment fs1 = Some c \<and> read_binding env ''binding'' (rf_binding fs1) = Inr bd
      \<and> registration env version digest bd fs1 = (r2, fs')
      \<and> r = (case r2 of Inl e \<Rightarrow> Inl e | Inr b \<Rightarrow> Inr \<lparr>rk_private = raw, rk_commitment = c, rk_binding = b\<rparr>)"
    then obtain raw c bd r2 where c: "rf_commitment fs1 = Some c" and bd: "read_binding env ''binding'' (rf_binding fs1) = Inr bd"
      and reg: "registration env version digest bd fs1 = (r2, fs')"
      and r: "r = (case r2 of Inl e \<Rightarrow> Inl e | Inr b \<Rightarrow> Inr \<lparr>rk_private = raw, rk_commitment = c, rk_binding = b\<rparr>)" by blast
    have bd': "bd = read_back b" using read_binding_back [OF _ assms(1,2)] bd st1 by (simp add: stored_ok_def)
    have "rf_registration fs1 = map_option enc p" using st1 by (simp add: stored_ok_def)
    from registration_result [OF reg assms(1,2) this] obtain p' where fs': "fs' = fs1\<lparr>rf_registration := map_option enc p'\<rparr>"
      and p': "p' = p \<or> (\<exists>q. p' = Some q \<and> same_identity q bd)"
      and k: "\<And>k. r2 = Inr k \<Longrightarrow> rb_nonce k \<noteq> [] \<and> (k = bd \<and> p' = p \<or> p' = Some k \<and> (same_identity k bd \<or> p' = p \<and> stale bd (rb_version k) (rb_digest k)))" by blast
    have st': "stored_ok enc fs' b p'"
      using st1 p' unfolding fs' bd' by (auto simp: stored_ok_def read_back_def split: option.splits)
    have "loaded_ok fs' b p' \<lparr>rk_private = raw, rk_commitment = c, rk_binding = x\<rparr>" if x: "r2 = Inr x" for x
      using k [OF x] st1 unfolding bd' loaded_ok_def stored_ok_def
      by (auto simp: read_back_def no_binding_def same_identity_def same_release_def stale_def split: option.splits)
    then have "keys_inv enc (fs', case r of Inl e \<Rightarrow> None | Inr k' \<Rightarrow> Some k')"
      unfolding keys_inv_def r using st' by (auto split: sum.splits option.splits)
    moreover have "keys_kept fs fs' \<and> rf_binding fs' = rf_binding fs" using fs1 by (simp add: fs' keys_kept_def)
    ultimately show ?thesis by blast
  qed
qed

text \<open>An acknowledgement that is stored has the identity there was, or gives the first.\<close>

lemma acknowledge_cases:
  assumes "acknowledge cr dc dm ad env token gateway pins at (k, fs) = (e, k', fs')" and "at_after (kn_write env ''binding'') = None"
  obtains "k' = k" "fs' = fs"
  | a b where "ack_ok a (rk_binding k) gateway at" "b = (rk_binding k)\<lparr>rb_runner := ra2_runner a, rb_key_id := ra2_receipt a, rb_ack := token\<rparr>"
      "k' = k\<lparr>rk_binding := b\<rparr>" "fs' = fs\<lparr>rf_binding := Some (kn_encode env b)\<rparr>"
proof -
  have "k' = k \<and> fs' = fs \<or> (\<exists>a. ack_ok a (rk_binding k) gateway at
      \<and> k' = k\<lparr>rk_binding := (rk_binding k)\<lparr>rb_runner := ra2_runner a, rb_key_id := ra2_receipt a, rb_ack := token\<rparr>\<rparr>
      \<and> fs' = fs\<lparr>rf_binding := Some (kn_encode env ((rk_binding k)\<lparr>rb_runner := ra2_runner a, rb_key_id := ra2_receipt a, rb_ack := token\<rparr>))\<rparr>)"
    using assms unfolding acknowledge_def atomic_file_def
    by (auto simp: Let_def split: option.splits if_splits prod.splits)
  then show thesis using that by blast
qed

lemma keys_inv_ack:
  assumes "codec_of env enc dec" and "\<forall>x. dec (enc x) = Inr x" and "keys_inv enc (fs, Some k)"
    and "acknowledge cr dc dm ad env token gateway pins at (k, fs) = (e, k', fs')" and "at_after (kn_write env ''binding'') = None"
  shows "keys_inv enc (fs', Some k') \<and> keys_kept fs fs' \<and> (identity_of dec fs \<noteq> None \<longrightarrow> identity_of dec fs' = identity_of dec fs)"
proof (cases rule: acknowledge_cases [OF assms(4,5)])
  case 1
  then show ?thesis using assms(3) by (simp add: keys_kept_def)
next
  case (2 a b)
  from assms(3) obtain b0 p where st: "stored_ok enc fs b0 p" and ld: "loaded_ok fs b0 p k" by (auto simp: keys_inv_def)
  have "valid_uuid (ra2_runner a)" using 2(1) by (simp add: ack_ok_def)
  then have ne: "rb_runner b \<noteq> []" using 2(2) by (auto simp: valid_uuid_def)
  have keep: "same_identity b (rk_binding k)" if "rb_runner (rk_binding k) \<noteq> []"
    using 2(1,2) that by (auto simp: ack_ok_def same_identity_def)
  have st': "stored_ok enc fs' (Some b) p"
    using st ld 2(2,4) ne keep assms(1) unfolding stored_ok_def loaded_ok_def codec_of_def
    by (auto simp: same_identity_def same_release_def no_binding_def split: option.splits)
  have ld': "loaded_ok fs' (Some b) p k'"
    using ld 2(2,3) by (auto simp: loaded_ok_def same_identity_def same_release_def)
  have "identity_of dec fs' = identity_of dec fs" if "identity_of dec fs \<noteq> None"
  proof -
    from that st assms(2) obtain bd where bd: "b0 = Some bd" by (auto simp: identity_of_def stored_ok_def split: option.splits)
    then have "same_identity b bd" using st ld keep by (auto simp: stored_ok_def loaded_ok_def same_identity_def)
    then show ?thesis using bd st assms(1,2) 2(4) by (simp add: identity_of_def stored_ok_def same_identity_def codec_of_def)
  qed
  then show ?thesis using st' ld' 2(4) by (auto simp: keys_inv_def keys_kept_def)
qed

lemma keys_step_inv:
  assumes "keys_step enc dec st st'" and "\<forall>x. dec (enc x) = Inr x" and "keys_inv enc st"
  shows "keys_inv enc st' \<and> keys_kept (fst st) (fst st')
    \<and> (identity_of dec (fst st) \<noteq> None \<longrightarrow> identity_of dec (fst st') = identity_of dec (fst st))"
  using assms(1)
proof cases
  case (ks_open env version digest fs r fs' k)
  then show ?thesis using keys_inv_open [OF ks_open(3) assms(2) _ ks_open(4)] assms(3)
    by (simp add: identity_of_def)
next
  case (ks_ack env cr dc dm ad token gateway pins at k fs e k' fs')
  then show ?thesis using keys_inv_ack [OF ks_ack(3) assms(2) _ ks_ack(5,4)] assms(3) by simp
next
  case (ks_crash fs k)
  then show ?thesis using assms(3) by (auto simp: keys_inv_def keys_kept_def)
qed

lemma keys_run_inv:
  assumes "(keys_step enc dec)\<^sup>*\<^sup>* st st'" and "\<forall>x. dec (enc x) = Inr x" and "keys_inv enc st"
  shows "keys_inv enc st' \<and> keys_kept (fst st) (fst st')
    \<and> (identity_of dec (fst st) \<noteq> None \<longrightarrow> identity_of dec (fst st') = identity_of dec (fst st))"
  using assms(1)
proof induction
  case base
  then show ?case using assms(3) by (simp add: keys_kept_def)
next
  case (step y z)
  then show ?case using keys_step_inv [OF step(2) assms(2)] by (auto simp: keys_kept_def)
qed

lemma keys_inv_start: "keys_inv enc (no_files, None)"
  unfolding keys_inv_def by (auto simp: stored_ok_def no_files_def intro!: exI [of _ None])



subsection \<open>An example\<close>

text \<open>A codec of bindings: every text after its length in unary.\<close>

definition put_text :: "string \<Rightarrow> bytes" where
  "put_text f = replicate (length f) CHR ''+'' @ CHR ''.'' # f"

definition get_text :: "bytes \<Rightarrow> string \<times> bytes" where
  "get_text s = (let n = length (takeWhile (\<lambda>c. c = CHR ''+'') s) in (take n (drop (n + 1) s), drop (n + 1 + n) s))"

lemma get_put: "get_text (put_text f @ r) = (f, r)"
proof -
  have "takeWhile (\<lambda>c. c = CHR ''+'') (put_text f @ r) = replicate (length f) CHR ''+''"
    by (simp add: put_text_def takeWhile_append)
  then show ?thesis by (simp add: get_text_def put_text_def)
qed

definition put_binding :: "runner_binding \<Rightarrow> bytes" where
  "put_binding b = put_text (rb_runner b) @ put_text (rb_key_id b) @ put_text (rb_nonce b) @ put_text (rb_version b)
     @ put_text (rb_digest b) @ put_text (rb_ack b) @ []"

definition get_binding :: "bytes \<Rightarrow> gw_error + runner_binding" where
  "get_binding s = (case get_text s of (a, s) \<Rightarrow> case get_text s of (b, s) \<Rightarrow> case get_text s of (c, s) \<Rightarrow>
     case get_text s of (d, s) \<Rightarrow> case get_text s of (e, s) \<Rightarrow> case get_text s of (f, s) \<Rightarrow>
     Inr \<lparr>rb_runner = a, rb_key_id = b, rb_nonce = c, rb_version = d, rb_digest = e, rb_ack = f\<rparr>)"

lemma get_put_binding: "get_binding (put_binding b) = Inr b"
  unfolding get_binding_def put_binding_def by (simp only: get_put prod.case) simp

definition volume_env :: keys_env where
  "volume_env = \<lparr>kn_seed = Inr ''s'', kn_secret = Inr (zeros 32), kn_nonce = Inr (zeros 32), kn_make = (\<lambda>_. zeros 64), kn_key_ok = (\<lambda>_. True),
     kn_modes = True, kn_encode = put_binding, kn_decode = get_binding, kn_read = (\<lambda>_. None), kn_write = (\<lambda>_. \<lparr>at_before = None, at_after = None\<rparr>)\<rparr>"

definition ack_claims :: "(string \<times> json) list" where
  "ack_claims = map (\<lambda>k. (k, JBool True)) [''aud'', ''iat'', ''iid'', ''image_digest'', ''op'', ''receipt_key_id'', ''registration_nonce'',
     ''runner_id'', ''scanner_version'', ''variant'']"

definition first_nonce :: string where "first_nonce = b64_encode (zeros 32)"

definition demo_ack :: runner_ack where
  "demo_ack = \<lparr>ra2_op = ''scan_spec'', ra2_variant = ''registered'', ra2_aud = ''g'', ra2_iid = demo_id, ra2_issued = 0, ra2_nonce = first_nonce,
     ra2_runner = demo_id, ra2_receipt = demo_id, ra2_version = ''1'', ra2_digest = ''d''\<rparr>"

definition ack_token :: string where "ack_token = made_token ''aim-scan-runner-ack+jwt'' (JObj ack_claims)"

lemma ack_accepted:
  "verify_control fixed_crypto (header_decoders ''aim-scan-runner-ack+jwt'') (plain_documents id) (\<lambda>_. Inr demo_ack) ack_token
     ''aim-scan-runner-ack+jwt'' ack_fields [(''k1'', fixed_key)] 4096 = Some (''k1'', demo_ack)"
proof -
  have p: "plain ''aim-scan-runner-ack+jwt''" "plain_json (JObj ack_claims)" by code_simp+
  have f: "length ack_claims = length ack_fields" "list_all (\<lambda>n. field ack_claims n \<noteq> None) ack_fields" by code_simp+
  have size: "length (canonical (JObj ack_claims)) \<le> 1000" using length_canonical [OF p(2)] by (simp add: ack_claims_def)
  have "length ack_token \<le> 4096"
    using made_token_length [OF p(1), of "JObj ack_claims"] size by (simp add: ack_token_def encoded_len_def)
  then show ?thesis unfolding ack_token_def
    by (rule made_token_accepted [OF p(1), rotated -2]) (use p f size in \<open>simp_all add: plain_documents_def ack_claims_def\<close>)
qed

definition first_binding :: runner_binding where
  "first_binding = \<lparr>rb_runner = [], rb_key_id = [], rb_nonce = first_nonce, rb_version = ''1'', rb_digest = ''d'', rb_ack = []\<rparr>"

definition first_files :: runner_files where
  "first_files = \<lparr>rf_receipt = Some (zeros 64), rf_commitment = Some (zeros 32), rf_binding = None, rf_registration = Some (put_binding first_binding)\<rparr>"

definition first_keys :: runner_keys where
  "first_keys = \<lparr>rk_private = zeros 64, rk_commitment = zeros 32, rk_binding = first_binding\<rparr>"

definition bound :: runner_binding where
  "bound = first_binding\<lparr>rb_runner := demo_id, rb_key_id := demo_id, rb_ack := ack_token\<rparr>"

lemma first_opening: "open_keys volume_env ''1'' ''d'' no_files = (Inr first_keys, first_files)"
  by (simp add: open_keys_def receipt_key_def create_keys_def read_file_def read_binding_def registration_def stale_def no_files_def volume_env_def
      atomic_file_def Let_def no_binding_def first_files_def first_keys_def first_binding_def first_nonce_def zeros_def)

lemma first_ack: "acknowledge fixed_crypto (header_decoders ''aim-scan-runner-ack+jwt'') (plain_documents id) (\<lambda>_. Inr demo_ack) volume_env ack_token
    ''g'' [(''k1'', fixed_key)] 0 (first_keys, first_files)
    = (None, first_keys\<lparr>rk_binding := bound\<rparr>, first_files\<lparr>rf_binding := Some (put_binding bound)\<rparr>)"
proof -
  have "ack_ok demo_ack (rk_binding first_keys) ''g'' 0"
    using demo_texts by (simp add: ack_ok_def demo_ack_def first_keys_def first_binding_def)
  then show ?thesis
    by (simp add: acknowledge_def ack_accepted atomic_file_def volume_env_def Let_def bound_def)
      (simp add: demo_ack_def first_keys_def)
qed

lemma volume_codec: "codec_of volume_env put_binding get_binding"
  by (simp add: codec_of_def volume_env_def zeros_def)


subsection \<open>The exception\<close>

text \<open>When the sync of the directory fails after the rename, the acknowledgement is refused although its
  binding is on the volume, and the next one may name another runner: the stored identity changes.\<close>

lemma sync_error_changes_identity:
  assumes "verify_control cr dc dm ad token ''aim-scan-runner-ack+jwt'' ack_fields pins 4096 = Some (kid, a)"
    and "verify_control cr dc dm ad token' ''aim-scan-runner-ack+jwt'' ack_fields pins 4096 = Some (kid', a')"
    and "ack_ok a (rk_binding k) gateway at" and "ack_ok a' (rk_binding k) gateway at'" and "rb_runner (rk_binding k) = []"
    and "kn_write env ''binding'' = \<lparr>at_before = None, at_after = Some e\<rparr>" and "kn_write env' ''binding'' = \<lparr>at_before = None, at_after = None\<rparr>"
    and "kn_encode env = enc" and "kn_encode env' = enc" and "\<forall>x. dec (enc x) = Inr x"
  shows "\<exists>fs1 k2 fs2. acknowledge cr dc dm ad env token gateway pins at (k, fs) = (Some e, k, fs1)
    \<and> acknowledge cr dc dm ad env' token' gateway pins at' (k, fs1) = (None, k2, fs2)
    \<and> identity_of dec fs1 = Some (ra2_runner a, ra2_receipt a) \<and> identity_of dec fs2 = Some (ra2_runner a', ra2_receipt a')"
  using assms by (simp add: acknowledge_def atomic_file_def Let_def identity_of_def)

end
