(* ===== verification/RunnerSource.thy ===== *)
theory RunnerSource
  imports ScanSpec RunnerKeys LedgerPrepare Config Inventory
begin

text \<open>
  internal/verification/runner.go, the source of a scan and its documents: the checks before a
  byte is read, the rules for hidden columns, the policy given to the scanner, and the report,
  terminal and probe documents with their signatures. The files of the disk, the discovery of a
  schema and the scanner itself are arguments.
\<close>

subsection \<open>The pinned source\<close>

text \<open>An open file: its first bytes, and the names in its schema under a format.\<close>

record open_handle =
  hn_first :: "gw_error + bytes"
  hn_schema :: "string \<Rightarrow> gw_error + string list"
  hn_seek :: "gw_error option"

text \<open>What the source looks at: the ledger, the configuration, whether the runner has failed, the
  context, the faults of the queries, the matching of globs and the real paths, the opening of files.\<close>

record source_view =
  sv_ledger :: ledger
  sv_config :: config
  sv_health :: "gw_error option"
  sv_ctx :: "gw_error option"
  sv_db :: "string \<Rightarrow> gw_error option"
  sv_glob :: "string \<Rightarrow> string \<Rightarrow> bool"
  sv_real :: "string \<Rightarrow> string option"
  sv_open :: "file_row \<Rightarrow> gw_error + open_handle"
  sv_json_valid :: "string \<Rightarrow> bool"

definition err_changed :: gw_error where "err_changed = ErrMsg ''artifact_changed''"
definition err_e7 :: gw_error where "err_e7 = ErrMsg ''columns_hidden''"
definition err_budget :: gw_error where "err_budget = ErrMsg ''resource_limit_exceeded''"

text \<open>Ledger.File.\<close>

definition query_file :: "source_view \<Rightarrow> string \<Rightarrow> gw_error + file_row" where
  "query_file v fid = (case sv_db v ''file'' of Some e \<Rightarrow> Inl e
     | None \<Rightarrow> (case file_of fid (sv_ledger v) of None \<Rightarrow> Inl ErrNoRows | Some f \<Rightarrow> Inr f))"

text \<open>The index of the members; of two with one identity the later counts.\<close>

definition member_of :: "snapshot \<Rightarrow> string \<Rightarrow> snapshot_member option" where
  "member_of s fid = map_of (rev (map (\<lambda>m. (sm_fid m, m)) (sn_members s))) fid"

text \<open>The offer of the pinned content, and no other active offer.\<close>

definition offer_allows :: "source_view \<Rightarrow> string \<Rightarrow> string \<Rightarrow> string \<Rightarrow> bool" where
  "offer_allows v fid sha lvid =
     (case sv_db v ''offer'' of Some e \<Rightarrow> False
      | None \<Rightarrow> (case offer_of fid sha lvid (sv_ledger v) of None \<Rightarrow> False
          | Some r \<Rightarrow> of_state r = ''offered'' \<and> of_key_class r = ''listing''
              \<and> \<not> (cfg_requires_local_approval (sv_config v) \<and> of_approved_at r = None)))"

definition superseded :: "source_view \<Rightarrow> string \<Rightarrow> string \<Rightarrow> bool" where
  "superseded v fid lvid = (count_rows (\<lambda>r. of_fid r = fid \<and> of_state r = ''offered'' \<and> of_lvid r \<noteq> lvid) (lg_offers (sv_ledger v)) > 0)"

definition check_member :: "source_view \<Rightarrow> snapshot \<Rightarrow> string \<Rightarrow> gw_error + file_row" where
  "check_member v s fid =
     (case member_of s fid of None \<Rightarrow> Inl err_changed
      | Some m \<Rightarrow>
        (case query_file v fid of Inl e \<Rightarrow> Inl e
         | Inr f \<Rightarrow>
           if \<not> cfg_verification_enabled (sv_config v) \<or> \<not> file_present f \<or> file_changed f \<or> fl_sha f \<noteq> sm_sha m
             \<or> fl_size f \<noteq> sm_size m \<or> \<not> within_ceiling (sv_glob v) (sv_real v) (sv_config v) f then Inl err_changed
           else if \<not> offer_allows v fid (sm_sha m) (sn_lvid s) then Inl err_changed
           else (case sv_db v ''superseding'' of Some e \<Rightarrow> Inl e
             | None \<Rightarrow> if superseded v fid (sn_lvid s) then Inl err_changed else Inr f)))"

text \<open>metadata: the first member that fails.\<close>

definition metadata :: "source_view \<Rightarrow> snapshot \<Rightarrow> gw_error option" where
  "metadata v s = first_error (map (\<lambda>m. case check_member v s (sm_fid m) of Inl e \<Rightarrow> Some e | Inr f \<Rightarrow> None) (sn_members s))"

definition open_source :: "source_view \<Rightarrow> snapshot \<Rightarrow> string list \<Rightarrow> string \<Rightarrow> gw_error + open_handle" where
  "open_source v s failed fid =
     (if fid \<in> set failed then Inl err_changed
      else case sv_health v of Some e \<Rightarrow> Inl e
      | None \<Rightarrow> (case sv_ctx v of Some e \<Rightarrow> Inl e
        | None \<Rightarrow> (case check_member v s fid of Inl e \<Rightarrow> Inl e | Inr f \<Rightarrow> sv_open v f)))"

definition kind_of :: "string \<Rightarrow> string" where
  "kind_of media = (case map_of [(''text/csv'', ''csv''), (''text/tab-separated-values'', ''tsv''), (''application/x-ndjson'', ''jsonl''),
     (''application/vnd.apache.parquet'', ''parquet'')] media of None \<Rightarrow> ''unsupported'' | Some k \<Rightarrow> k)"

definition content_format :: "source_view \<Rightarrow> open_handle \<Rightarrow> gw_error + string" where
  "content_format v h = (case hn_first h of Inl e \<Rightarrow> Inl e
     | Inr b \<Rightarrow> (case hn_seek h of Some e \<Rightarrow> Inl e | None \<Rightarrow> Inr (kind_of (detect (sv_json_valid v) (take 4096 b)))))"

text \<open>affected: a column that the settings rename or drop.\<close>

definition affected :: "column_rule \<Rightarrow> string list \<Rightarrow> bool" where
  "affected r names = list_ex (\<lambda>n. n \<in> fst ` set (col_rename r) \<or> n \<in> set (col_drop r)) names"

definition hidden :: "config \<Rightarrow> file_row \<Rightarrow> string list \<Rightarrow> bool" where
  "hidden c f names = affected (find_column_rule c (fl_source f) (fl_path f)) names"

definition checked_open :: "source_view \<Rightarrow> snapshot \<Rightarrow> string list \<Rightarrow> string \<Rightarrow> gw_error + open_handle" where
  "checked_open v s failed fid =
     (case open_source v s failed fid of Inl e \<Rightarrow> Inl e
      | Inr h \<Rightarrow>
        (case content_format v h of Inl e \<Rightarrow> Inl e
         | Inr fmt \<Rightarrow>
           (case hn_schema h fmt of Inl e \<Rightarrow> Inl e
            | Inr names \<Rightarrow>
              (case query_file v fid of Inl e \<Rightarrow> Inl e
               | Inr f \<Rightarrow> if hidden (sv_config v) f names then Inl err_e7
                   else (case hn_seek h of Some e \<Rightarrow> Inl e | None \<Rightarrow> Inr h)))))"

text \<open>Members: a member that cannot be opened or read has no format and fails from then on.\<close>

record core_member =
  cm_identity :: string
  cm_size :: int
  cm_sha :: string
  cm_format :: string

definition member_format :: "source_view \<Rightarrow> snapshot \<Rightarrow> snapshot_member \<Rightarrow> gw_error + string" where
  "member_format v s m = (case open_source v s [] (sm_fid m) of Inl e \<Rightarrow> Inl e | Inr h \<Rightarrow> content_format v h)"

definition core_members :: "source_view \<Rightarrow> snapshot \<Rightarrow> core_member list" where
  "core_members v s = map (\<lambda>m. \<lparr>cm_identity = sm_fid m, cm_size = sm_size m, cm_sha = sm_sha m,
     cm_format = (case member_format v s m of Inl e \<Rightarrow> '''' | Inr k \<Rightarrow> k)\<rparr>) (sn_members s)"

definition failed_members :: "source_view \<Rightarrow> snapshot \<Rightarrow> string list" where
  "failed_members v s = map sm_fid (filter (\<lambda>m. case member_format v s m of Inl e \<Rightarrow> True | Inr k \<Rightarrow> False) (sn_members s))"

text \<open>What the scanner is given: the members, and the opening of one after their listing.\<close>

record core_source =
  cs_members :: "core_member list"
  cs_open :: "string \<Rightarrow> gw_error + open_handle"

definition core_source_of :: "source_view \<Rightarrow> snapshot \<Rightarrow> core_source" where
  "core_source_of v s = \<lparr>cs_members = core_members v s, cs_open = checked_open v s (failed_members v s)\<rparr>"

subsection \<open>Eligibility\<close>

text \<open>One member: skipped when its content is of no table format; the bound on the size of the
  schemas grows with the names.\<close>

definition schema_bound :: "string list \<Rightarrow> nat" where
  "schema_bound names = 512 + sum_list (map (\<lambda>n. length n * 6 + 768) names)"

definition member_names :: "source_view \<Rightarrow> snapshot \<Rightarrow> string \<Rightarrow> gw_error + (file_row \<times> string list option)" where
  "member_names v s fid =
     (case query_file v fid of Inl e \<Rightarrow> Inl e
      | Inr f \<Rightarrow>
        (case open_source v s [] fid of Inl e \<Rightarrow> Inl e
         | Inr h \<Rightarrow>
           (case content_format v h of Inl e \<Rightarrow> Inl e
            | Inr fmt \<Rightarrow>
              if fmt = ''unsupported'' then Inr (f, None)
              else (case hn_schema h fmt of Inl e \<Rightarrow> Inl e | Inr names \<Rightarrow> Inr (f, Some names)))))"

fun eligibility_loop :: "source_view \<Rightarrow> snapshot \<Rightarrow> snapshot_member list \<Rightarrow> nat \<Rightarrow> string list \<Rightarrow> string list \<times> gw_error option" where
  "eligibility_loop v s [] bound out = (out, None)"
| "eligibility_loop v s (m # ms) bound out =
     (case member_names v s (sm_fid m) of Inl e \<Rightarrow> (out, Some e)
      | Inr (f, None) \<Rightarrow> eligibility_loop v s ms bound out
      | Inr (f, Some names) \<Rightarrow>
        (let b = bound + schema_bound names in
         if b > 8192 * 3 then (out, Some err_budget)
         else eligibility_loop v s ms b (if hidden (sv_config v) f names then out @ [sm_fid m] else out)))"

definition eligibility :: "source_view \<Rightarrow> snapshot \<Rightarrow> string list \<times> gw_error option" where
  "eligibility v s = eligibility_loop v s (sn_members s) 512 []"

subsection \<open>The scan_policy of a scan\<close>

record scan_policy =
  po_canonicalization :: string
  po_row_count :: string
  po_distinct :: string
  po_histogram :: string
  po_numeric :: string
  po_occupancy :: nat
  po_lengths :: "nat list"
  po_boundaries :: "int list"
  po_memory :: nat
  po_record :: nat
  po_scalar :: nat
  po_columns :: nat
  po_facts :: nat
  po_deadline :: int
  po_gateway :: string
  po_snapshot :: string
  po_commitment :: bytes
  po_seed :: bytes

text \<open>\<open>hex.DecodeString\<close> up to the first fault, copied into an array of 32 bytes.\<close>

fun hex_bytes :: "string \<Rightarrow> bytes" where
  "hex_bytes (a # b # s) = (if is_lower_hex a \<and> is_lower_hex b then char_of (hex_val a * 16 + hex_val b) # hex_bytes s else [])"
| "hex_bytes _ = []"

definition array32 :: "bytes \<Rightarrow> bytes" where
  "array32 b = take 32 (b @ replicate 32 CHR 0x00)"

definition policy_of :: "scan_job \<Rightarrow> runner_keys \<Rightarrow> scan_policy" where
  "policy_of j k = \<lparr>po_canonicalization = ''python-json-sort-compact-v1'', po_row_count = ''exact-v1'', po_distinct = ''hll-sha256-v1'',
     po_histogram = ''fixed-buckets-v1'', po_numeric = ''fixed-buckets-v1'', po_occupancy = 10,
     po_lengths = [0, 1, 4, 8, 16, 32, 64, 128, 256], po_boundaries = [-1000, -100, -10, 0, 10, 100, 1000],
     po_memory = 134217728, po_record = 16777216, po_scalar = 16777216, po_columns = 1000, po_facts = 32768, po_deadline = sec 1800,
     po_gateway = se_aud (sj_env j), po_snapshot = job_text j ''manifest_hash'', po_commitment = rk_commitment k,
     po_seed = array32 (hex_bytes (job_text j ''deterministic_seed''))\<rparr>"

subsection \<open>Documents\<close>

text \<open>The totals by size: large as soon as one member or the sum reaches a hundred million bytes.\<close>

fun size_class_loop :: "snapshot_member list \<Rightarrow> int \<Rightarrow> string" where
  "size_class_loop [] n = (if n < 10000000 then ''small'' else if n < 100000000 then ''medium'' else ''large'')"
| "size_class_loop (m # ms) n = (if sm_size m \<ge> 100000000 \<or> n \<ge> 100000000 then ''large'' else size_class_loop ms (n + sm_size m))"

definition size_class :: "snapshot \<Rightarrow> string" where
  "size_class s = size_class_loop (sn_members s) 0"

definition error_code :: "gw_error \<Rightarrow> string" where
  "error_code e = (if e = err_changed then ''artifact_changed''
     else if e = ErrMsg ''timeout'' \<or> e = ErrMsg ''context deadline exceeded'' then ''timeout''
     else if e = ErrMsg ''unsupported_type'' then ''unsupported_type''
     else if e = ErrMsg ''permission denied'' then ''permission_denied''
     else if e = ErrMsg ''file does not exist'' then ''source_unreachable''
     else ''scanner_failure'')"

text \<open>A job with the version and the receipt key it was admitted under.\<close>

record work =
  wk_job :: scan_job
  wk_snapshot :: snapshot
  wk_version :: string
  wk_receipt :: string

definition copied :: "scan_job \<Rightarrow> string list \<Rightarrow> (string \<times> json) list" where
  "copied j ks = map (\<lambda>k. (k, case map_of (sj_payload j) k of None \<Rightarrow> JNull | Some v \<Rightarrow> v)) ks"

definition terminal_document :: "(int \<Rightarrow> string) \<Rightarrow> scan_job \<Rightarrow> string \<Rightarrow> string \<Rightarrow> string \<Rightarrow> int \<Rightarrow> (string \<times> json) list" where
  "terminal_document stamp j version key code at =
     (copied j (words ''verification_id listing_id source_handle_id spec_id spec_version connector_type connector_version'')
      @ [(''spec_hash'', JStr (se_spec_hash (sj_env j))), (''nonce_echo'', JStr (job_text j ''nonce'')),
         (''install_key_id'', JStr key), (''agent_version'', JStr version), (''terminal_error_code'', JStr code),
         (''completed_at_utc'', JStr (stamp at)), (''canonicalization_version'', JStr ''python-json-sort-compact-v1''),
         (''signature_algorithm'', JStr ''Ed25519'')])"

record facts =
  fc_locator :: string
  fc_content :: string
  fc_coverage :: json
  fc_objects :: json
  fc_fingerprint :: string

text \<open>Whole milliseconds, truncated toward zero.\<close>

definition milliseconds :: "int \<Rightarrow> int" where
  "milliseconds d = (if d < 0 then - ((- d) div 1000000) else d div 1000000)"

definition report_document :: "(int \<Rightarrow> string) \<Rightarrow> work \<Rightarrow> facts \<Rightarrow> int \<Rightarrow> int \<Rightarrow> (string \<times> json) list" where
  "report_document stamp w f start finish =
     (let j = wk_job w in
      copied j (words ''verification_id listing_id owner_authorization_id quote_id idempotency_key wire_manifest_version corpus_disclosure_version payment_disclosure_version accepted_at_utc requested_action source_handle_id spec_id spec_version connector_type connector_version depth_class row_count_algorithm_version histogram_version numeric_bucket_version canonicalization_version preview_requested'')
      @ [(''spec_hash'', JStr (se_spec_hash (sj_env j))), (''nonce_echo'', JStr (job_text j ''nonce'')),
         (''install_key_id'', JStr (wk_receipt w)), (''agent_version'', JStr (wk_version w)),
         (''distinct_algorithm_version'', JStr ''hll-sha256-v1''), (''started_at_utc'', JStr (stamp start)),
         (''completed_at_utc'', JStr (stamp finish)), (''duration_ms'', JNum (int_text (milliseconds (finish - start)))),
         (''signature_algorithm'', JStr ''Ed25519''), (''artifact_locator_commitment'', JStr (fc_locator f)),
         (''content_sha256'', JStr (fc_content f)), (''coverage'', fc_coverage f), (''objects'', fc_objects f),
         (''fingerprint_hash'', JStr (fc_fingerprint f)), (''d6_description'', case sj_d6 j of None \<Rightarrow> JNull | Some m \<Rightarrow> JObj m)])"

record probe_result =
  pb_objects :: int
  pb_class :: string
  pb_tokens :: int
  pb_capabilities :: "string list"

definition capabilities :: "string list" where
  "capabilities = [''complete_traversal'', ''deterministic_object_order'', ''fixed_bucket_aggregates'', ''exact_or_declared_estimated_row_counts'']"

definition probe_default :: "snapshot \<Rightarrow> int \<Rightarrow> probe_result" where
  "probe_default s tokens = \<lparr>pb_objects = int (length (sn_members s)), pb_class = size_class s, pb_tokens = tokens, pb_capabilities = capabilities\<rparr>"

definition probe_document :: "work \<Rightarrow> string \<Rightarrow> string list \<Rightarrow> bool \<Rightarrow> probe_result \<Rightarrow> (string \<times> json) list" where
  "probe_document w key ids reachable p =
     (let j = wk_job w in
      [(''probe_id'', JStr (job_text j ''probe_id'')), (''spec_id'', JStr (job_text j ''spec_id'')),
       (''spec_hash'', JStr (se_spec_hash (sj_env j))), (''nonce_echo'', JStr (job_text j ''nonce'')), (''install_key_id'', JStr key),
       (''affected_file_ids'', JArr (map JStr ids)), (''signature_algorithm'', JStr ''Ed25519''),
       (''probe'', JObj [(''listing_id'', JStr (job_text j ''listing_id'')), (''source_handle_id'', JStr (job_text j ''source_handle_id'')),
          (''connector_type'', JStr ''aim_gateway''), (''connector_version'', JStr ''aim_gateway-v1''), (''owner_consent'', JBool True),
          (''source_reachable'', JBool reachable), (''objects_discovered'', JNum (int_text (pb_objects p))), (''size_class'', JStr (pb_class p)),
          (''supported_capabilities'', JArr (map JStr (pb_capabilities p))), (''estimated_max_input_tokens'', JNum (int_text (pb_tokens p))),
          (''preview_requested'', JBool (map_of (sj_payload j) ''preview_requested'' = Some (JBool True)))])])"

subsection \<open>Signatures\<close>

definition bound_fields :: "string list" where
  "bound_fields = words ''spec_hash nonce_echo install_key_id artifact_locator_commitment content_sha256 started_at_utc completed_at_utc duration_ms coverage fingerprint_hash''"

definition receipt_binding :: "(string \<times> json) list \<Rightarrow> string \<Rightarrow> (string \<times> json) list" where
  "receipt_binding d variant = (if variant = ''scan''
     then map (\<lambda>k. (k, case map_of d k of None \<Rightarrow> JNull | Some v \<Rightarrow> v)) bound_fields else d)"

text \<open>The padded standard alphabet, over the unpadded one of URLs.\<close>

definition std_char :: "char \<Rightarrow> char" where
  "std_char c = (if c = CHR ''-'' then CHR ''+'' else if c = CHR ''_'' then CHR ''/'' else c)"

definition url_char :: "char \<Rightarrow> char" where
  "url_char c = (if c = CHR ''+'' then CHR ''-'' else if c = CHR ''/'' then CHR ''_'' else c)"

definition std_encode :: "bytes \<Rightarrow> string" where
  "std_encode b = map std_char (b64_encode b) @ replicate ((4 - length (b64_encode b) mod 4) mod 4) CHR ''=''"

definition std_decode :: "string \<Rightarrow> bytes option" where
  "std_decode s =
     (let t = filter (\<lambda>c. c \<noteq> CHR 0x0D \<and> c \<noteq> CHR 0x0A) s;
          core = takeWhile (\<lambda>c. c \<noteq> CHR ''='') t; pad = drop (length core) t in
      if length t mod 4 \<noteq> 0 \<or> length pad > 2 \<or> \<not> list_all (\<lambda>c. c = CHR ''='') pad \<or> CHR ''-'' \<in> set core \<or> CHR ''_'' \<in> set core then None
      else b64_decode (map url_char core))"

definition sign_receipt :: "documents \<Rightarrow> (bytes \<Rightarrow> bytes) \<Rightarrow> (string \<times> json) list \<Rightarrow> string \<Rightarrow> (string \<times> json) list option" where
  "sign_receipt dm sign d variant =
     (case py_encode (dm_float dm) (JObj (receipt_binding d variant)) of None \<Rightarrow> None
      | Some raw \<Rightarrow> Some (d @ [(''receipt_signature'', JStr (std_encode (sign raw)))]))"

definition report_body :: "scan_job \<Rightarrow> string \<Rightarrow> bytes \<Rightarrow> (string \<times> json) list" where
  "report_body j variant raw = [(''op'', JStr ''scan_report''), (''variant'', JStr variant), (''runner_id'', JStr (se_runner (sj_env j))),
     (''iid'', JStr (se_iid (sj_env j))), (''document_b64'', JStr (b64_encode raw))]"

end
