(* ===== verification/Runner.thy ===== *)
theory Runner
  imports RunnerSource LocalAudit LedgerVerify
begin

text \<open>
  internal/verification/runner.go: the single worker that admits signed scans, runs them and puts
  their results into the audit log. A call is one step on the runner's state; the faults and
  clock readings inside a call are told apart by a label. The log to which results go is an
  argument with its append and its walk, as are HTTP and the scanner.
\<close>

subsection \<open>State\<close>

record 'l runner =
  ru_ledger :: ledger
  ru_v :: vledger
  ru_local :: "local_audit \<times> string"
  ru_log :: 'l
  ru_failed :: "gw_error option"
  ru_keys :: runner_keys
  ru_config :: config
  ru_queue :: "work list option"
  ru_refusals :: "string list"
  ru_excess :: nat

text \<open>The answer of the platform to a request for a snapshot.\<close>

record http_answer =
  ha_status :: nat
  ha_host :: string
  ha_scheme :: string
  ha_length :: int
  ha_body :: bytes

text \<open>The fixed surroundings: identity, keys, decoders, the local audit, the log, the file system and the scanner.\<close>

record ('k, 'l) runner_env =
  re_gateway :: string
  re_version :: string
  re_crypto :: "'k crypto"
  re_private :: 'k
  re_public :: bytes
  re_decoders :: decoders
  re_documents :: documents
  re_scan :: scan_decoders
  re_pins :: named_keys
  re_live :: named_keys
  re_local :: local_env
  re_stamp :: "int \<Rightarrow> string"
  re_glob :: "string \<Rightarrow> string \<Rightarrow> bool"
  re_real :: "string \<Rightarrow> string option"
  re_open :: "file_row \<Rightarrow> gw_error + open_handle"
  re_json_valid :: "string \<Rightarrow> bool"
  re_http :: "string \<Rightarrow> string \<Rightarrow> gw_error + http_answer"
  re_core_scan :: "core_source \<Rightarrow> scan_policy \<Rightarrow> gw_error + facts"
  re_core_probe :: "core_source \<Rightarrow> scan_policy \<Rightarrow> gw_error + probe_result"
  re_add :: "string \<Rightarrow> bytes \<Rightarrow> 'l \<Rightarrow> (gw_error + nat) \<times> 'l"
  re_walk :: "'l \<Rightarrow> gw_error + (string \<times> bytes \<times> nat) list"
  re_error :: "string \<Rightarrow> 'l \<Rightarrow> 'l"
  re_saved :: "bytes \<Rightarrow> gw_error + (string \<times> string)"
  re_mac :: "bytes \<Rightarrow> bytes \<Rightarrow> bytes"

text \<open>The faults and readings of one call.\<close>

record runner_io =
  ri_now :: "string \<Rightarrow> int"
  ri_event :: "string \<Rightarrow> gw_error option"
  ri_mirror :: "string \<Rightarrow> (nat \<Rightarrow> mirror_io) \<times> gw_error option"
  ri_db :: "string \<Rightarrow> gw_error option"
  ri_link :: "string \<Rightarrow> gw_error option"
  ri_ctx :: "string \<Rightarrow> gw_error option"
  ri_nonce :: "gw_error + bytes"
  ri_commit :: "gw_error option"

definition fail :: "gw_error \<Rightarrow> 'l runner \<Rightarrow> 'l runner" where
  "fail e st = st\<lparr>ru_failed := Some e\<rparr>"

definition runner_view :: "('k, 'l) runner_env \<Rightarrow> runner_io \<Rightarrow> 'l runner \<Rightarrow> source_view" where
  "runner_view env io st = \<lparr>sv_ledger = ru_ledger st, sv_config = ru_config st, sv_health = ru_failed st, sv_ctx = ri_ctx io ''open'',
     sv_db = ri_db io, sv_glob = re_glob env, sv_real = re_real env, sv_open = re_open env, sv_json_valid = re_json_valid env\<rparr>"

definition with_binding :: "'l runner \<Rightarrow> runner_binding" where
  "with_binding st = rk_binding (ru_keys st)"

subsection \<open>Events and refusals\<close>

text \<open>The admission of a job, with the snapshot it names.\<close>

definition admission_for :: "('k, 'l) runner_env \<Rightarrow> 'l runner \<Rightarrow> scan_job \<Rightarrow> string \<Rightarrow> admission" where
  "admission_for env st j snap = \<lparr>ad_spec_id = job_text j ''spec_id'', ad_runner = se_runner (sj_env j), ad_listing = job_text j ''listing_id'',
     ad_version = job_text j ''listing_version_id'', ad_manifest = job_text j ''manifest_hash'', ad_spec_hash = se_spec_hash (sj_env j),
     ad_nonce = job_text j ''nonce'', ad_authorization = job_text j ''owner_authorization_id'', ad_variant = se_variant (sj_env j),
     ad_state = '''', ad_iid = se_iid (sj_env j), ad_accepted = unix (sj_accepted j), ad_issued = unix (sj_issued j),
     ad_expires = unix (sj_expires j), ad_committed = 0, ad_day = 0, ad_spec = sj_token j, ad_snapshot = snap, ad_result = None,
     ad_audit_seq = None, ad_delivered = False, ad_key_id = rb_key_id (with_binding st), ad_scanner = re_version env\<rparr>"

text \<open>An admission of which only the hash is known.\<close>

definition hash_only :: "string \<Rightarrow> admission" where
  "hash_only h = \<lparr>ad_spec_id = '''', ad_runner = '''', ad_listing = '''', ad_version = '''', ad_manifest = '''', ad_spec_hash = h,
     ad_nonce = '''', ad_authorization = '''', ad_variant = '''', ad_state = '''', ad_iid = '''', ad_accepted = 0, ad_issued = 0,
     ad_expires = 0, ad_committed = 0, ad_day = 0, ad_spec = '''', ad_snapshot = '''', ad_result = None, ad_audit_seq = None,
     ad_delivered = False, ad_key_id = '''', ad_scanner = ''''\<rparr>"

definition mirror_local :: "('k, 'l) runner_env \<Rightarrow> runner_io \<Rightarrow> string \<Rightarrow> 'l runner \<Rightarrow> gw_error option \<times> 'l runner" where
  "mirror_local env io lab st =
     (case mirror (re_local env) (fst (ri_mirror io lab)) (snd (ri_mirror io lab)) (ru_v st) (ru_local st) of
        (e, af) \<Rightarrow> (e, st\<lparr>ru_local := af\<rparr>))"

definition mirror_run :: "('k, 'l) runner_env \<Rightarrow> runner_io \<Rightarrow> string \<Rightarrow> 'l runner \<Rightarrow> gw_error option \<times> 'l runner" where
  "mirror_run env io lab st = (case mirror_local env io lab st of (None, st') \<Rightarrow> (None, st') | (Some e, st') \<Rightarrow> (Some e, fail e st'))"

definition record_event :: "('k, 'l) runner_env \<Rightarrow> runner_io \<Rightarrow> string \<Rightarrow> admission \<Rightarrow> string \<Rightarrow> string \<Rightarrow> 'l runner
    \<Rightarrow> gw_error option \<times> 'l runner" where
  "record_event env io lab a res code st =
     (case ri_event io lab of Some e \<Rightarrow> (Some e, fail e st)
      | None \<Rightarrow> mirror_run env io lab (st\<lparr>ru_v := verification_event a res code (ri_now io lab) (ru_v st)\<rparr>))"

definition grave_codes :: "string list" where
  "grave_codes = [''consent_refused'', ''ledger_unavailable'', ''audit_unavailable'']"

text \<open>A refusal is recorded, whatever comes of it, and the grave ones are told to the platform too.\<close>

definition refuse_job :: "('k, 'l) runner_env \<Rightarrow> runner_io \<Rightarrow> admission \<Rightarrow> string \<Rightarrow> 'l runner \<Rightarrow> gw_error option \<times> 'l runner" where
  "refuse_job env io a code st =
     (let st1 = snd (record_event env io ''refused'' a ''refused'' code st) in
      (Some (ErrMsg code), if ad_spec_id a \<noteq> '''' \<and> code \<in> set grave_codes then st1\<lparr>ru_log := re_error env code (ru_log st1)\<rparr> else st1))"

text \<open>Overflow of the channel's queue: a digest, or an empty one for those only counted.\<close>

definition refuse_control :: "('k, 'l) runner_env \<Rightarrow> runner_io \<Rightarrow> string \<Rightarrow> 'l runner \<Rightarrow> gw_error option \<times> 'l runner" where
  "refuse_control env io hash st =
     (case ri_event io ''overflow'' of Some e \<Rightarrow> (Some e, fail e st)
      | None \<Rightarrow> (None, snd (mirror_run env io ''overflow''
          (st\<lparr>ru_v := verification_event (hash_only hash) ''refused'' ''queue_full'' (ri_now io ''overflow'') (ru_v st)\<rparr>))))"

definition queue_refusal :: "string \<Rightarrow> 'l runner \<Rightarrow> 'l runner" where
  "queue_refusal hash st = (if length (ru_refusals st) < 64 then st\<lparr>ru_refusals := ru_refusals st @ [hash]\<rparr>
     else st\<lparr>ru_excess := ru_excess st + 1\<rparr>)"

text \<open>One turn of drainRefusals: the counted ones first; a refusal that cannot be recorded is tried again.\<close>

definition drain_refusal :: "('k, 'l) runner_env \<Rightarrow> runner_io \<Rightarrow> 'l runner \<Rightarrow> 'l runner" where
  "drain_refusal env io st =
     (if ru_excess st > 0 then
        (case refuse_control env io '''' st of (Some e, st') \<Rightarrow> st' | (None, st') \<Rightarrow> st'\<lparr>ru_excess := ru_excess st' - 1\<rparr>)
      else (case ru_refusals st of [] \<Rightarrow> st
        | h # hs \<Rightarrow> (case refuse_control env io h st of (Some e, st') \<Rightarrow> st' | (None, st') \<Rightarrow> st'\<lparr>ru_refusals := hs\<rparr>)))"

subsection \<open>The outbox\<close>

definition link_result :: "runner_io \<Rightarrow> admission \<Rightarrow> nat \<Rightarrow> 'l runner \<Rightarrow> gw_error option \<times> 'l runner" where
  "link_result io a seq st = (case ri_link io (ad_spec_id a) of Some e \<Rightarrow> (Some e, fail e st)
     | None \<Rightarrow> (None, st\<lparr>ru_v := audit_verification (ad_spec_id a) seq (ru_v st)\<rparr>))"

definition result_of :: "admission \<Rightarrow> bytes" where
  "result_of a = (case ad_result a of None \<Rightarrow> [] | Some r \<Rightarrow> r)"

text \<open>One result: linked to its entry of an earlier run, or appended and linked.\<close>

definition flush_one :: "('k, 'l) runner_env \<Rightarrow> runner_io \<Rightarrow> (string \<times> bytes \<times> nat) list \<Rightarrow> admission \<Rightarrow> 'l runner
    \<Rightarrow> gw_error option \<times> 'l runner" where
  "flush_one env io found a st =
     (case map_of found (ad_iid a) of
        Some (body, seq) \<Rightarrow>
          if body \<noteq> result_of a then (Some (ErrMsg ''verification_outbox_conflict''), st) else link_result io a seq st
      | None \<Rightarrow>
          (case re_add env (ad_spec_id a) (result_of a) (ru_log st) of
             (Inl e, l) \<Rightarrow> (Some e, fail e (st\<lparr>ru_log := l\<rparr>))
           | (Inr seq, l) \<Rightarrow> link_result io a seq (st\<lparr>ru_log := l\<rparr>)))"

fun flush_loop :: "('k, 'l) runner_env \<Rightarrow> runner_io \<Rightarrow> (string \<times> bytes \<times> nat) list \<Rightarrow> admission list \<Rightarrow> 'l runner
    \<Rightarrow> gw_error option \<times> 'l runner" where
  "flush_loop env io found [] st = (None, st)"
| "flush_loop env io found (a # as) st =
     (case flush_one env io found a st of (Some e, st') \<Rightarrow> (Some e, st') | (None, st') \<Rightarrow> flush_loop env io found as st')"

text \<open>flush: of the entries with one instruction id the last is kept, as in the map of the code.\<close>

definition flush :: "('k, 'l) runner_env \<Rightarrow> runner_io \<Rightarrow> bool \<Rightarrow> 'l runner \<Rightarrow> gw_error option \<times> 'l runner" where
  "flush env io history st =
     (case ru_failed st of Some e \<Rightarrow> (Some e, st)
      | None \<Rightarrow>
        (case mirror_run env io ''flush'' st of (Some e, st1) \<Rightarrow> (Some e, st1)
         | (None, st1) \<Rightarrow>
           (case ri_db io ''unlinked'' of Some e \<Rightarrow> (Some e, st1)
            | None \<Rightarrow>
              (let pending = unlinked_verifications (ru_v st1) in
               if pending = [] then (None, st1)
               else case (if history then re_walk env (ru_log st1) else Inr []) of
                 Inl e \<Rightarrow> (Some e, st1)
               | Inr found \<Rightarrow> flush_loop env io (rev found) pending st1))))"

subsection \<open>Admission of a scan\<close>

text \<open>A token as the runner reads it under the given keys, runner id and moment.\<close>

definition read_spec :: "('k, 'l) runner_env \<Rightarrow> named_keys \<Rightarrow> string \<Rightarrow> string \<Rightarrow> int \<Rightarrow> scan_job option" where
  "read_spec env keys token runner at = verify_scan (re_crypto env) (re_decoders env) (re_documents env) (re_scan env) token keys
     (re_gateway env) runner (re_version env) at"

definition read_snapshot :: "('k, 'l) runner_env \<Rightarrow> string \<Rightarrow> scan_job \<Rightarrow> snapshot option" where
  "read_snapshot env token j = verify_snapshot (re_crypto env) (re_decoders env) (re_documents env) (re_scan env) token (re_pins env) j"

definition api_host :: string where "api_host = ''api.ai.market''"

text \<open>fetchSnapshot: a request signed with the receipt key, to the one host, without redirects, of bounded size.\<close>

definition snapshot_path :: "runner_binding \<Rightarrow> scan_job \<Rightarrow> string" where
  "snapshot_path b j = ''/api/v1/verification-runners/'' @ rb_runner b @ ''/snapshot/'' @ job_text j ''manifest_hash''"

definition snapshot_claims :: "('k, 'l) runner_env \<Rightarrow> runner_binding \<Rightarrow> string \<Rightarrow> bytes \<Rightarrow> int \<Rightarrow> (string \<times> json) list" where
  "snapshot_claims env b path nonce at = [(''runner_id'', JStr (rb_runner b)), (''gateway_id'', JStr (re_gateway env)),
     (''method'', JStr ''GET''), (''path'', JStr path), (''nonce'', JStr (b64_encode nonce)), (''iat'', JNum (int_text (unix at)))]"

definition fetch_snapshot :: "('k, 'l) runner_env \<Rightarrow> runner_io \<Rightarrow> runner_binding \<Rightarrow> scan_job \<Rightarrow> gw_error + string" where
  "fetch_snapshot env io b j =
     (let path = snapshot_path b j in
      case ri_nonce io of Inl e \<Rightarrow> Inl e
      | Inr nonce \<Rightarrow>
        (case sign_token (re_crypto env) ''aim-verification-snapshot-request+jwt'' (rb_key_id b)
            (JObj (snapshot_claims env b path nonce (ri_now io ''fetch''))) (re_private env) of
           Inl e \<Rightarrow> Inl err_verification
         | Inr auth \<Rightarrow>
           if length auth > 4096 then Inl err_verification
           else (case re_http env path (''Bearer '' @ auth) of Inl e \<Rightarrow> Inl e
             | Inr h \<Rightarrow>
               if ha_status h \<noteq> 200 \<or> ha_host h \<noteq> api_host \<or> ha_scheme h \<noteq> ''https'' \<or> ha_length h > int max_snapshot
                 \<or> length (ha_body h) > max_snapshot then Inl err_verification
               else Inr (ha_body h))))"

text \<open>The part of Submit after a new job is recorded as received.\<close>

definition admit_job :: "('k, 'l) runner_env \<Rightarrow> runner_io \<Rightarrow> scan_job \<Rightarrow> runner_binding \<Rightarrow> 'l runner \<Rightarrow> gw_error option \<times> 'l runner" where
  "admit_job env io j b st =
     (let a = admission_for env st j '''' in
      case ru_queue st of None \<Rightarrow> refuse_job env io a ''unsupported'' st
      | Some q \<Rightarrow>
        if \<not> cfg_verification_enabled (ru_config st) then refuse_job env io a ''unsupported'' st
        else if length q = 1 then refuse_job env io a ''queue_full'' st
        else case fetch_snapshot env io (with_binding st) j of Inl e \<Rightarrow> refuse_job env io a ''snapshot_invalid'' st
        | Inr token \<Rightarrow>
          (case read_snapshot env token j of None \<Rightarrow> refuse_job env io a ''snapshot_invalid'' st
           | Some s \<Rightarrow>
             (case metadata (runner_view env io st) s of Some e \<Rightarrow> refuse_job env io a ''source_unavailable'' st
              | None \<Rightarrow>
                (let a' = admission_for env st j token in
                 case admit (ri_db io ''admit'') (ri_commit io) a' (ri_now io ''admit'') (ru_v st) of
                   (Inl e, V) \<Rightarrow> refuse_job env io a' ''consent_refused'' (st\<lparr>ru_v := V\<rparr>)
                 | (Inr False, V) \<Rightarrow> flush env io False (st\<lparr>ru_v := V\<rparr>)
                 | (Inr True, V) \<Rightarrow>
                   (case mirror_run env io ''admitted'' (st\<lparr>ru_v := V\<rparr>) of
                      (Some e, st1) \<Rightarrow> refuse_job env io a' ''audit_unavailable'' st1
                    | (None, st1) \<Rightarrow>
                      (None, st1\<lparr>ru_queue := Some (q @ [\<lparr>wk_job = j, wk_snapshot = s, wk_version = re_version env, wk_receipt = rb_key_id b\<rparr>])\<rparr>))))))"

text \<open>A token that does not verify now: its result again if it is one admitted earlier, else a refusal.\<close>

definition redeliver :: "('k, 'l) runner_env \<Rightarrow> runner_io \<Rightarrow> string \<Rightarrow> 'l runner \<Rightarrow> gw_error option \<times> 'l runner" where
  "redeliver env io token st =
     (let invalid = (Some err_verification,
        snd (record_event env io ''refused'' (hash_only (dm_sha (re_documents env) token)) ''refused'' ''invalid_spec'' st)) in
      case ri_db io ''token'' of Some e \<Rightarrow> invalid
      | None \<Rightarrow> (case verification_token token (ru_v st) of None \<Rightarrow> invalid
          | Some a \<Rightarrow> (case read_spec env (re_pins env) token (ad_runner a) (ad_committed a * nano) of None \<Rightarrow> invalid
              | Some j \<Rightarrow> flush env io False st)))"

definition submit :: "('k, 'l) runner_env \<Rightarrow> runner_io \<Rightarrow> string \<Rightarrow> 'l runner \<Rightarrow> gw_error option \<times> 'l runner" where
  "submit env io token st =
     (case ru_failed st of Some e \<Rightarrow> (Some e, st)
      | None \<Rightarrow>
        (let b = with_binding st in
         if rb_version b \<noteq> re_version env \<or> rb_ack b = '''' then (Some err_verification, st)
         else case read_spec env (re_live env) token (rb_runner b) (ri_now io ''verify'') of
           None \<Rightarrow> redeliver env io token st
         | Some j \<Rightarrow>
           (let a = admission_for env st j '''' in
            case record_event env io ''received'' a ''received'' '''' st of
              (Some e, st1) \<Rightarrow> refuse_job env io a ''audit_unavailable'' st1
            | (None, st1) \<Rightarrow>
              (case ri_db io ''verification'' of Some e \<Rightarrow> refuse_job env io a ''ledger_unavailable'' st1
               | None \<Rightarrow>
                 (case admission_of (ad_spec_id a) (ru_v st1) of
                    Some p \<Rightarrow> if ad_spec_hash p \<noteq> ad_spec_hash a \<or> ad_spec p \<noteq> token then refuse_job env io a ''replay'' st1
                        else flush env io False st1
                  | None \<Rightarrow> admit_job env io j b st1)))))"

subsection \<open>Running a scan\<close>

text \<open>The probe and scan part of run: a document and its variant, with the code of a refusal.\<close>

definition run_probe :: "('k, 'l) runner_env \<Rightarrow> runner_io \<Rightarrow> work \<Rightarrow> 'l runner \<Rightarrow> string list \<Rightarrow> gw_error option \<Rightarrow> (string \<times> json) list" where
  "run_probe env io w st ids e =
     (let v = runner_view env io st; s = wk_snapshot w;
          attempt = (if e = None \<and> ids = [] then
              (case re_core_probe env (core_source_of v s) (policy_of (wk_job w) (ru_keys st)) of Inl x \<Rightarrow> None
               | Inr p \<Rightarrow> if failed_members v s = [] \<and> ri_ctx io ''scan'' = None then Some p else None)
            else if e = None then Some (probe_default s 1) else None) in
      probe_document w (rb_key_id (with_binding st)) ids (attempt \<noteq> None) (case attempt of None \<Rightarrow> probe_default s 8192 | Some p \<Rightarrow> p))"

definition run_scan :: "('k, 'l) runner_env \<Rightarrow> runner_io \<Rightarrow> work \<Rightarrow> 'l runner \<Rightarrow> string list \<Rightarrow> gw_error option
    \<Rightarrow> (string \<times> json) list \<times> string \<times> string" where
  "run_scan env io w st ids e =
     (let v = runner_view env io st;
          r = (case e of Some x \<Rightarrow> Inl x
            | None \<Rightarrow> if ids \<noteq> [] then Inl err_e7
                else re_core_scan env (core_source_of v (wk_snapshot w)) (policy_of (wk_job w) (ru_keys st)));
          r' = (case r of Inl x \<Rightarrow> Inl x | Inr f \<Rightarrow> (case ri_ctx io ''scan'' of Some x \<Rightarrow> Inl x | None \<Rightarrow> Inr f)) in
      case r' of
        Inl x \<Rightarrow> (terminal_document (re_stamp env) (wk_job w) (wk_version w) (wk_receipt w) (error_code x) (ri_now io ''completed''), ''terminal'', error_code x)
      | Inr f \<Rightarrow> (report_document (re_stamp env) w f (ri_now io ''started'') (ri_now io ''completed''), ''scan'', ''''))"

definition run_document :: "('k, 'l) runner_env \<Rightarrow> runner_io \<Rightarrow> work \<Rightarrow> 'l runner \<Rightarrow> string list \<Rightarrow> gw_error option
    \<Rightarrow> (string \<times> json) list \<times> string \<times> string" where
  "run_document env io w st ids e =
     (if se_variant (sj_env (wk_job w)) = ''probe'' then (run_probe env io w st ids e, ''probe'', '''') else run_scan env io w st ids e)"

text \<open>Signed, within its bound and a valid report: the body that is saved.\<close>

definition signed_document :: "('k, 'l) runner_env \<Rightarrow> (string \<times> json) list \<Rightarrow> string \<Rightarrow> bytes option" where
  "signed_document env d variant =
     (case sign_receipt (re_documents env) (cr_sign (re_crypto env) (re_private env)) d variant of None \<Rightarrow> None
      | Some d' \<Rightarrow> py_encode (dm_float (re_documents env)) (JObj d'))"

definition run_body :: "('k, 'l) runner_env \<Rightarrow> work \<Rightarrow> (string \<times> json) list \<Rightarrow> string \<Rightarrow> bytes option" where
  "run_body env w d variant =
     (case signed_document env d variant of None \<Rightarrow> None
      | Some raw \<Rightarrow>
        if length raw > max_scan_document then None
        else (let body = canonical (JObj (report_body (wk_job w) variant raw)) in
          if validate_scan_report (re_documents env) (re_scan env) body then Some body else None))"

definition run_job :: "('k, 'l) runner_env \<Rightarrow> runner_io \<Rightarrow> work \<Rightarrow> 'l runner \<Rightarrow> gw_error option \<times> 'l runner" where
  "run_job env io w0 st =
     (let w = w0\<lparr>wk_version := (if wk_version w0 = '''' then re_version env else wk_version w0),
            wk_receipt := (if wk_receipt w0 = '''' then rb_key_id (with_binding st) else wk_receipt w0)\<rparr>;
          i = job_text (wk_job w) ''spec_id'' in
      case ri_db io ''claim'' of Some e \<Rightarrow> (Some e, st)
      | None \<Rightarrow>
        (case claim_verification i (ru_v st) of
           (False, V) \<Rightarrow> (None, st\<lparr>ru_v := V\<rparr>)
         | (True, V) \<Rightarrow>
           (let st1 = st\<lparr>ru_v := V\<rparr> in
            case eligibility (runner_view env io st1) (wk_snapshot w) of (ids, e) \<Rightarrow>
            (case run_document env io w st1 ids e of (d, variant, code) \<Rightarrow>
              (case run_body env w d variant of None \<Rightarrow> (Some err_verification, st1)
               | Some body \<Rightarrow>
                 (let state = (if variant = ''terminal'' \<or> ids \<noteq> [] then ''refused'' else ''reported'') in
                  case ri_db io ''save'' of Some x \<Rightarrow> (Some x, st1)
                  | None \<Rightarrow>
                    (case record_event env io ''finished'' (admission_for env st1 (wk_job w) '''') state
                        (if ids \<noteq> [] then ''columns_hidden'' else code)
                        (st1\<lparr>ru_v := save_verification i state body (ru_v st1)\<rparr>) of
                       (Some x, st2) \<Rightarrow> (Some x, st2)
                     | (None, st2) \<Rightarrow> flush env io False st2)))))))"

text \<open>The worker takes a job from the queue. In the code a turn that fails is the last; the model leaves it to the
  environment to take no further turn, and its properties hold for every sequence of turns.\<close>

definition worker_turn :: "('k, 'l) runner_env \<Rightarrow> runner_io \<Rightarrow> 'l runner \<Rightarrow> 'l runner" where
  "worker_turn env io st =
     (case ru_queue st of Some (w # q) \<Rightarrow>
        (case run_job env io w (st\<lparr>ru_queue := Some q\<rparr>) of (None, st') \<Rightarrow> st' | (Some e, st') \<Rightarrow> fail e st')
      | _ \<Rightarrow> st)"

subsection \<open>Recovery\<close>

definition recover_body :: "('k, 'l) runner_env \<Rightarrow> scan_job \<Rightarrow> admission \<Rightarrow> int \<Rightarrow> bytes option" where
  "recover_body env j a at =
     (case signed_document env (terminal_document (re_stamp env) j (ad_scanner a) (ad_key_id a) ''scanner_failure'' at) ''terminal'' of None \<Rightarrow> None
      | Some raw \<Rightarrow> Some (canonical (JObj (report_body j ''terminal'' raw))))"

text \<open>One admission that was interrupted and has no result: a scan gets one, a probe only an event.\<close>

definition recover_one :: "('k, 'l) runner_env \<Rightarrow> runner_io \<Rightarrow> admission \<Rightarrow> 'l runner \<Rightarrow> gw_error option \<times> 'l runner" where
  "recover_one env io a st =
     (if ad_state a \<noteq> ''interrupted'' \<or> result_of a \<noteq> [] then (None, st)
      else case read_spec env (re_pins env) (ad_spec a) (ad_runner a) (ad_committed a * nano) of
        None \<Rightarrow> (Some err_verification, st)
      | Some j \<Rightarrow>
        (case (if ad_variant a = ''scan'' then
             (case recover_body env j a (ri_now io (ad_spec_id a)) of None \<Rightarrow> Inl err_verification
              | Some body \<Rightarrow> (case ri_db io ''save'' of Some e \<Rightarrow> Inl e
                  | None \<Rightarrow> Inr (st\<lparr>ru_v := save_verification (ad_spec_id a) ''interrupted'' body (ru_v st)\<rparr>)))
           else Inr st) of
           Inl e \<Rightarrow> (Some e, st)
         | Inr st1 \<Rightarrow> record_event env io (ad_spec_id a) a ''interrupted'' ''scanner_failure'' st1))"

fun recover_loop :: "('k, 'l) runner_env \<Rightarrow> runner_io \<Rightarrow> admission list \<Rightarrow> 'l runner \<Rightarrow> gw_error option \<times> 'l runner" where
  "recover_loop env io [] st = (None, st)"
| "recover_loop env io (a # as) st =
     (case recover_one env io a st of (Some e, st') \<Rightarrow> (Some e, st') | (None, st') \<Rightarrow> recover_loop env io as st')"

definition recover_runner :: "('k, 'l) runner_env \<Rightarrow> runner_io \<Rightarrow> 'l runner \<Rightarrow> gw_error option \<times> 'l runner" where
  "recover_runner env io st =
     (case mirror_local env io ''recover'' st of (Some e, st1) \<Rightarrow> (Some e, st1)
      | (None, st1) \<Rightarrow>
        (case ri_db io ''interrupt'' of Some e \<Rightarrow> (Some e, st1)
         | None \<Rightarrow>
           (let st2 = st1\<lparr>ru_v := interrupt_verifications (ru_v st1)\<rparr> in
            case ri_db io ''verifications'' of Some e \<Rightarrow> (Some e, st2)
            | None \<Rightarrow>
              (case recover_loop env io (verifications (\<lambda>_. True) (ru_v st2)) st2 of (Some e, st3) \<Rightarrow> (Some e, st3)
               | (None, st3) \<Rightarrow>
                 (case flush env io True st3 of (Some e, st4) \<Rightarrow> (Some e, st4)
                  | (None, st4) \<Rightarrow>
                    (case ri_db io ''prune'' of Some e \<Rightarrow> (Some e, st4)
                     | None \<Rightarrow> (None, st4\<lparr>ru_v := prune_verification (ri_now io ''prune'') (ru_v st4)\<rparr>)))))))"

text \<open>Start: once; the queue is there only after a recovery without an error.\<close>

definition start :: "('k, 'l) runner_env \<Rightarrow> runner_io \<Rightarrow> 'l runner \<Rightarrow> gw_error option \<times> 'l runner" where
  "start env io st =
     (if ru_queue st \<noteq> None then (None, st)
      else case ri_db io ''lock'' of Some e \<Rightarrow> (Some e, st)
      | None \<Rightarrow>
        (case recover_runner env io st of (Some e, st') \<Rightarrow> (Some e, st')
         | (None, st') \<Rightarrow> (None, st'\<lparr>ru_refusals := [], ru_queue := Some []\<rparr>)))"

subsection \<open>Preview\<close>

definition guidance :: string where "guidance = ''Request verification on the website before using preview --verify.''"
definition e7_message :: string where
  "e7_message = ''Some columns of this data are hidden in your gateway settings, so it can'' @ [CHR 0x27] @ ''t be verified.''"

text \<open>The job and the snapshot of a retained scan, as they verified when it was admitted.\<close>

definition retained :: "('k, 'l) runner_env \<Rightarrow> admission \<Rightarrow> (scan_job \<times> snapshot) option" where
  "retained env a = (case read_spec env (re_pins env) (ad_spec a) (ad_runner a) (ad_committed a * nano) of None \<Rightarrow> None
     | Some j \<Rightarrow> (case read_snapshot env (ad_snapshot a) j of None \<Rightarrow> None | Some s \<Rightarrow> Some (j, s)))"

definition preview_match :: "('k, 'l) runner_env \<Rightarrow> string \<Rightarrow> string \<Rightarrow> admission \<Rightarrow> bool" where
  "preview_match env fid spec a \<longleftrightarrow> ad_variant a = ''scan'' \<and> \<not> (spec \<noteq> '''' \<and> ad_spec_id a \<noteq> spec)
     \<and> (case retained env a of None \<Rightarrow> False | Some (j, s) \<Rightarrow> fid \<in> set (map sm_fid (sn_members s)))"

definition facts_json :: "facts \<Rightarrow> json" where
  "facts_json f = JObj [(''coverage'', fc_coverage f), (''objects'', fc_objects f), (''fingerprint_hash'', JStr (fc_fingerprint f)),
     (''content_sha256'', JStr (fc_content f)), (''artifact_locator_commitment'', JStr (fc_locator f))]"

text \<open>The identity of an object in a report: a MAC over the gateway and the content.\<close>

definition object_id :: "('k, 'l) runner_env \<Rightarrow> bytes \<Rightarrow> string \<Rightarrow> snapshot_member \<Rightarrow> string" where
  "object_id env key gateway m = hex_of (re_mac env key (''object'' @ [CHR 0x00] @ ''gateway_listing'' @ [CHR 0x00] @ gateway
     @ [CHR 0x00] @ sm_fid m @ [CHR 0x00] @ sm_sha m))"

text \<open>The columns of one reported object are still shown.\<close>

fun all_texts :: "json list \<Rightarrow> string list option" where
  "all_texts [] = Some []"
| "all_texts (JStr s # vs) = map_option (\<lambda>ts. s # ts) (all_texts vs)"
| "all_texts (_ # vs) = None"

definition object_shown :: "('k, 'l) runner_env \<Rightarrow> runner_io \<Rightarrow> 'l runner \<Rightarrow> snapshot \<Rightarrow> json \<Rightarrow> gw_error option" where
  "object_shown env io st s v =
     (case v of JObj o' \<Rightarrow>
        (case map_of (rev (map (\<lambda>m. (object_id env (rk_commitment (ru_keys st)) (sn_gateway s) m, m)) (sn_members s))) (text_field o' ''object_id'') of
           None \<Rightarrow> Some err_verification
         | Some m \<Rightarrow>
           (case query_file (runner_view env io st) (sm_fid m) of Inl e \<Rightarrow> Some e
            | Inr f \<Rightarrow>
              (case map_of o' ''column_names'' of
                 Some (JArr cols) \<Rightarrow> (case all_texts cols of None \<Rightarrow> Some err_verification
                   | Some names \<Rightarrow> if hidden (ru_config st) f names then Some (ErrMsg e7_message) else None)
               | _ \<Rightarrow> Some err_verification)))
      | _ \<Rightarrow> Some err_verification)"

definition fingerprint_fields :: "string list" where
  "fingerprint_fields = words ''coverage objects depth_class row_count_algorithm_version distinct_algorithm_version histogram_version numeric_bucket_version canonicalization_version''"

definition scan_shown :: "('k, 'l) runner_env \<Rightarrow> runner_io \<Rightarrow> 'l runner \<Rightarrow> snapshot \<Rightarrow> (string \<times> json) list \<Rightarrow> gw_error option" where
  "scan_shown env io st s d =
     (case py_encode (dm_float (re_documents env)) (JObj (map (\<lambda>k. (k, case map_of d k of None \<Rightarrow> JNull | Some v \<Rightarrow> v)) fingerprint_fields)) of
        None \<Rightarrow> Some err_verification
      | Some b \<Rightarrow>
        if map_of d ''fingerprint_hash'' \<noteq> Some (JStr (dm_sha (re_documents env) b)) then Some err_verification
        else (case map_of d ''objects'' of Some (JArr vs) \<Rightarrow> first_error (map (object_shown env io st s) vs) | _ \<Rightarrow> Some err_verification))"

text \<open>savedPreview: the signed bytes, after their signature, their origin and the hiding rules are checked.\<close>

definition signature_ok :: "('k, 'l) runner_env \<Rightarrow> (string \<times> json) list \<Rightarrow> string \<Rightarrow> bytes \<Rightarrow> bool" where
  "signature_ok env d variant sig =
     (case py_encode (dm_float (re_documents env)) (JObj (receipt_binding d variant)) of None \<Rightarrow> False
      | Some signed \<Rightarrow> cr_verify (re_crypto env) (re_public env) signed sig)"

definition saved_preview :: "('k, 'l) runner_env \<Rightarrow> runner_io \<Rightarrow> 'l runner \<Rightarrow> admission \<Rightarrow> snapshot \<Rightarrow> gw_error + bytes" where
  "saved_preview env io st a s =
     (case re_saved env (result_of a) of Inl e \<Rightarrow> Inl e
      | Inr (variant, document) \<Rightarrow>
        (case decode_document document max_scan_document of None \<Rightarrow> Inl err_verification
         | Some raw \<Rightarrow>
           (case parse_canonical (dm_lex (re_documents env)) (dm_float (re_documents env)) raw of
              Some (JObj m) \<Rightarrow>
                (case map_of m ''receipt_signature'' of
                   Some (JStr signature) \<Rightarrow>
                     (let d = filter (\<lambda>kv. fst kv \<noteq> ''receipt_signature'') m in
                      case std_decode signature of None \<Rightarrow> Inl err_verification
                      | Some sig \<Rightarrow>
                        if \<not> signature_ok env d variant sig then Inl err_verification
                        else if map_of d ''spec_hash'' \<noteq> Some (JStr (ad_spec_hash a)) \<or> map_of d ''install_key_id'' \<noteq> Some (JStr (ad_key_id a))
                          then Inl err_verification
                        else if variant = ''scan'' then (case scan_shown env io st s d of Some e \<Rightarrow> Inl e | None \<Rightarrow> Inr raw)
                        else if variant \<noteq> ''terminal'' then Inl err_verification else Inr raw)
                 | _ \<Rightarrow> Inl err_verification)
            | _ \<Rightarrow> Inl err_verification)))"

definition preview_refused :: gw_error where "preview_refused = ErrMsg ''verification preview refused''"

definition preview :: "('k, 'l) runner_env \<Rightarrow> runner_io \<Rightarrow> 'l runner \<Rightarrow> string \<Rightarrow> string \<Rightarrow> gw_error + bytes" where
  "preview env io st fid spec =
     (if length fid \<noteq> 32 then Inl err_verification
      else case ri_db io ''verifications'' of Some e \<Rightarrow> Inl e
      | None \<Rightarrow>
        (case filter (preview_match env fid spec) (verifications (\<lambda>_. True) (ru_v st)) of
           [] \<Rightarrow> Inl (ErrMsg guidance)
         | [a] \<Rightarrow>
           (case retained env a of None \<Rightarrow> Inl err_verification
            | Some (j, s) \<Rightarrow>
              if result_of a \<noteq> [] then saved_preview env io st a s
              else (case eligibility (runner_view env io st) s of
                  (ids, Some e) \<Rightarrow> Inl preview_refused
                | (ids, None) \<Rightarrow>
                  if ids \<noteq> [] then Inl (ErrMsg e7_message)
                  else (case re_core_scan env (core_source_of (runner_view env io st) s) (policy_of j (ru_keys st)) of
                      Inl e \<Rightarrow> Inl preview_refused
                    | Inr f \<Rightarrow>
                      (case py_encode (dm_float (re_documents env)) (JObj [(''status'', JStr ''pending''), (''policy'', JObj (sj_payload j)),
                          (''facts'', facts_json f)]) of None \<Rightarrow> Inl preview_refused | Some b \<Rightarrow> Inr b))))
         | _ \<Rightarrow> Inl (ErrMsg ''Several retained specs match; use --spec-id.'')))"

end
