(* ===== verification/RunnerOutbox.thy ===== *)
theory RunnerOutbox
  imports Runner Outbox PyProps "HOL-Library.Multiset"
begin

text \<open>
  The results of scans on their way into the audit log (flush and the recovery that walks the log):
  every result is logged once and linked to its entry, through write errors, crashes and restarts.
  What flush needs of the log is the locale \<open>report_log\<close>, which the audit log provides.
\<close>

subsection \<open>The interface of the log\<close>

locale report_log =
  fixes add :: "string \<Rightarrow> bytes \<Rightarrow> 'l \<Rightarrow> (gw_error + nat) \<times> 'l"
    and walk :: "'l \<Rightarrow> gw_error + (string \<times> bytes \<times> nat) list"
    and iid_of :: "bytes \<Rightarrow> string"
    and good :: "bytes \<Rightarrow> bool"
    and reports :: "'l \<Rightarrow> (string \<times> bytes \<times> nat) list"
    and sound :: "'l \<Rightarrow> bool"
    and whole :: "'l \<Rightarrow> bool"
  assumes add_ok: "sound l \<Longrightarrow> good r \<Longrightarrow> add i r l = (Inr n, l') \<Longrightarrow> sound l' \<and> reports l' = reports l @ [(iid_of r, r, n)]"
    and add_error: "sound l \<Longrightarrow> good r \<Longrightarrow> add i r l = (Inl e, l')
      \<Longrightarrow> sound l' \<and> (reports l' = reports l \<or> (\<exists>n. reports l' = reports l @ [(iid_of r, r, n)]))"
    and walk_ok: "sound l \<Longrightarrow> whole l \<Longrightarrow> walk l = Inr m \<Longrightarrow> m = reports l"

subsection \<open>Results and entries\<close>

text \<open>One admission beside the entries: a result is for its instruction, a link names an entry with the
  result, and an entry of the instruction has the result and is linked; when weak, the link may be missing.\<close>

definition row_ok :: "(string \<times> bytes \<times> nat) list \<Rightarrow> (bytes \<Rightarrow> bool) \<Rightarrow> (bytes \<Rightarrow> string) \<Rightarrow> bool \<Rightarrow> admission \<Rightarrow> bool" where
  "row_ok R good iid_of weak a \<longleftrightarrow>
     (\<forall>r. ad_result a = Some r \<longrightarrow> good r \<and> iid_of r = ad_iid a)
     \<and> (\<forall>s. ad_audit_seq a = Some s \<longrightarrow> (\<exists>r. ad_result a = Some r \<and> (ad_iid a, r, s) \<in> set R))
     \<and> (\<forall>b s. (ad_iid a, b, s) \<in> set R \<longrightarrow> ad_result a = Some b \<and> (ad_audit_seq a = Some s \<or> weak \<and> ad_audit_seq a = None))"

definition rows_ok :: "(string \<times> bytes \<times> nat) list \<Rightarrow> (bytes \<Rightarrow> bool) \<Rightarrow> (bytes \<Rightarrow> string) \<Rightarrow> bool \<Rightarrow> admission list \<Rightarrow> bool" where
  "rows_ok R good iid_of weak as \<longleftrightarrow> distinct (map fst R) \<and> distinct (map ad_spec_id as) \<and> distinct (map ad_iid as)
     \<and> (\<forall>a \<in> set as. row_ok R good iid_of weak a)"

lemma row_okI:
  assumes "\<And>r. ad_result a = Some r \<Longrightarrow> good r \<and> iid_of r = ad_iid a"
    and "\<And>s. ad_audit_seq a = Some s \<Longrightarrow> \<exists>r. ad_result a = Some r \<and> (ad_iid a, r, s) \<in> set R"
    and "\<And>b s. (ad_iid a, b, s) \<in> set R \<Longrightarrow> ad_result a = Some b \<and> (ad_audit_seq a = Some s \<or> weak \<and> ad_audit_seq a = None)"
  shows "row_ok R good iid_of weak a"
  using assms unfolding row_ok_def by simp

lemma row_okD:
  assumes "row_ok R good iid_of weak a"
  shows "ad_result a = Some r \<Longrightarrow> good r \<and> iid_of r = ad_iid a"
    and "ad_audit_seq a = Some s \<Longrightarrow> \<exists>r. ad_result a = Some r \<and> (ad_iid a, r, s) \<in> set R"
    and "(ad_iid a, b, s) \<in> set R \<Longrightarrow> ad_result a = Some b \<and> (ad_audit_seq a = Some s \<or> weak \<and> ad_audit_seq a = None)"
  using assms unfolding row_ok_def by simp_all

lemma row_ok_weaken: "row_ok R good iid_of w a \<Longrightarrow> row_ok R good iid_of True a"
  by (rule row_okI) (use row_okD in metis)+

lemma rows_ok_weaken: "rows_ok R good iid_of w as \<Longrightarrow> rows_ok R good iid_of True as"
  unfolding rows_ok_def using row_ok_weaken by blast

lemma rows_ok_strong:
  assumes "rows_ok R good iid_of True as" and "\<forall>a \<in> set as. ad_result a \<noteq> None \<longrightarrow> ad_audit_seq a \<noteq> None"
  shows "rows_ok R good iid_of w as"
proof -
  have "row_ok R good iid_of w a" if "a \<in> set as" for a
  proof -
    have a: "row_ok R good iid_of True a" "ad_result a \<noteq> None \<longrightarrow> ad_audit_seq a \<noteq> None" using assms that by (simp_all add: rows_ok_def)
    show ?thesis
    proof (rule row_okI)
      fix b s
      assume "(ad_iid a, b, s) \<in> set R"
      with row_okD(3) [OF a(1) this] a(2)
      show "ad_result a = Some b \<and> (ad_audit_seq a = Some s \<or> w \<and> ad_audit_seq a = None)" by auto
    qed (use row_okD(1,2) [OF a(1)] in blast)+
  qed
  then show ?thesis using assms(1) by (simp add: rows_ok_def)
qed

text \<open>Changes of a row that leave what is looked at here.\<close>

definition keeps_row :: "(admission \<Rightarrow> admission) \<Rightarrow> bool" where
  "keeps_row f \<longleftrightarrow> (\<forall>a. ad_spec_id (f a) = ad_spec_id a \<and> ad_iid (f a) = ad_iid a \<and> ad_result (f a) = ad_result a
     \<and> ad_audit_seq (f a) = ad_audit_seq a)"

lemma row_ok_keeps: "keeps_row f \<Longrightarrow> row_ok R good iid_of w (f a) \<longleftrightarrow> row_ok R good iid_of w a"
  by (simp add: keeps_row_def row_ok_def)

lemma rows_ok_update:
  assumes "rows_ok R good iid_of w as" and "\<And>a. ad_spec_id (f a) = ad_spec_id a \<and> ad_iid (f a) = ad_iid a"
    and "\<And>a. a \<in> set as \<Longrightarrow> P a \<Longrightarrow> row_ok R good iid_of w (f a)"
  shows "rows_ok R good iid_of w (update_rows P f as)"
proof -
  have "map ad_spec_id (update_rows P f as) = map ad_spec_id as" "map ad_iid (update_rows P f as) = map ad_iid as"
    using assms(2) by (auto simp: update_rows_def)
  moreover have "\<forall>a \<in> set (update_rows P f as). row_ok R good iid_of w a"
    using assms(1,3) by (auto simp: update_rows_def rows_ok_def)
  ultimately show ?thesis using assms(1) by (simp add: rows_ok_def)
qed

lemma rows_ok_filter: "rows_ok R good iid_of w as \<Longrightarrow> rows_ok R good iid_of w (filter P as)"
  by (auto simp: rows_ok_def distinct_map inj_on_def)

subsection \<open>Operations of the ledger\<close>

text \<open>A result that is saved is for the instruction of its admission, and the platform uses an instruction
  identifier once; links are made by flush only.\<close>

fun op_allowed :: "(string \<times> bytes \<times> nat) list \<Rightarrow> (bytes \<Rightarrow> bool) \<Rightarrow> (bytes \<Rightarrow> string) \<Rightarrow> vop \<Rightarrow> vledger \<Rightarrow> bool" where
  "op_allowed R good iid_of (VSave i st r) V \<longleftrightarrow> good r \<and> (\<forall>a \<in> set (vl_admissions V). ad_spec_id a = i \<longrightarrow> iid_of r = ad_iid a)"
| "op_allowed R good iid_of (VAdmit be ce a at) V \<longleftrightarrow> ad_iid a \<notin> ad_iid ` set (vl_admissions V) \<and> ad_iid a \<notin> fst ` set R"
| "op_allowed R good iid_of (VAudit i seq) V \<longleftrightarrow> False"
| "op_allowed R good iid_of _ V \<longleftrightarrow> True"

lemma rows_ok_op:
  assumes "rows_ok R good iid_of w (vl_admissions V)" and "op_allowed R good iid_of x V"
  shows "rows_ok R good iid_of w (vl_admissions (run_vop x V))"
proof (cases x)
  case (VAdmit be ce a at)
  show ?thesis
  proof (cases rule: admit_cases [of be ce a at V])
    case 1
    then show ?thesis using assms(1) by (simp add: VAdmit)
  next
    case (2 V')
    from admit_True [OF 2] obtain V1 where b: "bump_daily (ad_listing a) (utc_day at) V = Some V1" and ok: "admission_allowed a V1"
      and V': "V' = add_event at a ''accepted'' '''' (raise_clock at (insert_admission at a V1))" by blast
    have V1: "vl_admissions V1 = vl_admissions V" using b by (auto simp: bump_daily_def Let_def split: if_splits)
    let ?a = "a\<lparr>ad_state := ''accepted'', ad_committed := unix at, ad_day := utc_day at, ad_result := None, ad_audit_seq := None, ad_delivered := False\<rparr>"
    have adm: "vl_admissions (run_vop x V) = vl_admissions V @ [?a]"
      using 2 V1 by (simp add: VAdmit V' add_event_def raise_clock_def insert_admission_def)
    have fresh: "ad_iid a \<notin> ad_iid ` set (vl_admissions V)" "ad_iid a \<notin> fst ` set R" using assms(2) by (simp_all add: VAdmit)
    have "row_ok R good iid_of w ?a" using fresh(2) by (force simp: row_ok_def)
    moreover have "ad_spec_id a \<notin> ad_spec_id ` set (vl_admissions V)" using ok V1 by (auto simp: admission_allowed_def)
    ultimately show ?thesis unfolding adm using assms(1) fresh(1) by (auto simp: rows_ok_def)
  qed
next
  case (VSave i st r)
  have "row_ok R good iid_of w (a\<lparr>ad_state := st, ad_result := Some r\<rparr>)"
    if a: "a \<in> set (vl_admissions V)" "ad_spec_id a = i \<and> ad_result a = None" for a
  proof -
    have "row_ok R good iid_of w a" using assms(1) a(1) by (simp add: rows_ok_def)
    then have "\<forall>b s. (ad_iid a, b, s) \<notin> set R" "ad_audit_seq a = None" using a(2) by (auto simp: row_ok_def)
    then show ?thesis using assms(2) a by (simp add: row_ok_def VSave)
  qed
  then show ?thesis unfolding VSave run_vop.simps save_verification_def on_admission_def
    by (simp add: rows_ok_update [OF assms(1)])
next
  case (VPrune at)
  then show ?thesis using rows_ok_filter [OF assms(1)] by (simp add: prune_verification_def Let_def)
next
  case (VAudit i seq)
  then show ?thesis using assms(2) by simp
next
  case (VEvent a res code at)
  then show ?thesis using assms(1) by (simp add: verification_event_def add_event_def)
next
  case (VClaim i)
  have "rows_ok R good iid_of w (update_rows P (\<lambda>a. a\<lparr>ad_state := ''running''\<rparr>) (vl_admissions V))" for P
    using assms(1) by (intro rows_ok_update [OF assms(1)]) (auto simp: rows_ok_def row_ok_def)
  then show ?thesis by (simp add: VClaim claim_verification_def Let_def on_admission_def)
next
  case (VReconcile seq)
  have "rows_ok R good iid_of w (update_rows P (\<lambda>a. a\<lparr>ad_delivered := g a\<rparr>) (vl_admissions V))" for P g
    using assms(1) by (intro rows_ok_update [OF assms(1)]) (auto simp: rows_ok_def row_ok_def)
  then show ?thesis by (simp add: VReconcile reconcile_verification_def on_admission_def)
next
  case VInterrupt
  have "rows_ok R good iid_of w (update_rows P (\<lambda>a. a\<lparr>ad_state := ''interrupted''\<rparr>) (vl_admissions V))" for P
    using assms(1) by (intro rows_ok_update [OF assms(1)]) (auto simp: rows_ok_def row_ok_def)
  then show ?thesis by (simp add: VInterrupt interrupt_verifications_def on_admission_def)
qed

subsection \<open>Links and entries\<close>

lemma rows_ok_link:
  assumes "rows_ok R good iid_of w (vl_admissions V)" and "a \<in> set (vl_admissions V)" and "ad_result a = Some r"
    and "(ad_iid a, r, n) \<in> set R"
  shows "rows_ok R good iid_of w (vl_admissions (audit_verification (ad_spec_id a) n V))"
proof -
  have "row_ok R good iid_of w (b\<lparr>ad_audit_seq := Some n\<rparr>)"
    if b: "b \<in> set (vl_admissions V)" "ad_spec_id b = ad_spec_id a \<and> (ad_audit_seq b = None \<or> ad_audit_seq b = Some n)" for b
  proof -
    have ba: "b = a" using assms(1,2) b by (auto simp: rows_ok_def distinct_map inj_on_def)
    have row: "row_ok R good iid_of w a" using assms(1,2) by (simp add: rows_ok_def)
    have R: "distinct (map fst R)" using assms(1) by (simp add: rows_ok_def)
    show ?thesis unfolding ba
    proof (rule row_okI, simp_all)
      fix c s
      assume "(ad_iid a, c, s) \<in> set R"
      from eq_key_imp_eq_value [OF R this assms(4)] assms(3) show "ad_result a = Some c \<and> n = s" by simp
    qed (use row_okD(1) [OF row] assms(3,4) in auto)
  qed
  then show ?thesis unfolding audit_verification_def on_admission_def by (simp add: rows_ok_update [OF assms(1)])
qed

lemma rows_ok_entry:
  assumes "rows_ok R good iid_of w as" and "a \<in> set as" and "ad_result a = Some r" and "ad_iid a \<notin> fst ` set R" and "iid_of r = ad_iid a"
  shows "rows_ok (R @ [(iid_of r, r, n)]) good iid_of True as"
proof -
  let ?R = "R @ [(iid_of r, r, n)]"
  have rows: "row_ok R good iid_of True b" if "b \<in> set as" for b using assms(1) rows_ok_weaken that unfolding rows_ok_def by blast
  have none: "ad_audit_seq a = None"
  proof (cases "ad_audit_seq a")
    case (Some s)
    then obtain c where "(ad_iid a, c, s) \<in> set R" using row_okD(2) [OF rows [OF assms(2)]] by blast
    then have "ad_iid a \<in> fst ` set R" by (rule image_eqI [rotated]) simp
    then show ?thesis using assms(4) by blast
  qed simp
  have "row_ok ?R good iid_of True b" if b: "b \<in> set as" for b
  proof (rule row_okI)
    fix s
    assume "ad_audit_seq b = Some s"
    then show "\<exists>r. ad_result b = Some r \<and> (ad_iid b, r, s) \<in> set ?R" using row_okD(2) [OF rows [OF b]] by auto
  next
    fix c s
    assume c: "(ad_iid b, c, s) \<in> set ?R"
    show "ad_result b = Some c \<and> (ad_audit_seq b = Some s \<or> True \<and> ad_audit_seq b = None)"
    proof (cases "(ad_iid b, c, s) \<in> set R")
      case True
      then show ?thesis using row_okD(3) [OF rows [OF b]] by blast
    next
      case False
      then have "ad_iid b = ad_iid a" "c = r" using c assms(5) by auto
      moreover from this(1) have "b = a" using assms(1,2) b by (auto simp: rows_ok_def distinct_map inj_on_def)
      ultimately show ?thesis using assms(3) none by simp
    qed
  qed (use row_okD(1) [OF rows [OF b]] in blast)
  then show ?thesis using assms(1,4,5) by (simp add: rows_ok_def)
qed

lemma insert_by_set [simp]: "mset (insert_by lt x xs) = add_mset x (mset xs)"
  by (induction xs) auto

lemma verifications_mset: "mset (verifications P V) = mset (filter P (vl_admissions V))"
proof -
  have "mset (foldr (insert_by lt) xs []) = mset xs" for xs lt by (induction xs) auto
  from this [of admission_before] show ?thesis unfolding verifications_def by simp
qed

lemma verifications_set: "set (verifications P V) = set (filter P (vl_admissions V))"
  by (metis verifications_mset set_mset_mset)

lemma verifications_distinct: "distinct (map ad_spec_id (vl_admissions V)) \<Longrightarrow> distinct (map ad_spec_id (verifications P V))"
proof -
  assume "distinct (map ad_spec_id (vl_admissions V))"
  then have "distinct (map ad_spec_id (filter P (vl_admissions V)))" by (rule distinct_map_filter)
  then show ?thesis by (metis verifications_mset mset_map mset_eq_imp_distinct_iff)
qed


subsection \<open>Flushing\<close>

definition outbox_ok :: "('l \<Rightarrow> (string \<times> bytes \<times> nat) list) \<Rightarrow> ('l \<Rightarrow> bool) \<Rightarrow> (bytes \<Rightarrow> bool) \<Rightarrow> (bytes \<Rightarrow> string) \<Rightarrow> bool \<Rightarrow> 'l runner \<Rightarrow> bool" where
  "outbox_ok reports sound good iid_of w st \<longleftrightarrow> sound (ru_log st)
     \<and> rows_ok (reports (ru_log st)) good iid_of w (vl_admissions (ru_v st))"

definition unlinked :: "admission \<Rightarrow> bool" where
  "unlinked a \<longleftrightarrow> ad_result a \<noteq> None \<and> ad_audit_seq a = None"

text \<open>What is still to be flushed, and what the walk found of it.\<close>

definition waiting :: "(string \<times> bytes \<times> nat) list \<Rightarrow> (string \<times> bytes \<times> nat) list \<Rightarrow> vledger \<Rightarrow> admission list \<Rightarrow> bool" where
  "waiting found R V as \<longleftrightarrow> distinct (map ad_spec_id as) \<and> (\<forall>a \<in> set as. a \<in> set (vl_admissions V) \<and> unlinked a)
     \<and> (\<forall>a \<in> set as. \<forall>b s. map_of found (ad_iid a) = Some (b, s) \<longleftrightarrow> (ad_iid a, b, s) \<in> set R)
     \<and> (\<forall>a \<in> set (vl_admissions V). unlinked a \<longrightarrow> a \<in> set as)"

lemma link_rows: "set (vl_admissions (audit_verification i n V))
    = {a \<in> set (vl_admissions V). \<not> (ad_spec_id a = i \<and> (ad_audit_seq a = None \<or> ad_audit_seq a = Some n))}
      \<union> (\<lambda>a. a\<lparr>ad_audit_seq := Some n\<rparr>) ` {a \<in> set (vl_admissions V). ad_spec_id a = i \<and> (ad_audit_seq a = None \<or> ad_audit_seq a = Some n)}"
  by (auto simp: audit_verification_def on_admission_def update_rows_def)

lemma waiting_link:
  assumes "waiting found R V (a # as)" and "rows_ok R' good iid_of w (vl_admissions V)" and "set R' = set R \<or> set R' = set R \<union> {(ad_iid a, r, n)}"
  shows "waiting found R' (audit_verification (ad_spec_id a) n V) as"
proof -
  note W = assms(1) [unfolded waiting_def]
  have keep: "b \<in> set (vl_admissions (audit_verification (ad_spec_id a) n V))" if b: "b \<in> set as" for b
  proof -
    have "ad_spec_id b \<noteq> ad_spec_id a" using W b by (metis distinct.simps(2) image_eqI list.set_map list.simps(9))
    then show ?thesis using W b unfolding link_rows by auto
  qed
  have iid: "ad_iid b \<noteq> ad_iid a" if b: "b \<in> set as" for b
  proof -
    have "ad_spec_id b \<noteq> ad_spec_id a" using W b by (metis distinct.simps(2) image_eqI list.set_map list.simps(9))
    then have "b \<noteq> a" by blast
    then show ?thesis using assms(2) W b by (auto simp: rows_ok_def distinct_map inj_on_def)
  qed
  have rest: "b \<in> set as" if b: "b \<in> set (vl_admissions (audit_verification (ad_spec_id a) n V))" "unlinked b" for b
  proof -
    have "ad_audit_seq (c\<lparr>ad_audit_seq := Some n\<rparr>) \<noteq> None" for c by simp
    then have m: "b \<in> set (vl_admissions V)" "\<not> (ad_spec_id b = ad_spec_id a \<and> (ad_audit_seq b = None \<or> ad_audit_seq b = Some n))"
      using b unfolding link_rows unlinked_def by blast+
    have "b \<in> set (a # as)" using W m(1) b(2) by blast
    then show ?thesis using m(2) b(2) by (auto simp: unlinked_def)
  qed
  have "\<forall>b \<in> set as. \<forall>c s. map_of found (ad_iid b) = Some (c, s) \<longleftrightarrow> (ad_iid b, c, s) \<in> set R'"
    using W assms(3) iid by auto
  then show ?thesis using W keep rest unfolding waiting_def by simp
qed

context report_log
begin

lemma link_ok:
  assumes "link_result io a n st = (e, st')" and "outbox_ok reports sound good iid_of True st"
    and "waiting found R (ru_v st) (a # as)" and "set (reports (ru_log st)) = set R \<or> set (reports (ru_log st)) = set R \<union> {(ad_iid a, r, n)}"
    and "ad_result a = Some r" and "(ad_iid a, r, n) \<in> set (reports (ru_log st))"
  shows "outbox_ok reports sound good iid_of True st' \<and> ru_log st' = ru_log st
    \<and> (e = None \<longrightarrow> ru_failed st' = ru_failed st \<and> waiting found (reports (ru_log st')) (ru_v st') as) \<and> (e \<noteq> None \<longrightarrow> ru_failed st' \<noteq> None)"
proof (cases "ri_link io (ad_spec_id a)")
  case (Some x)
  then have "e = Some x" "st' = fail x st" using assms(1) by (simp_all add: link_result_def)
  then show ?thesis using assms(2) by (simp add: fail_def outbox_ok_def)
next
  case None
  then have st': "e = None" "st' = st\<lparr>ru_v := audit_verification (ad_spec_id a) n (ru_v st)\<rparr>"
    using assms(1) by (simp_all add: link_result_def)
  have rows: "rows_ok (reports (ru_log st)) good iid_of True (vl_admissions (ru_v st))" using assms(2) by (simp add: outbox_ok_def)
  have a: "a \<in> set (vl_admissions (ru_v st))" using assms(3) by (simp add: waiting_def)
  have "rows_ok (reports (ru_log st)) good iid_of True (vl_admissions (ru_v st'))"
    using rows_ok_link [OF rows a assms(5,6)] st' by simp
  moreover have "waiting found (reports (ru_log st)) (ru_v st') as"
    using waiting_link [OF assms(3) rows assms(4)] st' by simp
  ultimately show ?thesis using st' assms(2) by (simp add: outbox_ok_def)
qed

lemma flush_one_ok:
  assumes "re_add env = add" and "flush_one env io found a st = (e, st')" and "outbox_ok reports sound good iid_of True st"
    and "waiting found (reports (ru_log st)) (ru_v st) (a # as)"
  shows "outbox_ok reports sound good iid_of True st'
    \<and> (e = None \<longrightarrow> ru_failed st' = ru_failed st \<and> waiting found (reports (ru_log st')) (ru_v st') as) \<and> (e \<noteq> None \<longrightarrow> ru_failed st' \<noteq> None)"
proof -
  let ?R = "reports (ru_log st)"
  have a: "a \<in> set (vl_admissions (ru_v st))" "unlinked a"
    "\<And>b s. map_of found (ad_iid a) = Some (b, s) \<longleftrightarrow> (ad_iid a, b, s) \<in> set ?R" using assms(4) by (auto simp: waiting_def)
  have rows: "rows_ok ?R good iid_of True (vl_admissions (ru_v st))" and snd: "sound (ru_log st)" using assms(3) by (simp_all add: outbox_ok_def)
  obtain r where r: "ad_result a = Some r" using a(2) by (auto simp: unlinked_def)
  have row: "row_ok ?R good iid_of True a" using rows a(1) by (simp add: rows_ok_def)
  have g: "good r" "iid_of r = ad_iid a" using row_okD(1) [OF row r] by simp_all
  show ?thesis
  proof (cases "map_of found (ad_iid a)")
    case (Some bs)
    obtain b s where bs: "bs = (b, s)" by fastforce
    then have m: "(ad_iid a, b, s) \<in> set ?R" using Some a(3) by simp
    then have "b = r" using row_okD(3) [OF row] r by fastforce
    then have "link_result io a s st = (e, st')" using assms(2) Some bs r by (simp add: flush_one_def result_of_def)
    from link_ok [OF this assms(3,4) _ r] m \<open>b = r\<close> show ?thesis by auto
  next
    case None
    show ?thesis
    proof (cases "add (ad_spec_id a) r (ru_log st)")
      case (Pair x l)
      show ?thesis
      proof (cases x)
        case (Inl y)
        then have st': "e = Some y" "st' = fail y (st\<lparr>ru_log := l\<rparr>)"
          using assms(1,2) None Pair r by (simp_all add: flush_one_def result_of_def)
        have out: "ad_iid a \<notin> fst ` set ?R" using None a(3) by force
        from add_error [OF snd g(1) Pair [unfolded Inl]] have "sound l \<and> rows_ok (reports l) good iid_of True (vl_admissions (ru_v st))"
          using rows rows_ok_entry [OF rows a(1) r out g(2)] by auto
        then show ?thesis using st' by (simp add: fail_def outbox_ok_def)
      next
        case (Inr n)
        have out: "ad_iid a \<notin> fst ` set ?R" using None a(3) by force
        have l: "sound l" "reports l = ?R @ [(ad_iid a, r, n)]" using add_ok [OF snd g(1) Pair [unfolded Inr]] g(2) by simp_all
        let ?st = "st\<lparr>ru_log := l\<rparr>"
        have lk: "link_result io a n ?st = (e, st')" using assms(1,2) None Pair Inr r by (simp add: flush_one_def result_of_def)
        have "outbox_ok reports sound good iid_of True ?st"
          using rows_ok_entry [OF rows a(1) r out g(2), of n] l g(2) by (simp add: outbox_ok_def)
        moreover have w: "waiting found ?R (ru_v ?st) (a # as)" using assms(4) by simp
        moreover have "set (reports (ru_log ?st)) = set ?R \<or> set (reports (ru_log ?st)) = set ?R \<union> {(ad_iid a, r, n)}"
          "(ad_iid a, r, n) \<in> set (reports (ru_log ?st))" using l by auto
        ultimately have "outbox_ok reports sound good iid_of True st' \<and> ru_log st' = ru_log ?st
          \<and> (e = None \<longrightarrow> ru_failed st' = ru_failed ?st \<and> waiting found (reports (ru_log st')) (ru_v st') as) \<and> (e \<noteq> None \<longrightarrow> ru_failed st' \<noteq> None)"
          using link_ok [OF lk _ w _ r] by blast
        then show ?thesis by auto
      qed
    qed
  qed
qed

lemma flush_loop_ok:
  assumes "re_add env = add" and "flush_loop env io found as st = (e, st')" and "outbox_ok reports sound good iid_of True st"
    and "waiting found (reports (ru_log st)) (ru_v st) as"
  shows "outbox_ok reports sound good iid_of True st'
    \<and> (e = None \<longrightarrow> ru_failed st' = ru_failed st \<and> (\<forall>a \<in> set (vl_admissions (ru_v st')). \<not> unlinked a)) \<and> (e \<noteq> None \<longrightarrow> ru_failed st' \<noteq> None)"
  using assms(2-4)
proof (induction as arbitrary: st)
  case Nil
  then show ?case by (auto simp: waiting_def)
next
  case (Cons a as)
  obtain x st1 where one: "flush_one env io found a st = (x, st1)" by fastforce
  note f = flush_one_ok [OF assms(1) one Cons.prems(2,3)]
  show ?case
  proof (cases x)
    case None
    then show ?thesis using Cons.IH [of st1] Cons.prems(1) one f by simp
  next
    case (Some y)
    then have "e = Some y" "st' = st1" using Cons.prems(1) one by simp_all
    then show ?thesis using f Some by auto
  qed
qed

lemma mirror_keeps: "mirror_run env io lab st = (e, st1) \<Longrightarrow> ru_v st1 = ru_v st \<and> ru_log st1 = ru_log st
    \<and> (e = None \<longrightarrow> ru_failed st1 = ru_failed st) \<and> (e \<noteq> None \<longrightarrow> ru_failed st1 \<noteq> None)"
  by (auto simp: mirror_run_def mirror_local_def fail_def split: prod.splits option.splits)

text \<open>A flush without a walk keeps the strong relation, one with a walk restores it.\<close>

lemma flush_ok:
  assumes "re_add env = add" and "re_walk env = walk" and "flush env io history st = (e, st')"
    and "outbox_ok reports sound good iid_of w st" and "w \<longrightarrow> history" and "history \<longrightarrow> whole (ru_log st)"
  shows "outbox_ok reports sound good iid_of True st'
    \<and> (e = None \<longrightarrow> ru_failed st' = None \<and> (\<forall>a \<in> set (vl_admissions (ru_v st')). \<not> unlinked a))
    \<and> (e = None \<or> \<not> w \<and> ru_failed st' = None \<longrightarrow> outbox_ok reports sound good iid_of False st')"
proof (cases "ru_failed st")
  case (Some x)
  then show ?thesis using assms(3,4) rows_ok_weaken by (auto simp: flush_def outbox_ok_def)
next
  case nf: None
  obtain x st1 where m: "mirror_run env io ''flush'' st = (x, st1)" by fastforce
  note k = mirror_keeps [OF m]
  have ok1: "outbox_ok reports sound good iid_of w st1" "outbox_ok reports sound good iid_of True st1"
    using k assms(4) rows_ok_weaken by (auto simp: outbox_ok_def)
  have strong: "outbox_ok reports sound good iid_of False s" if "outbox_ok reports sound good iid_of True s"
    "\<forall>a \<in> set (vl_admissions (ru_v s)). \<not> unlinked a" for s
  proof -
    have "\<forall>a \<in> set (vl_admissions (ru_v s)). ad_result a \<noteq> None \<longrightarrow> ad_audit_seq a \<noteq> None" using that(2) by (auto simp: unlinked_def)
    with that(1) show ?thesis unfolding outbox_ok_def using rows_ok_strong by blast
  qed
  have early: ?thesis if "st' = st1" "e \<noteq> None"
    using that ok1 k by (cases w) auto
  show ?thesis
  proof (cases "x = None \<and> ri_db io ''unlinked'' = None")
    case False
    have "flush env io history st = (if x \<noteq> None then x else ri_db io ''unlinked'', st1)"
      using nf m False by (cases x; cases "ri_db io ''unlinked''") (simp_all add: flush_def)
    moreover have "(if x \<noteq> None then x else ri_db io ''unlinked'') \<noteq> None" using False by auto
    ultimately show ?thesis using assms(3) by (intro early) (simp_all del: option.discI not_None_eq)
  next
    case True
    let ?p = "unlinked_verifications (ru_v st1)"
    have p: "set ?p = {a \<in> set (vl_admissions (ru_v st1)). unlinked a}"
      by (auto simp: unlinked_verifications_def verifications_set unlinked_def)
    show ?thesis
    proof (cases "?p = []")
      case empty: True
      then have "st' = st1" "e = None" using assms(3) nf m True by (simp_all add: flush_def)
      moreover have "\<forall>a \<in> set (vl_admissions (ru_v st1)). \<not> unlinked a" using p empty by auto
      ultimately show ?thesis using ok1 strong k True nf by simp
    next
      case False
      show ?thesis
      proof (cases "if history then walk (ru_log st1) else Inr []")
        case (Inl y)
        then have "flush env io history st = (Some y, st1)" using assms(2) nf m True False by (auto simp: flush_def Let_def split: if_splits)
        then show ?thesis using early assms(3) by simp
      next
        case (Inr found)
        have loop: "flush_loop env io (rev found) ?p st1 = (e, st')"
        proof -
          have "flush env io history st = flush_loop env io (rev found) ?p st1" using assms(2) nf m True False Inr by (auto simp: flush_def Let_def split: if_splits)
          then show ?thesis using assms(3) by simp
        qed
        have rows: "rows_ok (reports (ru_log st1)) good iid_of w (vl_admissions (ru_v st1))" "sound (ru_log st1)" using ok1(1) by (simp_all add: outbox_ok_def)
        have d: "distinct (map ad_spec_id ?p)" using rows(1) by (simp add: unlinked_verifications_def verifications_distinct rows_ok_def)
        have look: "map_of (rev found) (ad_iid a) = Some (b, s) \<longleftrightarrow> (ad_iid a, b, s) \<in> set (reports (ru_log st1))" if a: "a \<in> set ?p" for a b s
        proof (cases history)
          case True
          then have "found = reports (ru_log st1)" using Inr walk_ok [OF rows(2)] assms(6) k by simp
          moreover have "distinct (map fst (rev (reports (ru_log st1))))" using rows(1) by (simp add: rows_ok_def flip: rev_map)
          ultimately show ?thesis using map_of_eq_Some_iff [of "rev found"] by simp
        next
          case False
          then have "found = []" "\<not> w" using Inr assms(5) by simp_all
          moreover have "(ad_iid a, b, s) \<notin> set (reports (ru_log st1))"
          proof
            assume i: "(ad_iid a, b, s) \<in> set (reports (ru_log st1))"
            have "row_ok (reports (ru_log st1)) good iid_of w a" "unlinked a" using rows(1) a p by (auto simp: rows_ok_def)
            from row_okD(3) [OF this(1) i] this(2) \<open>\<not> w\<close> show False by (simp add: unlinked_def)
          qed
          ultimately show ?thesis by simp
        qed
        have "waiting (rev found) (reports (ru_log st1)) (ru_v st1) ?p"
          using d p look unfolding waiting_def by auto
        from flush_loop_ok [OF assms(1) loop ok1(2) this] strong k True nf show ?thesis by auto
      qed
    qed
  qed
qed

end

subsection \<open>The audit log as such a log\<close>

text \<open>Append of a result, as the raw message it is; \<open>io\<close> and \<open>time\<close> by the admission.\<close>

definition append_report :: "audit_env \<Rightarrow> (string \<Rightarrow> append_io) \<Rightarrow> (string \<Rightarrow> string) \<Rightarrow> string \<Rightarrow> bytes \<Rightarrow> audit_log \<times> disk
    \<Rightarrow> (gw_error + nat) \<times> (audit_log \<times> disk)" where
  "append_report ae io time i r LD =
     (case document_of (ae_lex ae) r of None \<Rightarrow> (Inl (ErrMsg ''invalid audit JSON''), LD)
      | Some v \<Rightarrow> (case AuditLog.append ae (io i) (time i) ''scan_report'' v LD of
          (Inl e, LD') \<Rightarrow> (Inl e, LD') | (Inr en, LD') \<Rightarrow> (Inr (en_seq en), LD')))"

text \<open>The walk of flush: the scan reports that name an instruction, with the bytes of their bodies.
  json.Unmarshal of the instruction identifier is an argument.\<close>

definition entry_report :: "(bytes \<Rightarrow> gw_error + string) \<Rightarrow> entry \<Rightarrow> (string \<times> bytes \<times> nat) list" where
  "entry_report dec en = (if en_type en = ''scan_report''
     then (case dec (canonical (en_body en)) of Inl e \<Rightarrow> []
       | Inr iid \<Rightarrow> if iid = '''' then [] else [(iid, canonical (en_body en), en_seq en)]) else [])"

definition visit_report :: "(bytes \<Rightarrow> gw_error + string) \<Rightarrow> entry \<Rightarrow> (string \<times> bytes \<times> nat) list \<Rightarrow> gw_error option \<times> (string \<times> bytes \<times> nat) list" where
  "visit_report dec en m = (None, m @ entry_report dec en)"

definition walk_reports :: "audit_env \<Rightarrow> (bytes \<Rightarrow> gw_error + string) \<Rightarrow> audit_log \<times> disk \<Rightarrow> gw_error + (string \<times> bytes \<times> nat) list" where
  "walk_reports ae dec LD = (case Outbox.walk ae (visit_report dec) (snd LD) [] of (Some e, m) \<Rightarrow> Inl e | (None, m) \<Rightarrow> Inr m)"

definition line_report :: "audit_env \<Rightarrow> (bytes \<Rightarrow> gw_error + string) \<Rightarrow> string \<Rightarrow> (string \<times> bytes \<times> nat) list" where
  "line_report ae dec line = (case ae_unmarshal ae line of Inl e \<Rightarrow> [] | Inr en \<Rightarrow> entry_report dec en)"

definition logged_reports :: "audit_env \<Rightarrow> (bytes \<Rightarrow> gw_error + string) \<Rightarrow> audit_log \<times> disk \<Rightarrow> (string \<times> bytes \<times> nat) list" where
  "logged_reports ae dec LD = concat (map (line_report ae dec) (disk_lines (snd LD)))"

definition report_iid :: "(bytes \<Rightarrow> gw_error + string) \<Rightarrow> bytes \<Rightarrow> string" where
  "report_iid dec r = (case dec r of Inl e \<Rightarrow> '''' | Inr iid \<Rightarrow> iid)"

text \<open>What the code relies on of encoding/json for one result: it is the canonical text of a document,
  its instruction is read back, and so is the entry a log makes of it. The log here is whole, or has
  failed and takes nothing.\<close>

definition report_good :: "audit_env \<Rightarrow> (bytes \<Rightarrow> gw_error + string) \<Rightarrow> bytes \<Rightarrow> bool" where
  "report_good ae dec r \<longleftrightarrow> report_iid dec r \<noteq> '''' \<and> (\<exists>v. document_of (ae_lex ae) r = Some v \<and> canonical v = r
     \<and> (\<forall>time L D. log_sound ae (L, D) \<longrightarrow> reads_back ae time ''scan_report'' v L))"

lemma prepared_report:
  assumes "report_good ae dec r" and "document_of (ae_lex ae) r = Some v" and "log_sound ae (L, D)"
    and "prepare_entry ae time ''scan_report'' v L = Inr (en, line)"
  shows "line_report ae dec line = [(report_iid dec r, r, en_seq en)]"
proof -
  have c: "canonical v = r" "reads_back ae time ''scan_report'' v L" "report_iid dec r \<noteq> ''''"
    using assms(1-3) by (auto simp: report_good_def)
  then have "ae_unmarshal ae line = Inr en" using assms(4) by (simp add: reads_back_def)
  moreover have "en_type en = ''scan_report''" "en_body en = v"
    using prepare_entryD [OF assms(4)] by (simp_all add: next_entry_def Let_def)
  ultimately show ?thesis using c by (auto simp: line_report_def entry_report_def report_iid_def split: sum.splits)
qed

lemma walked_reports:
  assumes "\<And>en m. visit en m = (None, m @ entry_report dec en)"
  shows "walk_lines ae visit ls m = (None, m') \<Longrightarrow> m' = m @ concat (map (line_report ae dec) ls)"
proof (induction ls arbitrary: m)
  case (Cons l ls)
  obtain en where en: "ae_unmarshal ae l = Inr en" "walk_lines ae visit ls (m @ entry_report dec en) = (None, m')"
  proof -
    have "walk_lines ae visit (l # ls) m = (if length l \<ge> max_line then (Some (ErrMsg ''token too long''), m)
        else case ae_unmarshal ae l of Inl e \<Rightarrow> (Some e, m) | Inr en \<Rightarrow> walk_lines ae visit ls (m @ entry_report dec en))"
      by (simp add: assms split: sum.splits)
    then show thesis using Cons.prems that by (auto split: if_splits sum.splits)
  qed
  from Cons.IH [OF en(2)] en(1) show ?case by (simp add: line_report_def)
qed simp

text \<open>A log that is walked is whole, as it is right after it is opened.\<close>

definition log_whole :: "audit_env \<Rightarrow> audit_log \<times> disk \<Rightarrow> bool" where
  "log_whole ae LD \<longleftrightarrow> (\<exists>ps. snd LD = disk_of ps \<and> parts_ok ae ps)"

interpretation report_sink: report_log "append_report ae io time" "walk_reports ae dec" "report_iid dec" "report_good ae dec"
    "logged_reports ae dec" "log_sound ae" "log_whole ae"
  for ae :: audit_env and io time dec
proof
  fix l l' :: "audit_log \<times> disk" and i r n
  assume s: "log_sound ae l" and g: "report_good ae dec r" and ap: "append_report ae io time i r l = (Inr n, l')"
  obtain L D L' D' where l: "l = (L, D)" "l' = (L', D')" by (metis surj_pair)
  obtain v where v: "document_of (ae_lex ae) r = Some v" "reads_back ae (time i) ''scan_report'' v L"
    using g s l(1) by (auto simp: report_good_def)
  obtain en where app: "AuditLog.append ae (io i) (time i) ''scan_report'' v (L, D) = (Inr en, L', D')" "n = en_seq en"
    using ap v(1) l by (auto simp: append_report_def split: prod.splits sum.splits)
  from append_sound [OF _ v(2) app(1)] s l(1) obtain line where p: "log_sound ae (L', D')"
    "prepare_entry ae (time i) ''scan_report'' v L = Inr (en, line)" "disk_lines D' = disk_lines D @ [line]" by auto
  show "log_sound ae l' \<and> logged_reports ae dec l' = logged_reports ae dec l @ [(report_iid dec r, r, n)]"
    using p prepared_report [OF g v(1) _ p(2)] s l app(2) by (simp add: logged_reports_def)
next
  fix l l' :: "audit_log \<times> disk" and i r e
  assume s: "log_sound ae l" and g: "report_good ae dec r" and ap: "append_report ae io time i r l = (Inl e, l')"
  obtain L D L' D' where l: "l = (L, D)" "l' = (L', D')" by (metis surj_pair)
  obtain v where v: "document_of (ae_lex ae) r = Some v" "reads_back ae (time i) ''scan_report'' v L"
    using g s l(1) by (auto simp: report_good_def)
  have app: "AuditLog.append ae (io i) (time i) ''scan_report'' v (L, D) = (Inl e, L', D')"
    using ap v(1) l by (auto simp: append_report_def split: prod.splits sum.splits)
  from append_sound [OF _ v(2) app] s l(1) have "log_sound ae (L', D')" "disk_lines D' = disk_lines D \<or>
      (\<exists>en line. prepare_entry ae (time i) ''scan_report'' v L = Inr (en, line) \<and> disk_lines D' = disk_lines D @ [line])" by auto
  then show "log_sound ae l' \<and> (logged_reports ae dec l' = logged_reports ae dec l
      \<or> (\<exists>n. logged_reports ae dec l' = logged_reports ae dec l @ [(report_iid dec r, r, n)]))"
    using prepared_report [OF g v(1)] s l by (auto simp: logged_reports_def)
next
  fix l :: "audit_log \<times> disk" and m
  assume w: "log_whole ae l" and wk: "walk_reports ae dec l = Inr m"
  obtain ps where ps: "snd l = disk_of ps" "parts_ok ae ps" using w by (auto simp: log_whole_def)
  have "Outbox.walk ae (visit_report dec) (snd l) [] = (None, m)" using wk by (auto simp: walk_reports_def split: prod.splits option.splits)
  then have "m = concat (map (line_report ae dec) (lines_of ps))"
    using walked_reports [OF visit_report_def, of ae dec "lines_of ps" "[]" m] scanner_lines_disk [OF ps(2)] ps(1) by (simp add: Outbox.walk_def)
  moreover have "disk_lines (disk_of ps) = lines_of ps"
    using disk_lines_tear [OF parts_ok_no_nl [OF ps(2)], of "[]"] by (simp add: tear_nil)
  ultimately show "m = logged_reports ae dec l" by (simp add: logged_reports_def ps(1))
qed


subsection \<open>Every result reaches the log once\<close>

text \<open>The runner over the audit log.\<close>

definition over_audit :: "audit_env \<Rightarrow> (bytes \<Rightarrow> gw_error + string) \<Rightarrow> (unit, audit_log \<times> disk) runner_env \<Rightarrow> bool" where
  "over_audit ae dec env \<longleftrightarrow> (\<exists>io time. re_add env = append_report ae io time) \<and> re_walk env = walk_reports ae dec"

fun ops_allowed :: "(string \<times> bytes \<times> nat) list \<Rightarrow> (bytes \<Rightarrow> bool) \<Rightarrow> (bytes \<Rightarrow> string) \<Rightarrow> vop list \<Rightarrow> vledger \<Rightarrow> bool" where
  "ops_allowed R good iid_of [] V \<longleftrightarrow> True"
| "ops_allowed R good iid_of (x # xs) V \<longleftrightarrow> op_allowed R good iid_of x V \<and> ops_allowed R good iid_of xs (run_vop x V)"

lemma rows_ok_ops:
  "rows_ok R good iid_of w (vl_admissions V) \<Longrightarrow> ops_allowed R good iid_of xs V
    \<Longrightarrow> rows_ok R good iid_of w (vl_admissions (run_vops xs V))"
  by (induction xs arbitrary: V) (auto simp: run_vops_def rows_ok_op)

text \<open>
  The steps: an operation on the ledger of admissions, a flush, an append of another message, a failure,
  a change of other state, and a restart at any point, which opens the log, may save results and
  record events, and flushes with a walk. A restart whose flush fails ends the process.
\<close>

inductive results_step :: "audit_env \<Rightarrow> (bytes \<Rightarrow> gw_error + string) \<Rightarrow> (audit_log \<times> disk) runner
    \<Rightarrow> (audit_log \<times> disk) runner \<Rightarrow> bool" for ae dec where
  rs_op: "op_allowed (logged_reports ae dec (ru_log st)) (report_good ae dec) (report_iid dec) x (ru_v st)
     \<Longrightarrow> results_step ae dec st (st\<lparr>ru_v := run_vop x (ru_v st)\<rparr>)"
| rs_flush: "over_audit ae dec env \<Longrightarrow> flush env io False st = (e, st') \<Longrightarrow> results_step ae dec st st'"
| rs_append: "ty \<noteq> ''scan_report'' \<Longrightarrow> reads_back ae at ty body (fst (ru_log st))
     \<Longrightarrow> AuditLog.append ae aio at ty body (ru_log st) = (ar, LD) \<Longrightarrow> results_step ae dec st (st\<lparr>ru_log := LD\<rparr>)"
| rs_fail: "results_step ae dec st (fail e st)"
| rs_other: "results_step ae dec st (st\<lparr>ru_ledger := L, ru_config := c, ru_keys := k, ru_queue := q, ru_local := la\<rparr>)"
| rs_restart: "open_log ae no_fault None (snd (ru_log st)) = Inr LD \<Longrightarrow> over_audit ae dec env
     \<Longrightarrow> ops_allowed (logged_reports ae dec LD) (report_good ae dec) (report_iid dec) xs (ru_v st)
     \<Longrightarrow> flush env io True (st\<lparr>ru_failed := None, ru_log := LD, ru_v := run_vops xs (ru_v st)\<rparr>) = (e, st')
     \<Longrightarrow> results_step ae dec st (case e of None \<Rightarrow> st' | Some x \<Rightarrow> fail x st')"

inductive results_reach :: "audit_env \<Rightarrow> (bytes \<Rightarrow> gw_error + string) \<Rightarrow> (audit_log \<times> disk) runner \<Rightarrow> bool" for ae dec where
  rr_start: "log_sound ae (ru_log st) \<Longrightarrow> snd (ru_log st) = [] \<Longrightarrow> ru_v st = empty_vledger \<Longrightarrow> results_reach ae dec st"
| rr_step: "results_reach ae dec st \<Longrightarrow> results_step ae dec st st' \<Longrightarrow> results_reach ae dec st'"

text \<open>Strong while the runner has not failed.\<close>

definition results_ok :: "audit_env \<Rightarrow> (bytes \<Rightarrow> gw_error + string) \<Rightarrow> (audit_log \<times> disk) runner \<Rightarrow> bool" where
  "results_ok ae dec st \<longleftrightarrow> outbox_ok (logged_reports ae dec) (log_sound ae) (report_good ae dec) (report_iid dec) (ru_failed st \<noteq> None) st"

lemma opened_whole:
  assumes "log_sound ae LD" and "open_log ae no_fault None (snd LD) = Inr LD'"
  shows "log_whole ae LD' \<and> log_sound ae LD' \<and> logged_reports ae dec LD' = logged_reports ae dec LD"
proof -
  obtain ps t where ps: "snd LD = tear t (disk_of ps)" "nl \<notin> set t" "length t < max_line" "parts_ok ae ps"
    using assms(1) by (auto simp: log_sound_def)
  obtain al where al: "open_log ae no_fault None (snd LD) = Inr (al, disk_of ps)" "log_ok ae al ps" "al_failed al = None"
    using open_log_parts [OF ps(4,2,3)] ps(1) by auto
  then have "LD' = (al, disk_of ps)" using assms(2) by simp
  moreover have "disk_lines (snd LD) = lines_of ps" "disk_lines (disk_of ps) = lines_of ps"
    using disk_lines_tear [OF parts_ok_no_nl [OF ps(4)] ps(2)] disk_lines_tear [OF parts_ok_no_nl [OF ps(4)], of "[]"] ps(1)
    by (simp_all add: tear_nil)
  ultimately show ?thesis using al ps(4) by (auto simp: log_whole_def log_sound_whole logged_reports_def)
qed

lemma results_step_ok:
  assumes "results_step ae dec st st'" and "results_ok ae dec st"
  shows "results_ok ae dec st'"
  using assms(1)
proof cases
  case (rs_op x)
  then show ?thesis using assms(2) rows_ok_op by (auto simp: results_ok_def outbox_ok_def)
next
  case (rs_flush env io e)
  obtain aio time where env: "re_add env = append_report ae aio time" "re_walk env = walk_reports ae dec"
    using rs_flush(1) by (auto simp: over_audit_def)
  show ?thesis
  proof (cases "ru_failed st = None")
    case True
    then have ok: "outbox_ok (logged_reports ae dec) (log_sound ae) (report_good ae dec) (report_iid dec) False st"
      using assms(2) by (simp add: results_ok_def)
    from report_sink.flush_ok [OF env rs_flush(2) ok] show ?thesis by (cases "ru_failed st'") (auto simp: results_ok_def)
  next
    case False
    then have "st' = st" using rs_flush(2) by (auto simp: flush_def)
    then show ?thesis using assms(2) by simp
  qed
next
  case (rs_append ty at body aio ar LD)
  obtain L D L' D' where l: "ru_log st = (L, D)" "LD = (L', D')" by (metis surj_pair)
  have sound: "log_sound ae (L, D)" using assms(2) l(1) by (simp add: results_ok_def outbox_ok_def)
  have rb: "reads_back ae at ty body L" using rs_append(3) by (simp add: l)
  have app: "AuditLog.append ae aio at ty body (L, D) = (ar, L', D')" using rs_append(4) by (simp add: l)
  note as = append_sound [OF sound rb app]
  have none: "line_report ae dec line = []" if "prepare_entry ae at ty body L = Inr (en, line)" for en line
    using that rb prepare_entryD [OF that] rs_append(2)
    by (auto simp: line_report_def entry_report_def reads_back_def next_entry_def Let_def)
  have lines: "disk_lines D' = disk_lines D \<or> (\<exists>en line. prepare_entry ae at ty body L = Inr (en, line)
      \<and> disk_lines D' = disk_lines D @ [line])"
    using as by (cases ar) auto
  then have "logged_reports ae dec LD = logged_reports ae dec (ru_log st)"
    using none by (auto simp: logged_reports_def l)
  moreover have "log_sound ae LD" using as l by simp
  ultimately show ?thesis using assms(2) rs_append(1) by (simp add: results_ok_def outbox_ok_def)
next
  case (rs_fail e)
  then show ?thesis using assms(2) rows_ok_weaken by (auto simp: results_ok_def outbox_ok_def fail_def)
next
  case (rs_other L c k q la)
  then show ?thesis using assms(2) by (simp add: results_ok_def outbox_ok_def)
next
  case (rs_restart LD env xs io e st1)
  obtain aio time where env: "re_add env = append_report ae aio time" "re_walk env = walk_reports ae dec"
    using rs_restart(3) by (auto simp: over_audit_def)
  have s: "log_sound ae (ru_log st)" using assms(2) by (simp add: results_ok_def outbox_ok_def)
  note o = opened_whole [OF s rs_restart(2), of dec]
  have "rows_ok (logged_reports ae dec LD) (report_good ae dec) (report_iid dec) True (vl_admissions (ru_v st))"
    using assms(2) o rows_ok_weaken by (auto simp: results_ok_def outbox_ok_def)
  then have "rows_ok (logged_reports ae dec LD) (report_good ae dec) (report_iid dec) True (vl_admissions (run_vops xs (ru_v st)))"
    using rs_restart(4) by (rule rows_ok_ops)
  then have ok: "outbox_ok (logged_reports ae dec) (log_sound ae) (report_good ae dec) (report_iid dec) True
      (st\<lparr>ru_failed := None, ru_log := LD, ru_v := run_vops xs (ru_v st)\<rparr>)"
    using o by (simp add: outbox_ok_def)
  from report_sink.flush_ok [OF env rs_restart(5) ok] o rs_restart(1) show ?thesis
    by (cases e) (auto simp: results_ok_def outbox_ok_def fail_def)
qed

lemma results_reach_ok: "results_reach ae dec st \<Longrightarrow> results_ok ae dec st"
proof (induction rule: results_reach.induct)
  case (rr_start st)
  then show ?case
    by (simp add: results_ok_def outbox_ok_def rows_ok_def empty_vledger_def logged_reports_def disk_lines_def)
qed (use results_step_ok in blast)



subsection \<open>A concrete runner\<close>

lemma quote_rune_Nil: "quote_rune u = [] \<Longrightarrow> u = []"
  by (auto simp: quote_rune_def quote_ascii_def u00_def Let_def split: option.splits if_splits)

lemma quote_one_letter:
  assumes "concat (map quote_rune (runes s)) = [CHR ''t'']"
  shows "s = ''t''"
proof (cases s)
  case Nil
  then show ?thesis using assms by simp
next
  case (Cons c r)
  let ?u = "take (rune_step s) s"
  have r: "runes s = ?u # runes (drop (rune_step s) s)" using Cons by (subst runes.simps) simp
  have u: "?u \<noteq> []" "hd ?u = c" using rune_step_pos [of s] Cons by (cases "rune_step s", simp_all)+
  have q: "quote_rune ?u @ concat (map quote_rune (runes (drop (rune_step s) s))) = [CHR ''t'']" using assms r by simp
  have "quote_rune ?u \<noteq> []" using quote_rune_Nil u(1) by blast
  with q have q1: "quote_rune ?u = [CHR ''t'']" "concat (map quote_rune (runes (drop (rune_step s) s))) = []"
    by (cases "quote_rune ?u"; simp)+
  have c: "c = CHR ''t''"
  proof (cases "rune_len ?u")
    case None
    then show ?thesis using q1(1) by (simp add: quote_rune_def)
  next
    case (Some n)
    then show ?thesis using q1(1) u
      by (cases ?u) (auto simp: quote_rune_def quote_ascii_def u00_def Let_def split: if_splits)
  qed
  then have step: "rune_step s = 1" using Cons by (simp add: rune_step_def rune_len_def byte_at_def)
  have "drop 1 s = []"
  proof (rule ccontr)
    assume "drop 1 s \<noteq> []"
    then have "runes (drop 1 s) = take (rune_step (drop 1 s)) (drop 1 s) # runes (drop (rune_step (drop 1 s)) (drop 1 s))"
      by (subst runes.simps) simp
    then have "quote_rune (take (rune_step (drop 1 s)) (drop 1 s)) = []" using q1(2) step by simp
    then have "take (rune_step (drop 1 s)) (drop 1 s) = []" by (rule quote_rune_Nil)
    then show False using rune_step_pos [of "drop 1 s"] \<open>drop 1 s \<noteq> []\<close> by simp
  qed
  then show ?thesis using Cons c by simp
qed

definition rp_json :: json where "rp_json = JObj [(''iid'', JStr ''i'')]"
definition rp_body :: bytes where "rp_body = canonical rp_json"

definition rp_entry :: entry where
  "rp_entry = \<lparr>en_seq = 1, en_time = ''t'', en_type = ''scan_report'', en_body = rp_json, en_prev = '''', en_sig = ''s''\<rparr>"

definition rp_line :: string where "rp_line = canonical (entry_json rp_entry)"

definition rp_chain :: audit_env where
  "rp_chain = \<lparr>ae_lex = (\<lambda>s. (json_tokens (if s = rp_body then rp_json else entry_json rp_entry), True)), ae_unmarshal = (\<lambda>_. Inr rp_entry),
     ae_sha = (\<lambda>_. ''h''), ae_sign = (\<lambda>_. ''s''), ae_verify = (\<lambda>_ _. True), ae_scan = (\<lambda>_. None)\<rparr>"

definition rp_dec :: "bytes \<Rightarrow> gw_error + string" where "rp_dec b = Inr ''i''"

lemma rp_text: "rp_body = ''{'' @ [CHR 0x22] @ ''iid'' @ [CHR 0x22] @ '':'' @ [CHR 0x22] @ ''i'' @ [CHR 0x22] @ ''}''"
  by code_simp

lemma rp_line_ok: "line_ok rp_line \<and> rp_line \<noteq> rp_body"
proof -
  have "nl \<notin> set rp_line \<and> length rp_line < 1000 \<and> rp_line \<noteq> rp_body" by code_simp
  then show ?thesis by (simp add: line_ok_def max_line_def)
qed

lemma rp_documents: "document_of (ae_lex rp_chain) rp_body = Some rp_json"
  "s \<noteq> rp_body \<Longrightarrow> document_of (ae_lex rp_chain) s = Some (entry_json rp_entry)"
proof -
  have "document_of (\<lambda>_. (json_tokens rp_json, True)) [] = Some rp_json"
    "document_of (\<lambda>_. (json_tokens (entry_json rp_entry), True)) [] = Some (entry_json rp_entry)" by code_simp+
  then show "document_of (ae_lex rp_chain) rp_body = Some rp_json"
    "s \<noteq> rp_body \<Longrightarrow> document_of (ae_lex rp_chain) s = Some (entry_json rp_entry)" by (simp_all add: document_of_def rp_chain_def)
qed

lemma rp_valid: "validate_raw rp_chain raw = Inr en \<Longrightarrow> raw = rp_line \<and> en = rp_entry"
proof -
  assume v: "validate_raw rp_chain raw = Inr en"
  have "\<not> six_fields rp_json" by code_simp
  then have "raw \<noteq> rp_body" using v rp_documents(1) by (auto simp: validate_raw_def)
  then show ?thesis using v rp_documents(2) [of raw]
    by (auto simp: validate_raw_def rp_line_def rp_chain_def split: if_splits option.splits)
qed

lemma rp_line_valid: "validate_raw rp_chain rp_line = Inr rp_entry"
proof -
  have "six_fields (entry_json rp_entry)" by code_simp
  moreover have "length rp_line \<le> max_scan_line"
  proof -
    have "length rp_line < 1000" by code_simp
    then show ?thesis by (simp add: max_scan_line_def)
  qed
  moreover have "canonical (entry_json rp_entry) = rp_line" by (simp add: rp_line_def)
  moreover have "en_seq rp_entry = 1" "en_type rp_entry = ''scan_report''" by (simp_all add: rp_entry_def)
  ultimately show ?thesis using rp_documents(2) [of rp_line] rp_line_ok
    unfolding validate_raw_def by (simp add: rp_chain_def)
qed

lemma rp_lines: "chained rp_chain n prev ls \<Longrightarrow> ls = [] \<or> n = 0 \<and> ls = [rp_line]"
proof (induction ls arbitrary: n prev)
  case (Cons l ls)
  then obtain en where "validate_raw rp_chain l = Inr en" "en_seq en = n + 1" by (auto split: sum.splits)
  then have l: "l = rp_line" "n = 0" using rp_valid [of l en] by (simp_all add: rp_entry_def)
  from Cons.IH [of "n + 1" "ae_sha rp_chain l"] Cons.prems have "ls = []" by simp
  with l show ?case by simp
qed simp

lemma rp_quotes: "quote ''h'' = [CHR 0x22, CHR ''h'', CHR 0x22]" "quote '''' = [CHR 0x22, CHR 0x22]" "quote ''t'' = [CHR 0x22, CHR ''t'', CHR 0x22]"
  by code_simp+

lemma rp_prev:
  assumes "canonical (entry_json e) = rp_line" and "en_type e = ''scan_report''" and "en_body e = rp_json"
  shows "en_prev e \<noteq> ''h''"
proof
  assume "en_prev e = ''h''"
  then show False using assms(1) [unfolded rp_line_def entry_text] assms(2,3) rp_quotes by (simp add: rp_entry_def)
qed

lemma rp_same:
  assumes "canonical (entry_json e) = rp_line" and "en_seq e = 1" and "en_prev e = ''''" and "en_type e = ''scan_report''"
    and "en_body e = rp_json" and "en_sig e = ''s''"
  shows "e = rp_entry"
proof -
  have "quote (en_time e) = quote ''t''" using assms(1) [unfolded rp_line_def entry_text] assms(2-6) by (simp add: rp_entry_def)
  then have "en_time e = ''t''"
    using quote_one_letter [of "en_time e"] rp_quotes by (simp add: quote_def)
  then show ?thesis using assms by (simp add: rp_entry_def)
qed

lemma rp_good: "report_good rp_chain rp_dec rp_body"
proof -
  have "reads_back rp_chain time ''scan_report'' rp_json L" if ls: "log_sound rp_chain (L, D)" for time L D
  proof (cases "prepare_entry rp_chain time ''scan_report'' rp_json L")
    case (Inr q)
    obtain en line where q: "q = (en, line)" by fastforce
    note p = prepare_entryD [OF Inr [unfolded q], of ErrStorage]
    have v: "\<exists>e. validate_raw rp_chain line = Inr e"
      using Inr q by (auto simp: prepare_entry_def Let_def split: option.splits if_splits sum.splits)
    then have line: "line = rp_line" using rp_valid by blast
    obtain ps where "log_ok rp_chain L ps" using ls p by (auto simp: log_sound_def)
    then have ok: "chained rp_chain 0 '''' (lines_of ps)" "al_seq L = length (lines_of ps)"
      "al_prev L = last_hash rp_chain '''' (lines_of ps)" by (simp_all add: log_ok_def parts_ok_def)
    have en: "en_seq en = al_seq L + 1" "en_prev en = al_prev L" "en_type en = ''scan_report''" "en_body en = rp_json" "en_sig en = ''s''"
      using p by (simp_all add: next_entry_def Let_def rp_chain_def)
    have c: "canonical (entry_json en) = rp_line" using conjunct1 [OF p] line by (simp only:)
    show ?thesis
    proof (cases "lines_of ps = []")
      case True
      have "en = rp_entry" by (rule rp_same) (use c en ok True in simp_all)
      then show ?thesis using Inr q line rp_line_ok by (simp add: reads_back_def rp_chain_def)
    next
      case False
      then have "lines_of ps = [rp_line]" using rp_lines [OF ok(1)] by blast
      then have "en_prev en = ''h''" using ok(3) en(2) by (simp add: rp_chain_def)
      with rp_prev [OF c en(3,4)] show ?thesis by contradiction
    qed
  qed (simp add: reads_back_def)
  then show ?thesis using rp_documents(1) unfolding report_good_def by (auto simp: report_iid_def rp_dec_def rp_body_def)
qed


definition rp_env :: "(unit, audit_log \<times> disk) runner_env" where
  "rp_env = \<lparr>re_gateway = ''g'', re_version = ''1'', re_crypto = fixed_crypto, re_private = (), re_public = fixed_key,
     re_decoders = header_decoders ''aim-scan-spec+jwt'', re_documents = plain_documents id,
     re_scan = \<lparr>sd_variant = (\<lambda>_. Inl ErrStorage), sd_envelope = (\<lambda>_. Inl ErrStorage), sd_wrapper = (\<lambda>_. Inl ErrStorage),
       sd_snapshot = (\<lambda>_. Inl ErrStorage), sd_time = (\<lambda>_. None)\<rparr>,
     re_pins = [], re_live = [],
     re_local = \<lparr>le_decode = (\<lambda>_. None), le_sha = (\<lambda>_. ''h''), le_sign = (\<lambda>_. ''s''), le_verify = (\<lambda>_ _. True), le_time = (\<lambda>_. ''t'')\<rparr>,
     re_stamp = (\<lambda>_. ''t''), re_glob = (\<lambda>_ _. True), re_real = (\<lambda>_. None), re_open = (\<lambda>_. Inl ErrStorage), re_json_valid = (\<lambda>_. False),
     re_http = (\<lambda>_ _. Inl ErrStorage), re_core_scan = (\<lambda>_ _. Inl ErrStorage), re_core_probe = (\<lambda>_ _. Inl ErrStorage),
     re_add = append_report rp_chain (\<lambda>_. no_io) (\<lambda>_. ''t''), re_walk = walk_reports rp_chain rp_dec, re_error = (\<lambda>_ l. l),
     re_saved = (\<lambda>_. Inl ErrStorage), re_mac = (\<lambda>_ b. b)\<rparr>"

definition quiet_io :: runner_io where
  "quiet_io = \<lparr>ri_now = (\<lambda>_. 1100 * nano), ri_event = (\<lambda>_. None), ri_mirror = (\<lambda>_. (\<lambda>_. \<lparr>mi_open = None, mi_write = None\<rparr>, None)), ri_db = (\<lambda>_. None),
     ri_link = (\<lambda>_. None), ri_ctx = (\<lambda>_. None), ri_nonce = Inl ErrStorage, ri_commit = None\<rparr>"

definition rp_start :: "(audit_log \<times> disk) runner" where
  "rp_start = \<lparr>ru_ledger = empty_ledger, ru_v = empty_vledger, ru_local = (\<lparr>la_last = 0, la_hash = '''', la_failed = None\<rparr>, ''''),
     ru_log = (ox_log, []), ru_failed = None, ru_keys = \<lparr>rk_private = '''', rk_commitment = '''', rk_binding = no_binding\<rparr>,
     ru_config = demo_config, ru_queue = None, ru_refusals = [], ru_excess = 0\<rparr>"

definition rp_ops :: "vop list" where
  "rp_ops = [VAdmit None None demo_admission (1100 * nano), VSave ''s'' ''reported'' rp_body]"

definition rp_saved :: "(audit_log \<times> disk) runner" where
  "rp_saved = rp_start\<lparr>ru_v := run_vops rp_ops empty_vledger\<rparr>"

lemma rp_reach_saved: "results_reach rp_chain rp_dec rp_saved"
proof -
  have "log_sound rp_chain (ox_log, disk_of [])"
    by (rule log_sound_whole) (simp_all add: parts_ok_def log_ok_def at_end_def ox_log_def lines_of_def last_entry_def)
  then have r0: "results_reach rp_chain rp_dec rp_start" by (intro rr_start) (simp_all add: rp_start_def disk_of_def)
  let ?V = "run_vop (VAdmit None None demo_admission (1100 * nano)) empty_vledger"
  have "results_step rp_chain rp_dec rp_start (rp_start\<lparr>ru_v := run_vop (VAdmit None None demo_admission (1100 * nano)) (ru_v rp_start)\<rparr>)"
    by (rule rs_op) (simp add: rp_start_def empty_vledger_def logged_reports_def disk_lines_def)
  then have r1: "results_reach rp_chain rp_dec (rp_start\<lparr>ru_v := ?V\<rparr>)"
    using rr_step [OF r0] by (simp add: rp_start_def)
  have adm: "map ad_iid (vl_admissions ?V) = [''i'']" by code_simp
  have "report_iid rp_dec rp_body = ''i''" by (simp add: report_iid_def rp_dec_def)
  then have "\<forall>a \<in> set (vl_admissions ?V). report_iid rp_dec rp_body = ad_iid a"
    using adm by (cases "vl_admissions ?V") auto
  then have "results_step rp_chain rp_dec (rp_start\<lparr>ru_v := ?V\<rparr>) (rp_start\<lparr>ru_v := ?V\<rparr>\<lparr>ru_v := run_vop (VSave ''s'' ''reported'' rp_body) (ru_v (rp_start\<lparr>ru_v := ?V\<rparr>))\<rparr>)"
    by (intro rs_op) (simp add: rp_good del: run_vop.simps)
  then show ?thesis using rr_step [OF r1] by (simp add: rp_saved_def rp_ops_def run_vops_def)
qed

text \<open>The row of the admission whose result waits.\<close>

lemma rp_pending: "\<exists>a. unlinked_verifications (ru_v rp_saved) = [a] \<and> vl_admissions (ru_v rp_saved) = [a] \<and> ad_spec_id a = ''s'' \<and> ad_iid a = ''i''
    \<and> ad_result a = Some rp_body \<and> ad_audit_seq a = None"
proof -
  let ?as = "vl_admissions (ru_v rp_saved)"
  have "length ?as = 1 \<and> map ad_spec_id ?as = [''s''] \<and> map ad_iid ?as = [''i''] \<and> map ad_result ?as = [Some rp_body] \<and> map ad_audit_seq ?as = [None]"
    by code_simp
  then obtain a where a: "?as = [a]" "ad_spec_id a = ''s''" "ad_iid a = ''i''" "ad_result a = Some rp_body" "ad_audit_seq a = None"
    by (cases ?as) auto
  then show ?thesis by (simp add: unlinked_verifications_def verifications_def)
qed

lemma rp_first: "prepare_entry rp_chain ''t'' ''scan_report'' rp_json ox_log = Inr (rp_entry, rp_line)"
proof -
  have "next_entry rp_chain ''t'' ''scan_report'' rp_json ox_log = rp_entry"
    by (simp add: next_entry_def ox_log_def rp_entry_def rp_chain_def Let_def)
  moreover have "allowed_type ''scan_report''" by code_simp
  moreover have "\<not> length rp_line > max_scan_line"
  proof -
    have "length rp_line < 1000" by code_simp
    then show ?thesis by (simp add: max_scan_line_def)
  qed
  moreover have "ae_scan rp_chain x = None" for x by (simp add: rp_chain_def)
  moreover have "canonical (entry_json rp_entry) = rp_line" by (simp add: rp_line_def)
  ultimately show ?thesis by (simp add: prepare_entry_def ox_log_def rp_line_valid Let_def)
qed

lemma rp_append: "append_report rp_chain (\<lambda>_. no_io) (\<lambda>_. ''t'') i rp_body (ox_log, [])
    = (Inr 1, ox_log\<lparr>al_rotations := [(1, 0)], al_size := length rp_line + 1, al_seq := 1, al_prev := ''h'', al_last := Some rp_entry\<rparr>,
       [(0, rp_line @ [nl])])"
proof -
  have r: "AuditLog.rotate n ox_log = ox_log" for n by (simp add: rotate_def ox_log_def)
  have "AuditLog.append rp_chain no_io ''t'' ''scan_report'' rp_json (ox_log, [])
    = (Inr rp_entry, ox_log\<lparr>al_rotations := [(1, 0)], al_size := length rp_line + 1, al_seq := 1, al_prev := ''h'', al_last := Some rp_entry\<rparr>,
       [(0, rp_line @ [nl])])"
    by (simp only: append_def prod.case rp_first sum.case option.case Let_def r)
      (simp add: ox_log_def no_io_def rp_chain_def)
  then show ?thesis by (simp add: append_report_def rp_documents) (simp add: rp_entry_def)
qed

lemma rp_flush: "\<exists>st'. flush rp_env quiet_io False rp_saved = (None, st') \<and> vl_admissions (ru_v st') \<noteq> []
     \<and> list_all (\<lambda>a. ad_result a \<noteq> None \<and> ad_iid a = ''i'' \<and> result_of a = rp_body) (vl_admissions (ru_v st'))"
proof -
  obtain a where a: "unlinked_verifications (ru_v rp_saved) = [a]" "vl_admissions (ru_v rp_saved) = [a]" "ad_spec_id a = ''s''"
    "ad_iid a = ''i''" "ad_result a = Some rp_body" "ad_audit_seq a = None" using rp_pending by blast
  obtain e st1 where m: "mirror_run rp_env quiet_io ''flush'' rp_saved = (e, st1)" by fastforce
  have "fst (mirror (re_local rp_env) (\<lambda>_. \<lparr>mi_open = None, mi_write = None\<rparr>) None (ru_v rp_saved) (ru_local rp_saved)) = None"
  proof -
    have "fst (mirror_loop env (\<lambda>_. \<lparr>mi_open = None, mi_write = None\<rparr>) k vs af) = None" for env k vs af
      by (induction vs arbitrary: k af) (auto simp: Let_def)
    then show ?thesis by (simp add: mirror_def rp_saved_def rp_start_def)
  qed
  then have e: "e = None" using m by (auto simp: mirror_run_def mirror_local_def quiet_io_def split: prod.splits option.splits)
  have k: "ru_v st1 = ru_v rp_saved" "ru_log st1 = (ox_log, [])" "ru_failed rp_saved = None"
    using report_sink.mirror_keeps [OF m] by (simp_all add: rp_saved_def rp_start_def)
  have "flush rp_env quiet_io False rp_saved = flush_loop rp_env quiet_io [] [a] st1"
    using m e k a by (simp add: flush_def Let_def quiet_io_def)
  moreover obtain LD where "re_add rp_env (ad_spec_id a) (result_of a) (ru_log st1) = (Inr 1, LD)"
    using rp_append a k by (simp add: rp_env_def result_of_def)
  ultimately have "flush rp_env quiet_io False rp_saved = (None, st1\<lparr>ru_log := LD, ru_v := audit_verification ''s'' 1 (ru_v rp_saved)\<rparr>)"
    using a k by (simp add: flush_one_def link_result_def quiet_io_def)
  then show ?thesis using a by (simp add: audit_verification_def on_admission_def update_rows_def result_of_def)
qed


end
